(* ===== verification/Prelude.thy ===== *)
theory Prelude
  imports Main "HOL-Library.Word" "HOL-Library.List_Lexorder" "HOL-Library.Multiset"
begin

text \<open>
  The vocabulary every component shares: the Rust integer types as words, fixed-width byte
  arrays \<^verbatim>\<open>[u8; N]\<close> as a type indexed by the length, the result of a fallible
  computation (a value, an error, or a panic), checked arithmetic, and the big- and
  little-endian byte forms of an integer with their round trips.
\<close>

named_theorems res_simps \<open>when a fallible computation returns a value, an error or a panic\<close>
named_theorems byte_simps \<open>byte forms of integers and arrays\<close>

section \<open>Integers and byte strings\<close>

type_synonym byte = "8 word"
type_synonym u8 = "8 word"
type_synonym u16 = "16 word"
type_synonym u32 = "32 word"
type_synonym u64 = "64 word"
type_synonym u128 = "128 word"
type_synonym usize = "64 word"
type_synonym bytes = "8 word list"

section \<open>Fallible computations\<close>

text \<open>
  \<open>Ok\<close> and \<open>Err\<close> are the constructors of \<^verbatim>\<open>Result\<close>; \<open>Panic\<close> is a call that does not return a
  value: an \<^verbatim>\<open>unwrap\<close>/\<^verbatim>\<open>expect\<close> on a missing value, a slice or index out of range, a division by
  zero, a capacity overflow, or (\<^verbatim>\<open>derive_nums_key\<close> only) a loop that never ends.
\<close>

datatype ('e, 'a) res = Ok 'a | Err 'e | Panic

primrec rbind :: "('e, 'a) res \<Rightarrow> ('a \<Rightarrow> ('e, 'b) res) \<Rightarrow> ('e, 'b) res" where
  "rbind (Ok x) f = f x"
| "rbind (Err e) f = Err e"
| "rbind Panic f = Panic"

primrec map_err :: "('e \<Rightarrow> 'f) \<Rightarrow> ('e, 'a) res \<Rightarrow> ('f, 'a) res" where
  "map_err g (Ok x) = Ok x"
| "map_err g (Err e) = Err (g e)"
| "map_err g Panic = Panic"

primrec ok_or :: "'a option \<Rightarrow> 'e \<Rightarrow> ('e, 'a) res" where
  "ok_or None e = Err e"
| "ok_or (Some x) e = Ok x"

primrec unwrap :: "'a option \<Rightarrow> ('e, 'a) res" where
  "unwrap None = Panic"
| "unwrap (Some x) = Ok x"

primrec unwrap_or :: "'a option \<Rightarrow> 'a \<Rightarrow> 'a" where
  "unwrap_or None d = d"
| "unwrap_or (Some x) d = x"

primrec is_ok :: "('e, 'a) res \<Rightarrow> bool" where
  "is_ok (Ok x) = True"
| "is_ok (Err e) = False"
| "is_ok Panic = False"

lemma rbind_Ok_iff [res_simps]: "rbind m f = Ok y \<longleftrightarrow> (\<exists>x. m = Ok x \<and> f x = Ok y)"
  by (cases m) auto

lemma rbind_Err_iff [res_simps]:
  "rbind m f = Err e \<longleftrightarrow> m = Err e \<or> (\<exists>x. m = Ok x \<and> f x = Err e)"
  by (cases m) auto

lemma rbind_Panic_iff [res_simps]:
  "rbind m f = Panic \<longleftrightarrow> m = Panic \<or> (\<exists>x. m = Ok x \<and> f x = Panic)"
  by (cases m) auto

lemma map_err_Ok_iff [res_simps]: "map_err g m = Ok x \<longleftrightarrow> m = Ok x"
  by (cases m) auto

lemma map_err_Err_iff [res_simps]: "map_err g m = Err e \<longleftrightarrow> (\<exists>e'. m = Err e' \<and> e = g e')"
  by (cases m) auto

lemma map_err_Panic_iff [res_simps]: "map_err g m = Panic \<longleftrightarrow> m = Panic"
  by (cases m) auto

lemma ok_or_Ok_iff [res_simps]: "ok_or o' e = Ok x \<longleftrightarrow> o' = Some x"
  by (cases o') auto

lemma ok_or_Err_iff [res_simps]: "ok_or o' e = Err e' \<longleftrightarrow> o' = None \<and> e' = e"
  by (cases o') auto

lemma ok_or_not_Panic [res_simps]: "ok_or o' e \<noteq> Panic"
  by (cases o') auto

lemma unwrap_Ok_iff [res_simps]: "unwrap o' = Ok x \<longleftrightarrow> o' = Some x"
  by (cases o') auto

lemma unwrap_not_Err [res_simps]: "unwrap o' \<noteq> Err e"
  by (cases o') auto

lemma unwrap_Panic_iff [res_simps]: "unwrap o' = Panic \<longleftrightarrow> o' = None"
  by (cases o') auto

lemma guard_Ok_iff [res_simps]: "(if c then Err e else k) = Ok y \<longleftrightarrow> \<not> c \<and> k = Ok y"
  by auto

lemma guard_Panic_iff [res_simps]: "(if c then Err e else k) = Panic \<longleftrightarrow> \<not> c \<and> k = Panic"
  by auto

lemma guard_Err_iff [res_simps]:
  "(if c then Err e else k) = Err e' \<longleftrightarrow> (c \<and> e' = e) \<or> (\<not> c \<and> k = Err e')"
  by auto

lemma panic_guard_Ok_iff [res_simps]: "(if c then Panic else k) = Ok y \<longleftrightarrow> \<not> c \<and> k = Ok y"
  by auto

lemma is_ok_iff [res_simps]: "is_ok m \<longleftrightarrow> (\<exists>x. m = Ok x)"
  by (cases m) auto

lemma rbind_assoc: "rbind (rbind m f) g = rbind m (\<lambda>x. rbind (f x) g)"
  by (cases m) auto

text \<open>A \<^verbatim>\<open>for\<close> loop whose body may return early: the fold stops at the first error or panic.\<close>

fun rfold :: "('x \<Rightarrow> 's \<Rightarrow> ('e, 's) res) \<Rightarrow> 'x list \<Rightarrow> 's \<Rightarrow> ('e, 's) res" where
  "rfold f [] s = Ok s"
| "rfold f (x # xs) s = rbind (f x s) (rfold f xs)"

lemma rfold_append: "rfold f (xs @ ys) s = rbind (rfold f xs s) (rfold f ys)"
proof (induction xs arbitrary: s)
  case (Cons x xs)
  then show ?case by (cases "f x s") simp_all
qed simp

text \<open>An invariant of the loop body holds of the loop.\<close>

lemma rfold_invariant:
  assumes "rfold f xs s = Ok s'" and "I s"
    and "\<And>x s s'. x \<in> set xs \<Longrightarrow> I s \<Longrightarrow> f x s = Ok s' \<Longrightarrow> I s'"
  shows "I s'"
  using assms
proof (induction xs arbitrary: s)
  case Nil
  then show ?case by simp
next
  case (Cons x xs)
  from Cons.prems(1) obtain t where t: "f x s = Ok t" "rfold f xs t = Ok s'"
    by (auto simp: res_simps)
  have "I t"
    using Cons.prems(3) [of x s t] Cons.prems(2) t(1) by simp
  then show ?case
    using Cons.IH [OF t(2)] Cons.prems(3) by (meson list.set_intros(2))
qed

text \<open>\<^verbatim>\<open>iter().map(f).collect::<Result<Vec<_>, _>>()\<close>: stops at the first error.\<close>

fun rmap :: "('x \<Rightarrow> ('e, 'y) res) \<Rightarrow> 'x list \<Rightarrow> ('e, 'y list) res" where
  "rmap f [] = Ok []"
| "rmap f (x # xs) = rbind (f x) (\<lambda>y. rbind (rmap f xs) (\<lambda>ys. Ok (y # ys)))"

lemma rmap_Ok: "rmap f xs = Ok ys \<longleftrightarrow> list_all2 (\<lambda>x y. f x = Ok y) xs ys"
  by (induction xs arbitrary: ys) (auto simp: res_simps list_all2_Cons1)

text \<open>\<^verbatim>\<open>Result::ok\<close>, for computations that never panic.\<close>

primrec ok_opt :: "('e, 'a) res \<Rightarrow> 'a option" where
  "ok_opt (Ok x) = Some x"
| "ok_opt (Err e) = None"
| "ok_opt Panic = None"

text \<open>
  A verifier that runs the executor and compares its result with the claimed one: it accepts
  exactly the executor's result, so at most one.
\<close>

locale executor =
  fixes check :: "('e, 'a) res \<Rightarrow> 'a \<Rightarrow> ('e, unit) res" and mismatch :: 'e
  assumes check_Ok: "check (Ok e) new = (if e = new then Ok () else Err mismatch)"
    and check_Err: "check (Err r) new = Err r"
    and check_Panic: "check Panic new = Panic"
begin

lemma accepted_iff: "check expected new = Ok () \<longleftrightarrow> expected = Ok new"
  by (cases expected) (simp_all add: check_Ok check_Err check_Panic)

lemma accepted_unique: "check expected a = Ok () \<Longrightarrow> check expected b = Ok () \<Longrightarrow> a = b"
  by (simp add: accepted_iff)

lemma rejected_iff:
  "check expected new = Err r \<longleftrightarrow> expected = Err r \<or> (r = mismatch \<and> (\<exists>e. expected = Ok e \<and> e \<noteq> new))"
  by (cases expected) (auto simp: check_Ok check_Err check_Panic)

lemma panics_iff: "check expected new = Panic \<longleftrightarrow> expected = Panic"
  by (cases expected) (simp_all add: check_Ok check_Err check_Panic)

end

section \<open>Checked arithmetic\<close>

definition checked_add :: "'a::len word \<Rightarrow> 'a word \<Rightarrow> 'a word option" where
  "checked_add a b = (if unat a + unat b < 2 ^ LENGTH('a) then Some (a + b) else None)"

definition checked_sub :: "'a::len word \<Rightarrow> 'a word \<Rightarrow> 'a word option" where
  "checked_sub a b = (if b \<le> a then Some (a - b) else None)"

definition checked_mul :: "'a::len word \<Rightarrow> 'a word \<Rightarrow> 'a word option" where
  "checked_mul a b = (if unat a * unat b < 2 ^ LENGTH('a) then Some (a * b) else None)"

definition saturating_add :: "'a::len word \<Rightarrow> 'a word \<Rightarrow> 'a word" where
  "saturating_add a b = (if unat a + unat b < 2 ^ LENGTH('a) then a + b else - 1)"

definition saturating_sub :: "'a::len word \<Rightarrow> 'a word \<Rightarrow> 'a word" where
  "saturating_sub a b = (if b \<le> a then a - b else 0)"

lemma checked_add_Some:
  "checked_add a b = Some c \<longleftrightarrow> unat a + unat b < 2 ^ LENGTH('a) \<and> c = a + b"
  for a b c :: "'a::len word"
  by (auto simp: checked_add_def)

lemma checked_add_unat: "checked_add a b = Some c \<Longrightarrow> unat c = unat a + unat b"
  by (auto simp: checked_add_def unat_add_lem split: if_splits)

lemma checked_sub_Some: "checked_sub a b = Some c \<longleftrightarrow> b \<le> a \<and> c = a - b"
  by (auto simp: checked_sub_def)

lemma checked_sub_unat: "checked_sub a b = Some c \<Longrightarrow> unat c = unat a - unat b \<and> unat b \<le> unat a"
  by (auto simp: checked_sub_def unat_sub word_le_nat_alt split: if_splits)

lemma checked_mul_Some:
  "checked_mul a b = Some c \<longleftrightarrow> unat a * unat b < 2 ^ LENGTH('a) \<and> c = a * b"
  for a b c :: "'a::len word"
  by (auto simp: checked_mul_def)

lemma checked_mul_unat: "checked_mul a b = Some c \<Longrightarrow> unat c = unat a * unat b"
  by (auto simp: checked_mul_def unat_mult_lem split: if_splits)

lemma unat_ucast_up:
  "LENGTH('a) \<le> LENGTH('b) \<Longrightarrow> unat (ucast (w :: 'a::len word) :: 'b::len word) = unat w"
  by (simp add: unsigned_ucast_eq take_bit_nat_eq_self_iff)
    (rule order_less_le_trans [OF unsigned_less power_increasing], simp_all)

lemma unat_word_of_nat: "n < 2 ^ LENGTH('a) \<Longrightarrow> unat (word_of_nat n :: 'a::len word) = n"
  by (simp add: unsigned_of_nat take_bit_nat_eq_self_iff)

lemma unat_lt_u64 [simp]: "unat (w :: u64) < 18446744073709551616"
  using unsigned_less [of w] by simp

lemma unat_lt_u32 [simp]: "unat (w :: u32) < 4294967296"
  using unsigned_less [of w] by simp

lemma unat_lt_u16 [simp]: "unat (w :: u16) < 65536"
  using unsigned_less [of w] by simp

lemma unat_lt_u8 [simp]: "unat (w :: u8) < 256"
  using unsigned_less [of w] by simp

lemma unat_ucast_simps [simp]:
  "unat (ucast (a :: u64) :: u128) = unat a"
  "unat (ucast (b :: u16) :: u128) = unat b"
  "unat (ucast (c :: u32) :: u64) = unat c"
  "unat (ucast (d :: u16) :: u64) = unat d"
  "unat (ucast (e :: u8) :: u64) = unat e"
  by (simp_all add: unat_ucast_up)

text \<open>the first place a value stands at (\<^verbatim>\<open>Iterator::position\<close>).\<close>

definition position :: "'a \<Rightarrow> 'a list \<Rightarrow> nat option" where
  "position j xs = find (\<lambda>i. xs ! i = j) [0 ..< length xs]"

lemma position_nth: "position j xs = Some i \<Longrightarrow> i < length xs \<and> xs ! i = j"
  by (auto simp: position_def find_Some_iff)

end
