(* ===== verification/Bytes.thy ===== *)
theory Bytes
  imports Prelude
begin

text \<open>
  Byte forms. Integers have big-endian (\<^verbatim>\<open>to_be_bytes\<close>) and little-endian
  (\<^verbatim>\<open>from_le_bytes\<close>) forms with round trips; \<open>'n barr\<close> is the type of \<^verbatim>\<open>[u8; N]\<close>, ordered
  lexicographically as Rust orders arrays; slices read as \<^verbatim>\<open>get(a..b)\<close> does.
\<close>

section \<open>Numbers as byte strings\<close>

text \<open>\<open>nat_be k n\<close> is the \<open>k\<close>-byte big-endian form of \<open>n mod 256 ^ k\<close>.\<close>

primrec nat_be :: "nat \<Rightarrow> nat \<Rightarrow> bytes" where
  "nat_be 0 n = []"
| "nat_be (Suc k) n = nat_be k (n div 256) @ [word_of_nat (n mod 256)]"

definition nat_of_be :: "bytes \<Rightarrow> nat" where
  "nat_of_be xs = foldl (\<lambda>a b. a * 256 + unat b) 0 xs"

lemma length_nat_be [simp]: "length (nat_be k n) = k"
  by (induction k arbitrary: n) auto

lemma nat_of_be_Nil [simp]: "nat_of_be [] = 0"
  by (simp add: nat_of_be_def)

lemma nat_of_be_snoc [simp]: "nat_of_be (xs @ [b]) = nat_of_be xs * 256 + unat b"
  by (simp add: nat_of_be_def)

lemma unat_byte_of_nat: "n < 256 \<Longrightarrow> unat (word_of_nat n :: byte) = n"
  by (simp add: unat_word_of_nat)

lemma nat_of_be_nat_be: "nat_of_be (nat_be k n) = n mod 256 ^ k"
proof (induction k arbitrary: n)
  case (Suc k)
  have "nat_of_be (nat_be (Suc k) n) = (n div 256 mod 256 ^ k) * 256 + n mod 256"
    by (simp add: Suc.IH unat_byte_of_nat)
  also have "\<dots> = n mod (256 * 256 ^ k)"
    by (simp add: mod_mult2_eq)
  finally show ?case by simp
qed simp

lemma nat_of_be_less: "nat_of_be xs < 256 ^ length xs"
proof (induction xs rule: rev_induct)
  case (snoc b xs)
  have "nat_of_be xs * 256 + unat b < (nat_of_be xs + 1) * 256"
    by simp
  also have "\<dots> \<le> 256 ^ length xs * 256"
    using snoc.IH by (intro mult_le_mono1) simp
  finally show ?case by (simp add: mult.commute)
qed simp

lemma nat_be_nat_of_be: "nat_be (length xs) (nat_of_be xs) = xs"
proof (induction xs rule: rev_induct)
  case (snoc b xs)
  have "(nat_of_be xs * 256 + unat b) div 256 = nat_of_be xs"
    by (simp add: div_add1_eq)
  moreover have "(nat_of_be xs * 256 + unat b) mod 256 = unat b"
    by (simp add: mod_add_eq)
  ultimately show ?case by (simp add: snoc.IH)
qed simp

lemma nat_of_be_inject: "length xs = length ys \<Longrightarrow> nat_of_be xs = nat_of_be ys \<longleftrightarrow> xs = ys"
  by (metis nat_be_nat_of_be)

lemma nat_of_be_append: "nat_of_be (xs @ ys) = nat_of_be xs * 256 ^ length ys + nat_of_be ys"
proof (induction ys rule: rev_induct)
  case (snoc b ys)
  then show ?case
    by (simp add: append_assoc [symmetric] algebra_simps del: append_assoc)
qed simp

lemma nat_of_be_replicate_0 [simp]: "nat_of_be (replicate n 0) = 0"
proof (induction n)
  case (Suc n)
  have "replicate (Suc n) (0 :: byte) = replicate n 0 @ [0]"
    by (simp add: replicate_append_same)
  then show ?case using Suc.IH by (metis add.right_neutral mult_zero_left nat_of_be_snoc unsigned_0)
qed simp

section \<open>Words as byte strings\<close>

text \<open>\<open>to_be\<close> is \<^verbatim>\<open>to_be_bytes\<close>, \<open>from_be\<close> is \<^verbatim>\<open>from_be_bytes\<close>, \<open>from_le\<close> is \<^verbatim>\<open>from_le_bytes\<close>.\<close>

definition to_be :: "'a::len word \<Rightarrow> bytes" where
  "to_be w = nat_be (LENGTH('a) div 8) (unat w)"

definition from_be :: "bytes \<Rightarrow> 'a::len word" where
  "from_be xs = word_of_nat (nat_of_be xs)"

definition to_le :: "'a::len word \<Rightarrow> bytes" where
  "to_le w = rev (to_be w)"

definition from_le :: "bytes \<Rightarrow> 'a::len word" where
  "from_le xs = from_be (rev xs)"

lemma length_to_be [simp]: "length (to_be (w :: 'a::len word)) = LENGTH('a) div 8"
  by (simp add: to_be_def)

lemma length_to_le [simp]: "length (to_le (w :: 'a::len word)) = LENGTH('a) div 8"
  by (simp add: to_le_def)

lemma pow256: "(256 :: nat) ^ (n div 8) = 2 ^ n" if "8 dvd n"
proof -
  from that obtain k where "n = 8 * k" ..
  then show ?thesis by (simp add: power_mult)
qed

lemma from_be_to_be [simp]:
  assumes "8 dvd LENGTH('a::len)"
  shows "from_be (to_be w) = (w :: 'a word)"
proof -
  have "nat_of_be (to_be w) = unat w mod 2 ^ LENGTH('a)"
    by (simp add: to_be_def nat_of_be_nat_be pow256 [OF assms])
  then show ?thesis
    by (simp add: from_be_def unsigned_less)
qed

lemma from_le_to_le [simp]:
  assumes "8 dvd LENGTH('a::len)"
  shows "from_le (to_le w) = (w :: 'a word)"
  by (simp add: from_le_def to_le_def assms)

lemma to_be_from_be:
  assumes "8 dvd LENGTH('a::len)" and "length xs = LENGTH('a) div 8"
  shows "to_be (from_be xs :: 'a word) = xs"
proof -
  have "nat_of_be xs < 2 ^ LENGTH('a)"
    using nat_of_be_less [of xs] by (simp add: assms(2) pow256 [OF assms(1)])
  then have "unat (from_be xs :: 'a word) = nat_of_be xs"
    by (simp add: from_be_def unat_word_of_nat)
  then show ?thesis
    using nat_be_nat_of_be [of xs] by (simp add: to_be_def assms(2))
qed

lemma to_be_inject [simp]:
  assumes "8 dvd LENGTH('a::len)"
  shows "to_be v = to_be w \<longleftrightarrow> v = (w :: 'a word)"
  using from_be_to_be [OF assms] by metis

lemma unat_from_be:
  assumes "8 dvd LENGTH('a::len)" and "length xs \<le> LENGTH('a) div 8"
  shows "unat (from_be xs :: 'a word) = nat_of_be xs"
proof -
  have "nat_of_be xs < 256 ^ (LENGTH('a) div 8)"
    by (rule order_less_le_trans [OF nat_of_be_less power_increasing [OF assms(2)]]) simp
  then show ?thesis
    by (simp add: from_be_def unat_word_of_nat pow256 [OF assms(1)])
qed

section \<open>Fixed-width byte arrays\<close>

text \<open>\<open>bs\<close> reads an array as a byte string; \<open>barr_of\<close> builds one (exact on strings of length \<open>N\<close>).\<close>

typedef (overloaded) ('n::len) barr = "{xs :: bytes. length xs = LENGTH('n)}"
  morphisms bs abs_barr
  by (rule exI [of _ "replicate LENGTH('n) 0"]) simp

type_synonym b32 = "32 barr"
type_synonym b33 = "33 barr"
type_synonym b64 = "64 barr"
type_synonym b80 = "80 barr"

definition barr_of :: "bytes \<Rightarrow> 'n::len barr" where
  "barr_of xs = abs_barr (take LENGTH('n) (xs @ replicate LENGTH('n) 0))"

definition fill :: "byte \<Rightarrow> 'n::len barr" where
  "fill b = abs_barr (replicate LENGTH('n) b)"

declare bs_inverse [code abstype]

lemma bs_barr_of [code abstract]:
  "bs (barr_of xs :: 'n::len barr) = take LENGTH('n) (xs @ replicate LENGTH('n) 0)"
  by (simp add: barr_of_def abs_barr_inverse)

lemma bs_fill [code abstract]: "bs (fill b :: 'n::len barr) = replicate LENGTH('n) b"
  by (simp add: fill_def abs_barr_inverse)

text \<open>\<^verbatim>\<open><[u8; N]>::try_from(slice)\<close>.\<close>

definition arr_try :: "bytes \<Rightarrow> 'n::len barr option" where
  "arr_try xs = (if length xs = LENGTH('n) then Some (barr_of xs) else None)"

lemma length_bs [simp]: "length (bs (a :: 'n::len barr)) = LENGTH('n)"
  using bs [of a] by simp

lemma fill_inject [simp]: "fill a = (fill b :: 'n::len barr) \<longleftrightarrow> a = b"
  by (metis bs_fill replicate_eq_replicate len_not_eq_0)

lemma bs_barr_of_exact [simp]: "length xs = LENGTH('n) \<Longrightarrow> bs (barr_of xs :: 'n::len barr) = xs"
  by (simp add: bs_barr_of)

lemma barr_of_bs [simp]: "barr_of (bs a) = a"
  by (simp add: bs_inject [symmetric])

lemma arr_try_bs [simp]: "arr_try (bs (a :: 'n::len barr)) = Some a"
  by (simp add: arr_try_def)

lemma arr_try_Some_iff: "arr_try xs = Some (a :: 'n::len barr) \<longleftrightarrow> xs = bs a"
  by (auto simp: arr_try_def)

lemma bs_append_inject [simp]: "bs (a :: 'n::len barr) @ xs = bs b @ ys \<longleftrightarrow> a = b \<and> xs = ys"
  by (simp add: bs_inject)

instantiation barr :: (len) equal
begin

definition equal_barr :: "'a barr \<Rightarrow> 'a barr \<Rightarrow> bool" where
  "equal_barr a b = (bs a = bs b)"

instance
  by standard (simp add: equal_barr_def bs_inject)

end

instantiation barr :: (len) linorder
begin

definition less_eq_barr :: "'a barr \<Rightarrow> 'a barr \<Rightarrow> bool" where
  "less_eq_barr a b = (bs a \<le> bs b)"

definition less_barr :: "'a barr \<Rightarrow> 'a barr \<Rightarrow> bool" where
  "less_barr a b = (bs a < bs b)"

instance
  by standard (auto simp: less_eq_barr_def less_barr_def less_le_not_le bs_inject [symmetric])

end

text \<open>Arrays of one width, read as big-endian numbers, are ordered as the numbers are.\<close>

lemma nat_of_be_Cons: "nat_of_be (x # xs) = unat x * 256 ^ length xs + nat_of_be xs"
  using nat_of_be_append [of "[x]" xs] nat_of_be_snoc [of "[]" x] by simp

lemma nat_of_be_Cons_less:
  assumes "x < y" and "length xs = length ys"
  shows "nat_of_be (x # xs) < nat_of_be (y # ys)"
proof -
  have "unat x * 256 ^ length xs + nat_of_be xs < (unat x + 1) * 256 ^ length ys"
    using nat_of_be_less [of xs] assms(2) by simp
  also have "\<dots> \<le> unat y * 256 ^ length ys"
    using assms(1) by (intro mult_le_mono1) (simp add: word_less_nat_alt)
  finally show ?thesis by (simp add: nat_of_be_Cons)
qed

lemma list_less_iff_nat_of_be:
  "length xs = length ys \<Longrightarrow> xs < ys \<longleftrightarrow> nat_of_be xs < nat_of_be ys" for xs ys :: bytes
proof (induction xs ys rule: list_induct2)
  case (Cons x xs y ys)
  consider "x < y" | "x = y" | "y < x" by (rule linorder_cases)
  then show ?case
  proof cases
    case 1
    then show ?thesis using nat_of_be_Cons_less [of x y xs ys] Cons.hyps by simp
  next
    case 2
    then show ?thesis using Cons.IH Cons.hyps by (simp add: nat_of_be_Cons)
  next
    case 3
    then show ?thesis using nat_of_be_Cons_less [of y x ys xs] Cons.hyps by auto
  qed
qed simp

lemma barr_le_iff_nat: "a \<le> b \<longleftrightarrow> nat_of_be (bs a) \<le> nat_of_be (bs b)" for a b :: "'n::len barr"
  using list_less_iff_nat_of_be [of "bs b" "bs a"] by (auto simp: less_eq_barr_def not_less [symmetric])

section \<open>Slices\<close>

text \<open>\<^verbatim>\<open>xs.get(i..j)\<close>: \<open>None\<close> when the range is decreasing or ends past the slice.\<close>

definition slice_get :: "'a list \<Rightarrow> nat \<Rightarrow> nat \<Rightarrow> 'a list option" where
  "slice_get xs i j = (if i \<le> j \<and> j \<le> length xs then Some (take (j - i) (drop i xs)) else None)"

lemma slice_get_length: "slice_get xs i j = Some ys \<Longrightarrow> length ys = j - i"
  by (auto simp: slice_get_def split: if_splits)

definition get_at :: "'a list \<Rightarrow> nat \<Rightarrow> 'a option" where
  "get_at xs i = (if i < length xs then Some (xs ! i) else None)"

text \<open>\<^verbatim>\<open>&xs[i..j]\<close> of an array whose width makes the range legal.\<close>

definition sub :: "'a list \<Rightarrow> nat \<Rightarrow> nat \<Rightarrow> 'a list" where
  "sub xs i j = take (j - i) (drop i xs)"

end
