(* ===== verification/Encoding.thy ===== *)
theory Encoding
  imports Bytes
begin

text \<open>
  The canonical encoder (\<^verbatim>\<open>satusd-types/src/encoding.rs\<close>). The \<^verbatim>\<open>Encoder\<close> is the byte buffer; each
  writer takes the buffer and returns it extended. The locale \<open>prefix_code\<close> states what the
  derived hashes rely on: an encoding only appends, and the bytes of one value are never a
  proper prefix of the bytes of another, so a sequence of fields decodes in one way only.
\<close>

section \<open>Encoder\<close>

type_synonym encoder = bytes

definition encoder_new :: encoder where
  "encoder_new = []"

definition enc_u8 :: "u8 \<Rightarrow> encoder \<Rightarrow> encoder" where
  "enc_u8 v e = e @ [v]"

definition enc_u16 :: "u16 \<Rightarrow> encoder \<Rightarrow> encoder" where
  "enc_u16 v e = e @ to_be v"

definition enc_u32 :: "u32 \<Rightarrow> encoder \<Rightarrow> encoder" where
  "enc_u32 v e = e @ to_be v"

definition enc_u64 :: "u64 \<Rightarrow> encoder \<Rightarrow> encoder" where
  "enc_u64 v e = e @ to_be v"

definition enc_bool :: "bool \<Rightarrow> encoder \<Rightarrow> encoder" where
  "enc_bool v e = e @ [if v then 0x01 else 0x00]"

definition enc_enum_u8 :: "u8 \<Rightarrow> encoder \<Rightarrow> encoder" where
  "enc_enum_u8 v e = e @ [v]"

definition enc_fixed :: "bytes \<Rightarrow> encoder \<Rightarrow> encoder" where
  "enc_fixed b e = e @ b"

text \<open>\<^verbatim>\<open>b.len() as u32\<close> truncates.\<close>

definition enc_var_bytes :: "bytes \<Rightarrow> encoder \<Rightarrow> encoder" where
  "enc_var_bytes b e = enc_u32 (word_of_nat (length b)) e @ b"

definition enc_opt :: "'a option \<Rightarrow> ('a \<Rightarrow> encoder \<Rightarrow> encoder) \<Rightarrow> encoder \<Rightarrow> encoder" where
  "enc_opt v f e = (case v of None \<Rightarrow> enc_u8 0x00 e | Some x \<Rightarrow> f x (enc_u8 0x01 e))"

definition enc_seq :: "'a list \<Rightarrow> ('a \<Rightarrow> encoder \<Rightarrow> encoder) \<Rightarrow> encoder \<Rightarrow> encoder" where
  "enc_seq items f e = fold f items (enc_u32 (word_of_nat (length items)) e)"

definition canonical_encode :: "('a \<Rightarrow> encoder \<Rightarrow> encoder) \<Rightarrow> 'a \<Rightarrow> bytes" where
  "canonical_encode encode v = encode v encoder_new"

text \<open>The statements of one \<^verbatim>\<open>encode\<close> body, run in order on the buffer.\<close>

definition emit :: "(encoder \<Rightarrow> encoder) list \<Rightarrow> encoder \<Rightarrow> encoder" where
  "emit fs e = fold (\<lambda>f. f) fs e"

section \<open>What a writer appends\<close>

named_theorems enc_simps \<open>the bytes a writer appends\<close>

lemma emit_Nil [enc_simps]: "emit [] e = e"
  by (simp add: emit_def)

lemma emit_Cons [enc_simps]: "emit (f # fs) e = emit fs (f e)"
  by (simp add: emit_def)

declare enc_u8_def [enc_simps] enc_u16_def [enc_simps] enc_u32_def [enc_simps]
  enc_u64_def [enc_simps] enc_bool_def [enc_simps] enc_enum_u8_def [enc_simps]
  enc_fixed_def [enc_simps]

definition len_bytes :: "bytes \<Rightarrow> bytes" where
  "len_bytes b = to_be (word_of_nat (length b) :: u32) @ b"

lemma enc_var_bytes_bytes [enc_simps]: "enc_var_bytes b e = e @ len_bytes b"
  by (simp add: enc_var_bytes_def enc_u32_def len_bytes_def)

definition opt_bytes :: "('a \<Rightarrow> bytes) \<Rightarrow> 'a option \<Rightarrow> bytes" where
  "opt_bytes g v = (case v of None \<Rightarrow> [0] | Some x \<Rightarrow> 1 # g x)"

definition seq_bytes :: "('a \<Rightarrow> bytes) \<Rightarrow> 'a list \<Rightarrow> bytes" where
  "seq_bytes g xs = to_be (word_of_nat (length xs) :: u32) @ concat (map g xs)"

lemma fold_appends: "(\<And>x e. f x e = e @ g x) \<Longrightarrow> fold f xs e = e @ concat (map g xs)"
  by (induction xs arbitrary: e) auto

lemma enc_opt_bytes: "(\<And>x e. f x e = e @ g x) \<Longrightarrow> enc_opt v f e = e @ opt_bytes g v"
  by (simp add: enc_opt_def opt_bytes_def enc_u8_def split: option.split)

lemma enc_seq_bytes: "(\<And>x e. f x e = e @ g x) \<Longrightarrow> enc_seq xs f e = e @ seq_bytes g xs"
  by (simp add: enc_seq_def seq_bytes_def enc_u32_def fold_appends)

lemma enc_opt_fixed [enc_simps]:
  "enc_opt v (\<lambda>x. enc_fixed (g x)) e = e @ opt_bytes g v"
  by (rule enc_opt_bytes) (simp only: enc_fixed_def)

lemma enc_opt_enum [enc_simps]:
  "enc_opt u (\<lambda>x. enc_enum_u8 (h x)) e = e @ opt_bytes (\<lambda>x. [h x]) u"
  by (rule enc_opt_bytes) (simp only: enc_enum_u8_def)

lemma enc_seq_fixed [enc_simps]:
  "enc_seq xs (\<lambda>x. enc_fixed (g x)) e = e @ seq_bytes g xs"
  by (rule enc_seq_bytes) (simp only: enc_fixed_def)

lemma enc_seq_var_bytes [enc_simps]:
  "enc_seq ys enc_var_bytes e = e @ seq_bytes len_bytes ys"
  by (rule enc_seq_bytes) (rule enc_var_bytes_bytes)

section \<open>Unique decoding\<close>

text \<open>
  \<open>self_delimiting ok g\<close>: on the values \<open>ok\<close> holds of, the bytes \<open>g x\<close> followed by anything
  determine \<open>x\<close> and what follows.
\<close>

definition self_delimiting :: "('a \<Rightarrow> bool) \<Rightarrow> ('a \<Rightarrow> bytes) \<Rightarrow> bool" where
  "self_delimiting ok g \<longleftrightarrow>
     (\<forall>x y r s. ok x \<longrightarrow> ok y \<longrightarrow> g x @ r = g y @ s \<longrightarrow> x = y \<and> r = s)"

lemma self_delimitingI:
  "(\<And>x y r s. ok x \<Longrightarrow> ok y \<Longrightarrow> g x @ r = g y @ s \<Longrightarrow> x = y \<and> r = s) \<Longrightarrow> self_delimiting ok g"
  unfolding self_delimiting_def by blast

lemma self_delimitingD:
  "self_delimiting ok g \<Longrightarrow> ok x \<Longrightarrow> ok y \<Longrightarrow> g x @ r = g y @ s \<longleftrightarrow> x = y \<and> r = s"
  unfolding self_delimiting_def by metis

lemma word32_of_nat_inject:
  assumes "(word_of_nat m :: u32) = word_of_nat n" and "m < 2 ^ 32" and "n < 2 ^ 32"
  shows "m = n"
proof -
  have u: "unat (word_of_nat k :: u32) = k" if "k < 2 ^ 32" for k
    using that by (intro unat_word_of_nat) simp
  show ?thesis using u [OF assms(2)] u [OF assms(3)] unfolding assms(1) by (rule trans [OF sym])
qed

lemma to_be_append_inject [simp]:
  "8 dvd LENGTH('a::len) \<Longrightarrow> to_be (v :: 'a word) @ r = to_be w @ s \<longleftrightarrow> v = w \<and> r = s"
  by simp

lemma concat_self_delimiting:
  assumes "self_delimiting ok g" and "length xs = length ys"
    and "\<forall>x\<in>set xs. ok x" and "\<forall>y\<in>set ys. ok y"
    and "concat (map g xs) @ r = concat (map g ys) @ s"
  shows "xs = ys \<and> r = s"
  using assms(2-)
proof (induction xs ys rule: list_induct2)
  case (Cons x xs y ys)
  then have "x = y" and "concat (map g xs) @ r = concat (map g ys) @ s"
    using self_delimitingD [OF assms(1), of x y] by auto
  then show ?case using Cons by auto
qed simp

lemma seq_self_delimiting:
  assumes "self_delimiting ok g"
  shows "self_delimiting (\<lambda>xs. length xs < 2 ^ 32 \<and> (\<forall>x\<in>set xs. ok x)) (seq_bytes g)"
proof (rule self_delimitingI)
  fix xs ys :: "'a list" and r s
  assume xs: "length xs < 2 ^ 32 \<and> (\<forall>x\<in>set xs. ok x)"
    and ys: "length ys < 2 ^ 32 \<and> (\<forall>x\<in>set ys. ok x)"
    and eq: "seq_bytes g xs @ r = seq_bytes g ys @ s"
  from eq have len: "(word_of_nat (length xs) :: u32) = word_of_nat (length ys)"
    and rest: "concat (map g xs) @ r = concat (map g ys) @ s"
    by (simp_all add: seq_bytes_def)
  from len have "length xs = length ys"
    using xs ys by (intro word32_of_nat_inject) blast+
  then show "xs = ys \<and> r = s"
    using concat_self_delimiting [OF assms _ _ _ rest] xs ys by simp
qed

lemma opt_self_delimiting:
  assumes "self_delimiting ok g"
  shows "self_delimiting (\<lambda>v. \<forall>x. v = Some x \<longrightarrow> ok x) (opt_bytes g)"
  using self_delimitingD [OF assms]
  by (intro self_delimitingI) (auto simp: opt_bytes_def split: option.splits)

lemma var_bytes_self_delimiting:
  "self_delimiting (\<lambda>b. length b < 2 ^ 32) len_bytes"
proof (rule self_delimitingI)
  fix x y r s :: bytes
  assume le: "length x < 2 ^ 32" "length y < 2 ^ 32"
    and eq: "len_bytes x @ r = len_bytes y @ s"
  from eq have "(word_of_nat (length x) :: u32) = word_of_nat (length y)" and xr: "x @ r = y @ s"
    by (simp_all add: len_bytes_def)
  then have "length x = length y"
    using le by (intro word32_of_nat_inject)
  with xr show "x = y \<and> r = s" by simp
qed

lemma barr_self_delimiting: "self_delimiting (\<lambda>_. True) (bs :: 'n::len barr \<Rightarrow> bytes)"
  by (rule self_delimitingI) simp

lemma byte_self_delimiting: "inj h \<Longrightarrow> self_delimiting (\<lambda>_. True) (\<lambda>x. [h x])"
  by (rule self_delimitingI) (auto dest: injD)

text \<open>The instances the encodings below use, as equations that peel one field off a string.\<close>

lemma seq_bs_peel:
  "length xs < 2 ^ 32 \<Longrightarrow> length ys < 2 ^ 32 \<Longrightarrow>
     seq_bytes bs xs @ r = seq_bytes bs ys @ s \<longleftrightarrow> xs = ys \<and> r = s"
  for xs ys :: "'n::len barr list"
  using self_delimitingD [OF seq_self_delimiting [OF barr_self_delimiting]] by simp

lemma opt_bs_peel [simp]: "opt_bytes bs v @ r = opt_bytes bs w @ s \<longleftrightarrow> v = w \<and> r = s"
  for v w :: "'n::len barr option"
  using self_delimitingD [OF opt_self_delimiting [OF barr_self_delimiting]] by simp

lemma var_bytes_peel:
  "length x < 2 ^ 32 \<Longrightarrow> length y < 2 ^ 32 \<Longrightarrow>
     len_bytes x @ r = len_bytes y @ s \<longleftrightarrow> x = y \<and> r = s"
  using self_delimitingD [OF var_bytes_self_delimiting, of x y r s] by simp

lemma seq_var_bytes_peel:
  "length xs < 2 ^ 32 \<Longrightarrow> (\<forall>b\<in>set xs. length b < 2 ^ 32) \<Longrightarrow>
   length ys < 2 ^ 32 \<Longrightarrow> (\<forall>b\<in>set ys. length b < 2 ^ 32) \<Longrightarrow>
     seq_bytes len_bytes xs @ r
       = seq_bytes len_bytes ys @ s \<longleftrightarrow> xs = ys \<and> r = s"
  using self_delimitingD [OF seq_self_delimiting [OF var_bytes_self_delimiting]] by simp

section \<open>The interface of a canonical encoding\<close>

locale prefix_code =
  fixes enc :: "'a \<Rightarrow> encoder \<Rightarrow> encoder"
    and ok :: "'a \<Rightarrow> bool"
  assumes appends: "enc x e = e @ enc x []"
    and delimits: "ok x \<Longrightarrow> ok y \<Longrightarrow> enc x [] @ r = enc y [] @ s \<Longrightarrow> x = y \<and> r = s"
begin

lemma self_delimiting: "self_delimiting ok (\<lambda>x. enc x [])"
  by (rule self_delimitingI) (rule delimits)

lemma canonical_encode_inject:
  "ok x \<Longrightarrow> ok y \<Longrightarrow> canonical_encode enc x = canonical_encode enc y \<longleftrightarrow> x = y"
  using delimits [of x y "[]" "[]"] by (auto simp: canonical_encode_def encoder_new_def)

lemma not_proper_prefix:
  "ok x \<Longrightarrow> ok y \<Longrightarrow> canonical_encode enc x @ r = canonical_encode enc y \<Longrightarrow> x = y \<and> r = []"
  using delimits [of x y r "[]"] by (simp add: canonical_encode_def encoder_new_def)

text \<open>Values written one after another into one buffer decode in one way.\<close>

lemma fold_inject:
  assumes "length xs = length ys" and "\<forall>x\<in>set xs. ok x" and "\<forall>y\<in>set ys. ok y"
    and "fold enc xs e = fold enc ys e"
  shows "xs = ys"
proof -
  have f: "fold enc zs e = e @ concat (map (\<lambda>x. enc x []) zs)" for zs
    by (rule fold_appends) (rule appends)
  show ?thesis
    using concat_self_delimiting [OF self_delimiting assms(1,2,3), of "[]" "[]"] assms(4)
    by (simp add: f)
qed

end

end
