(* ===== verification/Types.thy ===== *)
theory Types
  imports Encoding
begin

text \<open>
  The protocol's records and enumerations with their canonical encodings, field for field and
  in the order of \<^verbatim>\<open>satusd-types/src/types.rs\<close>. Field selectors carry a two-letter prefix per
  record. The second half shows every encoding to be a \<open>prefix_code\<close>: the encodings that have
  a list or the fixed twelve-header chain need its length in the range of its count prefix.
\<close>

section \<open>Records, enumerations and their encodings\<close>

record OutPoint =
  op_txid :: b32
  op_vout :: u32

definition encode_OutPoint :: "OutPoint \<Rightarrow> encoder \<Rightarrow> encoder" where
  "encode_OutPoint x = emit [
     enc_fixed (bs (op_txid x)),
     enc_u32 (op_vout x)]"

datatype TransitionType =
    MintCommit
  | MintFinalize
  | RedeemFastLock
  | RedeemFastFinalize
  | LockRefund
  | RedeemDirect
  | OperatorRegister
  | IssuerRegister
  | ReclaimStaleClaim
  | FinalizeClaim
  | Liquidate
  | RotateShard
  | Govern
  | Settle

fun transition_type_as_u8 :: "TransitionType \<Rightarrow> u8" where
  "transition_type_as_u8 MintCommit = 0x01"
| "transition_type_as_u8 MintFinalize = 0x02"
| "transition_type_as_u8 RedeemFastLock = 0x10"
| "transition_type_as_u8 RedeemFastFinalize = 0x11"
| "transition_type_as_u8 LockRefund = 0x12"
| "transition_type_as_u8 RedeemDirect = 0x13"
| "transition_type_as_u8 OperatorRegister = 0x20"
| "transition_type_as_u8 IssuerRegister = 0x21"
| "transition_type_as_u8 ReclaimStaleClaim = 0x30"
| "transition_type_as_u8 FinalizeClaim = 0x31"
| "transition_type_as_u8 Liquidate = 0x40"
| "transition_type_as_u8 RotateShard = 0x50"
| "transition_type_as_u8 Govern = 0x60"
| "transition_type_as_u8 Settle = 0x70"

record RedeemIntent =
  ri_version :: u16
  ri_network :: u8
  ri_redemption_id :: b32
  ri_satusd_asset_family_id :: b32
  ri_amount_satusd_atoms :: u64
  ri_user_btc_refund_pubkey :: b32
  ri_user_btc_claim_pubkey :: b32
  ri_user_asset_refund_key :: b32
  ri_operator_id :: "b32 option"
  ri_mode :: u8
  ri_payment_hash :: b32
  ri_asset_lock_csv_delta :: u32
  ri_btc_htlc_csv_delta :: u32
  ri_max_operator_fee_bps :: u16
  ri_l1_anchor_height :: u32
  ri_l1_anchor_hash :: b32
  ri_expiry_height :: u32
  ri_nonce :: b32

definition encode_RedeemIntent :: "RedeemIntent \<Rightarrow> encoder \<Rightarrow> encoder" where
  "encode_RedeemIntent x = emit [
     enc_u16 (ri_version x),
     enc_u8 (ri_network x),
     enc_fixed (bs (ri_redemption_id x)),
     enc_fixed (bs (ri_satusd_asset_family_id x)),
     enc_u64 (ri_amount_satusd_atoms x),
     enc_fixed (bs (ri_user_btc_refund_pubkey x)),
     enc_fixed (bs (ri_user_btc_claim_pubkey x)),
     enc_fixed (bs (ri_user_asset_refund_key x)),
     enc_opt (ri_operator_id x) (\<lambda>v. enc_fixed (bs v)),
     enc_u8 (ri_mode x),
     enc_fixed (bs (ri_payment_hash x)),
     enc_u32 (ri_asset_lock_csv_delta x),
     enc_u32 (ri_btc_htlc_csv_delta x),
     enc_u16 (ri_max_operator_fee_bps x),
     enc_u32 (ri_l1_anchor_height x),
     enc_fixed (bs (ri_l1_anchor_hash x)),
     enc_u32 (ri_expiry_height x),
     enc_fixed (bs (ri_nonce x))]"

record ClaimClock =
  cc_l1_anchor_height :: u32
  cc_l1_anchor_hash :: b32
  cc_l1_anchor_mtp :: u64
  cc_l1_anchor_chain_time :: u64
  cc_recent_header_chain :: "b80 list"
  cc_oracle_epoch :: u64
  cc_selected_oracle_price_e8 :: u64
  cc_max_epoch_lag_sec :: u32
  cc_oracle_future_tolerance :: u32

definition encode_ClaimClock :: "ClaimClock \<Rightarrow> encoder \<Rightarrow> encoder" where
  "encode_ClaimClock x = emit [
     enc_u32 (cc_l1_anchor_height x),
     enc_fixed (bs (cc_l1_anchor_hash x)),
     enc_u64 (cc_l1_anchor_mtp x),
     enc_u64 (cc_l1_anchor_chain_time x),
     fold (\<lambda>header. enc_fixed (bs header)) (cc_recent_header_chain x),
     enc_u64 (cc_oracle_epoch x),
     enc_u64 (cc_selected_oracle_price_e8 x),
     enc_u32 (cc_max_epoch_lag_sec x),
     enc_u32 (cc_oracle_future_tolerance x)]"

record OracleMessage =
  om_domain :: b32
  om_oracle_id :: b32
  om_oracle_set_epoch :: u64
  om_price_epoch :: u64
  om_timestamp_ms :: u64
  om_pair :: "8 barr"
  om_price_e8 :: u64
  om_source_commitment :: b32
  om_signer_pubkey :: b32
  om_signature :: b64

definition encode_OracleMessage :: "OracleMessage \<Rightarrow> encoder \<Rightarrow> encoder" where
  "encode_OracleMessage x = emit [
     enc_fixed (bs (om_domain x)),
     enc_fixed (bs (om_oracle_id x)),
     enc_u64 (om_oracle_set_epoch x),
     enc_u64 (om_price_epoch x),
     enc_u64 (om_timestamp_ms x),
     enc_fixed (bs (om_pair x)),
     enc_u64 (om_price_e8 x),
     enc_fixed (bs (om_source_commitment x)),
     enc_fixed (bs (om_signer_pubkey x)),
     enc_fixed (bs (om_signature x))]"

record LockRecord =
  lr_lock_record_version :: u16
  lr_redeem_intent_hash :: b32
  lr_lock_anchor_outpoint :: OutPoint
  lr_lock_anchor_txid :: b32
  lr_lock_script_key :: b32
  lr_lock_amount_atoms :: u64
  lr_asset_family_id :: b32
  lr_asset_lock_csv_delta :: u32
  lr_payment_hash :: b32
  lr_lineage_proof_hash :: b32
  lr_lineage_verified_by :: "b32 list"
  lr_anchor_inclusion_height :: u32

definition encode_LockRecord :: "LockRecord \<Rightarrow> encoder \<Rightarrow> encoder" where
  "encode_LockRecord x = emit [
     enc_u16 (lr_lock_record_version x),
     enc_fixed (bs (lr_redeem_intent_hash x)),
     encode_OutPoint (lr_lock_anchor_outpoint x),
     enc_fixed (bs (lr_lock_anchor_txid x)),
     enc_fixed (bs (lr_lock_script_key x)),
     enc_u64 (lr_lock_amount_atoms x),
     enc_fixed (bs (lr_asset_family_id x)),
     enc_u32 (lr_asset_lock_csv_delta x),
     enc_fixed (bs (lr_payment_hash x)),
     enc_fixed (bs (lr_lineage_proof_hash x)),
     enc_seq (lr_lineage_verified_by x) (\<lambda>v. enc_fixed (bs v)),
     enc_u32 (lr_anchor_inclusion_height x)]"

record LockFinalizeRecord =
  lf_lock_record_hash :: b32
  lf_payment_preimage :: b32
  lf_finalize_anchor_txid :: b32
  lf_finalize_anchor_outpoint :: OutPoint
  lf_protocol_sink_script_key :: b32
  lf_protocol_burn_internal_key :: b32
  lf_finalized_amount_atoms :: u64
  lf_operator_id :: b32
  lf_finalize_height :: u32
  lf_universe_burn_proof_hash :: b32

definition encode_LockFinalizeRecord :: "LockFinalizeRecord \<Rightarrow> encoder \<Rightarrow> encoder" where
  "encode_LockFinalizeRecord x = emit [
     enc_fixed (bs (lf_lock_record_hash x)),
     enc_fixed (bs (lf_payment_preimage x)),
     enc_fixed (bs (lf_finalize_anchor_txid x)),
     encode_OutPoint (lf_finalize_anchor_outpoint x),
     enc_fixed (bs (lf_protocol_sink_script_key x)),
     enc_fixed (bs (lf_protocol_burn_internal_key x)),
     enc_u64 (lf_finalized_amount_atoms x),
     enc_fixed (bs (lf_operator_id x)),
     enc_u32 (lf_finalize_height x),
     enc_fixed (bs (lf_universe_burn_proof_hash x))]"

record LockRefundRecord =
  lu_lock_record_hash :: b32
  lu_refund_anchor_txid :: b32
  lu_refund_anchor_outpoint :: OutPoint
  lu_user_signature :: b64
  lu_refund_height :: u32
  lu_asset_returned_to :: b32

definition encode_LockRefundRecord :: "LockRefundRecord \<Rightarrow> encoder \<Rightarrow> encoder" where
  "encode_LockRefundRecord x = emit [
     enc_fixed (bs (lu_lock_record_hash x)),
     enc_fixed (bs (lu_refund_anchor_txid x)),
     encode_OutPoint (lu_refund_anchor_outpoint x),
     enc_fixed (bs (lu_user_signature x)),
     enc_u32 (lu_refund_height x),
     enc_fixed (bs (lu_asset_returned_to x))]"

record BtcHtlcPayoutRecord =
  hp_operator_id :: b32
  hp_redeem_intent_hash :: b32
  hp_btc_htlc_txid :: b32
  hp_btc_htlc_vout :: u32
  hp_payment_hash :: b32
  hp_user_claim_pubkey :: b32
  hp_operator_refund_pubkey :: b32
  hp_payout_sats :: u64
  hp_btc_csv_delta :: u32
  hp_htlc_inclusion_height :: u32
  hp_htlc_inclusion_block_hash :: b32
  hp_claim_spend_txid :: b32
  hp_revealed_preimage :: b32
  hp_claim_inclusion_height :: u32
  hp_claim_inclusion_block_hash :: b32
  hp_confirmation_depth :: u32

definition encode_BtcHtlcPayoutRecord :: "BtcHtlcPayoutRecord \<Rightarrow> encoder \<Rightarrow> encoder" where
  "encode_BtcHtlcPayoutRecord x = emit [
     enc_fixed (bs (hp_operator_id x)),
     enc_fixed (bs (hp_redeem_intent_hash x)),
     enc_fixed (bs (hp_btc_htlc_txid x)),
     enc_u32 (hp_btc_htlc_vout x),
     enc_fixed (bs (hp_payment_hash x)),
     enc_fixed (bs (hp_user_claim_pubkey x)),
     enc_fixed (bs (hp_operator_refund_pubkey x)),
     enc_u64 (hp_payout_sats x),
     enc_u32 (hp_btc_csv_delta x),
     enc_u32 (hp_htlc_inclusion_height x),
     enc_fixed (bs (hp_htlc_inclusion_block_hash x)),
     enc_fixed (bs (hp_claim_spend_txid x)),
     enc_fixed (bs (hp_revealed_preimage x)),
     enc_u32 (hp_claim_inclusion_height x),
     enc_fixed (bs (hp_claim_inclusion_block_hash x)),
     enc_u32 (hp_confirmation_depth x)]"

record BtcDepositConfirmation =
  dc_deposit_tx_legacy :: bytes
  dc_inclusion_header :: b80
  dc_inclusion_block_hash :: b32
  dc_inclusion_block_height :: u32
  dc_inclusion_merkle_proof :: "b32 list"
  dc_tx_index :: u32
  dc_confirmation_headers :: "b80 list"

record BtcPayoutConfirmation =
  pc_btc_htlc_txid :: b32
  pc_btc_htlc_vout :: u32
  pc_htlc_output_value_sats :: u64
  pc_htlc_output_script :: bytes
  pc_htlc_inclusion_block_hash :: b32
  pc_htlc_inclusion_block_height :: u32
  pc_htlc_inclusion_merkle_proof :: "b32 list"
  pc_claim_spend_txid :: b32
  pc_claim_spend_input_index :: u32
  pc_claim_spend_witness :: "bytes list"
  pc_claim_tx_legacy :: bytes
  pc_revealed_preimage :: b32
  pc_claim_inclusion_block_hash :: b32
  pc_claim_inclusion_block_height :: u32
  pc_claim_inclusion_merkle_proof :: "b32 list"
  pc_confirmation_headers :: "b80 list"
  pc_htlc_tx_index :: u32
  pc_claim_tx_index :: u32
  pc_htlc_inclusion_header :: b80
  pc_claim_inclusion_header :: b80

definition encode_BtcPayoutConfirmation :: "BtcPayoutConfirmation \<Rightarrow> encoder \<Rightarrow> encoder" where
  "encode_BtcPayoutConfirmation x = emit [
     enc_fixed (bs (pc_btc_htlc_txid x)),
     enc_u32 (pc_btc_htlc_vout x),
     enc_u64 (pc_htlc_output_value_sats x),
     enc_var_bytes (pc_htlc_output_script x),
     enc_fixed (bs (pc_htlc_inclusion_block_hash x)),
     enc_u32 (pc_htlc_inclusion_block_height x),
     enc_seq (pc_htlc_inclusion_merkle_proof x) (\<lambda>v. enc_fixed (bs v)),
     enc_fixed (bs (pc_claim_spend_txid x)),
     enc_u32 (pc_claim_spend_input_index x),
     enc_seq (pc_claim_spend_witness x) enc_var_bytes,
     enc_var_bytes (pc_claim_tx_legacy x),
     enc_fixed (bs (pc_revealed_preimage x)),
     enc_fixed (bs (pc_claim_inclusion_block_hash x)),
     enc_u32 (pc_claim_inclusion_block_height x),
     enc_seq (pc_claim_inclusion_merkle_proof x) (\<lambda>v. enc_fixed (bs v)),
     enc_seq (pc_confirmation_headers x) (\<lambda>v. enc_fixed (bs v)),
     enc_u32 (pc_htlc_tx_index x),
     enc_u32 (pc_claim_tx_index x),
     enc_fixed (bs (pc_htlc_inclusion_header x)),
     enc_fixed (bs (pc_claim_inclusion_header x))]"

record RedemptionRecord =
  rr_redeem_intent_hash :: b32
  rr_lock_record_hash :: b32
  rr_btc_htlc_record_hash :: b32
  rr_btc_payout_confirmation_hash :: b32
  rr_lock_finalize_hash :: b32
  rr_selected_oracle_epoch :: u64
  rr_selected_price_e8 :: u64
  rr_gross_btc_sats :: u64
  rr_operator_fee_sats :: u64
  rr_user_payout_sats :: u64

definition encode_RedemptionRecord :: "RedemptionRecord \<Rightarrow> encoder \<Rightarrow> encoder" where
  "encode_RedemptionRecord x = emit [
     enc_fixed (bs (rr_redeem_intent_hash x)),
     enc_fixed (bs (rr_lock_record_hash x)),
     enc_fixed (bs (rr_btc_htlc_record_hash x)),
     enc_fixed (bs (rr_btc_payout_confirmation_hash x)),
     enc_fixed (bs (rr_lock_finalize_hash x)),
     enc_u64 (rr_selected_oracle_epoch x),
     enc_u64 (rr_selected_price_e8 x),
     enc_u64 (rr_gross_btc_sats x),
     enc_u64 (rr_operator_fee_sats x),
     enc_u64 (rr_user_payout_sats x)]"

record ReserveClaim =
  rc_claim_id :: b32
  rc_transition_type :: u8
  rc_operator_id :: b32
  rc_prev_state_root :: b32
  rc_new_state_root :: b32
  rc_redemption_batch_root :: b32
  rc_oracle_batch_root :: b32
  rc_lock_batch_root :: b32
  rc_payout_batch_root :: b32
  rc_confirmation_batch_root :: b32
  rc_finalize_batch_root :: b32
  rc_burn_proof_batch_root :: b32
  rc_lineage_proof_batch_root :: b32
  rc_live_da_root :: b32
  rc_archival_da_root :: b32
  rc_l1_anchor :: ClaimClock
  rc_reserve_shard_id :: u64
  rc_reimbursement_sats :: u64
  rc_proof_commitment :: b32
  rc_claim_expiry_height :: u32
  rc_operator_signature :: b64

definition encode_for_claim_id :: "ReserveClaim \<Rightarrow> encoder \<Rightarrow> encoder" where
  "encode_for_claim_id x = emit [
     enc_u8 (rc_transition_type x),
     enc_fixed (bs (rc_operator_id x)),
     enc_fixed (bs (rc_prev_state_root x)),
     enc_fixed (bs (rc_redemption_batch_root x)),
     enc_fixed (bs (rc_oracle_batch_root x)),
     enc_fixed (bs (rc_lock_batch_root x)),
     enc_fixed (bs (rc_payout_batch_root x)),
     enc_fixed (bs (rc_confirmation_batch_root x)),
     enc_fixed (bs (rc_finalize_batch_root x)),
     enc_fixed (bs (rc_burn_proof_batch_root x)),
     enc_fixed (bs (rc_lineage_proof_batch_root x)),
     enc_fixed (bs (rc_live_da_root x)),
     enc_fixed (bs (rc_archival_da_root x)),
     encode_ClaimClock (rc_l1_anchor x),
     enc_u64 (rc_reserve_shard_id x),
     enc_u64 (rc_reimbursement_sats x),
     enc_fixed (bs (rc_proof_commitment x)),
     enc_u32 (rc_claim_expiry_height x)]"

definition encode_ReserveClaim :: "ReserveClaim \<Rightarrow> encoder \<Rightarrow> encoder" where
  "encode_ReserveClaim x = emit [
     enc_fixed (bs (rc_claim_id x)),
     enc_fixed (bs (rc_new_state_root x)),
     encode_for_claim_id x,
     enc_fixed (bs (rc_operator_signature x))]"

datatype IssuerStatus =
    IssuerActive
  | IssuerPaused
  | IssuerFrozen
  | IssuerExiting

fun issuer_status_as_u8 :: "IssuerStatus \<Rightarrow> u8" where
  "issuer_status_as_u8 IssuerActive = 0"
| "issuer_status_as_u8 IssuerPaused = 1"
| "issuer_status_as_u8 IssuerFrozen = 2"
| "issuer_status_as_u8 IssuerExiting = 3"

datatype FreezeReason =
    OracleUnavailable
  | IndividualCrBelowTier1
  | ReserveCommitteeVote
  | MintProofMismatch
  | ManualEmergencyPause

fun freeze_reason_as_u8 :: "FreezeReason \<Rightarrow> u8" where
  "freeze_reason_as_u8 OracleUnavailable = 0"
| "freeze_reason_as_u8 IndividualCrBelowTier1 = 1"
| "freeze_reason_as_u8 ReserveCommitteeVote = 2"
| "freeze_reason_as_u8 MintProofMismatch = 3"
| "freeze_reason_as_u8 ManualEmergencyPause = 4"

datatype PendingClaimStatus =
    ClaimPending
  | ClaimFinalized
  | ClaimChallenged
  | ClaimExpired
  | ClaimReclaimed

fun pending_claim_status_as_u8 :: "PendingClaimStatus \<Rightarrow> u8" where
  "pending_claim_status_as_u8 ClaimPending = 0"
| "pending_claim_status_as_u8 ClaimFinalized = 1"
| "pending_claim_status_as_u8 ClaimChallenged = 2"
| "pending_claim_status_as_u8 ClaimExpired = 3"
| "pending_claim_status_as_u8 ClaimReclaimed = 4"

record IssuerPosition =
  ip_issuer_id :: b32
  ip_status :: IssuerStatus
  ip_multisig_pubkeys :: "b33 list"
  ip_multisig_threshold :: u8
  ip_reserve_deposits_sats :: u64
  ip_minted_satusd_atoms :: u64
  ip_pending_mint_atoms :: u64
  ip_collateral_ratio_ppm :: u64
  ip_last_deposit_txid :: "b32 option"
  ip_freeze_reason :: "FreezeReason option"
  ip_registered_at_height :: u32
  ip_pending_mint_commitment :: "b32 option"

definition encode_IssuerPosition :: "IssuerPosition \<Rightarrow> encoder \<Rightarrow> encoder" where
  "encode_IssuerPosition x = emit [
     enc_fixed (bs (ip_issuer_id x)),
     enc_enum_u8 (issuer_status_as_u8 (ip_status x)),
     enc_seq (ip_multisig_pubkeys x) (\<lambda>v. enc_fixed (bs v)),
     enc_u8 (ip_multisig_threshold x),
     enc_u64 (ip_reserve_deposits_sats x),
     enc_u64 (ip_minted_satusd_atoms x),
     enc_u64 (ip_pending_mint_atoms x),
     enc_u64 (ip_collateral_ratio_ppm x),
     enc_opt (ip_last_deposit_txid x) (\<lambda>v. enc_fixed (bs v)),
     enc_opt (ip_freeze_reason x) (\<lambda>r. enc_enum_u8 (freeze_reason_as_u8 r)),
     enc_u32 (ip_registered_at_height x),
     enc_opt (ip_pending_mint_commitment x) (\<lambda>v. enc_fixed (bs v))]"

record PendingClaim =
  cl_claim_id :: b32
  cl_operator_id :: b32
  cl_reserved_sats :: u64
  cl_claim_created_height :: u32
  cl_claim_expiry_height :: u32
  cl_status :: PendingClaimStatus

definition encode_PendingClaim :: "PendingClaim \<Rightarrow> encoder \<Rightarrow> encoder" where
  "encode_PendingClaim x = emit [
     enc_fixed (bs (cl_claim_id x)),
     enc_fixed (bs (cl_operator_id x)),
     enc_u64 (cl_reserved_sats x),
     enc_u32 (cl_claim_created_height x),
     enc_u32 (cl_claim_expiry_height x),
     enc_enum_u8 (pending_claim_status_as_u8 (cl_status x))]"

datatype OperatorStatus =
    OperatorActive
  | OperatorSuspended
  | OperatorSlashed

fun operator_status_as_u8 :: "OperatorStatus \<Rightarrow> u8" where
  "operator_status_as_u8 OperatorActive = 0"
| "operator_status_as_u8 OperatorSuspended = 1"
| "operator_status_as_u8 OperatorSlashed = 2"

record OperatorPosition =
  opn_operator_id :: b32
  opn_status :: OperatorStatus
  opn_operator_pubkey :: b33
  opn_bond_sats :: u64
  opn_max_claim_sats :: u64
  opn_outstanding_claim_sats :: u64
  opn_slashed_sats :: u64
  opn_registered_at_height :: u32

definition encode_OperatorPosition :: "OperatorPosition \<Rightarrow> encoder \<Rightarrow> encoder" where
  "encode_OperatorPosition x = emit [
     enc_fixed (bs (opn_operator_id x)),
     enc_enum_u8 (operator_status_as_u8 (opn_status x)),
     enc_fixed (bs (opn_operator_pubkey x)),
     enc_u64 (opn_bond_sats x),
     enc_u64 (opn_max_claim_sats x),
     enc_u64 (opn_outstanding_claim_sats x),
     enc_u64 (opn_slashed_sats x),
     enc_u32 (opn_registered_at_height x)]"

record StateRoot =
  sr_protocol_version :: u16
  sr_state_epoch :: u64
  sr_prev_state_root :: b32
  sr_transition_type :: u8
  sr_satusd_asset_family_id :: b32
  sr_sat_usd_supply_atoms :: u64
  sr_reserve_btc_sats :: u64
  sr_reserved_pending_claim_sats :: u64
  sr_collateral_ratio_ppm :: u64
  sr_emergency_tier :: u8
  sr_oracle_set_hash :: b32
  sr_oracle_set_epoch :: u64
  sr_latest_oracle_epoch_seen :: u64
  sr_latest_oracle_price_e8 :: u64
  sr_reserve_committee_hash :: b32
  sr_issuer_positions_root :: b32
  sr_operator_registry_root :: b32
  sr_lock_record_root :: b32
  sr_lock_consumed_root :: b32
  sr_lock_refund_root :: b32
  sr_redemption_nullifier_root :: b32
  sr_pending_claim_root :: b32
  sr_live_da_root :: b32
  sr_archival_da_root :: b32
  sr_l1_anchor_hash :: b32
  sr_l1_anchor_height :: u32
  sr_l1_anchor_mtp :: u64
  sr_l1_anchor_chain_time :: u64

definition encode_StateRoot :: "StateRoot \<Rightarrow> encoder \<Rightarrow> encoder" where
  "encode_StateRoot x = emit [
     enc_u16 (sr_protocol_version x),
     enc_u64 (sr_state_epoch x),
     enc_fixed (bs (sr_prev_state_root x)),
     enc_u8 (sr_transition_type x),
     enc_fixed (bs (sr_satusd_asset_family_id x)),
     enc_u64 (sr_sat_usd_supply_atoms x),
     enc_u64 (sr_reserve_btc_sats x),
     enc_u64 (sr_reserved_pending_claim_sats x),
     enc_u64 (sr_collateral_ratio_ppm x),
     enc_u8 (sr_emergency_tier x),
     enc_fixed (bs (sr_oracle_set_hash x)),
     enc_u64 (sr_oracle_set_epoch x),
     enc_u64 (sr_latest_oracle_epoch_seen x),
     enc_u64 (sr_latest_oracle_price_e8 x),
     enc_fixed (bs (sr_reserve_committee_hash x)),
     enc_fixed (bs (sr_issuer_positions_root x)),
     enc_fixed (bs (sr_operator_registry_root x)),
     enc_fixed (bs (sr_lock_record_root x)),
     enc_fixed (bs (sr_lock_consumed_root x)),
     enc_fixed (bs (sr_lock_refund_root x)),
     enc_fixed (bs (sr_redemption_nullifier_root x)),
     enc_fixed (bs (sr_pending_claim_root x)),
     enc_fixed (bs (sr_live_da_root x)),
     enc_fixed (bs (sr_archival_da_root x)),
     enc_fixed (bs (sr_l1_anchor_hash x)),
     enc_u32 (sr_l1_anchor_height x),
     enc_u64 (sr_l1_anchor_mtp x),
     enc_u64 (sr_l1_anchor_chain_time x)]"

section \<open>Every encoding is a prefix code\<close>

lemma issuer_status_as_u8_inject [simp]:
  "issuer_status_as_u8 a = issuer_status_as_u8 b \<longleftrightarrow> a = b"
  by (cases a; cases b) simp_all

lemma pending_claim_status_as_u8_inject [simp]:
  "pending_claim_status_as_u8 a = pending_claim_status_as_u8 b \<longleftrightarrow> a = b"
  by (cases a; cases b) simp_all

lemma operator_status_as_u8_inject [simp]:
  "operator_status_as_u8 a = operator_status_as_u8 b \<longleftrightarrow> a = b"
  by (cases a; cases b) simp_all

lemma freeze_reason_as_u8_inject [simp]:
  "freeze_reason_as_u8 a = freeze_reason_as_u8 b \<longleftrightarrow> a = b"
  by (cases a; cases b) simp_all

lemma transition_type_as_u8_inject [simp]:
  "transition_type_as_u8 a = transition_type_as_u8 b \<longleftrightarrow> a = b"
  by (cases a; cases b) simp_all

lemma opt_freeze_peel [simp]:
  "opt_bytes (\<lambda>x. [freeze_reason_as_u8 x]) v @ r = opt_bytes (\<lambda>x. [freeze_reason_as_u8 x]) w @ s
     \<longleftrightarrow> v = w \<and> r = s"
  using self_delimitingD [OF opt_self_delimiting [OF byte_self_delimiting [of freeze_reason_as_u8]]]
  by (simp add: inj_def)

lemma fold_headers [enc_simps]:
  "fold (\<lambda>header. enc_fixed (bs header)) hs e = e @ concat (map bs hs)"
  by (rule fold_appends) (simp only: enc_fixed_def)

lemma headers_peel:
  "length hs = length ks \<Longrightarrow>
     concat (map bs hs) @ r = concat (map bs ks) @ s \<longleftrightarrow> hs = ks \<and> r = s"
  for hs ks :: "'n::len barr list"
  using concat_self_delimiting [OF barr_self_delimiting, of hs ks r s] by auto

text \<open>The lengths a count or length prefix, or the fixed header array, can carry.\<close>

definition claim_clock_ok :: "ClaimClock \<Rightarrow> bool" where
  "claim_clock_ok c = (length (cc_recent_header_chain c) = 12)"

definition lock_record_ok :: "LockRecord \<Rightarrow> bool" where
  "lock_record_ok r = (length (lr_lineage_verified_by r) < 2 ^ 32)"

definition issuer_position_ok :: "IssuerPosition \<Rightarrow> bool" where
  "issuer_position_ok p = (length (ip_multisig_pubkeys p) < 2 ^ 32)"

definition payout_confirmation_ok :: "BtcPayoutConfirmation \<Rightarrow> bool" where
  "payout_confirmation_ok c \<longleftrightarrow>
     length (pc_htlc_output_script c) < 2 ^ 32 \<and>
     length (pc_htlc_inclusion_merkle_proof c) < 2 ^ 32 \<and>
     length (pc_claim_spend_witness c) < 2 ^ 32 \<and>
     (\<forall>w\<in>set (pc_claim_spend_witness c). length w < 2 ^ 32) \<and>
     length (pc_claim_tx_legacy c) < 2 ^ 32 \<and>
     length (pc_claim_inclusion_merkle_proof c) < 2 ^ 32 \<and>
     length (pc_confirmation_headers c) < 2 ^ 32"

definition reserve_claim_ok :: "ReserveClaim \<Rightarrow> bool" where
  "reserve_claim_ok c = claim_clock_ok (rc_l1_anchor c)"

lemmas peel_simps = seq_bs_peel var_bytes_peel seq_var_bytes_peel headers_peel

interpretation outpoint_code: prefix_code encode_OutPoint "\<lambda>_. True"
proof
  show "encode_OutPoint x e = e @ encode_OutPoint x []" for x e
    by (simp add: encode_OutPoint_def enc_simps)
next
  fix x y :: OutPoint and r s
  assume "(\<lambda>_. True) x" "(\<lambda>_. True) y" "encode_OutPoint x [] @ r = encode_OutPoint y [] @ s"
  then show "x = y \<and> r = s"
    by (simp add: encode_OutPoint_def enc_simps OutPoint.equality)
qed

interpretation intent_code: prefix_code encode_RedeemIntent "\<lambda>_. True"
proof
  show "encode_RedeemIntent x e = e @ encode_RedeemIntent x []" for x e
    by (simp add: encode_RedeemIntent_def enc_simps)
next
  fix x y :: RedeemIntent and r s
  assume "(\<lambda>_. True) x" "(\<lambda>_. True) y" "encode_RedeemIntent x [] @ r = encode_RedeemIntent y [] @ s"
  then show "x = y \<and> r = s"
    by (simp add: encode_RedeemIntent_def enc_simps RedeemIntent.equality)
qed

interpretation clock_code: prefix_code encode_ClaimClock claim_clock_ok
proof
  show "encode_ClaimClock x e = e @ encode_ClaimClock x []" for x e
    by (simp add: encode_ClaimClock_def enc_simps claim_clock_ok_def peel_simps)
next
  fix x y :: ClaimClock and r s
  assume "(claim_clock_ok) x" "(claim_clock_ok) y" "encode_ClaimClock x [] @ r = encode_ClaimClock y [] @ s"
  then show "x = y \<and> r = s"
    by (simp add: encode_ClaimClock_def enc_simps claim_clock_ok_def peel_simps ClaimClock.equality)
qed

interpretation oracle_message_code: prefix_code encode_OracleMessage "\<lambda>_. True"
proof
  show "encode_OracleMessage x e = e @ encode_OracleMessage x []" for x e
    by (simp add: encode_OracleMessage_def enc_simps)
next
  fix x y :: OracleMessage and r s
  assume "(\<lambda>_. True) x" "(\<lambda>_. True) y" "encode_OracleMessage x [] @ r = encode_OracleMessage y [] @ s"
  then show "x = y \<and> r = s"
    by (simp add: encode_OracleMessage_def enc_simps OracleMessage.equality)
qed

interpretation lock_record_code: prefix_code encode_LockRecord lock_record_ok
proof
  show "encode_LockRecord x e = e @ encode_LockRecord x []" for x e
    by (simp add: encode_LockRecord_def enc_simps lock_record_ok_def peel_simps encode_OutPoint_def)
next
  fix x y :: LockRecord and r s
  assume "(lock_record_ok) x" "(lock_record_ok) y" "encode_LockRecord x [] @ r = encode_LockRecord y [] @ s"
  then show "x = y \<and> r = s"
    by (simp add: encode_LockRecord_def enc_simps lock_record_ok_def peel_simps encode_OutPoint_def LockRecord.equality OutPoint.equality)
qed

interpretation lock_finalize_code: prefix_code encode_LockFinalizeRecord "\<lambda>_. True"
proof
  show "encode_LockFinalizeRecord x e = e @ encode_LockFinalizeRecord x []" for x e
    by (simp add: encode_LockFinalizeRecord_def enc_simps encode_OutPoint_def)
next
  fix x y :: LockFinalizeRecord and r s
  assume "(\<lambda>_. True) x" "(\<lambda>_. True) y" "encode_LockFinalizeRecord x [] @ r = encode_LockFinalizeRecord y [] @ s"
  then show "x = y \<and> r = s"
    by (simp add: encode_LockFinalizeRecord_def enc_simps encode_OutPoint_def LockFinalizeRecord.equality OutPoint.equality)
qed

interpretation lock_refund_code: prefix_code encode_LockRefundRecord "\<lambda>_. True"
proof
  show "encode_LockRefundRecord x e = e @ encode_LockRefundRecord x []" for x e
    by (simp add: encode_LockRefundRecord_def enc_simps encode_OutPoint_def)
next
  fix x y :: LockRefundRecord and r s
  assume "(\<lambda>_. True) x" "(\<lambda>_. True) y" "encode_LockRefundRecord x [] @ r = encode_LockRefundRecord y [] @ s"
  then show "x = y \<and> r = s"
    by (simp add: encode_LockRefundRecord_def enc_simps encode_OutPoint_def LockRefundRecord.equality OutPoint.equality)
qed

interpretation htlc_payout_code: prefix_code encode_BtcHtlcPayoutRecord "\<lambda>_. True"
proof
  show "encode_BtcHtlcPayoutRecord x e = e @ encode_BtcHtlcPayoutRecord x []" for x e
    by (simp add: encode_BtcHtlcPayoutRecord_def enc_simps)
next
  fix x y :: BtcHtlcPayoutRecord and r s
  assume "(\<lambda>_. True) x" "(\<lambda>_. True) y" "encode_BtcHtlcPayoutRecord x [] @ r = encode_BtcHtlcPayoutRecord y [] @ s"
  then show "x = y \<and> r = s"
    by (simp add: encode_BtcHtlcPayoutRecord_def enc_simps BtcHtlcPayoutRecord.equality)
qed

interpretation payout_code: prefix_code encode_BtcPayoutConfirmation payout_confirmation_ok
proof
  show "encode_BtcPayoutConfirmation x e = e @ encode_BtcPayoutConfirmation x []" for x e
    by (simp add: encode_BtcPayoutConfirmation_def enc_simps payout_confirmation_ok_def peel_simps)
next
  fix x y :: BtcPayoutConfirmation and r s
  assume "(payout_confirmation_ok) x" "(payout_confirmation_ok) y" "encode_BtcPayoutConfirmation x [] @ r = encode_BtcPayoutConfirmation y [] @ s"
  then show "x = y \<and> r = s"
    by (simp add: encode_BtcPayoutConfirmation_def enc_simps payout_confirmation_ok_def peel_simps BtcPayoutConfirmation.equality)
qed

interpretation redemption_code: prefix_code encode_RedemptionRecord "\<lambda>_. True"
proof
  show "encode_RedemptionRecord x e = e @ encode_RedemptionRecord x []" for x e
    by (simp add: encode_RedemptionRecord_def enc_simps)
next
  fix x y :: RedemptionRecord and r s
  assume "(\<lambda>_. True) x" "(\<lambda>_. True) y" "encode_RedemptionRecord x [] @ r = encode_RedemptionRecord y [] @ s"
  then show "x = y \<and> r = s"
    by (simp add: encode_RedemptionRecord_def enc_simps RedemptionRecord.equality)
qed

interpretation claim_code: prefix_code encode_ReserveClaim reserve_claim_ok
proof
  show "encode_ReserveClaim x e = e @ encode_ReserveClaim x []" for x e
    by (simp add: encode_ReserveClaim_def enc_simps reserve_claim_ok_def peel_simps encode_for_claim_id_def encode_ClaimClock_def claim_clock_ok_def)
next
  fix x y :: ReserveClaim and r s
  assume "(reserve_claim_ok) x" "(reserve_claim_ok) y" "encode_ReserveClaim x [] @ r = encode_ReserveClaim y [] @ s"
  then show "x = y \<and> r = s"
    by (simp add: encode_ReserveClaim_def enc_simps reserve_claim_ok_def peel_simps encode_for_claim_id_def encode_ClaimClock_def claim_clock_ok_def ReserveClaim.equality ClaimClock.equality)
qed

interpretation issuer_code: prefix_code encode_IssuerPosition issuer_position_ok
proof
  show "encode_IssuerPosition x e = e @ encode_IssuerPosition x []" for x e
    by (simp add: encode_IssuerPosition_def enc_simps issuer_position_ok_def peel_simps)
next
  fix x y :: IssuerPosition and r s
  assume "(issuer_position_ok) x" "(issuer_position_ok) y" "encode_IssuerPosition x [] @ r = encode_IssuerPosition y [] @ s"
  then show "x = y \<and> r = s"
    by (simp add: encode_IssuerPosition_def enc_simps issuer_position_ok_def peel_simps IssuerPosition.equality)
qed

interpretation pending_claim_code: prefix_code encode_PendingClaim "\<lambda>_. True"
proof
  show "encode_PendingClaim x e = e @ encode_PendingClaim x []" for x e
    by (simp add: encode_PendingClaim_def enc_simps)
next
  fix x y :: PendingClaim and r s
  assume "(\<lambda>_. True) x" "(\<lambda>_. True) y" "encode_PendingClaim x [] @ r = encode_PendingClaim y [] @ s"
  then show "x = y \<and> r = s"
    by (simp add: encode_PendingClaim_def enc_simps PendingClaim.equality)
qed

interpretation operator_code: prefix_code encode_OperatorPosition "\<lambda>_. True"
proof
  show "encode_OperatorPosition x e = e @ encode_OperatorPosition x []" for x e
    by (simp add: encode_OperatorPosition_def enc_simps)
next
  fix x y :: OperatorPosition and r s
  assume "(\<lambda>_. True) x" "(\<lambda>_. True) y" "encode_OperatorPosition x [] @ r = encode_OperatorPosition y [] @ s"
  then show "x = y \<and> r = s"
    by (simp add: encode_OperatorPosition_def enc_simps OperatorPosition.equality)
qed

interpretation state_code: prefix_code encode_StateRoot "\<lambda>_. True"
proof
  show "encode_StateRoot x e = e @ encode_StateRoot x []" for x e
    by (simp add: encode_StateRoot_def enc_simps)
next
  fix x y :: StateRoot and r s
  assume "(\<lambda>_. True) x" "(\<lambda>_. True) y" "encode_StateRoot x [] @ r = encode_StateRoot y [] @ s"
  then show "x = y \<and> r = s"
    by (simp add: encode_StateRoot_def enc_simps StateRoot.equality)
qed

end
