(* ===== verification/Crypto.thy ===== *)
theory Crypto
  imports Types
begin

text \<open>
  The third-party code the program calls, as one record \<open>crypto\<close> of functions every definition
  that reaches it takes as an argument: the SHA-256 and Poseidon compression functions, the
  secp256k1 and BabyJubJub checks, and the Bitcoin transaction decoder. Nothing is assumed of
  them here. A BN254 scalar (\<^verbatim>\<open>ark_bn254::Fr\<close>) is a residue modulo the group order, as the
  source's own conversions describe it.
\<close>

section \<open>BN254 scalars\<close>

definition bn254_order :: nat where
  "bn254_order = 21888242871839275222246405745257275088548364400416034343698204186575808495617"

lemma bn254_order_pos [simp]: "0 < bn254_order"
  by (simp add: bn254_order_def)

typedef fr = "{n :: nat. n < bn254_order}"
  morphisms fr_nat abs_fr
  by (rule exI [of _ 0]) simp

definition fr_of_nat :: "nat \<Rightarrow> fr" where
  "fr_of_nat n = abs_fr (n mod bn254_order)"

declare fr_nat_inverse [code abstype]

lemma fr_nat_fr_of_nat [code abstract]: "fr_nat (fr_of_nat n) = n mod bn254_order"
  by (simp add: fr_of_nat_def abs_fr_inverse)

lemma fr_nat_less [simp]: "fr_nat x < bn254_order"
  using fr_nat [of x] by simp

lemma fr_of_nat_fr_nat [simp]: "fr_of_nat (fr_nat x) = x"
  by (simp add: fr_nat_inject [symmetric] fr_nat_fr_of_nat)

lemma fr_eq_iff: "x = y \<longleftrightarrow> fr_nat x = fr_nat y"
  by (simp add: fr_nat_inject)

instantiation fr :: equal
begin

definition equal_fr :: "fr \<Rightarrow> fr \<Rightarrow> bool" where
  "equal_fr x y = (fr_nat x = fr_nat y)"

instance
  by standard (simp add: equal_fr_def fr_nat_inject)

end

instantiation fr :: zero_neq_one
begin

definition zero_fr :: fr where
  "zero_fr = fr_of_nat 0"

definition one_fr :: fr where
  "one_fr = fr_of_nat 1"

instance
  by standard (simp add: fr_eq_iff zero_fr_def one_fr_def fr_nat_fr_of_nat bn254_order_def)

end

section \<open>The third-party functions\<close>

text \<open>What \<^verbatim>\<open>satusd-ta-proof\<close> reads of a decoded \<^verbatim>\<open>bitcoin::Transaction\<close>.\<close>

record btc_tx =
  tx_txid :: b32
  tx_output_spks :: "bytes list"

record crypto =
  c_sha256 :: "bytes \<Rightarrow> b32"
  c_poseidon :: "fr list \<Rightarrow> fr"
  c_pubkey_ok :: "b33 \<Rightarrow> bool"
  c_compact_sig_ok :: "b64 \<Rightarrow> bool"
  c_secp_verify :: "b32 \<Rightarrow> b64 \<Rightarrow> b33 \<Rightarrow> bool"
  c_xonly_ok :: "b32 \<Rightarrow> bool"
  c_scalar_ok :: "b32 \<Rightarrow> bool"
  c_add_tweak :: "b32 \<Rightarrow> b32 \<Rightarrow> b32 option"
  c_bjj_point_ok :: "b32 \<Rightarrow> bool"
  c_bjj_sig_ok :: "b64 \<Rightarrow> bool"
  c_bjj_verify :: "b32 \<Rightarrow> b64 \<Rightarrow> nat \<Rightarrow> bool"
  c_tx_decode :: "bytes \<Rightarrow> btc_tx option"
  c_is_p2tr :: "bytes \<Rightarrow> bool"

text \<open>
  One instance, for examples: SHA-256 is zero, Poseidon is one, every check passes, a tweak leaves the key, and
  a transaction decodes to one output of 34 zero bytes.
\<close>

definition const_crypto :: crypto where
  "const_crypto =
     \<lparr>c_sha256 = (\<lambda>_. fill 0), c_poseidon = (\<lambda>_. 1), c_pubkey_ok = (\<lambda>_. True),
      c_compact_sig_ok = (\<lambda>_. True), c_secp_verify = (\<lambda>_ _ _. True), c_xonly_ok = (\<lambda>_. True),
      c_scalar_ok = (\<lambda>_. True), c_add_tweak = (\<lambda>k _. Some k), c_bjj_point_ok = (\<lambda>_. True),
      c_bjj_sig_ok = (\<lambda>_. True), c_bjj_verify = (\<lambda>_ _ _. True),
      c_tx_decode = (\<lambda>_. Some \<lparr>tx_txid = fill 0, tx_output_spks = [replicate 34 0]\<rparr>),
      c_is_p2tr = (\<lambda>_. True)\<rparr>"

lemma const_crypto_simps [simp]:
  "c_sha256 const_crypto x = fill 0" "c_poseidon const_crypto l = 1" "c_pubkey_ok const_crypto k"
  "c_compact_sig_ok const_crypto g" "c_secp_verify const_crypto m g k" "c_xonly_ok const_crypto y"
  "c_scalar_ok const_crypto y" "c_add_tweak const_crypto y z = Some y" "c_bjj_point_ok const_crypto y"
  "c_bjj_sig_ok const_crypto g" "c_bjj_verify const_crypto y g n"
  "c_tx_decode const_crypto x = Some \<lparr>tx_txid = fill 0, tx_output_spks = [replicate 34 0]\<rparr>"
  "c_is_p2tr const_crypto x"
  by (simp_all add: const_crypto_def)

section \<open>SHA-256 (\<^verbatim>\<open>satusd-types/src/hash.rs\<close>)\<close>

definition sha256 :: "crypto \<Rightarrow> bytes list \<Rightarrow> b32" where
  "sha256 C parts = c_sha256 C (concat parts)"

definition ascii :: "string \<Rightarrow> bytes" where
  "ascii s = map (\<lambda>c. word_of_nat (of_char c)) s"

definition tagged_hash :: "crypto \<Rightarrow> string \<Rightarrow> bytes \<Rightarrow> b32" where
  "tagged_hash C name body = sha256 C [ascii name, body]"

section \<open>Domain separators (\<^verbatim>\<open>satusd-types/src/domain.rs\<close>)\<close>

definition ASSET_FAMILY :: string where "ASSET_FAMILY = ''SATUSD_ASSET_FAMILY_V1''"
definition STATE_ROOT :: string where "STATE_ROOT = ''SATUSD_STATE_ROOT_V1''"
definition REDEEM_INTENT :: string where "REDEEM_INTENT = ''SATUSD_REDEEM_INTENT_V1''"
definition LOCK_TWEAK :: string where "LOCK_TWEAK = ''SATUSD_LOCK_TWEAK_V1''"
definition LOCK_ANCHOR_NUMS :: string where "LOCK_ANCHOR_NUMS = ''SATUSD_LOCK_ANCHOR_NUMS_V1''"
definition LOCK_RECORD :: string where "LOCK_RECORD = ''SATUSD_LOCK_RECORD_V1''"
definition LOCK_FINALIZE :: string where "LOCK_FINALIZE = ''SATUSD_LOCK_FINALIZE_V1''"
definition LOCK_REFUND :: string where "LOCK_REFUND = ''SATUSD_LOCK_REFUND_V1''"
definition BTC_HTLC_RECORD :: string where "BTC_HTLC_RECORD = ''SATUSD_BTC_HTLC_RECORD_V1''"
definition BTC_HTLC_NUMS :: string where "BTC_HTLC_NUMS = ''SATUSD_BTC_HTLC_NUMS_V1''"
definition BTC_PAYOUT_CONFIRMATION :: string where
  "BTC_PAYOUT_CONFIRMATION = ''SATUSD_BTC_PAYOUT_CONFIRMATION_V1''"
definition REDEMPTION_RECORD :: string where "REDEMPTION_RECORD = ''SATUSD_REDEMPTION_RECORD_V1''"
definition REDEMPTION_NULLIFIER :: string where
  "REDEMPTION_NULLIFIER = ''SATUSD_REDEMPTION_NULLIFIER_V1''"
definition RESERVE_CLAIM :: string where "RESERVE_CLAIM = ''SATUSD_RESERVE_CLAIM_V1''"
definition CLAIM_ID :: string where "CLAIM_ID = ''SATUSD_CLAIM_ID_V1''"
definition PENDING_CLAIM :: string where "PENDING_CLAIM = ''SATUSD_PENDING_CLAIM_V1''"
definition ISSUER_POSITION :: string where "ISSUER_POSITION = ''SATUSD_ISSUER_POSITION_V1''"
definition MINT_REQUEST :: string where "MINT_REQUEST = ''SATUSD_MINT_REQUEST_V1''"
definition ORACLE :: string where "ORACLE = ''SATUSD_ORACLE_V1''"
definition ORACLE_SET :: string where "ORACLE_SET = ''SATUSD_ORACLE_SET_V1''"
definition CLAIM_CLOCK :: string where "CLAIM_CLOCK = ''SATUSD_CLAIM_CLOCK_V1''"
definition LIVE_DA_BUNDLE :: string where "LIVE_DA_BUNDLE = ''SATUSD_LIVE_DA_BUNDLE_V1''"
definition ARCHIVAL_DA_BUNDLE :: string where "ARCHIVAL_DA_BUNDLE = ''SATUSD_ARCHIVAL_DA_BUNDLE_V1''"
definition OPERATOR_POSITION :: string where "OPERATOR_POSITION = ''SATUSD_OPERATOR_POSITION_V1''"
definition BURN_SINK :: string where "BURN_SINK = ''SATUSD_BURN_SINK_V1''"
definition BURN_TWEAK :: string where "BURN_TWEAK = ''SATUSD_BURN_TWEAK_V1''"
definition LINEAGE_PROOF :: string where "LINEAGE_PROOF = ''SATUSD_LINEAGE_PROOF_V1''"
definition RESERVE_COMMITTEE :: string where "RESERVE_COMMITTEE = ''SATUSD_RESERVE_COMMITTEE_V1''"

definition ALL_DOMAINS :: "string list" where
  "ALL_DOMAINS = [ASSET_FAMILY, STATE_ROOT, REDEEM_INTENT, LOCK_TWEAK, LOCK_ANCHOR_NUMS,
     LOCK_RECORD, LOCK_FINALIZE, LOCK_REFUND, BTC_HTLC_RECORD, BTC_HTLC_NUMS,
     BTC_PAYOUT_CONFIRMATION, REDEMPTION_RECORD, REDEMPTION_NULLIFIER, RESERVE_CLAIM, CLAIM_ID,
     PENDING_CLAIM, ISSUER_POSITION, MINT_REQUEST, ORACLE, ORACLE_SET, CLAIM_CLOCK,
     LIVE_DA_BUNDLE, ARCHIVAL_DA_BUNDLE, OPERATOR_POSITION, BURN_SINK, BURN_TWEAK,
     LINEAGE_PROOF, RESERVE_COMMITTEE]"

lemmas domain_defs = ASSET_FAMILY_def STATE_ROOT_def REDEEM_INTENT_def LOCK_TWEAK_def
  LOCK_ANCHOR_NUMS_def LOCK_RECORD_def LOCK_FINALIZE_def LOCK_REFUND_def BTC_HTLC_RECORD_def
  BTC_HTLC_NUMS_def BTC_PAYOUT_CONFIRMATION_def REDEMPTION_RECORD_def REDEMPTION_NULLIFIER_def
  RESERVE_CLAIM_def CLAIM_ID_def PENDING_CLAIM_def ISSUER_POSITION_def MINT_REQUEST_def ORACLE_def
  ORACLE_SET_def CLAIM_CLOCK_def LIVE_DA_BUNDLE_def ARCHIVAL_DA_BUNDLE_def OPERATOR_POSITION_def
  BURN_SINK_def BURN_TWEAK_def LINEAGE_PROOF_def RESERVE_COMMITTEE_def ALL_DOMAINS_def

text \<open>
  Every separator ends at its only \<^verbatim>\<open>1\<close>, so none is a prefix of another and the raw prefix
  needs no padding.
\<close>

lemma domains_end_at_1: "list_all (\<lambda>a. takeWhile (\<lambda>c. c \<noteq> CHR ''1'') a @ ''1'' = a) ALL_DOMAINS"
  by (simp add: domain_defs)

lemma sha256_const [simp]: "sha256 const_crypto parts = fill 0"
  by (simp add: sha256_def)

lemma takeWhile_stop_inject:
  assumes "c \<notin> set u" and "c \<notin> set v" and "u @ c # x = v @ c # y"
  shows "u = v \<and> x = y"
proof -
  have t: "takeWhile (\<lambda>d. d \<noteq> c) (w @ c # z) = w" if "c \<notin> set w" for w z
    using that by (subst takeWhile_append2) auto
  have "u = v" using t [OF assms(1), of x] t [OF assms(2), of y] assms(3) by simp
  with assms(3) show ?thesis by simp
qed

lemma ascii_append [simp]: "ascii (a @ b) = ascii a @ ascii b"
  by (simp add: ascii_def)

lemma of_char_byte_inject [simp]:
  "(word_of_nat (of_char c) :: byte) = word_of_nat (of_char d) \<longleftrightarrow> c = d"
proof
  have u: "unat (word_of_nat (of_char e) :: byte) = of_char e" for e
    by (simp add: unsigned_of_nat take_bit_eq_mod)
  assume "(word_of_nat (of_char c) :: byte) = word_of_nat (of_char d)"
  then have "(of_char c :: nat) = of_char d" by (metis u)
  then show "c = d" by simp
qed simp

lemma ascii_inject [simp]: "ascii a = ascii b \<longleftrightarrow> a = b"
  unfolding ascii_def by (rule inj_map_eq_map) (simp add: inj_def)

lemma ascii_mem: "(word_of_nat (of_char c) :: byte) \<in> set (ascii s) \<longleftrightarrow> c \<in> set s"
  unfolding ascii_def set_map by (auto simp del: of_char_Char)

lemma domain_append_inject:
  assumes "a \<in> set ALL_DOMAINS" and "b \<in> set ALL_DOMAINS"
  shows "ascii a @ x = ascii b @ y \<longleftrightarrow> a = b \<and> x = y"
proof
  assume eq: "ascii a @ x = ascii b @ y"
  define u where "u = takeWhile (\<lambda>c. c \<noteq> CHR ''1'') a"
  define v where "v = takeWhile (\<lambda>c. c \<noteq> CHR ''1'') b"
  have a: "a = u @ ''1''" and b: "b = v @ ''1''"
    using domains_end_at_1 assms by (auto simp: list_all_iff u_def v_def)
  have a1: "CHR ''1'' \<notin> set (takeWhile (\<lambda>c. c \<noteq> CHR ''1'') z)" for z
    by (auto dest: set_takeWhileD)
  define one :: byte where "one = word_of_nat (of_char (CHR ''1''))"
  have out: "one \<notin> set (ascii u)" "one \<notin> set (ascii v)"
    unfolding one_def ascii_mem u_def v_def by (rule a1)+
  have "ascii u @ one # x = ascii v @ one # y"
    using eq unfolding a b by (simp add: ascii_def one_def)
  then have "ascii u = ascii v \<and> x = y"
    by (rule takeWhile_stop_inject [OF out])
  then show "a = b \<and> x = y" unfolding a b by simp
qed simp

text \<open>Two inputs of one digest: what a broken commitment yields.\<close>

definition sha_collides :: "crypto \<Rightarrow> bytes \<times> bytes \<Rightarrow> bool" where
  "sha_collides C w \<longleftrightarrow> fst w \<noteq> snd w \<and> c_sha256 C (fst w) = c_sha256 C (snd w)"

end
