(* ===== verification/Derive.thy ===== *)
theory Derive
  imports Crypto
begin

text \<open>
  The protocol's hash derivations (\<^verbatim>\<open>satusd-types/src/derive.rs\<close>). Every one is SHA-256 of a
  registered separator followed by a body; the bodies are the canonical encodings, so the
  preimages of different separators never meet and one separator's preimage determines the
  record.
\<close>

definition asset_family_id :: "crypto \<Rightarrow> b32 \<Rightarrow> b33 \<Rightarrow> u8 \<Rightarrow> b32" where
  "asset_family_id C genesis_asset_id group_key chain_id =
     sha256 C [ascii ASSET_FAMILY, bs genesis_asset_id, bs group_key, [chain_id]]"

definition lineage_proof_hash :: "crypto \<Rightarrow> bytes \<Rightarrow> b32" where
  "lineage_proof_hash C proof_file_bytes = tagged_hash C LINEAGE_PROOF proof_file_bytes"

definition redeem_intent_hash :: "crypto \<Rightarrow> RedeemIntent \<Rightarrow> b32" where
  "redeem_intent_hash C intent =
     tagged_hash C REDEEM_INTENT (canonical_encode encode_RedeemIntent intent)"

definition lock_tweak :: "crypto \<Rightarrow> b32 \<Rightarrow> b32 \<Rightarrow> b32" where
  "lock_tweak C rih payment_hash =
     sha256 C [ascii LOCK_TWEAK, bs rih, bs payment_hash]"

definition nullifier_parts :: "OutPoint \<Rightarrow> b32 \<Rightarrow> b32 \<Rightarrow> bytes list" where
  "nullifier_parts lock_anchor_outpoint lock_script_key rih =
     [ascii REDEMPTION_NULLIFIER, bs (op_txid lock_anchor_outpoint),
      to_be (op_vout lock_anchor_outpoint), bs lock_script_key, bs rih]"

definition redemption_nullifier :: "crypto \<Rightarrow> OutPoint \<Rightarrow> b32 \<Rightarrow> b32 \<Rightarrow> b32" where
  "redemption_nullifier C lock_anchor_outpoint lock_script_key rih =
     sha256 C (nullifier_parts lock_anchor_outpoint lock_script_key rih)"

definition derive_claim_id :: "crypto \<Rightarrow> ReserveClaim \<Rightarrow> b32" where
  "derive_claim_id C claim = sha256 C [ascii CLAIM_ID, encode_for_claim_id claim encoder_new]"

definition issuer_position_hash :: "crypto \<Rightarrow> IssuerPosition \<Rightarrow> b32" where
  "issuer_position_hash C p =
     tagged_hash C ISSUER_POSITION (canonical_encode encode_IssuerPosition p)"

definition pending_claim_hash :: "crypto \<Rightarrow> PendingClaim \<Rightarrow> b32" where
  "pending_claim_hash C c = tagged_hash C PENDING_CLAIM (canonical_encode encode_PendingClaim c)"

definition lock_record_hash :: "crypto \<Rightarrow> LockRecord \<Rightarrow> b32" where
  "lock_record_hash C r = tagged_hash C LOCK_RECORD (canonical_encode encode_LockRecord r)"

definition operator_position_hash :: "crypto \<Rightarrow> OperatorPosition \<Rightarrow> b32" where
  "operator_position_hash C p =
     tagged_hash C OPERATOR_POSITION (canonical_encode encode_OperatorPosition p)"

definition oracle_set_body :: "u64 \<Rightarrow> b32 list \<Rightarrow> bytes" where
  "oracle_set_body oracle_set_epoch signer_pubkeys =
     (let sorted = sort signer_pubkeys
      in emit [enc_u64 oracle_set_epoch, enc_seq sorted (\<lambda>pk. enc_fixed (bs pk))] encoder_new)"

definition oracle_set_hash :: "crypto \<Rightarrow> u64 \<Rightarrow> b32 list \<Rightarrow> b32" where
  "oracle_set_hash C oracle_set_epoch signer_pubkeys =
     tagged_hash C ORACLE_SET (oracle_set_body oracle_set_epoch signer_pubkeys)"

definition reserve_committee_body :: "u8 \<Rightarrow> b33 list \<Rightarrow> bytes" where
  "reserve_committee_body threshold committee_pubkeys =
     (let sorted = sort committee_pubkeys
      in emit [enc_u8 threshold, enc_seq sorted (\<lambda>pk. enc_fixed (bs pk))] encoder_new)"

definition reserve_committee_hash :: "crypto \<Rightarrow> u8 \<Rightarrow> b33 list \<Rightarrow> b32" where
  "reserve_committee_hash C threshold committee_pubkeys =
     tagged_hash C RESERVE_COMMITTEE (reserve_committee_body threshold committee_pubkeys)"

definition mint_request_body :: "b32 \<Rightarrow> u64 \<Rightarrow> u64 \<Rightarrow> b32 \<Rightarrow> b32 \<Rightarrow> bytes" where
  "mint_request_body issuer_id requested_mint_atoms deposit_sats deposit_txid asset_metadata_commitment =
     emit [enc_fixed (bs issuer_id), enc_u64 requested_mint_atoms, enc_u64 deposit_sats,
       enc_fixed (bs deposit_txid), enc_fixed (bs asset_metadata_commitment)] encoder_new"

definition mint_request_sighash :: "crypto \<Rightarrow> b32 \<Rightarrow> u64 \<Rightarrow> u64 \<Rightarrow> b32 \<Rightarrow> b32 \<Rightarrow> b32" where
  "mint_request_sighash C issuer_id requested_mint_atoms deposit_sats deposit_txid
       asset_metadata_commitment =
     tagged_hash C MINT_REQUEST (mint_request_body issuer_id requested_mint_atoms deposit_sats
       deposit_txid asset_metadata_commitment)"

definition mint_commitment_body :: "u64 \<Rightarrow> b32 \<Rightarrow> b32 \<Rightarrow> bytes" where
  "mint_commitment_body requested_mint_atoms asset_metadata_commitment deposit_txid =
     emit [enc_u64 requested_mint_atoms, enc_fixed (bs asset_metadata_commitment),
       enc_fixed (bs deposit_txid)] encoder_new"

definition mint_commitment :: "crypto \<Rightarrow> u64 \<Rightarrow> b32 \<Rightarrow> b32 \<Rightarrow> b32" where
  "mint_commitment C requested_mint_atoms asset_metadata_commitment deposit_txid =
     tagged_hash C MINT_REQUEST
       (mint_commitment_body requested_mint_atoms asset_metadata_commitment deposit_txid)"

section \<open>What a preimage determines\<close>

lemma tagged_hash_eq: "tagged_hash C name body = c_sha256 C (ascii name @ body)"
  by (simp add: tagged_hash_def sha256_def)

lemma oracle_set_body_bytes:
  "oracle_set_body ep pks = to_be ep @ seq_bytes bs (sort pks)"
  by (simp add: oracle_set_body_def enc_simps encoder_new_def)

lemma reserve_committee_body_bytes:
  "reserve_committee_body t pks = [t] @ seq_bytes bs (sort pks)"
  by (simp add: reserve_committee_body_def enc_simps encoder_new_def)

lemma mint_request_body_bytes:
  "mint_request_body i m d x a = bs i @ to_be m @ to_be d @ bs x @ bs a"
  by (simp add: mint_request_body_def enc_simps encoder_new_def)

lemma mint_commitment_body_bytes: "mint_commitment_body m a x = to_be m @ bs a @ bs x"
  by (simp add: mint_commitment_body_def enc_simps encoder_new_def)

lemma mset_eq_sort_eq: "mset xs = mset ys \<longleftrightarrow> sort xs = sort ys"
  by (metis mset_sort properties_for_sort sorted_sort)

text \<open>The commitment to a signer set or committee forgets the order of the keys and nothing else.\<close>

lemma reserve_committee_body_inject:
  assumes "length pks < 2 ^ 32" and "length qks < 2 ^ 32"
  shows "reserve_committee_body t pks = reserve_committee_body u qks \<longleftrightarrow> t = u \<and> mset pks = mset qks"
  using seq_bs_peel [of "sort pks" "sort qks" "[]" "[]"] assms
  by (simp add: reserve_committee_body_bytes mset_eq_sort_eq)

lemma oracle_set_body_inject:
  assumes "length pks < 2 ^ 32" and "length qks < 2 ^ 32"
  shows "oracle_set_body e pks = oracle_set_body f qks \<longleftrightarrow> e = f \<and> mset pks = mset qks"
  using seq_bs_peel [of "sort pks" "sort qks" "[]" "[]"] assms
  by (simp add: oracle_set_body_bytes mset_eq_sort_eq)

lemma mint_request_body_inject:
  "mint_request_body i m d x a = mint_request_body i' m' d' x' a' \<longleftrightarrow>
     i = i' \<and> m = m' \<and> d = d' \<and> x = x' \<and> a = a'"
  using bs_inject [of a a'] by (simp add: mint_request_body_bytes)

lemma mint_commitment_body_inject:
  "mint_commitment_body m a x = mint_commitment_body m' a' x' \<longleftrightarrow> m = m' \<and> a = a' \<and> x = x'"
  using bs_inject [of x x'] by (simp add: mint_commitment_body_bytes)

text \<open>One separator serves two bodies; their lengths keep the two preimages apart.\<close>

lemma mint_bodies_distinct: "mint_request_body i m d x a \<noteq> mint_commitment_body m' a' x'"
proof
  assume "mint_request_body i m d x a = mint_commitment_body m' a' x'"
  then have "length (mint_request_body i m d x a) = length (mint_commitment_body m' a' x')" by simp
  then show False by (simp add: mint_request_body_bytes mint_commitment_body_bytes)
qed

lemma nullifier_parts_inject:
  "concat (nullifier_parts p k h) = concat (nullifier_parts p' k' h') \<longleftrightarrow> p = p' \<and> k = k' \<and> h = h'"
  using bs_inject [of h h'] by (auto simp: nullifier_parts_def OutPoint.equality)

text \<open>The claim id does not depend on the fields it leaves out.\<close>

lemma derive_claim_id_ignores:
  "derive_claim_id C (claim\<lparr>rc_claim_id := i, rc_new_state_root := n, rc_operator_signature := s\<rparr>)
     = derive_claim_id C claim"
  by (simp add: derive_claim_id_def encode_for_claim_id_def)

end
