(* ===== verification/Poseidon.thy ===== *)
theory Poseidon
  imports Derive
begin

text \<open>
  \<^verbatim>\<open>satusd-crypto\<close> below the Merkle tree: the Poseidon conversions, folds and batch root
  (\<^verbatim>\<open>poseidon.rs\<close>), the state commitment (\<^verbatim>\<open>state.rs\<close>), the two signature checks (\<^verbatim>\<open>ecdsa.rs\<close>,
  \<^verbatim>\<open>eddsa.rs\<close>) and the NUMS keys and Taproot tweak (\<^verbatim>\<open>nums.rs\<close>).
\<close>

section \<open>Poseidon\<close>

definition fr_to_be_bytes :: "fr \<Rightarrow> b32" where
  "fr_to_be_bytes x = barr_of (nat_be 32 (fr_nat x))"

definition fr_from_be_bytes :: "bytes \<Rightarrow> fr" where
  "fr_from_be_bytes b = fr_of_nat (nat_of_be b)"

definition poseidon :: "crypto \<Rightarrow> fr list \<Rightarrow> fr" where
  "poseidon C inputs = c_poseidon C inputs"

definition poseidon2 :: "crypto \<Rightarrow> fr \<Rightarrow> fr \<Rightarrow> fr" where
  "poseidon2 C a b = poseidon C [a, b]"

definition poseidon2_be :: "crypto \<Rightarrow> bytes \<Rightarrow> bytes \<Rightarrow> b32" where
  "poseidon2_be C a b = fr_to_be_bytes (poseidon2 C (fr_from_be_bytes a) (fr_from_be_bytes b))"

text \<open>\<^verbatim>\<open>slice::chunks(n)\<close> (\<open>n > 0\<close>): consecutive runs of \<open>n\<close>, the last one shorter.\<close>

function chunks :: "nat \<Rightarrow> 'a list \<Rightarrow> 'a list list" where
  "chunks n xs = (if xs = [] \<or> n = 0 then [] else take n xs # chunks n (drop n xs))"
  by pat_completeness auto
termination
  by (relation "measure (\<lambda>(n, xs). length xs)") auto

declare chunks.simps [simp del]

definition hash_bytes :: "crypto \<Rightarrow> bytes \<Rightarrow> fr" where
  "hash_bytes C input = foldl (\<lambda>acc chunk. poseidon2 C acc (fr_from_be_bytes chunk)) 0 (chunks 31 input)"

definition hash_bytes_be :: "crypto \<Rightarrow> bytes \<Rightarrow> b32" where
  "hash_bytes_be C input = fr_to_be_bytes (hash_bytes C input)"

definition fr_of_u64 :: "u64 \<Rightarrow> fr" where
  "fr_of_u64 x = fr_of_nat (unat x)"

definition oracle_message_hash :: "crypto \<Rightarrow> u64 \<Rightarrow> u64 \<Rightarrow> u64 \<Rightarrow> u64 \<Rightarrow> b32" where
  "oracle_message_hash C oracle_set_epoch price_epoch timestamp_ms price_e8 =
     fr_to_be_bytes (poseidon C [fr_of_u64 oracle_set_epoch, fr_of_u64 price_epoch,
       fr_of_u64 timestamp_ms, fr_of_u64 price_e8])"

text \<open>The batch root: the least power of two, zero padding, and one level of pairs at a time.\<close>

function pow2_above :: "nat \<Rightarrow> nat \<Rightarrow> nat" where
  "pow2_above n len = (if 0 < n \<and> n < len then pow2_above (2 * n) len else n)"
  by pat_completeness auto
termination
  by (relation "measure (\<lambda>(n, len). len - n)") auto

declare pow2_above.simps [simp del]

text \<open>\<^verbatim>\<open>p[1]\<close> of a one-element chunk is out of range.\<close>

fun poseidon_pairs :: "crypto \<Rightarrow> fr list \<Rightarrow> ('e, fr list) res" where
  "poseidon_pairs C [] = Ok []"
| "poseidon_pairs C [x] = Panic"
| "poseidon_pairs C (x # y # zs) =
     rbind (poseidon_pairs C zs) (\<lambda>rest. Ok (poseidon2 C x y # rest))"

lemma rbind_cong [fundef_cong]:
  "m = m' \<Longrightarrow> (\<And>x. m' = Ok x \<Longrightarrow> f x = g x) \<Longrightarrow> rbind m f = rbind m' g"
  by (cases m') auto

lemma poseidon_pairs_length: "poseidon_pairs C xs = Ok ys \<Longrightarrow> length xs = 2 * length ys"
  by (induction C xs arbitrary: ys rule: poseidon_pairs.induct) (auto simp: res_simps)

function batch_levels :: "crypto \<Rightarrow> fr list \<Rightarrow> ('e, fr) res" where
  "batch_levels C level =
     (if length level > 1 then rbind (poseidon_pairs C level) (batch_levels C)
      else unwrap (get_at level 0))"
  by pat_completeness auto
termination
proof (relation "measure (\<lambda>(C, level). length level)")
  fix C level and x :: "fr list"
  assume l: "1 < length level" and x: "poseidon_pairs C level = (Ok x :: ('e, fr list) res)"
  from l show "((C, x), (C, level)) \<in> measure (\<lambda>(C, level). length level)"
    using poseidon_pairs_length [OF x] by auto
qed simp

declare batch_levels.simps [simp del]

definition batch_root :: "crypto \<Rightarrow> fr list \<Rightarrow> ('e, fr) res" where
  "batch_root C leaves =
     (if leaves = [] then Ok 0
      else let n = pow2_above 1 (length leaves)
           in batch_levels C (leaves @ replicate (n - length leaves) 0))"

definition batch_root_be :: "crypto \<Rightarrow> b32 list \<Rightarrow> ('e, b32) res" where
  "batch_root_be C leaves_be =
     rbind (batch_root C (map (\<lambda>b. fr_from_be_bytes (bs b)) leaves_be)) (\<lambda>r. Ok (fr_to_be_bytes r))"

section \<open>The state commitment\<close>

definition fe_scalar :: "u64 \<Rightarrow> b32" where
  "fe_scalar x = fr_to_be_bytes (fr_of_u64 x)"

definition fe_split :: "b32 \<Rightarrow> b32 list" where
  "fe_split b = [fr_to_be_bytes (fr_from_be_bytes (sub (bs b) 0 16)),
                 fr_to_be_bytes (fr_from_be_bytes (sub (bs b) 16 32))]"

definition state_field_elements :: "StateRoot \<Rightarrow> b32 list" where
  "state_field_elements s = concat [
     [fe_scalar (ucast (sr_protocol_version s))],
     [fe_scalar (sr_state_epoch s)],
     fe_split (sr_prev_state_root s),
     [fe_scalar (ucast (sr_transition_type s))],
     fe_split (sr_satusd_asset_family_id s),
     [fe_scalar (sr_sat_usd_supply_atoms s)],
     [fe_scalar (sr_reserve_btc_sats s)],
     [fe_scalar (sr_reserved_pending_claim_sats s)],
     [fe_scalar (sr_collateral_ratio_ppm s)],
     [fe_scalar (ucast (sr_emergency_tier s))],
     fe_split (sr_oracle_set_hash s),
     [fe_scalar (sr_oracle_set_epoch s)],
     [fe_scalar (sr_latest_oracle_epoch_seen s)],
     [fe_scalar (sr_latest_oracle_price_e8 s)],
     fe_split (sr_reserve_committee_hash s),
     fe_split (sr_issuer_positions_root s),
     fe_split (sr_operator_registry_root s),
     fe_split (sr_lock_record_root s),
     fe_split (sr_lock_consumed_root s),
     fe_split (sr_lock_refund_root s),
     fe_split (sr_redemption_nullifier_root s),
     fe_split (sr_pending_claim_root s),
     fe_split (sr_live_da_root s),
     fe_split (sr_archival_da_root s),
     fe_split (sr_l1_anchor_hash s),
     [fe_scalar (ucast (sr_l1_anchor_height s))],
     [fe_scalar (sr_l1_anchor_mtp s)],
     [fe_scalar (sr_l1_anchor_chain_time s)]]"

definition state_root_hash :: "crypto \<Rightarrow> StateRoot \<Rightarrow> b32" where
  "state_root_hash C s =
     fr_to_be_bytes (foldl (\<lambda>acc fe. poseidon2 C acc (fr_from_be_bytes (bs fe))) 0
       (state_field_elements s))"

section \<open>Signature checks\<close>

definition verify_ecdsa :: "crypto \<Rightarrow> b32 \<Rightarrow> b33 \<Rightarrow> b64 \<Rightarrow> bool" where
  "verify_ecdsa C msg32 pubkey33 sig64 \<longleftrightarrow>
     c_pubkey_ok C pubkey33 \<and> c_compact_sig_ok C sig64 \<and> c_secp_verify C msg32 sig64 pubkey33"

definition verify_eddsa_babyjub :: "crypto \<Rightarrow> b32 \<Rightarrow> b32 \<Rightarrow> b64 \<Rightarrow> bool" where
  "verify_eddsa_babyjub C pubkey msg_be sig \<longleftrightarrow>
     c_bjj_point_ok C pubkey \<and> c_bjj_sig_ok C sig \<and> c_bjj_verify C pubkey sig (nat_of_be (bs msg_be))"

section \<open>NUMS keys and the Taproot tweak\<close>

definition is_valid_xonly :: "crypto \<Rightarrow> b32 \<Rightarrow> bool" where
  "is_valid_xonly C x = c_xonly_ok C x"

text \<open>The counter is a \<^verbatim>\<open>u32\<close> that wraps; \<open>None\<close> is a search that never ends.\<close>

partial_function (option) nums_search :: "crypto \<Rightarrow> bytes \<Rightarrow> u32 \<Rightarrow> b32 option" where
  "nums_search C prefix ctr =
     (let seed = sha256 C [prefix, to_be ctr]
      in if is_valid_xonly C seed then Some seed else nums_search C prefix (ctr + 1))"

definition derive_nums_key :: "crypto \<Rightarrow> string \<Rightarrow> bytes \<Rightarrow> b32 option" where
  "derive_nums_key C domain_name salt = nums_search C (ascii domain_name @ salt) 0"

definition bip340_tagged_hash :: "crypto \<Rightarrow> string \<Rightarrow> bytes \<Rightarrow> b32" where
  "bip340_tagged_hash C tag msg =
     (let th = sha256 C [ascii tag] in sha256 C [bs th, bs th, msg])"

definition tap_tweak_data :: "crypto \<Rightarrow> b32 \<Rightarrow> bytes \<Rightarrow> ('e, b32) res" where
  "tap_tweak_data C internal_xonly data =
     (if \<not> c_xonly_ok C internal_xonly then Panic
      else let t = bip340_tagged_hash C ''TapTweak'' (bs internal_xonly @ data)
           in if \<not> c_scalar_ok C t then Panic else unwrap (c_add_tweak C internal_xonly t))"

definition tap_tweak :: "crypto \<Rightarrow> b32 \<Rightarrow> b32 \<Rightarrow> ('e, b32) res" where
  "tap_tweak C internal_xonly tweak = tap_tweak_data C internal_xonly (bs tweak)"

definition protocol_burn_internal_key :: "crypto \<Rightarrow> b32 \<Rightarrow> ('e, b32) res" where
  "protocol_burn_internal_key C family =
     unwrap (derive_nums_key C BURN_SINK (bs family))"

definition protocol_burn_tweak :: "crypto \<Rightarrow> b32 \<Rightarrow> b32" where
  "protocol_burn_tweak C family = sha256 C [ascii BURN_TWEAK, bs family]"

definition protocol_sink_script_key :: "crypto \<Rightarrow> b32 \<Rightarrow> ('e, b32) res" where
  "protocol_sink_script_key C family =
     rbind (protocol_burn_internal_key C family) (\<lambda>internal.
       tap_tweak C internal (protocol_burn_tweak C family))"

section \<open>Conversions are lossless\<close>

lemma bs_fr_to_be_bytes: "bs (fr_to_be_bytes x) = nat_be 32 (fr_nat x)"
  by (simp add: fr_to_be_bytes_def)

lemma bn254_order_less: "bn254_order < 256 ^ 32"
  by (simp add: bn254_order_def)

lemma nat_of_fr_bytes: "nat_of_be (bs (fr_to_be_bytes x)) = fr_nat x"
proof -
  have "fr_nat x < 256 ^ 32"
    by (rule less_trans [OF fr_nat_less bn254_order_less])
  then show ?thesis
    unfolding bs_fr_to_be_bytes nat_of_be_nat_be by (rule mod_less)
qed

lemma fr_from_to_bytes [simp]: "fr_from_be_bytes (bs (fr_to_be_bytes x)) = x"
  by (simp add: fr_from_be_bytes_def nat_of_fr_bytes)

lemma fr_to_be_bytes_inject [simp]: "fr_to_be_bytes x = fr_to_be_bytes y \<longleftrightarrow> x = y"
  by (metis fr_from_to_bytes)

lemma fr_of_nat_inject: "m < bn254_order \<Longrightarrow> n < bn254_order \<Longrightarrow> fr_of_nat m = fr_of_nat n \<longleftrightarrow> m = n"
  by (simp add: fr_eq_iff fr_nat_fr_of_nat)

lemma fr_of_u64_inject [simp]: "fr_of_u64 x = fr_of_u64 y \<longleftrightarrow> x = y"
proof -
  have "unat z < bn254_order" for z :: u64
    by (rule less_trans [OF unat_lt_u64]) (simp add: bn254_order_def)
  then show ?thesis by (simp add: fr_of_u64_def fr_of_nat_inject word_unat_eq_iff)
qed

lemma fr_from_short_inject:
  assumes "length a = n" and "length b = n" and "n \<le> 31"
  shows "fr_from_be_bytes a = fr_from_be_bytes b \<longleftrightarrow> a = b"
proof -
  have b31: "nat_of_be c < bn254_order" if "length c = n" for c
  proof -
    have "nat_of_be c < 256 ^ n" using nat_of_be_less [of c] that by simp
    also have "(256 :: nat) ^ n \<le> 256 ^ 31" using assms(3) by (rule power_increasing) simp
    also have "(256 :: nat) ^ 31 < bn254_order" by (simp add: bn254_order_def)
    finally show ?thesis .
  qed
  show ?thesis
    unfolding fr_from_be_bytes_def using fr_of_nat_inject [OF b31 b31] assms(1,2)
    by (simp add: nat_of_be_inject)
qed

lemma fe_scalar_inject [simp]: "fe_scalar x = fe_scalar y \<longleftrightarrow> x = y"
  by (simp add: fe_scalar_def)

lemma fe_split_inject [simp]: "fe_split a = fe_split b \<longleftrightarrow> a = b"
proof -
  have "fe_split a = fe_split b \<Longrightarrow> bs a = bs b"
    using fr_from_short_inject [of "take 16 (bs a)" 16 "take 16 (bs b)"]
      fr_from_short_inject [of "drop 16 (bs a)" 16 "drop 16 (bs b)"]
    by (simp add: fe_split_def sub_def) (metis append_take_drop_id)
  then show ?thesis by (auto simp: bs_inject)
qed

lemma length_fe_split [simp]: "length (fe_split b) = 2"
  by (simp add: fe_split_def)

lemma fe_split_append_inject [simp]: "fe_split a @ xs = fe_split b @ ys \<longleftrightarrow> a = b \<and> xs = ys"
  by simp

lemma ucast_up_inject:
  "(ucast (a :: u16) :: u64) = ucast b \<longleftrightarrow> a = b" "(ucast (c :: u8) :: u64) = ucast d \<longleftrightarrow> c = d"
  "(ucast (e :: u32) :: u64) = ucast f \<longleftrightarrow> e = f"
  by (simp_all add: word_unat_eq_iff)

lemma length_state_field_elements: "length (state_field_elements s) = 42"
  by (simp add: state_field_elements_def)

lemma state_field_elements_inject: "state_field_elements s = state_field_elements t \<longleftrightarrow> s = t"
  by (auto simp: state_field_elements_def ucast_up_inject intro!: StateRoot.equality)

section \<open>The batch root is a perfect tree's root\<close>

fun perfect_root :: "crypto \<Rightarrow> nat \<Rightarrow> fr list \<Rightarrow> fr" where
  "perfect_root C 0 xs = hd xs"
| "perfect_root C (Suc n) xs =
     poseidon2 C (perfect_root C n (take (2 ^ n) xs)) (perfect_root C n (drop (2 ^ n) xs))"

fun pair_up :: "crypto \<Rightarrow> fr list \<Rightarrow> fr list" where
  "pair_up C (x # y # zs) = poseidon2 C x y # pair_up C zs"
| "pair_up C xs = []"

lemma poseidon_pairs_even: "even (length xs) \<Longrightarrow> poseidon_pairs C xs = Ok (pair_up C xs)"
  by (induction C xs rule: pair_up.induct) simp_all

lemma length_pair_up: "length (pair_up C xs) = length xs div 2"
  by (induction C xs rule: pair_up.induct) simp_all

lemma pair_up_append: "even (length xs) \<Longrightarrow> pair_up C (xs @ ys) = pair_up C xs @ pair_up C ys"
  by (induction C xs rule: pair_up.induct) simp_all

lemma perfect_root_pair_up:
  "length xs = 2 ^ Suc n \<Longrightarrow> perfect_root C n (pair_up C xs) = perfect_root C (Suc n) xs"
proof (induction n arbitrary: xs)
  case 0
  then obtain x y where "xs = [x, y]" by (auto simp: length_Suc_conv numeral_2_eq_2)
  then show ?case by simp
next
  case (Suc n)
  let ?a = "take (2 ^ Suc n) xs" and ?b = "drop (2 ^ Suc n) xs"
  have l: "length ?a = 2 ^ Suc n" "length ?b = 2 ^ Suc n" using Suc.prems by simp_all
  have p: "pair_up C xs = pair_up C ?a @ pair_up C ?b"
    using pair_up_append [of ?a C ?b] l(1) by simp
  have "length (pair_up C ?a) = 2 ^ n" using l(1) by (simp only: length_pair_up) simp
  then have "perfect_root C (Suc n) (pair_up C xs) =
      poseidon2 C (perfect_root C n (pair_up C ?a)) (perfect_root C n (pair_up C ?b))"
    unfolding p by simp
  also have "... = poseidon2 C (perfect_root C (Suc n) ?a) (perfect_root C (Suc n) ?b)"
    by (simp only: Suc.IH [OF l(1)] Suc.IH [OF l(2)])
  finally show ?case by simp
qed

lemma batch_levels_perfect:
  "length xs = 2 ^ n \<Longrightarrow> (batch_levels C xs :: ('e, fr) res) = Ok (perfect_root C n xs)"
proof (induction n arbitrary: xs)
  case 0
  then show ?case by (cases xs) (simp_all add: batch_levels.simps get_at_def)
next
  case (Suc n)
  have len: "length (pair_up C xs) = 2 ^ n" using Suc.prems by (simp only: length_pair_up) simp
  have "(1 :: nat) < 2 ^ Suc n" by (rule one_less_power) simp_all
  then have "1 < length xs" "even (length xs)" unfolding Suc.prems by simp_all
  then have "batch_levels C xs = (batch_levels C (pair_up C xs) :: ('e, fr) res)"
    by (subst batch_levels.simps) (simp add: poseidon_pairs_even)
  also have "... = Ok (perfect_root C (Suc n) xs)"
    by (simp only: Suc.IH [OF len] perfect_root_pair_up [OF Suc.prems])
  finally show ?case .
qed

lemma pow2_above_power:
  "2 ^ i < 2 * len \<Longrightarrow> \<exists>j\<ge>i. pow2_above (2 ^ i) len = 2 ^ j \<and> len \<le> 2 ^ j \<and> 2 ^ j < 2 * len"
proof (induction "len - 2 ^ i" arbitrary: i rule: less_induct)
  case less
  show ?case
  proof (cases "2 ^ i < len")
    case True
    then have step: "pow2_above (2 ^ i) len = pow2_above (2 ^ Suc i) len"
      by (subst pow2_above.simps) simp
    have "len - 2 ^ Suc i < len - 2 ^ i" using True by (intro diff_less_mono2) simp_all
    moreover have "2 ^ Suc i < 2 * len" using True by simp
    ultimately obtain j where "j \<ge> Suc i" "pow2_above (2 ^ Suc i) len = 2 ^ j" "len \<le> 2 ^ j" "2 ^ j < 2 * len"
      using less.hyps by blast
    then show ?thesis unfolding step by (intro exI [of _ j]) simp
  next
    case False
    then show ?thesis using less.prems by (intro exI [of _ i]) (subst pow2_above.simps, simp)
  qed
qed

text \<open>The leaves are padded to the least power of two that holds them.\<close>

lemma batch_root_perfect:
  assumes "leaves \<noteq> []"
  shows "\<exists>n. length leaves \<le> 2 ^ n \<and> 2 ^ n < 2 * length leaves \<and>
     batch_root C leaves = Ok (perfect_root C n (leaves @ replicate (2 ^ n - length leaves) 0))"
proof -
  have "2 ^ 0 < 2 * length leaves" using assms by (cases leaves) simp_all
  from pow2_above_power [OF this]
  obtain n where n: "pow2_above 1 (length leaves) = 2 ^ n" "length leaves \<le> 2 ^ n" "2 ^ n < 2 * length leaves"
    by auto
  show ?thesis
    using assms n by (intro exI [of _ n]) (simp add: batch_root_def Let_def batch_levels_perfect)
qed

lemma batch_root_be_total: "\<exists>r. (batch_root_be C ls :: ('e, b32) res) = Ok r"
proof (cases "ls = []")
  case True
  then show ?thesis by (simp add: batch_root_be_def batch_root_def)
next
  case False
  then obtain n where "(batch_root C (map (\<lambda>b. fr_from_be_bytes (bs b)) ls) :: ('e, fr) res) =
      Ok (perfect_root C n (map (\<lambda>b. fr_from_be_bytes (bs b)) ls @
        replicate (2 ^ n - length (map (\<lambda>b. fr_from_be_bytes (bs b)) ls)) 0))"
    using batch_root_perfect [of "map (\<lambda>b. fr_from_be_bytes (bs b)) ls" C] by auto
  then show ?thesis by (simp add: batch_root_be_def)
qed

lemma batch_root_be_not_Err [simp]: "(batch_root_be C ls :: ('e, b32) res) \<noteq> Err e"
  and batch_root_be_not_Panic [simp]: "(batch_root_be C ls :: ('e, b32) res) \<noteq> Panic"
  using batch_root_be_total [of C ls, where 'e = 'e] by auto

section \<open>The state commitment binds the state\<close>

definition collides :: "crypto \<Rightarrow> fr list \<times> fr list \<Rightarrow> bool" where
  "collides C w \<longleftrightarrow> fst w \<noteq> snd w \<and> c_poseidon C (fst w) = c_poseidon C (snd w)"

text \<open>Two chains side by side: the first step that meets from different inputs.\<close>

fun chain_collision :: "crypto \<Rightarrow> fr \<Rightarrow> fr \<Rightarrow> fr list \<Rightarrow> fr list \<Rightarrow> (fr list \<times> fr list) option" where
  "chain_collision C a b (x # xs) (y # ys) =
     (let a' = poseidon2 C a x; b' = poseidon2 C b y
      in if a' = b' \<and> (a \<noteq> b \<or> x \<noteq> y) then Some ([a, x], [b, y])
         else chain_collision C a' b' xs ys)"
| "chain_collision C a b _ _ = None"

lemma chain_collision_found:
  "foldl (poseidon2 C) a xs = foldl (poseidon2 C) b ys \<Longrightarrow> length xs = length ys \<Longrightarrow> a \<noteq> b \<or> xs \<noteq> ys \<Longrightarrow>
     \<exists>w. chain_collision C a b xs ys = Some w \<and> collides C w"
proof (induction C a b xs ys rule: chain_collision.induct)
  case (1 C a b x xs y ys)
  show ?case
  proof (cases "poseidon2 C a x = poseidon2 C b y \<and> (a \<noteq> b \<or> x \<noteq> y)")
    case True
    then show ?thesis by (auto simp: collides_def poseidon2_def poseidon_def)
  next
    case False
    then have "poseidon2 C a x \<noteq> poseidon2 C b y \<or> xs \<noteq> ys" using "1.prems"(3) by auto
    moreover have "chain_collision C a b (x # xs) (y # ys) = chain_collision C (poseidon2 C a x) (poseidon2 C b y) xs ys"
      using False by (simp only: chain_collision.simps Let_def if_False)
    ultimately show ?thesis using "1.IH" [OF refl refl False] "1.prems"(1,2) by auto
  qed
qed auto

definition state_scalars :: "StateRoot \<Rightarrow> fr list" where
  "state_scalars s = map (\<lambda>fe. fr_from_be_bytes (bs fe)) (state_field_elements s)"

definition state_collision :: "crypto \<Rightarrow> StateRoot \<Rightarrow> StateRoot \<Rightarrow> (fr list \<times> fr list) option" where
  "state_collision C s t = chain_collision C 0 0 (state_scalars s) (state_scalars t)"

lemma fr_canonical: "fr_to_be_bytes (fr_from_be_bytes (bs (fr_to_be_bytes x))) = fr_to_be_bytes x"
  by simp

lemma state_field_elements_canonical:
  "\<forall>fe\<in>set (state_field_elements s). fr_to_be_bytes (fr_from_be_bytes (bs fe)) = fe"
  by (simp add: state_field_elements_def fe_scalar_def fe_split_def)

lemma state_scalars_inject: "state_scalars s = state_scalars t \<longleftrightarrow> s = t"
proof
  have c: "map fr_to_be_bytes (state_scalars u) = state_field_elements u" for u
    using state_field_elements_canonical [of u] by (simp add: state_scalars_def map_idI comp_def)
  assume "state_scalars s = state_scalars t"
  then show "s = t" using c state_field_elements_inject by metis
qed simp

lemma state_root_hash_chain: "state_root_hash C s = fr_to_be_bytes (foldl (poseidon2 C) 0 (state_scalars s))"
  by (simp add: state_root_hash_def state_scalars_def foldl_map)

text \<open>
  C12: the state root binds the whole state: two different states with one root hash exhibit a
  Poseidon collision along the hash chain of their 42 field elements.
\<close>
lemma state_root_binds:
  assumes "state_root_hash C s = state_root_hash C t" and "s \<noteq> t"
  shows "\<exists>w. state_collision C s t = Some w \<and> collides C w"
  unfolding state_collision_def
  by (rule chain_collision_found)
    (use assms in \<open>simp_all add: state_root_hash_chain state_scalars_inject\<close>,
      simp_all add: state_scalars_def length_state_field_elements)

lemma poseidon2_const [simp]: "poseidon2 const_crypto x y = 1"
  by (simp add: poseidon2_def poseidon_def)

lemma state_root_hash_const [simp]: "state_root_hash const_crypto s = fr_to_be_bytes 1"
proof -
  have one: "foldl (poseidon2 const_crypto) x xs = 1" if "xs \<noteq> []" for x xs
    using that by (induction xs rule: rev_induct) simp_all
  have "length (state_scalars s) = 42" by (simp add: state_scalars_def length_state_field_elements)
  then have "state_scalars s \<noteq> []" by auto
  then show ?thesis by (simp add: state_root_hash_chain one)
qed

end
