(* ===== verification/Smt.thy ===== *)
theory Smt
  imports Poseidon
begin

unbundle bit_operations_syntax

text \<open>
  The sparse Merkle tree (\<^verbatim>\<open>satusd-crypto/src/smt.rs\<close>). The \<^verbatim>\<open>BTreeMap\<close> of occupied leaves is the
  list of its entries in ascending key order. Shown here: the proof a tree gives for a key folds
  to the tree's root with the key's own leaf and to the root of the updated tree with a new
  leaf, so \<^verbatim>\<open>root_after_update\<close> is the root after \<^verbatim>\<open>insert\<close>; and two proofs for one key that fold
  to one root from different leaves yield a Poseidon collision, which \<open>smt_collision\<close> computes.
\<close>

section \<open>The tree\<close>

definition HEIGHT :: nat where
  "HEIGHT = 256"

type_synonym smt_entry = "b32 \<times> fr"

record SparseMerkleTree =
  smt_leaves :: "smt_entry list"
  smt_empty :: "fr list"

definition empty_roots :: "crypto \<Rightarrow> fr list" where
  "empty_roots C =
     fold (\<lambda>h e. let prev = e ! (h - 1) in e @ [poseidon2 C prev prev]) [1..<HEIGHT + 1] [0]"

definition leaf_hash :: "crypto \<Rightarrow> b32 \<Rightarrow> b32 \<Rightarrow> fr" where
  "leaf_hash C key v = poseidon2 C (hash_bytes C (bs key)) (hash_bytes C (bs v))"

definition smt_bit :: "b32 \<Rightarrow> nat \<Rightarrow> u8" where
  "smt_bit key depth = drop_bit (7 - depth mod 8) (bs key ! (depth div 8)) AND 1"

definition smt_new :: "crypto \<Rightarrow> SparseMerkleTree" where
  "smt_new C = \<lparr>smt_leaves = [], smt_empty = empty_roots C\<rparr>"

text \<open>\<^verbatim>\<open>BTreeMap::insert\<close> and \<^verbatim>\<open>BTreeMap::contains_key\<close> on the ascending entries.\<close>

fun btree_insert :: "'k::linorder \<Rightarrow> 'v \<Rightarrow> ('k \<times> 'v) list \<Rightarrow> ('k \<times> 'v) list" where
  "btree_insert k v [] = [(k, v)]"
| "btree_insert k v (x # xs) =
     (if k < fst x then (k, v) # x # xs
      else if k = fst x then (k, v) # xs
      else x # btree_insert k v xs)"

definition smt_contains :: "SparseMerkleTree \<Rightarrow> b32 \<Rightarrow> bool" where
  "smt_contains t key = (map_of (smt_leaves t) key \<noteq> None)"

definition smt_insert ::
  "crypto \<Rightarrow> SparseMerkleTree \<Rightarrow> b32 \<Rightarrow> b32 \<Rightarrow> bool \<times> SparseMerkleTree" where
  "smt_insert C t key v =
     (map_of (smt_leaves t) key \<noteq> None,
      t\<lparr>smt_leaves := btree_insert key (leaf_hash C key v) (smt_leaves t)\<rparr>)"

definition smt_partition :: "smt_entry list \<Rightarrow> nat \<Rightarrow> smt_entry list \<times> smt_entry list" where
  "smt_partition entries depth =
     (filter (\<lambda>e. smt_bit (fst e) depth = 0) entries,
      filter (\<lambda>e. smt_bit (fst e) depth \<noteq> 0) entries)"

function smt_subtree :: "crypto \<Rightarrow> SparseMerkleTree \<Rightarrow> nat \<Rightarrow> smt_entry list \<Rightarrow> fr" where
  "smt_subtree C t depth entries =
     (if entries = [] then smt_empty t ! (HEIGHT - depth)
      else if depth \<ge> HEIGHT then snd (hd entries)
      else let (left, right) = smt_partition entries depth
           in poseidon2 C (smt_subtree C t (depth + 1) left) (smt_subtree C t (depth + 1) right))"
  by pat_completeness auto
termination
  by (relation "measure (\<lambda>(C, t, depth, entries). HEIGHT - depth)") auto

declare smt_subtree.simps [simp del]

definition smt_root :: "crypto \<Rightarrow> SparseMerkleTree \<Rightarrow> b32" where
  "smt_root C t = fr_to_be_bytes (smt_subtree C t 0 (smt_leaves t))"

text \<open>\<open>out\<close> is the mutable slice the recursion writes one sibling per depth into.\<close>

function collect_siblings ::
  "crypto \<Rightarrow> SparseMerkleTree \<Rightarrow> nat \<Rightarrow> b32 \<Rightarrow> smt_entry list \<Rightarrow> b32 list \<Rightarrow> b32 list" where
  "collect_siblings C t depth key entries out =
     (if depth \<ge> HEIGHT then out
      else let (left, right) = smt_partition entries depth
           in if smt_bit key depth = 0
              then collect_siblings C t (depth + 1) key left
                     (out[depth := fr_to_be_bytes (smt_subtree C t (depth + 1) right)])
              else collect_siblings C t (depth + 1) key right
                     (out[depth := fr_to_be_bytes (smt_subtree C t (depth + 1) left)]))"
  by pat_completeness auto
termination
  by (relation "measure (\<lambda>(C, t, depth, key, entries, out). HEIGHT - depth)") auto

declare collect_siblings.simps [simp del]

definition smt_prove :: "crypto \<Rightarrow> SparseMerkleTree \<Rightarrow> b32 \<Rightarrow> b32 list" where
  "smt_prove C t key = collect_siblings C t 0 key (smt_leaves t) (replicate HEIGHT (fill 0))"

section \<open>The verifier\<close>

definition fold_step :: "crypto \<Rightarrow> b32 \<Rightarrow> b32 list \<Rightarrow> nat \<Rightarrow> fr \<Rightarrow> fr" where
  "fold_step C key proof_path depth cur =
     (let sib = fr_from_be_bytes (bs (proof_path ! depth))
      in if smt_bit key depth = 0 then poseidon2 C cur sib else poseidon2 C sib cur)"

definition fold_to_root :: "crypto \<Rightarrow> b32 \<Rightarrow> fr \<Rightarrow> b32 list \<Rightarrow> b32" where
  "fold_to_root C key leaf proof_path =
     fr_to_be_bytes (fold (fold_step C key proof_path) (rev [0..<HEIGHT]) leaf)"

definition verify_inclusion :: "crypto \<Rightarrow> b32 \<Rightarrow> b32 \<Rightarrow> b32 \<Rightarrow> b32 list \<Rightarrow> bool" where
  "verify_inclusion C root key v proof_path \<longleftrightarrow>
     length proof_path = HEIGHT \<and> fold_to_root C key (leaf_hash C key v) proof_path = root"

definition verify_exclusion :: "crypto \<Rightarrow> b32 \<Rightarrow> b32 \<Rightarrow> b32 list \<Rightarrow> bool" where
  "verify_exclusion C root key proof_path \<longleftrightarrow>
     length proof_path = HEIGHT \<and> fold_to_root C key 0 proof_path = root"

text \<open>\<^verbatim>\<open>proof[depth]\<close> is out of range when the path is too short (the length assertion is debug-only).\<close>

definition root_after_update :: "crypto \<Rightarrow> b32 \<Rightarrow> b32 \<Rightarrow> b32 list \<Rightarrow> ('e, b32) res" where
  "root_after_update C key v proof_path =
     (if length proof_path < HEIGHT then Panic
      else Ok (fold_to_root C key (leaf_hash C key v) proof_path))"

section \<open>The ascending entries\<close>

definition ascending :: "('k::linorder \<times> 'v) list \<Rightarrow> bool" where
  "ascending xs = sorted_wrt (<) (map fst xs)"

lemma set_btree_insert: "set (map fst (btree_insert k v xs)) = insert k (set (map fst xs))"
  by (induction xs) auto

lemma ascending_insert: "ascending xs \<Longrightarrow> ascending (btree_insert k v xs)"
proof (induction xs)
  case (Cons x xs)
  have "\<forall>k'\<in>set (map fst (btree_insert k v xs)). fst x < k'" if "fst x < k"
    using Cons.prems that unfolding set_btree_insert by (auto simp: ascending_def)
  then show ?case
    using Cons by (auto simp: ascending_def)
qed (simp add: ascending_def)

lemma ascending_filter: "ascending xs \<Longrightarrow> ascending (filter P xs)"
  by (induction xs) (auto simp: ascending_def)

lemma map_of_btree_insert: "ascending xs \<Longrightarrow> map_of (btree_insert k v xs) = (map_of xs)(k \<mapsto> v)"
proof (induction xs)
  case (Cons x xs)
  then show ?case by (cases x) (auto simp: ascending_def fun_eq_iff)
qed simp

lemma btree_insert_front:
  "\<forall>x\<in>set xs. k < fst x \<Longrightarrow> btree_insert k v xs = (k, v) # xs"
  by (cases xs) auto

lemma filter_btree_insert:
  "ascending xs \<Longrightarrow> filter (\<lambda>e. P (fst e)) (btree_insert k v xs) =
     (if P k then btree_insert k v (filter (\<lambda>e. P (fst e)) xs) else filter (\<lambda>e. P (fst e)) xs)"
proof (induction xs)
  case (Cons x xs)
  then have IH: "filter (\<lambda>e. P (fst e)) (btree_insert k v xs) =
     (if P k then btree_insert k v (filter (\<lambda>e. P (fst e)) xs) else filter (\<lambda>e. P (fst e)) xs)"
    by (simp add: ascending_def)
  have gt: "\<forall>y\<in>set (filter (\<lambda>e. P (fst e)) xs). fst x < fst y"
    using Cons.prems by (auto simp: ascending_def)
  consider "k < fst x" | "k = fst x" | "fst x < k" by (rule linorder_cases)
  then show ?case
  proof cases
    case 1
    then have "\<forall>y\<in>set (filter (\<lambda>e. P (fst e)) xs). k < fst y" using gt by auto
    then show ?thesis using 1 btree_insert_front [of "filter (\<lambda>e. P (fst e)) xs" k v] by simp
  next
    case 2
    then show ?thesis using gt btree_insert_front [of "filter (\<lambda>e. P (fst e)) xs" k v] by simp
  next
    case 3
    then show ?thesis using IH by auto
  qed
qed simp

section \<open>The tree's own proofs fold to its root\<close>

definition smt_inv :: "crypto \<Rightarrow> SparseMerkleTree \<Rightarrow> bool" where
  "smt_inv C t \<longleftrightarrow> ascending (smt_leaves t) \<and> smt_empty t = empty_roots C"

definition leaf_of :: "smt_entry list \<Rightarrow> b32 \<Rightarrow> fr" where
  "leaf_of entries key = (case map_of entries key of None \<Rightarrow> 0 | Some v \<Rightarrow> v)"

lemma smt_inv_new [simp]: "smt_inv C (smt_new C)"
  by (simp add: smt_inv_def smt_new_def ascending_def)

lemma smt_inv_insert [simp]: "smt_inv C t \<Longrightarrow> smt_inv C (snd (smt_insert C t key v))"
  by (simp add: smt_inv_def smt_insert_def ascending_insert)

lemma smt_empty_insert [simp]: "smt_empty (snd (smt_insert C t key v)) = smt_empty t"
  by (simp add: smt_insert_def)

lemma empty_roots_upto:
  "length (fold (\<lambda>h e. let prev = e ! (h - 1) in e @ [f prev]) [1..<n + 1] [z]) = n + 1 \<and>
   (fold (\<lambda>h e. let prev = e ! (h - 1) in e @ [f prev]) [1..<n + 1] [z]) ! 0 = z \<and>
   (\<forall>h<n. fold (\<lambda>h e. let prev = e ! (h - 1) in e @ [f prev]) [1..<n + 1] [z] ! Suc h =
          f (fold (\<lambda>h e. let prev = e ! (h - 1) in e @ [f prev]) [1..<n + 1] [z] ! h))"
proof (induction n)
  case (Suc n)
  let ?e = "fold (\<lambda>h e. let prev = e ! (h - 1) in e @ [f prev]) [1..<n + 1] [z]"
  have "fold (\<lambda>h e. let prev = e ! (h - 1) in e @ [f prev]) [1..<Suc n + 1] [z] = ?e @ [f (?e ! n)]"
    by (simp add: Let_def)
  then show ?case
    using Suc.IH by (auto simp: nth_append less_Suc_eq)
qed simp

lemma empty_roots_0: "empty_roots C ! 0 = 0"
  using empty_roots_upto [of "\<lambda>p. poseidon2 C p p" HEIGHT 0] by (simp add: empty_roots_def)

lemma empty_roots_Suc:
  "h < HEIGHT \<Longrightarrow> empty_roots C ! Suc h = poseidon2 C (empty_roots C ! h) (empty_roots C ! h)"
  using empty_roots_upto [of "\<lambda>p. poseidon2 C p p" HEIGHT 0] by (simp add: empty_roots_def)

text \<open>Empty or not, a subtree above the leaves is the hash of its two halves.\<close>

lemma smt_subtree_step:
  assumes "smt_empty t = empty_roots C" and "depth < HEIGHT"
  shows "smt_subtree C t depth es =
    poseidon2 C (smt_subtree C t (depth + 1) (fst (smt_partition es depth)))
                (smt_subtree C t (depth + 1) (snd (smt_partition es depth)))"
proof (cases "es = []")
  case True
  have "HEIGHT - depth = Suc (HEIGHT - (depth + 1))" using assms(2) by simp
  then show ?thesis
    using True assms empty_roots_Suc [of "HEIGHT - (depth + 1)" C]
    by (simp add: smt_subtree.simps smt_partition_def)
next
  case False
  then show ?thesis
    using assms(2) by (subst smt_subtree.simps) (simp add: smt_partition_def)
qed

text \<open>The siblings from a depth on, as a function of the entries.\<close>

function sibs :: "crypto \<Rightarrow> SparseMerkleTree \<Rightarrow> nat \<Rightarrow> b32 \<Rightarrow> smt_entry list \<Rightarrow> b32 list" where
  "sibs C t depth key es =
     (if depth \<ge> HEIGHT then []
      else if smt_bit key depth = 0
           then fr_to_be_bytes (smt_subtree C t (depth + 1) (snd (smt_partition es depth)))
                  # sibs C t (depth + 1) key (fst (smt_partition es depth))
           else fr_to_be_bytes (smt_subtree C t (depth + 1) (fst (smt_partition es depth)))
                  # sibs C t (depth + 1) key (snd (smt_partition es depth)))"
  by pat_completeness auto
termination
  by (relation "measure (\<lambda>(C, t, depth, key, es). HEIGHT - depth)") auto

declare sibs.simps [simp del]

lemma length_sibs: "length (sibs C t depth key es) = HEIGHT - depth"
proof (induction C t depth key es rule: sibs.induct)
  case (1 C t depth key es)
  then show ?case by (cases "depth \<ge> HEIGHT") (auto simp: sibs.simps [of C t depth])
qed

lemma collect_siblings_eq:
  "length out = HEIGHT \<Longrightarrow> depth \<le> HEIGHT \<Longrightarrow>
     collect_siblings C t depth key es out = take depth out @ sibs C t depth key es"
proof (induction C t depth key es out rule: collect_siblings.induct)
  case (1 C t depth key es out)
  show ?case
  proof (cases "depth < HEIGHT")
    case False
    then have "depth = HEIGHT" using "1.prems" by simp
    then show ?thesis
      using "1.prems" by (simp add: collect_siblings.simps [of C t HEIGHT] sibs.simps [of C t HEIGHT])
  next
    case True
    then show ?thesis
      using "1.prems" "1.IH"
      by (simp add: collect_siblings.simps [of C t depth] sibs.simps [of C t depth]
          smt_partition_def take_Suc_conv_app_nth)
  qed
qed

lemma smt_prove_eq: "smt_prove C t key = sibs C t 0 key (smt_leaves t)"
  by (simp add: smt_prove_def collect_siblings_eq)

lemma length_smt_prove [simp]: "length (smt_prove C t key) = HEIGHT"
  by (simp add: smt_prove_eq length_sibs)

text \<open>The 256 path bits determine the key.\<close>

lemma smt_bit_bit: "smt_bit key d = of_bool (bit (bs key ! (d div 8)) (7 - d mod 8))"
  by (simp add: smt_bit_def and_one_eq mod_2_eq_odd bit_iff_odd_drop_bit)

lemma smt_bits_inject:
  assumes "\<forall>d<HEIGHT. smt_bit k d = smt_bit k' d"
  shows "k = k'"
proof -
  have "bs k ! i = bs k' ! i" if i: "i < 32" for i
  proof (rule bit_word_eqI)
    fix n assume n: "n < LENGTH(8)"
    define m where "m = 7 - n"
    have m: "m < 8" "7 - m = n" using n by (simp_all add: m_def)
    have "(8 * i + m) div 8 = i" "(8 * i + m) mod 8 = m" using m(1) by simp_all
    moreover have "smt_bit k (8 * i + m) = smt_bit k' (8 * i + m)"
      using assms i m(1) by (simp add: HEIGHT_def)
    ultimately show "bit (bs k ! i) n = bit (bs k' ! i) n"
      unfolding smt_bit_bit m(2) [symmetric] by (simp only: of_bool_eq_iff)
  qed
  then have "bs k = bs k'" by (intro nth_equalityI) auto
  then show ?thesis by (simp add: bs_inject)
qed

lemma leaf_of_filter:
  "P key \<Longrightarrow> leaf_of (filter (\<lambda>e. P (fst e)) es) key = leaf_of es key"
  by (induction es) (auto simp: leaf_of_def)

lemma smt_bit_cases: "smt_bit key d = 0 \<or> smt_bit key d = 1"
  by (simp add: smt_bit_bit)

text \<open>
  The fold of a tree's own siblings, from a depth down to the leaf: the entries are those that
  agree with the key above that depth.
\<close>

lemma fold_sibs:
  assumes "smt_empty t = empty_roots C" and "depth \<le> HEIGHT" and "length p = HEIGHT"
    and "drop depth p = sibs C t depth key es" and "ascending es"
    and "\<forall>e\<in>set es. \<forall>d<depth. smt_bit (fst e) d = smt_bit key d"
  shows "fold (fold_step C key p) (rev [depth..<HEIGHT]) (leaf_of es key) = smt_subtree C t depth es"
  using assms
proof (induction "HEIGHT - depth" arbitrary: depth es)
  case 0
  then have d: "depth = HEIGHT" by simp
  have all: "\<forall>e\<in>set es. fst e = key"
    using "0.prems"(6) smt_bits_inject unfolding d by blast
  show ?case
  proof (cases es)
    case Nil
    then show ?thesis
      using "0.prems"(1) by (simp add: d leaf_of_def smt_subtree.simps empty_roots_0)
  next
    case (Cons e r)
    then show ?thesis
      using all by (cases e) (simp add: d leaf_of_def smt_subtree.simps)
  qed
next
  case (Suc n)
  have lt: "depth < HEIGHT" using Suc.hyps(2) by simp
  define b where "b = smt_bit key depth"
  define own where "own = filter (\<lambda>e. smt_bit (fst e) depth = b) es"
  have own: "own = (if b = 0 then fst (smt_partition es depth) else snd (smt_partition es depth))"
  proof -
    have "(smt_bit k depth = b) = (smt_bit k depth \<noteq> 0)" if "b \<noteq> 0" for k
      using that smt_bit_cases [of k depth] smt_bit_cases [of key depth] by (auto simp: b_def)
    then show ?thesis by (auto simp: own_def smt_partition_def)
  qed
  have split: "p ! depth # drop (Suc depth) p = sibs C t depth key es"
    using Suc.prems(3,4) lt by (simp add: Cons_nth_drop_Suc)
  have tl: "drop (depth + 1) p = sibs C t (depth + 1) key own"
    and hd: "p ! depth = fr_to_be_bytes (smt_subtree C t (depth + 1)
      (if b = 0 then snd (smt_partition es depth) else fst (smt_partition es depth)))"
    using split lt by (auto simp: sibs.simps [of C t depth] own b_def split: if_splits)
  have IH: "fold (fold_step C key p) (rev [depth + 1..<HEIGHT]) (leaf_of own key) =
      smt_subtree C t (depth + 1) own"
  proof (rule Suc.hyps(1))
    show "\<forall>e\<in>set own. \<forall>d<depth + 1. smt_bit (fst e) d = smt_bit key d"
      using Suc.prems(6) by (auto simp: own_def b_def less_Suc_eq)
  qed (use Suc.hyps(2) Suc.prems lt tl in \<open>auto simp: own_def ascending_filter\<close>)
  have "leaf_of own key = leaf_of es key"
    unfolding own_def by (rule leaf_of_filter) (simp add: b_def)
  moreover have "rev [depth..<HEIGHT] = rev [depth + 1..<HEIGHT] @ [depth]"
    using lt by (simp add: upt_conv_Cons)
  ultimately show ?case
    using IH hd smt_subtree_step [OF Suc.prems(1) lt, of es]
    by (simp add: fold_step_def b_def [symmetric] own)
qed

theorem smt_own_proof:
  assumes "smt_inv C t"
  shows "fold_to_root C key (leaf_of (smt_leaves t) key) (smt_prove C t key) = smt_root C t"
  using fold_sibs [of t C 0 "smt_prove C t key" key "smt_leaves t"] assms
  by (simp add: fold_to_root_def smt_root_def smt_prove_eq [symmetric] smt_inv_def)

section \<open>An insert moves the root the way \<^verbatim>\<open>root_after_update\<close> says\<close>

lemma smt_partition_insert:
  assumes "ascending es"
  shows "fst (smt_partition (btree_insert k v es) d) =
           (if smt_bit k d = 0 then btree_insert k v (fst (smt_partition es d))
            else fst (smt_partition es d))"
    and "snd (smt_partition (btree_insert k v es) d) =
           (if smt_bit k d = 0 then snd (smt_partition es d)
            else btree_insert k v (snd (smt_partition es d)))"
  using filter_btree_insert [OF assms, of "\<lambda>k. smt_bit k d = 0" k v]
    filter_btree_insert [OF assms, of "\<lambda>k. smt_bit k d \<noteq> 0" k v]
  by (simp_all add: smt_partition_def)

lemma ascending_partition:
  "ascending es \<Longrightarrow> ascending (fst (smt_partition es d)) \<and> ascending (snd (smt_partition es d))"
  by (simp add: smt_partition_def ascending_filter)

lemma smt_subtree_cong: "smt_empty t = smt_empty t' \<Longrightarrow> smt_subtree C t d es = smt_subtree C t' d es"
proof (induction C t d es rule: smt_subtree.induct)
  case (1 C t d es)
  then show ?case
    by (simp add: smt_subtree.simps [of C t d] smt_subtree.simps [of C t' d] split_beta Let_def
        smt_partition_def)
qed

lemma sibs_insert:
  "ascending es \<Longrightarrow> smt_empty t' = smt_empty t \<Longrightarrow>
     sibs C t' d key (btree_insert key v es) = sibs C t d key es"
proof (induction C t d key es rule: sibs.induct)
  case (1 C t d key es)
  then show ?case
    using ascending_partition [OF "1.prems"(1), of d]
    by (auto simp: sibs.simps [of C t' d] sibs.simps [of C t d] smt_partition_insert
        intro!: arg_cong [where f = fr_to_be_bytes] smt_subtree_cong)
qed

lemma smt_prove_insert:
  "smt_inv C t \<Longrightarrow> smt_prove C (snd (smt_insert C t key v)) key = smt_prove C t key"
  by (simp add: smt_prove_eq smt_insert_def sibs_insert smt_inv_def)

lemma leaf_of_insert:
  "smt_inv C t \<Longrightarrow> leaf_of (smt_leaves (snd (smt_insert C t key v))) key = leaf_hash C key v"
  by (simp add: leaf_of_def smt_insert_def map_of_btree_insert smt_inv_def)

lemma smt_update:
  assumes "smt_inv C t"
  shows "root_after_update C key v (smt_prove C t key) = Ok (smt_root C (snd (smt_insert C t key v)))"
  using smt_own_proof [OF smt_inv_insert [OF assms, where key = key and v = v], of key] assms
  by (simp add: root_after_update_def smt_prove_insert leaf_of_insert)

lemma smt_included:
  assumes "smt_inv C t"
  shows "verify_inclusion C (smt_root C (snd (smt_insert C t key v))) key v
           (smt_prove C (snd (smt_insert C t key v)) key)"
  using smt_own_proof [OF smt_inv_insert [OF assms, where key = key and v = v], of key] assms
  by (simp add: verify_inclusion_def leaf_of_insert)

lemma smt_excluded:
  assumes "smt_inv C t" and "\<not> smt_contains t key"
  shows "verify_exclusion C (smt_root C t) key (smt_prove C t key)"
  using smt_own_proof [OF assms(1), of key] assms(2)
  by (simp add: verify_exclusion_def smt_contains_def leaf_of_def)

section \<open>The tree as an authenticated map\<close>

text \<open>
  What a component that holds only a root relies on: proofs made from the tree verify against
  its root, and the update computed from a proof is the root of the updated tree.
\<close>

locale auth_map =
  fixes root_of :: "'t \<Rightarrow> b32" and prove_of :: "'t \<Rightarrow> b32 \<Rightarrow> b32 list"
    and put :: "'t \<Rightarrow> b32 \<Rightarrow> b32 \<Rightarrow> 't" and good :: "'t \<Rightarrow> bool" and has :: "'t \<Rightarrow> b32 \<Rightarrow> bool"
    and included :: "b32 \<Rightarrow> b32 \<Rightarrow> b32 \<Rightarrow> b32 list \<Rightarrow> bool"
    and excluded :: "b32 \<Rightarrow> b32 \<Rightarrow> b32 list \<Rightarrow> bool"
    and update :: "b32 \<Rightarrow> b32 \<Rightarrow> b32 list \<Rightarrow> ('e, b32) res"
  assumes put_good: "good t \<Longrightarrow> good (put t k v)"
    and put_included: "good t \<Longrightarrow> included (root_of (put t k v)) k v (prove_of (put t k v) k)"
    and absent_excluded: "good t \<Longrightarrow> \<not> has t k \<Longrightarrow> excluded (root_of t) k (prove_of t k)"
    and update_put: "good t \<Longrightarrow> update k v (prove_of t k) = Ok (root_of (put t k v))"
    and put_has: "good t \<Longrightarrow> has (put t k v) j \<longleftrightarrow> j = k \<or> has t j"
begin

definition follow_step :: "b32 \<times> b32 \<Rightarrow> 't \<times> b32 \<Rightarrow> ('e, 't \<times> b32) res" where
  "follow_step kv tr =
     rbind (update (fst kv) (snd kv) (prove_of (fst tr) (fst kv)))
       (\<lambda>r. Ok (put (fst tr) (fst kv) (snd kv), r))"

text \<open>A root updated proof by proof stays the root of the tree updated entry by entry.\<close>

lemma follow_updates:
  "good t \<Longrightarrow> \<exists>t'. rfold follow_step kvs (t, root_of t) = Ok (t', root_of t') \<and> good t' \<and>
     (\<forall>j. has t' j \<longleftrightarrow> j \<in> fst ` set kvs \<or> has t j)"
proof (induction kvs arbitrary: t)
  case (Cons kv kvs)
  have "follow_step kv (t, root_of t) = Ok (put t (fst kv) (snd kv), root_of (put t (fst kv) (snd kv)))"
    by (simp add: follow_step_def update_put [OF Cons.prems])
  then show ?case
    using Cons.IH [OF put_good [OF Cons.prems], of "fst kv" "snd kv"] put_has [OF Cons.prems]
    by auto
qed simp

end

lemma smt_contains_insert:
  "smt_inv C t \<Longrightarrow> smt_contains (snd (smt_insert C t k v)) j \<longleftrightarrow> j = k \<or> smt_contains t j"
  by (simp add: smt_contains_def smt_insert_def smt_inv_def map_of_btree_insert)

interpretation smt: auth_map "smt_root C" "smt_prove C" "\<lambda>t k v. snd (smt_insert C t k v)" "smt_inv C"
  smt_contains "verify_inclusion C" "verify_exclusion C" "root_after_update C"
  by unfold_locales
    (simp_all add: smt_included smt_excluded smt_update smt_contains_insert)

section \<open>Two openings under one root are a collision\<close>

text \<open>
  Two paths folded side by side, leaf first. The first level at which the values meet although
  the inputs differ, in the value carried up or in the sibling, is a Poseidon collision.
\<close>

fun path_collision ::
  "crypto \<Rightarrow> b32 \<Rightarrow> b32 list \<Rightarrow> b32 list \<Rightarrow> nat list \<Rightarrow> fr \<Rightarrow> fr \<Rightarrow> (fr list \<times> fr list) option" where
  "path_collision C key p q [] x y = None"
| "path_collision C key p q (d # ds) x y =
     (let a = fr_from_be_bytes (bs (p ! d)); b = fr_from_be_bytes (bs (q ! d));
          x' = fold_step C key p d x; y' = fold_step C key q d y
      in if x' = y' \<and> (x \<noteq> y \<or> a \<noteq> b)
         then Some (if smt_bit key d = 0 then ([x, a], [y, b]) else ([a, x], [b, y]))
         else path_collision C key p q ds x' y')"

lemma path_collision_sound: "path_collision C key p q ds x y = Some w \<Longrightarrow> collides C w"
proof (induction C key p q ds x y rule: path_collision.induct)
  case (2 C key p q d ds x y)
  let ?a = "fr_from_be_bytes (bs (p ! d))" and ?b = "fr_from_be_bytes (bs (q ! d))"
  show ?case
  proof (cases "fold_step C key p d x = fold_step C key q d y \<and> (x \<noteq> y \<or> ?a \<noteq> ?b)")
    case True
    then have "w = (if smt_bit key d = 0 then ([x, ?a], [y, ?b]) else ([?a, x], [?b, y]))"
      using "2.prems" by (simp add: Let_def)
    moreover have "(if smt_bit key d = 0 then poseidon2 C x ?a else poseidon2 C ?a x) =
        (if smt_bit key d = 0 then poseidon2 C y ?b else poseidon2 C ?b y)"
      using True by (simp only: fold_step_def Let_def)
    ultimately show ?thesis
      using True by (auto simp: collides_def poseidon2_def poseidon_def split: if_splits)
  next
    case False
    then have "path_collision C key p q ds (fold_step C key p d x) (fold_step C key q d y) = Some w"
      using "2.prems" by (simp only: path_collision.simps Let_def if_False)
    then show ?thesis using "2.IH" [OF refl refl refl refl] False by simp
  qed
qed simp

lemma path_collision_none:
  "path_collision C key p q ds x y = None \<Longrightarrow>
     fold (fold_step C key p) ds x = fold (fold_step C key q) ds y \<Longrightarrow>
     x = y \<and> (\<forall>d\<in>set ds. fr_from_be_bytes (bs (p ! d)) = fr_from_be_bytes (bs (q ! d)))"
proof (induction C key p q ds x y rule: path_collision.induct)
  case (2 C key p q d ds x y)
  let ?a = "fr_from_be_bytes (bs (p ! d))" and ?b = "fr_from_be_bytes (bs (q ! d))"
  let ?x = "fold_step C key p d x" and ?y = "fold_step C key q d y"
  have n: "\<not> (?x = ?y \<and> (x \<noteq> y \<or> ?a \<noteq> ?b))"
    using "2.prems"(1) by (auto simp only: path_collision.simps Let_def split: if_splits)
  then have r: "path_collision C key p q ds ?x ?y = None"
    using "2.prems"(1) by (simp only: path_collision.simps Let_def if_False)
  have "?x = ?y \<and> (\<forall>d\<in>set ds. fr_from_be_bytes (bs (p ! d)) = fr_from_be_bytes (bs (q ! d)))"
    by (rule "2.IH" [OF refl refl refl refl n r]) (use "2.prems"(2) in simp)
  then show ?case using n by auto
qed simp

lemma path_collision_self: "path_collision C key p p ds x x = None"
  by (induction ds arbitrary: x) (simp_all add: Let_def)

definition smt_collision ::
  "crypto \<Rightarrow> b32 \<Rightarrow> b32 list \<Rightarrow> b32 list \<Rightarrow> fr \<Rightarrow> fr \<Rightarrow> (fr list \<times> fr list) option" where
  "smt_collision C key p q x y = path_collision C key p q (rev [0..<HEIGHT]) x y"

lemma fold_to_root_binding:
  assumes "fold_to_root C key x p = fold_to_root C key y q" and "x \<noteq> y"
  shows "\<exists>w. smt_collision C key p q x y = Some w \<and> collides C w"
  using path_collision_none [of C key p q "rev [0..<HEIGHT]" x y]
    path_collision_sound [of C key p q "rev [0..<HEIGHT]" x y] assms
  by (cases "path_collision C key p q (rev [0..<HEIGHT]) x y")
    (auto simp: fold_to_root_def smt_collision_def fr_to_be_bytes_inject)

lemma fold_cong_siblings:
  "(\<forall>d\<in>set ds. fr_from_be_bytes (bs (p ! d)) = fr_from_be_bytes (bs (q ! d))) \<Longrightarrow>
     fold (fold_step C key p) ds x = fold (fold_step C key q) ds x"
  by (induction ds arbitrary: x) (simp_all add: fold_step_def)

text \<open>
  A foreign path that opens the tree's root for a key, and does not collide with the tree's own
  path, opens it at the tree's own leaf, and moves the root exactly as the tree's insert does.
\<close>

lemma foreign_path:
  assumes "smt_inv C t" and "fold_to_root C key x p = smt_root C t"
    and "smt_collision C key p (smt_prove C t key) x (leaf_of (smt_leaves t) key) = None"
  shows "x = leaf_of (smt_leaves t) key"
    and "fold_to_root C key (leaf_hash C key v) p = smt_root C (snd (smt_insert C t key v))"
proof -
  let ?q = "smt_prove C t key"
  have same: "x = leaf_of (smt_leaves t) key"
    and sib: "\<forall>d\<in>set (rev [0..<HEIGHT]). fr_from_be_bytes (bs (p ! d)) = fr_from_be_bytes (bs (?q ! d))"
    using path_collision_none [OF assms(3) [unfolded smt_collision_def]] assms(2)
      smt_own_proof [OF assms(1), of key]
    by (auto simp: fold_to_root_def fr_to_be_bytes_inject [symmetric] simp del: fr_to_be_bytes_inject)
  show "x = leaf_of (smt_leaves t) key" by (rule same)
  have "fold_to_root C key (leaf_hash C key v) p = fold_to_root C key (leaf_hash C key v) ?q"
    using fold_cong_siblings [OF sib] by (simp add: fold_to_root_def)
  also have "... = smt_root C (snd (smt_insert C t key v))"
    using smt_update [OF assms(1), where 'a = unit] by (auto simp: root_after_update_def split: if_splits)
  finally show "fold_to_root C key (leaf_hash C key v) p = smt_root C (snd (smt_insert C t key v))" .
qed

section \<open>Under the constant instance\<close>

lemma fold_to_root_const [simp]: "fold_to_root const_crypto key x p = fr_to_be_bytes 1"
proof -
  have "rev [0..<HEIGHT] = rev [1..<HEIGHT] @ [0]" by (simp add: HEIGHT_def upt_conv_Cons)
  then show ?thesis by (simp add: fold_to_root_def fold_step_def Let_def)
qed

lemma smt_root_const [simp]: "smt_inv const_crypto t \<Longrightarrow> smt_root const_crypto t = fr_to_be_bytes 1"
  using smt_own_proof [of const_crypto t "fill 0"] fold_to_root_const by metis

section \<open>Properties\<close>

text \<open>
  C5: whatever path a verifier accepts under the root of a well-formed tree, either it exhibits a
  Poseidon collision with the tree's own path, or it opens the very leaf the tree holds and moves
  the root to that of the tree with the new leaf inserted.
\<close>
lemma foreign_path_refines:
  assumes "smt_inv C t" and "fold_to_root C key x p = smt_root C t"
  shows "case smt_collision C key p (smt_prove C t key) x (leaf_of (smt_leaves t) key) of
     Some w \<Rightarrow> collides C w
   | None \<Rightarrow> x = leaf_of (smt_leaves t) key \<and>
       fold_to_root C key (leaf_hash C key v) p = smt_root C (snd (smt_insert C t key v))"
  using foreign_path [OF assms] path_collision_sound
  by (auto simp: smt_collision_def split: option.splits)

lemma foreign_path_refines_witness:
  "case smt_collision const_crypto (fill 3) (replicate HEIGHT (fill 9)) (smt_prove const_crypto (smt_new const_crypto) (fill 3))
      0 (leaf_of (smt_leaves (smt_new const_crypto)) (fill 3)) of
     Some w \<Rightarrow> collides const_crypto w
   | None \<Rightarrow> 0 = leaf_of (smt_leaves (smt_new const_crypto)) (fill 3) \<and>
       fold_to_root const_crypto (fill 3) (leaf_hash const_crypto (fill 3) (fill 1)) (replicate HEIGHT (fill 9))
         = smt_root const_crypto (snd (smt_insert const_crypto (smt_new const_crypto) (fill 3) (fill 1)))"
  by (rule foreign_path_refines) simp_all

text \<open>
  inserting along the verifier's fold and inserting into the tree agree: from a well-formed
  tree, folding its own path with the new leaf gives the root of the tree after the insertion, the
  new leaf is then included, and every key not held is excluded.
\<close>
lemma insert_refines:
  assumes "smt_inv C t" and "\<not> smt_contains t k'"
  shows "root_after_update C k v (smt_prove C t k) = (Ok (smt_root C (snd (smt_insert C t k v))) :: ('e, _) res) \<and>
     verify_inclusion C (smt_root C (snd (smt_insert C t k v))) k v (smt_prove C (snd (smt_insert C t k v)) k) \<and>
     verify_exclusion C (smt_root C t) k' (smt_prove C t k')"
  using smt_update smt_included smt_excluded assms by blast

lemma insert_refines_witness:
  "verify_exclusion const_crypto (smt_root const_crypto (smt_new const_crypto)) (fill 5)
     (smt_prove const_crypto (smt_new const_crypto) (fill 5))"
  using insert_refines [of const_crypto "smt_new const_crypto" "fill 5" "fill 1" "fill 2", where 'e = unit]
  by (simp add: smt_contains_def smt_new_def smt_inv_def ascending_def)

text \<open>
  C13: The batch root is computed for any leaves without error or panic: zero for no leaves, and
  otherwise the root of the perfect binary tree over the leaves padded with zeros to the least power
  of two that holds them.
\<close>
lemma batch_root_is_perfect:
  "if leaves = [] then batch_root C leaves = (Ok 0 :: ('e, _) res)
   else \<exists>n. length leaves \<le> 2 ^ n \<and> 2 ^ n < 2 * length leaves \<and> (batch_root C leaves :: ('e, _) res)
     = Ok (perfect_root C n (leaves @ replicate (2 ^ n - length leaves) 0))"
proof (cases "leaves = []")
  case True
  then show ?thesis by (simp add: batch_root_def)
next
  case False
  then show ?thesis using batch_root_perfect [OF False, of C] by simp
qed

lemma batch_root_is_perfect_witness:
  "(batch_root const_crypto [1, 0, 1] :: (unit, _) res)
     = Ok (poseidon2 const_crypto (poseidon2 const_crypto 1 0) (poseidon2 const_crypto 1 0))"
proof -
  obtain n where n: "3 \<le> (2 :: nat) ^ n" "(2 :: nat) ^ n < 6"
    "(batch_root const_crypto [1, 0, 1] :: (unit, _) res)
      = Ok (perfect_root const_crypto n ([1, 0, 1] @ replicate (2 ^ n - 3) 0))"
    using batch_root_is_perfect [of "[1, 0, 1]" const_crypto, where 'e = unit] by (auto simp: numeral_3_eq_3)
  have "n < 3"
  proof (rule ccontr)
    assume "\<not> n < 3"
    then have "(2 :: nat) ^ 3 \<le> 2 ^ n" by (intro power_increasing) simp_all
    with n(2) show False by simp
  qed
  moreover have "n \<noteq> 0" "n \<noteq> 1" using n(1) by (auto intro: ccontr)
  ultimately have "n = 2" by linarith
  then show ?thesis using n(3) by (simp add: numeral_2_eq_2 numeral_3_eq_3)
qed

end
