(* ===== verification/Samples.thy ===== *)
theory Samples
  imports Smt
begin

text \<open>
  One concrete value of each record, over the primitives of \<open>const_crypto\<close>: the inputs on which
  the properties of the later theories are applied. The sample state holds a reserve of ten
  bitcoin, a supply of a million atoms and a reservation of 1000 sats, at a price of 100,000 USD.
\<close>

definition sample_outpoint :: OutPoint where
  "sample_outpoint =
    \<lparr>op_txid = fill 0, op_vout = 0\<rparr>"

definition sample_clock :: ClaimClock where
  "sample_clock =
    \<lparr>cc_l1_anchor_height = 0, cc_l1_anchor_hash = fill 0, cc_l1_anchor_mtp = 0,
     cc_l1_anchor_chain_time = 3600, cc_recent_header_chain = [], cc_oracle_epoch = 0,
     cc_selected_oracle_price_e8 = 10000000000000, cc_max_epoch_lag_sec = 0,
     cc_oracle_future_tolerance = 0\<rparr>"

definition sample_message :: OracleMessage where
  "sample_message =
    \<lparr>om_domain = fill 0, om_oracle_id = fill 0, om_oracle_set_epoch = 0, om_price_epoch = 0,
     om_timestamp_ms = 3600000, om_pair = fill 0, om_price_e8 = 10000000000000,
     om_source_commitment = fill 0, om_signer_pubkey = fill 0, om_signature = fill 0\<rparr>"

definition sample_intent :: RedeemIntent where
  "sample_intent =
    \<lparr>ri_version = 0, ri_network = 0, ri_redemption_id = fill 0,
     ri_satusd_asset_family_id = fill 0, ri_amount_satusd_atoms = 100,
     ri_user_btc_refund_pubkey = fill 0, ri_user_btc_claim_pubkey = fill 0,
     ri_user_asset_refund_key = fill 0, ri_operator_id = Some (fill 0), ri_mode = 0,
     ri_payment_hash = fill 0, ri_asset_lock_csv_delta = 24, ri_btc_htlc_csv_delta = 0,
     ri_max_operator_fee_bps = 0, ri_l1_anchor_height = 0, ri_l1_anchor_hash = fill 0,
     ri_expiry_height = 0, ri_nonce = fill 0\<rparr>"

definition sample_lock :: LockRecord where
  "sample_lock =
    \<lparr>lr_lock_record_version = 0, lr_redeem_intent_hash = fill 0,
     lr_lock_anchor_outpoint = sample_outpoint, lr_lock_anchor_txid = fill 0,
     lr_lock_script_key = fill 0, lr_lock_amount_atoms = 100, lr_asset_family_id = fill 0,
     lr_asset_lock_csv_delta = 0, lr_payment_hash = fill 0, lr_lineage_proof_hash = fill 0,
     lr_lineage_verified_by = [], lr_anchor_inclusion_height = 0\<rparr>"

definition sample_lock_finalize :: LockFinalizeRecord where
  "sample_lock_finalize =
    \<lparr>lf_lock_record_hash = fill 0, lf_payment_preimage = fill 0,
     lf_finalize_anchor_txid = fill 0, lf_finalize_anchor_outpoint = sample_outpoint,
     lf_protocol_sink_script_key = fill 0, lf_protocol_burn_internal_key = fill 0,
     lf_finalized_amount_atoms = 100, lf_operator_id = fill 0, lf_finalize_height = 0,
     lf_universe_burn_proof_hash = fill 0\<rparr>"

definition sample_lock_refund :: LockRefundRecord where
  "sample_lock_refund =
    \<lparr>lu_lock_record_hash = fill 0, lu_refund_anchor_txid = fill 0,
     lu_refund_anchor_outpoint = sample_outpoint, lu_user_signature = fill 0,
     lu_refund_height = 0, lu_asset_returned_to = fill 0\<rparr>"

definition sample_deposit :: BtcDepositConfirmation where
  "sample_deposit =
    \<lparr>dc_deposit_tx_legacy = [], dc_inclusion_header = fill 0,
     dc_inclusion_block_hash = fill 0, dc_inclusion_block_height = 0,
     dc_inclusion_merkle_proof = [], dc_tx_index = 0, dc_confirmation_headers = []\<rparr>"

definition sample_payout :: BtcPayoutConfirmation where
  "sample_payout =
    \<lparr>pc_btc_htlc_txid = fill 0, pc_btc_htlc_vout = 0, pc_htlc_output_value_sats = 0,
     pc_htlc_output_script = [], pc_htlc_inclusion_block_hash = fill 0,
     pc_htlc_inclusion_block_height = 0, pc_htlc_inclusion_merkle_proof = [],
     pc_claim_spend_txid = fill 0, pc_claim_spend_input_index = 0,
     pc_claim_spend_witness = [], pc_claim_tx_legacy = [], pc_revealed_preimage = fill 0,
     pc_claim_inclusion_block_hash = fill 0, pc_claim_inclusion_block_height = 0,
     pc_claim_inclusion_merkle_proof = [], pc_confirmation_headers = [], pc_htlc_tx_index = 0,
     pc_claim_tx_index = 0, pc_htlc_inclusion_header = fill 0,
     pc_claim_inclusion_header = fill 0\<rparr>"

definition sample_claim :: ReserveClaim where
  "sample_claim =
    \<lparr>rc_claim_id = fill 0, rc_transition_type = 0x11, rc_operator_id = fill 0,
     rc_prev_state_root = fill 0, rc_new_state_root = fill 0,
     rc_redemption_batch_root = fill 0, rc_oracle_batch_root = fill 0,
     rc_lock_batch_root = fill 0, rc_payout_batch_root = fill 0,
     rc_confirmation_batch_root = fill 0, rc_finalize_batch_root = fill 0,
     rc_burn_proof_batch_root = fill 0, rc_lineage_proof_batch_root = fill 0,
     rc_live_da_root = fill 0, rc_archival_da_root = fill 0, rc_l1_anchor = sample_clock,
     rc_reserve_shard_id = 0, rc_reimbursement_sats = 0, rc_proof_commitment = fill 0,
     rc_claim_expiry_height = 100, rc_operator_signature = fill 0\<rparr>"

definition sample_issuer :: IssuerPosition where
  "sample_issuer =
    \<lparr>ip_issuer_id = fill 0, ip_status = IssuerActive, ip_multisig_pubkeys = [],
     ip_multisig_threshold = 0, ip_reserve_deposits_sats = 0, ip_minted_satusd_atoms = 0,
     ip_pending_mint_atoms = 0, ip_collateral_ratio_ppm = 0, ip_last_deposit_txid = None,
     ip_freeze_reason = None, ip_registered_at_height = 0, ip_pending_mint_commitment = None\<rparr>"

definition sample_pending :: PendingClaim where
  "sample_pending =
    \<lparr>cl_claim_id = fill 0, cl_operator_id = fill 0, cl_reserved_sats = 1000,
     cl_claim_created_height = 0, cl_claim_expiry_height = 100, cl_status = ClaimPending\<rparr>"

definition sample_operator :: OperatorPosition where
  "sample_operator =
    \<lparr>opn_operator_id = fill 0, opn_status = OperatorActive, opn_operator_pubkey = fill 0,
     opn_bond_sats = 2000, opn_max_claim_sats = 1000, opn_outstanding_claim_sats = 0,
     opn_slashed_sats = 0, opn_registered_at_height = 0\<rparr>"

definition sample_state :: StateRoot where
  "sample_state =
    \<lparr>sr_protocol_version = 1, sr_state_epoch = 0, sr_prev_state_root = fill 0,
     sr_transition_type = 0, sr_satusd_asset_family_id = fill 0,
     sr_sat_usd_supply_atoms = 1000000, sr_reserve_btc_sats = 1000000000,
     sr_reserved_pending_claim_sats = 1000, sr_collateral_ratio_ppm = 0,
     sr_emergency_tier = 0, sr_oracle_set_hash = fill 0, sr_oracle_set_epoch = 0,
     sr_latest_oracle_epoch_seen = 0, sr_latest_oracle_price_e8 = 10000000000000,
     sr_reserve_committee_hash = fill 0, sr_issuer_positions_root = fr_to_be_bytes 1,
     sr_operator_registry_root = fr_to_be_bytes 1, sr_lock_record_root = fr_to_be_bytes 1,
     sr_lock_consumed_root = fr_to_be_bytes 1, sr_lock_refund_root = fr_to_be_bytes 1,
     sr_redemption_nullifier_root = fr_to_be_bytes 1,
     sr_pending_claim_root = fr_to_be_bytes 1, sr_live_da_root = fill 0,
     sr_archival_da_root = fill 0, sr_l1_anchor_hash = fill 0, sr_l1_anchor_height = 0,
     sr_l1_anchor_mtp = 0, sr_l1_anchor_chain_time = 0\<rparr>"

lemmas sample_defs = sample_outpoint_def sample_clock_def sample_message_def sample_intent_def sample_lock_def sample_lock_finalize_def sample_lock_refund_def sample_deposit_def 
  sample_payout_def sample_claim_def sample_issuer_def sample_pending_def sample_operator_def sample_state_def

end
