(* ===== verification/Oracle.thy ===== *)
theory Oracle
  imports Samples
begin

text \<open>
  Oracle price aggregation (\<^verbatim>\<open>satusd-state/src/oracle.rs\<close>): the signature loop, and \<open>aggregate\<close>
  with its quorum, set membership, freshness, median and inlier checks. Shown here: an accepted
  price is one of the submitted ones and lies between the prices of any honest majority.
\<close>

definition ORACLE_THRESHOLD :: nat where
  "ORACLE_THRESHOLD = 3"

definition ORACLE_SET_SIZE :: nat where
  "ORACLE_SET_SIZE = 5"

definition ORACLE_OUTLIER_DEV_BPS :: u128 where
  "ORACLE_OUTLIER_DEV_BPS = 200"

datatype OracleRejectReason =
    OracleSetHashMismatch
  | QuorumInsufficient
  | WrongOracleSetEpoch
  | StaleOracle
  | FutureOracle
  | InsufficientInliers
  | SignatureInvalid
  | SignerNotInSet
  | DuplicateSigner
  | TooManyMessages

record OracleParams =
  orp_expected_oracle_set_epoch :: u64
  orp_expected_oracle_set_hash :: b32
  orp_chain_time_sec :: u64
  orp_max_epoch_lag_sec :: u32
  orp_oracle_future_tolerance_sec :: u32
  orp_signer_set :: "b32 list"

definition verify_signature_step :: "crypto \<Rightarrow> OracleMessage \<Rightarrow> unit \<Rightarrow> (OracleRejectReason, unit) res" where
  "verify_signature_step C m u =
     (let h = oracle_message_hash C (om_oracle_set_epoch m) (om_price_epoch m) (om_timestamp_ms m)
            (om_price_e8 m)
      in if \<not> verify_eddsa_babyjub C (om_signer_pubkey m) h (om_signature m)
         then Err SignatureInvalid else Ok ())"

definition verify_signatures :: "crypto \<Rightarrow> OracleMessage list \<Rightarrow> (OracleRejectReason, unit) res" where
  "verify_signatures C messages = rfold (verify_signature_step C) messages ()"

definition message_step ::
  "OracleParams \<Rightarrow> OracleMessage \<Rightarrow> b32 list \<Rightarrow> (OracleRejectReason, b32 list) res" where
  "message_step p m seen =
     (if om_signer_pubkey m \<notin> set (orp_signer_set p) then Err SignerNotInSet
      else if om_signer_pubkey m \<in> set seen then Err DuplicateSigner
      else let seen = seen @ [om_signer_pubkey m] in
      if om_oracle_set_epoch m \<noteq> orp_expected_oracle_set_epoch p then Err WrongOracleSetEpoch
      else let ts = om_timestamp_ms m div 1000 in
      if orp_chain_time_sec p > ts \<and> orp_chain_time_sec p - ts > ucast (orp_max_epoch_lag_sec p)
        then Err StaleOracle
      else if ts > orp_chain_time_sec p
          \<and> ts - orp_chain_time_sec p > ucast (orp_oracle_future_tolerance_sec p)
        then Err FutureOracle
      else Ok seen)"

text \<open>
  \<^verbatim>\<open>(pr as i128 - median as i128).unsigned_abs()\<close>: both fit, so the difference is the integer one.
\<close>

definition is_inlier :: "u64 \<Rightarrow> u64 \<Rightarrow> bool" where
  "is_inlier median pr =
     (let dev = word_of_int \<bar>int (unat pr) - int (unat median)\<bar> :: u128
      in dev * 10000 \<le> ucast median * ORACLE_OUTLIER_DEV_BPS)"

definition aggregate :: "crypto \<Rightarrow> OracleMessage list \<Rightarrow> OracleParams \<Rightarrow> (OracleRejectReason, u64) res" where
  "aggregate C messages p =
     (if oracle_set_hash C (orp_expected_oracle_set_epoch p) (orp_signer_set p)
          \<noteq> orp_expected_oracle_set_hash p then Err OracleSetHashMismatch
      else if \<not> length messages \<ge> ORACLE_THRESHOLD then Err QuorumInsufficient
      else if \<not> length messages \<le> ORACLE_SET_SIZE then Err TooManyMessages
      else rbind (rfold (message_step p) messages []) (\<lambda>_.
      let prices = sort (map om_price_e8 messages) in
      rbind (unwrap (get_at prices (length prices div 2))) (\<lambda>median.
      let inliers = length (filter (is_inlier median) prices)
      in if \<not> inliers \<ge> ORACLE_THRESHOLD then Err InsufficientInliers else Ok median)))"

section \<open>The message loop\<close>

definition message_ok :: "OracleParams \<Rightarrow> OracleMessage \<Rightarrow> bool" where
  "message_ok p m \<longleftrightarrow>
     om_signer_pubkey m \<in> set (orp_signer_set p) \<and>
     om_oracle_set_epoch m = orp_expected_oracle_set_epoch p \<and>
     unat (orp_chain_time_sec p) \<le> unat (om_timestamp_ms m) div 1000 + unat (orp_max_epoch_lag_sec p) \<and>
     unat (om_timestamp_ms m) div 1000 \<le> unat (orp_chain_time_sec p) + unat (orp_oracle_future_tolerance_sec p)"

lemma beyond_iff: "(a > b \<and> a - b > ucast (c :: u32)) \<longleftrightarrow> unat a > unat b + unat c" for a b :: u64
  by (auto simp: word_less_nat_alt unat_sub word_le_nat_alt)

lemma message_step_Ok:
  "message_step p m seen = Ok seen' \<longleftrightarrow>
     message_ok p m \<and> om_signer_pubkey m \<notin> set seen \<and> seen' = seen @ [om_signer_pubkey m]"
  by (auto simp: message_step_def message_ok_def Let_def beyond_iff unat_div not_less res_simps)

lemma messages_Ok:
  "rfold (message_step p) ms seen = Ok seen' \<longleftrightarrow>
     (\<forall>m\<in>set ms. message_ok p m) \<and> distinct (map om_signer_pubkey ms) \<and>
     set (map om_signer_pubkey ms) \<inter> set seen = {} \<and> seen' = seen @ map om_signer_pubkey ms"
  by (induction ms arbitrary: seen) (auto simp: res_simps message_step_Ok)

lemma messages_no_panic: "rfold (message_step p) ms seen \<noteq> Panic"
  by (induction ms arbitrary: seen) (auto simp: res_simps message_step_def Let_def)

lemma verify_signatures_Ok:
  "verify_signatures C ms = Ok () \<longleftrightarrow>
     (\<forall>m\<in>set ms. verify_eddsa_babyjub C (om_signer_pubkey m) (oracle_message_hash C
        (om_oracle_set_epoch m) (om_price_epoch m) (om_timestamp_ms m) (om_price_e8 m)) (om_signature m))"
  unfolding verify_signatures_def
  by (induction ms) (auto simp: res_simps verify_signature_step_def Let_def)

section \<open>The median and its inliers\<close>

lemma is_inlier_nat:
  "is_inlier median pr \<longleftrightarrow> \<bar>int (unat pr) - int (unat median)\<bar> * 10000 \<le> int (unat median) * 200"
proof -
  let ?d = "\<bar>int (unat pr) - int (unat median)\<bar>"
  have "int (unat x) < 18446744073709551616" for x :: u64
    using unat_lt_u64 [of x] by linarith
  from this [of pr] this [of median] have "?d < 18446744073709551616" by linarith
  then have d: "0 \<le> ?d" "?d < 2 ^ 64" "?d < 2 ^ 128" by simp_all
  have ud: "unat (word_of_int ?d :: u128) = nat ?d"
    using take_bit_int_eq_self [OF d(1,3)] by (simp add: unsigned_of_int del: power_numeral)
  define w :: u128 where "w = word_of_int ?d"
  have uw: "unat w = nat ?d" by (simp only: w_def ud)
  have "unat w < 18446744073709551616"
    unfolding uw by (subst nat_less_iff [OF d(1)]) (use d(2) in simp)
  then have l: "unat (word_of_int ?d * 10000 :: u128) = nat ?d * 10000"
    unfolding uw [symmetric] w_def [symmetric] using unat_mult_lem [of w 10000] by simp
  have "unat (ucast median :: u128) * 200 < 2 ^ 128"
    by simp (use unat_lt_u64 [of median] in linarith)
  then have r: "unat ((ucast median :: u128) * 200) = unat median * 200"
    using unat_mult_lem [of "ucast median :: u128" 200] by simp
  have "is_inlier median pr \<longleftrightarrow> nat ?d * 10000 \<le> unat median * 200"
    unfolding is_inlier_def Let_def ORACLE_OUTLIER_DEV_BPS_def word_le_nat_alt l r ..
  also have "... \<longleftrightarrow> int (nat ?d * 10000) \<le> int (unat median * 200)"
    by (simp only: of_nat_le_iff)
  also have "int (nat ?d) = ?d" using d(1) by (rule nat_0_le)
  then have "int (nat ?d * 10000) = ?d * 10000" by (simp only: of_nat_mult of_nat_numeral)
  also have "int (unat median * 200) = int (unat median) * 200" by (simp only: of_nat_mult of_nat_numeral)
  finally show ?thesis .
qed

lemma aggregate_Ok:
  "aggregate C ms p = Ok median \<longleftrightarrow>
     oracle_set_hash C (orp_expected_oracle_set_epoch p) (orp_signer_set p) = orp_expected_oracle_set_hash p \<and>
     3 \<le> length ms \<and> length ms \<le> 5 \<and>
     (\<forall>m\<in>set ms. message_ok p m) \<and> distinct (map om_signer_pubkey ms) \<and>
     median = sort (map om_price_e8 ms) ! (length ms div 2) \<and>
     3 \<le> length (filter (is_inlier median) (map om_price_e8 ms))"
proof -
  have f: "length (filter P (sort xs)) = length (filter P xs)" for P and xs :: "u64 list"
    by (metis mset_filter mset_sort size_mset)
  show ?thesis
    by (auto simp: aggregate_def res_simps messages_Ok Let_def ORACLE_THRESHOLD_def ORACLE_SET_SIZE_def
        get_at_def f)
qed

lemma aggregate_no_panic: "aggregate C ms p \<noteq> Panic"
  by (auto simp: aggregate_def res_simps messages_no_panic Let_def ORACLE_THRESHOLD_def get_at_def)

text \<open>
  In a sorted list every position at or below an index holds at most its value: a value class
  that misses fewer than half of the entries has a member on either side of the middle.
\<close>

lemma sorted_middle_bounds:
  fixes xs :: "'a::linorder list"
  assumes "sorted xs" and "2 * length (filter (\<lambda>x. \<not> (lo \<le> x \<and> x \<le> hi)) xs) < length xs"
  shows "lo \<le> xs ! (length xs div 2) \<and> xs ! (length xs div 2) \<le> hi"
proof -
  let ?m = "length xs div 2" and ?bad = "\<lambda>x. \<not> (lo \<le> x \<and> x \<le> hi)"
  have pos: "?m < length xs" using assms(2) by simp
  have split: "length (filter ?bad xs) = length (filter ?bad (take ?m xs)) + length (filter ?bad (drop ?m xs))"
    using arg_cong [OF filter_append [of ?bad "take ?m xs" "drop ?m xs"], of length] by simp
  have low: "lo \<le> xs ! ?m"
  proof (rule ccontr)
    assume c: "\<not> lo \<le> xs ! ?m"
    have "\<forall>x\<in>set (take (Suc ?m) xs). ?bad x"
    proof
      fix x assume "x \<in> set (take (Suc ?m) xs)"
      then obtain i where "i \<le> ?m" "i < length xs" "x = xs ! i" by (auto simp: in_set_conv_nth less_Suc_eq_le)
      then have "x \<le> xs ! ?m" using sorted_nth_mono [OF assms(1)] pos by simp
      then show "?bad x" using c by auto
    qed
    then have "length (filter ?bad (take (Suc ?m) xs)) = length (take (Suc ?m) xs)"
      by (simp add: filter_id_conv)
    then have "Suc ?m \<le> length (filter ?bad xs)"
      using pos arg_cong [OF filter_append [of ?bad "take (Suc ?m) xs" "drop (Suc ?m) xs"], of length] by simp
    then show False using assms(2) by linarith
  qed
  have high: "xs ! ?m \<le> hi"
  proof (rule ccontr)
    assume c: "\<not> xs ! ?m \<le> hi"
    have "\<forall>x\<in>set (drop ?m xs). ?bad x"
    proof
      fix x assume "x \<in> set (drop ?m xs)"
      then obtain i where "?m + i < length xs" "x = xs ! (?m + i)"
        by (metis in_set_conv_nth length_drop less_diff_conv add.commute nth_drop pos less_imp_le)
      then have "xs ! ?m \<le> x" using sorted_nth_mono [OF assms(1)] by simp
      then show "?bad x" using c by auto
    qed
    then have "length (filter ?bad (drop ?m xs)) = length xs - ?m"
      by (simp add: filter_id_conv)
    then show False using split assms(2) by linarith
  qed
  show ?thesis using low high ..
qed

section \<open>Properties\<close>

lemma length_filter_sort: "length (filter P (sort xs)) = length (filter P xs)" for xs :: "'a::linorder list"
  by (metis mset_filter mset_sort size_mset)

text \<open>
  an aggregated price comes from three to five messages of distinct members of the committed
  signer set, all of the expected epoch and inside the freshness window; it is their median, and
  at least three of the quoted prices lie within 200 basis points of it.
\<close>
lemma aggregate_accepts:
  "aggregate C ms p = Ok price \<longleftrightarrow>
     oracle_set_hash C (orp_expected_oracle_set_epoch p) (orp_signer_set p) = orp_expected_oracle_set_hash p \<and>
     3 \<le> length ms \<and> length ms \<le> 5 \<and> (\<forall>m\<in>set ms. message_ok p m) \<and> distinct (map om_signer_pubkey ms) \<and>
     price = sort (map om_price_e8 ms) ! (length ms div 2) \<and>
     3 \<le> length (filter (\<lambda>m. \<bar>int (unat (om_price_e8 m)) - int (unat price)\<bar> * 10000
       \<le> int (unat price) * 200) ms)"
  unfolding aggregate_Ok by (simp add: filter_map comp_def is_inlier_nat)

definition sample_messages :: "OracleMessage list" where
  "sample_messages = map (\<lambda>k. sample_message\<lparr>om_signer_pubkey := fill k\<rparr>) [1, 2, 3]"

definition sample_oracle_params :: OracleParams where
  "sample_oracle_params =
     \<lparr>orp_expected_oracle_set_epoch = 0, orp_expected_oracle_set_hash = fill 0, orp_chain_time_sec = 3600,
      orp_max_epoch_lag_sec = 0, orp_oracle_future_tolerance_sec = 0, orp_signer_set = map fill [1, 2, 3]\<rparr>"

lemmas sample_oracle_defs = sample_messages_def sample_oracle_params_def sample_message_def

lemma aggregate_accepts_witness:
  "aggregate const_crypto sample_messages sample_oracle_params = Ok 10000000000000"
  by (subst aggregate_accepts)
    (simp add: sample_oracle_defs message_ok_def oracle_set_hash_def tagged_hash_def)

text \<open>
  C8: when fewer than half of the messages quote outside an interval, the aggregated price is
  inside it, whatever the others quote.
\<close>
lemma honest_majority_median:
  assumes "aggregate C ms p = Ok price"
    and "2 * length (filter (\<lambda>m. \<not> (lo \<le> om_price_e8 m \<and> om_price_e8 m \<le> hi)) ms) < length ms"
  shows "lo \<le> price \<and> price \<le> hi"
proof -
  let ?xs = "sort (map om_price_e8 ms)" and ?bad = "\<lambda>x. \<not> (lo \<le> x \<and> x \<le> hi)"
  have "length (filter ?bad ?xs) = length (filter (\<lambda>m. ?bad (om_price_e8 m)) ms)"
    unfolding length_filter_sort filter_map length_map comp_def ..
  then have "2 * length (filter ?bad ?xs) < length ?xs"
    using assms(2) by (simp only: length_sort length_map)
  from sorted_middle_bounds [OF sorted_sort this] show ?thesis
    using assms(1) by (simp add: aggregate_Ok)
qed

lemma honest_majority_median_witness: "1 \<le> (10000000000000 :: u64) \<and> 10000000000000 \<le> (20000000000000 :: u64)"
proof (rule honest_majority_median)
  show "aggregate const_crypto sample_messages sample_oracle_params = Ok 10000000000000"
    by (simp add: aggregate_Ok sample_oracle_defs message_ok_def oracle_set_hash_def tagged_hash_def is_inlier_nat)
qed (simp add: sample_oracle_defs)

text \<open>the order in which the messages arrive changes neither acceptance nor the price.\<close>
lemma aggregate_order:
  assumes "mset ms = mset ns"
  shows "aggregate C ms p = Ok price \<longleftrightarrow> aggregate C ns p = Ok price"
proof -
  have l: "length ms = length ns" "set ms = set ns" and m: "mset (map f ms) = mset (map f ns)" for f
    using assms by (auto dest: mset_eq_length mset_eq_setD simp: mset_map)
  have "sort (map om_price_e8 ms) = sort (map om_price_e8 ns)"
    using m by (simp add: mset_eq_sort_eq [symmetric])
  moreover have "distinct (map om_signer_pubkey ms) \<longleftrightarrow> distinct (map om_signer_pubkey ns)"
    using m by (metis mset_eq_imp_distinct_iff)
  moreover have "length (filter P (map om_price_e8 ms)) = length (filter P (map om_price_e8 ns))" for P
    using m by (metis mset_filter size_mset)
  ultimately show ?thesis by (simp add: aggregate_Ok l)
qed

lemma aggregate_order_witness:
  "aggregate const_crypto sample_messages sample_oracle_params = Ok 5 \<longleftrightarrow>
     aggregate const_crypto (rev sample_messages) sample_oracle_params = Ok 5"
  by (rule aggregate_order) (simp add: sample_messages_def)

end
