(* ===== verification/Spv.thy ===== *)
theory Spv
  imports Samples
begin

unbundle bit_operations_syntax

text \<open>
  Bitcoin SPV verification (\<^verbatim>\<open>satusd-state/src/spv.rs\<close>): the legacy transaction readers, the
  reserve script, Merkle branches, compact targets, and the two confirmation verifiers. A
  position in a byte string is a \<^verbatim>\<open>usize\<close>, so the unchecked additions of the output reader wrap
  and its slices can be out of range; a buffer is shorter than \<^verbatim>\<open>isize::MAX\<close>. Shown here: both
  readers agree with the serialization they read, a compact target is the number it stands
  for, an accepted confirmation carries a linked chain of headers that meet their own targets,
  and two leaves under one Merkle root are a SHA-256 collision.
\<close>

section \<open>Readers\<close>

definition usize_len :: "'a list \<Rightarrow> usize" where
  "usize_len xs = word_of_nat (length xs)"

definition slice_at :: "bytes \<Rightarrow> usize \<Rightarrow> usize \<Rightarrow> bytes option" where
  "slice_at b i j = slice_get b (unat i) (unat j)"

definition read_varint :: "bytes \<Rightarrow> usize \<Rightarrow> (u64 \<times> usize) option" where
  "read_varint b i =
     (case get_at b (unat i) of None \<Rightarrow> None
      | Some first \<Rightarrow>
          let i = i + 1 in
          if first = 0xfd then
            map_option (\<lambda>s. (ucast (from_le s :: u16), i + 2)) (slice_at b i (i + 2))
          else if first = 0xfe then
            map_option (\<lambda>s. (ucast (from_le s :: u32), i + 4)) (slice_at b i (i + 4))
          else if first = 0xff then
            map_option (\<lambda>s. (from_le s, i + 8)) (slice_at b i (i + 8))
          else Some (ucast first, i))"

fun skip_inputs :: "bytes \<Rightarrow> nat \<Rightarrow> usize \<Rightarrow> usize option" where
  "skip_inputs tx 0 i = Some i"
| "skip_inputs tx (Suc n) i =
     (if i + 36 > usize_len tx then None
      else let i = i + (32 + 4) in
        case read_varint tx i of None \<Rightarrow> None
        | Some (script_len, i) \<Rightarrow>
            if i + script_len + 4 > usize_len tx then None
            else skip_inputs tx n (i + (script_len + 4)))"

fun read_outputs ::
  "bytes \<Rightarrow> nat \<Rightarrow> usize \<Rightarrow> (u64 \<times> bytes) list \<Rightarrow> ('e, (u64 \<times> bytes) list option) res" where
  "read_outputs tx 0 i outs = Ok (Some outs)"
| "read_outputs tx (Suc n) i outs =
     (if i + 8 > usize_len tx then Ok None
      else rbind (unwrap (slice_at tx i (i + 8))) (\<lambda>v.
        let value = from_le v; i = i + 8 in
        case read_varint tx i of None \<Rightarrow> Ok None
        | Some (script_len, i) \<Rightarrow>
            if i + script_len > usize_len tx then Ok None
            else rbind (unwrap (slice_at tx i (i + script_len))) (\<lambda>spk.
              read_outputs tx n (i + script_len) (outs @ [(value, spk)]))))"

text \<open>
  \<^verbatim>\<open>Vec::with_capacity(n_out)\<close> of 32-byte pairs panics when the byte size exceeds \<^verbatim>\<open>isize::MAX\<close>.
\<close>

definition legacy_tx_outputs :: "bytes \<Rightarrow> ('e, (u64 \<times> bytes) list option) res" where
  "legacy_tx_outputs tx =
     (case read_varint tx 4 of None \<Rightarrow> Ok None
      | Some (n_in, i) \<Rightarrow>
      case skip_inputs tx (unat n_in) i of None \<Rightarrow> Ok None
      | Some i \<Rightarrow>
      case read_varint tx i of None \<Rightarrow> Ok None
      | Some (n_out, i) \<Rightarrow>
          if unat n_out * 32 \<ge> 2 ^ 63 then Panic
          else read_outputs tx (unat n_out) i [])"

text \<open>The second count is \<^verbatim>\<open>idx\<close>; \<open>n\<close> is what is left of \<^verbatim>\<open>0..n_in\<close>.\<close>

fun find_input ::
  "bytes \<Rightarrow> nat \<Rightarrow> u64 \<Rightarrow> u32 \<Rightarrow> usize \<Rightarrow> (b32 \<times> u32) option \<Rightarrow> (b32 \<times> u32) option" where
  "find_input tx 0 idx input_index i found = found"
| "find_input tx (Suc n) idx input_index i found =
     (case Option.bind (slice_at tx i (i + 32)) arr_try of None \<Rightarrow> None
      | Some txid \<Rightarrow>
      let i = i + 32 in
      case slice_at tx i (i + 4) of None \<Rightarrow> None
      | Some v \<Rightarrow>
      let vout = from_le v; i = i + 4 in
      case read_varint tx i of None \<Rightarrow> None
      | Some (slen, i) \<Rightarrow>
      case Option.bind (checked_add i slen) (\<lambda>j. checked_add j 4) of None \<Rightarrow> None
      | Some i \<Rightarrow>
          if usize_len tx < i then None
          else find_input tx n (idx + 1) input_index i
                 (if idx = ucast input_index then Some (txid, vout) else found))"

definition legacy_tx_input_outpoint :: "bytes \<Rightarrow> u32 \<Rightarrow> (b32 \<times> u32) option" where
  "legacy_tx_input_outpoint tx input_index =
     (case read_varint tx 4 of None \<Rightarrow> None
      | Some (n_in, i) \<Rightarrow>
          if ucast input_index \<ge> n_in then None
          else find_input tx (unat n_in) 0 input_index i None)"

section \<open>Scripts, hashes, headers\<close>

definition reserve_witness_script :: "b33 list \<Rightarrow> u8 \<Rightarrow> bytes" where
  "reserve_witness_script pubkeys threshold =
     [0x50 + threshold] @ concat (map (\<lambda>pk. 0x21 # bs pk) pubkeys)
       @ [0x50 + word_of_nat (length pubkeys), 0xae]"

definition reserve_p2wsh_spk :: "crypto \<Rightarrow> b33 list \<Rightarrow> u8 \<Rightarrow> 34 barr" where
  "reserve_p2wsh_spk C pubkeys threshold =
     (let ws = reserve_witness_script pubkeys threshold; h = sha256 C [ws]
      in barr_of ([0x00, 0x20] @ bs h))"

definition dsha256 :: "crypto \<Rightarrow> bytes \<Rightarrow> b32" where
  "dsha256 C b = sha256 C [bs (sha256 C [b])]"

definition block_hash :: "crypto \<Rightarrow> b80 \<Rightarrow> b32" where
  "block_hash C header = dsha256 C (bs header)"

definition prev_block_hash :: "b80 \<Rightarrow> b32" where
  "prev_block_hash header = barr_of (sub (bs header) 4 36)"

definition merkle_root_field :: "b80 \<Rightarrow> b32" where
  "merkle_root_field header = barr_of (sub (bs header) 36 68)"

definition target_from_nbits :: "u32 \<Rightarrow> b32" where
  "target_from_nbits nbits =
     (let exp = int (unat (drop_bit 24 nbits)); mant = nbits AND 0x007fffff
      in barr_of (fold (\<lambda>i t.
           let byte = ucast (drop_bit (8 * i) mant AND 0xff) :: u8; pos = 34 - exp - int i
           in if 0 \<le> pos \<and> pos < 32 then t[nat pos := byte] else t) [0..<3] (replicate 32 0)))"

definition pow_ok :: "crypto \<Rightarrow> b80 \<Rightarrow> bool" where
  "pow_ok C header =
     (let nbits = from_le (sub (bs header) 72 76); target = target_from_nbits nbits;
          be = barr_of (rev (bs (block_hash C header)))
      in be \<le> target)"

fun merkle_root_from_proof :: "crypto \<Rightarrow> b32 \<Rightarrow> u32 \<Rightarrow> b32 list \<Rightarrow> b32" where
  "merkle_root_from_proof C h index [] = h"
| "merkle_root_from_proof C h index (sib # branch) =
     merkle_root_from_proof C
       (dsha256 C (if index AND 1 = 0 then bs h @ bs sib else bs sib @ bs h))
       (drop_bit 1 index) branch"

section \<open>Deposit confirmation\<close>

datatype DepositSpvError =
    MalformedTx
  | TxidMismatch
  | DepositNotToReserve
  | DepositAmountMismatch
  | InclusionHeaderMismatch
  | InclusionMerkleInvalid
  | ConfirmationDepthInsufficient
  | HeaderChainBroken
  | HeaderPowInvalid

text \<open>The loop over the confirmation headers; the payout's checks come in the other order.\<close>

definition deposit_header_step :: "crypto \<Rightarrow> b80 \<Rightarrow> b32 \<Rightarrow> (DepositSpvError, b32) res" where
  "deposit_header_step C h prior =
     (if \<not> pow_ok C h then Err HeaderPowInvalid
      else if prev_block_hash h \<noteq> prior then Err HeaderChainBroken
      else Ok (block_hash C h))"

definition verify_deposit_confirmation ::
  "crypto \<Rightarrow> BtcDepositConfirmation \<Rightarrow> b32 \<Rightarrow> u64 \<Rightarrow> b33 list \<Rightarrow> u8 \<Rightarrow> nat
     \<Rightarrow> (DepositSpvError, unit) res" where
  "verify_deposit_confirmation C c deposit_txid deposit_sats reserve_committee_pubkeys
       reserve_committee_threshold min_depth =
     (if dsha256 C (dc_deposit_tx_legacy c) \<noteq> deposit_txid then Err TxidMismatch
      else let reserve_spk = reserve_p2wsh_spk C reserve_committee_pubkeys reserve_committee_threshold in
      rbind (legacy_tx_outputs (dc_deposit_tx_legacy c)) (\<lambda>parsed.
      rbind (ok_or parsed MalformedTx) (\<lambda>outs.
      rbind (ok_or (find (\<lambda>(_, spk). spk = bs reserve_spk) outs) DepositNotToReserve) (\<lambda>(paid, _).
      if paid \<noteq> deposit_sats then Err DepositAmountMismatch
      else if block_hash C (dc_inclusion_header c) \<noteq> dc_inclusion_block_hash c
        then Err InclusionHeaderMismatch
      else if \<not> pow_ok C (dc_inclusion_header c) then Err HeaderPowInvalid
      else if merkle_root_from_proof C deposit_txid (dc_tx_index c) (dc_inclusion_merkle_proof c)
          \<noteq> merkle_root_field (dc_inclusion_header c) then Err InclusionMerkleInvalid
      else if \<not> length (dc_confirmation_headers c) + 1 \<ge> min_depth
        then Err ConfirmationDepthInsufficient
      else rbind (rfold (deposit_header_step C) (dc_confirmation_headers c)
             (dc_inclusion_block_hash c)) (\<lambda>_. Ok ())))))"

section \<open>Payout confirmation\<close>

datatype SpvError =
    PreimageHashMismatch
  | HtlcHeaderMismatch
  | ClaimHeaderMismatch
  | HtlcMerkleInvalid
  | ClaimMerkleInvalid
  | ClaimBeforeHtlc
  | InsufficientConfirmations
  | HeaderChainBroken
  | HeaderPowInvalid
  | NotBuriedDeepEnough
  | MalformedClaimTx
  | ClaimDoesNotSpendHtlc

definition payout_header_step :: "crypto \<Rightarrow> b80 \<Rightarrow> b32 \<Rightarrow> (SpvError, b32) res" where
  "payout_header_step C hdr prev =
     (if prev_block_hash hdr \<noteq> prev then Err SpvError.HeaderChainBroken
      else if \<not> pow_ok C hdr then Err SpvError.HeaderPowInvalid
      else Ok (block_hash C hdr))"

definition verify_payout_confirmation ::
  "crypto \<Rightarrow> BtcPayoutConfirmation \<Rightarrow> b32 \<Rightarrow> nat \<Rightarrow> u32 \<Rightarrow> (SpvError, unit) res" where
  "verify_payout_confirmation C c payment_hash min_depth tip_height =
     (if sha256 C [bs (pc_revealed_preimage c)] \<noteq> payment_hash then Err PreimageHashMismatch
      else if block_hash C (pc_htlc_inclusion_header c) \<noteq> pc_htlc_inclusion_block_hash c
        then Err HtlcHeaderMismatch
      else if block_hash C (pc_claim_inclusion_header c) \<noteq> pc_claim_inclusion_block_hash c
        then Err ClaimHeaderMismatch
      else if \<not> pow_ok C (pc_htlc_inclusion_header c) then Err SpvError.HeaderPowInvalid
      else if \<not> pow_ok C (pc_claim_inclusion_header c) then Err SpvError.HeaderPowInvalid
      else if merkle_root_from_proof C (pc_btc_htlc_txid c) (pc_htlc_tx_index c)
          (pc_htlc_inclusion_merkle_proof c) \<noteq> merkle_root_field (pc_htlc_inclusion_header c)
        then Err HtlcMerkleInvalid
      else if merkle_root_from_proof C (pc_claim_spend_txid c) (pc_claim_tx_index c)
          (pc_claim_inclusion_merkle_proof c) \<noteq> merkle_root_field (pc_claim_inclusion_header c)
        then Err ClaimMerkleInvalid
      else if dsha256 C (pc_claim_tx_legacy c) \<noteq> pc_claim_spend_txid c then Err MalformedClaimTx
      else rbind (ok_or (legacy_tx_input_outpoint (pc_claim_tx_legacy c)
             (pc_claim_spend_input_index c)) MalformedClaimTx) (\<lambda>(in_txid, in_vout).
      if \<not> (in_txid = pc_btc_htlc_txid c \<and> in_vout = pc_btc_htlc_vout c)
        then Err ClaimDoesNotSpendHtlc
      else if \<not> pc_claim_inclusion_block_height c \<ge> pc_htlc_inclusion_block_height c
        then Err ClaimBeforeHtlc
      else if \<not> length (pc_confirmation_headers c) \<ge> min_depth then Err InsufficientConfirmations
      else rbind (rfold (payout_header_step C) (pc_confirmation_headers c)
             (pc_claim_inclusion_block_hash c)) (\<lambda>_.
      let needed = saturating_add (pc_claim_inclusion_block_height c) (word_of_nat min_depth)
      in if \<not> tip_height \<ge> needed then Err NotBuriedDeepEnough else Ok ())))"

section \<open>The compact target\<close>

lemma nat_of_be_update:
  assumes "p < length t" and "t ! p = 0"
  shows "nat_of_be (t[p := b]) = nat_of_be t + unat b * 256 ^ (length t - 1 - p)"
proof -
  have t: "nat_of_be t = nat_of_be (take p t @ 0 # drop (Suc p) t)"
    using id_take_nth_drop [OF assms(1)] assms(2) by simp
  show ?thesis
    unfolding t upd_conv_take_nth_drop [OF assms(1)]
    using assms(1) by (simp add: nat_of_be_append nat_of_be_Cons algebra_simps)
qed

text \<open>One mantissa byte: placed at weight \<open>256 ^ (e + i - 3)\<close> when that is inside 32 bytes.\<close>

definition target_byte :: "nat \<Rightarrow> nat \<Rightarrow> nat \<Rightarrow> nat" where
  "target_byte e i b = (if 3 \<le> e + i \<and> e + i \<le> 34 then b * 256 ^ (e + i - 3) else 0)"

lemma target_step:
  assumes "length t = 32" and "3 \<le> e + i \<and> e + i \<le> 34 \<longrightarrow> t ! (34 - e - i) = 0"
    and "pos = 34 - int e - int i"
  shows "nat_of_be (if 0 \<le> pos \<and> pos < 32 then t[nat pos := b] else t) =
           nat_of_be t + target_byte e i (unat b)"
proof (cases "3 \<le> e + i \<and> e + i \<le> 34")
  case True
  then have n: "nat pos = 34 - e - i" and r: "0 \<le> pos \<and> pos < 32" using assms(3) by auto
  have w: "length t - 1 - (34 - e - i) = e + i - 3" and lt: "34 - e - i < length t"
    using True assms(1) by linarith+
  have "nat_of_be (t[34 - e - i := b]) = nat_of_be t + unat b * 256 ^ (e + i - 3)"
    using nat_of_be_update [OF lt, of b] assms(2) True unfolding w by blast
  then show ?thesis using r n True by (simp add: target_byte_def)
next
  case False
  then have "\<not> (0 \<le> pos \<and> pos < 32)" using assms(3) by auto
  then show ?thesis using False by (auto simp: target_byte_def)
qed

lemma target_bytes_sum:
  fixes b0 b1 b2 :: u8
  defines "place \<equiv> \<lambda>e i (b :: u8) t. (let pos = 34 - int e - int i
      in if 0 \<le> pos \<and> pos < 32 then t[nat pos := b] else t)"
  shows "nat_of_be (place e 2 b2 (place e 1 b1 (place e 0 b0 (replicate 32 0)))) =
     target_byte e 0 (unat b0) + target_byte e 1 (unat b1) + target_byte e 2 (unat b2)"
proof -
  have len: "length (place e i b t) = length t" for i b t
    by (simp add: place_def Let_def)
  have far: "(place e i b t) ! k = t ! k" if "int k \<noteq> 34 - int e - int i" for i b t k
    using that by (auto simp: place_def Let_def)
  have other: "int (34 - e - j) \<noteq> 34 - int e - int i" if "i \<noteq> j" "3 \<le> e + j \<and> e + j \<le> 34" for i j
    using that by auto
  have zero: "replicate 32 (0 :: u8) ! (34 - e - i) = 0" if "3 \<le> e + i \<and> e + i \<le> 34" for i
    by (rule nth_replicate) (use that in linarith)
  have place: "nat_of_be (place e i b t) = nat_of_be t + target_byte e i (unat b)"
    if "length t = 32" "3 \<le> e + i \<and> e + i \<le> 34 \<longrightarrow> t ! (34 - e - i) = 0" for i b t
    unfolding place_def Let_def using target_step [OF that refl] .
  have nth: "3 \<le> e + j \<and> e + j \<le> 34 \<longrightarrow> place e i b t ! (34 - e - j) = 0"
    if "3 \<le> e + j \<and> e + j \<le> 34 \<longrightarrow> t ! (34 - e - j) = 0" "i \<noteq> j" for i j b t
    using that far [OF other] by metis
  have Z: "3 \<le> e + j \<and> e + j \<le> 34 \<longrightarrow> replicate 32 (0 :: u8) ! (34 - e - j) = 0" for j
    using zero by blast
  let ?Z = "replicate 32 (0 :: u8)"
  have "nat_of_be (place e 0 b0 ?Z) = target_byte e 0 (unat b0)"
    by (simp only: place [OF _ Z] length_replicate nat_of_be_replicate_0 add_0)
  moreover have "nat_of_be (place e 1 b1 (place e 0 b0 ?Z)) =
      nat_of_be (place e 0 b0 ?Z) + target_byte e 1 (unat b1)"
    by (rule place, simp add: len, rule nth [OF Z]) simp
  moreover have "nat_of_be (place e 2 b2 (place e 1 b1 (place e 0 b0 ?Z))) =
      nat_of_be (place e 1 b1 (place e 0 b0 ?Z)) + target_byte e 2 (unat b2)"
    by (rule place, simp add: len, rule nth, rule nth [OF Z]) simp_all
  ultimately show ?thesis by simp
qed

lemma mantissa_bytes:
  fixes m :: nat
  assumes "m < 256 ^ 3"
  shows "m mod 256 + (m div 256) mod 256 * 256 + (m div 65536) mod 256 * 65536 = m"
proof -
  have "m div 65536 < 256" using assms by (simp add: div_less_iff_less_mult)
  then have a: "m div 65536 mod 256 = m div 256 div 256" by (simp add: div_mult2_eq [symmetric])
  have b: "m div 256 * 256 + m mod 256 = m"
    and c: "m div 256 div 256 * 256 + m div 256 mod 256 = m div 256"
    by (rule div_mult_mod_eq)+
  show ?thesis unfolding a using b c by linarith
qed

text \<open>
  \<^verbatim>\<open>nBits\<close> with exponent \<open>e\<close> and mantissa \<open>m\<close> stands for \<open>m * 256 ^ (e - 3)\<close>; below three the low
  mantissa bytes fall off, and what does not fit 32 bytes is dropped.
\<close>

definition compact_value :: "nat \<Rightarrow> nat" where
  "compact_value n =
     (let e = n div 2 ^ 24; m = n mod 2 ^ 23
      in if 3 \<le> e then m * 256 ^ (e - 3) mod 256 ^ 32 else m div 256 ^ (3 - e))"

lemma target_bytes_value:
  assumes "m < 256 ^ 3"
  shows "target_byte e 0 (m mod 256) + target_byte e 1 (m div 256 mod 256)
           + target_byte e 2 (m div 65536 mod 256)
         = (if 3 \<le> e then m * 256 ^ (e - 3) mod 256 ^ 32 else m div 256 ^ (3 - e))"
proof -
  define b0 b1 b2 where b: "b0 = m mod 256" "b1 = m div 256 mod 256" "b2 = m div 65536 mod 256"
  have m: "m = b0 + b1 * 256 + b2 * 65536" unfolding b by (rule mantissa_bytes [OF assms, symmetric])
  have lt: "b0 < 256" "b1 < 256" "b2 < 256" by (simp_all add: b)
  consider "e = 0" | "e = 1" | "e = 2" | "3 \<le> e" "e \<le> 32" | "e = 33" | "e = 34" | "35 \<le> e"
    by linarith
  then have "target_byte e 0 b0 + target_byte e 1 b1 + target_byte e 2 b2
      = (if 3 \<le> e then m * 256 ^ (e - 3) mod 256 ^ 32 else m div 256 ^ (3 - e))"
  proof cases
    case 4
    define k where "k = e - 3"
    then have k: "e = k + 3" "k \<le> 29" using 4 by simp_all
    have "m * 256 ^ k < 256 ^ 3 * 256 ^ k" using assms by simp
    also have "... \<le> (256 :: nat) ^ 32"
      unfolding power_add [symmetric] using k(2) by (intro power_increasing) simp_all
    finally have "m * 256 ^ k mod 256 ^ 32 = m * 256 ^ k" by simp
    then show ?thesis
      using k by (simp add: target_byte_def m power_add algebra_simps)
  next
    case 6
    have "m * 256 ^ 31 = b0 * 256 ^ 31 + 256 ^ 32 * (b1 + 256 * b2)" by (simp add: m algebra_simps)
    then have "m * 256 ^ 31 mod 256 ^ 32 = b0 * 256 ^ 31 mod 256 ^ 32" by (simp only: mod_mult_self2)
    moreover have "b0 * 256 ^ 31 mod 256 ^ 32 = b0 * 256 ^ 31" using lt(1) by simp
    ultimately show ?thesis using 6 by (simp add: target_byte_def)
  next
    case 7
    then have "(256 :: nat) ^ 32 dvd m * 256 ^ (e - 3)"
      by (intro dvd_mult le_imp_power_dvd) simp
    then show ?thesis using 7 by (simp add: target_byte_def mod_eq_0_iff_dvd del: power_numeral)
  qed (use lt in \<open>simp_all add: target_byte_def m\<close>)
  then show ?thesis by (simp only: b)
qed

lemma take_bit_unat_u32: "take_bit 32 (unat w) = unat w" for w :: u32
  by (rule take_bit_nat_eq_self) simp

lemma unat_mantissa_byte:
  "unat (ucast (drop_bit (8 * i) (w :: u32) AND 0xff) :: u8) = unat w div 2 ^ (8 * i) mod 256"
proof -
  have "drop_bit (8 * i) w AND 0xff = take_bit 8 (drop_bit (8 * i) w)"
    by (simp only: take_bit_eq_mask) (simp add: mask_eq_exp_minus_1)
  then have "unat (ucast (drop_bit (8 * i) w AND 0xff) :: u8) = take_bit 8 (drop_bit (8 * i) (unat w))"
    by (simp only: unsigned_ucast_eq unsigned_take_bit_eq unsigned_drop_bit_eq take_bit_take_bit)
      (simp add: take_bit_unat_u32)
  then show ?thesis by (simp add: drop_bit_eq_div take_bit_eq_mod)
qed

lemma unat_nbits_mantissa: "unat (n AND 0x007fffff) = unat n mod 2 ^ 23" for n :: u32
proof -
  have "n AND 0x007fffff = take_bit 23 n"
    by (simp only: take_bit_eq_mask) (simp add: mask_eq_exp_minus_1)
  then have "unat (n AND 0x007fffff) = take_bit 23 (unat n)" by (simp only: unsigned_take_bit_eq)
  then show ?thesis by (simp add: take_bit_eq_mod)
qed

lemma unat_nbits_exponent: "unat (drop_bit 24 n) = unat n div 2 ^ 24" for n :: u32
proof -
  have "unat (drop_bit 24 n) = drop_bit 24 (take_bit 32 (unat n))"
    by (simp only: unsigned_drop_bit_eq) simp
  then show ?thesis by (simp add: take_bit_unat_u32 drop_bit_eq_div)
qed

lemma target_from_nbits_value: "nat_of_be (bs (target_from_nbits n)) = compact_value (unat n)"
proof -
  let ?m = "n AND 0x007fffff"
  let ?b = "\<lambda>i. ucast (drop_bit (8 * i) ?m AND 0xff) :: u8"
  let ?e = "unat (drop_bit 24 n)"
  define place where "place = (\<lambda>i (b :: u8) t. (let pos = 34 - int ?e - int i
      in if 0 \<le> pos \<and> pos < 32 then t[nat pos := b] else t))"
  have len: "length (place i b t) = length t" for i b t by (simp add: place_def Let_def)
  have upt: "[0..<3] = [0, 1, 2 :: nat]" by (simp add: upt_rec)
  have "bs (target_from_nbits n) = place 2 (?b 2) (place 1 (?b 1) (place 0 (?b 0) (replicate 32 0)))"
    by (simp add: target_from_nbits_def upt Let_def len [unfolded place_def Let_def] place_def)
  then have "nat_of_be (bs (target_from_nbits n)) =
      target_byte ?e 0 (unat (?b 0)) + target_byte ?e 1 (unat (?b 1)) + target_byte ?e 2 (unat (?b 2))"
    using target_bytes_sum [where e = ?e and ?b2.0 = "?b 2" and ?b1.0 = "?b 1" and ?b0.0 = "?b 0"] by (simp only: place_def)
  also have "... = target_byte ?e 0 (unat ?m mod 256) + target_byte ?e 1 (unat ?m div 256 mod 256)
           + target_byte ?e 2 (unat ?m div 65536 mod 256)"
    using unat_mantissa_byte [of 0 ?m] unat_mantissa_byte [of 1 ?m] unat_mantissa_byte [of 2 ?m]
    by simp
  also have "... = (if 3 \<le> ?e then unat ?m * 256 ^ (?e - 3) mod 256 ^ 32 else unat ?m div 256 ^ (3 - ?e))"
    by (rule target_bytes_value) (simp add: unat_nbits_mantissa less_trans [OF mod_less_divisor])
  also have "... = compact_value (unat n)"
    unfolding compact_value_def Let_def unat_nbits_mantissa unat_nbits_exponent ..
  finally show ?thesis .
qed

text \<open>
  a header meets its proof of work exactly when its hash, read as a little-endian number, is at
  most the number its own \<^verbatim>\<open>nBits\<close> stands for; no other floor on the work is asked.
\<close>
lemma pow_ok_own_target:
  "pow_ok C h \<longleftrightarrow> nat_of_be (rev (bs (block_hash C h)))
     \<le> compact_value (unat (from_le (sub (bs h) 72 76) :: u32))"
  by (simp add: pow_ok_def Let_def barr_le_iff_nat target_from_nbits_value)

section \<open>The header chain\<close>

fun linked :: "crypto \<Rightarrow> b32 \<Rightarrow> b80 list \<Rightarrow> bool" where
  "linked C prior [] = True"
| "linked C prior (h # hs) \<longleftrightarrow> prev_block_hash h = prior \<and> pow_ok C h \<and> linked C (block_hash C h) hs"

text \<open>A loop over headers that goes on exactly when the header extends the chain with work.\<close>

locale header_loop =
  fixes C :: crypto and header_step :: "b80 \<Rightarrow> b32 \<Rightarrow> ('e, b32) res"
  assumes step_Ok: "header_step h p = Ok q \<longleftrightarrow> prev_block_hash h = p \<and> pow_ok C h \<and> q = block_hash C h"
    and step_total: "header_step h p \<noteq> Panic"
begin

lemma chain_accepted: "(\<exists>q. rfold header_step hs p = Ok q) \<longleftrightarrow> linked C p hs"
proof (induction hs arbitrary: p)
  case (Cons h hs)
  then show ?case by (auto simp: res_simps step_Ok)
qed simp

lemma chain_no_panic: "rfold header_step hs p \<noteq> Panic"
  by (induction hs arbitrary: p) (auto simp: res_simps step_total)

end

interpretation deposit_chain: header_loop C "deposit_header_step C"
  by unfold_locales (auto simp: deposit_header_step_def)

interpretation payout_chain: header_loop C "payout_header_step C"
  by unfold_locales (auto simp: payout_header_step_def)

section \<open>What an accepted confirmation carries\<close>

lemma verify_payout_confirmation_Ok:
  "verify_payout_confirmation C c ph k tip = Ok () \<longleftrightarrow>
     sha256 C [bs (pc_revealed_preimage c)] = ph \<and>
     block_hash C (pc_htlc_inclusion_header c) = pc_htlc_inclusion_block_hash c \<and>
     block_hash C (pc_claim_inclusion_header c) = pc_claim_inclusion_block_hash c \<and>
     pow_ok C (pc_htlc_inclusion_header c) \<and> pow_ok C (pc_claim_inclusion_header c) \<and>
     merkle_root_from_proof C (pc_btc_htlc_txid c) (pc_htlc_tx_index c)
       (pc_htlc_inclusion_merkle_proof c) = merkle_root_field (pc_htlc_inclusion_header c) \<and>
     merkle_root_from_proof C (pc_claim_spend_txid c) (pc_claim_tx_index c)
       (pc_claim_inclusion_merkle_proof c) = merkle_root_field (pc_claim_inclusion_header c) \<and>
     dsha256 C (pc_claim_tx_legacy c) = pc_claim_spend_txid c \<and>
     legacy_tx_input_outpoint (pc_claim_tx_legacy c) (pc_claim_spend_input_index c)
       = Some (pc_btc_htlc_txid c, pc_btc_htlc_vout c) \<and>
     pc_htlc_inclusion_block_height c \<le> pc_claim_inclusion_block_height c \<and>
     k \<le> length (pc_confirmation_headers c) \<and>
     linked C (pc_claim_inclusion_block_hash c) (pc_confirmation_headers c) \<and>
     saturating_add (pc_claim_inclusion_block_height c) (word_of_nat k) \<le> tip"
  using payout_chain.chain_accepted [of C "pc_confirmation_headers c" "pc_claim_inclusion_block_hash c"]
  by (auto simp: verify_payout_confirmation_def res_simps Let_def not_le not_less)

lemma verify_payout_confirmation_no_panic: "verify_payout_confirmation C c ph k tip \<noteq> Panic"
  using payout_chain.chain_no_panic [of C "pc_confirmation_headers c" "pc_claim_inclusion_block_hash c"]
  by (auto simp: verify_payout_confirmation_def res_simps Let_def)

section \<open>The readers against the serialization\<close>

text \<open>The legacy serialization as the protocol defines it, for the readers to be measured against.\<close>

definition compact_size :: "nat \<Rightarrow> bytes" where
  "compact_size n =
     (if n < 253 then [word_of_nat n]
      else if n < 2 ^ 16 then 0xfd # to_le (word_of_nat n :: u16)
      else if n < 2 ^ 32 then 0xfe # to_le (word_of_nat n :: u32)
      else 0xff # to_le (word_of_nat n :: u64))"

record tx_in =
  ti_txid :: b32
  ti_vout :: u32
  ti_script :: bytes
  ti_sequence :: u32

definition ser_in :: "tx_in \<Rightarrow> bytes" where
  "ser_in t = bs (ti_txid t) @ to_le (ti_vout t) @ compact_size (length (ti_script t))
     @ ti_script t @ to_le (ti_sequence t)"

definition ser_out :: "u64 \<times> bytes \<Rightarrow> bytes" where
  "ser_out p = to_le (fst p) @ compact_size (length (snd p)) @ snd p"

definition ser_tx :: "u32 \<Rightarrow> tx_in list \<Rightarrow> (u64 \<times> bytes) list \<Rightarrow> u32 \<Rightarrow> bytes" where
  "ser_tx version ins outs lock_time =
     to_le version @ compact_size (length ins) @ concat (map ser_in ins)
       @ compact_size (length outs) @ concat (map ser_out outs) @ to_le lock_time"

definition pos :: "nat \<Rightarrow> usize" where
  "pos n = word_of_nat n"

text \<open>Positions below the buffer limit behave as numbers.\<close>

lemma unat_pos: "n < 2 ^ 64 \<Longrightarrow> unat (pos n) = n"
  by (simp add: pos_def unat_word_of_nat)

lemma usize_len_pos: "usize_len xs = pos (length xs)"
  by (simp add: usize_len_def pos_def)

lemma pos_less: "m < 2 ^ 64 \<Longrightarrow> n < 2 ^ 64 \<Longrightarrow> pos m < pos n \<longleftrightarrow> m < n"
  by (simp add: word_less_nat_alt unat_pos)

lemma pos_plus:
  "pos m + pos n = pos (m + n)" "pos m + numeral k = pos (m + numeral k)" "pos m + 1 = pos (m + 1)"
  by (simp_all add: pos_def)

lemma slice_at_pos:
  assumes "m = length pre" and "n = length pre + length mid" and "length (pre @ mid @ post) < 2 ^ 64"
  shows "slice_at (pre @ mid @ post) (pos m) (pos n) = Some mid"
  using assms by (simp add: slice_at_def unat_pos slice_get_def)

lemma length_compact_size: "1 \<le> length (compact_size n) \<and> length (compact_size n) \<le> 9"
  by (simp add: compact_size_def)

lemma read_varint_compact_size:
  assumes "n < 2 ^ 64" and "length (pre @ compact_size n @ post) < 2 ^ 63"
  shows "read_varint (pre @ compact_size n @ post) (pos (length pre)) =
    Some (word_of_nat n, pos (length pre + length (compact_size n)))"
proof -
  let ?b = "pre @ compact_size n @ post"
  have u: "unat (pos (length pre)) = length pre" using assms(2) by (intro unat_pos) simp
  obtain x t where xt: "compact_size n = x # t" by (metis length_compact_size list.exhaust list.size(3) not_one_le_zero)
  have get: "get_at ?b (unat (pos (length pre))) = Some x"
    unfolding u xt by (simp add: get_at_def)
  have slice: "slice_at ?b (pos (length pre + 1)) (pos (length pre + 1 + length t)) = Some t"
    using slice_at_pos [of "length pre + 1" "pre @ [x]" "length pre + 1 + length t" t post] assms(2)
    by (simp add: xt)
  consider (a) "n < 253" | (b) "253 \<le> n" "n < 2 ^ 16" | (c) "2 ^ 16 \<le> n" "n < 2 ^ 32" | (d) "2 ^ 32 \<le> n"
    by linarith
  then show ?thesis
  proof cases
    case a
    have x: "x = word_of_nat n" "t = []" using xt a by (simp_all add: compact_size_def)
    have ux: "unat x = n" using a x(1) by (simp add: unat_byte_of_nat)
    have ne: "x \<noteq> 0xfd" "x \<noteq> 0xfe" "x \<noteq> 0xff" using ux a by auto
    have "ucast x = (word_of_nat n :: u64)" using a ux by (simp add: word_unat_eq_iff unat_word_of_nat)
    then show ?thesis using ne x(2) unfolding read_varint_def get by (simp add: xt pos_plus)
  next
    case b
    have x: "x = 0xfd" "t = to_le (word_of_nat n :: u16)" using xt b by (simp_all add: compact_size_def)
    have "ucast (word_of_nat n :: u16) = (word_of_nat n :: u64)"
      using b by (simp add: word_unat_eq_iff unat_word_of_nat)
    moreover have "from_le (to_le (word_of_nat n :: u16)) = (word_of_nat n :: u16)"
      by (rule from_le_to_le) simp
    ultimately show ?thesis
      using slice unfolding read_varint_def get by (simp add: xt x Let_def pos_def ac_simps)
  next
    case c
    have x: "x = 0xfe" "t = to_le (word_of_nat n :: u32)" using xt c by (simp_all add: compact_size_def)
    have "ucast (word_of_nat n :: u32) = (word_of_nat n :: u64)"
      using c by (simp add: word_unat_eq_iff unat_word_of_nat)
    moreover have "from_le (to_le (word_of_nat n :: u32)) = (word_of_nat n :: u32)"
      by (rule from_le_to_le) simp
    ultimately show ?thesis using slice unfolding read_varint_def get by (simp add: xt x Let_def pos_def ac_simps)
  next
    case d
    have x: "x = 0xff" "t = to_le (word_of_nat n :: u64)" using xt d by (simp_all add: compact_size_def)
    moreover have "from_le (to_le (word_of_nat n :: u64)) = (word_of_nat n :: u64)"
      by (rule from_le_to_le) simp
    ultimately show ?thesis using slice unfolding read_varint_def get by (simp add: xt x Let_def pos_def ac_simps)
  qed
qed

text \<open>The same at a position given by a number, for a buffer known by its pieces.\<close>

lemma read_varint_at:
  assumes "b = pre @ compact_size n @ post" and "k = length pre" and "n < 2 ^ 64"
    and "length b < 2 ^ 63"
  shows "read_varint b (pos k) = Some (pos n, pos (k + length (compact_size n)))"
  using read_varint_compact_size [of n pre post] assms by (simp add: pos_def)

lemma slice_at_in:
  assumes "b = pre @ mid @ post" and "m = length pre" and "n = m + length mid" and "length b < 2 ^ 63"
  shows "slice_at b (pos m) (pos n) = Some mid"
  using slice_at_pos [of m pre n mid post] assms by simp

lemma skip_inputs_ser:
  assumes "b = pre @ concat (map ser_in ins) @ post" and "length b < 2 ^ 63"
  shows "skip_inputs b (length ins) (pos (length pre)) =
     Some (pos (length pre + length (concat (map ser_in ins))))"
  using assms
proof (induction ins arbitrary: pre)
  case (Cons t ins)
  let ?k = "length pre + 36" and ?n = "length (ti_script t)"
  let ?c = "compact_size ?n"
  have b: "b = (pre @ bs (ti_txid t) @ to_le (ti_vout t)) @ ?c @
      ti_script t @ to_le (ti_sequence t) @ concat (map ser_in ins) @ post"
    using Cons.prems(1) by (simp add: ser_in_def [of t])
  have len: "length b = length pre + 36 + length ?c + ?n + 4 + length (concat (map ser_in ins)) + length post"
    unfolding b by simp
  have v: "read_varint b (pos ?k) = Some (pos ?n, pos (?k + length ?c))"
    using Cons.prems(2) len by (intro read_varint_at [OF b]) simp_all
  have e: "?k + length ?c + ?n + 4 = length (pre @ ser_in t)" by (simp add: ser_in_def)
  have "skip_inputs b (length (t # ins)) (pos (length pre)) =
      skip_inputs b (length ins) (pos (?k + length ?c + ?n + 4))"
    using Cons.prems(2) len by (simp add: usize_len_pos pos_plus pos_less v add.assoc)
  also have "... = Some (pos (length (pre @ ser_in t) + length (concat (map ser_in ins))))"
    unfolding e using Cons.prems by (intro Cons.IH) simp_all
  finally show ?case by (simp add: add.assoc)
qed simp

lemma read_outputs_ser:
  assumes "b = pre @ concat (map ser_out outs) @ post" and "length b < 2 ^ 63"
  shows "(read_outputs b (length outs) (pos (length pre)) acc :: ('e, _) res) = Ok (Some (acc @ outs))"
  using assms
proof (induction outs arbitrary: pre acc)
  case (Cons p outs)
  obtain val spk where p: "p = (val, spk)" by (cases p)
  let ?k = "length pre + 8" and ?n = "length spk"
  let ?c = "compact_size ?n"
  let ?rest = "concat (map ser_out outs) @ post"
  have b: "b = (pre @ to_le val) @ ?c @ spk @ ?rest"
    using Cons.prems(1) by (simp add: ser_out_def [of p, unfolded p] p)
  have len: "length b = length pre + 8 + length ?c + ?n + length ?rest"
    unfolding b by simp
  have v: "read_varint b (pos ?k) = Some (pos ?n, pos (?k + length ?c))"
    using Cons.prems(2) len by (intro read_varint_at [OF b]) simp_all
  have val: "slice_at b (pos (length pre)) (pos ?k) = Some (to_le val)"
    using Cons.prems(2) b by (intro slice_at_in [of b pre "to_le val"]) simp_all
  have spk: "slice_at b (pos (?k + length ?c)) (pos (?k + length ?c + ?n)) = Some spk"
    using Cons.prems(2) b by (intro slice_at_in [of b "pre @ to_le val @ ?c" spk ?rest]) simp_all
  have e: "?k + length ?c + ?n = length (pre @ ser_out p)" by (simp add: ser_out_def p)
  have "(read_outputs b (length (p # outs)) (pos (length pre)) acc :: ('e, _) res) =
      read_outputs b (length outs) (pos (?k + length ?c + ?n)) (acc @ [p])"
    using Cons.prems(2) len val v spk by (simp add: usize_len_pos pos_plus pos_less p add.assoc)
  also have "... = Ok (Some ((acc @ [p]) @ outs))"
    unfolding e by (rule Cons.IH) (use Cons.prems in simp_all)
  finally show ?case by simp
qed simp

lemma find_input_ser:
  assumes "b = pre @ concat (map ser_in ins) @ post" and "length b < 2 ^ 63"
    and "length before = unat idx" and "unat idx + length ins < 2 ^ 63"
    and "found = (if unat input_index < unat idx
           then Some (ti_txid (before ! unat input_index), ti_vout (before ! unat input_index)) else None)"
    and "unat input_index < unat idx + length ins"
  shows "find_input b (length ins) idx input_index (pos (length pre)) found =
     Some (ti_txid ((before @ ins) ! unat input_index), ti_vout ((before @ ins) ! unat input_index))"
  using assms
proof (induction ins arbitrary: pre before idx found)
  case (Cons t ins)
  let ?k = "36 + length pre" and ?n = "length (ti_script t)"
  let ?c = "compact_size ?n"
  let ?rest = "ti_script t @ to_le (ti_sequence t) @ concat (map ser_in ins) @ post"
  have b: "b = (pre @ bs (ti_txid t) @ to_le (ti_vout t)) @ ?c @ ?rest"
    using Cons.prems(1) by (simp add: ser_in_def [of t])
  have len: "length b = length pre + 36 + length ?c + ?n + 4 + length (concat (map ser_in ins)) + length post"
    unfolding b by simp
  have v: "read_varint b (pos ?k) = Some (pos ?n, pos (?k + length ?c))"
    using Cons.prems(2) len by (intro read_varint_at [OF b]) simp_all
  have txid: "slice_at b (pos (length pre)) (pos (length pre + 32)) = Some (bs (ti_txid t))"
    using Cons.prems(2) b by (intro slice_at_in [of b pre "bs (ti_txid t)"]) simp_all
  have vout: "slice_at b (pos (length pre + 32)) (pos ?k) = Some (to_le (ti_vout t))"
    using Cons.prems(2) b by (intro slice_at_in [of b "pre @ bs (ti_txid t)" "to_le (ti_vout t)"]) simp_all
  have add: "checked_add (pos m) (pos n) = Some (pos (m + n))" if "m + n < 2 ^ 64" for m n
    using that by (simp add: checked_add_def unat_pos pos_plus)
  have sub: "Option.bind (checked_add (pos (?k + length ?c)) (pos ?n)) (\<lambda>j. checked_add j 4) =
      Some (pos (?k + length ?c + ?n + 4))"
    using add [of "?k + length ?c" ?n] add [of "?k + length ?c + ?n" 4] Cons.prems(2) len
    by (simp add: pos_def [of 4])
  have k: "pos (length pre) + 32 = pos (length pre + 32)" "pos (length pre + 32) + 4 = pos ?k"
    by (simp_all add: pos_def)
  have e: "?k + length ?c + ?n + 4 = length (pre @ ser_in t)" by (simp add: ser_in_def)
  have idx: "unat (idx + 1) = unat idx + 1"
    using Cons.prems(4) by (simp add: unat_word_ariths)
  let ?found = "if idx = ucast input_index then Some (ti_txid t, ti_vout t) else found"
  have here: "idx = ucast input_index \<longleftrightarrow> unat idx = unat input_index"
    by (simp add: word_unat_eq_iff)
  have "find_input b (length (t # ins)) idx input_index (pos (length pre)) found =
      find_input b (length ins) (idx + 1) input_index (pos (?k + length ?c + ?n + 4)) ?found"
    using Cons.prems(2) len by (simp add: k txid vout v sub usize_len_pos pos_less)
  also have "... = Some (ti_txid (((before @ [t]) @ ins) ! unat input_index),
      ti_vout (((before @ [t]) @ ins) ! unat input_index))"
    unfolding e
  proof (rule Cons.IH)
    show "?found = (if unat input_index < unat (idx + 1)
         then Some (ti_txid ((before @ [t]) ! unat input_index), ti_vout ((before @ [t]) ! unat input_index))
         else None)"
      using Cons.prems(3,5) by (auto simp: here idx nth_append)
  qed (use Cons.prems idx in simp_all)
  finally show ?case by simp
next
  case Nil
  then show ?case by simp
qed

lemma ser_tx_count:
  "read_varint (to_le (v :: u32) @ compact_size n @ r) 4 = Some (pos n, pos (4 + length (compact_size n)))"
  if "n < 2 ^ 64" and "length (to_le v @ compact_size n @ r) < 2 ^ 63"
  using read_varint_at [of _ "to_le v" n r 4] that by (simp add: pos_def)

lemma length_concat_ge: "\<forall>x\<in>set xs. k \<le> length (f x) \<Longrightarrow> k * length xs \<le> length (concat (map f xs))"
  by (induction xs) auto

lemma legacy_tx_input_outpoint_ser:
  assumes "length (ser_tx v ins outs l) < 2 ^ 60" and "unat k < length ins"
  shows "legacy_tx_input_outpoint (ser_tx v ins outs l) k = Some (ti_txid (ins ! unat k), ti_vout (ins ! unat k))"
proof -
  let ?b = "ser_tx v ins outs l"
  let ?rest = "compact_size (length outs) @ concat (map ser_out outs) @ to_le l"
  have b: "?b = to_le v @ compact_size (length ins) @ concat (map ser_in ins) @ ?rest"
    by (simp add: ser_tx_def)
  have n: "length ins \<le> length ?b"
    using length_concat_ge [of ins 1 ser_in] by (simp add: b ser_in_def)
  have v: "read_varint ?b 4 = Some (pos (length ins), pos (4 + length (compact_size (length ins))))"
    unfolding b using assms(1) n by (intro ser_tx_count) (simp_all add: b)
  have lt: "\<not> ucast k \<ge> (pos (length ins) :: u64)"
    using assms n by (simp add: word_le_nat_alt unat_pos)
  have "find_input ?b (length ins) 0 k (pos (length (to_le v @ compact_size (length ins)))) None =
      Some (ti_txid (([] @ ins) ! unat k), ti_vout (([] @ ins) ! unat k))"
    by (rule find_input_ser [where post = ?rest]) (use assms n in \<open>simp_all add: b\<close>)
  then show ?thesis
    using v lt assms(1) n by (simp add: legacy_tx_input_outpoint_def unat_pos)
qed

lemma legacy_tx_outputs_ser:
  assumes "length (ser_tx v ins outs l) < 2 ^ 58"
  shows "legacy_tx_outputs (ser_tx v ins outs l) = Ok (Some outs)"
proof -
  let ?b = "ser_tx v ins outs l"
  let ?c = "compact_size (length ins)" and ?d = "compact_size (length outs)"
  let ?ins = "concat (map ser_in ins)" and ?outs = "concat (map ser_out outs)"
  have b: "?b = to_le v @ ?c @ ?ins @ ?d @ ?outs @ to_le l" by (simp add: ser_tx_def)
  have n: "length ins \<le> length ?b" and m: "length outs \<le> length ?b"
    using length_concat_ge [of ins 1 ser_in] length_concat_ge [of outs 1 ser_out]
    by (simp_all add: b ser_in_def ser_out_def)
  have v: "read_varint ?b 4 = Some (pos (length ins), pos (4 + length ?c))"
    unfolding b using assms n by (intro ser_tx_count) (simp_all add: b)
  have s: "skip_inputs ?b (length ins) (pos (length (to_le v @ ?c))) =
      Some (pos (length (to_le v @ ?c) + length ?ins))"
    by (rule skip_inputs_ser [where post = "?d @ ?outs @ to_le l"]) (use assms in \<open>simp_all add: b\<close>)
  let ?pre = "to_le v @ ?c @ ?ins"
  have w: "read_varint ?b (pos (length ?pre)) = Some (pos (length outs), pos (length ?pre + length ?d))"
    by (rule read_varint_at [of _ ?pre _ "?outs @ to_le l"]) (use assms m in \<open>simp_all add: b\<close>)
  have r: "read_outputs ?b (length outs) (pos (length (?pre @ ?d))) [] = Ok (Some ([] @ outs))"
    by (rule read_outputs_ser [where post = "to_le l"]) (use assms in \<open>simp_all add: b\<close>)
  show ?thesis
    using v s w r assms n m by (simp add: legacy_tx_outputs_def unat_pos add.assoc)
qed

section \<open>Two leaves under one Merkle root are a collision\<close>

text \<open>
  Two branches of one length for one index: where the running hashes first meet, either the
  two inner or the two outer SHA-256 inputs collide.
\<close>

definition merkle_input :: "u32 \<Rightarrow> b32 \<Rightarrow> b32 \<Rightarrow> bytes" where
  "merkle_input index h sib = (if index AND 1 = 0 then bs h @ bs sib else bs sib @ bs h)"

fun merkle_collision ::
  "crypto \<Rightarrow> b32 \<Rightarrow> b32 \<Rightarrow> u32 \<Rightarrow> b32 list \<Rightarrow> b32 list \<Rightarrow> (bytes \<times> bytes) option" where
  "merkle_collision C h g index (a # as) (b # bs') =
     (let x = merkle_input index h a; y = merkle_input index g b
      in if h \<noteq> g \<and> dsha256 C x = dsha256 C y
         then Some (if sha256 C [x] = sha256 C [y] then (x, y)
                    else (bs (sha256 C [x]), bs (sha256 C [y])))
         else merkle_collision C (dsha256 C x) (dsha256 C y) (drop_bit 1 index) as bs')"
| "merkle_collision C h g index _ _ = None"

lemma merkle_input_inject: "merkle_input i h a = merkle_input i g b \<longleftrightarrow> h = g \<and> a = b"
  using bs_inject [of a b] bs_inject [of h g] by (auto simp: merkle_input_def)

lemma dsha256_collision:
  assumes "dsha256 C x = dsha256 C y" and "x \<noteq> y"
  shows "sha_collides C (if sha256 C [x] = sha256 C [y] then (x, y)
           else (bs (sha256 C [x]), bs (sha256 C [y])))"
  using assms by (simp add: dsha256_def sha256_def sha_collides_def bs_inject)

text \<open>
  two different leaves that prove under one Merkle root, at one index and with branches of one
  length, exhibit a SHA-256 collision.
\<close>
lemma merkle_leaves_collide:
  "merkle_root_from_proof C h i as = merkle_root_from_proof C g i bs' \<Longrightarrow> length as = length bs' \<Longrightarrow>
     h \<noteq> g \<Longrightarrow> \<exists>w. merkle_collision C h g i as bs' = Some w \<and> sha_collides C w"
proof (induction as arbitrary: h g i bs')
  case Nil
  then show ?case by simp
next
  case (Cons a as)
  then obtain b bs'' where bs': "bs' = b # bs''" by (cases bs') auto
  let ?x = "merkle_input i h a" and ?y = "merkle_input i g b"
  have ne: "?x \<noteq> ?y" using Cons.prems(3) by (simp add: merkle_input_inject)
  show ?case
  proof (cases "dsha256 C ?x = dsha256 C ?y")
    case True
    then show ?thesis using dsha256_collision [OF True ne] Cons.prems(3) by (simp add: bs' Let_def)
  next
    case False
    then show ?thesis
      using Cons.IH [of "dsha256 C ?x" "drop_bit 1 i" "dsha256 C ?y" bs''] Cons.prems
      by (simp add: bs' Let_def merkle_input_def)
  qed
qed

section \<open>Properties\<close>

text \<open>
  both transaction readers agree with the serialization they read: from the wire form of any
  transaction below the size bound the output reader returns exactly its outputs, and the input
  reader the outpoint spent by each input.
\<close>
lemma legacy_tx_readers:
  assumes "length (ser_tx v ins outs l) < 2 ^ 58"
  shows "legacy_tx_outputs (ser_tx v ins outs l) = (Ok (Some outs) :: ('e, _) res) \<and>
     (unat k < length ins \<longrightarrow> legacy_tx_input_outpoint (ser_tx v ins outs l) k
       = Some (ti_txid (ins ! unat k), ti_vout (ins ! unat k)))"
  using assms legacy_tx_outputs_ser [OF assms] legacy_tx_input_outpoint_ser [of v ins outs l k] by simp

definition sample_tx_in :: tx_in where
  "sample_tx_in = \<lparr>ti_txid = fill 0, ti_vout = 0, ti_script = [], ti_sequence = 0\<rparr>"

lemma legacy_tx_readers_witness:
  "legacy_tx_outputs (ser_tx 2 [sample_tx_in] [(7, [0x51])] 0) = (Ok (Some [(7, [0x51])]) :: (unit, _) res) \<and>
   legacy_tx_input_outpoint (ser_tx 2 [sample_tx_in] [(7, [0x51])] 0) 0 = Some (fill 0, 0)"
  using legacy_tx_readers [of 2 "[sample_tx_in]" "[(7, [0x51])]" 0 0, where 'e = unit]
  by (simp add: ser_tx_def ser_in_def ser_out_def sample_tx_in_def compact_size_def)

lemma verify_deposit_confirmation_Ok:
  "verify_deposit_confirmation C c txid sats pks k depth = Ok () \<longleftrightarrow>
     dsha256 C (dc_deposit_tx_legacy c) = txid \<and>
     (\<exists>outs spk. legacy_tx_outputs (dc_deposit_tx_legacy c) = (Ok (Some outs) :: (DepositSpvError, _) res) \<and>
        find (\<lambda>(_, spk). spk = bs (reserve_p2wsh_spk C pks k)) outs = Some (sats, spk)) \<and>
     block_hash C (dc_inclusion_header c) = dc_inclusion_block_hash c \<and>
     pow_ok C (dc_inclusion_header c) \<and>
     merkle_root_from_proof C txid (dc_tx_index c) (dc_inclusion_merkle_proof c)
       = merkle_root_field (dc_inclusion_header c) \<and>
     depth \<le> length (dc_confirmation_headers c) + 1 \<and>
     linked C (dc_inclusion_block_hash c) (dc_confirmation_headers c)"
  unfolding verify_deposit_confirmation_def deposit_chain.chain_accepted [symmetric]
  by (auto simp: res_simps Let_def split: prod.splits if_splits)

text \<open>
  the deposit verifier accepts exactly a transaction with the named id, whose first output to
  the reserve script pays the named amount, included under a header that meets its own target and
  followed by a linked chain of such headers of the asked length.
\<close>
lemma verify_deposit_confirmation_accepts:
  "verify_deposit_confirmation C c txid sats pks k depth = Ok () \<longleftrightarrow>
     dsha256 C (dc_deposit_tx_legacy c) = txid \<and>
     (\<exists>outs spk. legacy_tx_outputs (dc_deposit_tx_legacy c) = (Ok (Some outs) :: (DepositSpvError, _) res) \<and>
        find (\<lambda>(_, spk). spk = bs (reserve_p2wsh_spk C pks k)) outs = Some (sats, spk)) \<and>
     block_hash C (dc_inclusion_header c) = dc_inclusion_block_hash c \<and>
     pow_ok C (dc_inclusion_header c) \<and>
     merkle_root_from_proof C txid (dc_tx_index c) (dc_inclusion_merkle_proof c)
       = merkle_root_field (dc_inclusion_header c) \<and>
     depth \<le> length (dc_confirmation_headers c) + 1 \<and>
     linked C (dc_inclusion_block_hash c) (dc_confirmation_headers c)"
  by (rule verify_deposit_confirmation_Ok)

lemma merkle_leaves_collide_witness:
  "\<exists>w. merkle_collision const_crypto (fill 1) (fill 2) 0 [fill 0] [fill 0] = Some w \<and> sha_collides const_crypto w"
  by (rule merkle_leaves_collide) (simp_all add: dsha256_def)

section \<open>Headers under the constant instance\<close>

lemma const_header:
  "merkle_root_field (fill 0) = fill 0" "prev_block_hash (fill 0) = fill 0" "pow_ok const_crypto (fill 0)"
  "block_hash const_crypto h = fill 0" "linked const_crypto (fill 0) (replicate n (fill 0))"
proof -
  have z: "barr_of (replicate 32 0) = (fill 0 :: b32)" by (simp add: fill_def barr_of_def)
  have least: "fill 0 \<le> b" for b :: b32
    by (simp add: barr_le_iff_nat bs_fill del: replicate.simps)
  show b: "block_hash const_crypto h = fill 0" for h by (simp add: block_hash_def dsha256_def)
  show m: "merkle_root_field (fill 0) = fill 0" and p: "prev_block_hash (fill 0) = fill 0"
    by (simp_all add: merkle_root_field_def prev_block_hash_def sub_def bs_fill z del: replicate.simps)
  show w: "pow_ok const_crypto (fill 0)"
    by (simp add: pow_ok_def b bs_fill z least Let_def del: replicate.simps)
  show "linked const_crypto (fill 0) (replicate n (fill 0))"
    by (induction n) (simp_all add: p w b)
qed

text \<open>A deposit of a hundredth of a bitcoin to the reserve script of a committee, six deep.\<close>

definition sample_deposit_tx :: bytes where
  "sample_deposit_tx = ser_tx 2 [sample_tx_in] [(1000000, 0 # 0x20 # replicate 32 0)] 0"

definition sample_paid_deposit :: BtcDepositConfirmation where
  "sample_paid_deposit = sample_deposit\<lparr>dc_deposit_tx_legacy := sample_deposit_tx,
     dc_confirmation_headers := replicate 5 (fill 0)\<rparr>"

lemma sample_deposit_accepted:
  "verify_deposit_confirmation const_crypto sample_paid_deposit (fill 0) 1000000 pks k 6 = Ok ()"
proof -
  have o: "legacy_tx_outputs sample_deposit_tx = (Ok (Some [(1000000, 0 # 0x20 # replicate 32 0)]) :: (DepositSpvError, _) res)"
    unfolding sample_deposit_tx_def
    by (rule legacy_tx_outputs_ser)
      (simp_all add: ser_tx_def ser_in_def ser_out_def sample_tx_in_def compact_size_def)
  have "bs (reserve_p2wsh_spk const_crypto pks k) = 0 # 0x20 # replicate 32 0"
    by (simp add: reserve_p2wsh_spk_def Let_def bs_barr_of bs_fill)
  then show ?thesis
    using o const_header
    by (simp add: verify_deposit_confirmation_Ok sample_paid_deposit_def sample_deposit_def dsha256_def)
qed

end
