(* ===== verification/Signers.thy ===== *)
theory Signers
  imports Samples
begin

text \<open>
  The loop that counts distinct authorized signers, which the mint verifier, the registry's
  claim finalization and the multisig reserve each write out: the locale states what one
  iteration does, and its lemma is that the tally is the number of authorized keys that signed.
\<close>

locale signer_loop =
  fixes signer :: "'s \<Rightarrow> 'k" and authorized :: "'k \<Rightarrow> bool" and valid :: "'s \<Rightarrow> bool"
    and count_step :: "'s \<Rightarrow> 'st \<Rightarrow> 'st" and seen :: "'st \<Rightarrow> 'k list" and tally :: "'st \<Rightarrow> nat"
  assumes skipped:
      "\<not> authorized (signer s) \<or> signer s \<in> set (seen st) \<or> \<not> valid s \<Longrightarrow> count_step s st = st"
    and counted:
      "authorized (signer s) \<Longrightarrow> signer s \<notin> set (seen st) \<Longrightarrow> valid s \<Longrightarrow>
         seen (count_step s st) = seen st @ [signer s] \<and> tally (count_step s st) = Suc (tally st)"
begin

definition signed_by :: "'s list \<Rightarrow> 'k set" where
  "signed_by sigs = signer ` {s \<in> set sigs. authorized (signer s) \<and> valid s}"

lemma signed_by_Cons:
  "signed_by (s # sigs) =
     (if authorized (signer s) \<and> valid s then insert (signer s) (signed_by sigs) else signed_by sigs)"
  by (auto simp: signed_by_def)

lemma loop_state:
  "distinct (seen st) \<Longrightarrow> tally st = length (seen st) \<Longrightarrow>
     set (seen (fold count_step sigs st)) = set (seen st) \<union> signed_by sigs \<and>
     distinct (seen (fold count_step sigs st)) \<and>
     tally (fold count_step sigs st) = length (seen (fold count_step sigs st))"
proof (induction sigs arbitrary: st)
  case Nil
  then show ?case by (simp add: signed_by_def)
next
  case (Cons s sigs)
  show ?case
  proof (cases "authorized (signer s) \<and> signer s \<notin> set (seen st) \<and> valid s")
    case True
    then show ?thesis
      using Cons.IH [of "count_step s st"] Cons.prems counted [of s st] by (auto simp: signed_by_Cons)
  next
    case False
    then have "count_step s st = st" using skipped [of s st] by blast
    then show ?thesis using Cons False by (auto simp: signed_by_Cons)
  qed
qed

lemma tally_is_card:
  assumes "seen st = []" and "tally st = 0"
  shows "tally (fold count_step sigs st) = card (signed_by sigs)"
  using loop_state [of st sigs] assms by (simp add: distinct_card [symmetric])

end

end
