(* ===== verification/Tier.thy ===== *)
theory Tier
  imports Prelude
begin

text \<open>
  Collateral ratio and emergency tier (\<^verbatim>\<open>satusd-types/src/tier.rs\<close>): the 128-bit arithmetic with
  its three \<^verbatim>\<open>unwrap\<close>s and the final \<^verbatim>\<open>assert!\<close> as panics, and what the result means over the
  natural numbers.
\<close>

datatype EmergencyTier = Healthy | PauseMint | Auction | Settlement

fun emergency_tier_as_u8 :: "EmergencyTier \<Rightarrow> u8" where
  "emergency_tier_as_u8 Healthy = 0"
| "emergency_tier_as_u8 PauseMint = 1"
| "emergency_tier_as_u8 Auction = 2"
| "emergency_tier_as_u8 Settlement = 3"

definition collateral_ratio_ppm :: "u64 \<Rightarrow> u64 \<Rightarrow> u64 \<Rightarrow> ('e, u64 option) res" where
  "collateral_ratio_ppm reserve_sats supply_atoms price_e8 =
     (if supply_atoms = 0 then Ok None
      else rbind (unwrap (checked_mul (ucast reserve_sats :: u128) (ucast price_e8))) (\<lambda>product.
           rbind (unwrap (checked_mul product 1000000)) (\<lambda>num.
           rbind (unwrap (checked_mul (ucast supply_atoms) (10 ^ 14))) (\<lambda>den.
             let cr_ppm = num div den
             in if cr_ppm \<le> 18446744073709551615 then Ok (Some (ucast cr_ppm)) else Panic))))"

definition recompute_tier :: "u64 \<Rightarrow> u64 \<Rightarrow> u64 \<Rightarrow> ('e, EmergencyTier) res" where
  "recompute_tier reserve_sats supply_atoms price_e8 =
     rbind (collateral_ratio_ppm reserve_sats supply_atoms price_e8) (\<lambda>cr. Ok (case cr of
         None \<Rightarrow> Healthy
       | Some cr_ppm \<Rightarrow>
           if cr_ppm \<ge> 1500000 then Healthy
           else if cr_ppm \<ge> 1300000 then PauseMint
           else if cr_ppm \<ge> 1100000 then Auction
           else Settlement))"

section \<open>The ratio over the natural numbers\<close>

definition cr_nat :: "u64 \<Rightarrow> u64 \<Rightarrow> u64 \<Rightarrow> nat" where
  "cr_nat r s p = unat r * unat p * 1000000 div (unat s * 10 ^ 14)"

lemma supply_times_fits: "unat (s :: u64) * 10 ^ 14 < 2 ^ 128"
  by simp (use unat_lt_u64 [of s] in linarith)

lemma price_times_fits: "unat (r :: u64) * unat (p :: u64) < 2 ^ 128"
proof -
  have "unat r * unat p < 18446744073709551616 * 18446744073709551616"
    by (intro mult_strict_mono) simp_all
  then show ?thesis by simp
qed

lemma collateral_ratio_ppm_cases:
  assumes "s \<noteq> 0"
  shows "collateral_ratio_ppm r s p =
    (if unat r * unat p * 1000000 < 2 ^ 128 \<and> cr_nat r s p < 2 ^ 64
     then Ok (Some (word_of_nat (cr_nat r s p))) else Panic)"
proof -
  define P :: u128 where "P = ucast r * ucast p"
  have P: "checked_mul (ucast r :: u128) (ucast p) = Some P"
    using price_times_fits [of r p] by (simp add: P_def checked_mul_def)
  have uP: "unat P = unat r * unat p"
    using checked_mul_unat [OF P] by simp
  define D :: u128 where "D = ucast s * 10 ^ 14"
  have D: "checked_mul (ucast s :: u128) (10 ^ 14) = Some D"
    using supply_times_fits [of s] by (simp add: D_def checked_mul_def)
  have uD: "unat D = unat s * 10 ^ 14"
    using checked_mul_unat [OF D] by simp
  show ?thesis
  proof (cases "unat r * unat p * 1000000 < 2 ^ 128")
    case True
    define N :: u128 where "N = P * 1000000"
    have N: "checked_mul P 1000000 = Some N"
      using True by (simp add: N_def checked_mul_def uP)
    have uN: "unat N = unat r * unat p * 1000000"
      using checked_mul_unat [OF N] uP by simp
    have q: "unat (N div D) = cr_nat r s p"
      by (simp add: unat_div uN uD cr_nat_def)
    have le: "N div D \<le> 18446744073709551615 \<longleftrightarrow> cr_nat r s p < 2 ^ 64"
      unfolding word_le_nat_alt q by simp linarith
    have uc: "ucast (N div D) = (word_of_nat (cr_nat r s p) :: u64)"
      unfolding q [symmetric] by simp
    show ?thesis
      using assms True unfolding collateral_ratio_ppm_def P D
      by (simp only: N unwrap.simps rbind.simps D Let_def le uc if_True if_False) simp
  next
    case False
    then have "checked_mul P 1000000 = None"
      by (simp add: checked_mul_def uP)
    then show ?thesis
      using assms False by (simp add: collateral_ratio_ppm_def P)
  qed
qed

lemma collateral_ratio_ppm_zero [simp]: "collateral_ratio_ppm r 0 p = Ok None"
  by (simp add: collateral_ratio_ppm_def)

lemma collateral_ratio_ppm_not_Err [simp]: "collateral_ratio_ppm r s p \<noteq> Err e"
  by (cases "s = 0") (simp_all add: collateral_ratio_ppm_cases)

lemma collateral_ratio_ppm_Some:
  "collateral_ratio_ppm r s p = Ok (Some c) \<Longrightarrow> s \<noteq> 0 \<and> unat c = cr_nat r s p"
  by (cases "s = 0") (auto simp: collateral_ratio_ppm_cases unat_word_of_nat split: if_splits)

lemma recompute_tier_cases:
  "recompute_tier r s p =
    (if s = 0 then Ok Healthy
     else if unat r * unat p * 1000000 < 2 ^ 128 \<and> cr_nat r s p < 2 ^ 64 then
       Ok (if 1500000 \<le> cr_nat r s p then Healthy
           else if 1300000 \<le> cr_nat r s p then PauseMint
           else if 1100000 \<le> cr_nat r s p then Auction
           else Settlement)
     else Panic)"
  by (simp add: recompute_tier_def collateral_ratio_ppm_cases word_le_nat_alt unat_word_of_nat)

lemma recompute_tier_not_Err [simp]: "recompute_tier r s p \<noteq> Err e"
  by (simp add: recompute_tier_cases)

section \<open>Properties\<close>

lemma cr_nat_mono:
  assumes "r \<le> r'" and "s' \<le> s" and "s' \<noteq> 0" and "p \<le> p'"
  shows "cr_nat r s p \<le> cr_nat r' s' p'"
proof -
  have "unat r * unat p * 1000000 \<le> unat r' * unat p' * 1000000"
    using assms by (intro mult_le_mono) (simp_all add: word_le_nat_alt)
  moreover have "unat s' * 10 ^ 14 \<le> unat s * 10 ^ 14" and "0 < unat s' * 10 ^ 14"
    using assms by (simp_all add: word_le_nat_alt unat_gt_0)
  ultimately show ?thesis unfolding cr_nat_def by (meson div_le_mono div_le_mono2 order_trans)
qed

text \<open>a larger reserve, a smaller supply or a higher price never makes the emergency tier worse.\<close>
lemma tier_monotone:
  assumes "(recompute_tier r s p :: ('e, _) res) = Ok t" and "(recompute_tier r' s' p' :: ('e, _) res) = Ok t'"
    and "r \<le> r'" and "s' \<le> s" and "p \<le> p'"
  shows "emergency_tier_as_u8 t' \<le> emergency_tier_as_u8 t"
proof (cases "s' = 0")
  case True
  then have "t' = Healthy" using assms(2) by (simp add: recompute_tier_cases)
  then show ?thesis by simp
next
  case False
  then have "s \<noteq> 0" using assms(4) by auto
  then show ?thesis
    using assms(1,2) False cr_nat_mono [OF assms(3,4) False assms(5)]
    by (auto simp: recompute_tier_cases split: if_splits)
qed

lemma tier_monotone_witness:
  "emergency_tier_as_u8 PauseMint \<le> emergency_tier_as_u8 Auction"
  by (rule tier_monotone [of 1200000 1 100000000 Auction 1400000 1 100000000 PauseMint, where 'e = unit])
    (simp_all add: recompute_tier_cases cr_nat_def)

end
