(* ===== verification/Mint.thy ===== *)
theory Mint
  imports Spv Signers Tier
begin

text \<open>
  MINT_COMMIT and MINT_FINALIZE (\<^verbatim>\<open>satusd-state/src/mint.rs\<close>). Each \<open>apply_*\<close> builds the post-state
  or names the first check that fails; \<open>verify_*\<close> compares it with the claimed one.
\<close>

section \<open>Constants, errors, witnesses\<close>

definition MIN_MINT_CR_PPM :: u64 where
  "MIN_MINT_CR_PPM = 2000000"

definition TIER_HEALTHY_THRESHOLD_PPM :: u64 where
  "TIER_HEALTHY_THRESHOLD_PPM = 1500000"

definition DEPOSIT_MIN_CONFIRMATIONS :: u32 where
  "DEPOSIT_MIN_CONFIRMATIONS = 6"

datatype MintRejectReason =
    PostStateMismatch
  | Overflow
  | IssuerMismatch
  | IssuerNotInState
  | IssuerNotActive
  | DepositNotConfirmed
  | DepositNotToReserve
  | DepositSpvInvalid
  | DepositAmountMismatch
  | ReserveCommitteeMismatch
  | MultisigThresholdNotMet
  | PendingMintExists
  | ZeroMintAmount
  | InsufficientCollateralAtCommit u64
  | NoPendingMint
  | CommitMismatch
  | MintAnchorNotConfirmed
  | MintProofInvalid
  | InsufficientCollateralAtFinalize u64
  | TierNotHealthy u64

record MultisigSig =
  ms_signer_pubkey :: b33
  ms_signature :: b64

record MintCommitWitness =
  mc_issuer_id :: b32
  mc_requested_mint_atoms :: u64
  mc_deposit_txid :: b32
  mc_deposit_sats :: u64
  mc_asset_metadata_commitment :: b32
  mc_signatures :: "MultisigSig list"
  mc_oracle_price_e8 :: u64
  mc_deposit_confirmation :: BtcDepositConfirmation
  mc_reserve_committee_pubkeys :: "b33 list"
  mc_reserve_committee_threshold :: u8

record MintFinalizeWitness =
  mf_issuer_id :: b32
  mf_requested_mint_atoms :: u64
  mf_deposit_txid :: b32
  mf_asset_metadata_commitment :: b32
  mf_mint_anchor_confirmations :: u32
  mf_mint_proof_ok :: bool
  mf_oracle_price_e8 :: u64

section \<open>The operations\<close>

definition multisig_step ::
  "crypto \<Rightarrow> b32 \<Rightarrow> IssuerPosition \<Rightarrow> MultisigSig \<Rightarrow> b33 list \<times> nat \<Rightarrow> b33 list \<times> nat" where
  "multisig_step C sighash issuer s st =
     (let (seen, count) = st in
      if ms_signer_pubkey s \<notin> set (ip_multisig_pubkeys issuer) \<or> ms_signer_pubkey s \<in> set seen
        then (seen, count)
      else if verify_ecdsa C sighash (ms_signer_pubkey s) (ms_signature s)
        then (seen @ [ms_signer_pubkey s], count + 1)
      else (seen, count))"

definition count_valid_multisig :: "crypto \<Rightarrow> b32 \<Rightarrow> IssuerPosition \<Rightarrow> MultisigSig list \<Rightarrow> nat" where
  "count_valid_multisig C sighash issuer sigs =
     snd (fold (multisig_step C sighash issuer) sigs ([], 0))"

definition next_state :: "crypto \<Rightarrow> StateRoot \<Rightarrow> TransitionType \<Rightarrow> StateRoot" where
  "next_state C prev ttype = prev\<lparr>
     sr_state_epoch := sr_state_epoch prev + 1,
     sr_prev_state_root := state_root_hash C prev,
     sr_transition_type := transition_type_as_u8 ttype\<rparr>"

definition set_state_tier :: "StateRoot \<Rightarrow> u64 \<Rightarrow> ('e, StateRoot) res" where
  "set_state_tier s price_e8 =
     rbind (collateral_ratio_ppm (sr_reserve_btc_sats s) (sr_sat_usd_supply_atoms s) price_e8) (\<lambda>cr.
     rbind (recompute_tier (sr_reserve_btc_sats s) (sr_sat_usd_supply_atoms s) price_e8) (\<lambda>tier.
     Ok (s\<lparr>sr_collateral_ratio_ppm := unwrap_or cr 0,
           sr_emergency_tier := emergency_tier_as_u8 tier\<rparr>)))"

definition verified :: "(MintRejectReason, StateRoot) res \<Rightarrow> StateRoot \<Rightarrow> (MintRejectReason, unit) res" where
  "verified expected new =
     rbind expected (\<lambda>e. if e = new then Ok () else Err PostStateMismatch)"

definition issuer_in_state ::
  "crypto \<Rightarrow> b32 \<Rightarrow> IssuerPosition \<Rightarrow> b32 list \<Rightarrow> (MintRejectReason, unit) res" where
  "issuer_in_state C root issuer proof_path =
     (if \<not> verify_inclusion C root (ip_issuer_id issuer) (issuer_position_hash C issuer) proof_path
      then Err IssuerNotInState else Ok ())"

definition issuer_after_commit ::
  "crypto \<Rightarrow> IssuerPosition \<Rightarrow> MintCommitWitness \<Rightarrow> (MintRejectReason, IssuerPosition) res" where
  "issuer_after_commit C prev_issuer w =
     (let commitment = mint_commitment C (mc_requested_mint_atoms w)
            (mc_asset_metadata_commitment w) (mc_deposit_txid w) in
      rbind (ok_or (checked_add (ip_reserve_deposits_sats prev_issuer) (mc_deposit_sats w)) Overflow) (\<lambda>deposits.
      rbind (ok_or (checked_add (ip_pending_mint_atoms prev_issuer) (mc_requested_mint_atoms w)) Overflow) (\<lambda>pending.
      Ok (prev_issuer\<lparr>
        ip_reserve_deposits_sats := deposits,
        ip_pending_mint_atoms := pending,
        ip_last_deposit_txid := Some (mc_deposit_txid w),
        ip_pending_mint_commitment := Some commitment\<rparr>))))"

definition issuer_after_finalize ::
  "IssuerPosition \<Rightarrow> u64 \<Rightarrow> (MintRejectReason, IssuerPosition) res" where
  "issuer_after_finalize prev_issuer requested_mint_atoms =
     rbind (ok_or (checked_add (ip_minted_satusd_atoms prev_issuer) requested_mint_atoms) Overflow) (\<lambda>minted.
     rbind (ok_or (checked_sub (ip_pending_mint_atoms prev_issuer) requested_mint_atoms) Overflow) (\<lambda>pending.
     Ok (prev_issuer\<lparr>
       ip_minted_satusd_atoms := minted,
       ip_pending_mint_atoms := pending,
       ip_pending_mint_commitment := None\<rparr>)))"

fun deposit_reject :: "DepositSpvError \<Rightarrow> MintRejectReason" where
  "deposit_reject ConfirmationDepthInsufficient = DepositNotConfirmed"
| "deposit_reject DepositSpvError.DepositNotToReserve = DepositNotToReserve"
| "deposit_reject DepositSpvError.DepositAmountMismatch = DepositAmountMismatch"
| "deposit_reject _ = DepositSpvInvalid"

definition apply_mint_commit ::
  "crypto \<Rightarrow> StateRoot \<Rightarrow> IssuerPosition \<Rightarrow> b32 list \<Rightarrow> MintCommitWitness
     \<Rightarrow> (MintRejectReason, StateRoot) res" where
  "apply_mint_commit C prev_state prev_issuer issuer_proof w =
     (if ip_issuer_id prev_issuer \<noteq> mc_issuer_id w then Err IssuerMismatch
      else rbind (issuer_in_state C (sr_issuer_positions_root prev_state) prev_issuer issuer_proof) (\<lambda>_.
      if ip_status prev_issuer \<noteq> IssuerActive then Err IssuerNotActive
      else if reserve_committee_hash C (mc_reserve_committee_threshold w)
          (mc_reserve_committee_pubkeys w) \<noteq> sr_reserve_committee_hash prev_state
        then Err ReserveCommitteeMismatch
      else rbind (map_err deposit_reject (verify_deposit_confirmation C (mc_deposit_confirmation w)
             (mc_deposit_txid w) (mc_deposit_sats w) (mc_reserve_committee_pubkeys w)
             (mc_reserve_committee_threshold w) (unat DEPOSIT_MIN_CONFIRMATIONS))) (\<lambda>_.
      let sighash = mint_request_sighash C (mc_issuer_id w) (mc_requested_mint_atoms w)
            (mc_deposit_sats w) (mc_deposit_txid w) (mc_asset_metadata_commitment w) in
      if \<not> count_valid_multisig C sighash prev_issuer (mc_signatures w)
          \<ge> unat (ip_multisig_threshold prev_issuer) then Err MultisigThresholdNotMet
      else if ip_pending_mint_commitment prev_issuer \<noteq> None then Err PendingMintExists
      else if \<not> mc_requested_mint_atoms w > 0 then Err ZeroMintAmount
      else
      rbind (ok_or (checked_add (sr_reserve_btc_sats prev_state) (mc_deposit_sats w)) Overflow) (\<lambda>reserve_total.
      rbind (ok_or (checked_add (sr_sat_usd_supply_atoms prev_state) (mc_requested_mint_atoms w)) Overflow) (\<lambda>post_supply.
      rbind (collateral_ratio_ppm reserve_total post_supply (mc_oracle_price_e8 w)) (\<lambda>ratio.
      rbind (unwrap ratio) (\<lambda>cr.
      if \<not> cr \<ge> MIN_MINT_CR_PPM then Err (InsufficientCollateralAtCommit cr)
      else
      rbind (issuer_after_commit C prev_issuer w) (\<lambda>exp_issuer.
      let expected = (next_state C prev_state MintCommit)\<lparr>
            sr_reserve_btc_sats := reserve_total,
            sr_latest_oracle_price_e8 := mc_oracle_price_e8 w\<rparr> in
      rbind (set_state_tier expected (mc_oracle_price_e8 w)) (\<lambda>expected.
      rbind (root_after_update C (mc_issuer_id w) (issuer_position_hash C exp_issuer) issuer_proof) (\<lambda>root.
      Ok (expected\<lparr>sr_issuer_positions_root := root\<rparr>)))))))))))"

definition verify_mint_commit ::
  "crypto \<Rightarrow> StateRoot \<Rightarrow> StateRoot \<Rightarrow> IssuerPosition \<Rightarrow> b32 list \<Rightarrow> MintCommitWitness
     \<Rightarrow> (MintRejectReason, unit) res" where
  "verify_mint_commit C prev_state new_state prev_issuer issuer_proof w =
     verified (apply_mint_commit C prev_state prev_issuer issuer_proof w) new_state"

definition apply_mint_finalize ::
  "crypto \<Rightarrow> StateRoot \<Rightarrow> IssuerPosition \<Rightarrow> b32 list \<Rightarrow> MintFinalizeWitness
     \<Rightarrow> (MintRejectReason, StateRoot) res" where
  "apply_mint_finalize C prev_state prev_issuer issuer_proof w =
     (if ip_issuer_id prev_issuer \<noteq> mf_issuer_id w then Err IssuerMismatch
      else rbind (issuer_in_state C (sr_issuer_positions_root prev_state) prev_issuer issuer_proof) (\<lambda>_.
      if ip_status prev_issuer \<noteq> IssuerActive then Err IssuerNotActive
      else let commitment = mint_commitment C (mf_requested_mint_atoms w)
             (mf_asset_metadata_commitment w) (mf_deposit_txid w) in
      rbind (ok_or (ip_pending_mint_commitment prev_issuer) NoPendingMint) (\<lambda>c.
      if c \<noteq> commitment then Err CommitMismatch
      else if \<not> mf_mint_anchor_confirmations w \<ge> DEPOSIT_MIN_CONFIRMATIONS then Err MintAnchorNotConfirmed
      else if \<not> mf_mint_proof_ok w then Err MintProofInvalid
      else
      rbind (ok_or (checked_add (sr_sat_usd_supply_atoms prev_state) (mf_requested_mint_atoms w)) Overflow) (\<lambda>post_supply.
      rbind (collateral_ratio_ppm (sr_reserve_btc_sats prev_state) post_supply (mf_oracle_price_e8 w)) (\<lambda>ratio.
      rbind (unwrap ratio) (\<lambda>cr.
      if \<not> cr \<ge> MIN_MINT_CR_PPM then Err (InsufficientCollateralAtFinalize cr)
      else if \<not> cr \<ge> TIER_HEALTHY_THRESHOLD_PPM then Err (TierNotHealthy cr)
      else
      rbind (issuer_after_finalize prev_issuer (mf_requested_mint_atoms w)) (\<lambda>exp_issuer.
      let expected = (next_state C prev_state MintFinalize)\<lparr>
            sr_sat_usd_supply_atoms := post_supply,
            sr_latest_oracle_price_e8 := mf_oracle_price_e8 w\<rparr> in
      rbind (set_state_tier expected (mf_oracle_price_e8 w)) (\<lambda>expected.
      rbind (root_after_update C (mf_issuer_id w) (issuer_position_hash C exp_issuer) issuer_proof) (\<lambda>root.
      Ok (expected\<lparr>sr_issuer_positions_root := root\<rparr>))))))))))"

definition verify_mint_finalize ::
  "crypto \<Rightarrow> StateRoot \<Rightarrow> StateRoot \<Rightarrow> IssuerPosition \<Rightarrow> b32 list \<Rightarrow> MintFinalizeWitness
     \<Rightarrow> (MintRejectReason, unit) res" where
  "verify_mint_finalize C prev_state new_state prev_issuer issuer_proof w =
     verified (apply_mint_finalize C prev_state prev_issuer issuer_proof w) new_state"

section \<open>Counting signers\<close>

interpretation mint_signers: signer_loop ms_signer_pubkey
  "\<lambda>k. k \<in> set (ip_multisig_pubkeys issuer)"
  "\<lambda>s. verify_ecdsa C sighash (ms_signer_pubkey s) (ms_signature s)"
  "multisig_step C sighash issuer" fst snd
  by unfold_locales (auto simp: multisig_step_def split: prod.splits)

lemma count_valid_multisig_card:
  "count_valid_multisig C sighash issuer sigs =
     card (ms_signer_pubkey ` {s \<in> set sigs. ms_signer_pubkey s \<in> set (ip_multisig_pubkeys issuer) \<and>
       verify_ecdsa C sighash (ms_signer_pubkey s) (ms_signature s)})"
  unfolding count_valid_multisig_def
  using mint_signers.tally_is_card [of "([], 0)" C sighash issuer sigs]
  by (simp add: mint_signers.signed_by_def)

section \<open>What is accepted\<close>

interpretation mint_executor: executor verified PostStateMismatch
  by unfold_locales (simp_all add: verified_def)

lemma issuer_in_state_Ok [res_simps]:
  "issuer_in_state C root issuer p = Ok u \<longleftrightarrow>
     verify_inclusion C root (ip_issuer_id issuer) (issuer_position_hash C issuer) p"
  by (simp add: issuer_in_state_def res_simps)

lemma root_after_update_Ok:
  "root_after_update C k v p = Ok r \<longleftrightarrow> HEIGHT \<le> length p \<and> r = fold_to_root C k (leaf_hash C k v) p"
  by (auto simp: root_after_update_def)

text \<open>The state's own ratio and tier fields, once they are set.\<close>

lemma set_state_tier_Ok:
  "(set_state_tier s p :: ('e, _) res) = Ok s' \<longleftrightarrow>
     (\<exists>cr tier. (collateral_ratio_ppm (sr_reserve_btc_sats s) (sr_sat_usd_supply_atoms s) p :: ('e, _) res) = Ok cr \<and>
        (recompute_tier (sr_reserve_btc_sats s) (sr_sat_usd_supply_atoms s) p :: ('e, _) res) = Ok tier \<and>
        s' = s\<lparr>sr_collateral_ratio_ppm := unwrap_or cr 0, sr_emergency_tier := emergency_tier_as_u8 tier\<rparr>)"
  by (auto simp: set_state_tier_def res_simps)

lemma min_mint_is_healthy: "MIN_MINT_CR_PPM \<le> cr \<Longrightarrow> TIER_HEALTHY_THRESHOLD_PPM \<le> cr"
  by (simp add: MIN_MINT_CR_PPM_def TIER_HEALTHY_THRESHOLD_PPM_def word_le_nat_alt)

lemma not_healthy_below_min: "cr < TIER_HEALTHY_THRESHOLD_PPM \<Longrightarrow> cr < MIN_MINT_CR_PPM"
  using min_mint_is_healthy [of cr] by (meson leD leI)

definition commit_guards ::
  "crypto \<Rightarrow> StateRoot \<Rightarrow> IssuerPosition \<Rightarrow> b32 list \<Rightarrow> MintCommitWitness \<Rightarrow> bool" where
  "commit_guards C s i p w \<longleftrightarrow>
     ip_issuer_id i = mc_issuer_id w \<and>
     verify_inclusion C (sr_issuer_positions_root s) (ip_issuer_id i) (issuer_position_hash C i) p \<and>
     ip_status i = IssuerActive \<and>
     reserve_committee_hash C (mc_reserve_committee_threshold w) (mc_reserve_committee_pubkeys w)
       = sr_reserve_committee_hash s \<and>
     verify_deposit_confirmation C (mc_deposit_confirmation w) (mc_deposit_txid w) (mc_deposit_sats w)
       (mc_reserve_committee_pubkeys w) (mc_reserve_committee_threshold w) 6 = Ok () \<and>
     unat (ip_multisig_threshold i) \<le> count_valid_multisig C (mint_request_sighash C (mc_issuer_id w)
       (mc_requested_mint_atoms w) (mc_deposit_sats w) (mc_deposit_txid w)
       (mc_asset_metadata_commitment w)) i (mc_signatures w) \<and>
     ip_pending_mint_commitment i = None \<and> 0 < mc_requested_mint_atoms w"

lemma apply_mint_commit_Ok:
  "apply_mint_commit C s i p w = Ok s' \<longleftrightarrow>
     commit_guards C s i p w \<and>
     (\<exists>r q cr i' t root.
        checked_add (sr_reserve_btc_sats s) (mc_deposit_sats w) = Some r \<and>
        checked_add (sr_sat_usd_supply_atoms s) (mc_requested_mint_atoms w) = Some q \<and>
        collateral_ratio_ppm r q (mc_oracle_price_e8 w) = (Ok (Some cr) :: (MintRejectReason, _) res) \<and>
        MIN_MINT_CR_PPM \<le> cr \<and>
        issuer_after_commit C i w = Ok i' \<and>
        set_state_tier ((next_state C s MintCommit)\<lparr>sr_reserve_btc_sats := r,
          sr_latest_oracle_price_e8 := mc_oracle_price_e8 w\<rparr>) (mc_oracle_price_e8 w)
            = (Ok t :: (MintRejectReason, _) res) \<and>
        root_after_update C (mc_issuer_id w) (issuer_position_hash C i') p
            = (Ok root :: (MintRejectReason, _) res) \<and>
        s' = t\<lparr>sr_issuer_positions_root := root\<rparr>)"
  unfolding apply_mint_commit_def commit_guards_def Let_def
  by (auto simp: res_simps not_le DEPOSIT_MIN_CONFIRMATIONS_def)

lemma apply_mint_finalize_Ok:
  "apply_mint_finalize C s i p w = Ok s' \<longleftrightarrow>
     ip_issuer_id i = mf_issuer_id w \<and>
     verify_inclusion C (sr_issuer_positions_root s) (ip_issuer_id i) (issuer_position_hash C i) p \<and>
     ip_status i = IssuerActive \<and>
     ip_pending_mint_commitment i = Some (mint_commitment C (mf_requested_mint_atoms w)
       (mf_asset_metadata_commitment w) (mf_deposit_txid w)) \<and>
     6 \<le> mf_mint_anchor_confirmations w \<and> mf_mint_proof_ok w \<and>
     (\<exists>q cr i' t root.
        checked_add (sr_sat_usd_supply_atoms s) (mf_requested_mint_atoms w) = Some q \<and>
        collateral_ratio_ppm (sr_reserve_btc_sats s) q (mf_oracle_price_e8 w)
            = (Ok (Some cr) :: (MintRejectReason, _) res) \<and>
        MIN_MINT_CR_PPM \<le> cr \<and>
        issuer_after_finalize i (mf_requested_mint_atoms w) = Ok i' \<and>
        set_state_tier ((next_state C s MintFinalize)\<lparr>sr_sat_usd_supply_atoms := q,
          sr_latest_oracle_price_e8 := mf_oracle_price_e8 w\<rparr>) (mf_oracle_price_e8 w)
            = (Ok t :: (MintRejectReason, _) res) \<and>
        root_after_update C (mf_issuer_id w) (issuer_position_hash C i') p
            = (Ok root :: (MintRejectReason, _) res) \<and>
        s' = t\<lparr>sr_issuer_positions_root := root\<rparr>)"
  unfolding apply_mint_finalize_def Let_def
  by (auto simp: res_simps not_le DEPOSIT_MIN_CONFIRMATIONS_def dest: min_mint_is_healthy)
    (order | (drule min_mint_is_healthy, order))+

section \<open>Collateral after a mint\<close>

lemma minted_ratio:
  assumes "(collateral_ratio_ppm r q p :: ('e, _) res) = Ok (Some cr)" and "MIN_MINT_CR_PPM \<le> cr"
  shows "2 * unat q * 10 ^ 14 \<le> unat r * unat p" and "q \<noteq> 0" and "unat cr = cr_nat r q p"
    and "(recompute_tier r q p :: ('f, _) res) = Ok Healthy"
proof -
  have q: "q \<noteq> 0" and cr: "unat cr = cr_nat r q p"
    using collateral_ratio_ppm_Some [OF assms(1)] by simp_all
  have two: "2000000 \<le> cr_nat r q p"
    using assms(2) cr by (simp add: MIN_MINT_CR_PPM_def word_le_nat_alt)
  have "0 < unat q * 10 ^ 14" using q by (simp add: unat_gt_0)
  then have "2000000 * (unat q * 10 ^ 14) \<le> unat r * unat p * 1000000"
    using two by (simp add: cr_nat_def less_eq_div_iff_mult_less_eq)
  then show "2 * unat q * 10 ^ 14 \<le> unat r * unat p" by (simp add: ac_simps)
  have "unat r * unat p * 1000000 < 2 ^ 128 \<and> cr_nat r q p < 2 ^ 64"
    using assms(1) q by (simp add: collateral_ratio_ppm_cases split: if_splits)
  then show "(recompute_tier r q p :: ('f, _) res) = Ok Healthy"
    using q two by (simp add: recompute_tier_cases)
  show "q \<noteq> 0" and "unat cr = cr_nat r q p" by (fact q, fact cr)
qed

lemma apply_mint_finalize_post:
  assumes "apply_mint_finalize C s i p w = Ok s'"
  shows "\<exists>q cr i'. unat q = unat (sr_sat_usd_supply_atoms s) + unat (mf_requested_mint_atoms w) \<and>
     2 * unat q * 10 ^ 14 \<le> unat (sr_reserve_btc_sats s) * unat (mf_oracle_price_e8 w) \<and>
     unat cr = cr_nat (sr_reserve_btc_sats s) q (mf_oracle_price_e8 w) \<and>
     issuer_after_finalize i (mf_requested_mint_atoms w) = Ok i' \<and>
     s' = s\<lparr>sr_state_epoch := sr_state_epoch s + 1,
       sr_prev_state_root := state_root_hash C s,
       sr_transition_type := 2,
       sr_sat_usd_supply_atoms := q,
       sr_collateral_ratio_ppm := cr,
       sr_emergency_tier := emergency_tier_as_u8 Healthy,
       sr_latest_oracle_price_e8 := mf_oracle_price_e8 w,
       sr_issuer_positions_root :=
         fold_to_root C (mf_issuer_id w) (leaf_hash C (mf_issuer_id w) (issuer_position_hash C i')) p\<rparr>"
proof -
  obtain q cr i' t root where
    q: "checked_add (sr_sat_usd_supply_atoms s) (mf_requested_mint_atoms w) = Some q" and
    cr: "(collateral_ratio_ppm (sr_reserve_btc_sats s) q (mf_oracle_price_e8 w)
            :: (MintRejectReason, _) res) = Ok (Some cr)" "MIN_MINT_CR_PPM \<le> cr" and
    i': "issuer_after_finalize i (mf_requested_mint_atoms w) = Ok i'" and
    t: "(set_state_tier ((next_state C s MintFinalize)\<lparr>sr_sat_usd_supply_atoms := q,
          sr_latest_oracle_price_e8 := mf_oracle_price_e8 w\<rparr>) (mf_oracle_price_e8 w)
            :: (MintRejectReason, _) res) = Ok t" and
    root: "(root_after_update C (mf_issuer_id w) (issuer_position_hash C i') p
            :: (MintRejectReason, _) res) = Ok root" and
    s': "s' = t\<lparr>sr_issuer_positions_root := root\<rparr>"
    using assms unfolding apply_mint_finalize_Ok by blast
  note r = minted_ratio [OF cr]
  have "unat q = unat (sr_sat_usd_supply_atoms s) + unat (mf_requested_mint_atoms w)"
    by (rule checked_add_unat [OF q])
  moreover have "t = (next_state C s MintFinalize)\<lparr>sr_sat_usd_supply_atoms := q,
      sr_latest_oracle_price_e8 := mf_oracle_price_e8 w,
      sr_collateral_ratio_ppm := cr, sr_emergency_tier := emergency_tier_as_u8 Healthy\<rparr>"
    using t r(4) [where 'f = MintRejectReason] cr(1) by (simp add: set_state_tier_Ok next_state_def)
  ultimately show ?thesis
    using r(1,3) i' root s'
    by (intro exI [of _ q] exI [of _ cr] exI [of _ i'])
      (simp add: next_state_def root_after_update_Ok)
qed

lemma apply_mint_commit_post:
  assumes "apply_mint_commit C s i p w = Ok s'"
  shows "\<exists>r cr tier i'. unat r = unat (sr_reserve_btc_sats s) + unat (mc_deposit_sats w) \<and>
     2 * (unat (sr_sat_usd_supply_atoms s) + unat (mc_requested_mint_atoms w)) * 10 ^ 14 \<le> unat r * unat (mc_oracle_price_e8 w) \<and>
     issuer_after_commit C i w = Ok i' \<and>
     (collateral_ratio_ppm r (sr_sat_usd_supply_atoms s) (mc_oracle_price_e8 w)
        :: (MintRejectReason, _) res) = Ok cr \<and>
     (recompute_tier r (sr_sat_usd_supply_atoms s) (mc_oracle_price_e8 w)
        :: (MintRejectReason, _) res) = Ok tier \<and>
     s' = s\<lparr>sr_state_epoch := sr_state_epoch s + 1,
       sr_prev_state_root := state_root_hash C s,
       sr_transition_type := 1,
       sr_reserve_btc_sats := r,
       sr_collateral_ratio_ppm := unwrap_or cr 0,
       sr_emergency_tier := emergency_tier_as_u8 tier,
       sr_latest_oracle_price_e8 := mc_oracle_price_e8 w,
       sr_issuer_positions_root :=
         fold_to_root C (mc_issuer_id w) (leaf_hash C (mc_issuer_id w) (issuer_position_hash C i')) p\<rparr>"
proof -
  obtain r q cr i' t root where
    r: "checked_add (sr_reserve_btc_sats s) (mc_deposit_sats w) = Some r" and
    q: "checked_add (sr_sat_usd_supply_atoms s) (mc_requested_mint_atoms w) = Some q" and
    cr: "(collateral_ratio_ppm r q (mc_oracle_price_e8 w) :: (MintRejectReason, _) res) = Ok (Some cr)"
      "MIN_MINT_CR_PPM \<le> cr" and
    i': "issuer_after_commit C i w = Ok i'" and
    t: "(set_state_tier ((next_state C s MintCommit)\<lparr>sr_reserve_btc_sats := r,
          sr_latest_oracle_price_e8 := mc_oracle_price_e8 w\<rparr>) (mc_oracle_price_e8 w)
            :: (MintRejectReason, _) res) = Ok t" and
    root: "(root_after_update C (mc_issuer_id w) (issuer_position_hash C i') p
            :: (MintRejectReason, _) res) = Ok root" and
    s': "s' = t\<lparr>sr_issuer_positions_root := root\<rparr>"
    using assms unfolding apply_mint_commit_Ok by blast
  obtain cr0 tier where
    "(collateral_ratio_ppm r (sr_sat_usd_supply_atoms s) (mc_oracle_price_e8 w)
        :: (MintRejectReason, _) res) = Ok cr0"
    "(recompute_tier r (sr_sat_usd_supply_atoms s) (mc_oracle_price_e8 w)
        :: (MintRejectReason, _) res) = Ok tier"
    "t = (next_state C s MintCommit)\<lparr>sr_reserve_btc_sats := r,
      sr_latest_oracle_price_e8 := mc_oracle_price_e8 w,
      sr_collateral_ratio_ppm := unwrap_or cr0 0, sr_emergency_tier := emergency_tier_as_u8 tier\<rparr>"
    using t by (auto simp: set_state_tier_Ok next_state_def)
  then show ?thesis
    using checked_add_unat [OF r] checked_add_unat [OF q] minted_ratio(1) [OF cr] i' root s'
    by (intro exI [of _ r] exI [of _ cr0] exI [of _ tier] exI [of _ i'])
      (simp add: next_state_def root_after_update_Ok)
qed

lemma issuer_after_finalize_Ok:
  "issuer_after_finalize i m = Ok i' \<longleftrightarrow>
     unat (ip_minted_satusd_atoms i) + unat m < 2 ^ 64 \<and> m \<le> ip_pending_mint_atoms i \<and>
     i' = i\<lparr>ip_minted_satusd_atoms := ip_minted_satusd_atoms i + m,
       ip_pending_mint_atoms := ip_pending_mint_atoms i - m, ip_pending_mint_commitment := None\<rparr>"
  by (auto simp: issuer_after_finalize_def res_simps checked_add_Some checked_sub_Some)

lemma issuer_after_commit_Ok:
  "issuer_after_commit C i w = Ok i' \<longleftrightarrow>
     unat (ip_reserve_deposits_sats i) + unat (mc_deposit_sats w) < 2 ^ 64 \<and>
     unat (ip_pending_mint_atoms i) + unat (mc_requested_mint_atoms w) < 2 ^ 64 \<and>
     i' = i\<lparr>ip_reserve_deposits_sats := ip_reserve_deposits_sats i + mc_deposit_sats w,
       ip_pending_mint_atoms := ip_pending_mint_atoms i + mc_requested_mint_atoms w,
       ip_last_deposit_txid := Some (mc_deposit_txid w),
       ip_pending_mint_commitment := Some (mint_commitment C (mc_requested_mint_atoms w)
         (mc_asset_metadata_commitment w) (mc_deposit_txid w))\<rparr>"
  by (auto simp: issuer_after_commit_def res_simps checked_add_Some)

lemma tier_not_healthy_unreachable: "apply_mint_finalize C s i p w \<noteq> Err (TierNotHealthy cr)"
  unfolding apply_mint_finalize_def Let_def issuer_in_state_def issuer_after_finalize_def
    set_state_tier_def root_after_update_def
  by (auto simp: res_simps not_le dest: not_healthy_below_min)

section \<open>Properties\<close>

text \<open>An issuer with a committed mint of 500 atoms, and the finalization of that mint.\<close>

definition sample_committed_issuer :: IssuerPosition where
  "sample_committed_issuer =
     sample_issuer\<lparr>ip_pending_mint_atoms := 500, ip_pending_mint_commitment := Some (fill 0)\<rparr>"

definition sample_mint_finalize :: MintFinalizeWitness where
  "sample_mint_finalize =
     \<lparr>mf_issuer_id = fill 0, mf_requested_mint_atoms = 500, mf_deposit_txid = fill 0,
      mf_asset_metadata_commitment = fill 0, mf_mint_anchor_confirmations = 6, mf_mint_proof_ok = True,
      mf_oracle_price_e8 = 10000000000000\<rparr>"

definition sample_path :: "b32 list" where
  "sample_path = replicate HEIGHT (fill 0)"

lemmas sample_mint_defs = sample_committed_issuer_def sample_mint_finalize_def sample_path_def
  sample_issuer_def sample_state_def

text \<open>
  C4: an accepted MINT_FINALIZE adds exactly the requested atoms to the supply, keeps the reserve,
  and leaves the system with at least 200 percent of collateral at the quoted price, in tier
  Healthy.
\<close>
lemma mint_finalize_overcollateralised:
  assumes "verify_mint_finalize C s s' i p w = Ok ()"
  shows "unat (sr_sat_usd_supply_atoms s') = unat (sr_sat_usd_supply_atoms s) + unat (mf_requested_mint_atoms w) \<and>
     sr_reserve_btc_sats s' = sr_reserve_btc_sats s \<and>
     2 * unat (sr_sat_usd_supply_atoms s') * 10 ^ 14
       \<le> unat (sr_reserve_btc_sats s') * unat (mf_oracle_price_e8 w) \<and>
     (recompute_tier (sr_reserve_btc_sats s') (sr_sat_usd_supply_atoms s') (mf_oracle_price_e8 w)
        :: (MintRejectReason, _) res) = Ok Healthy \<and> sr_emergency_tier s' = 0"
proof -
  have a: "apply_mint_finalize C s i p w = Ok s'"
    using assms unfolding verify_mint_finalize_def mint_executor.accepted_iff .
  obtain q cr t root where
    c: "(collateral_ratio_ppm (sr_reserve_btc_sats s) q (mf_oracle_price_e8 w) :: (MintRejectReason, _) res) = Ok (Some cr)"
      "MIN_MINT_CR_PPM \<le> cr" and
    t: "(set_state_tier ((next_state C s MintFinalize)\<lparr>sr_sat_usd_supply_atoms := q,
          sr_latest_oracle_price_e8 := mf_oracle_price_e8 w\<rparr>) (mf_oracle_price_e8 w)
            :: (MintRejectReason, _) res) = Ok t" and
    s': "s' = t\<lparr>sr_issuer_positions_root := root\<rparr>"
    using a unfolding apply_mint_finalize_Ok by blast
  have "sr_reserve_btc_sats s' = sr_reserve_btc_sats s" "sr_sat_usd_supply_atoms s' = q"
    using t by (auto simp: s' set_state_tier_Ok next_state_def)
  with apply_mint_finalize_post [OF a] minted_ratio(4) [OF c] show ?thesis by auto
qed

lemma mint_finalize_overcollateralised_witness:
  "\<exists>s'. verify_mint_finalize const_crypto sample_state s' sample_committed_issuer sample_path
     sample_mint_finalize = Ok () \<and> unat (sr_sat_usd_supply_atoms s') = 1000500"
proof -
  have "\<exists>s'. apply_mint_finalize const_crypto sample_state sample_committed_issuer sample_path
      sample_mint_finalize = Ok s'"
    by (simp add: apply_mint_finalize_def sample_mint_defs issuer_in_state_def verify_inclusion_def
        mint_commitment_def tagged_hash_def checked_add_def checked_sub_def collateral_ratio_ppm_cases
        recompute_tier_cases cr_nat_def set_state_tier_def next_state_def issuer_after_finalize_def
        root_after_update_def DEPOSIT_MIN_CONFIRMATIONS_def MIN_MINT_CR_PPM_def TIER_HEALTHY_THRESHOLD_PPM_def)
  then obtain s' where "apply_mint_finalize const_crypto sample_state sample_committed_issuer sample_path
      sample_mint_finalize = Ok s'" ..
  then have a: "verify_mint_finalize const_crypto sample_state s' sample_committed_issuer sample_path
      sample_mint_finalize = Ok ()"
    by (simp add: verify_mint_finalize_def mint_executor.accepted_iff)
  then show ?thesis
    using mint_finalize_overcollateralised [OF a] by (auto simp: sample_mint_defs)
qed

section \<open>A deposit and what can be done with it\<close>

definition sample_mint_commit :: MintCommitWitness where
  "sample_mint_commit =
     \<lparr>mc_issuer_id = fill 0, mc_requested_mint_atoms = 500, mc_deposit_txid = fill 0,
      mc_deposit_sats = 1000000, mc_asset_metadata_commitment = fill 0,
      mc_signatures = [\<lparr>ms_signer_pubkey = fill 1, ms_signature = fill 0\<rparr>],
      mc_oracle_price_e8 = 10000000000000, mc_deposit_confirmation = sample_paid_deposit,
      mc_reserve_committee_pubkeys = [], mc_reserve_committee_threshold = 0\<rparr>"

definition sample_signing_issuer :: IssuerPosition where
  "sample_signing_issuer = sample_issuer\<lparr>ip_multisig_pubkeys := [fill 1], ip_multisig_threshold := 1\<rparr>"

lemma sample_commit_guards:
  assumes "sr_reserve_committee_hash s = fill 0" and "sr_issuer_positions_root s = fr_to_be_bytes 1"
  shows "commit_guards const_crypto s sample_signing_issuer sample_path sample_mint_commit"
  using sample_deposit_accepted assms
  by (simp add: commit_guards_def sample_mint_commit_def sample_signing_issuer_def sample_issuer_def
      verify_inclusion_def sample_path_def reserve_committee_hash_def tagged_hash_def
      count_valid_multisig_def multisig_step_def verify_ecdsa_def)

lemma commit_guards_replay:
  assumes "apply_mint_commit C s i p w = Ok s'" and "issuer_after_commit C i w = Ok i'"
    and "apply_mint_finalize C s' i' p' v = Ok s''"
    and "issuer_after_finalize i' (mf_requested_mint_atoms v) = Ok i''"
  shows "commit_guards C s'' i'' p' w"
proof -
  have g: "commit_guards C s i p w" using assms(1) by (simp add: apply_mint_commit_Ok)
  have "sr_reserve_committee_hash s'' = sr_reserve_committee_hash s'"
    using assms(3) by (auto simp: apply_mint_finalize_Ok set_state_tier_Ok next_state_def)
  also have "... = sr_reserve_committee_hash s"
    using assms(1) by (auto simp: apply_mint_commit_Ok set_state_tier_Ok next_state_def)
  finally have committee: "sr_reserve_committee_hash s'' = sr_reserve_committee_hash s" .
  have same: "ip_issuer_id i'' = ip_issuer_id i" "ip_issuer_id i' = ip_issuer_id i" "ip_status i'' = ip_status i"
    "ip_multisig_threshold i'' = ip_multisig_threshold i" "ip_multisig_pubkeys i'' = ip_multisig_pubkeys i"
    "ip_pending_mint_commitment i'' = None"
    using assms(2,4) by (auto simp: issuer_after_commit_def issuer_after_finalize_def res_simps Let_def)
  have "multisig_step C h i'' = multisig_step C h i" for h
    by (intro ext) (simp add: multisig_step_def same)
  then have "count_valid_multisig C h i'' sigs = count_valid_multisig C h i sigs" for h sigs
    by (simp add: count_valid_multisig_def)
  moreover have "verify_inclusion C (sr_issuer_positions_root s'') (ip_issuer_id i'') (issuer_position_hash C i'') p'"
    using assms(3,4) same(1,2) by (auto simp: apply_mint_finalize_Ok verify_inclusion_def root_after_update_Ok)
  ultimately show ?thesis using g committee same by (simp add: commit_guards_def)
qed

lemma commit_refusals:
  assumes "commit_guards C s i p w" and "apply_mint_commit C s i p w = Err e"
  shows "e = Overflow \<or> (\<exists>cr. e = InsufficientCollateralAtCommit cr)"
proof -
  note defs = ok_or_def res_simps
  have tier: "(set_state_tier t q :: (MintRejectReason, _) res) \<noteq> Err e" for t q
    by (auto simp: set_state_tier_def res_simps)
  have "(root_after_update C k x p :: (MintRejectReason, _) res) \<noteq> Err e" for k x
    by (simp add: root_after_update_def)
  moreover have "issuer_after_commit C i w = Err e \<Longrightarrow> e = Overflow"
    by (auto simp: issuer_after_commit_def res_simps Let_def)
  ultimately show ?thesis
    using assms tier
    by (auto simp: apply_mint_commit_def commit_guards_def issuer_in_state_def res_simps Let_def
        DEPOSIT_MIN_CONFIRMATIONS_def split: if_splits)
qed

text \<open>
  C18: MINT_COMMIT never asks whether its deposit was credited before: once a commit and its
  finalization are accepted, the same commit, with the same deposit and the same signatures, can be
  refused for the issuer's new position only by an overflow or for want of collateral; and with sums
  that fit and the ratio still at 200 percent it is accepted, and the one deposit counts twice.
\<close>
lemma deposit_replayable:
  assumes "apply_mint_commit C s i p w = Ok s'" and "issuer_after_commit C i w = Ok i'"
    and "apply_mint_finalize C s' i' p' v = Ok s''"
    and "issuer_after_finalize i' (mf_requested_mint_atoms v) = Ok i''"
    and "R = sr_reserve_btc_sats s'' + mc_deposit_sats w" "Q = sr_sat_usd_supply_atoms s'' + mc_requested_mint_atoms w"
  shows "(case apply_mint_commit C s'' i'' p' w of
      Err e \<Rightarrow> e = Overflow \<or> (\<exists>cr. e = InsufficientCollateralAtCommit cr) | _ \<Rightarrow> True)
    \<and> (unat (sr_reserve_btc_sats s) + 2 * unat (mc_deposit_sats w) < 2 ^ 64
        \<and> unat (sr_sat_usd_supply_atoms s'') + unat (mc_requested_mint_atoms w) < 2 ^ 64
        \<and> unat (ip_reserve_deposits_sats i'') + unat (mc_deposit_sats w) < 2 ^ 64
        \<and> unat (ip_pending_mint_atoms i'') + unat (mc_requested_mint_atoms w) < 2 ^ 64
        \<and> unat R * unat (mc_oracle_price_e8 w) * 1000000 < 2 ^ 128
        \<and> cr_nat R (sr_sat_usd_supply_atoms s'') (mc_oracle_price_e8 w) < 2 ^ 64
        \<and> 2000000 \<le> cr_nat R Q (mc_oracle_price_e8 w) \<longrightarrow>
      (\<exists>s3. apply_mint_commit C s'' i'' p' w = Ok s3
        \<and> unat (sr_reserve_btc_sats s3) = unat (sr_reserve_btc_sats s) + 2 * unat (mc_deposit_sats w)))"
proof (intro conjI impI)
  note g = commit_guards_replay [OF assms(1-4)]
  show "case apply_mint_commit C s'' i'' p' w of
      Err e \<Rightarrow> e = Overflow \<or> (\<exists>cr. e = InsufficientCollateralAtCommit cr) | _ \<Rightarrow> True"
    using commit_refusals [OF g] by (auto split: res.split)
  assume fits: "unat (sr_reserve_btc_sats s) + 2 * unat (mc_deposit_sats w) < 2 ^ 64
        \<and> unat (sr_sat_usd_supply_atoms s'') + unat (mc_requested_mint_atoms w) < 2 ^ 64
        \<and> unat (ip_reserve_deposits_sats i'') + unat (mc_deposit_sats w) < 2 ^ 64
        \<and> unat (ip_pending_mint_atoms i'') + unat (mc_requested_mint_atoms w) < 2 ^ 64
        \<and> unat R * unat (mc_oracle_price_e8 w) * 1000000 < 2 ^ 128
        \<and> cr_nat R (sr_sat_usd_supply_atoms s'') (mc_oracle_price_e8 w) < 2 ^ 64
        \<and> 2000000 \<le> cr_nat R Q (mc_oracle_price_e8 w)"
  have reserve: "unat (sr_reserve_btc_sats s'') = unat (sr_reserve_btc_sats s) + unat (mc_deposit_sats w)"
    using apply_mint_commit_post [OF assms(1)] apply_mint_finalize_post [OF assms(3)] by fastforce
  have R: "checked_add (sr_reserve_btc_sats s'') (mc_deposit_sats w) = Some R" "unat R = unat (sr_reserve_btc_sats s) + 2 * unat (mc_deposit_sats w)"
    using fits reserve by (simp_all add: assms(5) checked_add_def unat_word_ariths)
  have Q: "checked_add (sr_sat_usd_supply_atoms s'') (mc_requested_mint_atoms w) = Some Q" "unat Q = unat (sr_sat_usd_supply_atoms s'') + unat (mc_requested_mint_atoms w)"
    using fits by (simp_all add: assms(6) checked_add_def unat_word_ariths)
  have minted: "sr_sat_usd_supply_atoms s'' \<noteq> 0"
    using assms(3) by (auto simp: apply_mint_finalize_Ok set_state_tier_Ok next_state_def dest: collateral_ratio_ppm_Some)
  then have less: "sr_sat_usd_supply_atoms s'' \<le> Q" "Q \<noteq> 0" using Q(2) by (auto simp: word_le_nat_alt unat_eq_zero)
  have mono: "cr_nat R Q (mc_oracle_price_e8 w) \<le> cr_nat R (sr_sat_usd_supply_atoms s'') (mc_oracle_price_e8 w)"
    using less(1) minted by (intro cr_nat_mono) simp_all
  then have cr: "(collateral_ratio_ppm R Q (mc_oracle_price_e8 w) :: (MintRejectReason, _) res)
      = Ok (Some (word_of_nat (cr_nat R Q (mc_oracle_price_e8 w))))"
    "MIN_MINT_CR_PPM \<le> (word_of_nat (cr_nat R Q (mc_oracle_price_e8 w)) :: u64)"
    using fits less(2) by (simp_all add: collateral_ratio_ppm_cases MIN_MINT_CR_PPM_def word_le_nat_alt unat_word_of_nat)
  obtain i3 where i3: "issuer_after_commit C i'' w = Ok i3"
    using fits by (simp add: issuer_after_commit_def checked_add_def Let_def)
  obtain t where t: "(set_state_tier ((next_state C s'' MintCommit)\<lparr>sr_reserve_btc_sats := R,
      sr_latest_oracle_price_e8 := mc_oracle_price_e8 w\<rparr>) (mc_oracle_price_e8 w) :: (MintRejectReason, _) res) = Ok t"
    "sr_reserve_btc_sats t = R"
    using fits minted by (simp add: set_state_tier_def next_state_def collateral_ratio_ppm_cases recompute_tier_cases)
  obtain root where root: "(root_after_update C (mc_issuer_id w) (issuer_position_hash C i3) p' :: (MintRejectReason, _) res) = Ok root"
    using g by (simp add: commit_guards_def verify_inclusion_def root_after_update_def)
  have "apply_mint_commit C s'' i'' p' w = Ok (t\<lparr>sr_issuer_positions_root := root\<rparr>)"
    unfolding apply_mint_commit_Ok using g R(1) Q(1) cr i3 t(1) root by blast
  then show "\<exists>s3. apply_mint_commit C s'' i'' p' w = Ok s3
      \<and> unat (sr_reserve_btc_sats s3) = unat (sr_reserve_btc_sats s) + 2 * unat (mc_deposit_sats w)"
    using t(2) R(2) by simp
qed

lemma deposit_replayable_witness:
  "\<exists>s'' i'' s3. apply_mint_commit const_crypto s'' i'' sample_path sample_mint_commit = Ok s3 \<and>
     unat (ip_minted_satusd_atoms i'') = 500 \<and> unat (sr_reserve_btc_sats s'') = 1001000000
     \<and> unat (sr_reserve_btc_sats s3) = 1002000000"
proof -
  let ?i = sample_signing_issuer
  let ?i' = "?i\<lparr>ip_reserve_deposits_sats := 1000000, ip_pending_mint_atoms := 500,
    ip_last_deposit_txid := Some (fill 0), ip_pending_mint_commitment := Some (fill 0)\<rparr>"
  let ?i'' = "?i'\<lparr>ip_minted_satusd_atoms := 500, ip_pending_mint_atoms := 0, ip_pending_mint_commitment := None\<rparr>"
  note defs = sample_mint_commit_def sample_signing_issuer_def sample_mint_defs mint_commitment_def
    tagged_hash_def checked_add_def checked_sub_def
  have 1: "issuer_after_commit const_crypto ?i sample_mint_commit = Ok ?i'"
    by (simp add: issuer_after_commit_def defs)
  have 2: "issuer_after_finalize ?i' (mf_requested_mint_atoms sample_mint_finalize) = Ok ?i''"
    by (simp add: issuer_after_finalize_def defs)
  obtain s' where c: "apply_mint_commit const_crypto sample_state ?i sample_path sample_mint_commit = Ok s'"
    and s': "sr_reserve_btc_sats s' = 1001000000" "sr_sat_usd_supply_atoms s' = 1000000"
      "sr_issuer_positions_root s' = fr_to_be_bytes 1"
    using sample_commit_guards [of sample_state] 1
    by (auto simp: apply_mint_commit_Ok sample_state_def sample_mint_commit_def checked_add_def
        collateral_ratio_ppm_cases recompute_tier_cases cr_nat_def set_state_tier_def next_state_def
        root_after_update_def sample_path_def MIN_MINT_CR_PPM_def TIER_HEALTHY_THRESHOLD_PPM_def)
  obtain s'' where f: "apply_mint_finalize const_crypto s' ?i' sample_path sample_mint_finalize = Ok s''"
    and s'': "sr_reserve_btc_sats s'' = 1001000000" "sr_issuer_positions_root s'' = fr_to_be_bytes 1" "sr_sat_usd_supply_atoms s'' = 1000500"
    using 2 s'
    by (auto simp: apply_mint_finalize_Ok defs verify_inclusion_def
        collateral_ratio_ppm_cases recompute_tier_cases cr_nat_def set_state_tier_def next_state_def
        root_after_update_def MIN_MINT_CR_PPM_def TIER_HEALTHY_THRESHOLD_PPM_def)
  have "\<exists>s3. apply_mint_commit const_crypto s'' ?i'' sample_path sample_mint_commit = Ok s3
      \<and> unat (sr_reserve_btc_sats s3) = unat (sr_reserve_btc_sats sample_state) + 2 * unat (mc_deposit_sats sample_mint_commit)"
    using deposit_replayable [OF c 1 f 2 refl refl] s''
    by (simp add: defs sample_state_def cr_nat_def)
  then obtain s3 where "apply_mint_commit const_crypto s'' ?i'' sample_path sample_mint_commit = Ok s3"
    "unat (sr_reserve_btc_sats s3) = 1002000000" by (auto simp: sample_state_def sample_mint_commit_def)
  moreover have "unat (ip_minted_satusd_atoms ?i'') = 500" "unat (sr_reserve_btc_sats s'') = 1001000000" using s''(1) by simp_all
  ultimately show ?thesis by blast
qed

end
