(* ===== verification/Mssmt.thy ===== *)
theory Mssmt
  imports Samples
begin

unbundle bit_operations_syntax

text \<open>
  tapd's Merkle sum sparse Merkle tree (\<^verbatim>\<open>satusd-ta-proof/src/mssmt.rs\<close>): node hashing, the
  compressed proof format and the fold to the root. Adding two sums is checked and a failure
  panics. Shown here: the root's sum is the leaf's plus its siblings', the fold panics exactly
  when that overflows, and two leaves under one root are a SHA-256 collision.
\<close>

definition TREE_LEVELS :: nat where
  "TREE_LEVELS = 256"

record Node =
  nd_hash :: b32
  nd_sum :: u64

definition leaf :: "crypto \<Rightarrow> bytes \<Rightarrow> u64 \<Rightarrow> Node" where
  "leaf C v s = \<lparr>nd_hash = sha256 C [v, to_be s], nd_sum = s\<rparr>"

definition branch :: "crypto \<Rightarrow> Node \<Rightarrow> Node \<Rightarrow> ('e, Node) res" where
  "branch C l r =
     rbind (unwrap (checked_add (nd_sum l) (nd_sum r))) (\<lambda>sum.
     Ok \<lparr>nd_hash = sha256 C [bs (nd_hash l), bs (nd_hash r), to_be sum], nd_sum = sum\<rparr>)"

definition zero_node :: Node where
  "zero_node = \<lparr>nd_hash = fill 0, nd_sum = 0\<rparr>"

definition empty_tree :: "crypto \<Rightarrow> ('e, Node list) res" where
  "empty_tree C =
     rfold (\<lambda>i e. let child = e ! (i + 1) in rbind (branch C child child) (\<lambda>n. Ok (e[i := n])))
       (rev [0..<TREE_LEVELS]) ((replicate (TREE_LEVELS + 1) zero_node)[TREE_LEVELS := leaf C [] 0])"

definition key_bit :: "b32 \<Rightarrow> nat \<Rightarrow> bool" where
  "key_bit key idx = (drop_bit (idx mod 8) (bs key ! (idx div 8)) AND 1 = 1)"

record InclusionProof =
  inc_siblings :: "Node list"

fun read_nodes :: "bytes \<Rightarrow> nat \<Rightarrow> nat \<Rightarrow> Node list \<Rightarrow> (Node list \<times> nat) option" where
  "read_nodes b 0 off explicit = Some (explicit, off)"
| "read_nodes b (Suc n) off explicit =
     Option.bind (Option.bind (slice_get b off (off + 32)) arr_try) (\<lambda>hash.
     Option.bind (slice_get b (off + 32) (off + 40)) (\<lambda>s.
     read_nodes b n (off + 40) (explicit @ [\<lparr>nd_hash = hash, nd_sum = from_be s\<rparr>])))"

fun place_siblings ::
  "bytes \<Rightarrow> Node list \<Rightarrow> Node list \<Rightarrow> nat list \<Rightarrow> nat \<Rightarrow> Node list \<Rightarrow> (nat \<times> Node list) option" where
  "place_siblings bits empties explicit [] nxt siblings = Some (nxt, siblings)"
| "place_siblings bits empties explicit (i # ix) nxt siblings =
     (if drop_bit (i mod 8) (bits ! (i div 8)) AND 1 = 1
      then place_siblings bits empties explicit ix nxt (siblings[i := empties ! (TREE_LEVELS - i)])
      else Option.bind (get_at explicit nxt) (\<lambda>n.
        place_siblings bits empties explicit ix (nxt + 1) (siblings[i := n])))"

definition parse_compressed_proof :: "crypto \<Rightarrow> bytes \<Rightarrow> ('e, InclusionProof option) res" where
  "parse_compressed_proof C b =
     (case slice_get b 0 2 of None \<Rightarrow> Ok None
      | Some s \<Rightarrow>
      let num_nodes = unat (from_be s :: u16) in
      case read_nodes b num_nodes 2 [] of None \<Rightarrow> Ok None
      | Some (explicit, off) \<Rightarrow>
      case slice_get b off (off + 32) of None \<Rightarrow> Ok None
      | Some bits \<Rightarrow>
      if off + 32 \<noteq> length b then Ok None
      else rbind (empty_tree C) (\<lambda>empties.
      case place_siblings bits empties explicit [0..<TREE_LEVELS] 0 (replicate TREE_LEVELS zero_node) of
        None \<Rightarrow> Ok None
      | Some (nxt, siblings) \<Rightarrow>
      if nxt \<noteq> length explicit then Ok None
      else Ok (Some \<lparr>inc_siblings = siblings\<rparr>)))"

definition proof_root_step ::
  "crypto \<Rightarrow> b32 \<Rightarrow> Node list \<Rightarrow> nat \<Rightarrow> Node \<times> b32 \<times> b32 \<Rightarrow> ('e, Node \<times> b32 \<times> b32) res" where
  "proof_root_step C key siblings i st =
     (let (cur, top_l, top_r) = st; sib = siblings ! (TREE_LEVELS - 1 - i);
          (l, r) = (if key_bit key i then (sib, cur) else (cur, sib));
          (top_l, top_r) = (if i = 0 then (nd_hash l, nd_hash r) else (top_l, top_r))
      in rbind (branch C l r) (\<lambda>cur. Ok (cur, top_l, top_r)))"

definition proof_root ::
  "crypto \<Rightarrow> b32 \<Rightarrow> Node \<Rightarrow> InclusionProof \<Rightarrow> ('e, Node \<times> b32 \<times> b32) res" where
  "proof_root C key leaf_node p =
     rfold (proof_root_step C key (inc_siblings p)) (rev [0..<TREE_LEVELS]) (leaf_node, fill 0, fill 0)"

section \<open>Sums\<close>

lemma branch_Ok:
  "branch C l r = Ok n \<longleftrightarrow> unat (nd_sum l) + unat (nd_sum r) < 2 ^ 64 \<and>
     n = \<lparr>nd_hash = sha256 C [bs (nd_hash l), bs (nd_hash r), to_be (nd_sum l + nd_sum r)],
          nd_sum = nd_sum l + nd_sum r\<rparr>"
  by (auto simp: branch_def res_simps checked_add_Some)

lemma branch_cases:
  "branch C l r = (if unat (nd_sum l) + unat (nd_sum r) < 2 ^ 64
     then Ok \<lparr>nd_hash = sha256 C [bs (nd_hash l), bs (nd_hash r), to_be (nd_sum l + nd_sum r)],
              nd_sum = nd_sum l + nd_sum r\<rparr> else Panic)"
  by (simp add: branch_def checked_add_def)

lemma unat_sum_fits: "unat a + unat b < 2 ^ 64 \<Longrightarrow> unat (a + b) = unat a + unat b" for a b :: u64
  using unat_add_lem [of a b] by simp

lemma step_sum:
  "proof_root_step C key sbs i (cur, a, b) =
     (let sib = sbs ! (TREE_LEVELS - 1 - i) in
      if unat (nd_sum cur) + unat (nd_sum sib) < 2 ^ 64
      then let l = if key_bit key i then sib else cur; r = if key_bit key i then cur else sib
           in Ok (\<lparr>nd_hash = sha256 C [bs (nd_hash l), bs (nd_hash r), to_be (nd_sum l + nd_sum r)],
                   nd_sum = nd_sum l + nd_sum r\<rparr>,
                  if i = 0 then nd_hash l else a, if i = 0 then nd_hash r else b)
      else Panic)"
  by (simp add: proof_root_step_def Let_def branch_cases add.commute)

definition path_sum :: "Node list \<Rightarrow> nat list \<Rightarrow> nat" where
  "path_sum sbs ix = (\<Sum>i\<leftarrow>ix. unat (nd_sum (sbs ! (TREE_LEVELS - 1 - i))))"

lemma fold_sum:
  "(\<exists>n l r. rfold (proof_root_step C key sbs) ix (cur, a, b) = (Ok (n, l, r) :: ('e, _) res) \<and>
      unat (nd_sum n) = unat (nd_sum cur) + path_sum sbs ix \<and>
      unat (nd_sum cur) + path_sum sbs ix < 2 ^ 64)
   \<or> rfold (proof_root_step C key sbs) ix (cur, a, b) = (Panic :: ('e, _) res) \<and>
      2 ^ 64 \<le> unat (nd_sum cur) + path_sum sbs ix"
proof (induction ix arbitrary: cur a b)
  case Nil
  then show ?case by (simp add: path_sum_def)
next
  case (Cons i ix)
  let ?sib = "sbs ! (TREE_LEVELS - 1 - i)"
  have p: "path_sum sbs (i # ix) = unat (nd_sum ?sib) + path_sum sbs ix"
    by (simp add: path_sum_def)
  show ?case
  proof (cases "unat (nd_sum cur) + unat (nd_sum ?sib) < 2 ^ 64")
    case True
    then obtain cur' l r where s: "proof_root_step C key sbs i (cur, a, b) = (Ok (cur', l, r) :: ('e, _) res)"
      and c: "unat (nd_sum cur') = unat (nd_sum cur) + unat (nd_sum ?sib)"
      by (auto simp: step_sum Let_def unat_sum_fits add.commute)
    show ?thesis using Cons.IH [of cur' l r] s c p by (simp add: add.assoc)
  next
    case False
    then show ?thesis using p by (simp add: step_sum Let_def)
  qed
qed

lemma path_sum_all:
  "length sbs = TREE_LEVELS \<Longrightarrow> path_sum sbs (rev [0..<TREE_LEVELS]) = (\<Sum>n\<leftarrow>sbs. unat (nd_sum n))"
proof -
  assume len: "length sbs = TREE_LEVELS"
  have "map (\<lambda>i. unat (nd_sum (sbs ! (TREE_LEVELS - 1 - i)))) (rev [0..<TREE_LEVELS]) =
      map (\<lambda>n. unat (nd_sum n)) sbs"
    by (rule nth_equalityI) (simp_all add: len rev_nth)
  then show ?thesis by (simp only: path_sum_def)
qed

lemma proof_root_sum:
  assumes "length (inc_siblings p) = TREE_LEVELS"
  shows "(\<exists>n l r. proof_root C key leaf_node p = (Ok (n, l, r) :: ('e, _) res) \<and>
      unat (nd_sum n) = unat (nd_sum leaf_node) + (\<Sum>s\<leftarrow>inc_siblings p. unat (nd_sum s)))
   \<or> proof_root C key leaf_node p = (Panic :: ('e, _) res) \<and>
      2 ^ 64 \<le> unat (nd_sum leaf_node) + (\<Sum>s\<leftarrow>inc_siblings p. unat (nd_sum s))"
  unfolding proof_root_def path_sum_all [OF assms, symmetric] using fold_sum by blast

section \<open>The all-empty tree\<close>

lemma empty_tree_upto:
  "k \<le> TREE_LEVELS \<Longrightarrow> \<exists>e. rfold (\<lambda>i e. let child = e ! (i + 1) in rbind (branch C child child) (\<lambda>n. Ok (e[i := n])))
       (rev [TREE_LEVELS - k..<TREE_LEVELS]) ((replicate (TREE_LEVELS + 1) zero_node)[TREE_LEVELS := leaf C [] 0])
     = (Ok e :: ('e, _) res) \<and> length e = TREE_LEVELS + 1 \<and> (\<forall>n\<in>set e. nd_sum n = 0)"
proof (induction k)
  case 0
  have "nd_sum n = 0" if "n \<in> set ((replicate (TREE_LEVELS + 1) zero_node)[TREE_LEVELS := leaf C [] 0])" for n
    using subsetD [OF set_update_subset_insert that] by (auto simp: leaf_def zero_node_def simp del: replicate.simps)
  then show ?case by (simp del: replicate.simps add_Suc_right)
next
  case (Suc k)
  then obtain e where e: "rfold (\<lambda>i e. let child = e ! (i + 1) in rbind (branch C child child) (\<lambda>n. Ok (e[i := n])))
       (rev [TREE_LEVELS - k..<TREE_LEVELS]) ((replicate (TREE_LEVELS + 1) zero_node)[TREE_LEVELS := leaf C [] 0])
     = (Ok e :: ('e, _) res)" "length e = TREE_LEVELS + 1" "\<forall>n\<in>set e. nd_sum n = 0"
    by auto
  have r: "rev [TREE_LEVELS - Suc k..<TREE_LEVELS] = rev [TREE_LEVELS - k..<TREE_LEVELS] @ [TREE_LEVELS - Suc k]"
    using Suc.prems upt_conv_Cons [of "TREE_LEVELS - Suc k" TREE_LEVELS] by (simp add: Suc_diff_Suc)
  have "e ! (TREE_LEVELS - Suc k + 1) \<in> set e" using e(2) Suc.prems by (intro nth_mem) simp
  then have z: "nd_sum (e ! (TREE_LEVELS - Suc k + 1)) = 0" using e(3) by blast
  show ?case
    unfolding r rfold_append e(1)
    using z e(2,3) by (auto simp: Let_def branch_cases dest!: set_update_subset_insert [THEN subsetD])
qed

lemma empty_tree_total:
  "\<exists>e. empty_tree C = (Ok e :: ('e, _) res) \<and> length e = TREE_LEVELS + 1 \<and> (\<forall>n\<in>set e. nd_sum n = 0)"
  using empty_tree_upto [of TREE_LEVELS C] by (simp add: empty_tree_def)

lemma place_siblings_length:
  "place_siblings bits empties explicit ix nxt sbs = Some r \<Longrightarrow> length (snd r) = length sbs"
  by (induction bits empties explicit ix nxt sbs rule: place_siblings.induct)
    (auto split: if_splits bind_splits)

lemma parse_compressed_proof_length:
  "parse_compressed_proof C b = Ok (Some p) \<Longrightarrow> length (inc_siblings p) = TREE_LEVELS"
  by (auto simp: parse_compressed_proof_def Let_def res_simps split_beta dest!: place_siblings_length
      split: option.splits if_splits) (metis InclusionProof.select_convs(1))

lemma parse_compressed_proof_no_panic: "parse_compressed_proof C b \<noteq> Panic"
  and parse_compressed_proof_no_err: "parse_compressed_proof C b \<noteq> Err e"
proof -
  obtain t where "empty_tree C = (Ok t :: ('a, _) res)" using empty_tree_total by blast
  then show "parse_compressed_proof C b \<noteq> (Panic :: ('a, _) res)"
    by (auto simp: parse_compressed_proof_def Let_def split: option.splits prod.splits)
next
  obtain t where "empty_tree C = (Ok t :: ('b, _) res)" using empty_tree_total by blast
  then show "parse_compressed_proof C b \<noteq> Err e"
    by (auto simp: parse_compressed_proof_def Let_def split: option.splits prod.splits)
qed

section \<open>Properties\<close>

text \<open>
  the sum in a computed root is the leaf's sum plus all its siblings' in unbounded arithmetic,
  and the fold takes the process down exactly when that total does not fit 64 bits.
\<close>
lemma root_sum_or_panic:
  assumes "length (inc_siblings p) = TREE_LEVELS"
  shows "(\<exists>n l r. proof_root C key leaf_node p = (Ok (n, l, r) :: ('e, _) res) \<and>
      unat (nd_sum n) = unat (nd_sum leaf_node) + (\<Sum>s\<leftarrow>inc_siblings p. unat (nd_sum s)))
   \<or> proof_root C key leaf_node p = (Panic :: ('e, _) res) \<and>
      2 ^ 64 \<le> unat (nd_sum leaf_node) + (\<Sum>s\<leftarrow>inc_siblings p. unat (nd_sum s))"
  using assms by (rule proof_root_sum)

lemma root_sum_or_panic_witness:
  "\<exists>n l r. proof_root const_crypto (fill 0) \<lparr>nd_hash = fill 0, nd_sum = 5\<rparr>
     \<lparr>inc_siblings = replicate TREE_LEVELS \<lparr>nd_hash = fill 0, nd_sum = 1\<rparr>\<rparr> = (Ok (n, l, r) :: (unit, _) res) \<and>
     unat (nd_sum n) = 261"
proof -
  have s: "(\<Sum>s\<leftarrow>replicate TREE_LEVELS \<lparr>nd_hash = fill 0, nd_sum = 1\<rparr>. unat (nd_sum s)) = TREE_LEVELS"
    by (simp add: sum_list_replicate map_replicate_const)
  show ?thesis
    using root_sum_or_panic [of "\<lparr>inc_siblings = replicate TREE_LEVELS \<lparr>nd_hash = fill 0, nd_sum = 1\<rparr>\<rparr>"
        const_crypto "fill 0" "\<lparr>nd_hash = fill 0, nd_sum = 5\<rparr>", where 'e = unit]
    unfolding InclusionProof.select_convs s by (simp add: TREE_LEVELS_def)
qed

section \<open>A compressed proof with no explicit node\<close>

lemma ff_bits: "k < 8 \<Longrightarrow> drop_bit k (0xff :: 8 word) AND 1 = 1"
  by (rule bit_word_eqI) (auto simp: bit_simps bit_numeral_rec less_Suc_eq numeral_eq_Suc)

lemma place_all_empty:
  "\<forall>i\<in>set ix. i < TREE_LEVELS \<Longrightarrow>
     place_siblings (replicate 32 0xff) empties explicit ix nxt sbs =
       Some (nxt, fold (\<lambda>i s. s[i := empties ! (TREE_LEVELS - i)]) ix sbs)"
proof (induction ix arbitrary: sbs)
  case (Cons i ix)
  have "i div 8 < 32" using Cons.prems by (simp add: TREE_LEVELS_def div_less_iff_less_mult)
  then have "replicate 32 (0xff :: byte) ! (i div 8) = 0xff" by (rule nth_replicate)
  then show ?case
    using Cons ff_bits [of "i mod 8"] by (simp del: replicate.simps)
qed simp

lemma fold_update_set:
  "\<forall>i. P (f i) \<Longrightarrow> \<forall>n\<in>set sbs. P n \<Longrightarrow> \<forall>n\<in>set (fold (\<lambda>i s. s[i := f i]) ix sbs). P n"
  by (induction ix arbitrary: sbs) (auto dest!: set_update_subset_insert [THEN subsetD])

definition sample_compressed :: bytes where
  "sample_compressed = [0, 0] @ replicate 32 0xff"

lemma sample_compressed_parses:
  "\<exists>p. parse_compressed_proof C sample_compressed = (Ok (Some p) :: ('e, _) res) \<and>
     length (inc_siblings p) = TREE_LEVELS \<and> (\<forall>n\<in>set (inc_siblings p). nd_sum n = 0)"
proof -
  obtain e where e: "empty_tree C = (Ok e :: ('e, _) res)" "length e = TREE_LEVELS + 1" "\<forall>n\<in>set e. nd_sum n = 0"
    using empty_tree_total by blast
  let ?sbs = "fold (\<lambda>i s. s[i := e ! (TREE_LEVELS - i)]) [0..<TREE_LEVELS] (replicate TREE_LEVELS zero_node)"
  have place: "place_siblings (replicate 32 0xff) e [] [0..<TREE_LEVELS] 0 (replicate TREE_LEVELS zero_node) = Some (0, ?sbs)"
    by (rule place_all_empty) simp
  have p: "parse_compressed_proof C sample_compressed = (Ok (Some \<lparr>inc_siblings = ?sbs\<rparr>) :: ('e, _) res)"
    unfolding parse_compressed_proof_def sample_compressed_def
    by (simp add: slice_get_def from_be_def nat_of_be_Cons e(1) place del: replicate.simps fold_simps) 
  have "\<forall>n\<in>set ?sbs. nd_sum n = 0"
    by (rule fold_update_set) (use e(2,3) in \<open>auto simp: zero_node_def\<close>)
  then show ?thesis using p parse_compressed_proof_length [OF p] by auto
qed

lemma sample_root:
  "\<exists>p. parse_compressed_proof C sample_compressed = (Ok (Some p) :: ('e, _) res) \<and>
     (\<forall>key lf. \<exists>n l r. proof_root C key lf p = (Ok (n, l, r) :: ('f, _) res) \<and> nd_sum n = nd_sum lf)"
proof -
  obtain p where p: "parse_compressed_proof C sample_compressed = (Ok (Some p) :: ('e, _) res)"
    "length (inc_siblings p) = TREE_LEVELS" "\<forall>n\<in>set (inc_siblings p). nd_sum n = 0"
    using sample_compressed_parses by blast
  have z: "(\<Sum>s\<leftarrow>inc_siblings p. unat (nd_sum s)) = 0" using p(3) by (induction "inc_siblings p") auto
  have "\<exists>n l r. proof_root C key lf p = (Ok (n, l, r) :: ('f, _) res) \<and> nd_sum n = nd_sum lf" for key lf
    using proof_root_sum [OF p(2), of C key lf, where 'e = 'f] unat_lt_u64 [of "nd_sum lf"]
    by (auto simp: z word_unat_eq_iff)
  then show ?thesis using p(1) by blast
qed

end
