(* ===== verification/TaProof.thy ===== *)
theory TaProof
  imports Mssmt
begin

unbundle bit_operations_syntax

text \<open>
  The Taproot Asset proof verifier (\<^verbatim>\<open>satusd-ta-proof/src/lib.rs\<close>): the cursor with its canonical
  BigSize reader, TLV streams, the proof file's hash chain, the asset leaf and commitment
  structures, on-chain anchoring, the output key reconstruction and the lineage check. Shown
  here: parsing loses nothing, encoding is parsed back, and what an accepted lineage commits.
\<close>

section \<open>Errors and structures\<close>

datatype ProofError =
    Truncated
  | BadFileMagic
  | BadProofMagic
  | ChecksumMismatch
  | TrailingBytes
  | NonCanonicalBigSize
  | TlvOutOfOrder
  | BadAnchorTx
  | AnchorMerkleMismatch
  | OutputIndexOutOfRange
  | NotP2tr
  | BadFieldLength
  | CommitmentMismatch
  | UnsupportedTapVersion
  | LineageBroken
  | EmptyLineage
  | BadTapSibling

definition FILE_MAGIC :: bytes where
  "FILE_MAGIC = ascii ''TAPF''"

definition PROOF_MAGIC :: bytes where
  "PROOF_MAGIC = ascii ''TAPP''"

record ProofFile =
  pf_version :: u32
  pf_proofs :: "bytes list"

type_synonym tlv_records = "(u64 \<times> bytes) list"

record Proof =
  prf_records :: tlv_records

record Genesis =
  gen_first_prev_out_txid :: b32
  gen_first_prev_out_vout :: u32
  gen_tag :: bytes
  gen_meta_hash :: b32
  gen_output_index :: u32
  gen_asset_type :: u8

record AssetLeaf =
  al_version :: u8
  al_genesis :: Genesis
  al_asset_type :: u8
  al_amount :: u64
  al_script_version :: u16
  al_script_key :: bytes
  al_group_key :: "bytes option"

record TaprootProof =
  tp_output_index :: u32
  tp_internal_key :: bytes
  tp_commitment_proof :: "bytes option"
  tp_tapscript_proof :: "bytes option"

record AssetProof =
  asp_version :: u8
  asp_asset_id :: bytes
  asp_mssmt_proof :: bytes

record TaprootAssetProof =
  tap_version :: u8
  tap_mssmt_proof :: bytes

record CommitmentProof =
  cpf_asset_proof :: AssetProof
  cpf_taproot_asset_proof :: TaprootAssetProof
  cpf_tap_sibling :: "bytes option"

record AnchorInfo =
  ai_txid :: b32
  ai_output_index :: u32
  ai_taproot_output_key :: b32

section \<open>The cursor\<close>

record Cursor =
  cu_b :: bytes
  cu_i :: usize

definition cursor :: "bytes \<Rightarrow> Cursor" where
  "cursor b = \<lparr>cu_b = b, cu_i = 0\<rparr>"

definition take_n :: "Cursor \<Rightarrow> usize \<Rightarrow> (ProofError, bytes \<times> Cursor) res" where
  "take_n c n =
     rbind (ok_or (checked_add (cu_i c) n) Truncated) (\<lambda>end.
     rbind (ok_or (slice_get (cu_b c) (unat (cu_i c)) (unat end)) Truncated) (\<lambda>s.
     Ok (s, c\<lparr>cu_i := end\<rparr>)))"

definition u32_be :: "Cursor \<Rightarrow> (ProofError, u32 \<times> Cursor) res" where
  "u32_be c = rbind (take_n c 4) (\<lambda>(s, c). Ok (from_be s, c))"

definition bigsize :: "Cursor \<Rightarrow> (ProofError, u64 \<times> Cursor) res" where
  "bigsize c =
     rbind (take_n c 1) (\<lambda>(s, c).
     let first = s ! 0 in
     if first = 0xff then
       rbind (take_n c 8) (\<lambda>(s, c). let x = from_be s in
         if x < 0x100000000 then Err NonCanonicalBigSize else Ok (x, c))
     else if first = 0xfe then
       rbind (take_n c 4) (\<lambda>(s, c). let x = ucast (from_be s :: u32) in
         if x < 0x10000 then Err NonCanonicalBigSize else Ok (x, c))
     else if first = 0xfd then
       rbind (take_n c 2) (\<lambda>(s, c). let x = ucast (from_be s :: u16) in
         if x < 0xfd then Err NonCanonicalBigSize else Ok (x, c))
     else Ok (ucast first, c))"

definition write_bigsize :: "u64 \<Rightarrow> bytes" where
  "write_bigsize v =
     (if v < 0xfd then [ucast v]
      else if v \<le> 0xffff then 0xfd # to_be (ucast v :: u16)
      else if v \<le> 0xffffffff then 0xfe # to_be (ucast v :: u32)
      else 0xff # to_be v)"

definition cursor_len :: "bytes \<Rightarrow> usize" where
  "cursor_len b = word_of_nat (length b)"

text \<open>What the cursor consumes: the bytes between two positions of one buffer.\<close>

lemma take_n_Ok:
  "take_n c n = Ok (s, c') \<longleftrightarrow>
     unat (cu_i c) + unat n \<le> length (cu_b c) \<and> unat (cu_i c) + unat n < 2 ^ 64 \<and>
     s = take (unat n) (drop (unat (cu_i c)) (cu_b c)) \<and> c' = c\<lparr>cu_i := cu_i c + n\<rparr>"
  using unat_add_lem [of "cu_i c" n]
  by (auto simp: take_n_def res_simps checked_add_Some slice_get_def)

definition consumes :: "Cursor \<Rightarrow> bytes \<Rightarrow> Cursor \<Rightarrow> bool" where
  "consumes c s c' \<longleftrightarrow>
     cu_b c' = cu_b c \<and> unat (cu_i c') = unat (cu_i c) + length s \<and> unat (cu_i c') \<le> length (cu_b c) \<and>
     s = take (length s) (drop (unat (cu_i c)) (cu_b c))"

lemma take_n_consumes: "take_n c n = Ok (s, c') \<Longrightarrow> consumes c s c' \<and> length s = unat n"
  using unat_add_lem [of "cu_i c" n] by (auto simp: take_n_Ok consumes_def)

lemma consumes_measure:
  "consumes c s c' \<Longrightarrow> s \<noteq> [] \<Longrightarrow>
     length (cu_b c') - unat (cu_i c') < length (cu_b c) - unat (cu_i c)"
  by (auto simp: consumes_def neq_Nil_conv)

lemma take_n_no_panic: "take_n c n \<noteq> Panic"
  by (auto simp: take_n_def res_simps)

lemma consumes_append: "consumes c s c' \<Longrightarrow> consumes c' t c'' \<Longrightarrow> consumes c (s @ t) c''"
  by (auto simp: consumes_def take_add add.commute)

lemma bigsize_no_panic: "bigsize c \<noteq> Panic"
  by (auto simp: bigsize_def res_simps take_n_no_panic Let_def split: prod.splits if_splits)

lemma ucast_down_up:
  "(ucast (ucast (a :: u32) :: u64) :: u32) = a" "(ucast (ucast (b :: u16) :: u64) :: u16) = b"
  "(ucast (ucast (d :: u8) :: u64) :: u8) = d"
  by (rule bit_word_eqI, auto simp: bit_simps)+

lemma singleton_of_length: "length s = Suc 0 \<Longrightarrow> s = [s ! 0]"
  by (cases s) auto

text \<open>A BigSize is read only from its own encoding.\<close>

lemma bigsize_consumes:
  assumes "bigsize c = Ok (v, c')"
  shows "consumes c (write_bigsize v) c'"
proof -
  obtain s c1 where s: "take_n c 1 = Ok (s, c1)"
    using assms by (auto simp: bigsize_def res_simps)
  have c1: "consumes c s c1" "length s = Suc 0" using take_n_consumes [OF s] by simp_all
  define first where "first = s ! 0"
  have s1: "s = [first]" unfolding first_def by (rule singleton_of_length [OF c1(2)])
  have rest: "(if first = 0xff then
       rbind (take_n c1 8) (\<lambda>(s, c). let x = from_be s in
         if x < 0x100000000 then Err NonCanonicalBigSize else Ok (x, c))
     else if first = 0xfe then
       rbind (take_n c1 4) (\<lambda>(s, c). let x = ucast (from_be s :: u32) in
         if x < 0x10000 then Err NonCanonicalBigSize else Ok (x, c))
     else if first = 0xfd then
       rbind (take_n c1 2) (\<lambda>(s, c). let x = ucast (from_be s :: u16) in
         if x < 0xfd then Err NonCanonicalBigSize else Ok (x, c))
     else Ok (ucast first, c1)) = Ok (v, c')"
    using assms s unfolding bigsize_def first_def by (simp add: Let_def)
  consider "first = 0xff" | "first = 0xfe" | "first = 0xfd" | "first \<noteq> 0xff" "first \<noteq> 0xfe" "first \<noteq> 0xfd"
    by blast
  then show ?thesis
  proof cases
    case 1
    then obtain t where t: "take_n c1 8 = Ok (t, c')" "v = from_be t" "\<not> v < 0x100000000"
      using rest by (auto simp: res_simps Let_def)
    have u: "consumes c1 t c'" "length t = 8" using take_n_consumes [OF t(1)] by simp_all
    have "to_be v = t" using u(2) t(2) by (simp add: to_be_from_be)
    moreover have "write_bigsize v = 0xff # to_be v"
      using t(3) by (auto simp: write_bigsize_def word_less_nat_alt word_le_nat_alt)
    ultimately show ?thesis using consumes_append [OF c1(1) u(1)] s1 1 by simp
  next
    case 2
    then obtain t where t: "take_n c1 4 = Ok (t, c')" "v = ucast (from_be t :: u32)" "\<not> v < 0x10000"
      using rest by (auto simp: res_simps Let_def)
    have u: "consumes c1 t c'" "length t = 4" using take_n_consumes [OF t(1)] by simp_all
    have "ucast v = (from_be t :: u32)" using t(2) by (simp only: ucast_down_up)
    then have "to_be (ucast v :: u32) = t" using u(2) by (simp add: to_be_from_be)
    moreover have "write_bigsize v = 0xfe # to_be (ucast v :: u32)"
    proof -
      have "unat v < 4294967296" using t(2) by simp
      then show ?thesis
        using t(3) by (auto simp: write_bigsize_def word_less_nat_alt word_le_nat_alt)
    qed
    ultimately show ?thesis using consumes_append [OF c1(1) u(1)] s1 2 by simp
  next
    case 3
    then obtain t where t: "take_n c1 2 = Ok (t, c')" "v = ucast (from_be t :: u16)" "\<not> v < 0xfd"
      using rest by (auto simp: res_simps Let_def)
    have u: "consumes c1 t c'" "length t = 2" using take_n_consumes [OF t(1)] by simp_all
    have "ucast v = (from_be t :: u16)" using t(2) by (simp only: ucast_down_up)
    then have "to_be (ucast v :: u16) = t" using u(2) by (simp add: to_be_from_be)
    moreover have "write_bigsize v = 0xfd # to_be (ucast v :: u16)"
    proof -
      have "unat v < 65536" using t(2) by simp
      then show ?thesis
        using t(3) by (auto simp: write_bigsize_def word_less_nat_alt word_le_nat_alt)
    qed
    ultimately show ?thesis using consumes_append [OF c1(1) u(1)] s1 3 by simp
  next
    case 4
    then have v: "v = ucast first" "c' = c1" using rest by simp_all
    have "unat first \<noteq> 255" "unat first \<noteq> 254" "unat first \<noteq> 253"
      using 4 by (auto simp: word_unat_eq_iff)
    then have "unat first < 253" using unat_lt_u8 [of first] by linarith
    then have "v < 0xfd" by (simp add: v(1) word_less_nat_alt)
    then have "write_bigsize v = [first]"
      by (simp add: write_bigsize_def v(1) ucast_down_up)
    then show ?thesis using c1(1) s1 v(2) by simp
  qed
qed

lemma length_write_bigsize: "0 < length (write_bigsize v)"
  by (simp add: write_bigsize_def)

section \<open>TLV streams and proof blobs\<close>

text \<open>\<^verbatim>\<open>parse_tlv\<close>'s loop: \<open>prev\<close> is \<^verbatim>\<open>last\<close>; every turn consumes at least the two BigSizes.\<close>

definition out_of_order :: "u64 option \<Rightarrow> u64 \<Rightarrow> bool" where
  "out_of_order prev ty = (case prev of None \<Rightarrow> False | Some last_ty \<Rightarrow> ty \<le> last_ty)"

function tlv_loop :: "Cursor \<Rightarrow> u64 option \<Rightarrow> tlv_records \<Rightarrow> (ProofError, tlv_records) res" where
  "tlv_loop c prev records =
     (if \<not> cu_i c < cursor_len (cu_b c) then Ok records
      else rbind (bigsize c) (\<lambda>p. let ty = fst p; c = snd p in
      if out_of_order prev ty then Err TlvOutOfOrder
      else rbind (bigsize c) (\<lambda>p. let len = fst p; c = snd p in
      rbind (take_n c len) (\<lambda>p. let value = fst p; c = snd p in
      tlv_loop c (Some ty) (records @ [(ty, value)])))))"
  by pat_completeness auto
termination
proof (relation "measure (\<lambda>(c, prev, records). length (cu_b c) - unat (cu_i c))")
  fix c :: Cursor and prev records p ty c1 p2 len c2 p3 v c3
  assume a: "bigsize c = Ok p" "c1 = snd p" "bigsize c1 = Ok p2" "c2 = snd p2"
    "take_n c2 len = Ok p3" "c3 = snd p3"
  have "consumes c (write_bigsize (fst p)) c1" "consumes c1 (write_bigsize (fst p2)) c2" "consumes c2 (fst p3) c3"
    using a bigsize_consumes take_n_consumes by (metis prod.collapse)+
  then have "consumes c ((write_bigsize (fst p) @ write_bigsize (fst p2)) @ fst p3) c3"
    by (blast intro: consumes_append)
  then show "((c3, Some ty, records @ [(ty, v)]), (c, prev, records)) \<in>
      measure (\<lambda>(c, prev, records). length (cu_b c) - unat (cu_i c))"
    using consumes_measure length_write_bigsize [of "fst p"] by auto
qed simp

declare tlv_loop.simps [simp del]

definition parse_tlv :: "bytes \<Rightarrow> (ProofError, tlv_records) res" where
  "parse_tlv data = tlv_loop (cursor data) None []"

definition bigsize_exact :: "bytes \<Rightarrow> (ProofError, u64) res" where
  "bigsize_exact v =
     rbind (bigsize (cursor v)) (\<lambda>(x, c).
     if cu_i c \<noteq> cursor_len v then Err TrailingBytes else Ok x)"

definition parse_proof :: "bytes \<Rightarrow> (ProofError, Proof) res" where
  "parse_proof blob =
     (if slice_get blob 0 4 \<noteq> Some PROOF_MAGIC then
        if length blob < 4 then Err Truncated else Err BadProofMagic
      else rbind (parse_tlv (drop 4 blob)) (\<lambda>records. Ok \<lparr>prf_records = records\<rparr>))"

definition tlv_get :: "tlv_records \<Rightarrow> u64 \<Rightarrow> bytes option" where
  "tlv_get records ty = map_option snd (find (\<lambda>(t, _). t = ty) records)"

definition proof_get :: "Proof \<Rightarrow> u64 \<Rightarrow> bytes option" where
  "proof_get p ty = tlv_get (prf_records p) ty"

definition u32_field :: "Proof \<Rightarrow> u64 \<Rightarrow> u32 option" where
  "u32_field p ty =
     Option.bind (proof_get p ty) (\<lambda>v. if length v = 4 then Some (from_be v) else None)"

definition proof_version :: "Proof \<Rightarrow> u32 option" where
  "proof_version p = u32_field p 0"

definition block_height :: "Proof \<Rightarrow> u32 option" where
  "block_height p = u32_field p 22"

definition write_record :: "u64 \<times> bytes \<Rightarrow> bytes" where
  "write_record r = write_bigsize (fst r) @ write_bigsize (word_of_nat (length (snd r))) @ snd r"

definition reencode :: "Proof \<Rightarrow> bytes" where
  "reencode p = PROOF_MAGIC @ concat (map write_record (prf_records p))"

section \<open>The proof file\<close>

fun file_loop ::
  "crypto \<Rightarrow> nat \<Rightarrow> Cursor \<Rightarrow> b32 \<Rightarrow> bytes list \<Rightarrow> (ProofError, bytes list \<times> Cursor) res" where
  "file_loop C 0 c prev_hash proofs = Ok (proofs, c)"
| "file_loop C (Suc n) c prev_hash proofs =
     rbind (bigsize c) (\<lambda>(len, c).
     rbind (take_n c len) (\<lambda>(blob, c).
     if slice_get blob 0 4 \<noteq> Some PROOF_MAGIC then Err BadProofMagic
     else rbind (take_n c 32) (\<lambda>(checksum, c).
     let h = sha256 C [bs prev_hash, blob] in
     if bs h \<noteq> checksum then Err ChecksumMismatch
     else file_loop C n c h (proofs @ [blob]))))"

text \<open>\<^verbatim>\<open>Vec::with_capacity(count)\<close> of 16-byte slices panics beyond \<^verbatim>\<open>isize::MAX\<close> bytes.\<close>

definition parse_proof_file :: "crypto \<Rightarrow> bytes \<Rightarrow> (ProofError, ProofFile) res" where
  "parse_proof_file C data =
     rbind (take_n (cursor data) 4) (\<lambda>(magic, c).
     if magic \<noteq> FILE_MAGIC then Err BadFileMagic
     else rbind (u32_be c) (\<lambda>(version, c).
     rbind (bigsize c) (\<lambda>(count, c).
     if unat count * 16 \<ge> 2 ^ 63 then Panic
     else rbind (file_loop C (unat count) c (fill 0) []) (\<lambda>(proofs, c).
     if cu_i c \<noteq> cursor_len data then Err TrailingBytes
     else Ok \<lparr>pf_version = version, pf_proofs = proofs\<rparr>))))"

definition parsed :: "ProofFile \<Rightarrow> (ProofError, Proof list) res" where
  "parsed f = rmap parse_proof (pf_proofs f)"

section \<open>The asset leaf and the commitment structures\<close>

definition asset_id :: "crypto \<Rightarrow> Genesis \<Rightarrow> b32" where
  "asset_id C g = sha256 C [bs (gen_first_prev_out_txid g), to_le (gen_first_prev_out_vout g),
     bs (sha256 C [gen_tag g]), bs (gen_meta_hash g), to_be (gen_output_index g), [gen_asset_type g]]"

definition parse_genesis :: "bytes \<Rightarrow> (ProofError, Genesis) res" where
  "parse_genesis v =
     rbind (take_n (cursor v) 32) (\<lambda>(txid, c).
     rbind (u32_be c) (\<lambda>(vout, c).
     rbind (bigsize c) (\<lambda>(tag_len, c).
     rbind (take_n c tag_len) (\<lambda>(tag, c).
     rbind (take_n c 32) (\<lambda>(meta, c).
     rbind (u32_be c) (\<lambda>(output_index, c).
     rbind (take_n c 1) (\<lambda>(ty, c).
     if cu_i c \<noteq> cursor_len v then Err TrailingBytes
     else Ok \<lparr>gen_first_prev_out_txid = barr_of txid, gen_first_prev_out_vout = vout,
       gen_tag = tag, gen_meta_hash = barr_of meta, gen_output_index = output_index,
       gen_asset_type = ty ! 0\<rparr>)))))))"

definition fixed_len :: "nat \<Rightarrow> ProofError \<Rightarrow> bytes \<Rightarrow> (ProofError, bytes) res" where
  "fixed_len n e v = (if length v = n then Ok v else Err e)"

definition parse_asset_leaf :: "bytes \<Rightarrow> (ProofError, AssetLeaf) res" where
  "parse_asset_leaf v =
     rbind (parse_tlv v) (\<lambda>recs.
     let req = (\<lambda>t. ok_or (tlv_get recs t) Truncated) in
     rbind (rbind (req 0) (fixed_len 1 Truncated)) (\<lambda>version.
     rbind (rbind (req 2) parse_genesis) (\<lambda>genesis.
     rbind (rbind (req 4) (fixed_len 1 Truncated)) (\<lambda>ty.
     rbind (rbind (req 6) bigsize_exact) (\<lambda>amount.
     rbind (rbind (req 14) (fixed_len 2 Truncated)) (\<lambda>script_version.
     rbind (req 16) (\<lambda>script_key.
     Ok \<lparr>al_version = version ! 0, al_genesis = genesis, al_asset_type = ty ! 0,
       al_amount = amount, al_script_version = from_be script_version,
       al_script_key = script_key, al_group_key = tlv_get recs 17\<rparr>)))))))"

definition proof_asset_leaf :: "Proof \<Rightarrow> (ProofError, AssetLeaf) res" where
  "proof_asset_leaf p = rbind (ok_or (proof_get p 10) Truncated) parse_asset_leaf"

definition u8_field :: "bytes \<Rightarrow> (ProofError, u8) res" where
  "u8_field v = rbind (fixed_len 1 BadFieldLength v) (\<lambda>b. Ok (b ! 0))"

definition parse_commitment_proof :: "bytes \<Rightarrow> (ProofError, CommitmentProof) res" where
  "parse_commitment_proof v =
     rbind (parse_tlv v) (\<lambda>recs.
     rbind (rbind (ok_or (tlv_get recs 1) Truncated) parse_tlv) (\<lambda>ap.
     rbind (rbind (ok_or (tlv_get ap 0) Truncated) u8_field) (\<lambda>ap_version.
     rbind (ok_or (tlv_get ap 2) Truncated) (\<lambda>ap_asset_id.
     rbind (ok_or (tlv_get ap 4) Truncated) (\<lambda>ap_mssmt.
     rbind (rbind (ok_or (tlv_get recs 2) Truncated) parse_tlv) (\<lambda>tp.
     rbind (rbind (ok_or (tlv_get tp 0) Truncated) u8_field) (\<lambda>tp_version.
     rbind (ok_or (tlv_get tp 2) Truncated) (\<lambda>tp_mssmt.
     Ok \<lparr>cpf_asset_proof = \<lparr>asp_version = ap_version, asp_asset_id = ap_asset_id,
           asp_mssmt_proof = ap_mssmt\<rparr>,
         cpf_taproot_asset_proof = \<lparr>tap_version = tp_version, tap_mssmt_proof = tp_mssmt\<rparr>,
         cpf_tap_sibling = tlv_get recs 5\<rparr>))))))))"

definition parse_commitment :: "TaprootProof \<Rightarrow> (ProofError, CommitmentProof) res option" where
  "parse_commitment t = map_option parse_commitment_proof (tp_commitment_proof t)"

definition parse_taproot_proof :: "bytes \<Rightarrow> (ProofError, TaprootProof) res" where
  "parse_taproot_proof v =
     rbind (parse_tlv v) (\<lambda>recs.
     rbind (rbind (ok_or (tlv_get recs 0) Truncated) (fixed_len 4 BadFieldLength)) (\<lambda>output_index.
     rbind (ok_or (tlv_get recs 2) Truncated) (\<lambda>internal_key.
     Ok \<lparr>tp_output_index = from_be output_index, tp_internal_key = internal_key,
         tp_commitment_proof = tlv_get recs 3, tp_tapscript_proof = tlv_get recs 5\<rparr>)))"

text \<open>\<open>None\<close> where the source returns early with \<^verbatim>\<open>.ok()?\<close> or \<^verbatim>\<open>None\<close>.\<close>

definition split_committed_leaf_bytes :: "bytes \<Rightarrow> bytes option" where
  "split_committed_leaf_bytes asset_leaf_bytes =
     Option.bind (ok_opt (parse_tlv asset_leaf_bytes)) (\<lambda>recs.
     Option.bind (tlv_get recs 11) (\<lambda>pw.
     Option.bind (ok_opt (bigsize (cursor pw))) (\<lambda>(count, c).
     if count \<noteq> 1 then None
     else Option.bind (ok_opt (bigsize c)) (\<lambda>(wlen, c).
     Option.bind (ok_opt (take_n c wlen)) (\<lambda>(witness, c).
     if cu_i c \<noteq> cursor_len pw then None
     else Option.bind (ok_opt (parse_tlv witness)) (\<lambda>wrecs.
     let has = (\<lambda>t. list_ex (\<lambda>r. fst r = t) wrecs) in
     if \<not> (has 1 \<and> \<not> has 3 \<and> has 5) then None
     else let
       new_witness = concat (map write_record (filter (\<lambda>r. fst r \<noteq> 5) wrecs));
       new_pw = write_bigsize 1 @ write_bigsize (word_of_nat (length new_witness)) @ new_witness
     in Some (concat (map (\<lambda>r. write_record (fst r, if fst r = 11 then new_pw else snd r)) recs))))))))"

section \<open>On-chain anchoring\<close>

definition ta_dsha256 :: "crypto \<Rightarrow> bytes list \<Rightarrow> b32" where
  "ta_dsha256 C parts = sha256 C [bs (sha256 C parts)]"

record TxMerkleProof =
  tm_nodes :: "bytes list"
  tm_bits_packed :: bytes

definition tm_bit :: "TxMerkleProof \<Rightarrow> nat \<Rightarrow> bool" where
  "tm_bit p i =
     (let byte = unwrap_or (get_at (tm_bits_packed p) (i div 8)) 0
      in drop_bit (i mod 8) byte AND 1 = 1)"

definition tm_root :: "crypto \<Rightarrow> TxMerkleProof \<Rightarrow> b32 \<Rightarrow> b32" where
  "tm_root C p txid =
     fold (\<lambda>(i, node) cur.
       if tm_bit p i then ta_dsha256 C [bs cur, node] else ta_dsha256 C [node, bs cur])
       (enumerate 0 (tm_nodes p)) txid"

fun take_nodes :: "nat \<Rightarrow> Cursor \<Rightarrow> bytes list \<Rightarrow> (ProofError, bytes list \<times> Cursor) res" where
  "take_nodes 0 c nodes = Ok (nodes, c)"
| "take_nodes (Suc n) c nodes =
     rbind (take_n c 32) (\<lambda>(node, c). take_nodes n c (nodes @ [node]))"

text \<open>\<^verbatim>\<open>n.div_ceil(8)\<close> does not overflow.\<close>

definition parse_tx_merkle_proof :: "bytes \<Rightarrow> (ProofError, TxMerkleProof) res" where
  "parse_tx_merkle_proof v =
     rbind (bigsize (cursor v)) (\<lambda>(n, c).
     if unat n * 16 \<ge> 2 ^ 63 then Panic
     else rbind (take_nodes (unat n) c []) (\<lambda>(nodes, c).
     rbind (take_n c (n div 8 + (if n mod 8 = 0 then 0 else 1))) (\<lambda>(bits_packed, c).
     if cu_i c \<noteq> cursor_len v then Err TrailingBytes
     else Ok \<lparr>tm_nodes = nodes, tm_bits_packed = bits_packed\<rparr>)))"

definition verify_anchor :: "crypto \<Rightarrow> Proof \<Rightarrow> (ProofError, AnchorInfo) res" where
  "verify_anchor C p =
     rbind (ok_or (proof_get p 4) Truncated) (\<lambda>header.
     if length header \<noteq> 80 then Err BadFieldLength
     else let merkle_root = barr_of (sub header 36 68) in
     rbind (ok_or (proof_get p 6) Truncated) (\<lambda>tx_bytes.
     rbind (ok_or (c_tx_decode C tx_bytes) BadAnchorTx) (\<lambda>tx.
     let txid = tx_txid tx in
     rbind (rbind (ok_or (proof_get p 8) Truncated) parse_tx_merkle_proof) (\<lambda>mp.
     if tm_root C mp txid \<noteq> merkle_root then Err AnchorMerkleMismatch
     else
     rbind (rbind (ok_or (proof_get p 12) Truncated) parse_taproot_proof) (\<lambda>tp.
     rbind (ok_or (get_at (tx_output_spks tx) (unat (tp_output_index tp))) OutputIndexOutOfRange) (\<lambda>spk.
     if \<not> c_is_p2tr C spk then Err NotP2tr
     else if length spk \<noteq> 34 then Err BadFieldLength
     else Ok \<lparr>ai_txid = txid, ai_output_index = tp_output_index tp,
              ai_taproot_output_key = barr_of (sub spk 2 34)\<rparr>))))))"

section \<open>The output key\<close>

definition ta_tagged_hash :: "crypto \<Rightarrow> string \<Rightarrow> bytes \<Rightarrow> b32" where
  "ta_tagged_hash C tag msg = (let th = sha256 C [ascii tag] in sha256 C [bs th, bs th, msg])"

definition tap_branch_hash :: "crypto \<Rightarrow> b32 \<Rightarrow> b32 \<Rightarrow> b32" where
  "tap_branch_hash C a b =
     (let (l, r) = (if bs a \<le> bs b then (a, b) else (b, a))
      in ta_tagged_hash C ''TapBranch'' (bs l @ bs r))"

definition sibling_tap_hash :: "crypto \<Rightarrow> bytes \<Rightarrow> (ProofError, b32) res" where
  "sibling_tap_hash C v =
     (case v of
        [] \<Rightarrow> Err BadTapSibling
      | ty # preimage \<Rightarrow>
          if ty = 0 then Ok (ta_tagged_hash C ''TapLeaf'' preimage)
          else if ty = 1 then
            if length preimage \<noteq> 64 then Err BadTapSibling
            else Ok (tap_branch_hash C (barr_of (take 32 preimage)) (barr_of (drop 32 preimage)))
          else Err BadTapSibling)"

text \<open>\<^verbatim>\<open>Vec\<close> lengths as \<^verbatim>\<open>u8\<close> and \<^verbatim>\<open>usize\<close> follow the source; the script is 73 bytes.\<close>

definition ta_script :: "crypto \<Rightarrow> Node \<Rightarrow> bytes" where
  "ta_script C outer =
     bs (sha256 C [ascii ''taproot-assets:194243'']) @ [2] @ bs (nd_hash outer) @ to_be (nd_sum outer)"

definition reconstruct_output_key ::
  "crypto \<Rightarrow> AssetLeaf \<Rightarrow> bytes \<Rightarrow> CommitmentProof \<Rightarrow> TaprootProof \<Rightarrow> (ProofError, b32) res" where
  "reconstruct_output_key C asset asset_leaf_bytes cp taproot =
     (if length (tp_internal_key taproot) \<noteq> 33 then Err BadFieldLength
      else rbind (ok_or (arr_try (asp_asset_id (cpf_asset_proof cp))) BadFieldLength) (\<lambda>aid :: b32.
      if length (al_script_key asset) \<noteq> 33 then Err BadFieldLength
      else let
        ack = (if al_group_key asset \<noteq> None
               then sha256 C [bs (asset_id C (al_genesis asset)), sub (al_script_key asset) 1 33]
               else sha256 C [sub (al_script_key asset) 1 33]);
        leaf_value = unwrap_or (split_committed_leaf_bytes asset_leaf_bytes) asset_leaf_bytes in
      rbind (rbind (parse_compressed_proof C (asp_mssmt_proof (cpf_asset_proof cp)))
        (\<lambda>o'. ok_or o' BadFieldLength)) (\<lambda>inner_sib.
      rbind (proof_root C ack (leaf C leaf_value (al_amount asset)) inner_sib) (\<lambda>(inner, l, r).
      let ac_root = sha256 C [bs aid, bs l, bs r, to_be (nd_sum inner)];
          tcl_value = [asp_version (cpf_asset_proof cp)] @ bs ac_root @ to_be (nd_sum inner) in
      rbind (rbind (parse_compressed_proof C (tap_mssmt_proof (cpf_taproot_asset_proof cp)))
        (\<lambda>o'. ok_or o' BadFieldLength)) (\<lambda>outer_sib.
      rbind (proof_root C aid (leaf C tcl_value (nd_sum inner)) outer_sib) (\<lambda>(outer, _, _).
      if tap_version (cpf_taproot_asset_proof cp) \<noteq> 2 then Err UnsupportedTapVersion
      else let
        script = ta_script C outer;
        preimage = [0xc0, word_of_nat (length script)] @ script;
        ta_leaf_hash = ta_tagged_hash C ''TapLeaf'' preimage in
      rbind (case cpf_tap_sibling cp of
          None \<Rightarrow> Ok ta_leaf_hash
        | Some sib \<Rightarrow> rbind (sibling_tap_hash C sib) (\<lambda>h. Ok (tap_branch_hash C ta_leaf_hash h)))
        (\<lambda>tapscript_root.
      let internal_xonly = barr_of (sub (tp_internal_key taproot) 1 33)
      in tap_tweak C internal_xonly tapscript_root)))))))"

section \<open>Inclusion and lineage\<close>

definition verify_asset_inclusion :: "crypto \<Rightarrow> Proof \<Rightarrow> (ProofError, AnchorInfo) res" where
  "verify_asset_inclusion C p =
     rbind (verify_anchor C p) (\<lambda>anchor.
     rbind (proof_asset_leaf p) (\<lambda>asset.
     rbind (ok_or (proof_get p 10) Truncated) (\<lambda>asset_leaf_bytes.
     rbind (rbind (ok_or (proof_get p 12) Truncated) parse_taproot_proof) (\<lambda>taproot.
     rbind (ok_or (parse_commitment taproot) Truncated) (\<lambda>parsed_cp.
     rbind parsed_cp (\<lambda>cp.
     rbind (reconstruct_output_key C asset asset_leaf_bytes cp taproot) (\<lambda>key.
     if key \<noteq> ai_taproot_output_key anchor then Err CommitmentMismatch else Ok anchor)))))))"

definition prev_outpoint :: "Proof \<Rightarrow> (ProofError, b32 \<times> u32) res" where
  "prev_outpoint p =
     rbind (ok_or (proof_get p 2) Truncated) (\<lambda>v.
     if length v \<noteq> 36 then Err BadFieldLength
     else Ok (barr_of (sub v 0 32), from_be (sub v 32 36)))"

definition lineage_step ::
  "crypto \<Rightarrow> Proof \<Rightarrow> AnchorInfo option \<Rightarrow> (ProofError, AnchorInfo option) res" where
  "lineage_step C p prev =
     rbind (verify_asset_inclusion C p) (\<lambda>anchor.
     case prev of
       None \<Rightarrow> Ok (Some anchor)
     | Some prev \<Rightarrow>
         rbind (prev_outpoint p) (\<lambda>(txid, vout).
         if txid \<noteq> ai_txid prev \<or> vout \<noteq> ai_output_index prev then Err LineageBroken
         else Ok (Some anchor)))"

definition verify_lineage :: "crypto \<Rightarrow> Proof list \<Rightarrow> (ProofError, AnchorInfo) res" where
  "verify_lineage C proofs =
     rbind (rfold (lineage_step C) proofs None) (\<lambda>prev. ok_or prev EmptyLineage)"

section \<open>Parsing loses nothing\<close>

lemma cursor_at_end:
  "length b < 2 ^ 64 \<Longrightarrow> unat i \<le> length b \<Longrightarrow> i < cursor_len b \<longleftrightarrow> unat i < length b"
  "length b < 2 ^ 64 \<Longrightarrow> i = cursor_len b \<longleftrightarrow> unat i = length b"
  by (auto simp: cursor_len_def word_less_nat_alt word_unat_eq_iff unat_word_of_nat)

lemma write_record_consumed:
  assumes "bigsize c = Ok (ty, c1)" and "bigsize c1 = Ok (len, c2)" and "take_n c2 len = Ok (v, c3)"
  shows "consumes c (write_record (ty, v)) c3"
proof -
  have v: "consumes c2 v c3" "length v = unat len" using take_n_consumes [OF assms(3)] by simp_all
  have "word_of_nat (length v) = len" by (simp add: v(2))
  then show ?thesis
    using consumes_append [OF bigsize_consumes [OF assms(1)]
        consumes_append [OF bigsize_consumes [OF assms(2)] v(1)]]
    by (simp add: write_record_def)
qed

text \<open>Record types are strictly ascending.\<close>

definition ascending_types :: "u64 option \<Rightarrow> tlv_records \<Rightarrow> bool" where
  "ascending_types prev recs \<longleftrightarrow>
     sorted_wrt (<) (map fst recs) \<and> (\<forall>p. prev = Some p \<longrightarrow> (\<forall>t\<in>set (map fst recs). p < t))"

lemma tlv_loop_lossless:
  "length (cu_b c) < 2 ^ 64 \<Longrightarrow> unat (cu_i c) \<le> length (cu_b c) \<Longrightarrow> tlv_loop c prev recs = Ok out \<Longrightarrow>
     \<exists>new. out = recs @ new \<and> drop (unat (cu_i c)) (cu_b c) = concat (map write_record new) \<and>
       ascending_types prev new"
proof (induction c prev recs rule: tlv_loop.induct)
  case (1 c prev recs)
  show ?case
  proof (cases "cu_i c < cursor_len (cu_b c)")
    case False
    then have "out = recs" "unat (cu_i c) = length (cu_b c)"
      using "1.prems" by (simp_all add: tlv_loop.simps [of c] cursor_at_end)
    then show ?thesis by (simp add: ascending_types_def)
  next
    case True
    obtain ty c1 len c2 v c3 where
      s: "bigsize c = Ok (ty, c1)" "bigsize c1 = Ok (len, c2)" "take_n c2 len = Ok (v, c3)" and
      asc: "\<not> out_of_order prev ty" and
      rest: "tlv_loop c3 (Some ty) (recs @ [(ty, v)]) = Ok out"
      using "1.prems"(3) True unfolding tlv_loop.simps [of c]
      by (auto simp: res_simps Let_def)
    note con = write_record_consumed [OF s]
    have "\<exists>new. out = (recs @ [(ty, v)]) @ new \<and>
        drop (unat (cu_i c3)) (cu_b c3) = concat (map write_record new) \<and> ascending_types (Some ty) new"
      by (rule "1.IH" [of "(ty, c1)" ty c1 "(len, c2)" len c2 "(v, c3)" v c3])
        (use True s asc rest con "1.prems"(1) in \<open>auto simp: consumes_def\<close>)
    then obtain new where new: "out = recs @ (ty, v) # new"
      "drop (unat (cu_i c3)) (cu_b c3) = concat (map write_record new)" "ascending_types (Some ty) new"
      by auto
    have "drop (unat (cu_i c)) (cu_b c) = write_record (ty, v) @ drop (unat (cu_i c3)) (cu_b c)"
      using con unfolding consumes_def by (metis append_take_drop_id drop_drop add.commute)
    then have "drop (unat (cu_i c)) (cu_b c) = concat (map write_record ((ty, v) # new))"
      using new(2) con by (simp add: consumes_def)
    moreover have "ascending_types prev ((ty, v) # new)"
      using new(3) asc by (cases prev) (auto simp: ascending_types_def out_of_order_def)
    ultimately show ?thesis using new(1) by (intro exI [of _ "(ty, v) # new"]) simp
  qed
qed

lemma parse_tlv_lossless:
  assumes "parse_tlv data = Ok recs" and "length data < 2 ^ 64"
  shows "concat (map write_record recs) = data" and "sorted_wrt (<) (map fst recs)"
  using tlv_loop_lossless [of "cursor data" None "[]" recs] assms
  by (auto simp: parse_tlv_def cursor_def ascending_types_def)

lemma parse_proof_lossless:
  assumes "parse_proof blob = Ok p" and "length blob < 2 ^ 64"
  shows "reencode p = blob"
proof -
  obtain recs where "slice_get blob 0 4 = Some PROOF_MAGIC" "parse_tlv (drop 4 blob) = Ok recs"
    "p = \<lparr>prf_records = recs\<rparr>"
    using assms(1) by (auto simp: parse_proof_def res_simps split: if_splits)
  then show ?thesis
    using parse_tlv_lossless(1) [of "drop 4 blob" recs] assms(2)
    by (auto simp: reencode_def slice_get_def split: if_splits) (metis append_take_drop_id)
qed

section \<open>Encodings are parsed back\<close>

definition at :: "Cursor \<Rightarrow> bytes \<Rightarrow> bytes \<Rightarrow> bool" where
  "at c pre rest \<longleftrightarrow> cu_b c = pre @ rest \<and> unat (cu_i c) = length pre \<and> length (cu_b c) < 2 ^ 64"

definition advance :: "Cursor \<Rightarrow> nat \<Rightarrow> Cursor" where
  "advance c n = c\<lparr>cu_i := cu_i c + word_of_nat n\<rparr>"

lemma at_length: "at c pre (s @ rest) \<Longrightarrow> unat (word_of_nat (length s) :: usize) = length s"
  by (rule unat_word_of_nat) (auto simp: at_def)

lemma at_advance: "at c pre (s @ rest) \<Longrightarrow> at (advance c (length s)) (pre @ s) rest"
proof -
  assume a: "at c pre (s @ rest)"
  have "unat (word_of_nat (length s) :: usize) = length s" by (rule at_length [OF a])
  then show ?thesis
    using a unat_add_lem [of "cu_i c" "word_of_nat (length s)"] by (auto simp: at_def advance_def)
qed

lemma take_n_at:
  assumes "at c pre (s @ rest)" and "n = word_of_nat (length s)"
  shows "take_n c n = Ok (s, advance c (length s))"
proof -
  have "unat n = length s"
    unfolding assms(2) by (rule at_length [OF assms(1)])
  then show ?thesis
    using assms by (auto simp: take_n_Ok at_def advance_def)
qed

lemma bigsize_at:
  assumes "at c pre (write_bigsize v @ rest)"
  shows "bigsize c = Ok (v, advance c (length (write_bigsize v)))"
proof -
  obtain x t where xt: "write_bigsize v = x # t" using length_write_bigsize [of v] by (cases "write_bigsize v") auto
  have one: "take_n c 1 = Ok ([x], advance c 1)"
    using take_n_at [of c pre "[x]" "t @ rest" 1] assms xt by simp
  have a1: "at (advance c 1) (pre @ [x]) (t @ rest)"
    using at_advance [of c pre "[x]" "t @ rest"] assms xt by simp
  have adv: "advance (advance c (Suc 0)) n = advance c (Suc n)" for n
    by (simp add: advance_def add.assoc add.commute)
  have two: "take_n (advance c 1) (word_of_nat (length t)) = Ok (t, advance c (length (write_bigsize v)))"
    using take_n_at [OF a1 refl] by (simp add: adv xt)
  consider "v < 0xfd" | "\<not> v < 0xfd" "v \<le> 0xffff" | "\<not> v \<le> 0xffff" "v \<le> 0xffffffff" | "\<not> v \<le> 0xffffffff"
    by blast
  then show ?thesis
  proof cases
    case 1
    then have x: "x = ucast v" "t = []" using xt by (simp_all add: write_bigsize_def)
    have u: "unat (ucast v :: u8) = unat v"
      using 1 by (simp add: unsigned_ucast_eq word_less_nat_alt take_bit_nat_eq_self)
    have ne: "x \<noteq> 0xff" "x \<noteq> 0xfe" "x \<noteq> 0xfd"
      using 1 u unfolding x(1) by (auto simp: word_unat_eq_iff word_less_nat_alt)
    have "ucast x = v" unfolding x(1) by (simp add: word_unat_eq_iff u)
    then show ?thesis unfolding bigsize_def one using ne xt x(2) by (simp add: Let_def)
  next
    case 2
    then have x: "x = 0xfd" "t = to_be (ucast v :: u16)" using xt by (simp_all add: write_bigsize_def)
    have "unat (ucast v :: u16) = unat v"
      using 2 by (simp add: unsigned_ucast_eq word_le_nat_alt take_bit_nat_eq_self)
    then have "ucast (ucast v :: u16) = v" by (simp add: word_unat_eq_iff)
    then show ?thesis unfolding bigsize_def one using two 2 by (simp add: x Let_def)
  next
    case 3
    then have lt: "\<not> v < 0xfd" by (auto simp: word_le_nat_alt word_less_nat_alt)
    then have x: "x = 0xfe" "t = to_be (ucast v :: u32)" using xt 3 by (simp_all add: write_bigsize_def)
    have "unat (ucast v :: u32) = unat v"
      using 3 by (simp add: unsigned_ucast_eq word_le_nat_alt take_bit_nat_eq_self)
    then have e: "ucast (ucast v :: u32) = v" by (simp add: word_unat_eq_iff)
    have "\<not> v < 0x10000" using 3 by (auto simp: word_le_nat_alt word_less_nat_alt)
    then show ?thesis unfolding bigsize_def one using two e by (simp add: x Let_def)
  next
    case 4
    then have lt: "\<not> v < 0xfd" "\<not> v \<le> 0xffff" by (auto simp: word_le_nat_alt word_less_nat_alt)
    then have x: "x = 0xff" "t = to_be v" using xt 4 by (simp_all add: write_bigsize_def)
    have "\<not> v < 0x100000000" using 4 by (auto simp: word_le_nat_alt word_less_nat_alt)
    then show ?thesis unfolding bigsize_def one using two by (simp add: x Let_def)
  qed
qed

lemma tlv_loop_encoded:
  "at c pre (concat (map write_record recs)) \<Longrightarrow> ascending_types prev recs \<Longrightarrow>
     tlv_loop c prev acc = Ok (acc @ recs)"
proof (induction recs arbitrary: c pre prev acc)
  case Nil
  then have "\<not> cu_i c < cursor_len (cu_b c)"
    by (subst cursor_at_end) (auto simp: at_def)
  then show ?case by (simp add: tlv_loop.simps [of c])
next
  case (Cons r recs)
  obtain ty v where r: "r = (ty, v)" by (cases r)
  let ?t = "write_bigsize ty" and ?l = "write_bigsize (word_of_nat (length v))"
  let ?rest = "concat (map write_record recs)"
  let ?c1 = "advance c (length ?t)"
  let ?c2 = "advance ?c1 (length ?l)"
  let ?c3 = "advance ?c2 (length v)"
  have a: "at c pre (?t @ ?l @ v @ ?rest)"
    using Cons.prems(1) by (simp add: r write_record_def [of "(ty, v)"])
  note a1 = at_advance [OF a]
  note a2 = at_advance [OF a1]
  note a3 = at_advance [OF a2]
  have lt: "cu_i c < cursor_len (cu_b c)"
    using a length_write_bigsize [of ty] by (subst cursor_at_end) (auto simp: at_def)
  have "\<not> out_of_order prev ty"
    using Cons.prems(2) by (auto simp: ascending_types_def out_of_order_def r split: option.splits)
  then have "tlv_loop c prev acc = tlv_loop ?c3 (Some ty) (acc @ [(ty, v)])"
    using lt bigsize_at [OF a] bigsize_at [OF a1] take_n_at [OF a2 refl]
    by (simp add: tlv_loop.simps [of c] Let_def)
  also have "... = Ok ((acc @ [(ty, v)]) @ recs)"
    by (rule Cons.IH [OF a3]) (use Cons.prems(2) in \<open>auto simp: ascending_types_def r\<close>)
  finally show ?case by (simp add: r)
qed

lemma parse_tlv_encoded:
  assumes "sorted_wrt (<) (map fst recs)" and "length (concat (map write_record recs)) < 2 ^ 64"
  shows "parse_tlv (concat (map write_record recs)) = Ok recs"
  using tlv_loop_encoded [of "cursor (concat (map write_record recs))" "[]" recs None "[]"] assms
  by (simp add: parse_tlv_def cursor_def at_def ascending_types_def)

lemma parse_proof_reencode:
  assumes "sorted_wrt (<) (map fst (prf_records p))" and "length (reencode p) < 2 ^ 64"
  shows "parse_proof (reencode p) = Ok p"
proof -
  have m: "length PROOF_MAGIC = 4" by (simp add: PROOF_MAGIC_def ascii_def)
  have "slice_get (reencode p) 0 4 = Some PROOF_MAGIC" "drop 4 (reencode p) = concat (map write_record (prf_records p))"
    using m by (simp_all add: reencode_def slice_get_def)
  then show ?thesis
    using parse_tlv_encoded [OF assms(1)] assms(2) m by (simp add: parse_proof_def reencode_def)
qed

section \<open>Lineage\<close>

text \<open>Each step is included, and spends the output the step before it anchored.\<close>

fun chained :: "crypto \<Rightarrow> AnchorInfo option \<Rightarrow> Proof list \<Rightarrow> AnchorInfo list \<Rightarrow> bool" where
  "chained C prev [] [] = True"
| "chained C prev (p # ps) (a # as) \<longleftrightarrow>
     verify_asset_inclusion C p = Ok a \<and>
     (\<forall>q. prev = Some q \<longrightarrow> prev_outpoint p = Ok (ai_txid q, ai_output_index q)) \<and>
     chained C (Some a) ps as"
| "chained C prev _ _ = False"

lemma lineage_step_Ok:
  "lineage_step C p prev = Ok r \<longleftrightarrow>
     (\<exists>a. verify_asset_inclusion C p = Ok a \<and>
        (\<forall>q. prev = Some q \<longrightarrow> prev_outpoint p = Ok (ai_txid q, ai_output_index q)) \<and> r = Some a)"
  by (cases prev) (auto simp: lineage_step_def res_simps)

lemma lineage_fold_Ok:
  "rfold (lineage_step C) ps prev = Ok r \<longleftrightarrow>
     (\<exists>as. chained C prev ps as \<and> r = (if as = [] then prev else Some (last as)))"
proof (induction ps arbitrary: prev)
  case Nil
  have "chained C prev [] as \<longleftrightarrow> as = []" for as by (cases as) auto
  then show ?case by auto
next
  case (Cons p ps)
  have c: "chained C prev (p # ps) as \<longleftrightarrow> (\<exists>a as'. as = a # as' \<and> chained C prev (p # ps) (a # as'))" for as
    by (cases as) auto
  have "rfold (lineage_step C) (p # ps) prev = Ok r \<longleftrightarrow>
      (\<exists>a as'. chained C prev (p # ps) (a # as') \<and> r = Some (last (a # as')))"
    by (simp add: res_simps lineage_step_Ok Cons.IH) (auto split: if_splits)
  also have "... \<longleftrightarrow> (\<exists>as. chained C prev (p # ps) as \<and> r = (if as = [] then prev else Some (last as)))"
    by (metis c list.distinct(1))
  finally show ?case .
qed

lemma verify_lineage_Ok:
  "verify_lineage C ps = Ok h \<longleftrightarrow> (\<exists>as. chained C None ps as \<and> as \<noteq> [] \<and> h = last as)"
  by (auto simp: verify_lineage_def res_simps lineage_fold_Ok split: if_splits)

lemma chained_length: "chained C prev ps as \<Longrightarrow> length as = length ps"
  by (induction C prev ps as rule: chained.induct) auto

lemma chained_unlinked: "chained C prev ps as \<Longrightarrow> chained C None ps as"
  by (cases ps; cases as) auto

lemma chained_append:
  "chained C prev (ps @ qs) as \<Longrightarrow>
     \<exists>bs' cs. as = bs' @ cs \<and> chained C prev ps bs' \<and>
       chained C (if bs' = [] then prev else Some (last bs')) qs cs"
proof (induction ps arbitrary: prev as)
  case (Cons p ps)
  then obtain a as' where as: "as = a # as'" by (cases as) auto
  then obtain bs' cs where "as' = bs' @ cs" "chained C (Some a) ps bs'"
    "chained C (if bs' = [] then Some a else Some (last bs')) qs cs"
    using Cons by auto blast
  then show ?case
    using Cons.prems as by (intro exI [of _ "a # bs'"] exI [of _ cs]) (auto split: if_splits)
qed auto

text \<open>
  the first step's own previous output is never read, so nothing anchors a lineage at the
  asset's genesis: what is left of an accepted lineage when its first steps are cut off is accepted
  with the same head.
\<close>
lemma lineage_suffix_accepted:
  assumes "verify_lineage C (ps @ qs) = Ok h" and "qs \<noteq> []"
  shows "verify_lineage C qs = Ok h"
proof -
  obtain as where "chained C None (ps @ qs) as" "as \<noteq> []" "h = last as"
    using assms(1) by (auto simp: verify_lineage_Ok)
  then obtain bs' cs where "as = bs' @ cs"
    and linked: "chained C (if bs' = [] then None else Some (last bs')) qs cs"
    using chained_append [of C None ps qs as] by blast
  moreover have "chained C None qs cs" by (rule chained_unlinked [OF linked])
  moreover have "cs \<noteq> []" using chained_length [OF \<open>chained C None qs cs\<close>] assms(2) by auto
  ultimately show ?thesis using \<open>h = last as\<close> by (auto simp: verify_lineage_Ok)
qed

section \<open>Properties\<close>

text \<open>
  C9: a proof blob is accepted exactly when it is the encoding of the records it yields, and these
  are in strictly ascending order of type: no two byte strings parse to one proof.
\<close>
lemma parse_proof_canonical:
  assumes "length blob < 2 ^ 64"
  shows "parse_proof blob = Ok p \<longleftrightarrow> blob = reencode p \<and> sorted_wrt (<) (map fst (prf_records p))"
proof
  assume a: "parse_proof blob = Ok p"
  then have "reencode p = blob" using assms by (rule parse_proof_lossless)
  moreover have "sorted_wrt (<) (map fst (prf_records p))"
    using a assms by (auto simp: parse_proof_def res_simps dest: parse_tlv_lossless(2) split: if_splits)
  ultimately show "blob = reencode p \<and> sorted_wrt (<) (map fst (prf_records p))" by simp
qed (use assms parse_proof_reencode in blast)

lemma parse_proof_canonical_witness:
  "parse_proof (reencode \<lparr>prf_records = [(0, [1]), (300, [])]\<rparr>) = Ok \<lparr>prf_records = [(0, [1]), (300, [])]\<rparr>"
  by (subst parse_proof_canonical)
    (simp_all add: reencode_def write_record_def write_bigsize_def PROOF_MAGIC_def ascii_def)

text \<open>
  an accepted lineage is a chain: every step is included under its own header and output key,
  and each step after the first spends the output that the step before it anchored; the result is
  the anchor of the last step.
\<close>
lemma verify_lineage_chain:
  "verify_lineage C ps = Ok h \<longleftrightarrow> (\<exists>as. chained C None ps as \<and> as \<noteq> [] \<and> h = last as)"
  by (rule verify_lineage_Ok)

section \<open>A proof and a proof file\<close>

text \<open>
  The writer's side: a stream of records, and a file of blobs with its running checksum. A file is
  parsed back to its blobs.
\<close>

definition tlv :: "tlv_records \<Rightarrow> bytes" where
  "tlv recs = concat (map write_record recs)"

lemma length_write_bigsize_le: "length (write_bigsize v) \<le> 9"
  by (simp add: write_bigsize_def)

lemma length_tlv_le: "length (tlv recs) \<le> (\<Sum>r\<leftarrow>recs. 18 + length (snd r))"
proof (induction recs)
  case (Cons r recs)
  have "length (write_record r) \<le> 18 + length (snd r)"
    using length_write_bigsize_le [of "fst r"] length_write_bigsize_le [of "word_of_nat (length (snd r))"]
    by (simp add: write_record_def)
  then show ?case using Cons by (simp add: tlv_def)
qed (simp add: tlv_def)

lemma parse_tlv_tlv:
  assumes "sorted_wrt (<) (map fst recs)" and "(\<Sum>r\<leftarrow>recs. 18 + length (snd r)) < 2 ^ 64"
  shows "parse_tlv (tlv recs) = Ok recs"
  unfolding tlv_def
  by (rule parse_tlv_encoded [OF assms(1)]) (use length_tlv_le [of recs] assms(2) in \<open>simp add: tlv_def\<close>)

fun file_body :: "crypto \<Rightarrow> b32 \<Rightarrow> bytes list \<Rightarrow> bytes" where
  "file_body C prev [] = []"
| "file_body C prev (blob # blobs) =
     (let h = sha256 C [bs prev, blob]
      in write_bigsize (word_of_nat (length blob)) @ blob @ bs h @ file_body C h blobs)"

definition written_file :: "crypto \<Rightarrow> u32 \<Rightarrow> bytes list \<Rightarrow> bytes" where
  "written_file C v blobs =
     FILE_MAGIC @ to_be v @ write_bigsize (word_of_nat (length blobs)) @ file_body C (fill 0) blobs"

lemma file_loop_body:
  "at c pre (file_body C prev blobs @ rest) \<Longrightarrow> \<forall>b\<in>set blobs. slice_get b 0 4 = Some PROOF_MAGIC \<Longrightarrow>
     \<exists>c'. file_loop C (length blobs) c prev acc = Ok (acc @ blobs, c') \<and>
       at c' (pre @ file_body C prev blobs) rest"
proof (induction blobs arbitrary: c pre prev acc)
  case Nil
  then show ?case by simp
next
  case (Cons b blobs)
  let ?h = "sha256 C [bs prev, b]" and ?n = "word_of_nat (length b) :: u64"
  have a: "at c pre (write_bigsize ?n @ b @ bs ?h @ file_body C ?h blobs @ rest)"
    using Cons.prems(1) by (simp add: Let_def)
  note a1 = at_advance [OF a]
  note a2 = at_advance [OF a1]
  have a3: "at (advance (advance (advance c (length (write_bigsize ?n))) (length b)) 32)
      (pre @ write_bigsize ?n @ b @ bs ?h) (file_body C ?h blobs @ rest)"
    using at_advance [OF a2] by simp
  have t: "take_n (advance (advance c (length (write_bigsize ?n))) (length b)) 32 =
      Ok (bs ?h, advance (advance (advance c (length (write_bigsize ?n))) (length b)) 32)"
    using take_n_at [OF a2, of 32] by simp
  obtain c' where "file_loop C (length blobs) (advance (advance (advance c (length (write_bigsize ?n))) (length b)) 32)
      ?h (acc @ [b]) = Ok ((acc @ [b]) @ blobs, c')"
    "at c' ((pre @ write_bigsize ?n @ b @ bs ?h) @ file_body C ?h blobs) rest"
    using Cons.IH [OF a3, of "acc @ [b]"] Cons.prems(2) by auto
  then show ?case
    using bigsize_at [OF a] take_n_at [OF a1 refl] t Cons.prems(2) by (simp add: Let_def)
qed

lemma parse_proof_file_written:
  assumes "length (written_file C v blobs) < 2 ^ 58" and "\<forall>b\<in>set blobs. slice_get b 0 4 = Some PROOF_MAGIC"
  shows "parse_proof_file C (written_file C v blobs) = Ok \<lparr>pf_version = v, pf_proofs = blobs\<rparr>"
proof -
  let ?d = "written_file C v blobs" and ?n = "word_of_nat (length blobs) :: u64"
  have fb: "length blobs \<le> length (file_body C prev blobs)" for prev
  proof (induction blobs arbitrary: prev)
    case (Cons b blobs)
    show ?case
      using Cons [of "sha256 C [bs prev, b]"] length_write_bigsize [of "word_of_nat (length b)"]
      by (simp add: Let_def)
  qed simp
  have n: "length blobs < 2 ^ 58"
    using assms(1) fb [of "fill 0"] by (simp add: written_file_def)
  have a: "at (cursor ?d) [] (FILE_MAGIC @ to_be v @ write_bigsize ?n @ file_body C (fill 0) blobs @ [])"
    using assms(1) by (simp add: at_def cursor_def written_file_def)
  have m: "length FILE_MAGIC = 4" by (simp add: FILE_MAGIC_def ascii_def)
  note a1 = at_advance [OF a]
  note a2 = at_advance [OF a1]
  note a3 = at_advance [OF a2]
  obtain c' where l: "file_loop C (length blobs) (advance (advance (advance (cursor ?d) (length FILE_MAGIC))
      (length (to_be v))) (length (write_bigsize ?n))) (fill 0) [] = Ok ([] @ blobs, c')"
    "at c' ((([] @ FILE_MAGIC) @ to_be v) @ write_bigsize ?n @ file_body C (fill 0) blobs) []"
    using file_loop_body [OF a3 assms(2), of "[]"] by auto
  have "cu_i c' = cursor_len ?d"
    using l(2) assms(1) by (subst cursor_at_end(2)) (auto simp: at_def written_file_def)
  moreover have "unat ?n = length blobs" using n by (simp add: unat_word_of_nat)
  moreover have "u32_be (advance (cursor ?d) 4) = Ok (v, advance (advance (cursor ?d) 4) 4)"
    using take_n_at [OF a1, of 4] m by (simp add: u32_be_def)
  ultimately show ?thesis
    using take_n_at [OF a, of 4] bigsize_at [OF a2] l(1) m n by (simp add: parse_proof_file_def)
qed

subsection \<open>An accepted proof\<close>

definition sample_commitment :: bytes where
  "sample_commitment =
     tlv [(1, tlv [(0, [0]), (2, replicate 32 0), (4, sample_compressed)]),
          (2, tlv [(0, [2]), (2, sample_compressed)])]"

definition sample_taproot :: bytes where
  "sample_taproot = tlv [(0, replicate 4 0), (2, replicate 33 0), (3, sample_commitment)]"

definition sample_genesis_bytes :: bytes where
  "sample_genesis_bytes =
     replicate 32 0 @ replicate 4 0 @ [0] @ replicate 32 0 @ replicate 4 0 @ [0]"

definition sample_leaf :: bytes where
  "sample_leaf =
     tlv [(0, [0]), (2, sample_genesis_bytes), (4, [0]), (6, [100]), (14, [0, 0]), (16, replicate 33 0),
          (17, replicate 33 0)]"

definition sample_proof :: Proof where
  "sample_proof =
     \<lparr>prf_records = [(2, replicate 36 0), (4, replicate 80 0), (6, []), (8, [0]), (10, sample_leaf),
        (12, sample_taproot)]\<rparr>"

lemma sample_lengths:
  "length sample_compressed = 34" "length sample_genesis_bytes = 74"
  "length (tlv [(0, [0]), (2, replicate 32 0), (4, sample_compressed)]) \<le> 200"
  "length (tlv [(0, [2]), (2, sample_compressed)]) \<le> 200"
  "length sample_commitment \<le> 500" "length sample_taproot \<le> 700" "length sample_leaf \<le> 500"
proof -
  show c: "length sample_compressed = 34" and g: "length sample_genesis_bytes = 74"
    by (simp_all add: sample_compressed_def sample_genesis_bytes_def)
  show 1: "length (tlv [(0, [0]), (2, replicate 32 0), (4, sample_compressed)]) \<le> 200"
    and 2: "length (tlv [(0, [2]), (2, sample_compressed)]) \<le> 200"
    by (rule order_trans [OF length_tlv_le], simp add: c)+
  show 3: "length sample_commitment \<le> 500"
    unfolding sample_commitment_def by (rule order_trans [OF length_tlv_le]) (use 1 2 in simp)
  show "length sample_taproot \<le> 700"
    unfolding sample_taproot_def by (rule order_trans [OF length_tlv_le]) (use 3 in simp)
  show "length sample_leaf \<le> 500"
    unfolding sample_leaf_def by (rule order_trans [OF length_tlv_le]) (simp add: g)
qed

lemma sample_commitment_parses:
  "\<exists>cp. parse_commitment_proof sample_commitment = Ok cp \<and> cpf_tap_sibling cp = None \<and>
     cpf_asset_proof cp = \<lparr>asp_version = 0, asp_asset_id = replicate 32 0, asp_mssmt_proof = sample_compressed\<rparr> \<and>
     cpf_taproot_asset_proof cp = \<lparr>tap_version = 2, tap_mssmt_proof = sample_compressed\<rparr>"
proof -
  let ?a = "[(0, [0]), (2, replicate 32 0), (4, sample_compressed)] :: tlv_records"
  let ?t = "[(0, [2]), (2, sample_compressed)] :: tlv_records"
  have "parse_tlv (tlv ?a) = Ok ?a" "parse_tlv (tlv ?t) = Ok ?t"
    by (rule parse_tlv_tlv; simp add: sample_lengths)+
  moreover have "parse_tlv sample_commitment = Ok [(1, tlv ?a), (2, tlv ?t)]"
    unfolding sample_commitment_def
    by (rule parse_tlv_tlv) (use sample_lengths(3,4) in simp_all)
  ultimately show ?thesis
    by (simp add: parse_commitment_proof_def tlv_get_def u8_field_def fixed_len_def)
qed

lemma sample_taproot_parses:
  "parse_taproot_proof sample_taproot = Ok \<lparr>tp_output_index = 0, tp_internal_key = replicate 33 0,
     tp_commitment_proof = Some sample_commitment, tp_tapscript_proof = None\<rparr>"
proof -
  have "parse_tlv sample_taproot = Ok [(0, replicate 4 0), (2, replicate 33 0), (3, sample_commitment)]"
    unfolding sample_taproot_def by (rule parse_tlv_tlv) (use sample_lengths(5) in simp_all)
  then show ?thesis
    by (simp add: parse_taproot_proof_def tlv_get_def fixed_len_def from_be_def)
qed

lemma sample_genesis_parses:
  "parse_genesis sample_genesis_bytes = Ok \<lparr>gen_first_prev_out_txid = fill 0, gen_first_prev_out_vout = 0,
     gen_tag = [], gen_meta_hash = fill 0, gen_output_index = 0, gen_asset_type = 0\<rparr>"
proof -
  have f: "barr_of (replicate 32 0) = (fill 0 :: b32)" by (simp add: fill_def barr_of_def)
  show ?thesis
    by (simp add: parse_genesis_def sample_genesis_bytes_def u32_be_def take_n_def checked_add_def slice_get_def
        cursor_def bigsize_def from_be_def cursor_len_def f Let_def)
qed

lemma sample_leaf_parses:
  "parse_asset_leaf sample_leaf = Ok \<lparr>al_version = 0,
     al_genesis = \<lparr>gen_first_prev_out_txid = fill 0, gen_first_prev_out_vout = 0, gen_tag = [],
       gen_meta_hash = fill 0, gen_output_index = 0, gen_asset_type = 0\<rparr>,
     al_asset_type = 0, al_amount = 100, al_script_version = 0, al_script_key = replicate 33 0,
     al_group_key = Some (replicate 33 0)\<rparr>"
proof -
  have p: "parse_tlv sample_leaf = Ok [(0, [0]), (2, sample_genesis_bytes), (4, [0]), (6, [100]),
      (14, [0, 0]), (16, replicate 33 0), (17, replicate 33 0)]"
    unfolding sample_leaf_def by (rule parse_tlv_tlv) (simp_all add: sample_lengths)
  have a: "bigsize_exact [100] = Ok 100"
    by (simp add: bigsize_exact_def bigsize_def take_n_def checked_add_def slice_get_def cursor_def
        cursor_len_def Let_def)
  show ?thesis
    by (simp add: parse_asset_leaf_def p a sample_genesis_parses tlv_get_def fixed_len_def from_be_def
        nat_of_be_Cons Let_def del: replicate.simps)
qed

lemma sample_anchor:
  "verify_anchor const_crypto sample_proof =
     Ok \<lparr>ai_txid = fill 0, ai_output_index = 0, ai_taproot_output_key = fill 0\<rparr>"
proof -
  have z: "barr_of (replicate 32 0) = (fill 0 :: b32)" by (simp add: fill_def barr_of_def)
  have m: "parse_tx_merkle_proof [0] = Ok \<lparr>tm_nodes = [], tm_bits_packed = []\<rparr>"
    by (simp add: parse_tx_merkle_proof_def bigsize_def take_n_def checked_add_def slice_get_def cursor_def
        cursor_len_def Let_def)
  show ?thesis
    by (simp add: verify_anchor_def sample_proof_def proof_get_def tlv_get_def m tm_root_def
        sample_taproot_parses z Let_def get_at_def sub_def del: replicate.simps)
qed

lemma sample_output_key:
  assumes "cpf_tap_sibling cp = None"
    and "cpf_asset_proof cp = \<lparr>asp_version = 0, asp_asset_id = replicate 32 0, asp_mssmt_proof = sample_compressed\<rparr>"
    and "cpf_taproot_asset_proof cp = \<lparr>tap_version = 2, tap_mssmt_proof = sample_compressed\<rparr>"
    and "length (al_script_key asset) = 33" and "tp_internal_key t = replicate 33 0"
  shows "reconstruct_output_key const_crypto asset v cp t = Ok (fill 0)"
proof -
  obtain p where p: "parse_compressed_proof const_crypto sample_compressed = (Ok (Some p) :: (ProofError, _) res)"
    and r: "\<And>key lf. \<exists>n l r. proof_root const_crypto key lf p = (Ok (n, l, r) :: (ProofError, _) res)"
    using sample_root [of const_crypto, where 'e = ProofError and 'f = ProofError] by metis
  have z: "arr_try (replicate 32 0) = Some (fill 0 :: b32)" "barr_of (replicate 32 0) = (fill 0 :: b32)"
    by (simp_all add: arr_try_def fill_def barr_of_def)
  let ?v = "unwrap_or (split_committed_leaf_bytes v) v"
  obtain inner l r where i: "proof_root const_crypto (fill 0) (leaf const_crypto ?v (al_amount asset)) p = (Ok (inner, l, r) :: (ProofError, _) res)"
    using r by blast
  obtain outer l' r' where o: "proof_root const_crypto (fill 0)
      (leaf const_crypto (0 # replicate 32 0 @ to_be (nd_sum inner)) (nd_sum inner)) p = (Ok (outer, l', r') :: (ProofError, _) res)"
    using r by blast
  show ?thesis
    using i o
    by (simp add: reconstruct_output_key_def assms z p ta_tagged_hash_def tap_tweak_def tap_tweak_data_def
        bip340_tagged_hash_def sub_def bs_fill Let_def del: replicate.simps)
qed

lemma sample_included:
  "verify_asset_inclusion const_crypto sample_proof =
     Ok \<lparr>ai_txid = fill 0, ai_output_index = 0, ai_taproot_output_key = fill 0\<rparr>"
proof -
  obtain cp where cp: "parse_commitment_proof sample_commitment = Ok cp" "cpf_tap_sibling cp = None"
    "cpf_asset_proof cp = \<lparr>asp_version = 0, asp_asset_id = replicate 32 0, asp_mssmt_proof = sample_compressed\<rparr>"
    "cpf_taproot_asset_proof cp = \<lparr>tap_version = 2, tap_mssmt_proof = sample_compressed\<rparr>"
    using sample_commitment_parses by blast
  show ?thesis
    unfolding verify_asset_inclusion_def sample_anchor
    by (simp add: proof_asset_leaf_def sample_proof_def proof_get_def tlv_get_def sample_leaf_parses
        sample_taproot_parses parse_commitment_def cp sample_output_key [OF cp(2,3,4)] del: replicate.simps)
qed

lemma lineage_suffix_accepted_witness:
  "verify_lineage const_crypto [sample_proof] =
     Ok \<lparr>ai_txid = fill 0, ai_output_index = 0, ai_taproot_output_key = fill 0\<rparr>"
proof (rule lineage_suffix_accepted [of const_crypto "[sample_proof]"])
  have z: "barr_of (replicate 32 0) = (fill 0 :: b32)" by (simp add: fill_def barr_of_def)
  have o: "prev_outpoint sample_proof = Ok (fill 0, 0)"
    by (simp add: prev_outpoint_def sample_proof_def proof_get_def tlv_get_def sub_def z from_be_def)
  show "verify_lineage const_crypto ([sample_proof] @ [sample_proof]) =
      Ok \<lparr>ai_txid = fill 0, ai_output_index = 0, ai_taproot_output_key = fill 0\<rparr>"
    by (simp add: verify_lineage_def lineage_step_def sample_included o)
qed simp

end
