(* ===== verification/Redeem.thy ===== *)
theory Redeem
  imports Mint TaProof
begin

text \<open>
  REDEEM_FAST_LOCK and LOCK_REFUND with the two lock bindings
  (\<^verbatim>\<open>satusd-state/src/redeem.rs\<close>). A lock is a key of three sets kept as trees: recorded,
  consumed and refunded. Shown here: what each binding forces, that a refund needs a recorded
  lock outside the other two sets, and where the key derivation panics.
\<close>

section \<open>Constants, errors, witnesses\<close>

definition MIN_REDEMPTION_ATOMS :: u64 where
  "MIN_REDEMPTION_ATOMS = 100"

definition MAX_REDEMPTION_ATOMS :: u64 where
  "MAX_REDEMPTION_ATOMS = 1000000000"

definition BTC_CLAIM_CONFIRMATION_DEPTH :: u32 where
  "BTC_CLAIM_CONFIRMATION_DEPTH = 6"

definition REFUND_SAFETY_DELTA :: u32 where
  "REFUND_SAFETY_DELTA = 24"

definition MODE_FAST_OPERATOR :: u8 where
  "MODE_FAST_OPERATOR = 0"

definition SET_MEMBER :: b32 where
  "SET_MEMBER = fill 1"

datatype RedeemRejectReason =
    BadStateLinkage
  | WrongTransitionType
  | PostStateMismatch
  | Overflow
  | IntentHashMismatch
  | LockScriptKeyMismatch
  | AssetFamilyMismatch
  | AmountMismatch
  | AmountOutOfRange
  | WrongMode
  | OperatorIdMissing
  | CsvTooShort
  | PaymentHashMismatch
  | LineageInvalid
  | LineageProofMalformed
  | LineageProofHashMismatch
  | LineageAnchorMismatch
  | GroupKeyMissing
  | LockAlreadyExists
  | LockNotActive
  | LockConsumed
  | LockRefunded
  | NullifierUsed
  | PreimageMismatch
  | BurnSinkMismatch
  | BurnInternalKeyMismatch
  | BurnProofInvalid
  | FinalizeAmountMismatch
  | FinalizeOperatorMismatch

record RedeemLockWitness =
  rl_redeem_intent :: RedeemIntent
  rl_lock_record :: LockRecord
  rl_lock_exclusion_proof :: "b32 list"
  rl_lineage_proof :: bytes

record LockRefundWitness =
  rf_redeem_intent :: RedeemIntent
  rf_lock_record :: LockRecord
  rf_lock_refund :: LockRefundRecord
  rf_lock_membership_proof :: "b32 list"
  rf_consumed_exclusion_proof :: "b32 list"
  rf_refund_exclusion_proof :: "b32 list"

definition redeem_next_state :: "crypto \<Rightarrow> StateRoot \<Rightarrow> TransitionType \<Rightarrow> StateRoot" where
  "redeem_next_state C prev ttype = prev\<lparr>
     sr_state_epoch := sr_state_epoch prev + 1,
     sr_prev_state_root := state_root_hash C prev,
     sr_transition_type := transition_type_as_u8 ttype\<rparr>"

definition redeem_verified ::
  "(RedeemRejectReason, StateRoot) res \<Rightarrow> StateRoot \<Rightarrow> (RedeemRejectReason, unit) res" where
  "redeem_verified expected new =
     rbind expected (\<lambda>e. if e = new then Ok () else Err PostStateMismatch)"

section \<open>The bindings\<close>

definition check_intent_lock_binding ::
  "crypto \<Rightarrow> RedeemIntent \<Rightarrow> LockRecord \<Rightarrow> b32 \<Rightarrow> (RedeemRejectReason, unit) res" where
  "check_intent_lock_binding C intent lock family =
     (let rih = redeem_intent_hash C intent in
      if lr_redeem_intent_hash lock \<noteq> rih then Err IntentHashMismatch
      else rbind (tap_tweak C (ri_user_asset_refund_key intent)
             (lock_tweak C rih (ri_payment_hash intent))) (\<lambda>expected_key.
      if lr_lock_script_key lock \<noteq> expected_key then Err LockScriptKeyMismatch
      else if lr_asset_family_id lock \<noteq> family then Err AssetFamilyMismatch
      else if lr_lock_amount_atoms lock \<noteq> ri_amount_satusd_atoms intent then Err AmountMismatch
      else if \<not> (MIN_REDEMPTION_ATOMS \<le> ri_amount_satusd_atoms intent
          \<and> ri_amount_satusd_atoms intent \<le> MAX_REDEMPTION_ATOMS) then Err AmountOutOfRange
      else if ri_mode intent \<noteq> MODE_FAST_OPERATOR then Err WrongMode
      else if ri_operator_id intent = None then Err OperatorIdMissing
      else rbind (ok_or (checked_add (ri_btc_htlc_csv_delta intent) REFUND_SAFETY_DELTA) Overflow) (\<lambda>need.
      if \<not> ri_asset_lock_csv_delta intent \<ge> need then Err CsvTooShort
      else if lr_payment_hash lock \<noteq> ri_payment_hash intent then Err PaymentHashMismatch
      else Ok ())))"

definition check_lineage_lock_binding ::
  "crypto \<Rightarrow> bytes \<Rightarrow> LockRecord \<Rightarrow> u8 \<Rightarrow> (RedeemRejectReason, unit) res" where
  "check_lineage_lock_binding C proof_file_bytes lock chain_id =
     rbind (map_err (\<lambda>_. LineageProofMalformed) (parse_proof_file C proof_file_bytes)) (\<lambda>file.
     rbind (map_err (\<lambda>_. LineageProofMalformed) (parsed file)) (\<lambda>proofs.
     rbind (map_err (\<lambda>_. LineageInvalid) (verify_lineage C proofs)) (\<lambda>head.
     rbind (if proofs = [] then Err LineageInvalid
            else map_err (\<lambda>_. LineageProofMalformed) (proof_asset_leaf (last proofs))) (\<lambda>head_leaf.
     if length (al_script_key head_leaf) \<noteq> 33 then Err LineageProofMalformed
     else if sub (al_script_key head_leaf) 1 33 \<noteq> bs (lr_lock_script_key lock)
       then Err LockScriptKeyMismatch
     else if al_amount head_leaf \<noteq> lr_lock_amount_atoms lock then Err AmountMismatch
     else rbind (ok_or (Option.bind (al_group_key head_leaf) arr_try) GroupKeyMissing) (\<lambda>group_key.
     let family = asset_family_id C (asset_id C (al_genesis head_leaf)) group_key chain_id in
     if family \<noteq> lr_asset_family_id lock then Err AssetFamilyMismatch
     else if \<not> (ai_txid head = op_txid (lr_lock_anchor_outpoint lock)
         \<and> ai_output_index head = op_vout (lr_lock_anchor_outpoint lock)) then Err LineageAnchorMismatch
     else if lineage_proof_hash C proof_file_bytes \<noteq> lr_lineage_proof_hash lock
       then Err LineageProofHashMismatch
     else Ok ())))))"

section \<open>The transitions\<close>

definition apply_redeem_lock ::
  "crypto \<Rightarrow> StateRoot \<Rightarrow> RedeemLockWitness \<Rightarrow> (RedeemRejectReason, StateRoot) res" where
  "apply_redeem_lock C prev w =
     rbind (check_intent_lock_binding C (rl_redeem_intent w) (rl_lock_record w)
       (sr_satusd_asset_family_id prev)) (\<lambda>_.
     rbind (check_lineage_lock_binding C (rl_lineage_proof w) (rl_lock_record w)
       (ri_network (rl_redeem_intent w))) (\<lambda>_.
     let lr_hash = lock_record_hash C (rl_lock_record w) in
     if \<not> verify_exclusion C (sr_lock_record_root prev) lr_hash (rl_lock_exclusion_proof w)
       then Err LockAlreadyExists
     else let expected = redeem_next_state C prev RedeemFastLock in
     rbind (root_after_update C lr_hash SET_MEMBER (rl_lock_exclusion_proof w)) (\<lambda>root.
     Ok (expected\<lparr>sr_lock_record_root := root\<rparr>))))"

definition verify_redeem_lock ::
  "crypto \<Rightarrow> StateRoot \<Rightarrow> StateRoot \<Rightarrow> RedeemLockWitness \<Rightarrow> (RedeemRejectReason, unit) res" where
  "verify_redeem_lock C prev new w = redeem_verified (apply_redeem_lock C prev w) new"

definition apply_lock_refund ::
  "crypto \<Rightarrow> StateRoot \<Rightarrow> LockRefundWitness \<Rightarrow> (RedeemRejectReason, StateRoot) res" where
  "apply_lock_refund C prev w =
     rbind (check_intent_lock_binding C (rf_redeem_intent w) (rf_lock_record w)
       (sr_satusd_asset_family_id prev)) (\<lambda>_.
     let lr_hash = lock_record_hash C (rf_lock_record w) in
     if lu_lock_record_hash (rf_lock_refund w) \<noteq> lr_hash then Err IntentHashMismatch
     else if \<not> verify_inclusion C (sr_lock_record_root prev) lr_hash SET_MEMBER
         (rf_lock_membership_proof w) then Err LockNotActive
     else if \<not> verify_exclusion C (sr_lock_consumed_root prev) lr_hash
         (rf_consumed_exclusion_proof w) then Err LockConsumed
     else if \<not> verify_exclusion C (sr_lock_refund_root prev) lr_hash
         (rf_refund_exclusion_proof w) then Err LockRefunded
     else let expected = redeem_next_state C prev LockRefund in
     rbind (root_after_update C lr_hash SET_MEMBER (rf_refund_exclusion_proof w)) (\<lambda>root.
     Ok (expected\<lparr>sr_lock_refund_root := root\<rparr>)))"

definition verify_lock_refund ::
  "crypto \<Rightarrow> StateRoot \<Rightarrow> StateRoot \<Rightarrow> LockRefundWitness \<Rightarrow> (RedeemRejectReason, unit) res" where
  "verify_lock_refund C prev new w = redeem_verified (apply_lock_refund C prev w) new"

section \<open>What each accepts\<close>

interpretation redeem_executor: executor redeem_verified PostStateMismatch
  by unfold_locales (simp_all add: redeem_verified_def)

definition lock_bound :: "crypto \<Rightarrow> RedeemIntent \<Rightarrow> LockRecord \<Rightarrow> b32 \<Rightarrow> bool" where
  "lock_bound C i l family \<longleftrightarrow>
     lr_redeem_intent_hash l = redeem_intent_hash C i \<and>
     tap_tweak C (ri_user_asset_refund_key i) (lock_tweak C (redeem_intent_hash C i) (ri_payment_hash i))
       = (Ok (lr_lock_script_key l) :: (RedeemRejectReason, _) res) \<and>
     lr_asset_family_id l = family \<and>
     lr_lock_amount_atoms l = ri_amount_satusd_atoms i \<and>
     100 \<le> unat (ri_amount_satusd_atoms i) \<and> unat (ri_amount_satusd_atoms i) \<le> 10 ^ 9 \<and>
     ri_mode i = 0 \<and> ri_operator_id i \<noteq> None \<and>
     unat (ri_btc_htlc_csv_delta i) + 24 \<le> unat (ri_asset_lock_csv_delta i) \<and>
     lr_payment_hash l = ri_payment_hash i"

lemma csv_safe:
  "(\<exists>n. checked_add (d :: u32) REFUND_SAFETY_DELTA = Some n \<and> n \<le> a) \<longleftrightarrow> unat d + 24 \<le> unat a"
proof
  assume "\<exists>n. checked_add d REFUND_SAFETY_DELTA = Some n \<and> n \<le> a"
  then show "unat d + 24 \<le> unat a"
    by (auto simp: REFUND_SAFETY_DELTA_def word_le_nat_alt dest!: checked_add_unat)
next
  assume a: "unat d + 24 \<le> unat a"
  then have "unat d + 24 < 4294967296" using unat_lt_u32 [of a] by linarith
  then have c: "checked_add d REFUND_SAFETY_DELTA = Some (d + 24)"
    by (simp add: REFUND_SAFETY_DELTA_def checked_add_def)
  then show "\<exists>n. checked_add d REFUND_SAFETY_DELTA = Some n \<and> n \<le> a"
    using a checked_add_unat [OF c] by (simp add: REFUND_SAFETY_DELTA_def word_le_nat_alt)
qed

lemma check_intent_lock_binding_Ok:
  "check_intent_lock_binding C i l family = Ok u \<longleftrightarrow> lock_bound C i l family"
  unfolding check_intent_lock_binding_def lock_bound_def csv_safe [symmetric] Let_def
  by (auto simp: res_simps MIN_REDEMPTION_ATOMS_def MAX_REDEMPTION_ATOMS_def MODE_FAST_OPERATOR_def
      word_le_nat_alt)

lemma apply_lock_refund_Ok:
  "apply_lock_refund C s w = Ok s' \<longleftrightarrow>
     (let h = lock_record_hash C (rf_lock_record w) in
      lock_bound C (rf_redeem_intent w) (rf_lock_record w) (sr_satusd_asset_family_id s) \<and>
      lu_lock_record_hash (rf_lock_refund w) = h \<and>
      verify_inclusion C (sr_lock_record_root s) h SET_MEMBER (rf_lock_membership_proof w) \<and>
      verify_exclusion C (sr_lock_consumed_root s) h (rf_consumed_exclusion_proof w) \<and>
      verify_exclusion C (sr_lock_refund_root s) h (rf_refund_exclusion_proof w) \<and>
      s' = (redeem_next_state C s LockRefund)\<lparr>sr_lock_refund_root :=
        fold_to_root C h (leaf_hash C h SET_MEMBER) (rf_refund_exclusion_proof w)\<rparr>)"
  by (auto simp: apply_lock_refund_def Let_def res_simps check_intent_lock_binding_Ok
      root_after_update_Ok verify_exclusion_def)

definition lineage_bound :: "crypto \<Rightarrow> bytes \<Rightarrow> LockRecord \<Rightarrow> u8 \<Rightarrow> bool" where
  "lineage_bound C b l chain \<longleftrightarrow>
     (\<exists>file proofs head_info leaf_info gk.
        parse_proof_file C b = Ok file \<and> parsed file = Ok proofs \<and> proofs \<noteq> [] \<and>
        verify_lineage C proofs = Ok head_info \<and> proof_asset_leaf (last proofs) = Ok leaf_info \<and>
        length (al_script_key leaf_info) = 33 \<and> sub (al_script_key leaf_info) 1 33 = bs (lr_lock_script_key l) \<and>
        al_amount leaf_info = lr_lock_amount_atoms l \<and>
        Option.bind (al_group_key leaf_info) arr_try = Some gk \<and>
        asset_family_id C (asset_id C (al_genesis leaf_info)) gk chain = lr_asset_family_id l \<and>
        ai_txid head_info = op_txid (lr_lock_anchor_outpoint l) \<and>
        ai_output_index head_info = op_vout (lr_lock_anchor_outpoint l) \<and>
        lineage_proof_hash C b = lr_lineage_proof_hash l)"

lemma check_lineage_lock_binding_Ok:
  "check_lineage_lock_binding C b l chain = Ok u \<longleftrightarrow> lineage_bound C b l chain"
  unfolding check_lineage_lock_binding_def lineage_bound_def Let_def
  by (simp add: res_simps) blast

lemma apply_redeem_lock_Ok:
  "apply_redeem_lock C s w = Ok s' \<longleftrightarrow>
     (let h = lock_record_hash C (rl_lock_record w) in
      lock_bound C (rl_redeem_intent w) (rl_lock_record w) (sr_satusd_asset_family_id s) \<and>
      lineage_bound C (rl_lineage_proof w) (rl_lock_record w) (ri_network (rl_redeem_intent w)) \<and>
      verify_exclusion C (sr_lock_record_root s) h (rl_lock_exclusion_proof w) \<and>
      s' = (redeem_next_state C s RedeemFastLock)\<lparr>sr_lock_record_root :=
        fold_to_root C h (leaf_hash C h SET_MEMBER) (rl_lock_exclusion_proof w)\<rparr>)"
  by (auto simp: apply_redeem_lock_def Let_def res_simps check_intent_lock_binding_Ok
      check_lineage_lock_binding_Ok root_after_update_Ok verify_exclusion_def)

text \<open>An intent whose refund key is no point of the curve takes the verifier down.\<close>

lemma check_intent_lock_binding_panics:
  "check_intent_lock_binding C i l family = Panic \<longleftrightarrow>
     lr_redeem_intent_hash l = redeem_intent_hash C i \<and>
     tap_tweak C (ri_user_asset_refund_key i) (lock_tweak C (redeem_intent_hash C i) (ri_payment_hash i))
       = (Panic :: (RedeemRejectReason, _) res)"
  by (auto simp: check_intent_lock_binding_def Let_def res_simps)

section \<open>Properties\<close>

text \<open>
  LOCK_REFUND is accepted exactly for a lock bound to its intent that is recorded, neither
  consumed nor refunded, and leads to the one state that marks it refunded.
\<close>
lemma lock_refund_accepts:
  "verify_lock_refund C s s' w = Ok () \<longleftrightarrow>
     (let h = lock_record_hash C (rf_lock_record w) in
      lock_bound C (rf_redeem_intent w) (rf_lock_record w) (sr_satusd_asset_family_id s) \<and>
      lu_lock_record_hash (rf_lock_refund w) = h \<and>
      verify_inclusion C (sr_lock_record_root s) h SET_MEMBER (rf_lock_membership_proof w) \<and>
      verify_exclusion C (sr_lock_consumed_root s) h (rf_consumed_exclusion_proof w) \<and>
      verify_exclusion C (sr_lock_refund_root s) h (rf_refund_exclusion_proof w) \<and>
      s' = (redeem_next_state C s LockRefund)\<lparr>sr_lock_refund_root :=
        fold_to_root C h (leaf_hash C h SET_MEMBER) (rf_refund_exclusion_proof w)\<rparr>)"
  unfolding verify_lock_refund_def redeem_executor.accepted_iff by (rule apply_lock_refund_Ok)

text \<open>
  REDEEM_FAST_LOCK is accepted exactly for a lock bound to its intent and to a valid lineage
  proof that is not recorded yet, and leads to the one state that records it.
\<close>
lemma redeem_lock_accepts:
  "verify_redeem_lock C s s' w = Ok () \<longleftrightarrow>
     (let h = lock_record_hash C (rl_lock_record w) in
      lock_bound C (rl_redeem_intent w) (rl_lock_record w) (sr_satusd_asset_family_id s) \<and>
      lineage_bound C (rl_lineage_proof w) (rl_lock_record w) (ri_network (rl_redeem_intent w)) \<and>
      verify_exclusion C (sr_lock_record_root s) h (rl_lock_exclusion_proof w) \<and>
      s' = (redeem_next_state C s RedeemFastLock)\<lparr>sr_lock_record_root :=
        fold_to_root C h (leaf_hash C h SET_MEMBER) (rl_lock_exclusion_proof w)\<rparr>)"
  unfolding verify_redeem_lock_def redeem_executor.accepted_iff by (rule apply_redeem_lock_Ok)

text \<open>
  C6: a lock is refunded once: a second accepted refund of it against the root the first one left
  exhibits a Poseidon collision, unless the lock's set leaf is the empty leaf.
\<close>
lemma refund_once:
  assumes "apply_lock_refund C s w = Ok s'" and "apply_lock_refund C t v = Ok t'"
    and "sr_lock_refund_root t = sr_lock_refund_root s'"
    and "lock_record_hash C (rf_lock_record v) = lock_record_hash C (rf_lock_record w)"
    and "leaf_hash C (lock_record_hash C (rf_lock_record w)) SET_MEMBER \<noteq> 0"
  shows "\<exists>x. smt_collision C (lock_record_hash C (rf_lock_record w)) (rf_refund_exclusion_proof w)
     (rf_refund_exclusion_proof v) (leaf_hash C (lock_record_hash C (rf_lock_record w)) SET_MEMBER) 0 = Some x \<and>
     collides C x"
proof (rule fold_to_root_binding)
  let ?h = "lock_record_hash C (rf_lock_record w)"
  have "sr_lock_refund_root s' = fold_to_root C ?h (leaf_hash C ?h SET_MEMBER) (rf_refund_exclusion_proof w)"
    using assms(1) by (simp add: apply_lock_refund_Ok Let_def)
  moreover have "sr_lock_refund_root t = fold_to_root C ?h 0 (rf_refund_exclusion_proof v)"
    using assms(2,4) by (simp add: apply_lock_refund_Ok Let_def verify_exclusion_def)
  ultimately show "fold_to_root C ?h (leaf_hash C ?h SET_MEMBER) (rf_refund_exclusion_proof w) =
      fold_to_root C ?h 0 (rf_refund_exclusion_proof v)" using assms(3) by simp
qed (fact assms(5))

definition sample_refund :: LockRefundWitness where
  "sample_refund =
     \<lparr>rf_redeem_intent = sample_intent, rf_lock_record = sample_lock, rf_lock_refund = sample_lock_refund,
      rf_lock_membership_proof = sample_path, rf_consumed_exclusion_proof = sample_path,
      rf_refund_exclusion_proof = sample_path\<rparr>"

lemma refund_once_witness:
  "\<exists>x. smt_collision const_crypto (fill 0) sample_path sample_path 1 0 = Some x \<and> collides const_crypto x"
proof -
  have "\<exists>s'. apply_lock_refund const_crypto s sample_refund = Ok s' \<and> sr_lock_refund_root s' = fr_to_be_bytes 1"
    if "s = sample_state" for s
    unfolding apply_lock_refund_Ok Let_def that
    by (simp add: lock_bound_def sample_refund_def sample_intent_def sample_lock_def
        sample_lock_refund_def sample_state_def sample_path_def redeem_intent_hash_def lock_record_hash_def
        tagged_hash_def tap_tweak_def tap_tweak_data_def verify_inclusion_def verify_exclusion_def)
  then obtain s' where s': "apply_lock_refund const_crypto sample_state sample_refund = Ok s'"
    "sr_lock_refund_root s' = fr_to_be_bytes 1" by blast
  show ?thesis
    using refund_once [OF s'(1) s'(1)] s'(2)
    by (simp add: sample_state_def sample_refund_def lock_record_hash_def tagged_hash_def leaf_hash_def)
qed

end
