(* ===== verification/Da.thy ===== *)
theory Da
  imports Spv
begin

text \<open>
  The Live DA bundle (\<^verbatim>\<open>satusd-da/src/lib.rs\<close>): sections, the bundle's root, and its wire form.
  Shown here: a bundle is decoded back from its encoding, whatever decodes was that encoding
  (up to the root its header declares), and two bundles under one root are a SHA-256 collision.
\<close>

definition MAGIC :: bytes where
  "MAGIC = ascii ''SUSDDA01''"

definition VERSION :: u8 where
  "VERSION = 1"

record Section =
  sec_id :: u8
  sec_content :: bytes

definition section_wire :: "Section \<Rightarrow> bytes" where
  "section_wire s = [sec_id s] @ to_be (word_of_nat (length (sec_content s)) :: u32) @ sec_content s"

definition section_hash :: "crypto \<Rightarrow> Section \<Rightarrow> b32" where
  "section_hash C s = sha256 C [section_wire s]"

record LiveDABundle =
  da_claim_id :: b32
  da_state_epoch :: u64
  da_sections :: "Section list"

datatype DaError = BadMagic | UnsupportedVersion u8 | Truncated | SizeMismatch

definition bundle_new :: "b32 \<Rightarrow> u64 \<Rightarrow> Section list \<Rightarrow> LiveDABundle" where
  "bundle_new claim_id state_epoch sections =
     \<lparr>da_claim_id = claim_id, da_state_epoch = state_epoch, da_sections = sort_key sec_id sections\<rparr>"

definition live_da_root :: "crypto \<Rightarrow> LiveDABundle \<Rightarrow> b32" where
  "live_da_root C b = sha256 C [concat (map (\<lambda>s. bs (section_hash C s)) (da_sections b))]"

definition has_section :: "LiveDABundle \<Rightarrow> u8 \<Rightarrow> bool" where
  "has_section b id' = list_ex (\<lambda>s. sec_id s = id') (da_sections b)"

definition section_of :: "LiveDABundle \<Rightarrow> u8 \<Rightarrow> bytes option" where
  "section_of b id' = map_option sec_content (find (\<lambda>s. sec_id s = id') (da_sections b))"

definition sections_wire :: "LiveDABundle \<Rightarrow> bytes" where
  "sections_wire b = concat (map section_wire (da_sections b))"

text \<open>The wire form with a given root in the header; \<open>encode\<close> puts the recomputed one there.\<close>

definition encode_with_root :: "b32 \<Rightarrow> LiveDABundle \<Rightarrow> bytes" where
  "encode_with_root root b =
     (let sections = sections_wire b
      in MAGIC @ [VERSION] @ bs (da_claim_id b) @ to_be (da_state_epoch b) @ bs root
           @ to_be (word_of_nat (length sections) :: u32) @ sections)"

definition bundle_encode :: "crypto \<Rightarrow> LiveDABundle \<Rightarrow> bytes" where
  "bundle_encode C b = encode_with_root (live_da_root C b) b"

text \<open>
  The loop over the body: a position never exceeds its length, so \<^verbatim>\<open>checked_add\<close> does not fail
  before the comparison with the length does.
\<close>

function section_loop :: "bytes \<Rightarrow> nat \<Rightarrow> Section list \<Rightarrow> (DaError, Section list) res" where
  "section_loop body i sections =
     (if \<not> i < length body then Ok sections
      else if i + 5 > length body then Err Truncated
      else let id' = body ! i; size' = unat (from_be (sub body (i + 1) (i + 5)) :: u32);
               start = i + 5; stop = start + size' in
      if stop > length body then Err Truncated
      else section_loop body stop (sections @ [\<lparr>sec_id = id', sec_content = sub body start stop\<rparr>]))"
  by pat_completeness auto
termination
  by (relation "measure (\<lambda>(body, i, sections). length body - i)") auto

declare section_loop.simps [simp del]

definition decode :: "bytes \<Rightarrow> (DaError, LiveDABundle \<times> b32) res" where
  "decode b =
     (if length b < 85 then Err Truncated
      else if sub b 0 8 \<noteq> MAGIC then Err BadMagic
      else let version = b ! 8 in
      if version \<noteq> VERSION then Err (UnsupportedVersion version)
      else let claim_id = barr_of (sub b 9 41); state_epoch = from_be (sub b 41 49);
               declared_root = barr_of (sub b 49 81);
               bundle_size = unat (from_be (sub b 81 85) :: u32); body = drop 85 b in
      if length body \<noteq> bundle_size then Err SizeMismatch
      else rbind (section_loop body 0 []) (\<lambda>sections.
        Ok (\<lparr>da_claim_id = claim_id, da_state_epoch = state_epoch, da_sections = sections\<rparr>,
            declared_root)))"

section \<open>Decoding and encoding\<close>

lemma length_MAGIC [simp]: "length MAGIC = 8"
  by (simp add: MAGIC_def ascii_def)

lemma section_wire_step:
  assumes "i < length body" and "\<not> i + 5 > length body"
    and "stop = i + 5 + unat (from_be (sub body (i + 1) (i + 5)) :: u32)" and "\<not> stop > length body"
  shows "section_wire \<lparr>sec_id = body ! i, sec_content = sub body (i + 5) stop\<rparr> = sub body i stop"
proof -
  let ?l = "sub body (i + 1) (i + 5)"
  have l: "length ?l = 4" using assms(2) by (simp add: sub_def)
  have c: "length (sub body (i + 5) stop) = unat (from_be ?l :: u32)"
    using assms(3,4) by (simp add: sub_def)
  have "to_be (word_of_nat (length (sub body (i + 5) stop)) :: u32) = ?l"
    unfolding c using l by (simp add: to_be_from_be)
  moreover have "sub body i stop = body ! i # ?l @ sub body (i + 5) stop"
  proof -
    have "drop i body = body ! i # drop (i + 1) body" using assms(1) by (simp add: Cons_nth_drop_Suc)
    moreover have "stop - i = Suc (stop - i - 1)" using assms(3) by arith
    ultimately have "sub body i stop = body ! i # take (stop - i - 1) (drop (i + 1) body)"
      unfolding sub_def by (metis take_Suc_Cons)
    also have "take (stop - i - 1) (drop (i + 1) body) =
        take (4 + (stop - (i + 5))) (drop (i + 1) body)" using assms(3) by simp
    also have "... = ?l @ sub body (i + 5) stop"
      by (simp only: take_add drop_drop sub_def) (simp add: add.commute)
    finally show ?thesis .
  qed
  ultimately show ?thesis by (simp add: section_wire_def)
qed

lemma section_loop_Ok:
  "i \<le> length body \<Longrightarrow> section_loop body i acc = Ok out \<Longrightarrow>
     \<exists>new. out = acc @ new \<and> drop i body = concat (map section_wire new)"
proof (induction body i acc rule: section_loop.induct)
  case (1 body i acc)
  show ?case
  proof (cases "i < length body")
    case False
    then show ?thesis using "1.prems" by (intro exI [of _ "[]"]) (simp add: section_loop.simps [of body "length body"])
  next
    case True
    define stop where "stop = i + 5 + unat (from_be (sub body (i + 1) (i + 5)) :: u32)"
    let ?s = "\<lparr>sec_id = body ! i, sec_content = sub body (i + 5) stop\<rparr>"
    have ok: "\<not> i + 5 > length body" "\<not> stop > length body"
      and rest: "section_loop body stop (acc @ [?s]) = Ok out"
      using "1.prems"(2) True unfolding section_loop.simps [of body i] stop_def
      by (auto simp: Let_def res_simps split: if_splits)
    have "\<exists>new. out = (acc @ [?s]) @ new \<and> drop stop body = concat (map section_wire new)"
      by (rule "1.IH") (use True ok rest stop_def in simp_all)
    then obtain new where new: "out = acc @ ?s # new" "drop stop body = concat (map section_wire new)"
      by auto
    have "drop i body = sub body i stop @ drop stop body"
      unfolding sub_def using stop_def by (metis append_take_drop_id drop_drop le_add_diff_inverse2 add.assoc le_add1)
    then have "drop i body = concat (map section_wire (?s # new))"
      using section_wire_step [OF True ok(1) stop_def ok(2)] new(2) by simp
    then show ?thesis using new(1) by blast
  qed
qed

lemma section_loop_encoded:
  "i \<le> length body \<Longrightarrow> drop i body = concat (map section_wire new) \<Longrightarrow>
     \<forall>s\<in>set new. length (sec_content s) < 2 ^ 32 \<Longrightarrow> section_loop body i acc = Ok (acc @ new)"
proof (induction new arbitrary: i acc)
  case Nil
  then show ?case by (simp add: section_loop.simps [of body i])
next
  case (Cons s new)
  let ?n = "length (sec_content s)"
  have d: "drop i body = sec_id s # to_be (word_of_nat ?n :: u32) @ sec_content s @ concat (map section_wire new)"
    using Cons.prems(2) by (simp add: section_wire_def [of s])
  have len: "length body = i + (5 + ?n + length (concat (map section_wire new)))"
    using arg_cong [OF d, of length] Cons.prems(1) by simp
  have at: "body ! i = sec_id s"
    using d len by (metis drop_eq_Nil hd_drop_conv_nth leD length_drop list.distinct(1) list.sel(1) not_le)
  have d1: "drop (i + 1) body = to_be (word_of_nat ?n :: u32) @ sec_content s @ concat (map section_wire new)"
    using d by (metis Suc_eq_plus1 drop_Suc list.sel(3) tl_drop)
  have l4: "sub body (i + 1) (i + 5) = to_be (word_of_nat ?n :: u32)"
    unfolding sub_def d1 by simp
  have size: "unat (from_be (sub body (i + 1) (i + 5)) :: u32) = ?n"
    unfolding l4 using Cons.prems(3) by (simp add: unat_word_of_nat)
  have d5: "drop (i + 5) body = sec_content s @ concat (map section_wire new)"
    using arg_cong [OF d1, of "drop 4"] by (simp add: add.commute)
  have con: "sub body (i + 5) (i + 5 + ?n) = sec_content s"
    unfolding sub_def d5 by simp
  have eta: "\<lparr>sec_id = sec_id s, sec_content = sec_content s\<rparr> = s" by (cases s) simp
  have "section_loop body i acc = section_loop body (i + 5 + ?n) (acc @ [s])"
    using len unfolding section_loop.simps [of body i] Let_def at size con eta by simp
  also have "... = Ok ((acc @ [s]) @ new)"
  proof (rule Cons.IH)
    show "drop (i + 5 + ?n) body = concat (map section_wire new)"
      using arg_cong [OF d5, of "drop ?n"] by (simp add: add.commute)
  qed (use len Cons.prems(3) in simp_all)
  finally show ?case by simp
qed

lemma section_wire_loop:
  "section_loop body 0 [] = Ok out \<Longrightarrow> body = concat (map section_wire out)"
  using section_loop_Ok [of 0 body "[]" out] by auto

lemma header_fields:
  fixes cid root :: b32 and epoch :: u64 and size' :: u32
  assumes "h = MAGIC @ [v] @ bs cid @ to_be epoch @ bs root @ to_be size' @ body"
  shows "sub h 0 8 = MAGIC" and "h ! 8 = v" and "sub h 9 41 = bs cid" and "sub h 41 49 = to_be epoch"
    and "sub h 49 81 = bs root" and "sub h 81 85 = to_be size'" and "drop 85 h = body"
  by (simp_all add: assms sub_def nth_append)

lemma header_split:
  assumes "85 \<le> length h"
  shows "h = sub h 0 8 @ [h ! 8] @ sub h 9 41 @ sub h 41 49 @ sub h 49 81 @ sub h 81 85 @ drop 85 h"
proof -
  have c: "drop i h = sub h i j @ drop j h" if "i \<le> j" for i j
    using append_take_drop_id [of "j - i" "drop i h"] that by (simp add: sub_def)
  have "drop 0 h = sub h 0 8 @ drop 8 h" by (rule c) simp
  moreover have "drop 8 h = h ! 8 # drop 9 h" using assms by (subst Cons_nth_drop_Suc [symmetric]) simp_all
  moreover have "drop 9 h = sub h 9 41 @ drop 41 h" by (rule c) simp
  moreover have "drop 41 h = sub h 41 49 @ drop 49 h" by (rule c) simp
  moreover have "drop 49 h = sub h 49 81 @ drop 81 h" by (rule c) simp
  moreover have "drop 81 h = sub h 81 85 @ drop 85 h" by (rule c) simp
  ultimately show ?thesis by (metis append_Cons append_Nil drop0)
qed

lemma section_sizes:
  "length (sections_wire b) < 2 ^ 32 \<Longrightarrow> \<forall>s\<in>set (da_sections b). length (sec_content s) < 2 ^ 32"
proof
  fix s assume b: "length (sections_wire b) < 2 ^ 32" and s: "s \<in> set (da_sections b)"
  have "length (section_wire s) \<le> length (sections_wire b)"
    unfolding sections_wire_def length_concat map_map by (rule member_le_sum_list) (use s in auto)
  then show "length (sec_content s) < 2 ^ 32" using b by (simp add: section_wire_def)
qed

lemma decode_encode_with_root:
  assumes "length (sections_wire b) < 2 ^ 32"
  shows "decode (encode_with_root root b) = Ok (b, root)"
proof -
  let ?size = "word_of_nat (length (sections_wire b)) :: u32"
  define h where "h = encode_with_root root b"
  have eq: "h = MAGIC @ [VERSION] @ bs (da_claim_id b) @ to_be (da_state_epoch b) @ bs root @
      to_be ?size @ sections_wire b"
    by (simp add: h_def encode_with_root_def Let_def)
  have loop: "section_loop (sections_wire b) 0 [] = Ok (da_sections b)"
    using section_loop_encoded [of 0 "sections_wire b" "da_sections b" "[]"] section_sizes [OF assms]
    by (simp add: sections_wire_def)
  have len: "\<not> length h < 85" by (simp add: eq)
  have size: "unat ?size = length (sections_wire b)"
    using assms by (simp add: unat_word_of_nat)
  show ?thesis
    unfolding h_def [symmetric] decode_def
    using len by (simp add: header_fields [OF eq] size loop)
qed

text \<open>
  decoding is canonical: whatever decodes is, byte for byte, the wire form of the bundle it
  decodes to under the root it declares.
\<close>
lemma decode_canonical:
  assumes "decode h = Ok (b, root)"
  shows "encode_with_root root b = h"
proof -
  have len: "85 \<le> length h" and magic: "sub h 0 8 = MAGIC" and v: "h ! 8 = VERSION"
    and size: "length (drop 85 h) = unat (from_be (sub h 81 85) :: u32)"
    and loop: "section_loop (drop 85 h) 0 [] = Ok (da_sections b)"
    and f: "da_claim_id b = barr_of (sub h 9 41)" "da_state_epoch b = from_be (sub h 41 49)"
      "root = barr_of (sub h 49 81)"
    using assms unfolding decode_def Let_def by (auto simp: res_simps split: if_splits)
  have l: "length (sub h 9 41) = 32" "length (sub h 41 49) = 8" "length (sub h 49 81) = 32"
    "length (sub h 81 85) = 4"
    using len by (simp_all add: sub_def)
  have body: "sections_wire b = drop 85 h"
    using section_wire_loop [OF loop] by (simp add: sections_wire_def)
  have s4: "to_be (word_of_nat (length (sections_wire b)) :: u32) = sub h 81 85"
  proof -
    have "to_be (from_be (sub h 81 85) :: u32) = sub h 81 85"
      using l(4) by (simp add: to_be_from_be)
    then show ?thesis unfolding body size by simp
  qed
  show ?thesis
    using header_split [OF len] unfolding encode_with_root_def Let_def s4 unfolding body f
    by (simp add: l magic v to_be_from_be)
qed

section \<open>What the root binds\<close>

lemma section_wire_inject:
  assumes "length (sec_content s) < 2 ^ 32" and "length (sec_content t) < 2 ^ 32"
  shows "section_wire s = section_wire t \<longleftrightarrow> s = t"
  by (cases s; cases t) (auto simp: section_wire_def)

text \<open>The first section pair whose preimages differ, or else the two concatenated hash strings.\<close>

definition hash_string :: "crypto \<Rightarrow> Section list \<Rightarrow> bytes" where
  "hash_string C ss = concat (map (\<lambda>s. bs (section_hash C s)) ss)"

fun section_collision :: "crypto \<Rightarrow> Section list \<Rightarrow> Section list \<Rightarrow> bytes \<times> bytes" where
  "section_collision C (s # ss) (t # ts) =
     (if section_wire s \<noteq> section_wire t then (section_wire s, section_wire t)
      else section_collision C ss ts)"
| "section_collision C [] ts = ([], [])"
| "section_collision C (s # ss) [] = ([], [])"

definition da_collision :: "crypto \<Rightarrow> LiveDABundle \<Rightarrow> LiveDABundle \<Rightarrow> bytes \<times> bytes" where
  "da_collision C a b =
     (if hash_string C (da_sections a) \<noteq> hash_string C (da_sections b)
      then (hash_string C (da_sections a), hash_string C (da_sections b))
      else section_collision C (da_sections a) (da_sections b))"

lemma section_collision_sound:
  "hash_string C ss = hash_string C ts \<Longrightarrow> ss \<noteq> ts \<Longrightarrow>
     \<forall>s\<in>set ss \<union> set ts. length (sec_content s) < 2 ^ 32 \<Longrightarrow>
     sha_collides C (section_collision C ss ts)"
proof (induction C ss ts rule: section_collision.induct)
  case (1 C s ss t ts)
  have h: "section_hash C s = section_hash C t" "hash_string C ss = hash_string C ts"
    using "1.prems"(1) by (simp_all add: hash_string_def)
  show ?case
  proof (cases "section_wire s = section_wire t")
    case True
    then have "s = t" using "1.prems"(3) section_wire_inject by simp
    then show ?thesis using "1.IH" [OF _ h(2)] "1.prems"(2,3) by simp
  next
    case False
    then show ?thesis using h(1) by (simp add: sha_collides_def section_hash_def sha256_def)
  qed
next
  case (2 C ts)
  then show ?case by (cases ts) (auto simp: hash_string_def dest: arg_cong [where f = length])
qed (auto simp: hash_string_def dest: arg_cong [where f = length])

text \<open>
  the Live DA root binds the sections: two bundles with different sections under one root
  exhibit a SHA-256 collision, and the model computes it.
\<close>
lemma live_da_root_binds:
  assumes "live_da_root C a = live_da_root C b" and "da_sections a \<noteq> da_sections b"
    and "length (sections_wire a) < 2 ^ 32" and "length (sections_wire b) < 2 ^ 32"
  shows "sha_collides C (da_collision C a b)"
proof (cases "hash_string C (da_sections a) = hash_string C (da_sections b)")
  case True
  then show ?thesis
    using section_collision_sound [OF True assms(2)] section_sizes [OF assms(3)] section_sizes [OF assms(4)]
    by (auto simp: da_collision_def)
next
  case False
  then show ?thesis
    using assms(1) by (simp add: da_collision_def sha_collides_def live_da_root_def sha256_def hash_string_def)
qed

section \<open>Properties\<close>

text \<open>
  C11: decoding inverts encoding: a bundle below 4 GiB of sections is read back from its wire form,
  with its recomputed root as the declared one.
\<close>
lemma bundle_round_trip:
  assumes "length (sections_wire b) < 2 ^ 32"
  shows "decode (bundle_encode C b) = Ok (b, live_da_root C b)"
  unfolding bundle_encode_def using assms by (rule decode_encode_with_root)

definition sample_bundle :: "byte \<Rightarrow> LiveDABundle" where
  "sample_bundle x = bundle_new (fill 7) 3 [\<lparr>sec_id = 2, sec_content = [x]\<rparr>, \<lparr>sec_id = 1, sec_content = []\<rparr>]"

lemma sample_bundle_wire: "length (sections_wire (sample_bundle x)) < 2 ^ 32"
  by (simp add: sample_bundle_def bundle_new_def sections_wire_def section_wire_def)

lemma bundle_round_trip_witness:
  "decode (bundle_encode const_crypto (sample_bundle 4)) = Ok (sample_bundle 4, fill 0)"
  using bundle_round_trip [OF sample_bundle_wire, of const_crypto 4] by (simp add: live_da_root_def)

lemma decode_canonical_witness:
  "encode_with_root (fill 0) (sample_bundle 4) = bundle_encode const_crypto (sample_bundle 4)"
  by (rule decode_canonical)
    (simp add: decode_encode_with_root sample_bundle_wire [simplified] bundle_encode_def live_da_root_def)

lemma live_da_root_binds_witness:
  "sha_collides const_crypto (da_collision const_crypto (sample_bundle 4) (sample_bundle 5))"
  by (rule live_da_root_binds)
    (simp_all add: live_da_root_def sample_bundle_wire [simplified], simp add: sample_bundle_def bundle_new_def)

end
