(* ===== verification/Claim.thy ===== *)
theory Claim
  imports Oracle Redeem Da
begin

text \<open>
  REDEEM_FAST_FINALIZE batched into a reserve claim (\<^verbatim>\<open>satusd-state/src/claim.rs\<close>): the burn proof
  binding, the loop over the redemptions with its running roots and totals, the oracle price, the
  Live DA root and the accounting. Shown here: the loop body and the whole verifier in closed
  form, what an accepted claim does to supply and reservation, and where it can panic.
\<close>

section \<open>The Live DA root of a claim\<close>

definition MTP_LAG_OFFSET_SEC :: u64 where
  "MTP_LAG_OFFSET_SEC = 3600"

record BatchRedemption =
  br_redeem_intent :: RedeemIntent
  br_lock_record :: LockRecord
  br_lock_finalize :: LockFinalizeRecord
  br_payout_confirmation :: BtcPayoutConfirmation
  br_lock_membership_proof :: "b32 list"
  br_consumed_exclusion_proof :: "b32 list"
  br_refund_exclusion_proof :: "b32 list"
  br_nullifier_exclusion_proof :: "b32 list"
  br_burn_proof :: bytes

record ReserveClaimWitness =
  cw_claim :: ReserveClaim
  cw_redemptions :: "BatchRedemption list"
  cw_oracle_messages :: "OracleMessage list"
  cw_oracle_signer_set :: "b32 list"
  cw_pending_claim_exclusion_proof :: "b32 list"
  cw_btc_tip_height :: u32

definition claim_sections :: "BatchRedemption list \<Rightarrow> OracleMessage list \<Rightarrow> Section list" where
  "claim_sections redemptions oracle_messages =
     (let intents = fold (\<lambda>r. encode_RedeemIntent (br_redeem_intent r)) redemptions encoder_new;
          locks = fold (\<lambda>r. encode_LockRecord (br_lock_record r)) redemptions encoder_new;
          confs = fold (\<lambda>r. encode_BtcPayoutConfirmation (br_payout_confirmation r)) redemptions encoder_new;
          fins = fold (\<lambda>r. encode_LockFinalizeRecord (br_lock_finalize r)) redemptions encoder_new;
          burns = fold (\<lambda>r. enc_var_bytes (br_burn_proof r)) redemptions encoder_new;
          oracle = fold encode_OracleMessage oracle_messages encoder_new
      in [\<lparr>sec_id = 0x01, sec_content = intents\<rparr>,
          \<lparr>sec_id = 0x02, sec_content = locks\<rparr>,
          \<lparr>sec_id = 0x05, sec_content = confs\<rparr>,
          \<lparr>sec_id = 0x06, sec_content = fins\<rparr>,
          \<lparr>sec_id = 0x07, sec_content = burns\<rparr>,
          \<lparr>sec_id = 0x08, sec_content = oracle\<rparr>])"

definition live_da_root_for_claim ::
  "crypto \<Rightarrow> BatchRedemption list \<Rightarrow> OracleMessage list \<Rightarrow> b32" where
  "live_da_root_for_claim C redemptions oracle_messages =
     live_da_root C (bundle_new (fill 0) 0 (claim_sections redemptions oracle_messages))"

section \<open>Rejections\<close>

datatype ClaimRejectReason =
    WrongTransitionType
  | BadStateLinkage
  | ClaimLinkageMismatch
  | ChainTimeInconsistent
  | Oracle OracleRejectReason
  | OraclePriceMismatch
  | Spv SpvError
  | Redeem RedeemRejectReason
  | EmptyBatch
  | DuplicateInBatch
  | OperatorMismatch
  | PreimageNotRevealed
  | PayoutTooLow
  | ReimbursementMismatch
  | RedemptionBatchRootMismatch
  | LiveDaRootMismatch
  | ClaimIdMismatch
  | DuplicateClaim
  | PostStateMismatch
  | Overflow
  | BurnProofMalformed
  | BurnProofInvalid
  | BurnProofScriptKeyMismatch
  | BurnProofAmountMismatch
  | BurnProofFamilyMismatch
  | BurnProofAnchorMismatch
  | BurnProofHashMismatch

section \<open>The burn proof binding\<close>

definition check_burn_proof_binding ::
  "crypto \<Rightarrow> bytes \<Rightarrow> LockFinalizeRecord \<Rightarrow> b32 \<Rightarrow> u8 \<Rightarrow> (ClaimRejectReason, unit) res" where
  "check_burn_proof_binding C burn_proof_bytes fin family_id chain_id =
     rbind (map_err (\<lambda>_. BurnProofMalformed) (parse_proof_file C burn_proof_bytes)) (\<lambda>file.
     rbind (map_err (\<lambda>_. BurnProofMalformed) (parsed file)) (\<lambda>proofs.
     rbind (map_err (\<lambda>_. ClaimRejectReason.BurnProofInvalid) (verify_lineage C proofs)) (\<lambda>head.
     rbind (if proofs = [] then Err ClaimRejectReason.BurnProofInvalid
            else map_err (\<lambda>_. BurnProofMalformed) (proof_asset_leaf (last proofs))) (\<lambda>head_leaf.
     if length (al_script_key head_leaf) \<noteq> 33 then Err BurnProofMalformed
     else if sub (al_script_key head_leaf) 1 33 \<noteq> bs (lf_protocol_sink_script_key fin)
       then Err BurnProofScriptKeyMismatch
     else if al_amount head_leaf \<noteq> lf_finalized_amount_atoms fin then Err BurnProofAmountMismatch
     else rbind (ok_or (Option.bind (al_group_key head_leaf) arr_try) BurnProofFamilyMismatch) (\<lambda>group_key.
     let family = asset_family_id C (asset_id C (al_genesis head_leaf)) group_key chain_id in
     if family \<noteq> family_id then Err BurnProofFamilyMismatch
     else if \<not> (ai_txid head = op_txid (lf_finalize_anchor_outpoint fin)
         \<and> ai_output_index head = op_vout (lf_finalize_anchor_outpoint fin)) then Err BurnProofAnchorMismatch
     else if lineage_proof_hash C burn_proof_bytes \<noteq> lf_universe_burn_proof_hash fin
       then Err BurnProofHashMismatch
     else Ok ())))))"

section \<open>The verifier\<close>

text \<open>Step 1: the claim's and the new state's link to the state before.\<close>

definition claim_linkage ::
  "crypto \<Rightarrow> StateRoot \<Rightarrow> StateRoot \<Rightarrow> ReserveClaim \<Rightarrow> (ClaimRejectReason, unit) res" where
  "claim_linkage C prev new claim =
     (let ttype = transition_type_as_u8 RedeemFastFinalize in
      if sr_transition_type new \<noteq> ttype then Err WrongTransitionType
      else if sr_state_epoch new \<noteq> sr_state_epoch prev + 1 then Err BadStateLinkage
      else let prev_hash = state_root_hash C prev in
      if sr_prev_state_root new \<noteq> prev_hash then Err BadStateLinkage
      else if rc_transition_type claim \<noteq> ttype then Err ClaimLinkageMismatch
      else if rc_prev_state_root claim \<noteq> prev_hash then Err ClaimLinkageMismatch
      else if rc_new_state_root claim \<noteq> state_root_hash C new then Err ClaimLinkageMismatch
      else Ok ())"

text \<open>Step 2: the price the whole batch is valued at.\<close>

definition claim_oracle_params :: "StateRoot \<Rightarrow> ReserveClaimWitness \<Rightarrow> u64 \<Rightarrow> OracleParams" where
  "claim_oracle_params prev w chain_time =
     \<lparr>orp_expected_oracle_set_epoch = sr_oracle_set_epoch prev,
      orp_expected_oracle_set_hash = sr_oracle_set_hash prev,
      orp_chain_time_sec = chain_time,
      orp_max_epoch_lag_sec = cc_max_epoch_lag_sec (rc_l1_anchor (cw_claim w)),
      orp_oracle_future_tolerance_sec = cc_oracle_future_tolerance (rc_l1_anchor (cw_claim w)),
      orp_signer_set = cw_oracle_signer_set w\<rparr>"

definition claim_price ::
  "crypto \<Rightarrow> StateRoot \<Rightarrow> ReserveClaimWitness \<Rightarrow> (ClaimRejectReason, u64) res" where
  "claim_price C prev w =
     (let anchor = rc_l1_anchor (cw_claim w) in
      rbind (ok_or (checked_add (sr_l1_anchor_mtp prev) MTP_LAG_OFFSET_SEC) Overflow) (\<lambda>chain_time.
      if cc_l1_anchor_chain_time anchor \<noteq> chain_time then Err ChainTimeInconsistent
      else rbind (map_err Oracle (verify_signatures C (cw_oracle_messages w))) (\<lambda>_.
      rbind (map_err Oracle (aggregate C (cw_oracle_messages w) (claim_oracle_params prev w chain_time)))
        (\<lambda>price.
      if cc_selected_oracle_price_e8 anchor \<noteq> price then Err OraclePriceMismatch
      else Ok price))))"

text \<open>Step 3: the loop state, the lock checks, the payout and burn checks, the sums.\<close>

record batch_state =
  bt_consumed_root :: b32
  bt_nullifier_root :: b32
  bt_total_amount :: u128
  bt_total_gross :: u128
  bt_leaves :: "b32 list"
  bt_seen :: "b32 list"

definition redemption_lock_checks ::
  "crypto \<Rightarrow> StateRoot \<Rightarrow> ReserveClaim \<Rightarrow> BatchRedemption \<Rightarrow> batch_state
     \<Rightarrow> (ClaimRejectReason, b32 \<times> b32) res" where
  "redemption_lock_checks C prev claim r st =
     rbind (map_err Redeem (check_intent_lock_binding C (br_redeem_intent r) (br_lock_record r)
       (sr_satusd_asset_family_id prev))) (\<lambda>_.
     if ri_operator_id (br_redeem_intent r) \<noteq> Some (rc_operator_id claim) then Err OperatorMismatch
     else let lr_hash = lock_record_hash C (br_lock_record r) in
     if lr_hash \<in> set (bt_seen st) then Err DuplicateInBatch
     else if \<not> verify_inclusion C (sr_lock_record_root prev) lr_hash SET_MEMBER (br_lock_membership_proof r)
       then Err (Redeem LockNotActive)
     else if \<not> verify_exclusion C (bt_consumed_root st) lr_hash (br_consumed_exclusion_proof r)
       then Err (Redeem LockConsumed)
     else if \<not> verify_exclusion C (sr_lock_refund_root prev) lr_hash (br_refund_exclusion_proof r)
       then Err (Redeem LockRefunded)
     else let nf = redemption_nullifier C (lr_lock_anchor_outpoint (br_lock_record r))
            (lr_lock_script_key (br_lock_record r)) (lr_redeem_intent_hash (br_lock_record r)) in
     if \<not> verify_exclusion C (bt_nullifier_root st) nf (br_nullifier_exclusion_proof r)
       then Err (Redeem NullifierUsed)
     else Ok (lr_hash, nf))"

definition redemption_payout_checks ::
  "crypto \<Rightarrow> StateRoot \<Rightarrow> ReserveClaim \<Rightarrow> u32 \<Rightarrow> BatchRedemption \<Rightarrow> (ClaimRejectReason, unit) res" where
  "redemption_payout_checks C prev claim tip r =
     (let intent = br_redeem_intent r; fin = br_lock_finalize r in
      if sha256 C [bs (lf_payment_preimage fin)] \<noteq> ri_payment_hash intent
        then Err (Redeem PreimageMismatch)
      else if pc_revealed_preimage (br_payout_confirmation r) \<noteq> lf_payment_preimage fin
        then Err PreimageNotRevealed
      else rbind (map_err Spv (verify_payout_confirmation C (br_payout_confirmation r)
        (ri_payment_hash intent) (unat BTC_CLAIM_CONFIRMATION_DEPTH) tip)) (\<lambda>_.
      rbind (protocol_sink_script_key C (sr_satusd_asset_family_id prev)) (\<lambda>sink.
      if lf_protocol_sink_script_key fin \<noteq> sink then Err (Redeem BurnSinkMismatch)
      else rbind (protocol_burn_internal_key C (sr_satusd_asset_family_id prev)) (\<lambda>internal.
      if lf_protocol_burn_internal_key fin \<noteq> internal then Err (Redeem BurnInternalKeyMismatch)
      else rbind (check_burn_proof_binding C (br_burn_proof r) fin (sr_satusd_asset_family_id prev)
        (ri_network intent)) (\<lambda>_.
      if lf_finalized_amount_atoms fin \<noteq> lr_lock_amount_atoms (br_lock_record r)
        then Err (Redeem FinalizeAmountMismatch)
      else if lf_operator_id fin \<noteq> rc_operator_id claim then Err (Redeem FinalizeOperatorMismatch)
      else Ok ())))))"

text \<open>\<^verbatim>\<open>gross - max_fee\<close> is unchecked: a fee above 10000 basis points wraps.\<close>

definition redemption_gross ::
  "u64 \<Rightarrow> BatchRedemption \<Rightarrow> (ClaimRejectReason, u128) res" where
  "redemption_gross price r =
     rbind (ok_or (checked_mul (ucast (lr_lock_amount_atoms (br_lock_record r))) (10 ^ 14)) Overflow)
       (\<lambda>scaled :: u128.
     if price = 0 then Panic
     else let gross = scaled div ucast price in
     rbind (ok_or (checked_mul gross (ucast (ri_max_operator_fee_bps (br_redeem_intent r)))) Overflow)
       (\<lambda>fee. let max_fee = fee div 10000 in
     if \<not> ucast (pc_htlc_output_value_sats (br_payout_confirmation r)) \<ge> gross - max_fee
       then Err PayoutTooLow else Ok gross))"

definition redemption_step ::
  "crypto \<Rightarrow> StateRoot \<Rightarrow> ReserveClaim \<Rightarrow> u64 \<Rightarrow> u32 \<Rightarrow> BatchRedemption \<Rightarrow> batch_state
     \<Rightarrow> (ClaimRejectReason, batch_state) res" where
  "redemption_step C prev claim price tip r st =
     rbind (redemption_lock_checks C prev claim r st) (\<lambda>(lr_hash, nf).
     rbind (redemption_payout_checks C prev claim tip r) (\<lambda>_.
     rbind (redemption_gross price r) (\<lambda>gross.
     rbind (ok_or (checked_add (bt_total_amount st)
       (ucast (ri_amount_satusd_atoms (br_redeem_intent r)))) Overflow) (\<lambda>total_amount.
     rbind (ok_or (checked_add (bt_total_gross st) gross) Overflow) (\<lambda>total_gross.
     rbind (root_after_update C lr_hash SET_MEMBER (br_consumed_exclusion_proof r)) (\<lambda>consumed_root.
     rbind (root_after_update C nf SET_MEMBER (br_nullifier_exclusion_proof r)) (\<lambda>nullifier_root.
     Ok \<lparr>bt_consumed_root = consumed_root, bt_nullifier_root = nullifier_root,
         bt_total_amount = total_amount, bt_total_gross = total_gross,
         bt_leaves = bt_leaves st @ [lr_hash], bt_seen = bt_seen st @ [lr_hash]\<rparr>)))))))"

definition batch_start :: "StateRoot \<Rightarrow> batch_state" where
  "batch_start prev =
     \<lparr>bt_consumed_root = sr_lock_consumed_root prev,
      bt_nullifier_root = sr_redemption_nullifier_root prev,
      bt_total_amount = 0, bt_total_gross = 0, bt_leaves = [], bt_seen = []\<rparr>"

text \<open>\<^verbatim>\<open>u64::try_from(x)\<close>.\<close>

definition u64_try :: "u128 \<Rightarrow> u64 option" where
  "u64_try x = (if unat x < 2 ^ 64 then Some (ucast x) else None)"

text \<open>Steps 4 and 5: the accounting, the commitments of the claim, the expected state.\<close>

definition claim_accounting ::
  "crypto \<Rightarrow> StateRoot \<Rightarrow> ReserveClaimWitness \<Rightarrow> batch_state \<Rightarrow> (ClaimRejectReason, u64 \<times> u64 \<times> u64) res" where
  "claim_accounting C prev w st =
     rbind (ok_or (u64_try (bt_total_amount st)) Overflow) (\<lambda>total_amount.
     rbind (ok_or (u64_try (bt_total_gross st)) Overflow) (\<lambda>total_gross.
     rbind (ok_or (checked_sub (sr_sat_usd_supply_atoms prev) total_amount) Overflow) (\<lambda>new_supply.
     rbind (ok_or (checked_add (sr_reserved_pending_claim_sats prev) total_gross) Overflow) (\<lambda>new_reserved.
     if rc_reimbursement_sats (cw_claim w) \<noteq> total_gross then Err ReimbursementMismatch
     else rbind (batch_root_be C (bt_leaves st)) (\<lambda>batch_root.
     if rc_redemption_batch_root (cw_claim w) \<noteq> batch_root then Err RedemptionBatchRootMismatch
     else if rc_live_da_root (cw_claim w)
         \<noteq> live_da_root_for_claim C (cw_redemptions w) (cw_oracle_messages w) then Err LiveDaRootMismatch
     else Ok (total_gross, new_supply, new_reserved))))))"

definition claim_pending :: "ReserveClaim \<Rightarrow> b32 \<Rightarrow> u64 \<Rightarrow> PendingClaim" where
  "claim_pending claim id' total_gross =
     \<lparr>cl_claim_id = id', cl_operator_id = rc_operator_id claim, cl_reserved_sats = total_gross,
      cl_claim_created_height = cc_l1_anchor_height (rc_l1_anchor claim),
      cl_claim_expiry_height = rc_claim_expiry_height claim, cl_status = ClaimPending\<rparr>"

definition claim_expected ::
  "crypto \<Rightarrow> StateRoot \<Rightarrow> ReserveClaimWitness \<Rightarrow> u64 \<Rightarrow> batch_state \<Rightarrow> u64 \<times> u64 \<times> u64
     \<Rightarrow> (ClaimRejectReason, StateRoot) res" where
  "claim_expected C prev w price st sums =
     (let (total_gross, new_supply, new_reserved) = sums; claim = cw_claim w;
          id' = derive_claim_id C claim in
      if rc_claim_id claim \<noteq> id' then Err ClaimIdMismatch
      else if \<not> verify_exclusion C (sr_pending_claim_root prev) id' (cw_pending_claim_exclusion_proof w)
        then Err DuplicateClaim
      else let pending = claim_pending claim id' total_gross in
      rbind (collateral_ratio_ppm (sr_reserve_btc_sats prev) new_supply price) (\<lambda>cr.
      rbind (recompute_tier (sr_reserve_btc_sats prev) new_supply price) (\<lambda>tier.
      rbind (root_after_update C id' (pending_claim_hash C pending)
        (cw_pending_claim_exclusion_proof w)) (\<lambda>pending_root.
      Ok (prev\<lparr>
        sr_state_epoch := sr_state_epoch prev + 1,
        sr_prev_state_root := state_root_hash C prev,
        sr_transition_type := transition_type_as_u8 RedeemFastFinalize,
        sr_sat_usd_supply_atoms := new_supply,
        sr_reserved_pending_claim_sats := new_reserved,
        sr_latest_oracle_price_e8 := price,
        sr_collateral_ratio_ppm := unwrap_or cr 0,
        sr_emergency_tier := emergency_tier_as_u8 tier,
        sr_lock_consumed_root := bt_consumed_root st,
        sr_redemption_nullifier_root := bt_nullifier_root st,
        sr_live_da_root := live_da_root_for_claim C (cw_redemptions w) (cw_oracle_messages w),
        sr_pending_claim_root := pending_root\<rparr>)))))"

definition verify_reserve_claim_finalize ::
  "crypto \<Rightarrow> StateRoot \<Rightarrow> StateRoot \<Rightarrow> ReserveClaimWitness \<Rightarrow> (ClaimRejectReason, unit) res" where
  "verify_reserve_claim_finalize C prev new w =
     rbind (claim_linkage C prev new (cw_claim w)) (\<lambda>_.
     rbind (claim_price C prev w) (\<lambda>price.
     if cw_redemptions w = [] then Err EmptyBatch
     else rbind (rfold (redemption_step C prev (cw_claim w) price (cw_btc_tip_height w))
       (cw_redemptions w) (batch_start prev)) (\<lambda>st.
     rbind (claim_accounting C prev w st) (\<lambda>sums.
     rbind (claim_expected C prev w price st sums) (\<lambda>expected.
     if expected = new then Ok () else Err PostStateMismatch)))))"

section \<open>Valuing one redemption\<close>

text \<open>In numbers: the amount at the batch price, rounded down, and the largest fee of it.\<close>

definition gross_sats :: "u64 \<Rightarrow> BatchRedemption \<Rightarrow> nat" where
  "gross_sats price r = unat (lr_lock_amount_atoms (br_lock_record r)) * 10 ^ 14 div unat price"

definition max_fee_sats :: "u64 \<Rightarrow> BatchRedemption \<Rightarrow> nat" where
  "max_fee_sats price r =
     gross_sats price r * unat (ri_max_operator_fee_bps (br_redeem_intent r)) div 10000"

definition pays_enough :: "u64 \<Rightarrow> BatchRedemption \<Rightarrow> bool" where
  "pays_enough price r \<longleftrightarrow> max_fee_sats price r \<le> gross_sats price r \<and>
     gross_sats price r - max_fee_sats price r
       \<le> unat (pc_htlc_output_value_sats (br_payout_confirmation r))"

lemma gross_sats_bound: "gross_sats price r < 2 ^ 111"
proof -
  have "unat (lr_lock_amount_atoms (br_lock_record r)) * 10 ^ 14 < 2 ^ 111"
    by simp (use unat_lt_u64 [of "lr_lock_amount_atoms (br_lock_record r)"] in linarith)
  then show ?thesis unfolding gross_sats_def by (rule le_less_trans [OF div_le_dividend])
qed

lemma max_fee_bound: "max_fee_sats price r < 2 ^ 114"
proof -
  have "gross_sats price r * unat (ri_max_operator_fee_bps (br_redeem_intent r)) \<le> 2 ^ 111 * 65535"
    by (rule mult_le_mono) (use gross_sats_bound [of price r] unat_lt_u16 [of "ri_max_operator_fee_bps (br_redeem_intent r)"] in linarith)+
  then show ?thesis
    unfolding max_fee_sats_def by (simp add: div_less_iff_less_mult)
qed

lemma u128_sub_ge:
  fixes g f v :: u128
  assumes "unat g < 2 ^ 111" and "unat f < 2 ^ 114" and "unat v < 2 ^ 64"
  shows "g - f \<le> v \<longleftrightarrow> unat f \<le> unat g \<and> unat g - unat f \<le> unat v"
proof (cases "unat f \<le> unat g")
  case True
  then show ?thesis by (simp add: word_le_nat_alt unat_sub)
next
  case False
  then have "f \<noteq> 0" and lt: "g < f" by (auto simp: word_less_nat_alt)
  have "unat (g - f) = 2 ^ 128 + unat g - unat f"
    using False unat_sub_if' [of g f] by simp
  then have "2 ^ 64 \<le> unat (g - f)" using assms(2) by simp
  then show ?thesis using False assms(3) by (simp add: word_le_nat_alt)
qed

lemma scaled_fits:
  "checked_mul (ucast a :: u128) (10 ^ 14) = Some (ucast a * 10 ^ 14) \<and>
     unat (ucast a * 10 ^ 14 :: u128) = unat a * 10 ^ 14" for a :: u64
proof -
  have "unat (ucast a :: u128) * unat (10 ^ 14 :: u128) < 2 ^ 128"
    by simp (use unat_lt_u64 [of a] in linarith)
  then show ?thesis
    using unat_mult_lem [of "ucast a :: u128" "10 ^ 14"] by (simp add: checked_mul_def)
qed

lemma redemption_gross_cases:
  "redemption_gross price r =
     (if price = 0 then Panic else if pays_enough price r then Ok (word_of_nat (gross_sats price r))
      else Err PayoutTooLow)"
proof (cases "price = 0")
  case False
  let ?a = "lr_lock_amount_atoms (br_lock_record r)" and ?b = "ri_max_operator_fee_bps (br_redeem_intent r)"
  let ?v = "pc_htlc_output_value_sats (br_payout_confirmation r)"
  define s :: u128 where "s = ucast ?a * 10 ^ 14"
  have s: "unat s = unat ?a * 10 ^ 14" and m: "checked_mul (ucast ?a) (10 ^ 14) = Some s"
    unfolding s_def using scaled_fits [of ?a] by blast+
  define g :: u128 where "g = s div ucast price"
  have g: "unat g = gross_sats price r" by (simp add: g_def unat_div s gross_sats_def)
  have gb: "unat g < 2 ^ 111" unfolding g by (rule gross_sats_bound)
  have "unat g * unat (ucast ?b :: u128) \<le> 2 ^ 111 * 65535"
    by (rule mult_le_mono) (use gb unat_lt_u16 [of ?b] in \<open>simp_all del: unat_lt_u16\<close>)
  then have fits2: "unat g * unat (ucast ?b :: u128) < 2 ^ 128" by simp
  then have f: "checked_mul g (ucast ?b) = Some (g * ucast ?b)" "unat (g * ucast ?b) = unat g * unat ?b"
    using unat_mult_lem [of g "ucast ?b"] by (simp_all add: checked_mul_def)
  have fee: "unat ((g * ucast ?b) div 10000) = max_fee_sats price r"
    by (simp add: unat_div f(2) max_fee_sats_def g)
  have "ucast ?v \<ge> g - (g * ucast ?b) div 10000 \<longleftrightarrow> pays_enough price r"
    unfolding pays_enough_def g [symmetric] fee [symmetric]
    by (subst u128_sub_ge) (use gb max_fee_bound [of price r] fee unat_lt_u64 [of ?v] in simp_all)
  moreover have "word_of_nat (gross_sats price r) = g" unfolding g [symmetric] by simp
  ultimately show ?thesis
    using False m f(1) unfolding redemption_gross_def
    by (simp add: Let_def g_def [symmetric])
qed (simp add: redemption_gross_def scaled_fits [THEN conjunct1, simplified])

section \<open>The loop\<close>

definition lock_key :: "crypto \<Rightarrow> BatchRedemption \<Rightarrow> b32" where
  "lock_key C r = lock_record_hash C (br_lock_record r)"

definition nullifier_key :: "crypto \<Rightarrow> BatchRedemption \<Rightarrow> b32" where
  "nullifier_key C r = redemption_nullifier C (lr_lock_anchor_outpoint (br_lock_record r))
     (lr_lock_script_key (br_lock_record r)) (lr_redeem_intent_hash (br_lock_record r))"

definition amount_atoms :: "BatchRedemption \<Rightarrow> nat" where
  "amount_atoms r = unat (ri_amount_satusd_atoms (br_redeem_intent r))"

text \<open>What is asked of a redemption whatever stands before it in the batch.\<close>

definition redemption_valid ::
  "crypto \<Rightarrow> StateRoot \<Rightarrow> ReserveClaim \<Rightarrow> u64 \<Rightarrow> u32 \<Rightarrow> BatchRedemption \<Rightarrow> bool" where
  "redemption_valid C prev claim price tip r \<longleftrightarrow>
     lock_bound C (br_redeem_intent r) (br_lock_record r) (sr_satusd_asset_family_id prev) \<and>
     ri_operator_id (br_redeem_intent r) = Some (rc_operator_id claim) \<and>
     verify_inclusion C (sr_lock_record_root prev) (lock_key C r) SET_MEMBER (br_lock_membership_proof r) \<and>
     verify_exclusion C (sr_lock_refund_root prev) (lock_key C r) (br_refund_exclusion_proof r) \<and>
     redemption_payout_checks C prev claim tip r = Ok () \<and>
     price \<noteq> 0 \<and> pays_enough price r"

lemma redemption_lock_checks_Ok:
  "redemption_lock_checks C prev claim r st = Ok x \<longleftrightarrow>
     x = (lock_key C r, nullifier_key C r) \<and>
     lock_bound C (br_redeem_intent r) (br_lock_record r) (sr_satusd_asset_family_id prev) \<and>
     ri_operator_id (br_redeem_intent r) = Some (rc_operator_id claim) \<and>
     verify_inclusion C (sr_lock_record_root prev) (lock_key C r) SET_MEMBER (br_lock_membership_proof r) \<and>
     verify_exclusion C (sr_lock_refund_root prev) (lock_key C r) (br_refund_exclusion_proof r) \<and>
     lock_key C r \<notin> set (bt_seen st) \<and>
     verify_exclusion C (bt_consumed_root st) (lock_key C r) (br_consumed_exclusion_proof r) \<and>
     verify_exclusion C (bt_nullifier_root st) (nullifier_key C r) (br_nullifier_exclusion_proof r)"
  unfolding redemption_lock_checks_def Let_def lock_key_def [symmetric] nullifier_key_def [symmetric]
  by (simp add: res_simps check_intent_lock_binding_Ok) blast

lemma redemption_gross_Ok:
  "redemption_gross price r = Ok g \<longleftrightarrow>
     price \<noteq> 0 \<and> pays_enough price r \<and> g = word_of_nat (gross_sats price r)"
  by (auto simp: redemption_gross_cases)

lemma unat_gross: "unat (word_of_nat (gross_sats price r) :: u128) = gross_sats price r"
  using gross_sats_bound [of price r] by (simp add: unat_word_of_nat)

definition member_root :: "crypto \<Rightarrow> b32 \<Rightarrow> b32 list \<Rightarrow> b32" where
  "member_root C k p = fold_to_root C k (leaf_hash C k SET_MEMBER) p"

lemma redemption_step_Ok:
  "redemption_step C prev claim price tip r st = Ok st' \<longleftrightarrow>
     redemption_valid C prev claim price tip r \<and> lock_key C r \<notin> set (bt_seen st) \<and>
     verify_exclusion C (bt_consumed_root st) (lock_key C r) (br_consumed_exclusion_proof r) \<and>
     verify_exclusion C (bt_nullifier_root st) (nullifier_key C r) (br_nullifier_exclusion_proof r) \<and>
     unat (bt_total_amount st) + amount_atoms r < 2 ^ 128 \<and>
     unat (bt_total_gross st) + gross_sats price r < 2 ^ 128 \<and>
     st' = \<lparr>bt_consumed_root = member_root C (lock_key C r) (br_consumed_exclusion_proof r),
       bt_nullifier_root = member_root C (nullifier_key C r) (br_nullifier_exclusion_proof r),
       bt_total_amount = bt_total_amount st + ucast (ri_amount_satusd_atoms (br_redeem_intent r)),
       bt_total_gross = bt_total_gross st + word_of_nat (gross_sats price r),
       bt_leaves = bt_leaves st @ [lock_key C r], bt_seen = bt_seen st @ [lock_key C r]\<rparr>"
  unfolding redemption_step_def redemption_valid_def
  by (simp add: res_simps redemption_lock_checks_Ok redemption_gross_Ok checked_add_Some unat_gross
      root_after_update_Ok split_beta amount_atoms_def member_root_def verify_exclusion_def)
    (intro iffI; elim conjE; intro conjI; simp)

text \<open>The keys and sums the loop has gathered, from any state it starts in.\<close>

lemma redemption_loop_Ok:
  "rfold (redemption_step C prev claim price tip) rs st = Ok st' \<Longrightarrow>
     (\<forall>r\<in>set rs. redemption_valid C prev claim price tip r) \<and>
     distinct (map (lock_key C) rs) \<and> set (map (lock_key C) rs) \<inter> set (bt_seen st) = {} \<and>
     bt_leaves st' = bt_leaves st @ map (lock_key C) rs \<and>
     bt_seen st' = bt_seen st @ map (lock_key C) rs \<and>
     unat (bt_total_amount st') = unat (bt_total_amount st) + sum_list (map amount_atoms rs) \<and>
     unat (bt_total_gross st') = unat (bt_total_gross st) + sum_list (map (gross_sats price) rs)"
proof (induction rs arbitrary: st)
  case Nil
  then show ?case by simp
next
  case (Cons r rs)
  from Cons.prems obtain t where step: "redemption_step C prev claim price tip r st = Ok t"
    and rest: "rfold (redemption_step C prev claim price tip) rs t = Ok st'"
    by (auto simp: res_simps)
  note s = step [unfolded redemption_step_Ok]
  have "unat (bt_total_amount t) = unat (bt_total_amount st) + amount_atoms r"
    using s unat_add_lem [of "bt_total_amount st" "ucast (ri_amount_satusd_atoms (br_redeem_intent r))"]
    by (simp add: amount_atoms_def)
  moreover have "unat (bt_total_gross t) = unat (bt_total_gross st) + gross_sats price r"
    using s unat_add_lem [of "bt_total_gross st" "word_of_nat (gross_sats price r)"]
    by (simp add: unat_gross)
  ultimately show ?case
    using Cons.IH [OF rest] s by auto
qed

lemma u64_try_Some: "u64_try x = Some y \<longleftrightarrow> unat x = unat y"
proof -
  have a: "unat (ucast x :: u64) = unat x" if "unat x < 2 ^ 64"
    using that by (simp add: unsigned_ucast_eq take_bit_nat_eq_self)
  show ?thesis
    using a unat_lt_u64 [of y] by (auto simp: u64_try_def word_unat_eq_iff [where 'a = 64] simp del: unat_lt_u64)
qed

section \<open>An accepted claim\<close>

lemma claim_accounting_Ok:
  assumes "claim_accounting C prev w st = Ok (g, s, h)"
  shows "unat (bt_total_amount st) \<le> unat (sr_sat_usd_supply_atoms prev)"
    and "unat g = unat (bt_total_gross st)"
    and "unat s = unat (sr_sat_usd_supply_atoms prev) - unat (bt_total_amount st)"
    and "unat h = unat (sr_reserved_pending_claim_sats prev) + unat (bt_total_gross st)"
    and "rc_reimbursement_sats (cw_claim w) = g"
    and "batch_root_be C (bt_leaves st) = (Ok (rc_redemption_batch_root (cw_claim w)) :: (ClaimRejectReason, _) res)"
    and "rc_live_da_root (cw_claim w) = live_da_root_for_claim C (cw_redemptions w) (cw_oracle_messages w)"
proof -
  obtain a where a: "unat (bt_total_amount st) = unat a" "a \<le> sr_sat_usd_supply_atoms prev"
      "s = sr_sat_usd_supply_atoms prev - a" and g: "unat (bt_total_gross st) = unat g"
    and h: "checked_add (sr_reserved_pending_claim_sats prev) g = Some h"
    and rest: "rc_reimbursement_sats (cw_claim w) = g"
      "batch_root_be C (bt_leaves st) = (Ok (rc_redemption_batch_root (cw_claim w)) :: (ClaimRejectReason, _) res)"
      "rc_live_da_root (cw_claim w) = live_da_root_for_claim C (cw_redemptions w) (cw_oracle_messages w)"
    using assms unfolding claim_accounting_def
    by (auto simp: res_simps u64_try_Some checked_sub_Some)
  show "unat (bt_total_amount st) \<le> unat (sr_sat_usd_supply_atoms prev)"
    using a by (simp add: word_le_nat_alt)
  show "unat s = unat (sr_sat_usd_supply_atoms prev) - unat (bt_total_amount st)"
    using a by (simp add: word_le_nat_alt unat_sub)
  show "unat h = unat (sr_reserved_pending_claim_sats prev) + unat (bt_total_gross st)"
    using checked_add_unat [OF h] g by simp
  show "unat g = unat (bt_total_gross st)" using g by simp
  show "rc_reimbursement_sats (cw_claim w) = g" and
    "batch_root_be C (bt_leaves st) = (Ok (rc_redemption_batch_root (cw_claim w)) :: (ClaimRejectReason, _) res)" and
    "rc_live_da_root (cw_claim w) = live_da_root_for_claim C (cw_redemptions w) (cw_oracle_messages w)"
    by (fact rest)+
qed

text \<open>The state a claim leads to, given the price and the state its loop ended in.\<close>

definition claim_successor ::
  "crypto \<Rightarrow> StateRoot \<Rightarrow> StateRoot \<Rightarrow> ReserveClaimWitness \<Rightarrow> u64 \<Rightarrow> batch_state \<Rightarrow> u64 \<Rightarrow> u64 \<Rightarrow> bool" where
  "claim_successor C prev new w price st supplied reserved \<longleftrightarrow>
     (\<exists>cr tier.
       (collateral_ratio_ppm (sr_reserve_btc_sats prev) supplied price :: (ClaimRejectReason, _) res) = Ok cr \<and>
       (recompute_tier (sr_reserve_btc_sats prev) supplied price :: (ClaimRejectReason, _) res) = Ok tier \<and>
       new = prev\<lparr>
         sr_state_epoch := sr_state_epoch prev + 1,
         sr_prev_state_root := state_root_hash C prev,
         sr_transition_type := 0x11,
         sr_sat_usd_supply_atoms := supplied,
         sr_reserved_pending_claim_sats := reserved,
         sr_latest_oracle_price_e8 := price,
         sr_collateral_ratio_ppm := unwrap_or cr 0,
         sr_emergency_tier := emergency_tier_as_u8 tier,
         sr_lock_consumed_root := bt_consumed_root st,
         sr_redemption_nullifier_root := bt_nullifier_root st,
         sr_live_da_root := rc_live_da_root (cw_claim w),
         sr_pending_claim_root := fold_to_root C (rc_claim_id (cw_claim w))
           (leaf_hash C (rc_claim_id (cw_claim w)) (pending_claim_hash C
             (claim_pending (cw_claim w) (rc_claim_id (cw_claim w)) (rc_reimbursement_sats (cw_claim w)))))
           (cw_pending_claim_exclusion_proof w)\<rparr>)"

lemma claim_expected_Ok:
  assumes "claim_expected C prev w price st (g, supplied, reserved) = Ok new"
    and "rc_reimbursement_sats (cw_claim w) = g"
    and "rc_live_da_root (cw_claim w) = live_da_root_for_claim C (cw_redemptions w) (cw_oracle_messages w)"
  shows "rc_claim_id (cw_claim w) = derive_claim_id C (cw_claim w)"
    and "verify_exclusion C (sr_pending_claim_root prev) (rc_claim_id (cw_claim w)) (cw_pending_claim_exclusion_proof w)"
    and "claim_successor C prev new w price st supplied reserved"
  using assms unfolding claim_expected_def claim_successor_def Let_def
  by (auto simp: res_simps root_after_update_Ok)

lemma verify_reserve_claim_finalize_Ok:
  assumes "verify_reserve_claim_finalize C prev new w = Ok ()"
  obtains price st supplied reserved where
    "claim_linkage C prev new (cw_claim w) = Ok ()"
    "claim_price C prev w = Ok price"
    "cw_redemptions w \<noteq> []"
    "rfold (redemption_step C prev (cw_claim w) price (cw_btc_tip_height w)) (cw_redemptions w)
       (batch_start prev) = Ok st"
    "claim_accounting C prev w st = Ok (rc_reimbursement_sats (cw_claim w), supplied, reserved)"
    "rc_claim_id (cw_claim w) = derive_claim_id C (cw_claim w)"
    "verify_exclusion C (sr_pending_claim_root prev) (rc_claim_id (cw_claim w)) (cw_pending_claim_exclusion_proof w)"
    "claim_successor C prev new w price st supplied reserved"
proof -
  obtain price st g supplied reserved where
    1: "claim_linkage C prev new (cw_claim w) = Ok ()" "claim_price C prev w = Ok price"
      "cw_redemptions w \<noteq> []"
      "rfold (redemption_step C prev (cw_claim w) price (cw_btc_tip_height w)) (cw_redemptions w)
         (batch_start prev) = Ok st" and
    a: "claim_accounting C prev w st = Ok (g, supplied, reserved)" and
    e: "claim_expected C prev w price st (g, supplied, reserved) = Ok new"
    using assms unfolding verify_reserve_claim_finalize_def
    by (simp add: res_simps split: if_splits)
  note acc = claim_accounting_Ok [OF a] and exp = claim_expected_Ok [OF e claim_accounting_Ok(5,7) [OF a]]
  show ?thesis
    by (rule that [OF 1 _ exp]) (use a acc(5) in simp)
qed

text \<open>The sums a claim moves.\<close>

lemma claim_effect:
  assumes "verify_reserve_claim_finalize C prev new w = Ok ()"
  shows "\<exists>price. claim_price C prev w = Ok price \<and> cw_redemptions w \<noteq> [] \<and>
     distinct (map (lock_key C) (cw_redemptions w)) \<and>
     (\<forall>r\<in>set (cw_redemptions w). redemption_valid C prev (cw_claim w) price (cw_btc_tip_height w) r) \<and>
     unat (rc_reimbursement_sats (cw_claim w)) = sum_list (map (gross_sats price) (cw_redemptions w)) \<and>
     unat (sr_sat_usd_supply_atoms new) + sum_list (map amount_atoms (cw_redemptions w))
       = unat (sr_sat_usd_supply_atoms prev) \<and>
     unat (sr_reserved_pending_claim_sats new) = unat (sr_reserved_pending_claim_sats prev)
       + sum_list (map (gross_sats price) (cw_redemptions w)) \<and>
     sr_reserve_btc_sats new = sr_reserve_btc_sats prev"
proof -
  from assms obtain price st supplied reserved where
    p: "claim_price C prev w = Ok price" "cw_redemptions w \<noteq> []" and
    l: "rfold (redemption_step C prev (cw_claim w) price (cw_btc_tip_height w)) (cw_redemptions w)
       (batch_start prev) = Ok st" and
    a: "claim_accounting C prev w st = Ok (rc_reimbursement_sats (cw_claim w), supplied, reserved)" and
    s: "claim_successor C prev new w price st supplied reserved"
    by (rule verify_reserve_claim_finalize_Ok)
  have "sr_sat_usd_supply_atoms new = supplied" "sr_reserved_pending_claim_sats new = reserved"
    "sr_reserve_btc_sats new = sr_reserve_btc_sats prev"
    using s by (auto simp: claim_successor_def)
  moreover note redemption_loop_Ok [OF l] claim_accounting_Ok(1-4) [OF a]
  ultimately show ?thesis using p by (simp add: batch_start_def)
qed

section \<open>The batch against the trees\<close>

text \<open>
  A run of exclusion proofs, each against the root its predecessor left; the tree with the same
  keys inserted; and the first of the paths that disagrees with the tree's own.
\<close>

fun absent_chain :: "crypto \<Rightarrow> b32 \<Rightarrow> (b32 \<times> b32 list) list \<Rightarrow> b32 \<Rightarrow> bool" where
  "absent_chain C r [] r' \<longleftrightarrow> r' = r"
| "absent_chain C r ((k, p) # ks) r' \<longleftrightarrow> verify_exclusion C r k p \<and> absent_chain C (member_root C k p) ks r'"

fun insert_all :: "crypto \<Rightarrow> b32 list \<Rightarrow> SparseMerkleTree \<Rightarrow> SparseMerkleTree" where
  "insert_all C [] t = t"
| "insert_all C (k # ks) t = insert_all C ks (snd (smt_insert C t k SET_MEMBER))"

fun set_collision :: "crypto \<Rightarrow> (b32 \<times> b32 list) list \<Rightarrow> SparseMerkleTree \<Rightarrow> (fr list \<times> fr list) option" where
  "set_collision C [] t = None"
| "set_collision C ((k, p) # ks) t =
     (case smt_collision C k p (smt_prove C t k) 0 (leaf_of (smt_leaves t) k) of
        Some w \<Rightarrow> Some w
      | None \<Rightarrow> set_collision C ks (snd (smt_insert C t k SET_MEMBER)))"

lemma absent_chain_refines:
  "smt_inv C t \<Longrightarrow> absent_chain C (smt_root C t) ks r \<Longrightarrow>
     case set_collision C ks t of Some w \<Rightarrow> collides C w
     | None \<Rightarrow> r = smt_root C (insert_all C (map fst ks) t)"
proof (induction ks arbitrary: t)
  case (Cons kp ks)
  obtain k p where kp: "kp = (k, p)" by (cases kp)
  let ?w = "smt_collision C k p (smt_prove C t k) 0 (leaf_of (smt_leaves t) k)"
  have x: "fold_to_root C k 0 p = smt_root C t" and rest: "absent_chain C (member_root C k p) ks r"
    using Cons.prems(2) by (simp_all add: kp verify_exclusion_def)
  show ?case
  proof (cases ?w)
    case None
    have "member_root C k p = smt_root C (snd (smt_insert C t k SET_MEMBER))"
      unfolding member_root_def by (rule foreign_path(2) [OF Cons.prems(1) x None])
    then show ?thesis
      using Cons.IH [of "snd (smt_insert C t k SET_MEMBER)"] Cons.prems(1) rest None by (auto simp: kp split: option.splits)
  next
    case (Some w)
    then show ?thesis
      using path_collision_sound by (auto simp: kp smt_collision_def)
  qed
qed simp

definition consumed_paths :: "crypto \<Rightarrow> BatchRedemption list \<Rightarrow> (b32 \<times> b32 list) list" where
  "consumed_paths C rs = map (\<lambda>r. (lock_key C r, br_consumed_exclusion_proof r)) rs"

definition nullifier_paths :: "crypto \<Rightarrow> BatchRedemption list \<Rightarrow> (b32 \<times> b32 list) list" where
  "nullifier_paths C rs = map (\<lambda>r. (nullifier_key C r, br_nullifier_exclusion_proof r)) rs"

lemma redemption_loop_chains:
  "rfold (redemption_step C prev claim price tip) rs st = Ok st' \<Longrightarrow>
     absent_chain C (bt_consumed_root st) (consumed_paths C rs) (bt_consumed_root st') \<and>
     absent_chain C (bt_nullifier_root st) (nullifier_paths C rs) (bt_nullifier_root st')"
proof (induction rs arbitrary: st)
  case (Cons r rs)
  from Cons.prems obtain t where "redemption_step C prev claim price tip r st = Ok t"
    and "rfold (redemption_step C prev claim price tip) rs t = Ok st'"
    by (auto simp: res_simps)
  then show ?case
    using Cons.IH [of t] by (simp add: redemption_step_Ok consumed_paths_def nullifier_paths_def)
qed (simp add: consumed_paths_def nullifier_paths_def)

section \<open>A claim that is accepted\<close>

definition sample_burn_proof :: bytes where
  "sample_burn_proof = written_file const_crypto 0 [reencode sample_proof]"

definition sample_redemption :: BatchRedemption where
  "sample_redemption =
     \<lparr>br_redeem_intent = sample_intent, br_lock_record = sample_lock, br_lock_finalize = sample_lock_finalize,
      br_payout_confirmation = sample_payout\<lparr>pc_claim_tx_legacy := ser_tx 2 [sample_tx_in] [] 0,
        pc_confirmation_headers := replicate 6 (fill 0), pc_htlc_output_value_sats := 1000\<rparr>,
      br_lock_membership_proof = sample_path, br_consumed_exclusion_proof = sample_path,
      br_refund_exclusion_proof = sample_path, br_nullifier_exclusion_proof = sample_path,
      br_burn_proof = sample_burn_proof\<rparr>"

lemma sample_proof_blob:
  "parse_proof (reencode sample_proof) = Ok sample_proof" "length (reencode sample_proof) \<le> 2000"
proof -
  have "length (tlv (prf_records sample_proof)) \<le> 1900"
    by (rule order_trans [OF length_tlv_le])
      (use sample_lengths in \<open>simp add: sample_proof_def\<close>)
  then show l: "length (reencode sample_proof) \<le> 2000"
    by (simp add: reencode_def tlv_def PROOF_MAGIC_def ascii_def)
  show "parse_proof (reencode sample_proof) = Ok sample_proof"
    by (rule parse_proof_reencode) (use l in \<open>simp_all add: sample_proof_def\<close>)
qed

lemma sample_burn_proof_parses:
  "parse_proof_file const_crypto sample_burn_proof = Ok \<lparr>pf_version = 0, pf_proofs = [reencode sample_proof]\<rparr>"
  unfolding sample_burn_proof_def
proof (rule parse_proof_file_written)
  show "length (written_file const_crypto 0 [reencode sample_proof]) < 2 ^ 58"
    using sample_proof_blob(2) length_write_bigsize_le [of "word_of_nat (length (reencode sample_proof))"]
      length_write_bigsize_le [of 1]
    by (simp add: written_file_def FILE_MAGIC_def ascii_def)
  show "\<forall>b\<in>set [reencode sample_proof]. slice_get b 0 4 = Some PROOF_MAGIC"
    using sample_proof_blob(1) by (auto simp: parse_proof_def split: if_splits)
qed

lemma sample_burn_accepted:
  "check_burn_proof_binding const_crypto sample_burn_proof sample_lock_finalize (fill 0) 0 = Ok ()"
proof -
  have leaf: "proof_asset_leaf sample_proof = parse_asset_leaf sample_leaf"
    by (simp add: proof_asset_leaf_def sample_proof_def proof_get_def tlv_get_def)
  have l: "verify_lineage const_crypto [sample_proof] =
      Ok \<lparr>ai_txid = fill 0, ai_output_index = 0, ai_taproot_output_key = fill 0\<rparr>"
    by (simp add: verify_lineage_def lineage_step_def sample_included)
  show ?thesis
    by (simp add: check_burn_proof_binding_def sample_burn_proof_parses parsed_def sample_proof_blob(1) l leaf
        sample_leaf_parses sub_def sample_lock_finalize_def sample_outpoint_def arr_try_def asset_family_id_def
        tagged_hash_def lineage_proof_hash_def bs_fill del: replicate.simps)
qed

text \<open>The claim of one redemption of 100 atoms, for any state it is to lead to.\<close>

definition sample_batch_root :: b32 where
  "sample_batch_root = (case (batch_root_be const_crypto [fill 0] :: (ClaimRejectReason, _) res) of Ok r \<Rightarrow> r | _ \<Rightarrow> fill 0)"

definition sample_claim_witness :: ReserveClaimWitness where
  "sample_claim_witness =
     \<lparr>cw_claim = sample_claim\<lparr>rc_prev_state_root := fr_to_be_bytes 1, rc_new_state_root := fr_to_be_bytes 1,
        rc_redemption_batch_root := sample_batch_root, rc_reimbursement_sats := 1000\<rparr>,
      cw_redemptions = [sample_redemption], cw_oracle_messages = sample_messages,
      cw_oracle_signer_set = map fill [1, 2, 3], cw_pending_claim_exclusion_proof = sample_path,
      cw_btc_tip_height = 6\<rparr>"

lemma sample_payout_accepted:
  "verify_payout_confirmation const_crypto (br_payout_confirmation sample_redemption) (fill 0) 6 6 = Ok ()"
proof -
  have o: "legacy_tx_input_outpoint (ser_tx 2 [sample_tx_in] [] 0) 0 = Some (fill 0, 0)"
    by (subst legacy_tx_input_outpoint_ser) (simp_all add: ser_tx_def ser_in_def ser_out_def sample_tx_in_def compact_size_def)
  show ?thesis
    using const_header
    by (simp add: verify_payout_confirmation_Ok sample_redemption_def sample_payout_def o
        dsha256_def saturating_add_def del: replicate.simps)
qed

lemma sample_aggregate:
  "aggregate const_crypto sample_messages sample_oracle_params = Ok 10000000000000"
  by (simp add: aggregate_Ok sample_oracle_defs message_ok_def oracle_set_hash_def tagged_hash_def is_inlier_nat)

lemma sample_signatures: "verify_signatures const_crypto ms = Ok ()"
proof -
  have v: "verify_eddsa_babyjub const_crypto k m g" for k m g
    by (simp add: verify_eddsa_babyjub_def)
  show ?thesis by (induction ms) (simp_all add: verify_signatures_def verify_signature_step_def v)
qed

lemma sample_claim_price: "claim_price const_crypto sample_state sample_claim_witness = Ok 10000000000000"
proof -
  have "claim_oracle_params sample_state sample_claim_witness 3600 = sample_oracle_params"
    by (simp add: claim_oracle_params_def sample_state_def sample_claim_witness_def sample_oracle_params_def
        sample_claim_def sample_clock_def)
  then show ?thesis
    using sample_aggregate
    by (simp add: claim_price_def sample_claim_witness_def sample_claim_def sample_clock_def sample_state_def
        sample_signatures MTP_LAG_OFFSET_SEC_def checked_add_def)
qed

lemma sample_redemption_valid:
  "redemption_valid const_crypto sample_state (cw_claim sample_claim_witness) 10000000000000 6 sample_redemption"
proof -
  have s: "protocol_sink_script_key const_crypto f = (Ok (fill 0) :: (ClaimRejectReason, _) res)"
    "protocol_burn_internal_key const_crypto f = (Ok (fill 0) :: (ClaimRejectReason, _) res)" for f
    by (simp_all add: protocol_sink_script_key_def protocol_burn_internal_key_def derive_nums_key_def
        nums_search.simps is_valid_xonly_def tap_tweak_def tap_tweak_data_def)
  have p: "redemption_payout_checks const_crypto sample_state (cw_claim sample_claim_witness) 6 sample_redemption = Ok ()"
    using sample_payout_accepted sample_burn_accepted
    by (simp add: redemption_payout_checks_def s sample_redemption_def sample_lock_finalize_def sample_intent_def
        sample_payout_def sample_lock_def sample_state_def sample_claim_witness_def sample_claim_def
        BTC_CLAIM_CONFIRMATION_DEPTH_def Let_def)
  have "pays_enough 10000000000000 sample_redemption"
    by (simp add: pays_enough_def max_fee_sats_def gross_sats_def sample_redemption_def sample_lock_def
        sample_intent_def sample_payout_def)
  with p show ?thesis
    unfolding redemption_valid_def
    by (simp add: lock_bound_def sample_redemption_def sample_intent_def sample_lock_def sample_claim_witness_def
        sample_claim_def sample_state_def verify_inclusion_def verify_exclusion_def redeem_intent_hash_def
        tagged_hash_def tap_tweak_def tap_tweak_data_def sample_path_def)
qed

lemma sample_batch_root_Ok: "batch_root_be const_crypto [fill 0] = (Ok sample_batch_root :: (ClaimRejectReason, _) res)"
  using batch_root_be_total [of const_crypto "[fill 0]", where 'e = ClaimRejectReason]
  by (auto simp: sample_batch_root_def)

lemma sample_claim_accepted:
  "\<exists>new. verify_reserve_claim_finalize const_crypto sample_state new sample_claim_witness = Ok ()"
proof -
  let ?st = "batch_start sample_state" and ?c = "cw_claim sample_claim_witness"
  have key: "lock_key const_crypto sample_redemption = fill 0"
    by (simp add: lock_key_def lock_record_hash_def tagged_hash_def)
  have a: "amount_atoms sample_redemption = 100" "gross_sats 10000000000000 sample_redemption = 1000"
    "ri_amount_satusd_atoms (br_redeem_intent sample_redemption) = 100"
    by (simp_all add: amount_atoms_def gross_sats_def sample_redemption_def sample_intent_def sample_lock_def)
  have x: "verify_exclusion const_crypto (fr_to_be_bytes 1) k sample_path" for k
    by (simp add: verify_exclusion_def sample_path_def)
  have p: "br_consumed_exclusion_proof sample_redemption = sample_path"
    "br_nullifier_exclusion_proof sample_redemption = sample_path"
    by (simp_all add: sample_redemption_def)
  have start: "?st = \<lparr>bt_consumed_root = fr_to_be_bytes 1, bt_nullifier_root = fr_to_be_bytes 1,
      bt_total_amount = 0, bt_total_gross = 0, bt_leaves = [], bt_seen = []\<rparr>"
    by (simp add: batch_start_def sample_state_def)
  define st where "st = \<lparr>bt_consumed_root = fr_to_be_bytes 1, bt_nullifier_root = fr_to_be_bytes 1,
      bt_total_amount = 100, bt_total_gross = 1000, bt_leaves = [fill 0], bt_seen = [fill 0]\<rparr>"
  have step: "redemption_step const_crypto sample_state ?c 10000000000000 6 sample_redemption ?st = Ok st"
    using sample_redemption_valid
    by (simp add: redemption_step_Ok start x p a key st_def member_root_def)
  have acc: "claim_accounting const_crypto sample_state sample_claim_witness st = Ok (1000, 999900, 2000)"
    by (simp add: claim_accounting_def st_def u64_try_def sample_state_def checked_sub_def checked_add_def
        sample_claim_witness_def sample_batch_root_Ok live_da_root_for_claim_def live_da_root_def sample_claim_def)
  obtain new where e: "claim_expected const_crypto sample_state sample_claim_witness 10000000000000 st (1000, 999900, 2000) = Ok new"
    "sr_transition_type new = 0x11" "sr_state_epoch new = 1" "sr_prev_state_root new = fr_to_be_bytes 1"
    by (simp add: claim_expected_def sample_claim_witness_def sample_claim_def sample_state_def derive_claim_id_def
        tagged_hash_def x [unfolded sample_path_def] sample_path_def root_after_update_def collateral_ratio_ppm_cases recompute_tier_cases
        cr_nat_def Let_def)
  have "claim_linkage const_crypto sample_state new ?c = Ok ()"
    using e by (simp add: claim_linkage_def sample_claim_witness_def sample_claim_def sample_state_def)
  then have "verify_reserve_claim_finalize const_crypto sample_state new sample_claim_witness = Ok ()"
    using step acc e(1) by (simp add: verify_reserve_claim_finalize_def sample_claim_price) 
      (simp add: sample_claim_witness_def)
  then show ?thesis ..
qed

section \<open>Properties\<close>

text \<open>
  C16: an accepted claim reserves exactly the value of its redemptions at the agreed oracle price and
  takes exactly their atoms out of the supply, no lock twice, each redemption valid on its own; the
  reserve itself is not touched.
\<close>
lemma claim_settles:
  assumes "verify_reserve_claim_finalize C prev new w = Ok ()"
  shows "\<exists>price. claim_price C prev w = Ok price \<and> cw_redemptions w \<noteq> [] \<and>
     distinct (map (lock_key C) (cw_redemptions w)) \<and>
     (\<forall>r\<in>set (cw_redemptions w). redemption_valid C prev (cw_claim w) price (cw_btc_tip_height w) r) \<and>
     unat (rc_reimbursement_sats (cw_claim w)) = sum_list (map (gross_sats price) (cw_redemptions w)) \<and>
     unat (sr_sat_usd_supply_atoms new) + sum_list (map amount_atoms (cw_redemptions w))
       = unat (sr_sat_usd_supply_atoms prev) \<and>
     unat (sr_reserved_pending_claim_sats new) = unat (sr_reserved_pending_claim_sats prev)
       + sum_list (map (gross_sats price) (cw_redemptions w)) \<and>
     sr_reserve_btc_sats new = sr_reserve_btc_sats prev"
  using assms by (rule claim_effect)

lemma claim_settles_witness:
  "\<exists>new. verify_reserve_claim_finalize const_crypto sample_state new sample_claim_witness = Ok () \<and>
     unat (sr_sat_usd_supply_atoms new) = 999900 \<and> unat (sr_reserved_pending_claim_sats new) = 2000"
proof -
  obtain new where a: "verify_reserve_claim_finalize const_crypto sample_state new sample_claim_witness = Ok ()"
    using sample_claim_accepted by blast
  have w: "cw_redemptions sample_claim_witness = [sample_redemption]"
    by (simp add: sample_claim_witness_def)
  have s: "amount_atoms sample_redemption = 100" "gross_sats 10000000000000 sample_redemption = 1000"
    by (simp_all add: amount_atoms_def gross_sats_def sample_redemption_def sample_intent_def sample_lock_def)
  show ?thesis
    using claim_settles [OF a] a sample_claim_price
    by (intro exI [of _ new]) (auto simp: w s sample_state_def)
qed

text \<open>
  C17: in a state whose consumed and nullifier roots are those of two well-formed trees, an accepted
  claim leaves the roots of the trees with every one of its lock keys and nullifiers inserted, or
  its paths exhibit a Poseidon collision.
\<close>
lemma claim_consumes_locks:
  assumes "verify_reserve_claim_finalize C prev new w = Ok ()" and "smt_inv C t" and "smt_inv C u"
    and "sr_lock_consumed_root prev = smt_root C t" and "sr_redemption_nullifier_root prev = smt_root C u"
  shows "(case set_collision C (consumed_paths C (cw_redemptions w)) t of Some x \<Rightarrow> collides C x
      | None \<Rightarrow> sr_lock_consumed_root new = smt_root C (insert_all C (map (lock_key C) (cw_redemptions w)) t)) \<and>
    (case set_collision C (nullifier_paths C (cw_redemptions w)) u of Some x \<Rightarrow> collides C x
      | None \<Rightarrow> sr_redemption_nullifier_root new
          = smt_root C (insert_all C (map (nullifier_key C) (cw_redemptions w)) u))"
proof -
  from assms(1) obtain price st supplied reserved where
    l: "rfold (redemption_step C prev (cw_claim w) price (cw_btc_tip_height w)) (cw_redemptions w)
       (batch_start prev) = Ok st" and
    s: "claim_successor C prev new w price st supplied reserved"
    by (rule verify_reserve_claim_finalize_Ok)
  have roots: "sr_lock_consumed_root new = bt_consumed_root st"
    "sr_redemption_nullifier_root new = bt_nullifier_root st"
    using s by (auto simp: claim_successor_def)
  have keys: "map fst (consumed_paths C rs) = map (lock_key C) rs"
    "map fst (nullifier_paths C rs) = map (nullifier_key C) rs" for rs
    by (simp_all add: consumed_paths_def nullifier_paths_def)
  show ?thesis
    unfolding roots keys [symmetric]
    using redemption_loop_chains [OF l] assms(4,5)
      absent_chain_refines [OF assms(2), of "consumed_paths C (cw_redemptions w)" "bt_consumed_root st"]
      absent_chain_refines [OF assms(3), of "nullifier_paths C (cw_redemptions w)" "bt_nullifier_root st"]
    by (simp add: batch_start_def)
qed

lemma claim_consumes_locks_witness:
  "case set_collision const_crypto (consumed_paths const_crypto [sample_redemption]) (smt_new const_crypto) of
     Some x \<Rightarrow> collides const_crypto x
   | None \<Rightarrow> fr_to_be_bytes 1 = smt_root const_crypto (insert_all const_crypto [fill 0] (smt_new const_crypto))"
proof -
  obtain new where a: "verify_reserve_claim_finalize const_crypto sample_state new sample_claim_witness = Ok ()"
    using sample_claim_accepted by blast
  have w: "cw_redemptions sample_claim_witness = [sample_redemption]"
    by (simp add: sample_claim_witness_def)
  have i: "smt_inv const_crypto (insert_all const_crypto ks t)" if "smt_inv const_crypto t" for ks t
    using that by (induction ks arbitrary: t) simp_all
  show ?thesis
    using claim_consumes_locks [OF a, of "smt_new const_crypto" "smt_new const_crypto"]
    by (auto simp: sample_state_def w i lock_key_def lock_record_hash_def tagged_hash_def split: option.splits)
qed

end
