(* ===== verification/Registry.thy ===== *)
theory Registry
  imports Mint
begin

text \<open>
  The registry transitions (\<^verbatim>\<open>satusd-state/src/registry.rs\<close>): ISSUER_REGISTER,
  OPERATOR_REGISTER, RECLAIM_STALE_CLAIM and FINALIZE_CLAIM. A claim leaves the pending set by
  one of the last two: reclaim frees its reservation, finalize also debits the reserve.
\<close>

section \<open>Constants, errors, witnesses\<close>

record ReserveCommittee =
  rcm_threshold :: u8
  rcm_pubkeys :: "b33 list"

definition OPERATOR_BOND_MULTIPLE :: u64 where
  "OPERATOR_BOND_MULTIPLE = 2"

datatype RegistryRejectReason =
    BadStateLinkage
  | WrongTransitionType
  | PostStateMismatch
  | Overflow
  | IssuerAlreadyRegistered
  | IssuerNotFresh
  | BadMultisigConfig
  | OperatorAlreadyRegistered
  | OperatorNotFresh
  | ZeroMaxClaim
  | BondInsufficient
  | ClaimNotPresent
  | ClaimNotReclaimable
  | ClaimNotExpired
  | ClaimNotPending
  | ClaimExpired
  | ReserveInsufficient
  | CommitteeMismatch
  | ApprovalInsufficient

definition registry_next_state :: "crypto \<Rightarrow> StateRoot \<Rightarrow> TransitionType \<Rightarrow> StateRoot" where
  "registry_next_state C prev ttype = prev\<lparr>
     sr_state_epoch := sr_state_epoch prev + 1,
     sr_prev_state_root := state_root_hash C prev,
     sr_transition_type := transition_type_as_u8 ttype\<rparr>"

definition registry_verified ::
  "(RegistryRejectReason, StateRoot) res \<Rightarrow> StateRoot \<Rightarrow> (RegistryRejectReason, unit) res" where
  "registry_verified expected new =
     rbind expected (\<lambda>e. if e = new then Ok () else Err PostStateMismatch)"

section \<open>ISSUER_REGISTER\<close>

definition issuer_fresh :: "IssuerPosition \<Rightarrow> bool" where
  "issuer_fresh new_issuer \<longleftrightarrow>
     ip_status new_issuer = IssuerActive
     \<and> ip_minted_satusd_atoms new_issuer = 0
     \<and> ip_pending_mint_atoms new_issuer = 0
     \<and> ip_reserve_deposits_sats new_issuer = 0
     \<and> ip_collateral_ratio_ppm new_issuer = 0
     \<and> ip_pending_mint_commitment new_issuer = None
     \<and> ip_last_deposit_txid new_issuer = None
     \<and> ip_freeze_reason new_issuer = None"

definition see_key :: "b33 \<Rightarrow> b33 list \<Rightarrow> (RegistryRejectReason, b33 list) res" where
  "see_key pk seen = (if pk \<in> set seen then Err BadMultisigConfig else Ok (seen @ [pk]))"

definition apply_issuer_register ::
  "crypto \<Rightarrow> StateRoot \<Rightarrow> IssuerPosition \<Rightarrow> b32 list \<Rightarrow> (RegistryRejectReason, StateRoot) res" where
  "apply_issuer_register C prev new_issuer issuer_exclusion_proof =
     (if \<not> issuer_fresh new_issuer then Err IssuerNotFresh
      else let n = length (ip_multisig_pubkeys new_issuer);
               t = unat (ip_multisig_threshold new_issuer) in
      if \<not> (n > 0 \<and> 1 \<le> t \<and> t \<le> n) then Err BadMultisigConfig
      else rbind (rfold see_key (ip_multisig_pubkeys new_issuer) []) (\<lambda>_.
      if \<not> verify_exclusion C (sr_issuer_positions_root prev) (ip_issuer_id new_issuer)
          issuer_exclusion_proof then Err IssuerAlreadyRegistered
      else let expected = registry_next_state C prev IssuerRegister in
      rbind (root_after_update C (ip_issuer_id new_issuer) (issuer_position_hash C new_issuer)
        issuer_exclusion_proof) (\<lambda>root.
      Ok (expected\<lparr>sr_issuer_positions_root := root\<rparr>))))"

definition verify_issuer_register ::
  "crypto \<Rightarrow> StateRoot \<Rightarrow> StateRoot \<Rightarrow> IssuerPosition \<Rightarrow> b32 list \<Rightarrow> (RegistryRejectReason, unit) res" where
  "verify_issuer_register C prev new new_issuer issuer_exclusion_proof =
     registry_verified (apply_issuer_register C prev new_issuer issuer_exclusion_proof) new"

section \<open>OPERATOR_REGISTER\<close>

definition operator_fresh :: "OperatorPosition \<Rightarrow> bool" where
  "operator_fresh new_op \<longleftrightarrow>
     opn_status new_op = OperatorActive
     \<and> opn_outstanding_claim_sats new_op = 0
     \<and> opn_slashed_sats new_op = 0"

definition apply_operator_register ::
  "crypto \<Rightarrow> StateRoot \<Rightarrow> OperatorPosition \<Rightarrow> b32 list \<Rightarrow> (RegistryRejectReason, StateRoot) res" where
  "apply_operator_register C prev new_op operator_exclusion_proof =
     (if \<not> operator_fresh new_op then Err OperatorNotFresh
      else if \<not> opn_max_claim_sats new_op > 0 then Err ZeroMaxClaim
      else rbind (ok_or (checked_mul (opn_max_claim_sats new_op) OPERATOR_BOND_MULTIPLE) Overflow) (\<lambda>required.
      if \<not> opn_bond_sats new_op \<ge> required then Err BondInsufficient
      else if \<not> verify_exclusion C (sr_operator_registry_root prev) (opn_operator_id new_op)
          operator_exclusion_proof then Err OperatorAlreadyRegistered
      else let expected = registry_next_state C prev OperatorRegister in
      rbind (root_after_update C (opn_operator_id new_op) (operator_position_hash C new_op)
        operator_exclusion_proof) (\<lambda>root.
      Ok (expected\<lparr>sr_operator_registry_root := root\<rparr>))))"

definition verify_operator_register ::
  "crypto \<Rightarrow> StateRoot \<Rightarrow> StateRoot \<Rightarrow> OperatorPosition \<Rightarrow> b32 list \<Rightarrow> (RegistryRejectReason, unit) res" where
  "verify_operator_register C prev new new_op operator_exclusion_proof =
     registry_verified (apply_operator_register C prev new_op operator_exclusion_proof) new"

section \<open>RECLAIM_STALE_CLAIM\<close>

definition apply_reclaim_stale_claim ::
  "crypto \<Rightarrow> StateRoot \<Rightarrow> PendingClaim \<Rightarrow> b32 list \<Rightarrow> u32 \<Rightarrow> (RegistryRejectReason, StateRoot) res" where
  "apply_reclaim_stale_claim C prev prev_claim claim_membership_proof current_height =
     (if \<not> (cl_status prev_claim = ClaimPending \<or> cl_status prev_claim = ClaimChallenged)
        then Err ClaimNotReclaimable
      else if \<not> current_height > cl_claim_expiry_height prev_claim then Err ClaimNotExpired
      else if \<not> verify_inclusion C (sr_pending_claim_root prev) (cl_claim_id prev_claim)
          (pending_claim_hash C prev_claim) claim_membership_proof then Err ClaimNotPresent
      else let reclaimed = prev_claim\<lparr>cl_status := ClaimReclaimed\<rparr> in
      rbind (ok_or (checked_sub (sr_reserved_pending_claim_sats prev) (cl_reserved_sats prev_claim))
        Overflow) (\<lambda>new_reserved.
      let expected = (registry_next_state C prev ReclaimStaleClaim)\<lparr>
            sr_reserved_pending_claim_sats := new_reserved\<rparr> in
      rbind (root_after_update C (cl_claim_id prev_claim) (pending_claim_hash C reclaimed)
        claim_membership_proof) (\<lambda>root.
      Ok (expected\<lparr>sr_pending_claim_root := root\<rparr>))))"

definition verify_reclaim_stale_claim ::
  "crypto \<Rightarrow> StateRoot \<Rightarrow> StateRoot \<Rightarrow> PendingClaim \<Rightarrow> b32 list \<Rightarrow> u32 \<Rightarrow> (RegistryRejectReason, unit) res" where
  "verify_reclaim_stale_claim C prev new prev_claim claim_membership_proof current_height =
     registry_verified
       (apply_reclaim_stale_claim C prev prev_claim claim_membership_proof current_height) new"

section \<open>FINALIZE_CLAIM\<close>

definition approval_step ::
  "crypto \<Rightarrow> b32 \<Rightarrow> ReserveCommittee \<Rightarrow> MultisigSig \<Rightarrow> b33 list \<times> nat \<Rightarrow> b33 list \<times> nat" where
  "approval_step C claim_id committee s st =
     (let (seen, approved) = st in
      if ms_signer_pubkey s \<notin> set (rcm_pubkeys committee) \<or> ms_signer_pubkey s \<in> set seen
        then (seen, approved)
      else if verify_ecdsa C claim_id (ms_signer_pubkey s) (ms_signature s)
        then (seen @ [ms_signer_pubkey s], approved + 1)
      else (seen, approved))"

definition apply_finalize_claim ::
  "crypto \<Rightarrow> StateRoot \<Rightarrow> PendingClaim \<Rightarrow> b32 list \<Rightarrow> ReserveCommittee \<Rightarrow> MultisigSig list \<Rightarrow> u32
     \<Rightarrow> (RegistryRejectReason, StateRoot) res" where
  "apply_finalize_claim C prev prev_claim claim_membership_proof committee approvals current_height =
     (if cl_status prev_claim \<noteq> ClaimPending then Err ClaimNotPending
      else if \<not> current_height \<le> cl_claim_expiry_height prev_claim then Err ClaimExpired
      else if reserve_committee_hash C (rcm_threshold committee) (rcm_pubkeys committee)
          \<noteq> sr_reserve_committee_hash prev then Err CommitteeMismatch
      else let (seen, approved) =
             fold (approval_step C (cl_claim_id prev_claim) committee) approvals ([], 0) in
      if \<not> approved \<ge> unat (rcm_threshold committee) then Err ApprovalInsufficient
      else if \<not> verify_inclusion C (sr_pending_claim_root prev) (cl_claim_id prev_claim)
          (pending_claim_hash C prev_claim) claim_membership_proof then Err ClaimNotPresent
      else
      rbind (ok_or (checked_sub (sr_reserved_pending_claim_sats prev) (cl_reserved_sats prev_claim))
        Overflow) (\<lambda>new_reserved.
      rbind (ok_or (checked_sub (sr_reserve_btc_sats prev) (cl_reserved_sats prev_claim))
        ReserveInsufficient) (\<lambda>new_reserve.
      let finalized = prev_claim\<lparr>cl_status := ClaimFinalized\<rparr>;
          supply = sr_sat_usd_supply_atoms prev; price = sr_latest_oracle_price_e8 prev;
          expected = (registry_next_state C prev FinalizeClaim)\<lparr>
            sr_reserved_pending_claim_sats := new_reserved,
            sr_reserve_btc_sats := new_reserve\<rparr> in
      rbind (collateral_ratio_ppm new_reserve supply price) (\<lambda>cr.
      rbind (recompute_tier new_reserve supply price) (\<lambda>tier.
      rbind (root_after_update C (cl_claim_id prev_claim) (pending_claim_hash C finalized)
        claim_membership_proof) (\<lambda>root.
      Ok (expected\<lparr>sr_collateral_ratio_ppm := unwrap_or cr 0,
            sr_emergency_tier := emergency_tier_as_u8 tier,
            sr_pending_claim_root := root\<rparr>)))))))"

definition verify_finalize_claim ::
  "crypto \<Rightarrow> StateRoot \<Rightarrow> StateRoot \<Rightarrow> PendingClaim \<Rightarrow> b32 list \<Rightarrow> ReserveCommittee \<Rightarrow> MultisigSig list
     \<Rightarrow> u32 \<Rightarrow> (RegistryRejectReason, unit) res" where
  "verify_finalize_claim C prev new prev_claim claim_membership_proof committee approvals current_height =
     registry_verified (apply_finalize_claim C prev prev_claim claim_membership_proof committee
       approvals current_height) new"

section \<open>What each accepts\<close>

interpretation registry_executor: executor registry_verified PostStateMismatch
  by unfold_locales (simp_all add: registry_verified_def)

interpretation finalize_signers: signer_loop ms_signer_pubkey
  "\<lambda>k. k \<in> set (rcm_pubkeys committee)"
  "\<lambda>s. verify_ecdsa C claim_id (ms_signer_pubkey s) (ms_signature s)"
  "approval_step C claim_id committee" fst snd
  by unfold_locales (auto simp: approval_step_def split: prod.splits)

text \<open>The committee keys that signed the claim.\<close>

definition approvers :: "crypto \<Rightarrow> b32 \<Rightarrow> ReserveCommittee \<Rightarrow> MultisigSig list \<Rightarrow> b33 set" where
  "approvers C claim_id committee approvals =
     ms_signer_pubkey ` {s \<in> set approvals. ms_signer_pubkey s \<in> set (rcm_pubkeys committee) \<and>
       verify_ecdsa C claim_id (ms_signer_pubkey s) (ms_signature s)}"

lemma approval_count:
  "snd (fold (approval_step C claim_id committee) approvals ([], 0)) =
     card (approvers C claim_id committee approvals)"
  using finalize_signers.tally_is_card [of "([], 0)" C claim_id committee approvals]
  by (simp add: finalize_signers.signed_by_def approvers_def)

lemma see_keys_Ok: "rfold see_key ks seen = Ok seen' \<longleftrightarrow>
     distinct ks \<and> set ks \<inter> set seen = {} \<and> seen' = seen @ ks"
  by (induction ks arbitrary: seen) (auto simp: see_key_def res_simps)

lemma apply_issuer_register_Ok:
  "apply_issuer_register C s i p = Ok s' \<longleftrightarrow>
     issuer_fresh i \<and> 1 \<le> unat (ip_multisig_threshold i) \<and>
     unat (ip_multisig_threshold i) \<le> length (ip_multisig_pubkeys i) \<and> distinct (ip_multisig_pubkeys i) \<and>
     verify_exclusion C (sr_issuer_positions_root s) (ip_issuer_id i) p \<and>
     s' = (registry_next_state C s IssuerRegister)\<lparr>sr_issuer_positions_root :=
       fold_to_root C (ip_issuer_id i) (leaf_hash C (ip_issuer_id i) (issuer_position_hash C i)) p\<rparr>"
  by (auto simp: apply_issuer_register_def res_simps Let_def see_keys_Ok root_after_update_Ok
      verify_exclusion_def)

lemma apply_operator_register_Ok:
  "apply_operator_register C s o' p = Ok s' \<longleftrightarrow>
     operator_fresh o' \<and> 0 < opn_max_claim_sats o' \<and>
     2 * unat (opn_max_claim_sats o') \<le> unat (opn_bond_sats o') \<and>
     verify_exclusion C (sr_operator_registry_root s) (opn_operator_id o') p \<and>
     s' = (registry_next_state C s OperatorRegister)\<lparr>sr_operator_registry_root :=
       fold_to_root C (opn_operator_id o') (leaf_hash C (opn_operator_id o') (operator_position_hash C o')) p\<rparr>"
proof -
  have "(\<exists>r. checked_mul (opn_max_claim_sats o') OPERATOR_BOND_MULTIPLE = Some r \<and> r \<le> opn_bond_sats o')
      \<longleftrightarrow> 2 * unat (opn_max_claim_sats o') \<le> unat (opn_bond_sats o')"
    using unat_lt_u64 [of "opn_bond_sats o'"]
    by (auto simp: checked_mul_Some OPERATOR_BOND_MULTIPLE_def word_le_nat_alt unat_mult_lem [THEN iffD1]
        mult.commute unat_word_ariths simp del: unat_lt_u64)
  then show ?thesis
    by (auto simp: apply_operator_register_def res_simps Let_def root_after_update_Ok verify_exclusion_def)
qed

lemma apply_reclaim_stale_claim_Ok:
  "apply_reclaim_stale_claim C s c p h = Ok s' \<longleftrightarrow>
     (cl_status c = ClaimPending \<or> cl_status c = ClaimChallenged) \<and> cl_claim_expiry_height c < h \<and>
     verify_inclusion C (sr_pending_claim_root s) (cl_claim_id c) (pending_claim_hash C c) p \<and>
     cl_reserved_sats c \<le> sr_reserved_pending_claim_sats s \<and>
     s' = (registry_next_state C s ReclaimStaleClaim)\<lparr>
       sr_reserved_pending_claim_sats := sr_reserved_pending_claim_sats s - cl_reserved_sats c,
       sr_pending_claim_root := fold_to_root C (cl_claim_id c) (leaf_hash C (cl_claim_id c)
         (pending_claim_hash C (c\<lparr>cl_status := ClaimReclaimed\<rparr>))) p\<rparr>"
  by (auto simp: apply_reclaim_stale_claim_def res_simps Let_def checked_sub_Some root_after_update_Ok
      verify_inclusion_def)

lemma apply_finalize_claim_Ok:
  "apply_finalize_claim C s c p com aps h = Ok s' \<longleftrightarrow>
     cl_status c = ClaimPending \<and> h \<le> cl_claim_expiry_height c \<and>
     reserve_committee_hash C (rcm_threshold com) (rcm_pubkeys com) = sr_reserve_committee_hash s \<and>
     unat (rcm_threshold com) \<le> card (approvers C (cl_claim_id c) com aps) \<and>
     verify_inclusion C (sr_pending_claim_root s) (cl_claim_id c) (pending_claim_hash C c) p \<and>
     cl_reserved_sats c \<le> sr_reserved_pending_claim_sats s \<and>
     cl_reserved_sats c \<le> sr_reserve_btc_sats s \<and>
     (\<exists>cr tier.
       (collateral_ratio_ppm (sr_reserve_btc_sats s - cl_reserved_sats c) (sr_sat_usd_supply_atoms s)
         (sr_latest_oracle_price_e8 s) :: (RegistryRejectReason, _) res) = Ok cr \<and>
       (recompute_tier (sr_reserve_btc_sats s - cl_reserved_sats c) (sr_sat_usd_supply_atoms s)
         (sr_latest_oracle_price_e8 s) :: (RegistryRejectReason, _) res) = Ok tier \<and>
       s' = (registry_next_state C s FinalizeClaim)\<lparr>
         sr_reserved_pending_claim_sats := sr_reserved_pending_claim_sats s - cl_reserved_sats c,
         sr_reserve_btc_sats := sr_reserve_btc_sats s - cl_reserved_sats c,
         sr_collateral_ratio_ppm := unwrap_or cr 0,
         sr_emergency_tier := emergency_tier_as_u8 tier,
         sr_pending_claim_root := fold_to_root C (cl_claim_id c) (leaf_hash C (cl_claim_id c)
           (pending_claim_hash C (c\<lparr>cl_status := ClaimFinalized\<rparr>))) p\<rparr>)"
  unfolding apply_finalize_claim_def Let_def approval_count [symmetric]
  by (simp add: res_simps checked_sub_Some root_after_update_Ok verify_inclusion_def split_beta)
    (auto simp: verify_inclusion_def)

section \<open>Properties\<close>

text \<open>
  FINALIZE_CLAIM counts each committee member that validly signed the claim id once: the order
  of the approvals and their repetitions change neither the result nor the error.
\<close>
lemma finalize_approvals_as_set:
  assumes "set as = set bs'"
  shows "verify_finalize_claim C prev new c p com as h = verify_finalize_claim C prev new c p com bs' h"
  unfolding verify_finalize_claim_def apply_finalize_claim_def Let_def split_beta approval_count
  by (simp add: approvers_def assms)

lemma finalize_approvals_as_set_witness:
  "verify_finalize_claim const_crypto sample_state sample_state sample_pending sample_path
     \<lparr>rcm_threshold = 1, rcm_pubkeys = [fill 2]\<rparr>
     [\<lparr>ms_signer_pubkey = fill 2, ms_signature = fill 0\<rparr>, \<lparr>ms_signer_pubkey = fill 2, ms_signature = fill 0\<rparr>] 7
   = verify_finalize_claim const_crypto sample_state sample_state sample_pending sample_path
     \<lparr>rcm_threshold = 1, rcm_pubkeys = [fill 2]\<rparr> [\<lparr>ms_signer_pubkey = fill 2, ms_signature = fill 0\<rparr>] 7"
  by (rule finalize_approvals_as_set) simp

text \<open>
  a claim cannot be both finalized and reclaimed at one height, whatever the states, paths and
  approvals: the two windows meet at the expiry height without overlapping.
\<close>
lemma finalize_excludes_reclaim:
  "\<not> (is_ok (apply_finalize_claim C s c p com as h) \<and> is_ok (apply_reclaim_stale_claim C s' c q h))"
proof -
  have f: "h \<le> cl_claim_expiry_height c" if "is_ok (apply_finalize_claim C s c p com as h)"
    using that by (auto simp: apply_finalize_claim_Ok is_ok_iff)
  have r: "cl_claim_expiry_height c < h" if "is_ok (apply_reclaim_stale_claim C s' c q h)"
    using that by (auto simp: apply_reclaim_stale_claim_Ok is_ok_iff)
  show ?thesis using f r by (meson leD)
qed

text \<open>
  OPERATOR_REGISTER is accepted exactly for a fresh position with a positive claim limit, a bond
  of at least twice that limit (without wrap-around) and a valid exclusion path, and leads to the
  one state that inserts the position.
\<close>
lemma operator_register_accepts:
  "verify_operator_register C s s' o' p = Ok () \<longleftrightarrow>
     operator_fresh o' \<and> 0 < opn_max_claim_sats o' \<and>
     2 * unat (opn_max_claim_sats o') \<le> unat (opn_bond_sats o') \<and>
     verify_exclusion C (sr_operator_registry_root s) (opn_operator_id o') p \<and>
     s' = (registry_next_state C s OperatorRegister)\<lparr>sr_operator_registry_root :=
       fold_to_root C (opn_operator_id o') (leaf_hash C (opn_operator_id o') (operator_position_hash C o')) p\<rparr>"
  unfolding verify_operator_register_def registry_executor.accepted_iff by (rule apply_operator_register_Ok)

text \<open>
  ISSUER_REGISTER is accepted exactly for a fresh position whose signers are distinct, whose
  threshold is between one and their number, and whose id has a valid exclusion path.
\<close>
lemma issuer_register_accepts:
  "verify_issuer_register C s s' i p = Ok () \<longleftrightarrow>
     issuer_fresh i \<and> 1 \<le> unat (ip_multisig_threshold i) \<and>
     unat (ip_multisig_threshold i) \<le> length (ip_multisig_pubkeys i) \<and> distinct (ip_multisig_pubkeys i) \<and>
     verify_exclusion C (sr_issuer_positions_root s) (ip_issuer_id i) p \<and>
     s' = (registry_next_state C s IssuerRegister)\<lparr>sr_issuer_positions_root :=
       fold_to_root C (ip_issuer_id i) (leaf_hash C (ip_issuer_id i) (issuer_position_hash C i)) p\<rparr>"
  unfolding verify_issuer_register_def registry_executor.accepted_iff by (rule apply_issuer_register_Ok)

end
