(* ===== verification/Reserve.thy ===== *)
theory Reserve
  imports Signers
begin

text \<open>
  The reserve backends (\<^verbatim>\<open>satusd-reserve/src/lib.rs\<close>): custody views, the immediate
  \<open>MockReserve\<close> and the committee-gated \<open>MultisigReserve\<close>. A \<^verbatim>\<open>HashMap\<close> is a map from claim ids;
  a method on \<^verbatim>\<open>&mut self\<close> returns the backend it leaves, on errors too. The locale
  \<open>reserve_backend\<close> is the trait's contract: both backends keep custody equal to what was
  credited less what was paid, and the reservation equal to the sum of the open claims.
\<close>

section \<open>Views, handles, refusals\<close>

record ReserveView =
  rv_total_sats :: u64
  rv_reserved_sats :: u64

definition available_sats :: "ReserveView \<Rightarrow> u64" where
  "available_sats v = saturating_sub (rv_total_sats v) (rv_reserved_sats v)"

datatype ClaimHandle = ClaimHandle (handle_id: b32)

datatype FinalizeError =
    Paused
  | Vetoed
  | UnknownClaim
  | AlreadyFinalized
  | ApprovalInsufficient nat nat
  | ReserveInsufficient
  | WindowOpen
  | Disproven

record ReserveSpend =
  sp_claim_id :: b32
  sp_operator_id :: b32
  sp_amount_sats :: u64

datatype PauseReason = StateNodeBug | FundsAtRisk | Manual

datatype WindowStatus = WindowStillOpen | WindowElapsed | WindowDisproven

record Disprove =
  dp_claim_id :: b32
  dp_claimed :: b32
  dp_correct :: b32

type_synonym 'r finalize_result = "(FinalizeError, ReserveSpend) res \<times> 'r"

section \<open>MockReserve\<close>

record Pending =
  pd_operator_id :: b32
  pd_amount_sats :: u64

record MockReserve =
  mk_total_sats :: u64
  mk_reserved_sats :: u64
  mk_pending :: "b32 \<rightharpoonup> Pending"

definition mock_new :: "u64 \<Rightarrow> MockReserve" where
  "mock_new total_sats =
     \<lparr>mk_total_sats = total_sats, mk_reserved_sats = 0, mk_pending = Map.empty\<rparr>"

definition mock_reserve_view :: "MockReserve \<Rightarrow> ReserveView" where
  "mock_reserve_view r =
     \<lparr>rv_total_sats = mk_total_sats r, rv_reserved_sats = mk_reserved_sats r\<rparr>"

definition mock_credit :: "MockReserve \<Rightarrow> u64 \<Rightarrow> MockReserve" where
  "mock_credit r sats = r\<lparr>mk_total_sats := mk_total_sats r + sats\<rparr>"

definition mock_submit_claim :: "MockReserve \<Rightarrow> ReserveClaim \<Rightarrow> ClaimHandle \<times> MockReserve" where
  "mock_submit_claim r claim =
     (ClaimHandle (rc_claim_id claim),
      r\<lparr>mk_reserved_sats := mk_reserved_sats r + rc_reimbursement_sats claim,
        mk_pending := (mk_pending r)(rc_claim_id claim \<mapsto>
          \<lparr>pd_operator_id = rc_operator_id claim, pd_amount_sats = rc_reimbursement_sats claim\<rparr>)\<rparr>)"

text \<open>The entry is taken out first and put back when custody is short.\<close>

definition mock_finalize_claim :: "MockReserve \<Rightarrow> ClaimHandle \<Rightarrow> MockReserve finalize_result" where
  "mock_finalize_claim r h =
     (case mk_pending r (handle_id h) of
        None \<Rightarrow> (Err UnknownClaim, r)
      | Some p \<Rightarrow>
          let r = r\<lparr>mk_pending := (mk_pending r)(handle_id h := None)\<rparr> in
          if mk_total_sats r < pd_amount_sats p
          then (Err ReserveInsufficient, r\<lparr>mk_pending := (mk_pending r)(handle_id h \<mapsto> p)\<rparr>)
          else (Ok \<lparr>sp_claim_id = handle_id h, sp_operator_id = pd_operator_id p,
                    sp_amount_sats = pd_amount_sats p\<rparr>,
                r\<lparr>mk_total_sats := mk_total_sats r - pd_amount_sats p,
                  mk_reserved_sats := mk_reserved_sats r - pd_amount_sats p\<rparr>))"

definition mock_emergency_pause :: "MockReserve \<Rightarrow> PauseReason \<Rightarrow> MockReserve" where
  "mock_emergency_pause r reason = r"

definition mock_reclaim_stale :: "MockReserve \<Rightarrow> ClaimHandle \<Rightarrow> (FinalizeError, u64) res \<times> MockReserve" where
  "mock_reclaim_stale r h =
     (case mk_pending r (handle_id h) of
        None \<Rightarrow> (Err UnknownClaim, r)
      | Some p \<Rightarrow>
          (Ok (pd_amount_sats p),
           r\<lparr>mk_pending := (mk_pending r)(handle_id h := None),
             mk_reserved_sats := mk_reserved_sats r - pd_amount_sats p\<rparr>))"

section \<open>MultisigReserve\<close>

record Committee =
  cm_threshold :: u8
  cm_pubkeys :: "b33 list"

definition committee_hash :: "crypto \<Rightarrow> Committee \<Rightarrow> b32" where
  "committee_hash C c = reserve_committee_hash C (cm_threshold c) (cm_pubkeys c)"

record Approval =
  ap_signer_pubkey :: b33
  ap_signature :: b64

definition approvals_step :: "crypto \<Rightarrow> Committee \<Rightarrow> b32 \<Rightarrow> Approval \<Rightarrow> b33 list \<Rightarrow> b33 list" where
  "approvals_step C committee claim_id a seen =
     (if ap_signer_pubkey a \<notin> set (cm_pubkeys committee) \<or> ap_signer_pubkey a \<in> set seen then seen
      else if verify_ecdsa C claim_id (ap_signer_pubkey a) (ap_signature a)
        then seen @ [ap_signer_pubkey a]
      else seen)"

definition count_approvals :: "crypto \<Rightarrow> Committee \<Rightarrow> b32 \<Rightarrow> Approval list \<Rightarrow> nat" where
  "count_approvals C committee claim_id approvals =
     length (fold (approvals_step C committee claim_id) approvals [])"

record MsPending =
  mp_operator_id :: b32
  mp_amount_sats :: u64
  mp_approvals :: "Approval list"
  mp_vetoed :: bool
  mp_finalized :: bool

record MultisigReserve =
  mr_total_sats :: u64
  mr_reserved_sats :: u64
  mr_committee :: Committee
  mr_paused :: "PauseReason option"
  mr_pending :: "b32 \<rightharpoonup> MsPending"

definition multisig_new :: "u64 \<Rightarrow> Committee \<Rightarrow> MultisigReserve" where
  "multisig_new total_sats committee =
     \<lparr>mr_total_sats = total_sats, mr_reserved_sats = 0, mr_committee = committee,
      mr_paused = None, mr_pending = Map.empty\<rparr>"

definition is_paused :: "MultisigReserve \<Rightarrow> bool" where
  "is_paused r = (mr_paused r \<noteq> None)"

definition veto_package :: "MultisigReserve \<Rightarrow> ClaimHandle \<Rightarrow> (FinalizeError, unit) res \<times> MultisigReserve" where
  "veto_package r h =
     (case mr_pending r (handle_id h) of
        None \<Rightarrow> (Err UnknownClaim, r)
      | Some p \<Rightarrow> (Ok (), r\<lparr>mr_pending := (mr_pending r)(handle_id h \<mapsto> p\<lparr>mp_vetoed := True\<rparr>)\<rparr>))"

definition approval_count :: "crypto \<Rightarrow> MultisigReserve \<Rightarrow> ClaimHandle \<Rightarrow> nat" where
  "approval_count C r h =
     (case mr_pending r (handle_id h) of
        None \<Rightarrow> 0
      | Some p \<Rightarrow> count_approvals C (mr_committee r) (handle_id h) (mp_approvals p))"

definition multisig_reserve_view :: "MultisigReserve \<Rightarrow> ReserveView" where
  "multisig_reserve_view r =
     \<lparr>rv_total_sats = mr_total_sats r, rv_reserved_sats = mr_reserved_sats r\<rparr>"

definition multisig_credit :: "MultisigReserve \<Rightarrow> u64 \<Rightarrow> MultisigReserve" where
  "multisig_credit r sats = r\<lparr>mr_total_sats := mr_total_sats r + sats\<rparr>"

definition multisig_resume :: "MultisigReserve \<Rightarrow> MultisigReserve" where
  "multisig_resume r = r\<lparr>mr_paused := None\<rparr>"

definition multisig_add_approval ::
  "crypto \<Rightarrow> MultisigReserve \<Rightarrow> ClaimHandle \<Rightarrow> Approval \<Rightarrow> (FinalizeError, unit) res \<times> MultisigReserve" where
  "multisig_add_approval C r h approval =
     (let authorized = ap_signer_pubkey approval \<in> set (cm_pubkeys (mr_committee r)) \<and>
            verify_ecdsa C (handle_id h) (ap_signer_pubkey approval) (ap_signature approval) in
      case mr_pending r (handle_id h) of
        None \<Rightarrow> (Err UnknownClaim, r)
      | Some p \<Rightarrow>
          if authorized \<and> \<not> list_ex (\<lambda>a. ap_signer_pubkey a = ap_signer_pubkey approval) (mp_approvals p)
          then (Ok (), r\<lparr>mr_pending := (mr_pending r)(handle_id h \<mapsto>
                  p\<lparr>mp_approvals := mp_approvals p @ [approval]\<rparr>)\<rparr>)
          else (Ok (), r))"

definition multisig_veto :: "MultisigReserve \<Rightarrow> ClaimHandle \<Rightarrow> (FinalizeError, unit) res \<times> MultisigReserve" where
  "multisig_veto r h = veto_package r h"

definition multisig_rotate_committee :: "MultisigReserve \<Rightarrow> Committee \<Rightarrow> MultisigReserve" where
  "multisig_rotate_committee r new =
     r\<lparr>mr_committee := new,
       mr_pending := (\<lambda>k. map_option (\<lambda>p. p\<lparr>mp_approvals := []\<rparr>) (mr_pending r k))\<rparr>"

definition multisig_submit_claim :: "MultisigReserve \<Rightarrow> ReserveClaim \<Rightarrow> ClaimHandle \<times> MultisigReserve" where
  "multisig_submit_claim r claim =
     (ClaimHandle (rc_claim_id claim),
      r\<lparr>mr_reserved_sats := mr_reserved_sats r + rc_reimbursement_sats claim,
        mr_pending := (mr_pending r)(rc_claim_id claim \<mapsto>
          \<lparr>mp_operator_id = rc_operator_id claim, mp_amount_sats = rc_reimbursement_sats claim,
           mp_approvals = [], mp_vetoed = False, mp_finalized = False\<rparr>)\<rparr>)"

definition multisig_finalize_claim ::
  "crypto \<Rightarrow> MultisigReserve \<Rightarrow> ClaimHandle \<Rightarrow> MultisigReserve finalize_result" where
  "multisig_finalize_claim C r h =
     (if mr_paused r \<noteq> None then (Err Paused, r)
      else let need = unat (cm_threshold (mr_committee r)); have_n = approval_count C r h in
      case mr_pending r (handle_id h) of
        None \<Rightarrow> (Err UnknownClaim, r)
      | Some p \<Rightarrow>
          if mp_finalized p then (Err AlreadyFinalized, r)
          else if mp_vetoed p then (Err Vetoed, r)
          else if have_n < need then (Err (ApprovalInsufficient have_n need), r)
          else if mr_total_sats r < mp_amount_sats p then (Err ReserveInsufficient, r)
          else (Ok \<lparr>sp_claim_id = handle_id h, sp_operator_id = mp_operator_id p,
                    sp_amount_sats = mp_amount_sats p\<rparr>,
                r\<lparr>mr_total_sats := mr_total_sats r - mp_amount_sats p,
                  mr_reserved_sats := mr_reserved_sats r - mp_amount_sats p,
                  mr_pending := (mr_pending r)(handle_id h \<mapsto> p\<lparr>mp_finalized := True\<rparr>)\<rparr>))"

definition multisig_emergency_pause :: "MultisigReserve \<Rightarrow> PauseReason \<Rightarrow> MultisigReserve" where
  "multisig_emergency_pause r reason = r\<lparr>mr_paused := Some reason\<rparr>"

definition multisig_reclaim_stale ::
  "MultisigReserve \<Rightarrow> ClaimHandle \<Rightarrow> (FinalizeError, u64) res \<times> MultisigReserve" where
  "multisig_reclaim_stale r h =
     (case mr_pending r (handle_id h) of
        None \<Rightarrow> (Err UnknownClaim, r)
      | Some p \<Rightarrow>
          if mp_finalized p then (Err AlreadyFinalized, r)
          else let amount = mp_amount_sats p in
            (Ok amount, r\<lparr>mr_reserved_sats := mr_reserved_sats r - amount,
               mr_pending := (mr_pending r)(handle_id h := None)\<rparr>))"

section \<open>The backend contract\<close>

datatype reserve_op = Submit ReserveClaim | Finalize ClaimHandle | Reclaim ClaimHandle | Credit u64

text \<open>
  \<open>held\<close> is the amount of each open claim. The laws are about an operation from a state whose
  reservation is the sum of the open amounts.
\<close>

locale reserve_backend =
  fixes view :: "'r \<Rightarrow> ReserveView" and held :: "'r \<Rightarrow> b32 \<rightharpoonup> u64"
    and submit :: "'r \<Rightarrow> ReserveClaim \<Rightarrow> ClaimHandle \<times> 'r"
    and finalize :: "'r \<Rightarrow> ClaimHandle \<Rightarrow> (FinalizeError, ReserveSpend) res \<times> 'r"
    and reclaim :: "'r \<Rightarrow> ClaimHandle \<Rightarrow> (FinalizeError, u64) res \<times> 'r"
    and credit :: "'r \<Rightarrow> u64 \<Rightarrow> 'r"
  assumes submit_law: "\<exists>r'. submit r c = (ClaimHandle (rc_claim_id c), r') \<and>
      held r' = (held r)(rc_claim_id c \<mapsto> rc_reimbursement_sats c) \<and>
      view r' = \<lparr>rv_total_sats = rv_total_sats (view r),
        rv_reserved_sats = rv_reserved_sats (view r) + rc_reimbursement_sats c\<rparr>"
    and finalize_law: "finalize r h = (Ok sp, r') \<Longrightarrow>
      held r (handle_id h) = Some (sp_amount_sats sp) \<and> sp_claim_id sp = handle_id h \<and>
      sp_amount_sats sp \<le> rv_total_sats (view r) \<and> held r' = (held r)(handle_id h := None) \<and>
      view r' = \<lparr>rv_total_sats = rv_total_sats (view r) - sp_amount_sats sp,
        rv_reserved_sats = rv_reserved_sats (view r) - sp_amount_sats sp\<rparr>"
    and finalize_refused: "finalize r h = (Err e, r') \<Longrightarrow> r' = r"
    and finalize_total: "finalize r h \<noteq> (Panic, r')"
    and reclaim_law: "reclaim r h = (Ok n, r') \<Longrightarrow>
      held r (handle_id h) = Some n \<and> held r' = (held r)(handle_id h := None) \<and>
      view r' = \<lparr>rv_total_sats = rv_total_sats (view r),
        rv_reserved_sats = rv_reserved_sats (view r) - n\<rparr>"
    and reclaim_refused: "reclaim r h = (Err e, r') \<Longrightarrow> r' = r"
    and reclaim_total: "reclaim r h \<noteq> (Panic, r')"
    and credit_law: "held (credit r n) = held r \<and>
      view (credit r n) = \<lparr>rv_total_sats = rv_total_sats (view r) + n,
        rv_reserved_sats = rv_reserved_sats (view r)\<rparr>"
begin

definition open_sum :: "'r \<Rightarrow> nat" where
  "open_sum r = (\<Sum>k\<in>dom (held r). unat (the (held r k)))"

definition balanced :: "'r \<Rightarrow> bool" where
  "balanced r \<longleftrightarrow> finite (dom (held r)) \<and> unat (rv_reserved_sats (view r)) = open_sum r"

text \<open>What the caller owes: fresh claim ids, and sums that fit.\<close>

definition admissible :: "reserve_op \<Rightarrow> 'r \<Rightarrow> bool" where
  "admissible op r = (case op of
     Submit c \<Rightarrow> held r (rc_claim_id c) = None \<and>
       unat (rv_reserved_sats (view r)) + unat (rc_reimbursement_sats c) < 2 ^ 64
   | Credit n \<Rightarrow> unat (rv_total_sats (view r)) + unat n < 2 ^ 64
   | _ \<Rightarrow> True)"

text \<open>An operation with the sats it paid out and the sats it credited.\<close>

definition perform :: "reserve_op \<Rightarrow> 'r \<Rightarrow> nat \<times> nat \<times> 'r" where
  "perform op r = (case op of
     Submit c \<Rightarrow> (0, 0, snd (submit r c))
   | Finalize h \<Rightarrow> (case finalize r h of (Ok sp, r') \<Rightarrow> (unat (sp_amount_sats sp), 0, r') | (_, r') \<Rightarrow> (0, 0, r'))
   | Reclaim h \<Rightarrow> (0, 0, snd (reclaim r h))
   | Credit n \<Rightarrow> (0, unat n, credit r n))"

lemma open_sum_put:
  assumes "finite (dom (held r))" and "held r k = None" and "held r' = (held r)(k \<mapsto> a)"
  shows "finite (dom (held r'))" and "open_sum r' = open_sum r + unat a"
proof -
  have k: "k \<notin> dom (held r)" using assms(2) by auto
  have "(\<Sum>j\<in>dom (held r). unat (the (held r' j))) = open_sum r"
    unfolding open_sum_def using k by (intro sum.cong) (auto simp: assms(3))
  then show "open_sum r' = open_sum r + unat a"
    using assms(1) k by (simp add: open_sum_def assms(3))
  show "finite (dom (held r'))" using assms(1,3) by simp
qed

lemma open_sum_drop:
  assumes "finite (dom (held r))" and "held r k = Some a" and "held r' = (held r)(k := None)"
  shows "finite (dom (held r'))" and "open_sum r = open_sum r' + unat a"
proof -
  have k: "k \<in> dom (held r)" using assms(2) by auto
  have d: "dom (held r') = dom (held r) - {k}" using assms(3) by simp
  have "open_sum r' = (\<Sum>j\<in>dom (held r) - {k}. unat (the (held r j)))"
    unfolding open_sum_def d by (intro sum.cong) (auto simp: assms(3))
  then show "open_sum r = open_sum r' + unat a"
    unfolding open_sum_def using sum.remove [OF assms(1) k, of "\<lambda>j. unat (the (held r j))"] assms(2) by simp
  show "finite (dom (held r'))" using assms(1) d by simp
qed

lemma released:
  assumes "balanced r" and "held r k = Some a" and "held r' = (held r)(k := None)"
    and "rv_reserved_sats (view r') = rv_reserved_sats (view r) - a"
  shows "balanced r'"
proof -
  have b: "finite (dom (held r))" "unat (rv_reserved_sats (view r)) = open_sum r"
    using assms(1) by (simp_all add: balanced_def)
  note d = open_sum_drop [OF b(1) assms(2,3)]
  have "a \<le> rv_reserved_sats (view r)" using b(2) d(2) by (simp add: word_le_nat_alt)
  then show ?thesis using b(2) d by (simp add: balanced_def assms(4) unat_sub)
qed

lemma step_balanced:
  assumes "balanced r" and "admissible op r" and "perform op r = (p, c, r')"
  shows "balanced r' \<and> unat (rv_total_sats (view r')) + p = unat (rv_total_sats (view r)) + c"
proof (cases op)
  case (Submit cl)
  obtain r1 where r1: "submit r cl = (ClaimHandle (rc_claim_id cl), r1)"
    "held r1 = (held r)(rc_claim_id cl \<mapsto> rc_reimbursement_sats cl)"
    "view r1 = \<lparr>rv_total_sats = rv_total_sats (view r),
        rv_reserved_sats = rv_reserved_sats (view r) + rc_reimbursement_sats cl\<rparr>"
    using submit_law [of r cl] by auto
  have "held r (rc_claim_id cl) = None" and fits: "unat (rv_reserved_sats (view r)) + unat (rc_reimbursement_sats cl) < 2 ^ 64"
    using assms(2) Submit by (simp_all add: admissible_def)
  note put = open_sum_put [OF _ this(1) r1(2)]
  have "unat (rv_reserved_sats (view r) + rc_reimbursement_sats cl) =
      unat (rv_reserved_sats (view r)) + unat (rc_reimbursement_sats cl)"
    using fits unat_add_lem [of "rv_reserved_sats (view r)" "rc_reimbursement_sats cl"] by simp
  then show ?thesis using assms(1,3) Submit put r1 by (auto simp: perform_def balanced_def)
next
  case (Finalize h)
  show ?thesis
  proof (cases "fst (finalize r h)")
    case (Ok sp)
    then obtain r1 where f: "finalize r h = (Ok sp, r1)" by (metis prod.collapse)
    note law = finalize_law [OF f]
    have "unat (rv_total_sats (view r) - sp_amount_sats sp) + unat (sp_amount_sats sp) = unat (rv_total_sats (view r))"
      using law by (simp add: unat_sub word_le_nat_alt)
    then show ?thesis
      using assms Finalize f law released [OF assms(1), of "handle_id h" "sp_amount_sats sp" r1]
      by (simp add: perform_def)
  next
    case (Err e)
    then obtain r1 where f: "finalize r h = (Err e, r1)" by (metis prod.collapse)
    show ?thesis using finalize_refused [OF f] assms Finalize f by (simp add: perform_def)
  next
    case Panic
    then show ?thesis using finalize_total by (metis prod.collapse)
  qed
next
  case (Reclaim h)
  show ?thesis
  proof (cases "fst (reclaim r h)")
    case (Ok n)
    then obtain r1 where f: "reclaim r h = (Ok n, r1)" by (metis prod.collapse)
    show ?thesis
      using assms Reclaim f reclaim_law [OF f] released [OF assms(1), of "handle_id h" n r1]
      by (simp add: perform_def)
  next
    case (Err e)
    then obtain r1 where f: "reclaim r h = (Err e, r1)" by (metis prod.collapse)
    show ?thesis using reclaim_refused [OF f] assms Reclaim f by (simp add: perform_def)
  next
    case Panic
    then show ?thesis using reclaim_total by (metis prod.collapse)
  qed
next
  case (Credit n)
  have "unat (rv_total_sats (view r) + n) = unat (rv_total_sats (view r)) + unat n"
    using assms(2) Credit unat_add_lem [of "rv_total_sats (view r)" n] by (simp add: admissible_def)
  then show ?thesis
    using assms Credit credit_law [of r n] by (auto simp: perform_def balanced_def open_sum_def)
qed

end

text \<open>
  A backend with the committee's hooks: they move no sats and open or close no claim. A run interleaves
  operations and hooks.
\<close>

locale hooked_backend = reserve_backend +
  fixes hook :: "'h \<Rightarrow> 'a \<Rightarrow> 'a"
  assumes hook_law: "view (hook x r) = view r \<and> held (hook x r) = held r"
begin

inductive run :: "'a \<Rightarrow> nat \<Rightarrow> nat \<Rightarrow> 'a \<Rightarrow> bool" where
  run_none: "run r 0 0 r"
| run_step: "run r paid credited r' \<Longrightarrow> admissible op r' \<Longrightarrow> perform op r' = (p, c, r'') \<Longrightarrow>
     run r (paid + p) (credited + c) r''"
| run_hook: "run r paid credited r' \<Longrightarrow> run r paid credited (hook x r')"

lemma run_conserves:
  "run r paid credited r' \<Longrightarrow> balanced r \<Longrightarrow>
     balanced r' \<and> unat (rv_total_sats (view r')) + paid = unat (rv_total_sats (view r)) + credited"
proof (induction rule: run.induct)
  case (run_step r paid credited r' op p c r'')
  then show ?case using step_balanced [of r' op p c r''] by simp
next
  case (run_hook r paid credited r' x)
  then show ?case using hook_law [of x r'] by (simp add: balanced_def open_sum_def)
qed simp

end

section \<open>Both backends meet the contract\<close>

definition mock_held :: "MockReserve \<Rightarrow> b32 \<rightharpoonup> u64" where
  "mock_held r k = map_option pd_amount_sats (mk_pending r k)"

definition multisig_held :: "MultisigReserve \<Rightarrow> b32 \<rightharpoonup> u64" where
  "multisig_held r k =
     (case mr_pending r k of None \<Rightarrow> None
      | Some p \<Rightarrow> if mp_finalized p then None else Some (mp_amount_sats p))"

interpretation mock: reserve_backend mock_reserve_view mock_held mock_submit_claim
  mock_finalize_claim mock_reclaim_stale mock_credit
  by unfold_locales
    (auto simp: mock_reserve_view_def mock_held_def mock_submit_claim_def mock_finalize_claim_def
      mock_reclaim_stale_def mock_credit_def fun_eq_iff not_less Let_def
      split: option.splits if_splits)

interpretation multisig: reserve_backend multisig_reserve_view multisig_held multisig_submit_claim
  "multisig_finalize_claim C" multisig_reclaim_stale multisig_credit
  by unfold_locales
    (auto simp: multisig_reserve_view_def multisig_held_def multisig_submit_claim_def
      multisig_finalize_claim_def multisig_reclaim_stale_def multisig_credit_def fun_eq_iff not_less Let_def
      split: option.splits if_splits)

lemmas multisig_hook_defs = veto_package_def multisig_veto_def multisig_add_approval_def
  multisig_rotate_committee_def multisig_emergency_pause_def multisig_resume_def

text \<open>The committee's hooks move no sats and open or close no claim.\<close>

lemma multisig_hooks_keep_custody:
  "multisig_reserve_view (snd (multisig_veto r h)) = multisig_reserve_view r"
  "multisig_held (snd (multisig_veto r h)) = multisig_held r"
  "multisig_reserve_view (snd (multisig_add_approval C r h a)) = multisig_reserve_view r"
  "multisig_held (snd (multisig_add_approval C r h a)) = multisig_held r"
  "multisig_reserve_view (multisig_rotate_committee r new) = multisig_reserve_view r"
  "multisig_held (multisig_rotate_committee r new) = multisig_held r"
  "multisig_reserve_view (multisig_emergency_pause r x) = multisig_reserve_view r"
  "multisig_held (multisig_emergency_pause r x) = multisig_held r"
  "multisig_reserve_view (multisig_resume r) = multisig_reserve_view r"
  "multisig_held (multisig_resume r) = multisig_held r"
  by (auto simp: multisig_hook_defs multisig_reserve_view_def multisig_held_def fun_eq_iff Let_def
      split: option.splits)

text \<open>What the committee and challengers do to the backend between the operations.\<close>

datatype committee_hook =
  AddApproval ClaimHandle Approval | VetoPackage ClaimHandle | Pause PauseReason | Resume | Rotate Committee

fun multisig_hook :: "crypto \<Rightarrow> committee_hook \<Rightarrow> MultisigReserve \<Rightarrow> MultisigReserve" where
  "multisig_hook C (AddApproval h a) r = snd (multisig_add_approval C r h a)"
| "multisig_hook C (VetoPackage h) r = snd (multisig_veto r h)"
| "multisig_hook C (Pause reason) r = multisig_emergency_pause r reason"
| "multisig_hook C Resume r = multisig_resume r"
| "multisig_hook C (Rotate new) r = multisig_rotate_committee r new"

interpretation multisig_life: hooked_backend multisig_reserve_view multisig_held multisig_submit_claim
  "multisig_finalize_claim C" multisig_reclaim_stale multisig_credit "multisig_hook C"
proof unfold_locales
  show "multisig_reserve_view (multisig_hook C x r) = multisig_reserve_view r
      \<and> multisig_held (multisig_hook C x r) = multisig_held r" for x r
    by (cases x) (simp_all add: multisig_hooks_keep_custody)
qed

section \<open>Approvals\<close>

interpretation reserve_signers: signer_loop ap_signer_pubkey
  "\<lambda>k. k \<in> set (cm_pubkeys committee)"
  "\<lambda>a. verify_ecdsa C claim_id (ap_signer_pubkey a) (ap_signature a)"
  "approvals_step C committee claim_id" id length
  by unfold_locales (auto simp: approvals_step_def)

definition approving_keys :: "crypto \<Rightarrow> Committee \<Rightarrow> b32 \<Rightarrow> Approval list \<Rightarrow> b33 set" where
  "approving_keys C committee claim_id approvals =
     ap_signer_pubkey ` {a \<in> set approvals. ap_signer_pubkey a \<in> set (cm_pubkeys committee) \<and>
       verify_ecdsa C claim_id (ap_signer_pubkey a) (ap_signature a)}"

lemma count_approvals_card:
  "count_approvals C committee claim_id approvals = card (approving_keys C committee claim_id approvals)"
  unfolding count_approvals_def
  using reserve_signers.tally_is_card [of "[]" C committee claim_id approvals]
  by (simp add: reserve_signers.signed_by_def approving_keys_def)

text \<open>
  What every reachable backend satisfies: the approvals it holds for a claim are by distinct
  members of the current committee and valid, so their number is the count.
\<close>

definition approvals_sound :: "crypto \<Rightarrow> MultisigReserve \<Rightarrow> bool" where
  "approvals_sound C r \<longleftrightarrow>
     (\<forall>k p. mr_pending r k = Some p \<longrightarrow>
        distinct (map ap_signer_pubkey (mp_approvals p)) \<and>
        (\<forall>a\<in>set (mp_approvals p). ap_signer_pubkey a \<in> set (cm_pubkeys (mr_committee r)) \<and>
           verify_ecdsa C k (ap_signer_pubkey a) (ap_signature a)))"

lemma approvals_sound_count:
  assumes "approvals_sound C r" and "mr_pending r (handle_id h) = Some p"
  shows "approval_count C r h = length (mp_approvals p)"
proof -
  have "{a \<in> set (mp_approvals p). ap_signer_pubkey a \<in> set (cm_pubkeys (mr_committee r)) \<and>
      verify_ecdsa C (handle_id h) (ap_signer_pubkey a) (ap_signature a)} = set (mp_approvals p)"
    using assms by (auto simp: approvals_sound_def)
  moreover have "distinct (map ap_signer_pubkey (mp_approvals p))"
    using assms by (auto simp: approvals_sound_def)
  ultimately show ?thesis
    using assms(2) distinct_card [of "map ap_signer_pubkey (mp_approvals p)"]
    by (simp add: approval_count_def count_approvals_card approving_keys_def)
qed

lemma approvals_sound_new: "approvals_sound C (multisig_new sats com)"
  by (simp add: approvals_sound_def multisig_new_def)

lemma approvals_sound_steps:
  assumes "approvals_sound C r"
  shows "approvals_sound C (snd (multisig_submit_claim r c))"
    and "approvals_sound C (snd (multisig_add_approval C r h a))"
    and "approvals_sound C (snd (multisig_veto r h))"
    and "approvals_sound C (multisig_rotate_committee r new)"
    and "approvals_sound C (snd (multisig_finalize_claim C r h))"
    and "approvals_sound C (snd (multisig_reclaim_stale r h))"
    and "approvals_sound C (multisig_emergency_pause r x)"
    and "approvals_sound C (multisig_resume r)"
    and "approvals_sound C (multisig_credit r n)"
proof -
  show "approvals_sound C (snd (multisig_add_approval C r h a))"
    using assms by (auto simp: approvals_sound_def multisig_add_approval_def Let_def list_ex_iff
        split: option.splits)
  show "approvals_sound C (multisig_rotate_committee r new)"
    using assms by (auto simp: approvals_sound_def multisig_rotate_committee_def)
  show "approvals_sound C (snd (multisig_finalize_claim C r h))"
    using assms by (auto simp: approvals_sound_def multisig_finalize_claim_def Let_def split: option.splits)
qed (use assms in \<open>auto simp: approvals_sound_def multisig_submit_claim_def multisig_veto_def
    veto_package_def multisig_reclaim_stale_def multisig_emergency_pause_def multisig_resume_def
    multisig_credit_def Let_def split: option.splits\<close>)

lemma multisig_finalize_Ok:
  "fst (multisig_finalize_claim C r h) = Ok sp \<longleftrightarrow>
     (\<exists>p. mr_paused r = None \<and> mr_pending r (handle_id h) = Some p \<and> \<not> mp_finalized p \<and> \<not> mp_vetoed p \<and>
        unat (cm_threshold (mr_committee r)) \<le>
          card (approving_keys C (mr_committee r) (handle_id h) (mp_approvals p)) \<and>
        mp_amount_sats p \<le> mr_total_sats r \<and>
        sp = \<lparr>sp_claim_id = handle_id h, sp_operator_id = mp_operator_id p, sp_amount_sats = mp_amount_sats p\<rparr>)"
  by (auto simp: multisig_finalize_claim_def approval_count_def count_approvals_card Let_def not_less
      split: option.splits)

section \<open>Properties\<close>

text \<open>
  C7: over any run of the multisig backend, with claims, finalizations, reclaims and deposits interleaved
  with the committee's approvals, vetoes, pauses and rotations, what custody holds plus what it has
  paid is what it held plus what was credited, and its reservation is the sum of the open claims. The
  caller owes that no claim is submitted under the id of an open one and that the sums fit 64 bits.
\<close>
lemma multisig_conserves:
  assumes "multisig_life.run C (multisig_new sats com) paid credited r"
  shows "unat (mr_total_sats r) + paid = unat sats + credited \<and>
     unat (mr_reserved_sats r) = (\<Sum>k\<in>dom (multisig_held r). unat (the (multisig_held r k)))"
proof -
  have "multisig.balanced (multisig_new sats com)"
    by (simp add: multisig.balanced_def multisig.open_sum_def multisig_new_def multisig_held_def
        multisig_reserve_view_def dom_def)
  from multisig_life.run_conserves [OF assms this] show ?thesis
    by (simp add: multisig.balanced_def multisig.open_sum_def multisig_reserve_view_def multisig_new_def)
qed

lemma multisig_conserves_witness:
  "\<exists>r. multisig_life.run const_crypto (multisig_new 5 \<lparr>cm_threshold = 1, cm_pubkeys = [fill 2]\<rparr>) 9 7 r
     \<and> unat (mr_total_sats r) + 9 = 5 + 7 \<and> mr_reserved_sats r = 0"
proof -
  let ?c = "sample_claim\<lparr>rc_reimbursement_sats := 9\<rparr>" and ?h = "ClaimHandle (fill 0)"
  let ?a = "\<lparr>ap_signer_pubkey = fill 2, ap_signature = fill 0\<rparr>"
  let ?r0 = "multisig_new 5 \<lparr>cm_threshold = 1, cm_pubkeys = [fill 2]\<rparr>"
  define r1 where "r1 = multisig_credit ?r0 7"
  define r2 where "r2 = snd (multisig_submit_claim r1 ?c)"
  define r3 where "r3 = multisig_hook const_crypto (AddApproval ?h ?a) r2"
  define r4 where "r4 = snd (multisig_finalize_claim const_crypto r3 ?h)"
  note defs = r1_def r2_def r3_def multisig_credit_def multisig_new_def multisig_submit_claim_def
    multisig_add_approval_def sample_claim_def verify_ecdsa_def
  note run_defs = multisig.admissible_def multisig.perform_def multisig_reserve_view_def multisig_held_def
  have "multisig_life.run const_crypto ?r0 (0 + 0) (0 + 7) r1"
    by (rule multisig_life.run_step [OF multisig_life.run_none, where op = "Credit 7"]) (simp_all add: defs run_defs)
  then have "multisig_life.run const_crypto ?r0 (0 + 0 + 0) (0 + 7 + 0) r2"
    by (rule multisig_life.run_step [where op = "Submit ?c"]) (simp_all add: defs run_defs)
  then have 3: "multisig_life.run const_crypto ?r0 (0 + 0 + 0) (0 + 7 + 0) r3"
    unfolding r3_def by (rule multisig_life.run_hook)
  have pays: "fst (multisig_finalize_claim const_crypto r3 ?h)
      = Ok \<lparr>sp_claim_id = fill 0, sp_operator_id = fill 0, sp_amount_sats = 9\<rparr>"
    by (simp add: defs multisig_finalize_claim_def approval_count_def count_approvals_def approvals_step_def)
  have "multisig_life.run const_crypto ?r0 (0 + 0 + 0 + 9) (0 + 7 + 0 + 0) r4"
    using 3
    by (rule multisig_life.run_step [where op = "Finalize ?h"])
      (use pays in \<open>cases "multisig_finalize_claim const_crypto r3 ?h"; simp add: run_defs r4_def\<close>)+
  then have run: "multisig_life.run const_crypto ?r0 9 7 r4" by simp
  have "mr_reserved_sats r4 = 0"
    by (simp add: r4_def defs multisig_finalize_claim_def approval_count_def count_approvals_def approvals_step_def)
  with run multisig_conserves [OF run] show ?thesis by (intro exI [of _ r4]) simp
qed

text \<open>
  the multisig backend pays exactly when it is not paused, the claim is open and not vetoed,
  distinct committee members that validly signed its id reach the threshold, and the sats are there.
\<close>
lemma multisig_pays_iff:
  "fst (multisig_finalize_claim C r h) = Ok sp \<longleftrightarrow>
     (\<exists>p. mr_paused r = None \<and> mr_pending r (handle_id h) = Some p \<and> \<not> mp_finalized p \<and> \<not> mp_vetoed p \<and>
        unat (cm_threshold (mr_committee r)) \<le>
          card (approving_keys C (mr_committee r) (handle_id h) (mp_approvals p)) \<and>
        mp_amount_sats p \<le> mr_total_sats r \<and>
        sp = \<lparr>sp_claim_id = handle_id h, sp_operator_id = mp_operator_id p, sp_amount_sats = mp_amount_sats p\<rparr>)"
  by (rule multisig_finalize_Ok)

text \<open>
  rotating the committee takes every approval given so far back: under a positive threshold no
  claim can be paid until members of the new committee approve it.
\<close>
lemma rotation_blocks_payment:
  assumes "0 < cm_threshold new"
  shows "fst (multisig_finalize_claim C (multisig_rotate_committee r new) h) \<noteq> Ok sp"
  using assms
  by (auto simp: multisig_finalize_Ok multisig_rotate_committee_def approving_keys_def word_less_nat_alt)

lemma rotation_blocks_payment_witness:
  "fst (multisig_finalize_claim const_crypto (multisig_rotate_committee
       (snd (multisig_add_approval const_crypto (snd (multisig_submit_claim
         (multisig_new 5 \<lparr>cm_threshold = 1, cm_pubkeys = [fill 2]\<rparr>) sample_claim)) (ClaimHandle (fill 0))
         \<lparr>ap_signer_pubkey = fill 2, ap_signature = fill 0\<rparr>))
       \<lparr>cm_threshold = 1, cm_pubkeys = [fill 2]\<rparr>) (ClaimHandle (fill 0)))
     \<noteq> Ok \<lparr>sp_claim_id = fill 0, sp_operator_id = fill 0, sp_amount_sats = 0\<rparr>"
  by (rule rotation_blocks_payment) simp

end
