(* ===== verification/Node.thy ===== *)
theory Node
  imports Claim Registry Reserve
begin

text \<open>
  The state node (\<^verbatim>\<open>satusd-state/src/node.rs\<close>): the committed state root, one tree per root, the
  positions and claims behind the trees' leaves, and a boxed custody backend. A method on
  \<^verbatim>\<open>&mut self\<close> returns its result with the node it leaves, on errors too. Shown here: the node
  invariant (every root in the state is its tree's root, custody agrees with the state, every
  pending claim is open in custody), that every operation keeps it, and that under it
  \<open>InvariantViolation\<close> is never returned.
\<close>

section \<open>Custody behind the trait object\<close>

datatype custody = MockCustody MockReserve | MultisigCustody MultisigReserve

fun custody_view :: "custody \<Rightarrow> ReserveView" where
  "custody_view (MockCustody r) = mock_reserve_view r"
| "custody_view (MultisigCustody r) = multisig_reserve_view r"

fun custody_credit :: "custody \<Rightarrow> u64 \<Rightarrow> custody" where
  "custody_credit (MockCustody r) n = MockCustody (mock_credit r n)"
| "custody_credit (MultisigCustody r) n = MultisigCustody (multisig_credit r n)"

fun custody_submit :: "custody \<Rightarrow> ReserveClaim \<Rightarrow> ClaimHandle \<times> custody" where
  "custody_submit (MockCustody r) c = map_prod id MockCustody (mock_submit_claim r c)"
| "custody_submit (MultisigCustody r) c = map_prod id MultisigCustody (multisig_submit_claim r c)"

fun custody_finalize :: "crypto \<Rightarrow> custody \<Rightarrow> ClaimHandle \<Rightarrow> custody finalize_result" where
  "custody_finalize C (MockCustody r) h = map_prod id MockCustody (mock_finalize_claim r h)"
| "custody_finalize C (MultisigCustody r) h = map_prod id MultisigCustody (multisig_finalize_claim C r h)"

fun custody_reclaim :: "custody \<Rightarrow> ClaimHandle \<Rightarrow> (FinalizeError, u64) res \<times> custody" where
  "custody_reclaim (MockCustody r) h = map_prod id MockCustody (mock_reclaim_stale r h)"
| "custody_reclaim (MultisigCustody r) h = map_prod id MultisigCustody (multisig_reclaim_stale r h)"

text \<open>The trait's default hooks do nothing; only the committee backend overrides them.\<close>

fun custody_pause :: "custody \<Rightarrow> PauseReason \<Rightarrow> custody" where
  "custody_pause (MockCustody r) reason = MockCustody (mock_emergency_pause r reason)"
| "custody_pause (MultisigCustody r) reason = MultisigCustody (multisig_emergency_pause r reason)"

fun custody_resume :: "custody \<Rightarrow> custody" where
  "custody_resume (MockCustody r) = MockCustody r"
| "custody_resume (MultisigCustody r) = MultisigCustody (multisig_resume r)"

fun custody_add_approval ::
  "crypto \<Rightarrow> custody \<Rightarrow> ClaimHandle \<Rightarrow> Approval \<Rightarrow> (FinalizeError, unit) res \<times> custody" where
  "custody_add_approval C (MockCustody r) h a = (Ok (), MockCustody r)"
| "custody_add_approval C (MultisigCustody r) h a = map_prod id MultisigCustody (multisig_add_approval C r h a)"

fun custody_veto :: "custody \<Rightarrow> ClaimHandle \<Rightarrow> (FinalizeError, unit) res \<times> custody" where
  "custody_veto (MockCustody r) h = (Ok (), MockCustody r)"
| "custody_veto (MultisigCustody r) h = map_prod id MultisigCustody (multisig_veto r h)"

fun custody_rotate :: "custody \<Rightarrow> Committee \<Rightarrow> custody" where
  "custody_rotate (MockCustody r) c = MockCustody r"
| "custody_rotate (MultisigCustody r) c = MultisigCustody (multisig_rotate_committee r c)"

section \<open>The node\<close>

datatype NodeError =
    Mint MintRejectReason
  | Redeem RedeemRejectReason
  | Registry RegistryRejectReason
  | Oracle OracleRejectReason
  | Claim ClaimRejectReason
  | UnknownIssuer
  | UnknownClaim
  | ReserveRefused FinalizeError
  | InvariantViolation

record StateNode =
  nd_state :: StateRoot
  nd_issuer_tree :: SparseMerkleTree
  nd_issuers :: "b32 \<rightharpoonup> IssuerPosition"
  nd_operator_tree :: SparseMerkleTree
  nd_operators :: "b32 \<rightharpoonup> OperatorPosition"
  nd_pending_claim_tree :: SparseMerkleTree
  nd_pending_claims :: "b32 \<rightharpoonup> PendingClaim"
  nd_lock_record_tree :: SparseMerkleTree
  nd_lock_consumed_tree :: SparseMerkleTree
  nd_lock_refund_tree :: SparseMerkleTree
  nd_nullifier_tree :: SparseMerkleTree
  nd_reserve :: custody

type_synonym node_result = "(NodeError, b32) res \<times> StateNode"

definition genesis_state :: "crypto \<Rightarrow> b32 \<Rightarrow> b32 \<Rightarrow> u64 \<Rightarrow> u64 \<Rightarrow> StateRoot" where
  "genesis_state C family oracle_hash oracle_set_epoch latest_oracle_price_e8 =
     (let empty_root = smt_root C (smt_new C) in
      \<lparr>sr_protocol_version = 1, sr_state_epoch = 0, sr_prev_state_root = fill 0,
       sr_transition_type = 0, sr_satusd_asset_family_id = family,
       sr_sat_usd_supply_atoms = 0, sr_reserve_btc_sats = 0, sr_reserved_pending_claim_sats = 0,
       sr_collateral_ratio_ppm = 0, sr_emergency_tier = 0,
       sr_oracle_set_hash = oracle_hash, sr_oracle_set_epoch = oracle_set_epoch,
       sr_latest_oracle_epoch_seen = oracle_set_epoch,
       sr_latest_oracle_price_e8 = latest_oracle_price_e8,
       sr_reserve_committee_hash = fill 0,
       sr_issuer_positions_root = empty_root, sr_operator_registry_root = empty_root,
       sr_lock_record_root = empty_root, sr_lock_consumed_root = empty_root,
       sr_lock_refund_root = empty_root, sr_redemption_nullifier_root = empty_root,
       sr_pending_claim_root = empty_root, sr_live_da_root = empty_root,
       sr_archival_da_root = empty_root,
       sr_l1_anchor_hash = fill 0, sr_l1_anchor_height = 0, sr_l1_anchor_mtp = 0,
       sr_l1_anchor_chain_time = 0\<rparr>)"

definition genesis_node :: "crypto \<Rightarrow> b32 \<Rightarrow> b32 \<Rightarrow> u64 \<Rightarrow> u64 \<Rightarrow> StateNode" where
  "genesis_node C family oracle_hash oracle_set_epoch latest_oracle_price_e8 =
     \<lparr>nd_state = genesis_state C family oracle_hash oracle_set_epoch latest_oracle_price_e8,
      nd_issuer_tree = smt_new C, nd_issuers = Map.empty,
      nd_operator_tree = smt_new C, nd_operators = Map.empty,
      nd_pending_claim_tree = smt_new C, nd_pending_claims = Map.empty,
      nd_lock_record_tree = smt_new C, nd_lock_consumed_tree = smt_new C,
      nd_lock_refund_tree = smt_new C, nd_nullifier_tree = smt_new C,
      nd_reserve = MockCustody (mock_new 0)\<rparr>"

definition node_reserve_view :: "StateNode \<Rightarrow> ReserveView" where
  "node_reserve_view n = custody_view (nd_reserve n)"

definition reserve_consistent :: "StateNode \<Rightarrow> (NodeError, unit) res" where
  "reserve_consistent n =
     (let v = custody_view (nd_reserve n) in
      if rv_total_sats v = sr_reserve_btc_sats (nd_state n)
         \<and> rv_reserved_sats v = sr_reserved_pending_claim_sats (nd_state n)
      then Ok () else Err InvariantViolation)"

definition node_state_root_hash :: "crypto \<Rightarrow> StateNode \<Rightarrow> b32" where
  "node_state_root_hash C n = state_root_hash C (nd_state n)"

definition set_l1_anchor :: "StateNode \<Rightarrow> u32 \<Rightarrow> b32 \<Rightarrow> u64 \<Rightarrow> StateNode" where
  "set_l1_anchor n height h mtp = n\<lparr>nd_state := (nd_state n)\<lparr>
     sr_l1_anchor_height := height, sr_l1_anchor_hash := h, sr_l1_anchor_mtp := mtp,
     sr_l1_anchor_chain_time := mtp + MTP_LAG_OFFSET_SEC\<rparr>\<rparr>"

definition set_reserve_committee :: "StateNode \<Rightarrow> b32 \<Rightarrow> StateNode" where
  "set_reserve_committee n h = n\<lparr>nd_state := (nd_state n)\<lparr>sr_reserve_committee_hash := h\<rparr>\<rparr>"

definition use_multisig_reserve :: "crypto \<Rightarrow> StateNode \<Rightarrow> Committee \<Rightarrow> StateNode" where
  "use_multisig_reserve C n committee =
     (let n = n\<lparr>nd_state := (nd_state n)\<lparr>sr_reserve_committee_hash := committee_hash C committee\<rparr>\<rparr>
      in n\<lparr>nd_reserve := MultisigCustody (multisig_new (sr_reserve_btc_sats (nd_state n)) committee)\<rparr>)"

definition emergency_pause :: "StateNode \<Rightarrow> PauseReason \<Rightarrow> StateNode" where
  "emergency_pause n reason = n\<lparr>nd_reserve := custody_pause (nd_reserve n) reason\<rparr>"

definition resume_reserve :: "StateNode \<Rightarrow> StateNode" where
  "resume_reserve n = n\<lparr>nd_reserve := custody_resume (nd_reserve n)\<rparr>"

definition veto_claim :: "StateNode \<Rightarrow> b32 \<Rightarrow> (NodeError, unit) res \<times> StateNode" where
  "veto_claim n claim_id =
     (let (r, reserve) = custody_veto (nd_reserve n) (ClaimHandle claim_id)
      in (map_err ReserveRefused r, n\<lparr>nd_reserve := reserve\<rparr>))"

definition rotate_reserve_committee :: "crypto \<Rightarrow> StateNode \<Rightarrow> Committee \<Rightarrow> StateNode" where
  "rotate_reserve_committee C n new_committee =
     (let n = n\<lparr>nd_state := (nd_state n)\<lparr>sr_reserve_committee_hash := committee_hash C new_committee\<rparr>\<rparr>
      in n\<lparr>nd_reserve := custody_rotate (nd_reserve n) new_committee\<rparr>)"

definition node_issuer :: "StateNode \<Rightarrow> b32 \<Rightarrow> IssuerPosition option" where
  "node_issuer n issuer_id = nd_issuers n issuer_id"

definition node_operator :: "StateNode \<Rightarrow> b32 \<Rightarrow> OperatorPosition option" where
  "node_operator n operator_id = nd_operators n operator_id"

definition node_pending_claim :: "StateNode \<Rightarrow> b32 \<Rightarrow> PendingClaim option" where
  "node_pending_claim n claim_id = nd_pending_claims n claim_id"

definition commit :: "crypto \<Rightarrow> StateNode \<Rightarrow> StateRoot \<Rightarrow> node_result" where
  "commit C n new_state =
     (let ok = smt_root C (nd_issuer_tree n) = sr_issuer_positions_root new_state
            \<and> smt_root C (nd_operator_tree n) = sr_operator_registry_root new_state
            \<and> smt_root C (nd_pending_claim_tree n) = sr_pending_claim_root new_state
            \<and> smt_root C (nd_lock_record_tree n) = sr_lock_record_root new_state
            \<and> smt_root C (nd_lock_consumed_tree n) = sr_lock_consumed_root new_state
            \<and> smt_root C (nd_lock_refund_tree n) = sr_lock_refund_root new_state
            \<and> smt_root C (nd_nullifier_tree n) = sr_redemption_nullifier_root new_state in
      if \<not> ok then (Err InvariantViolation, n)
      else let n = n\<lparr>nd_state := new_state\<rparr> in (Ok (node_state_root_hash C n), n))"

text \<open>The \<^verbatim>\<open>?\<close> after a step on the node: an error or a panic returns with the node as it is then.\<close>

fun node_then :: "('e, 'a) res \<times> StateNode \<Rightarrow> ('a \<Rightarrow> StateNode \<Rightarrow> ('e, 'b) res \<times> StateNode)
    \<Rightarrow> ('e, 'b) res \<times> StateNode" where
  "node_then (Ok x, n) f = f x n"
| "node_then (Err e, n) f = (Err e, n)"
| "node_then (Panic, n) f = (Panic, n)"

section \<open>Registering and minting\<close>

definition issuer_register :: "crypto \<Rightarrow> StateNode \<Rightarrow> IssuerPosition \<Rightarrow> node_result" where
  "issuer_register C n new_issuer =
     (let proof_path = smt_prove C (nd_issuer_tree n) (ip_issuer_id new_issuer) in
      node_then (map_err Registry (apply_issuer_register C (nd_state n) new_issuer proof_path), n)
        (\<lambda>new_state n.
      let n = n\<lparr>nd_issuer_tree := snd (smt_insert C (nd_issuer_tree n) (ip_issuer_id new_issuer)
                   (issuer_position_hash C new_issuer)),
                nd_issuers := (nd_issuers n)(ip_issuer_id new_issuer \<mapsto> new_issuer)\<rparr>
      in commit C n new_state))"

definition operator_register :: "crypto \<Rightarrow> StateNode \<Rightarrow> OperatorPosition \<Rightarrow> node_result" where
  "operator_register C n new_op =
     (let proof_path = smt_prove C (nd_operator_tree n) (opn_operator_id new_op) in
      node_then (map_err Registry (apply_operator_register C (nd_state n) new_op proof_path), n)
        (\<lambda>new_state n.
      let n = n\<lparr>nd_operator_tree := snd (smt_insert C (nd_operator_tree n) (opn_operator_id new_op)
                   (operator_position_hash C new_op)),
                nd_operators := (nd_operators n)(opn_operator_id new_op \<mapsto> new_op)\<rparr>
      in commit C n new_state))"

definition mint_commit :: "crypto \<Rightarrow> StateNode \<Rightarrow> b32 \<Rightarrow> MintCommitWitness \<Rightarrow> node_result" where
  "mint_commit C n issuer_id w =
     node_then (ok_or (nd_issuers n issuer_id) UnknownIssuer, n) (\<lambda>prev_issuer n.
     let proof_path = smt_prove C (nd_issuer_tree n) issuer_id in
     node_then (map_err Mint (apply_mint_commit C (nd_state n) prev_issuer proof_path w), n)
       (\<lambda>new_state n.
     node_then (map_err Mint (issuer_after_commit C prev_issuer w), n) (\<lambda>new_issuer n.
     let n = n\<lparr>nd_issuer_tree := snd (smt_insert C (nd_issuer_tree n) issuer_id
                  (issuer_position_hash C new_issuer)),
               nd_issuers := (nd_issuers n)(issuer_id \<mapsto> new_issuer)\<rparr> in
     node_then (commit C n new_state) (\<lambda>root n.
     let n = n\<lparr>nd_reserve := custody_credit (nd_reserve n) (mc_deposit_sats w)\<rparr> in
     node_then (reserve_consistent n, n) (\<lambda>_ n. (Ok root, n))))))"

definition mint_finalize :: "crypto \<Rightarrow> StateNode \<Rightarrow> b32 \<Rightarrow> MintFinalizeWitness \<Rightarrow> node_result" where
  "mint_finalize C n issuer_id w =
     node_then (ok_or (nd_issuers n issuer_id) UnknownIssuer, n) (\<lambda>prev_issuer n.
     let proof_path = smt_prove C (nd_issuer_tree n) issuer_id in
     node_then (map_err Mint (apply_mint_finalize C (nd_state n) prev_issuer proof_path w), n)
       (\<lambda>new_state n.
     node_then (map_err Mint (issuer_after_finalize prev_issuer (mf_requested_mint_atoms w)), n)
       (\<lambda>new_issuer n.
     let n = n\<lparr>nd_issuer_tree := snd (smt_insert C (nd_issuer_tree n) issuer_id
                  (issuer_position_hash C new_issuer)),
               nd_issuers := (nd_issuers n)(issuer_id \<mapsto> new_issuer)\<rparr> in
     commit C n new_state)))"

section \<open>Locks\<close>

definition redeem_lock :: "crypto \<Rightarrow> StateNode \<Rightarrow> RedeemLockWitness \<Rightarrow> node_result" where
  "redeem_lock C n w =
     (let lr_hash = lock_record_hash C (rl_lock_record w);
          w = w\<lparr>rl_lock_exclusion_proof := smt_prove C (nd_lock_record_tree n) lr_hash\<rparr> in
      node_then (map_err Redeem (apply_redeem_lock C (nd_state n) w), n) (\<lambda>new_state n.
      let n = n\<lparr>nd_lock_record_tree := snd (smt_insert C (nd_lock_record_tree n) lr_hash SET_MEMBER)\<rparr>
      in commit C n new_state))"

definition lock_refund :: "crypto \<Rightarrow> StateNode \<Rightarrow> LockRefundWitness \<Rightarrow> node_result" where
  "lock_refund C n w =
     (let lr_hash = lock_record_hash C (rf_lock_record w);
          w = w\<lparr>rf_lock_membership_proof := smt_prove C (nd_lock_record_tree n) lr_hash,
                rf_consumed_exclusion_proof := smt_prove C (nd_lock_consumed_tree n) lr_hash,
                rf_refund_exclusion_proof := smt_prove C (nd_lock_refund_tree n) lr_hash\<rparr> in
      node_then (map_err Redeem (apply_lock_refund C (nd_state n) w), n) (\<lambda>new_state n.
      let n = n\<lparr>nd_lock_refund_tree := snd (smt_insert C (nd_lock_refund_tree n) lr_hash SET_MEMBER)\<rparr>
      in commit C n new_state))"

section \<open>Submitting a claim\<close>

text \<open>The loop that fills the proofs of each redemption against the running clones.\<close>

record fill_state =
  fl_consumed :: SparseMerkleTree
  fl_nullifier :: SparseMerkleTree
  fl_total_amount :: u64
  fl_total_gross :: u64
  fl_leaves :: "b32 list"
  fl_redemptions :: "BatchRedemption list"

definition fill_start :: "StateNode \<Rightarrow> fill_state" where
  "fill_start n = \<lparr>fl_consumed = nd_lock_consumed_tree n, fl_nullifier = nd_nullifier_tree n,
     fl_total_amount = 0, fl_total_gross = 0, fl_leaves = [], fl_redemptions = []\<rparr>"

definition fill_proofs ::
  "crypto \<Rightarrow> StateNode \<Rightarrow> fill_state \<Rightarrow> b32 \<Rightarrow> b32 \<Rightarrow> BatchRedemption \<Rightarrow> BatchRedemption" where
  "fill_proofs C n st lr_hash nf r = r\<lparr>
     br_lock_membership_proof := smt_prove C (nd_lock_record_tree n) lr_hash,
     br_consumed_exclusion_proof := smt_prove C (fl_consumed st) lr_hash,
     br_refund_exclusion_proof := smt_prove C (nd_lock_refund_tree n) lr_hash,
     br_nullifier_exclusion_proof := smt_prove C (fl_nullifier st) nf\<rparr>"

definition fill_step ::
  "crypto \<Rightarrow> StateNode \<Rightarrow> u64 \<Rightarrow> BatchRedemption \<Rightarrow> fill_state \<Rightarrow> (NodeError, fill_state) res" where
  "fill_step C n price r st =
     (let lr_hash = lock_record_hash C (br_lock_record r);
          nf = redemption_nullifier C (lr_lock_anchor_outpoint (br_lock_record r))
            (lr_lock_script_key (br_lock_record r)) (lr_redeem_intent_hash (br_lock_record r));
          r = fill_proofs C n st lr_hash nf r;
          consumed = snd (smt_insert C (fl_consumed st) lr_hash SET_MEMBER);
          nullifier = snd (smt_insert C (fl_nullifier st) nf SET_MEMBER) in
      if price = 0 then Panic
      else let gross = (ucast (lr_lock_amount_atoms (br_lock_record r)) * 10 ^ 14) div ucast price :: u128 in
      Ok \<lparr>fl_consumed = consumed, fl_nullifier = nullifier,
          fl_total_amount = fl_total_amount st + ri_amount_satusd_atoms (br_redeem_intent r),
          fl_total_gross = fl_total_gross st + ucast gross,
          fl_leaves = fl_leaves st @ [lr_hash], fl_redemptions = fl_redemptions st @ [r]\<rparr>)"

definition node_claim_price ::
  "crypto \<Rightarrow> StateNode \<Rightarrow> OracleMessage list \<Rightarrow> b32 list \<Rightarrow> ClaimClock \<Rightarrow> (NodeError, u64) res" where
  "node_claim_price C n oracle_messages oracle_signer_set l1_anchor =
     rbind (map_err NodeError.Oracle (verify_signatures C oracle_messages)) (\<lambda>_.
     let chain_time = sr_l1_anchor_mtp (nd_state n) + MTP_LAG_OFFSET_SEC;
         params = \<lparr>orp_expected_oracle_set_epoch = sr_oracle_set_epoch (nd_state n),
           orp_expected_oracle_set_hash = sr_oracle_set_hash (nd_state n),
           orp_chain_time_sec = chain_time,
           orp_max_epoch_lag_sec = cc_max_epoch_lag_sec l1_anchor,
           orp_oracle_future_tolerance_sec = cc_oracle_future_tolerance l1_anchor,
           orp_signer_set = oracle_signer_set\<rparr>
     in map_err NodeError.Oracle (aggregate C oracle_messages params))"

definition build_claim ::
  "crypto \<Rightarrow> StateNode \<Rightarrow> b32 \<Rightarrow> b32 \<Rightarrow> b32 \<Rightarrow> ClaimClock \<Rightarrow> u64 \<Rightarrow> u64 \<Rightarrow> u32 \<Rightarrow> ReserveClaim" where
  "build_claim C n operator_id leaves_root live_da l1_anchor reserve_shard_id total_gross claim_expiry_height =
     (let claim = \<lparr>rc_claim_id = fill 0,
            rc_transition_type = transition_type_as_u8 RedeemFastFinalize,
            rc_operator_id = operator_id,
            rc_prev_state_root = node_state_root_hash C n,
            rc_new_state_root = fill 0,
            rc_redemption_batch_root = leaves_root,
            rc_oracle_batch_root = fill 0, rc_lock_batch_root = fill 0, rc_payout_batch_root = fill 0,
            rc_confirmation_batch_root = fill 0, rc_finalize_batch_root = fill 0,
            rc_burn_proof_batch_root = fill 0, rc_lineage_proof_batch_root = fill 0,
            rc_live_da_root = live_da,
            rc_archival_da_root = sr_archival_da_root (nd_state n),
            rc_l1_anchor = l1_anchor,
            rc_reserve_shard_id = reserve_shard_id,
            rc_reimbursement_sats = total_gross,
            rc_proof_commitment = fill 0,
            rc_claim_expiry_height = claim_expiry_height,
            rc_operator_signature = fill 0\<rparr>
      in claim\<lparr>rc_claim_id := derive_claim_id C claim\<rparr>)"

definition claim_new_state ::
  "crypto \<Rightarrow> StateNode \<Rightarrow> u64 \<Rightarrow> fill_state \<Rightarrow> b32 \<Rightarrow> b32 \<Rightarrow> PendingClaim \<Rightarrow> b32 list \<Rightarrow> (NodeError, StateRoot) res" where
  "claim_new_state C n price st live_da id' pending pending_proof =
     (let s = nd_state n;
          new_supply = sr_sat_usd_supply_atoms s - fl_total_amount st;
          reserve = sr_reserve_btc_sats s in
      rbind (collateral_ratio_ppm reserve new_supply price) (\<lambda>cr.
      rbind (recompute_tier reserve new_supply price) (\<lambda>tier.
      rbind (root_after_update C id' (pending_claim_hash C pending) pending_proof) (\<lambda>pending_root.
      Ok (s\<lparr>sr_state_epoch := sr_state_epoch s + 1,
        sr_prev_state_root := node_state_root_hash C n,
        sr_transition_type := transition_type_as_u8 RedeemFastFinalize,
        sr_sat_usd_supply_atoms := new_supply,
        sr_reserved_pending_claim_sats := sr_reserved_pending_claim_sats s + fl_total_gross st,
        sr_latest_oracle_price_e8 := price,
        sr_collateral_ratio_ppm := unwrap_or cr 0,
        sr_emergency_tier := emergency_tier_as_u8 tier,
        sr_lock_consumed_root := smt_root C (fl_consumed st),
        sr_redemption_nullifier_root := smt_root C (fl_nullifier st),
        sr_live_da_root := live_da,
        sr_pending_claim_root := pending_root\<rparr>)))))"

text \<open>Everything \<^verbatim>\<open>submit_claim\<close> computes before it touches the node, self-check included.\<close>

record prepared_claim =
  pr_witness :: ReserveClaimWitness
  pr_new :: StateRoot
  pr_pending :: PendingClaim
  pr_consumed :: SparseMerkleTree
  pr_nullifier :: SparseMerkleTree

definition prepare_claim ::
  "crypto \<Rightarrow> StateNode \<Rightarrow> BatchRedemption list \<Rightarrow> OracleMessage list \<Rightarrow> b32 list \<Rightarrow> ClaimClock \<Rightarrow> u64
     \<Rightarrow> u32 \<Rightarrow> u32 \<Rightarrow> (NodeError, prepared_claim) res" where
  "prepare_claim C n redemptions oracle_messages oracle_signer_set l1_anchor reserve_shard_id
       claim_expiry_height btc_tip_height =
     rbind (node_claim_price C n oracle_messages oracle_signer_set l1_anchor) (\<lambda>price.
     rbind (unwrap (get_at redemptions 0)) (\<lambda>first.
     let operator_id = unwrap_or (ri_operator_id (br_redeem_intent first)) (fill 0) in
     rbind (rfold (fill_step C n price) redemptions (fill_start n)) (\<lambda>st.
     let live_da = live_da_root_for_claim C (fl_redemptions st) oracle_messages in
     rbind (batch_root_be C (fl_leaves st)) (\<lambda>leaves_root.
     let claim = build_claim C n operator_id leaves_root live_da l1_anchor reserve_shard_id
           (fl_total_gross st) claim_expiry_height;
         id' = rc_claim_id claim;
         pending_proof = smt_prove C (nd_pending_claim_tree n) id';
         pending = \<lparr>cl_claim_id = id', cl_operator_id = operator_id,
           cl_reserved_sats = fl_total_gross st,
           cl_claim_created_height = cc_l1_anchor_height l1_anchor,
           cl_claim_expiry_height = claim_expiry_height, cl_status = ClaimPending\<rparr> in
     rbind (claim_new_state C n price st live_da id' pending pending_proof) (\<lambda>new.
     let claim = claim\<lparr>rc_new_state_root := state_root_hash C new\<rparr>;
         witness = \<lparr>cw_claim = claim, cw_redemptions = fl_redemptions st,
           cw_oracle_messages = oracle_messages, cw_oracle_signer_set = oracle_signer_set,
           cw_pending_claim_exclusion_proof = pending_proof, cw_btc_tip_height = btc_tip_height\<rparr> in
     rbind (map_err NodeError.Claim (verify_reserve_claim_finalize C (nd_state n) new witness)) (\<lambda>_.
     Ok \<lparr>pr_witness = witness, pr_new = new, pr_pending = pending,
         pr_consumed = fl_consumed st, pr_nullifier = fl_nullifier st\<rparr>))))))"

definition submit_claim ::
  "crypto \<Rightarrow> StateNode \<Rightarrow> BatchRedemption list \<Rightarrow> OracleMessage list \<Rightarrow> b32 list \<Rightarrow> ClaimClock \<Rightarrow> u64
     \<Rightarrow> u32 \<Rightarrow> u32 \<Rightarrow> node_result" where
  "submit_claim C n redemptions oracle_messages oracle_signer_set l1_anchor reserve_shard_id
       claim_expiry_height btc_tip_height =
     node_then (prepare_claim C n redemptions oracle_messages oracle_signer_set l1_anchor
       reserve_shard_id claim_expiry_height btc_tip_height, n) (\<lambda>p n.
     let id' = cl_claim_id (pr_pending p);
         n = n\<lparr>nd_lock_consumed_tree := pr_consumed p, nd_nullifier_tree := pr_nullifier p,
               nd_pending_claim_tree := snd (smt_insert C (nd_pending_claim_tree n) id'
                 (pending_claim_hash C (pr_pending p))),
               nd_pending_claims := (nd_pending_claims n)(id' \<mapsto> pr_pending p)\<rparr> in
     node_then (commit C n (pr_new p)) (\<lambda>_ n.
     let n = n\<lparr>nd_reserve := snd (custody_submit (nd_reserve n) (cw_claim (pr_witness p)))\<rparr> in
     node_then (reserve_consistent n, n) (\<lambda>_ n. (Ok id', n))))"

section \<open>Closing a claim\<close>

definition reclaim_stale_claim :: "crypto \<Rightarrow> StateNode \<Rightarrow> b32 \<Rightarrow> u32 \<Rightarrow> node_result" where
  "reclaim_stale_claim C n claim_id current_height =
     node_then (ok_or (nd_pending_claims n claim_id) NodeError.UnknownClaim, n) (\<lambda>prev_claim n.
     let proof_path = smt_prove C (nd_pending_claim_tree n) claim_id in
     node_then (map_err Registry (apply_reclaim_stale_claim C (nd_state n) prev_claim proof_path
       current_height), n) (\<lambda>new_state n.
     let reclaimed = prev_claim\<lparr>cl_status := ClaimReclaimed\<rparr>;
         n = n\<lparr>nd_pending_claim_tree := snd (smt_insert C (nd_pending_claim_tree n) claim_id
                 (pending_claim_hash C reclaimed)),
               nd_pending_claims := (nd_pending_claims n)(claim_id \<mapsto> reclaimed)\<rparr> in
     node_then (commit C n new_state) (\<lambda>root n.
     let (r, reserve) = custody_reclaim (nd_reserve n) (ClaimHandle claim_id);
         n = n\<lparr>nd_reserve := reserve\<rparr> in
     node_then (map_err (\<lambda>_. InvariantViolation) r, n) (\<lambda>_ n.
     node_then (reserve_consistent n, n) (\<lambda>_ n. (Ok root, n))))))"

fun add_approvals :: "crypto \<Rightarrow> ClaimHandle \<Rightarrow> MultisigSig list \<Rightarrow> StateNode
    \<Rightarrow> (NodeError, unit) res \<times> StateNode" where
  "add_approvals C h [] n = (Ok (), n)"
| "add_approvals C h (a # approvals) n =
     (let (r, reserve) = custody_add_approval C (nd_reserve n) h
            \<lparr>ap_signer_pubkey = ms_signer_pubkey a, ap_signature = ms_signature a\<rparr>
      in node_then (map_err ReserveRefused r, n\<lparr>nd_reserve := reserve\<rparr>)
           (\<lambda>_ n. add_approvals C h approvals n))"

definition finalize_claim ::
  "crypto \<Rightarrow> StateNode \<Rightarrow> b32 \<Rightarrow> ReserveCommittee \<Rightarrow> MultisigSig list \<Rightarrow> u32 \<Rightarrow> node_result" where
  "finalize_claim C n claim_id committee approvals current_height =
     node_then (ok_or (nd_pending_claims n claim_id) NodeError.UnknownClaim, n) (\<lambda>prev_claim n.
     let proof_path = smt_prove C (nd_pending_claim_tree n) claim_id in
     node_then (map_err Registry (apply_finalize_claim C (nd_state n) prev_claim proof_path
       committee approvals current_height), n) (\<lambda>new_state n.
     let h = ClaimHandle claim_id in
     node_then (add_approvals C h approvals n) (\<lambda>_ n.
     let (r, reserve) = custody_finalize C (nd_reserve n) h;
         n = n\<lparr>nd_reserve := reserve\<rparr> in
     node_then (map_err ReserveRefused r, n) (\<lambda>_ n.
     let finalized = prev_claim\<lparr>cl_status := ClaimFinalized\<rparr>;
         n = n\<lparr>nd_pending_claim_tree := snd (smt_insert C (nd_pending_claim_tree n) claim_id
                 (pending_claim_hash C finalized)),
               nd_pending_claims := (nd_pending_claims n)(claim_id \<mapsto> finalized)\<rparr> in
     node_then (commit C n new_state) (\<lambda>root n.
     node_then (reserve_consistent n, n) (\<lambda>_ n. (Ok root, n)))))))"

section \<open>The custody contract\<close>

fun custody_held :: "custody \<Rightarrow> b32 \<rightharpoonup> u64" where
  "custody_held (MockCustody r) = mock_held r"
| "custody_held (MultisigCustody r) = multisig_held r"

interpretation custody: reserve_backend custody_view custody_held custody_submit "custody_finalize C"
  custody_reclaim custody_credit
proof unfold_locales
  show "\<exists>r'. custody_submit r c = (ClaimHandle (rc_claim_id c), r') \<and>
      custody_held r' = (custody_held r)(rc_claim_id c \<mapsto> rc_reimbursement_sats c) \<and>
      custody_view r' = \<lparr>rv_total_sats = rv_total_sats (custody_view r),
        rv_reserved_sats = rv_reserved_sats (custody_view r) + rc_reimbursement_sats c\<rparr>" for r c
  proof (cases r)
    case (MockCustody x)
    then show ?thesis using mock.submit_law [of x c] by auto
  next
    case (MultisigCustody x)
    then show ?thesis using multisig.submit_law [of x c] by auto
  qed
next
  fix r h sp r' assume "custody_finalize C r h = (Ok sp, r')"
  then show "custody_held r (handle_id h) = Some (sp_amount_sats sp) \<and> sp_claim_id sp = handle_id h \<and>
      sp_amount_sats sp \<le> rv_total_sats (custody_view r) \<and>
      custody_held r' = (custody_held r)(handle_id h := None) \<and>
      custody_view r' = \<lparr>rv_total_sats = rv_total_sats (custody_view r) - sp_amount_sats sp,
        rv_reserved_sats = rv_reserved_sats (custody_view r) - sp_amount_sats sp\<rparr>"
    by (cases r) (auto simp: map_prod_def split: prod.splits dest!: mock.finalize_law multisig.finalize_law)
next
  fix r h n r' assume "custody_reclaim r h = (Ok n, r')"
  then show "custody_held r (handle_id h) = Some n \<and>
      custody_held r' = (custody_held r)(handle_id h := None) \<and>
      custody_view r' = \<lparr>rv_total_sats = rv_total_sats (custody_view r),
        rv_reserved_sats = rv_reserved_sats (custody_view r) - n\<rparr>"
    by (cases r) (auto simp: map_prod_def split: prod.splits dest!: mock.reclaim_law multisig.reclaim_law)
next
  show "custody_finalize C r h = (Err e, r') \<Longrightarrow> r' = r" for r h e r'
    by (cases r) (auto simp: map_prod_def split: prod.splits dest: mock.finalize_refused multisig.finalize_refused)
next
  show "custody_reclaim r h = (Err e, r') \<Longrightarrow> r' = r" for r h e r'
    by (cases r) (auto simp: map_prod_def split: prod.splits dest: mock.reclaim_refused multisig.reclaim_refused)
next
  show "custody_finalize C r h \<noteq> (Panic, r')" for r h r'
    by (cases r) (auto simp: map_prod_def split: prod.splits
        dest: mock.finalize_total [THEN notE] multisig.finalize_total [THEN notE])
next
  show "custody_reclaim r h \<noteq> (Panic, r')" for r h r'
    by (cases r) (auto simp: map_prod_def split: prod.splits
        dest: mock.reclaim_total [THEN notE] multisig.reclaim_total [THEN notE])
next
  show "custody_held (custody_credit r n) = custody_held r \<and>
      custody_view (custody_credit r n) = \<lparr>rv_total_sats = rv_total_sats (custody_view r) + n,
        rv_reserved_sats = rv_reserved_sats (custody_view r)\<rparr>" for r n
    by (cases r) (simp_all add: mock.credit_law multisig.credit_law)
qed

lemma custody_reclaim_open:
  "custody_held r (handle_id h) = Some a \<Longrightarrow> \<exists>r'. custody_reclaim r h = (Ok a, r')"
  by (cases r) (auto simp: mock_held_def multisig_held_def mock_reclaim_stale_def multisig_reclaim_stale_def
      Let_def split: option.splits if_splits)

lemma custody_hooks_keep [simp]:
  "custody_view (custody_pause r x) = custody_view r" "custody_held (custody_pause r x) = custody_held r"
  "custody_view (custody_resume r) = custody_view r" "custody_held (custody_resume r) = custody_held r"
  "custody_view (custody_rotate r c) = custody_view r" "custody_held (custody_rotate r c) = custody_held r"
  "custody_view (snd (custody_veto r h)) = custody_view r"
  "custody_held (snd (custody_veto r h)) = custody_held r"
  "custody_view (snd (custody_add_approval C r h a)) = custody_view r"
  "custody_held (snd (custody_add_approval C r h a)) = custody_held r"
  by (cases r; simp add: multisig_hooks_keep_custody mock_emergency_pause_def)+

section \<open>The node invariant\<close>

text \<open>Each root of a state is the root of the node's tree for it.\<close>

definition roots_match :: "crypto \<Rightarrow> StateNode \<Rightarrow> StateRoot \<Rightarrow> bool" where
  "roots_match C n s \<longleftrightarrow>
     smt_root C (nd_issuer_tree n) = sr_issuer_positions_root s \<and>
     smt_root C (nd_operator_tree n) = sr_operator_registry_root s \<and>
     smt_root C (nd_pending_claim_tree n) = sr_pending_claim_root s \<and>
     smt_root C (nd_lock_record_tree n) = sr_lock_record_root s \<and>
     smt_root C (nd_lock_consumed_tree n) = sr_lock_consumed_root s \<and>
     smt_root C (nd_lock_refund_tree n) = sr_lock_refund_root s \<and>
     smt_root C (nd_nullifier_tree n) = sr_redemption_nullifier_root s"

definition trees_inv :: "crypto \<Rightarrow> StateNode \<Rightarrow> bool" where
  "trees_inv C n \<longleftrightarrow> smt_inv C (nd_issuer_tree n) \<and> smt_inv C (nd_operator_tree n) \<and>
     smt_inv C (nd_pending_claim_tree n) \<and> smt_inv C (nd_lock_record_tree n) \<and>
     smt_inv C (nd_lock_consumed_tree n) \<and> smt_inv C (nd_lock_refund_tree n) \<and>
     smt_inv C (nd_nullifier_tree n)"

definition keys_inv :: "StateNode \<Rightarrow> bool" where
  "keys_inv n \<longleftrightarrow> (\<forall>k i. nd_issuers n k = Some i \<longrightarrow> ip_issuer_id i = k) \<and>
     (\<forall>k c. nd_pending_claims n k = Some c \<longrightarrow>
        cl_claim_id c = k \<and> cl_status c \<in> {ClaimPending, ClaimFinalized, ClaimReclaimed})"

definition custody_inv :: "StateNode \<Rightarrow> bool" where
  "custody_inv n \<longleftrightarrow>
     custody_view (nd_reserve n) = \<lparr>rv_total_sats = sr_reserve_btc_sats (nd_state n),
       rv_reserved_sats = sr_reserved_pending_claim_sats (nd_state n)\<rparr> \<and>
     (\<forall>k c. nd_pending_claims n k = Some c \<longrightarrow> cl_status c = ClaimPending \<longrightarrow>
        custody_held (nd_reserve n) k = Some (cl_reserved_sats c))"

definition node_inv :: "crypto \<Rightarrow> StateNode \<Rightarrow> bool" where
  "node_inv C n \<longleftrightarrow> trees_inv C n \<and> roots_match C n (nd_state n) \<and> keys_inv n \<and> custody_inv n"

text \<open>What an operation moves: sats in and out of custody, atoms into and out of the supply.\<close>

record ledger =
  lg_deposited :: nat
  lg_paid :: nat
  lg_minted :: nat
  lg_burned :: nat

definition no_flow :: ledger where
  "no_flow = \<lparr>lg_deposited = 0, lg_paid = 0, lg_minted = 0, lg_burned = 0\<rparr>"

definition moved :: "StateNode \<Rightarrow> ledger \<Rightarrow> StateNode \<Rightarrow> bool" where
  "moved n d n' \<longleftrightarrow>
     unat (sr_reserve_btc_sats (nd_state n')) + lg_paid d
       = unat (sr_reserve_btc_sats (nd_state n)) + lg_deposited d \<and>
     unat (sr_sat_usd_supply_atoms (nd_state n')) + lg_burned d
       = unat (sr_sat_usd_supply_atoms (nd_state n)) + lg_minted d"

definition untouched :: "StateNode \<Rightarrow> StateNode \<Rightarrow> bool" where
  "untouched n n' \<longleftrightarrow> n' = n\<lparr>nd_reserve := nd_reserve n'\<rparr>"

text \<open>
  An operation from \<open>n\<close> is safe when it leaves the invariant; when, accepted, it moves what it is
  to move; and when, refused, it did not find the invariant broken and left all but the
  approvals in custody as it was.
\<close>

definition safe :: "crypto \<Rightarrow> StateNode \<Rightarrow> ledger \<Rightarrow> (NodeError, 'a) res \<times> StateNode \<Rightarrow> bool" where
  "safe C n d m \<longleftrightarrow> node_inv C (snd m) \<and>
     (case fst m of
        Ok _ \<Rightarrow> moved n d (snd m)
      | Err e \<Rightarrow> e \<noteq> InvariantViolation \<and> untouched n (snd m)
      | Panic \<Rightarrow> untouched n (snd m))"

lemmas inv_defs = node_inv_def trees_inv_def roots_match_def keys_inv_def custody_inv_def

lemma commit_eq:
  "commit C n s = (if roots_match C n s then (Ok (state_root_hash C s), n\<lparr>nd_state := s\<rparr>)
                   else (Err InvariantViolation, n))"
  by (simp add: commit_def roots_match_def Let_def node_state_root_hash_def)

lemma root_insert:
  "smt_inv C t \<Longrightarrow> fold_to_root C k (leaf_hash C k v) (smt_prove C t k) = smt_root C (snd (smt_insert C t k v))"
  using smt_update [of C t k v, where 'a = unit] by (simp add: root_after_update_Ok)

lemma reserve_consistent_Ok:
  "custody_view (nd_reserve n) = \<lparr>rv_total_sats = sr_reserve_btc_sats (nd_state n),
     rv_reserved_sats = sr_reserved_pending_claim_sats (nd_state n)\<rparr> \<Longrightarrow> reserve_consistent n = Ok ()"
  by (simp add: reserve_consistent_def)

lemma genesis_inv: "node_inv C (genesis_node C family oracle_hash epoch price)"
  by (simp add: inv_defs genesis_node_def genesis_state_def Let_def mock_new_def mock_reserve_view_def)

section \<open>Every operation is safe\<close>

lemma untouched_refl [simp]: "untouched n n"
  by (simp add: untouched_def)

lemma untouched_state: "untouched n n' \<Longrightarrow> nd_state n' = nd_state n"
  unfolding untouched_def by (drule arg_cong [where f = nd_state]) simp

text \<open>The first step of an operation, which does not touch the node.\<close>

lemma safe_then:
  assumes "node_inv C n" and "m \<noteq> Err InvariantViolation" and "\<And>x. m = Ok x \<Longrightarrow> safe C n d (f x n)"
  shows "safe C n d (node_then (m, n) f)"
  using assms by (cases m) (auto simp: safe_def)

lemma map_err_not_violation [simp]:
  "map_err Mint m \<noteq> Err InvariantViolation" "map_err Registry m' \<noteq> Err InvariantViolation"
  "map_err Redeem m'' \<noteq> Err InvariantViolation" "map_err ReserveRefused q \<noteq> Err InvariantViolation"
  "map_err NodeError.Oracle q' \<noteq> Err InvariantViolation" "map_err NodeError.Claim q'' \<noteq> Err InvariantViolation"
  "ok_or v UnknownIssuer \<noteq> Err InvariantViolation" "ok_or v' NodeError.UnknownClaim \<noteq> Err InvariantViolation"
  by (simp_all add: res_simps)

lemma safe_commit:
  assumes "trees_inv C n'" and "roots_match C n' s" and "keys_inv n'"
    and "custody_inv (n'\<lparr>nd_state := s\<rparr>)" and "moved n d (n'\<lparr>nd_state := s\<rparr>)"
  shows "safe C n d (commit C n' s)"
  using assms by (simp add: commit_eq safe_def inv_defs)

lemma issuer_register_safe:
  assumes "node_inv C n"
  shows "safe C n no_flow (issuer_register C n i)"
  unfolding issuer_register_def Let_def
proof (rule safe_then [OF assms])
  let ?d = "no_flow"
  fix s' assume "map_err Registry (apply_issuer_register C (nd_state n) i
      (smt_prove C (nd_issuer_tree n) (ip_issuer_id i))) = Ok s'"
  then have s': "s' = (registry_next_state C (nd_state n) IssuerRegister)\<lparr>sr_issuer_positions_root :=
      smt_root C (snd (smt_insert C (nd_issuer_tree n) (ip_issuer_id i) (issuer_position_hash C i)))\<rparr>"
    using assms by (simp add: res_simps apply_issuer_register_Ok root_insert inv_defs)
  show "safe C n ?d (commit C (n\<lparr>nd_issuer_tree := snd (smt_insert C (nd_issuer_tree n) (ip_issuer_id i)
      (issuer_position_hash C i)), nd_issuers := (nd_issuers n)(ip_issuer_id i \<mapsto> i)\<rparr>) s')"
    using assms by (intro safe_commit) (auto simp: s' inv_defs registry_next_state_def moved_def no_flow_def)
qed simp

lemma operator_register_safe:
  assumes "node_inv C n"
  shows "safe C n no_flow (operator_register C n o')"
  unfolding operator_register_def Let_def
proof (rule safe_then [OF assms])
  let ?d = "no_flow"
  fix s' assume "map_err Registry (apply_operator_register C (nd_state n) o'
      (smt_prove C (nd_operator_tree n) (opn_operator_id o'))) = Ok s'"
  then have s': "s' = (registry_next_state C (nd_state n) OperatorRegister)\<lparr>sr_operator_registry_root :=
      smt_root C (snd (smt_insert C (nd_operator_tree n) (opn_operator_id o') (operator_position_hash C o')))\<rparr>"
    using assms by (simp add: res_simps apply_operator_register_Ok root_insert inv_defs)
  show "safe C n ?d (commit C (n\<lparr>nd_operator_tree := snd (smt_insert C (nd_operator_tree n) (opn_operator_id o')
      (operator_position_hash C o')), nd_operators := (nd_operators n)(opn_operator_id o' \<mapsto> o')\<rparr>) s')"
    using assms by (intro safe_commit) (auto simp: s' inv_defs registry_next_state_def moved_def no_flow_def)
qed simp

lemma word_eq_addI:
  "unat r = unat a + unat b \<Longrightarrow> r = a + b \<and> unat (a + b) = unat a + unat b" for r a b :: "'a::len word"
  by (metis unat_add_lem unsigned_less word_unat_eq_iff)

text \<open>The operations that touch custody after the commit.\<close>

lemma safe_commit_then:
  assumes "roots_match C n' s" and "safe C n d (f (state_root_hash C s) (n'\<lparr>nd_state := s\<rparr>))"
  shows "safe C n d (node_then (commit C n' s) f)"
  using assms by (simp add: commit_eq)

lemma safe_consistent:
  assumes "node_inv C n'" and "moved n d n'"
  shows "safe C n d (node_then (reserve_consistent n', n') (\<lambda>_ n. (Ok x, n)))"
  using assms by (simp add: reserve_consistent_Ok safe_def inv_defs)

lemma mint_issuer:
  "node_inv C n \<Longrightarrow> nd_issuers n k = Some i \<Longrightarrow> ip_issuer_id i = k"
  by (simp add: inv_defs)

lemma apply_mint_commit_issuer:
  "apply_mint_commit C s i p w = Ok s' \<Longrightarrow> ip_issuer_id i = mc_issuer_id w"
  by (simp add: apply_mint_commit_Ok commit_guards_def)

lemma apply_mint_finalize_issuer:
  "apply_mint_finalize C s i p w = Ok s' \<Longrightarrow> ip_issuer_id i = mf_issuer_id w"
  by (simp add: apply_mint_finalize_Ok)

lemma issuer_after_ids:
  "issuer_after_commit C i w = Ok i' \<Longrightarrow> ip_issuer_id i' = ip_issuer_id i"
  "issuer_after_finalize i m = Ok i' \<Longrightarrow> ip_issuer_id i' = ip_issuer_id i"
  by (auto simp: issuer_after_commit_Ok issuer_after_finalize_Ok)

lemma mint_finalize_safe:
  assumes "node_inv C n"
  shows "safe C n (no_flow\<lparr>lg_minted := unat (mf_requested_mint_atoms w)\<rparr>) (mint_finalize C n k w)"
  unfolding mint_finalize_def Let_def
proof (intro safe_then [OF assms])
  let ?d = "(no_flow\<lparr>lg_minted := unat (mf_requested_mint_atoms w)\<rparr>)"
  fix i s' i'
  assume i: "ok_or (nd_issuers n k) UnknownIssuer = Ok i"
    and s: "map_err Mint (apply_mint_finalize C (nd_state n) i (smt_prove C (nd_issuer_tree n) k) w) = Ok s'"
    and i': "map_err Mint (issuer_after_finalize i (mf_requested_mint_atoms w)) = Ok i'"
  have k: "ip_issuer_id i = k" using mint_issuer [OF assms] i by (simp add: res_simps)
  have kw: "mf_issuer_id w = k" using apply_mint_finalize_issuer s k by (simp add: res_simps)
  obtain q cr where q: "unat q = unat (sr_sat_usd_supply_atoms (nd_state n)) + unat (mf_requested_mint_atoms w)"
    and s': "s' = (nd_state n)\<lparr>sr_state_epoch := sr_state_epoch (nd_state n) + 1,
       sr_prev_state_root := state_root_hash C (nd_state n), sr_transition_type := 2,
       sr_sat_usd_supply_atoms := q, sr_collateral_ratio_ppm := cr,
       sr_emergency_tier := emergency_tier_as_u8 Healthy,
       sr_latest_oracle_price_e8 := mf_oracle_price_e8 w,
       sr_issuer_positions_root :=
         smt_root C (snd (smt_insert C (nd_issuer_tree n) k (issuer_position_hash C i')))\<rparr>"
  proof -
    have a: "apply_mint_finalize C (nd_state n) i (smt_prove C (nd_issuer_tree n) k) w = Ok s'"
      and i'': "issuer_after_finalize i (mf_requested_mint_atoms w) = Ok i'"
      using s i' by (simp_all add: res_simps)
    have t: "smt_inv C (nd_issuer_tree n)" using assms by (simp add: inv_defs)
    show ?thesis
      using apply_mint_finalize_post [OF a] that by (auto simp: kw i'' root_insert [OF t])
  qed
  show "safe C n ?d (commit C (n\<lparr>nd_issuer_tree := snd (smt_insert C (nd_issuer_tree n) k
      (issuer_position_hash C i')), nd_issuers := (nd_issuers n)(k \<mapsto> i')\<rparr>) s')"
    using assms issuer_after_ids(2) i' k
    by (intro safe_commit) (auto simp: s' inv_defs res_simps moved_def no_flow_def q)
qed simp_all

lemma mint_commit_safe:
  assumes "node_inv C n"
  shows "safe C n (no_flow\<lparr>lg_deposited := unat (mc_deposit_sats w)\<rparr>) (mint_commit C n k w)"
  unfolding mint_commit_def Let_def
proof (intro safe_then [OF assms])
  let ?d = "(no_flow\<lparr>lg_deposited := unat (mc_deposit_sats w)\<rparr>)"
  fix i s' i'
  assume i: "ok_or (nd_issuers n k) UnknownIssuer = Ok i"
    and s: "map_err Mint (apply_mint_commit C (nd_state n) i (smt_prove C (nd_issuer_tree n) k) w) = Ok s'"
    and i': "map_err Mint (issuer_after_commit C i w) = Ok i'"
  have k: "ip_issuer_id i = k" using mint_issuer [OF assms] i by (simp add: res_simps)
  have kw: "mc_issuer_id w = k" using apply_mint_commit_issuer s k by (simp add: res_simps)
  obtain cr tier where q: "unat (sr_reserve_btc_sats (nd_state n) + mc_deposit_sats w)
      = unat (sr_reserve_btc_sats (nd_state n)) + unat (mc_deposit_sats w)"
    and s': "s' = (nd_state n)\<lparr>sr_state_epoch := sr_state_epoch (nd_state n) + 1,
       sr_prev_state_root := state_root_hash C (nd_state n), sr_transition_type := 1,
       sr_reserve_btc_sats := sr_reserve_btc_sats (nd_state n) + mc_deposit_sats w,
       sr_collateral_ratio_ppm := cr, sr_emergency_tier := tier,
       sr_latest_oracle_price_e8 := mc_oracle_price_e8 w,
       sr_issuer_positions_root :=
         smt_root C (snd (smt_insert C (nd_issuer_tree n) k (issuer_position_hash C i')))\<rparr>"
  proof -
    have a: "apply_mint_commit C (nd_state n) i (smt_prove C (nd_issuer_tree n) k) w = Ok s'"
      and i'': "issuer_after_commit C i w = Ok i'"
      using s i' by (simp_all add: res_simps)
    have t: "smt_inv C (nd_issuer_tree n)" using assms by (simp add: inv_defs)
    from apply_mint_commit_post [OF a] obtain r cr tier where
      r: "unat r = unat (sr_reserve_btc_sats (nd_state n)) + unat (mc_deposit_sats w)" and
      e: "s' = (nd_state n)\<lparr>sr_state_epoch := sr_state_epoch (nd_state n) + 1,
       sr_prev_state_root := state_root_hash C (nd_state n), sr_transition_type := 1,
       sr_reserve_btc_sats := r,
       sr_collateral_ratio_ppm := unwrap_or cr 0, sr_emergency_tier := emergency_tier_as_u8 tier,
       sr_latest_oracle_price_e8 := mc_oracle_price_e8 w,
       sr_issuer_positions_root :=
         fold_to_root C k (leaf_hash C k (issuer_position_hash C i')) (smt_prove C (nd_issuer_tree n) k)\<rparr>"
      by (auto simp: kw i'')
    show ?thesis
      using that [of "emergency_tier_as_u8 tier" "unwrap_or cr 0"] word_eq_addI [OF r] e
      by (simp add: root_insert [OF t])
  qed
  let ?n = "n\<lparr>nd_issuer_tree := snd (smt_insert C (nd_issuer_tree n) k (issuer_position_hash C i')),
    nd_issuers := (nd_issuers n)(k \<mapsto> i')\<rparr>"
  show "safe C n ?d (node_then (commit C ?n s') (\<lambda>root n. node_then
      (reserve_consistent (n\<lparr>nd_reserve := custody_credit (nd_reserve n) (mc_deposit_sats w)\<rparr>),
       n\<lparr>nd_reserve := custody_credit (nd_reserve n) (mc_deposit_sats w)\<rparr>) (\<lambda>_ n. (Ok root, n))))"
  proof (rule safe_commit_then)
    show "roots_match C ?n s'" using assms by (simp add: s' inv_defs)
    show "safe C n ?d (node_then (reserve_consistent (?n\<lparr>nd_state := s', nd_reserve :=
        custody_credit (nd_reserve (?n\<lparr>nd_state := s'\<rparr>)) (mc_deposit_sats w)\<rparr>),
       ?n\<lparr>nd_state := s', nd_reserve := custody_credit (nd_reserve (?n\<lparr>nd_state := s'\<rparr>)) (mc_deposit_sats w)\<rparr>)
         (\<lambda>_ n. (Ok (state_root_hash C s'), n)))"
      using assms issuer_after_ids(1) i' k
      by (intro safe_consistent) (auto simp: s' inv_defs res_simps custody.credit_law moved_def no_flow_def q)
  qed
qed simp_all

lemma redeem_lock_safe:
  assumes "node_inv C n"
  shows "safe C n no_flow (redeem_lock C n w)"
  unfolding redeem_lock_def Let_def
proof (rule safe_then [OF assms])
  let ?d = "no_flow"
  let ?k = "lock_record_hash C (rl_lock_record w)"
  let ?t = "snd (smt_insert C (nd_lock_record_tree n) ?k SET_MEMBER)"
  fix s' assume "map_err Redeem (apply_redeem_lock C (nd_state n)
    (w\<lparr>rl_lock_exclusion_proof := smt_prove C (nd_lock_record_tree n) ?k\<rparr>)) = Ok s'"
  then have s': "s' = (redeem_next_state C (nd_state n) RedeemFastLock)\<lparr>sr_lock_record_root := smt_root C ?t\<rparr>"
    using assms by (simp add: res_simps apply_redeem_lock_Ok root_insert inv_defs Let_def)
  show "safe C n ?d (commit C (n\<lparr>nd_lock_record_tree := ?t\<rparr>) s')"
    using assms by (intro safe_commit) (auto simp: s' inv_defs redeem_next_state_def moved_def no_flow_def)
qed simp

lemma lock_refund_safe:
  assumes "node_inv C n"
  shows "safe C n no_flow (lock_refund C n w)"
  unfolding lock_refund_def Let_def
proof (rule safe_then [OF assms])
  let ?d = "no_flow"
  let ?k = "lock_record_hash C (rf_lock_record w)"
  let ?t = "snd (smt_insert C (nd_lock_refund_tree n) ?k SET_MEMBER)"
  fix s' assume "map_err Redeem (apply_lock_refund C (nd_state n)
    (w\<lparr>rf_lock_membership_proof := smt_prove C (nd_lock_record_tree n) ?k,
       rf_consumed_exclusion_proof := smt_prove C (nd_lock_consumed_tree n) ?k,
       rf_refund_exclusion_proof := smt_prove C (nd_lock_refund_tree n) ?k\<rparr>)) = Ok s'"
  then have s': "s' = (redeem_next_state C (nd_state n) LockRefund)\<lparr>sr_lock_refund_root := smt_root C ?t\<rparr>"
    using assms by (simp add: res_simps apply_lock_refund_Ok root_insert inv_defs Let_def)
  show "safe C n ?d (commit C (n\<lparr>nd_lock_refund_tree := ?t\<rparr>) s')"
    using assms by (intro safe_commit) (auto simp: s' inv_defs redeem_next_state_def moved_def no_flow_def)
qed simp

lemma fill_loop_amounts:
  "rfold (fill_step C n price) rs st = Ok st' \<Longrightarrow>
     map amount_atoms (fl_redemptions st') = map amount_atoms (fl_redemptions st) @ map amount_atoms rs"
  by (induction rs arbitrary: st)
    (auto simp: res_simps fill_step_def Let_def fill_proofs_def amount_atoms_def)

lemma fill_loop_trees:
  "rfold (fill_step C n price) rs st = Ok st' \<Longrightarrow> smt_inv C (fl_consumed st) \<Longrightarrow>
     smt_inv C (fl_nullifier st) \<Longrightarrow> smt_inv C (fl_consumed st') \<and> smt_inv C (fl_nullifier st')"
  by (induction rs arbitrary: st) (auto simp: res_simps fill_step_def Let_def)

text \<open>What a prepared claim brings, whatever its self-check has found.\<close>

lemma prepare_claim_Ok:
  assumes "prepare_claim C n rs ms ks anchor shard expiry tip = Ok p" and "node_inv C n"
  shows "smt_inv C (pr_consumed p)" and "smt_inv C (pr_nullifier p)"
    and "cl_status (pr_pending p) = ClaimPending"
    and "rc_claim_id (cw_claim (pr_witness p)) = cl_claim_id (pr_pending p)"
    and "rc_reimbursement_sats (cw_claim (pr_witness p)) = cl_reserved_sats (pr_pending p)"
    and "\<exists>s. pr_new p = s \<and> sr_reserve_btc_sats s = sr_reserve_btc_sats (nd_state n) \<and>
       sr_reserved_pending_claim_sats s = sr_reserved_pending_claim_sats (nd_state n) + cl_reserved_sats (pr_pending p) \<and>
       sr_issuer_positions_root s = sr_issuer_positions_root (nd_state n) \<and>
       sr_operator_registry_root s = sr_operator_registry_root (nd_state n) \<and>
       sr_lock_record_root s = sr_lock_record_root (nd_state n) \<and>
       sr_lock_refund_root s = sr_lock_refund_root (nd_state n) \<and>
       sr_lock_consumed_root s = smt_root C (pr_consumed p) \<and>
       sr_redemption_nullifier_root s = smt_root C (pr_nullifier p) \<and>
       sr_pending_claim_root s = smt_root C (snd (smt_insert C (nd_pending_claim_tree n)
         (cl_claim_id (pr_pending p)) (pending_claim_hash C (pr_pending p))))"
    and "verify_reserve_claim_finalize C (nd_state n) (pr_new p) (pr_witness p) = Ok ()"
  using assms(1) assms(2)
  by (auto simp: prepare_claim_def claim_new_state_def build_claim_def Let_def res_simps root_after_update_Ok
      root_insert inv_defs fill_start_def dest!: fill_loop_trees)

lemma prepare_claim_amounts:
  assumes "prepare_claim C n rs ms ks anchor shard expiry tip = Ok p"
  shows "map amount_atoms (cw_redemptions (pr_witness p)) = map amount_atoms rs"
  using assms by (auto simp: prepare_claim_def Let_def res_simps fill_start_def dest!: fill_loop_amounts)

lemma prepare_claim_not_violation: "prepare_claim C n rs ms ks anchor shard expiry tip \<noteq> Err InvariantViolation"
proof -
  have f: "rfold (fill_step C n price) qs st \<noteq> Err e" for price qs st e
    by (induction qs arbitrary: st) (auto simp: res_simps fill_step_def Let_def)
  have b: "batch_root_be C ls \<noteq> Err e" for ls and e :: NodeError
    by (rule batch_root_be_not_Err)
  have t: "collateral_ratio_ppm r s q \<noteq> Err e" "recompute_tier r s q \<noteq> Err e" for r s q and e :: NodeError
    by (simp_all add: recompute_tier_not_Err collateral_ratio_ppm_not_Err)
  show ?thesis
    by (auto simp: prepare_claim_def node_claim_price_def claim_new_state_def Let_def res_simps f b t
        root_after_update_def)
qed

lemma submit_claim_safe:
  assumes "node_inv C n"
  shows "safe C n (no_flow\<lparr>lg_burned := sum_list (map amount_atoms rs)\<rparr>) (submit_claim C n rs ms ks anchor shard expiry tip)"
  unfolding submit_claim_def Let_def
proof (rule safe_then [OF assms prepare_claim_not_violation])
  let ?d = "(no_flow\<lparr>lg_burned := sum_list (map amount_atoms rs)\<rparr>)"
  fix p assume p: "prepare_claim C n rs ms ks anchor shard expiry tip = Ok p"
  note q = prepare_claim_Ok [OF p assms]
  let ?id = "cl_claim_id (pr_pending p)"
  let ?t = "snd (smt_insert C (nd_pending_claim_tree n) ?id (pending_claim_hash C (pr_pending p)))"
  let ?n = "n\<lparr>nd_lock_consumed_tree := pr_consumed p, nd_nullifier_tree := pr_nullifier p,
    nd_pending_claim_tree := ?t, nd_pending_claims := (nd_pending_claims n)(?id \<mapsto> pr_pending p)\<rparr>"
  let ?c = "cw_claim (pr_witness p)"
  obtain r' where r': "custody_submit (nd_reserve n) ?c = (ClaimHandle (rc_claim_id ?c), r')"
      "custody_held r' = (custody_held (nd_reserve n))(rc_claim_id ?c \<mapsto> rc_reimbursement_sats ?c)"
      "custody_view r' = \<lparr>rv_total_sats = rv_total_sats (custody_view (nd_reserve n)),
        rv_reserved_sats = rv_reserved_sats (custody_view (nd_reserve n)) + rc_reimbursement_sats ?c\<rparr>"
    using custody.submit_law by blast
  show "safe C n ?d (node_then (commit C ?n (pr_new p)) (\<lambda>_ n.
      node_then (reserve_consistent (n\<lparr>nd_reserve := snd (custody_submit (nd_reserve n) ?c)\<rparr>),
        n\<lparr>nd_reserve := snd (custody_submit (nd_reserve n) ?c)\<rparr>) (\<lambda>_ n. (Ok ?id, n))))"
  proof (rule safe_commit_then)
    have "unat (sr_sat_usd_supply_atoms (pr_new p)) + sum_list (map amount_atoms rs)
        = unat (sr_sat_usd_supply_atoms (nd_state n))"
      and "sr_reserve_btc_sats (pr_new p) = sr_reserve_btc_sats (nd_state n)"
      using claim_effect [OF q(7)] by (auto simp: prepare_claim_amounts [OF p])
    then have moves: "moved n ?d (?n\<lparr>nd_state := pr_new p, nd_reserve := r\<rparr>)" for r
      by (simp add: moved_def no_flow_def)
    show "roots_match C ?n (pr_new p)" using assms q by (auto simp: inv_defs)
    show "safe C n ?d (node_then (reserve_consistent (?n\<lparr>nd_state := pr_new p, nd_reserve :=
          snd (custody_submit (nd_reserve (?n\<lparr>nd_state := pr_new p\<rparr>)) ?c)\<rparr>),
        ?n\<lparr>nd_state := pr_new p, nd_reserve := snd (custody_submit (nd_reserve (?n\<lparr>nd_state := pr_new p\<rparr>)) ?c)\<rparr>)
          (\<lambda>_ n. (Ok ?id, n)))"
      using assms q by (intro safe_consistent moves) (auto simp: inv_defs r')
  qed
qed

lemma pending_inv:
  assumes "node_inv C n" and "nd_pending_claims n k = Some c"
  shows "cl_claim_id c = k" and "cl_status c \<noteq> ClaimChallenged"
    and "cl_status c = ClaimPending \<Longrightarrow> custody_held (nd_reserve n) k = Some (cl_reserved_sats c)"
proof -
  have "cl_claim_id c = k \<and> cl_status c \<in> {ClaimPending, ClaimFinalized, ClaimReclaimed}"
    using assms unfolding node_inv_def keys_inv_def by blast
  then show "cl_claim_id c = k" and "cl_status c \<noteq> ClaimChallenged" by auto
  show "cl_status c = ClaimPending \<Longrightarrow> custody_held (nd_reserve n) k = Some (cl_reserved_sats c)"
    using assms unfolding node_inv_def custody_inv_def by blast
qed

lemma reclaim_stale_claim_safe:
  assumes "node_inv C n"
  shows "safe C n no_flow (reclaim_stale_claim C n k h)"
  unfolding reclaim_stale_claim_def Let_def
proof (intro safe_then [OF assms])
  let ?d = "no_flow"
  fix c s'
  assume c: "ok_or (nd_pending_claims n k) NodeError.UnknownClaim = Ok c"
    and s: "map_err Registry (apply_reclaim_stale_claim C (nd_state n) c
      (smt_prove C (nd_pending_claim_tree n) k) h) = Ok s'"
  have c': "nd_pending_claims n k = Some c" using c by (simp add: res_simps)
  note ci = pending_inv [OF assms c']
  have t: "smt_inv C (nd_pending_claim_tree n)" using assms by (simp add: inv_defs)
  have pend: "cl_status c = ClaimPending"
    and s': "s' = (registry_next_state C (nd_state n) ReclaimStaleClaim)\<lparr>
       sr_reserved_pending_claim_sats := sr_reserved_pending_claim_sats (nd_state n) - cl_reserved_sats c,
       sr_pending_claim_root := smt_root C (snd (smt_insert C (nd_pending_claim_tree n) k
         (pending_claim_hash C (c\<lparr>cl_status := ClaimReclaimed\<rparr>))))\<rparr>"
    using s ci(1,2) by (auto simp: res_simps apply_reclaim_stale_claim_Ok root_insert [OF t])
  let ?c = "c\<lparr>cl_status := ClaimReclaimed\<rparr>"
  let ?n = "n\<lparr>nd_pending_claim_tree := snd (smt_insert C (nd_pending_claim_tree n) k (pending_claim_hash C ?c)),
    nd_pending_claims := (nd_pending_claims n)(k \<mapsto> ?c)\<rparr>"
  obtain r' where r': "custody_reclaim (nd_reserve n) (ClaimHandle k) = (Ok (cl_reserved_sats c), r')"
    using custody_reclaim_open [of "nd_reserve n" "ClaimHandle k"] ci(3) [OF pend] by auto
  show "safe C n ?d (node_then (commit C ?n s') (\<lambda>root n.
      case custody_reclaim (nd_reserve n) (ClaimHandle k) of (r, reserve) \<Rightarrow>
        node_then (map_err (\<lambda>_. InvariantViolation) r, n\<lparr>nd_reserve := reserve\<rparr>)
          (\<lambda>_ n. node_then (reserve_consistent n, n) (\<lambda>_ n. (Ok root, n)))))"
  proof (rule safe_commit_then)
    show "roots_match C ?n s'" using assms by (simp add: s' inv_defs registry_next_state_def)
    have "moved n ?d (?n\<lparr>nd_state := s', nd_reserve := r'\<rparr>)"
      by (simp add: s' moved_def no_flow_def registry_next_state_def)
    moreover have "node_inv C (?n\<lparr>nd_state := s', nd_reserve := r'\<rparr>)"
      using assms custody.reclaim_law [OF r'] ci(1)
      by (auto simp: s' inv_defs registry_next_state_def)
    ultimately show "safe C n ?d (case custody_reclaim (nd_reserve (?n\<lparr>nd_state := s'\<rparr>)) (ClaimHandle k) of (r, reserve) \<Rightarrow>
        node_then (map_err (\<lambda>_. InvariantViolation) r, ?n\<lparr>nd_state := s', nd_reserve := reserve\<rparr>)
          (\<lambda>_ n. node_then (reserve_consistent n, n) (\<lambda>_ n. (Ok (state_root_hash C s'), n))))"
      by (simp add: r' safe_consistent)
  qed
qed simp_all

definition pending_sats :: "StateNode \<Rightarrow> b32 \<Rightarrow> nat" where
  "pending_sats n k = (case nd_pending_claims n k of None \<Rightarrow> 0 | Some c \<Rightarrow> unat (cl_reserved_sats c))"

text \<open>Approvals touch neither view nor holdings of custody, nor anything else of the node.\<close>

lemma custody_swap_inv:
  assumes "node_inv C n" and "custody_view r = custody_view (nd_reserve n)"
    and "custody_held r = custody_held (nd_reserve n)"
  shows "node_inv C (n\<lparr>nd_reserve := r\<rparr>)"
  using assms by (simp add: inv_defs)

lemma add_approvals_frame:
  "\<exists>res r. add_approvals C h as n = (res, n\<lparr>nd_reserve := r\<rparr>) \<and> res \<noteq> Err InvariantViolation \<and>
     custody_view r = custody_view (nd_reserve n) \<and> custody_held r = custody_held (nd_reserve n)"
proof (induction "as" arbitrary: n)
  case Nil
  show ?case by (intro exI [of _ "Ok ()"] exI [of _ "nd_reserve n"]) simp
next
  case (Cons a "as")
  obtain q r where qr: "custody_add_approval C (nd_reserve n) h
      \<lparr>ap_signer_pubkey = ms_signer_pubkey a, ap_signature = ms_signature a\<rparr> = (q, r)"
    by fastforce
  have keep: "custody_view r = custody_view (nd_reserve n)" "custody_held r = custody_held (nd_reserve n)"
    using custody_hooks_keep(9,10) [of C "nd_reserve n" h] qr by (metis snd_conv)+
  show ?case
  proof (cases q)
    case (Ok u)
    then show ?thesis using Cons.IH [of "n\<lparr>nd_reserve := r\<rparr>"] keep by (simp add: qr)
  next
    case (Err e)
    then show ?thesis
      using keep by (intro exI [of _ "Err (ReserveRefused e)"] exI [of _ r]) (simp add: qr)
  next
    case Panic
    then show ?thesis using keep by (intro exI [of _ Panic] exI [of _ r]) (simp add: qr)
  qed
qed

lemma finalize_claim_safe:
  assumes "node_inv C n"
  shows "safe C n (no_flow\<lparr>lg_paid := pending_sats n k\<rparr>) (finalize_claim C n k com as h)"
  unfolding finalize_claim_def Let_def
proof (intro safe_then [OF assms])
  let ?d = "(no_flow\<lparr>lg_paid := pending_sats n k\<rparr>)"
  fix c s'
  assume c: "ok_or (nd_pending_claims n k) NodeError.UnknownClaim = Ok c"
    and s: "map_err Registry (apply_finalize_claim C (nd_state n) c
      (smt_prove C (nd_pending_claim_tree n) k) com as h) = Ok s'"
  have c': "nd_pending_claims n k = Some c" using c by (simp add: res_simps)
  note ci = pending_inv [OF assms c']
  have t: "smt_inv C (nd_pending_claim_tree n)" using assms by (simp add: inv_defs)
  obtain cr tier where pend: "cl_status c = ClaimPending"
    and le: "cl_reserved_sats c \<le> sr_reserve_btc_sats (nd_state n)"
    and s': "s' = (registry_next_state C (nd_state n) FinalizeClaim)\<lparr>
       sr_reserved_pending_claim_sats := sr_reserved_pending_claim_sats (nd_state n) - cl_reserved_sats c,
       sr_reserve_btc_sats := sr_reserve_btc_sats (nd_state n) - cl_reserved_sats c,
       sr_collateral_ratio_ppm := cr, sr_emergency_tier := tier,
       sr_pending_claim_root := smt_root C (snd (smt_insert C (nd_pending_claim_tree n) k
         (pending_claim_hash C (c\<lparr>cl_status := ClaimFinalized\<rparr>))))\<rparr>"
    using s ci(1) by (auto simp: res_simps apply_finalize_claim_Ok root_insert [OF t])
  let ?c = "c\<lparr>cl_status := ClaimFinalized\<rparr>"
  obtain res r where ar: "add_approvals C (ClaimHandle k) as n = (res, n\<lparr>nd_reserve := r\<rparr>)"
    and nv: "res \<noteq> Err InvariantViolation" and keep: "custody_view r = custody_view (nd_reserve n)"
      "custody_held r = custody_held (nd_reserve n)"
    using add_approvals_frame by blast
  let ?m = "n\<lparr>nd_reserve := r\<rparr>"
  have m: "node_inv C ?m" by (rule custody_swap_inv [OF assms keep])
  obtain q r' where fin: "custody_finalize C r (ClaimHandle k) = (q, r')" by fastforce
  let ?n = "?m\<lparr>nd_reserve := r', nd_pending_claim_tree := snd (smt_insert C (nd_pending_claim_tree n) k
    (pending_claim_hash C ?c)), nd_pending_claims := (nd_pending_claims n)(k \<mapsto> ?c)\<rparr>"
  have paid: "safe C n ?d (node_then (commit C ?n s') (\<lambda>root n. node_then (reserve_consistent n, n) (\<lambda>_ n. (Ok root, n))))"
    if "q = Ok sp" for sp
  proof (rule safe_commit_then)
    note law = custody.finalize_law [OF fin [unfolded that]]
    have "sp_amount_sats sp = cl_reserved_sats c" using law ci(3) [OF pend] keep by simp
    then have "node_inv C (?n\<lparr>nd_state := s'\<rparr>)"
      using assms law ci(1) keep by (auto simp: s' inv_defs registry_next_state_def)
    moreover have "moved n ?d (?n\<lparr>nd_state := s'\<rparr>)"
      using le by (simp add: s' moved_def no_flow_def registry_next_state_def pending_sats_def c' unat_sub
          word_le_nat_alt)
    ultimately show "safe C n ?d (node_then (reserve_consistent (?n\<lparr>nd_state := s'\<rparr>), ?n\<lparr>nd_state := s'\<rparr>)
        (\<lambda>_ n. (Ok (state_root_hash C s'), n)))"
      by (rule safe_consistent)
    show "roots_match C ?n s'" using assms by (simp add: s' inv_defs registry_next_state_def)
  qed
  have "safe C n ?d (case custody_finalize C (nd_reserve ?m) (ClaimHandle k) of (r, reserve) \<Rightarrow>
      node_then (map_err ReserveRefused r, ?m\<lparr>nd_reserve := reserve\<rparr>) (\<lambda>_ n.
        node_then (commit C (n\<lparr>nd_pending_claim_tree := snd (smt_insert C (nd_pending_claim_tree n) k
            (pending_claim_hash C ?c)), nd_pending_claims := (nd_pending_claims n)(k \<mapsto> ?c)\<rparr>) s')
          (\<lambda>root n. node_then (reserve_consistent n, n) (\<lambda>_ n. (Ok root, n)))))"
  proof (cases q)
    case (Ok sp)
    then show ?thesis using paid [OF Ok] by (simp add: fin)
  next
    case (Err e)
    then have "r' = r" using custody.finalize_refused fin by blast
    then show ?thesis using m Err by (simp add: fin safe_def untouched_def)
  next
    case Panic
    then show ?thesis using custody.finalize_total fin by blast
  qed
  then show "safe C n ?d (node_then (add_approvals C (ClaimHandle k) as n) (\<lambda>_ n.
      case custody_finalize C (nd_reserve n) (ClaimHandle k) of (r, reserve) \<Rightarrow>
      node_then (map_err ReserveRefused r, n\<lparr>nd_reserve := reserve\<rparr>) (\<lambda>_ n.
        node_then (commit C (n\<lparr>nd_pending_claim_tree := snd (smt_insert C (nd_pending_claim_tree n) k
            (pending_claim_hash C ?c)), nd_pending_claims := (nd_pending_claims n)(k \<mapsto> ?c)\<rparr>) s')
          (\<lambda>root n. node_then (reserve_consistent n, n) (\<lambda>_ n. (Ok root, n))))))"
    using m nv by (cases res) (simp_all add: ar safe_def untouched_def)
qed simp_all

section \<open>Every reachable node\<close>

datatype node_op =
    IssuerRegisterOp IssuerPosition
  | OperatorRegisterOp OperatorPosition
  | MintCommitOp b32 MintCommitWitness
  | MintFinalizeOp b32 MintFinalizeWitness
  | RedeemLockOp RedeemLockWitness
  | LockRefundOp LockRefundWitness
  | SubmitClaimOp "BatchRedemption list" "OracleMessage list" "b32 list" ClaimClock u64 u32 u32
  | ReclaimOp b32 u32
  | FinalizeOp b32 ReserveCommittee "MultisigSig list" u32
  | VetoOp b32
  | SetAnchorOp u32 b32 u64
  | SetCommitteeOp b32
  | UseMultisigOp Committee
  | PauseOp PauseReason
  | ResumeOp
  | RotateOp Committee

fun perform_op :: "crypto \<Rightarrow> node_op \<Rightarrow> StateNode \<Rightarrow> node_result" where
  "perform_op C (IssuerRegisterOp i) n = issuer_register C n i"
| "perform_op C (OperatorRegisterOp o') n = operator_register C n o'"
| "perform_op C (MintCommitOp k w) n = mint_commit C n k w"
| "perform_op C (MintFinalizeOp k w) n = mint_finalize C n k w"
| "perform_op C (RedeemLockOp w) n = redeem_lock C n w"
| "perform_op C (LockRefundOp w) n = lock_refund C n w"
| "perform_op C (SubmitClaimOp rs ms ks a shard expiry tip) n = submit_claim C n rs ms ks a shard expiry tip"
| "perform_op C (ReclaimOp k h) n = reclaim_stale_claim C n k h"
| "perform_op C (FinalizeOp k com as h) n = finalize_claim C n k com as h"
| "perform_op C (VetoOp k) n = (case veto_claim n k of (r, n') \<Rightarrow> (rbind r (\<lambda>_. Ok k), n'))"
| "perform_op C (SetAnchorOp height h mtp) n = (Ok h, set_l1_anchor n height h mtp)"
| "perform_op C (SetCommitteeOp h) n = (Ok h, set_reserve_committee n h)"
| "perform_op C (UseMultisigOp com) n = (Ok (committee_hash C com), use_multisig_reserve C n com)"
| "perform_op C (PauseOp reason) n = (Ok (fill 0), emergency_pause n reason)"
| "perform_op C ResumeOp n = (Ok (fill 0), resume_reserve n)"
| "perform_op C (RotateOp com) n = (Ok (committee_hash C com), rotate_reserve_committee C n com)"

text \<open>The one documented precondition: custody is swapped before there is any pending claim.\<close>

fun op_allowed :: "StateNode \<Rightarrow> node_op \<Rightarrow> bool" where
  "op_allowed n (UseMultisigOp com) \<longleftrightarrow> sr_reserved_pending_claim_sats (nd_state n) = 0 \<and>
     (\<forall>k c. nd_pending_claims n k = Some c \<longrightarrow> cl_status c \<noteq> ClaimPending)"
| "op_allowed n _ \<longleftrightarrow> True"

inductive node_reachable :: "crypto \<Rightarrow> StateNode \<Rightarrow> bool" for C where
  reachable_genesis: "node_reachable C (genesis_node C family oracle_hash epoch price)"
| reachable_step: "node_reachable C n \<Longrightarrow> op_allowed n op \<Longrightarrow> node_reachable C (snd (perform_op C op n))"

lemma hook_safe:
  assumes "node_inv C n"
  shows "safe C n no_flow (Ok x, set_l1_anchor n height h mtp)"
    and "safe C n no_flow (Ok x, set_reserve_committee n h)"
    and "safe C n no_flow (Ok x, emergency_pause n reason)" and "safe C n no_flow (Ok x, resume_reserve n)"
    and "safe C n no_flow (Ok x, rotate_reserve_committee C n com)"
  using assms by (simp_all add: safe_def inv_defs set_l1_anchor_def set_reserve_committee_def
      emergency_pause_def resume_reserve_def rotate_reserve_committee_def Let_def moved_def no_flow_def)

lemma veto_safe:
  assumes "node_inv C n"
  shows "safe C n no_flow (case veto_claim n k of (r, n') \<Rightarrow> (rbind r (\<lambda>_. Ok (k' :: b32)), n'))"
proof -
  obtain q r where qr: "custody_veto (nd_reserve n) (ClaimHandle k) = (q, r)" by fastforce
  have "node_inv C (n\<lparr>nd_reserve := r\<rparr>)"
    using custody_hooks_keep(7,8) [of "nd_reserve n" "ClaimHandle k"] qr
    by (intro custody_swap_inv [OF assms]) (metis snd_conv)+
  then show ?thesis
    by (cases q) (simp_all add: veto_claim_def qr safe_def res_simps moved_def no_flow_def untouched_def)
qed

lemma use_multisig_safe:
  assumes "node_inv C n" and "op_allowed n (UseMultisigOp com)"
  shows "safe C n no_flow (Ok x, use_multisig_reserve C n com)"
  using assms by (auto simp: safe_def inv_defs use_multisig_reserve_def Let_def multisig_new_def
      multisig_reserve_view_def moved_def no_flow_def)

text \<open>What each operation moves when it is accepted.\<close>

fun flow_of :: "node_op \<Rightarrow> StateNode \<Rightarrow> ledger" where
  "flow_of (MintCommitOp k w) n = no_flow\<lparr>lg_deposited := unat (mc_deposit_sats w)\<rparr>"
| "flow_of (MintFinalizeOp k w) n = no_flow\<lparr>lg_minted := unat (mf_requested_mint_atoms w)\<rparr>"
| "flow_of (SubmitClaimOp rs ms ks a shard expiry tip) n = no_flow\<lparr>lg_burned := sum_list (map amount_atoms rs)\<rparr>"
| "flow_of (FinalizeOp k com as h) n = no_flow\<lparr>lg_paid := pending_sats n k\<rparr>"
| "flow_of _ n = no_flow"

lemma perform_op_safe: "node_inv C n \<Longrightarrow> op_allowed n op \<Longrightarrow> safe C n (flow_of op n) (perform_op C op n)"
  by (cases op) (simp_all only: perform_op.simps flow_of.simps issuer_register_safe operator_register_safe
      mint_commit_safe mint_finalize_safe redeem_lock_safe lock_refund_safe submit_claim_safe
      reclaim_stale_claim_safe finalize_claim_safe veto_safe hook_safe use_multisig_safe)

lemma reachable_inv: "node_reachable C n \<Longrightarrow> node_inv C n"
proof (induction rule: node_reachable.induct)
  case (reachable_step n op)
  then show ?case using perform_op_safe [of C n op] by (simp add: safe_def)
qed (rule genesis_inv)

section \<open>The ledger of a run\<close>

definition add_flow :: "ledger \<Rightarrow> ledger \<Rightarrow> ledger" where
  "add_flow d e = \<lparr>lg_deposited = lg_deposited d + lg_deposited e, lg_paid = lg_paid d + lg_paid e,
     lg_minted = lg_minted d + lg_minted e, lg_burned = lg_burned d + lg_burned e\<rparr>"

text \<open>A run from a genesis node, with the sum of what its accepted operations moved.\<close>

inductive node_run :: "crypto \<Rightarrow> StateNode \<Rightarrow> ledger \<Rightarrow> bool" for C where
  run_genesis: "node_run C (genesis_node C family oracle_hash epoch price) no_flow"
| run_op: "node_run C n d \<Longrightarrow> op_allowed n op \<Longrightarrow> perform_op C op n = (r, n') \<Longrightarrow>
    node_run C n' (if is_ok r then add_flow d (flow_of op n) else d)"

lemma node_run_reachable: "node_run C n d \<Longrightarrow> node_reachable C n"
proof (induction rule: node_run.induct)
  case (run_op n d op r n')
  then show ?case using reachable_step [of C n op] by simp
qed (rule reachable_genesis)

lemma node_run_ledger:
  "node_run C n d \<Longrightarrow>
     unat (sr_reserve_btc_sats (nd_state n)) + lg_paid d = lg_deposited d \<and>
     unat (sr_sat_usd_supply_atoms (nd_state n)) + lg_burned d = lg_minted d"
proof (induction rule: node_run.induct)
  case (run_op n d op r n')
  have "safe C n (flow_of op n) (r, n')"
    using perform_op_safe [OF reachable_inv [OF node_run_reachable [OF run_op.hyps(1)]] run_op.hyps(2)]
      run_op.hyps(3) by simp
  then show ?case
    using run_op.IH by (cases r) (auto simp: safe_def moved_def add_flow_def dest: untouched_state)
qed (simp add: genesis_node_def genesis_state_def Let_def no_flow_def)

end
