(* ===== verification/Dispute.thy ===== *)
theory Dispute
  imports Reserve Redeem
begin

text \<open>
  Dispute resolution and the optimistic backend (\<^verbatim>\<open>satusd-dispute/src/lib.rs\<close>): a dispute is
  resolved by recomputing the operator's value, and \<open>PlaygroundReserve\<close> runs assert, disprove and
  withdraw over \<open>MockReserve\<close> custody. Shown here: an honest value is never disproven and a wrong one
  always is, the backend meets the custody contract, and a withdrawal needs an elapsed window
  with no disprove since the assert.
\<close>

section \<open>Resolving a dispute\<close>

datatype DisputeWitness =
    Lineage b32 bytes
  | LockBinding b32 RedeemIntent

datatype DisputeOutcome =
    DisproveSucceeds b32 b32
  | DisproveFails
  | Malformed

definition verdict :: "b32 \<Rightarrow> b32 \<Rightarrow> DisputeOutcome" where
  "verdict claimed correct = (if claimed = correct then DisproveFails else DisproveSucceeds claimed correct)"

text \<open>A panic of the parser or of the key derivation is a panic here; their errors are \<open>Malformed\<close>.\<close>

fun resolve_dispute :: "crypto \<Rightarrow> DisputeWitness \<Rightarrow> ('e, DisputeOutcome) res" where
  "resolve_dispute C (Lineage claimed_asset_proof_hash proof_file) =
     (case parse_proof_file C proof_file of
        Panic \<Rightarrow> Panic
      | Err _ \<Rightarrow> Ok Malformed
      | Ok file \<Rightarrow> (case parsed file of
          Panic \<Rightarrow> Panic
        | Err _ \<Rightarrow> Ok Malformed
        | Ok proofs \<Rightarrow> (case verify_lineage C proofs of
            Panic \<Rightarrow> Panic
          | Err _ \<Rightarrow> Ok Malformed
          | Ok _ \<Rightarrow> let correct = lineage_proof_hash C proof_file
              in Ok (verdict claimed_asset_proof_hash correct))))"
| "resolve_dispute C (LockBinding claimed_lock_script_key intent) =
     (let rih = redeem_intent_hash C intent in
      rbind (tap_tweak C (ri_user_asset_refund_key intent) (lock_tweak C rih (ri_payment_hash intent)))
        (\<lambda>correct. Ok (verdict claimed_lock_script_key correct)))"

fun disprove_for :: "b32 \<Rightarrow> DisputeOutcome \<Rightarrow> Disprove option" where
  "disprove_for claim_id (DisproveSucceeds claimed correct) =
     Some \<lparr>dp_claim_id = claim_id, dp_claimed = claimed, dp_correct = correct\<rparr>"
| "disprove_for claim_id _ = None"

section \<open>The optimistic backend\<close>

record Assert =
  as_open_height :: u32
  as_disproven :: bool

record PlaygroundReserve =
  pg_custody :: MockReserve
  pg_challenge_window :: u32
  pg_now :: u32
  pg_asserts :: "b32 \<rightharpoonup> Assert"

definition playground_new :: "u64 \<Rightarrow> u32 \<Rightarrow> PlaygroundReserve" where
  "playground_new total_sats challenge_window =
     \<lparr>pg_custody = mock_new total_sats, pg_challenge_window = challenge_window, pg_now = 0,
      pg_asserts = Map.empty\<rparr>"

definition set_height :: "PlaygroundReserve \<Rightarrow> u32 \<Rightarrow> PlaygroundReserve" where
  "set_height r height = r\<lparr>pg_now := height\<rparr>"

definition playground_reserve_view :: "PlaygroundReserve \<Rightarrow> ReserveView" where
  "playground_reserve_view r = mock_reserve_view (pg_custody r)"

definition playground_credit :: "PlaygroundReserve \<Rightarrow> u64 \<Rightarrow> PlaygroundReserve" where
  "playground_credit r sats = r\<lparr>pg_custody := mock_credit (pg_custody r) sats\<rparr>"

definition playground_submit_claim :: "PlaygroundReserve \<Rightarrow> ReserveClaim \<Rightarrow> ClaimHandle \<times> PlaygroundReserve" where
  "playground_submit_claim r claim =
     (let (h, custody) = mock_submit_claim (pg_custody r) claim in (h, r\<lparr>pg_custody := custody\<rparr>))"

definition playground_finalize_claim :: "PlaygroundReserve \<Rightarrow> ClaimHandle \<Rightarrow> PlaygroundReserve finalize_result" where
  "playground_finalize_claim r h =
     (let (res, custody) = mock_finalize_claim (pg_custody r) h in (res, r\<lparr>pg_custody := custody\<rparr>))"

definition playground_emergency_pause :: "PlaygroundReserve \<Rightarrow> PauseReason \<Rightarrow> PlaygroundReserve" where
  "playground_emergency_pause r reason = r\<lparr>pg_custody := mock_emergency_pause (pg_custody r) reason\<rparr>"

definition playground_reclaim_stale ::
  "PlaygroundReserve \<Rightarrow> ClaimHandle \<Rightarrow> (FinalizeError, u64) res \<times> PlaygroundReserve" where
  "playground_reclaim_stale r h =
     (let (res, custody) = mock_reclaim_stale (pg_custody r) h in (res, r\<lparr>pg_custody := custody\<rparr>))"

definition submit_assert :: "PlaygroundReserve \<Rightarrow> ReserveClaim \<Rightarrow> b32 \<times> PlaygroundReserve" where
  "submit_assert r claim =
     (rc_claim_id claim,
      r\<lparr>pg_asserts := (pg_asserts r)(rc_claim_id claim \<mapsto>
        \<lparr>as_open_height = pg_now r, as_disproven = False\<rparr>)\<rparr>)"

definition submit_disprove :: "PlaygroundReserve \<Rightarrow> Disprove \<Rightarrow> b32 \<times> PlaygroundReserve" where
  "submit_disprove r disprove =
     (let r = (case pg_asserts r (dp_claim_id disprove) of
            None \<Rightarrow> r
          | Some a \<Rightarrow> r\<lparr>pg_asserts := (pg_asserts r)(dp_claim_id disprove \<mapsto> a\<lparr>as_disproven := True\<rparr>)\<rparr>);
          (_, custody) = mock_reclaim_stale (pg_custody r) (ClaimHandle (dp_claim_id disprove))
      in (dp_claim_id disprove, r\<lparr>pg_custody := custody\<rparr>))"

text \<open>\<^verbatim>\<open>a.open_height + self.challenge_window\<close> is unchecked: it wraps.\<close>

definition observe_challenge_window :: "PlaygroundReserve \<Rightarrow> ClaimHandle \<Rightarrow> WindowStatus" where
  "observe_challenge_window r h =
     (case pg_asserts r (handle_id h) of
        None \<Rightarrow> WindowStillOpen
      | Some a \<Rightarrow>
          if as_disproven a then WindowDisproven
          else if pg_now r \<ge> as_open_height a + pg_challenge_window r then WindowElapsed
          else WindowStillOpen)"

definition finalize_withdraw :: "PlaygroundReserve \<Rightarrow> ClaimHandle \<Rightarrow> PlaygroundReserve finalize_result" where
  "finalize_withdraw r h =
     (case observe_challenge_window r h of
        WindowDisproven \<Rightarrow> (Err Disproven, r)
      | WindowStillOpen \<Rightarrow> (Err WindowOpen, r)
      | WindowElapsed \<Rightarrow>
          (let (res, custody) = mock_finalize_claim (pg_custody r) h in (res, r\<lparr>pg_custody := custody\<rparr>)))"

section \<open>Verdicts\<close>

lemma verdict_cases:
  "verdict claimed correct = DisproveFails \<longleftrightarrow> claimed = correct"
  "verdict claimed correct = DisproveSucceeds x y \<longleftrightarrow> claimed \<noteq> correct \<and> x = claimed \<and> y = correct"
  "verdict claimed correct \<noteq> Malformed"
  by (auto simp: verdict_def)

lemma resolve_lineage:
  "(resolve_dispute C (Lineage claimed proof_file) :: ('e, _) res) = Ok out \<Longrightarrow>
     out = Malformed \<or>
     (\<exists>file proofs anchor. parse_proof_file C proof_file = Ok file \<and> parsed file = Ok proofs \<and>
        verify_lineage C proofs = Ok anchor \<and> out = verdict claimed (lineage_proof_hash C proof_file))"
  by (auto simp: Let_def split: res.splits)

section \<open>The backend contract\<close>

definition playground_held :: "PlaygroundReserve \<Rightarrow> b32 \<rightharpoonup> u64" where
  "playground_held r = mock_held (pg_custody r)"

lemmas playground_defs = playground_reserve_view_def playground_held_def playground_submit_claim_def
  playground_finalize_claim_def playground_reclaim_stale_def playground_credit_def

interpretation playground: reserve_backend playground_reserve_view playground_held
  playground_submit_claim playground_finalize_claim playground_reclaim_stale playground_credit
proof unfold_locales
  show "\<exists>r'. playground_submit_claim r c = (ClaimHandle (rc_claim_id c), r') \<and>
      playground_held r' = (playground_held r)(rc_claim_id c \<mapsto> rc_reimbursement_sats c) \<and>
      playground_reserve_view r' = \<lparr>rv_total_sats = rv_total_sats (playground_reserve_view r),
        rv_reserved_sats = rv_reserved_sats (playground_reserve_view r) + rc_reimbursement_sats c\<rparr>" for r c
    using mock.submit_law [of "pg_custody r" c] by (auto simp: playground_defs)
qed (auto simp: playground_defs mock.credit_law split: prod.splits
    dest: mock.finalize_law mock.finalize_refused mock.finalize_total [THEN notE] mock.reclaim_law
      mock.reclaim_refused mock.reclaim_total [THEN notE])

section \<open>The life of an assert\<close>

datatype playground_op =
    PgSubmit ReserveClaim
  | PgAssert ReserveClaim
  | PgDisprove Disprove
  | PgWithdraw ClaimHandle
  | PgFinalize ClaimHandle
  | PgReclaim ClaimHandle
  | PgCredit u64
  | PgHeight u32

fun pg_step :: "playground_op \<Rightarrow> PlaygroundReserve \<Rightarrow> PlaygroundReserve" where
  "pg_step (PgSubmit c) r = snd (playground_submit_claim r c)"
| "pg_step (PgAssert c) r = snd (submit_assert r c)"
| "pg_step (PgDisprove d) r = snd (submit_disprove r d)"
| "pg_step (PgWithdraw h) r = snd (finalize_withdraw r h)"
| "pg_step (PgFinalize h) r = snd (playground_finalize_claim r h)"
| "pg_step (PgReclaim h) r = snd (playground_reclaim_stale r h)"
| "pg_step (PgCredit n) r = playground_credit r n"
| "pg_step (PgHeight n) r = set_height r n"

definition pg_run :: "playground_op list \<Rightarrow> PlaygroundReserve \<Rightarrow> PlaygroundReserve" where
  "pg_run = fold pg_step"

lemma pg_run_simps [simp]:
  "pg_run [] r = r"
  "pg_run (ops @ [op]) r = pg_step op (pg_run ops r)"
  by (simp_all add: pg_run_def)

text \<open>The operations that decide a claim's assert: its asserts and its disproves.\<close>

fun judges :: "b32 \<Rightarrow> playground_op \<Rightarrow> bool" where
  "judges k (PgAssert c) \<longleftrightarrow> rc_claim_id c = k"
| "judges k (PgDisprove d) \<longleftrightarrow> dp_claim_id d = k"
| "judges k _ \<longleftrightarrow> False"

lemmas pg_step_defs = playground_defs submit_assert_def submit_disprove_def finalize_withdraw_def
  set_height_def

lemma pg_step_window [simp]: "pg_challenge_window (pg_step op r) = pg_challenge_window r"
  by (cases op) (auto simp: pg_step_defs split: prod.splits option.splits WindowStatus.splits)

lemma pg_run_window [simp]: "pg_challenge_window (pg_run ops r) = pg_challenge_window r"
  by (induction ops rule: rev_induct) simp_all

lemma pg_step_other: "\<not> judges k op \<Longrightarrow> pg_asserts (pg_step op r) k = pg_asserts r k"
  by (cases op) (auto simp: pg_step_defs split: prod.splits option.splits WindowStatus.splits)

lemma standing_assert:
  assumes "pg_asserts r k = None" and "pg_asserts (pg_run ops r) k = Some a" and "\<not> as_disproven a"
  shows "\<exists>pre c post. ops = pre @ PgAssert c # post \<and> rc_claim_id c = k \<and>
     (\<forall>op\<in>set post. \<not> judges k op) \<and> as_open_height a = pg_now (pg_run pre r)"
  using assms
proof (induction ops rule: rev_induct)
  case Nil
  then show ?case by simp
next
  case (snoc op ops)
  show ?case
  proof (cases "judges k op")
    case False
    then obtain pre c post where "ops = pre @ PgAssert c # post" "rc_claim_id c = k"
        "\<forall>op\<in>set post. \<not> judges k op" "as_open_height a = pg_now (pg_run pre r)"
      using snoc pg_step_other [of k op "pg_run ops r"] by auto
    then show ?thesis
      using False by (intro exI [of _ pre] exI [of _ c] exI [of _ "post @ [op]"]) auto
  next
    case True
    then obtain c where op: "op = PgAssert c" "rc_claim_id c = k"
      using snoc.prems(2,3) by (cases op) (auto simp: pg_step_defs Let_def split: prod.splits option.splits)
    moreover have "as_open_height a = pg_now (pg_run ops r)"
      using snoc.prems(2) op by (auto simp: submit_assert_def)
    ultimately show ?thesis by (intro exI [of _ ops] exI [of _ c] exI [of _ "[]"]) simp
  qed
qed

lemma withdraw_needs_standing_assert:
  assumes "finalize_withdraw r h = (Ok sp, r')"
  shows "\<exists>a. pg_asserts r (handle_id h) = Some a \<and> \<not> as_disproven a \<and>
     as_open_height a + pg_challenge_window r \<le> pg_now r \<and>
     playground_held r (handle_id h) = Some (sp_amount_sats sp)"
  using assms
  by (auto simp: finalize_withdraw_def observe_challenge_window_def playground_held_def
      split: WindowStatus.splits option.splits if_splits prod.splits dest: mock.finalize_law)

section \<open>A disproven claim is gone\<close>

fun submits :: "b32 \<Rightarrow> playground_op \<Rightarrow> bool" where
  "submits k (PgSubmit c) \<longleftrightarrow> rc_claim_id c = k"
| "submits k _ \<longleftrightarrow> False"

lemma disproven_not_held: "playground_held (snd (submit_disprove r d)) (dp_claim_id d) = None"
  by (auto simp: submit_disprove_def playground_held_def mock_held_def mock_reclaim_stale_def
      split: option.splits)

lemma pg_step_held:
  "playground_held r k = None \<Longrightarrow> \<not> submits k op \<Longrightarrow> playground_held (pg_step op r) k = None"
  by (cases op)
    (auto simp: pg_step_defs mock_held_def mock_submit_claim_def mock_reclaim_stale_def
      mock_finalize_claim_def mock_credit_def Let_def
      split: prod.splits option.splits WindowStatus.splits if_splits)

lemma pg_run_held:
  "playground_held r k = None \<Longrightarrow> \<forall>op\<in>set ops. \<not> submits k op \<Longrightarrow> playground_held (pg_run ops r) k = None"
  by (induction ops rule: rev_induct) (simp_all add: pg_step_held)

lemma not_held_not_paid:
  assumes "playground_held r (handle_id h) = None"
  shows "fst (finalize_withdraw r h) \<noteq> Ok sp" and "fst (playground_finalize_claim r h) \<noteq> Ok sp'"
proof -
  show "fst (finalize_withdraw r h) \<noteq> Ok sp"
    using withdraw_needs_standing_assert [of r h sp "snd (finalize_withdraw r h)"] assms
    by (metis option.distinct(1) prod.collapse)
  show "fst (playground_finalize_claim r h) \<noteq> Ok sp'"
    using playground.finalize_law [of r h sp' "snd (playground_finalize_claim r h)"] assms
    by (metis option.distinct(1) prod.collapse)
qed

section \<open>Properties\<close>

text \<open>
  C10: a withdrawal pays only a claim whose assert stands: in any history from a new backend, the
  claim was asserted at some height, neither asserted again nor disproven since, and the challenge
  window (in 32-bit arithmetic) has elapsed since that height.
\<close>
lemma withdrawal_history:
  assumes "finalize_withdraw (pg_run ops (playground_new sats window)) h = (Ok sp, r)"
  shows "\<exists>pre c post. ops = pre @ PgAssert c # post \<and> rc_claim_id c = handle_id h \<and>
     (\<forall>op\<in>set post. \<not> judges (handle_id h) op) \<and>
     pg_now (pg_run pre (playground_new sats window)) + window \<le> pg_now (pg_run ops (playground_new sats window))"
proof -
  let ?r = "playground_new sats window"
  obtain a where a: "pg_asserts (pg_run ops ?r) (handle_id h) = Some a" "\<not> as_disproven a"
    "as_open_height a + pg_challenge_window (pg_run ops ?r) \<le> pg_now (pg_run ops ?r)"
    using withdraw_needs_standing_assert [OF assms] by blast
  have "pg_asserts ?r (handle_id h) = None" by (simp add: playground_new_def)
  from standing_assert [OF this a(1,2)] obtain pre c post where
    h: "ops = pre @ PgAssert c # post" "rc_claim_id c = handle_id h" "\<forall>op\<in>set post. \<not> judges (handle_id h) op"
      "as_open_height a = pg_now (pg_run pre ?r)" by blast
  have "pg_now (pg_run pre ?r) + window \<le> pg_now (pg_run ops ?r)"
    using a(3) h(4) by (simp add: playground_new_def)
  then show ?thesis using h(1-3) by blast
qed

lemma withdrawal_history_witness:
  "\<exists>pre c post. [PgSubmit sample_claim, PgAssert sample_claim, PgHeight 9] = pre @ PgAssert c # post \<and>
     rc_claim_id c = fill 0 \<and> (\<forall>op\<in>set post. \<not> judges (fill 0) op) \<and>
     pg_now (pg_run pre (playground_new 5 4)) + 4
       \<le> pg_now (pg_run [PgSubmit sample_claim, PgAssert sample_claim, PgHeight 9] (playground_new 5 4))"
proof -
  have "\<exists>sp r. finalize_withdraw (pg_run [PgSubmit sample_claim, PgAssert sample_claim, PgHeight 9]
      (playground_new 5 4)) (ClaimHandle (fill 0)) = (Ok sp, r)"
    by (simp add: pg_run_def pg_step_defs finalize_withdraw_def observe_challenge_window_def playground_new_def
        mock_new_def mock_submit_claim_def mock_finalize_claim_def sample_claim_def)
  then obtain sp r where "finalize_withdraw (pg_run [PgSubmit sample_claim, PgAssert sample_claim, PgHeight 9]
      (playground_new 5 4)) (ClaimHandle (fill 0)) = (Ok sp, r)" by blast
  from withdrawal_history [OF this] show ?thesis by simp
qed

text \<open>
  a disproven claim is never paid: after a disprove, no history without a new submission of the
  claim makes either a withdrawal or a direct finalization of it succeed.
\<close>
lemma disproven_never_paid:
  assumes "\<forall>op\<in>set ops. \<not> submits (dp_claim_id d) op"
  shows "fst (finalize_withdraw (pg_run ops (snd (submit_disprove r d))) (ClaimHandle (dp_claim_id d))) \<noteq> Ok sp \<and>
     fst (playground_finalize_claim (pg_run ops (snd (submit_disprove r d))) (ClaimHandle (dp_claim_id d))) \<noteq> Ok sp"
  using not_held_not_paid pg_run_held [OF disproven_not_held assms, of r] by simp

lemma disproven_never_paid_witness:
  "fst (finalize_withdraw (pg_run [PgAssert sample_claim, PgHeight 9] (snd (submit_disprove
       (pg_run [PgSubmit sample_claim, PgAssert sample_claim] (playground_new 5 4))
       \<lparr>dp_claim_id = fill 0, dp_claimed = fill 1, dp_correct = fill 2\<rparr>))) (ClaimHandle (fill 0)))
     \<noteq> Ok \<lparr>sp_claim_id = fill 0, sp_operator_id = fill 0, sp_amount_sats = 0\<rparr>"
  using disproven_never_paid [of "[PgAssert sample_claim, PgHeight 9]"
      "\<lparr>dp_claim_id = fill 0, dp_claimed = fill 1, dp_correct = fill 2\<rparr>"
      "pg_run [PgSubmit sample_claim, PgAssert sample_claim] (playground_new 5 4)"
      "\<lparr>sp_claim_id = fill 0, sp_operator_id = fill 0, sp_amount_sats = 0\<rparr>"]
  by simp

end
