(* ===== verification/Wide.thy ===== *)
theory Wide
  imports Prelude
begin

text \<open>
  Computations on \<^verbatim>\<open>u64\<close> values through \<^verbatim>\<open>u128\<close> intermediates, as the pricing code does them: the
  widened sum, product and quotient read as numbers, and the \<^verbatim>\<open>as u64\<close> that narrows them again.
\<close>

lemma unat_le_u64: "unat (w :: u64) \<le> 18446744073709551615"
  using unat_lt_u64 [of w] by linarith

lemma unat_le_u32: "unat (w :: u32) \<le> 4294967295"
  using unat_lt_u32 [of w] by linarith

lemma unat_le_u16: "unat (w :: u16) \<le> 65535"
  using unat_lt_u16 [of w] by linarith

lemma wide_add:
  "unat a + unat b < 2 ^ 128 \<Longrightarrow> unat (a + b :: u128) = unat a + unat b"
  by (subst unat_add_lem [symmetric]) simp

lemma wide_mul:
  "unat a * unat b < 2 ^ 128 \<Longrightarrow> unat (a * b :: u128) = unat a * unat b"
  by (subst unat_mult_lem [symmetric]) simp

lemma wide_add_u64 [simp]: "unat (ucast (a :: u64) + ucast (b :: u64) :: u128) = unat a + unat b"
  by (subst wide_add) (use unat_le_u64 [of a] unat_le_u64 [of b] in simp_all)

lemma mul_bound: "a \<le> m \<Longrightarrow> b \<le> n \<Longrightarrow> m * n < k \<Longrightarrow> a * b < (k :: nat)"
  by (rule le_less_trans [OF mult_le_mono])

lemma wide_mul_u64 [simp]: "unat (ucast (a :: u64) * ucast (b :: u64) :: u128) = unat a * unat b"
  by (subst wide_mul) (simp_all add: mul_bound [OF unat_le_u64 unat_le_u64])

lemma unat_u32_wide [simp]: "unat (ucast (a :: u32) :: u128) = unat a"
  by (simp add: unat_ucast_up)

lemma wide_mul_u64_u32 [simp]: "unat (ucast (a :: u64) * ucast (b :: u32) :: u128) = unat a * unat b"
  by (subst wide_mul) (simp_all add: mul_bound [OF unat_le_u64 unat_le_u32])

lemma wide_mul_u64_u16 [simp]: "unat (ucast (a :: u64) * ucast (b :: u16) :: u128) = unat a * unat b"
  by (subst wide_mul) (simp_all add: mul_bound [OF unat_le_u64 unat_le_u16])

lemma wide_mul_u32 [simp]: "unat (ucast (a :: u32) * ucast (b :: u32) :: u128) = unat a * unat b"
  by (subst wide_mul) (simp_all add: mul_bound [OF unat_le_u32 unat_le_u32])

lemma narrow_u64: "unat x < 2 ^ 64 \<Longrightarrow> unat (ucast (x :: u128) :: u64) = unat x"
  by (simp add: unsigned_ucast_eq take_bit_nat_eq_self)

lemma narrow_u64_eq:
  "unat (x :: u128) = k \<Longrightarrow> k < 18446744073709551616 \<Longrightarrow> unat (ucast x :: u64) = k"
  by (simp add: narrow_u64)

lemma narrow_u32: "unat x < 2 ^ 32 \<Longrightarrow> unat (ucast (x :: u128) :: u32) = unat x"
  by (simp add: unsigned_ucast_eq take_bit_nat_eq_self)

lemma unat_minus_one: "unat (- 1 :: 'a::len word) = 2 ^ LENGTH('a) - 1"
  by (simp add: unsigned_minus_1_eq_mask mask_eq_exp_minus_1)

lemma unat_max_u64: "unat (- 1 :: u64) = 18446744073709551615"
  by (simp add: unat_minus_one)

text \<open>\<^verbatim>\<open>a.abs_diff(b)\<close>.\<close>

definition abs_diff :: "'a::len word \<Rightarrow> 'a word \<Rightarrow> 'a word" where
  "abs_diff a b = (if a < b then b - a else a - b)"

lemma unat_abs_diff: "int (unat (abs_diff a b)) = \<bar>int (unat a) - int (unat b)\<bar>"
  by (auto simp: abs_diff_def unat_sub word_less_nat_alt word_le_nat_alt not_less of_nat_diff simp del: of_nat_unat)

lemma unat_saturating_sub: "unat (saturating_sub a b) = unat a - unat b"
  by (auto simp: saturating_sub_def unat_sub word_le_nat_alt)

lemma unat_saturating_add:
  "unat (saturating_add a b) = min (unat a + unat b) (2 ^ LENGTH('a) - 1)" for a b :: "'a::len word"
  by (auto simp: saturating_add_def unat_add_lem [THEN iffD1] unat_minus_one min_def)

end
