(* ===== verification/RailCode.thy ===== *)
theory RailCode
  imports Encoding Crypto Wide
begin

text \<open>
  The rail encoding (\<^verbatim>\<open>satusd-rail/src/encode.rs\<close>): the \<^verbatim>\<open>Encoder\<close> as the buffer it extends, the
  \<^verbatim>\<open>Decoder\<close> as a buffer with a position, and the tagged hash. The locale \<open>codec\<close> states what a
  writer and the reader that mirrors it owe each other: the reader takes exactly what the writer
  wrote, and accepts nothing else. It is interpreted for every pair the formats are built from.
\<close>

section \<open>Tagged hash and encoder\<close>

definition rail_tagged_hash :: "crypto \<Rightarrow> string \<Rightarrow> bytes \<Rightarrow> b32" where
  "rail_tagged_hash C tag msg =
     (let tag_digest = sha256 C [ascii tag] in sha256 C [bs tag_digest, bs tag_digest, msg])"

definition put_u8 :: "u8 \<Rightarrow> encoder \<Rightarrow> encoder" where
  "put_u8 v e = e @ [v]"

definition put_bool :: "bool \<Rightarrow> encoder \<Rightarrow> encoder" where
  "put_bool v e = e @ [if v then 1 else 0]"

definition put_u16 :: "u16 \<Rightarrow> encoder \<Rightarrow> encoder" where
  "put_u16 v e = e @ to_be v"

definition put_u32 :: "u32 \<Rightarrow> encoder \<Rightarrow> encoder" where
  "put_u32 v e = e @ to_be v"

definition put_u64 :: "u64 \<Rightarrow> encoder \<Rightarrow> encoder" where
  "put_u64 v e = e @ to_be v"

text \<open>An \<^verbatim>\<open>i32\<close> is its two's complement word.\<close>

definition put_i32 :: "u32 \<Rightarrow> encoder \<Rightarrow> encoder" where
  "put_i32 v e = e @ to_be v"

definition put_bytes32 :: "b32 \<Rightarrow> encoder \<Rightarrow> encoder" where
  "put_bytes32 v e = e @ bs v"

definition put_bigsize :: "u64 \<Rightarrow> encoder \<Rightarrow> encoder" where
  "put_bigsize v e =
     (if v \<le> 0xfc then e @ [ucast v]
      else if v \<le> 0xffff then e @ [0xfd] @ to_be (ucast v :: u16)
      else if v \<le> 0xffffffff then e @ [0xfe] @ to_be (ucast v :: u32)
      else e @ [0xff] @ to_be v)"

definition put_raw :: "bytes \<Rightarrow> encoder \<Rightarrow> encoder" where
  "put_raw v e = e @ v"

definition put_varbytes :: "bytes \<Rightarrow> encoder \<Rightarrow> encoder" where
  "put_varbytes v e = put_bigsize (word_of_nat (length v)) e @ v"

text \<open>A \<^verbatim>\<open>str\<close> is its UTF-8 bytes.\<close>

definition put_string :: "bytes \<Rightarrow> encoder \<Rightarrow> encoder" where
  "put_string v e = put_varbytes v e"

section \<open>Decoder\<close>

record Decoder =
  de_buf :: bytes
  de_pos :: usize

datatype DecodeError = Truncated | NonCanonicalBigSize | Oversized | BadUtf8

definition decoder_new :: "bytes \<Rightarrow> Decoder" where
  "decoder_new buf = \<lparr>de_buf = buf, de_pos = 0\<rparr>"

definition de_done :: "Decoder \<Rightarrow> bool" where
  "de_done d \<longleftrightarrow> de_pos d = word_of_nat (length (de_buf d))"

definition de_remaining :: "Decoder \<Rightarrow> usize" where
  "de_remaining d = word_of_nat (length (de_buf d)) - de_pos d"

text \<open>The slice \<^verbatim>\<open>buf[pos..pos + n]\<close> panics out of range.\<close>

definition de_take :: "usize \<Rightarrow> Decoder \<Rightarrow> (DecodeError, bytes \<times> Decoder) res" where
  "de_take n d =
     (if de_remaining d < n then Err Truncated
      else rbind (unwrap (slice_get (de_buf d) (unat (de_pos d)) (unat (de_pos d + n)))) (\<lambda>out.
      Ok (out, d\<lparr>de_pos := de_pos d + n\<rparr>)))"

definition de_u16 :: "Decoder \<Rightarrow> (DecodeError, u16 \<times> Decoder) res" where
  "de_u16 d = rbind (de_take 2 d) (\<lambda>(s, d). Ok (from_be s, d))"

definition de_u32 :: "Decoder \<Rightarrow> (DecodeError, u32 \<times> Decoder) res" where
  "de_u32 d = rbind (de_take 4 d) (\<lambda>(s, d). Ok (from_be s, d))"

definition de_bytes32 :: "Decoder \<Rightarrow> (DecodeError, b32 \<times> Decoder) res" where
  "de_bytes32 d = rbind (de_take 32 d) (\<lambda>(s, d). rbind (unwrap (arr_try s)) (\<lambda>a. Ok (a, d)))"

definition de_bigsize :: "Decoder \<Rightarrow> (DecodeError, u64 \<times> Decoder) res" where
  "de_bigsize d =
     rbind (de_take 1 d) (\<lambda>(s, d). let first = s ! 0 in
     rbind (if first \<le> 0xfc then Ok (ucast first, d)
            else if first = 0xfd then rbind (de_take 2 d) (\<lambda>(s, d). Ok (ucast (from_be s :: u16), d))
            else if first = 0xfe then rbind (de_take 4 d) (\<lambda>(s, d). Ok (ucast (from_be s :: u32), d))
            else rbind (de_take 8 d) (\<lambda>(s, d). Ok (from_be s, d))) (\<lambda>(v, d).
     let minimal = (if first \<le> 0xfc then True else if first = 0xfd then v \<ge> 0xfd
                    else if first = 0xfe then v > 0xffff else v > 0xffffffff)
     in if \<not> minimal then Err NonCanonicalBigSize else Ok (v, d)))"

text \<open>\<^verbatim>\<open>usize\<close> has 64 bits: the conversion of the length cannot fail.\<close>

definition de_varbytes :: "Decoder \<Rightarrow> (DecodeError, bytes \<times> Decoder) res" where
  "de_varbytes d = rbind (de_bigsize d) (\<lambda>(len, d). de_take len d)"

text \<open>\<^verbatim>\<open>std::str::from_utf8\<close>: the well-formed byte sequences of the Unicode standard.\<close>

definition utf8_tail :: "byte \<Rightarrow> bool" where
  "utf8_tail b \<longleftrightarrow> 0x80 \<le> b \<and> b \<le> 0xbf"

definition utf8_second :: "byte \<Rightarrow> byte \<Rightarrow> bool" where
  "utf8_second a b \<longleftrightarrow>
     (if a = 0xe0 then 0xa0 \<le> b \<and> b \<le> 0xbf
      else if a = 0xed then 0x80 \<le> b \<and> b \<le> 0x9f
      else if a = 0xf0 then 0x90 \<le> b \<and> b \<le> 0xbf
      else if a = 0xf4 then 0x80 \<le> b \<and> b \<le> 0x8f
      else utf8_tail b)"

fun utf8_ok :: "bytes \<Rightarrow> bool" where
  "utf8_ok [] = True"
| "utf8_ok (a # s) =
     (if a < 0x80 then utf8_ok s
      else if 0xc2 \<le> a \<and> a \<le> 0xdf then
        (case s of b # s \<Rightarrow> utf8_tail b \<and> utf8_ok s | _ \<Rightarrow> False)
      else if 0xe0 \<le> a \<and> a \<le> 0xef then
        (case s of b # c # s \<Rightarrow> utf8_second a b \<and> utf8_tail c \<and> utf8_ok s | _ \<Rightarrow> False)
      else if 0xf0 \<le> a \<and> a \<le> 0xf4 then
        (case s of b # c # e # s \<Rightarrow> utf8_second a b \<and> utf8_tail c \<and> utf8_tail e \<and> utf8_ok s
         | _ \<Rightarrow> False)
      else False)"

definition de_string :: "Decoder \<Rightarrow> (DecodeError, bytes \<times> Decoder) res" where
  "de_string d = rbind (de_varbytes d) (\<lambda>(s, d). if utf8_ok s then Ok (s, d) else Err BadUtf8)"

section \<open>What a writer appends\<close>

named_theorems put_simps \<open>the bytes a rail writer appends\<close>

declare put_u8_def [put_simps] put_bool_def [put_simps] put_u16_def [put_simps] put_u32_def [put_simps]
  put_u64_def [put_simps] put_i32_def [put_simps] put_bytes32_def [put_simps] put_raw_def [put_simps]
  emit_Nil [put_simps] emit_Cons [put_simps]

definition bigsize_bytes :: "u64 \<Rightarrow> bytes" where
  "bigsize_bytes v = put_bigsize v []"

definition varbytes_bytes :: "bytes \<Rightarrow> bytes" where
  "varbytes_bytes v = bigsize_bytes (word_of_nat (length v)) @ v"

lemma put_bigsize_bytes [put_simps]: "put_bigsize v e = e @ bigsize_bytes v"
  by (simp add: put_bigsize_def bigsize_bytes_def)

lemma put_varbytes_bytes [put_simps]: "put_varbytes v e = e @ varbytes_bytes v"
  by (simp add: put_varbytes_def varbytes_bytes_def put_simps)

lemma put_string_bytes [put_simps]: "put_string v e = e @ varbytes_bytes v"
  by (simp add: put_string_def put_simps)

section \<open>What is left to read\<close>

text \<open>The decoder stands before \<open>s\<close>.\<close>

definition before :: "Decoder \<Rightarrow> bytes \<Rightarrow> bool" where
  "before d s \<longleftrightarrow> unat (de_pos d) \<le> length (de_buf d) \<and> length (de_buf d) < 2 ^ 64 \<and>
     drop (unat (de_pos d)) (de_buf d) = s"

lemma before_new: "before (decoder_new s) s \<longleftrightarrow> length s < 2 ^ 64"
  by (simp add: before_def decoder_new_def)

lemma before_length: "before d s \<Longrightarrow> length s < 2 ^ 64"
  by (auto simp: before_def)

lemma de_remaining_before:
  assumes "before d s"
  shows "unat (de_remaining d) = length s"
proof -
  have l: "unat (word_of_nat (length (de_buf d)) :: u64) = length (de_buf d)"
    using assms by (intro unat_word_of_nat) (simp add: before_def)
  then have "de_pos d \<le> word_of_nat (length (de_buf d))"
    using assms by (simp add: word_le_nat_alt before_def)
  then show ?thesis
    using assms l by (auto simp: de_remaining_def unat_sub before_def)
qed

lemma de_done_before: "before d s \<Longrightarrow> de_done d \<longleftrightarrow> s = []"
  unfolding de_done_def word_unat_eq_iff before_def
  by (subst unat_word_of_nat) auto

lemma de_take_before:
  assumes "before d s"
  shows "de_take n d = (if length s < unat n then Err Truncated
     else Ok (take (unat n) s, d\<lparr>de_pos := de_pos d + n\<rparr>))"
    and "unat n \<le> length s \<Longrightarrow> before (d\<lparr>de_pos := de_pos d + n\<rparr>) (drop (unat n) s)"
proof -
  have r: "de_remaining d < n \<longleftrightarrow> length s < unat n"
    by (simp add: word_less_nat_alt de_remaining_before [OF assms])
  have p: "unat (de_pos d + n) = unat (de_pos d) + unat n" if "unat n \<le> length s"
    using that assms unat_add_lem [of "de_pos d" n] by (auto simp: before_def)
  show "de_take n d = (if length s < unat n then Err Truncated
     else Ok (take (unat n) s, d\<lparr>de_pos := de_pos d + n\<rparr>))"
    using assms p by (auto simp: de_take_def r slice_get_def before_def)
  show "before (d\<lparr>de_pos := de_pos d + n\<rparr>) (drop (unat n) s)" if "unat n \<le> length s"
    using that assms p [OF that] by (auto simp: before_def add.commute)
qed

section \<open>Writers and the readers that mirror them\<close>

locale codec =
  fixes enc :: "'a \<Rightarrow> bytes" and dec :: "Decoder \<Rightarrow> (DecodeError, 'a \<times> Decoder) res" and ok :: "'a \<Rightarrow> bool"
  assumes complete: "before d (enc v @ s) \<Longrightarrow> ok v \<Longrightarrow> \<exists>d'. dec d = Ok (v, d') \<and> before d' s"
    and sound: "before d s \<Longrightarrow> dec d = Ok (v, d') \<Longrightarrow> \<exists>r. s = enc v @ r \<and> before d' r \<and> ok v"
    and total: "before d s \<Longrightarrow> dec d \<noteq> Panic"
begin

lemma reads_iff:
  assumes "before d s"
  shows "(\<exists>d'. dec d = Ok (v, d') \<and> before d' r) \<longleftrightarrow> s = enc v @ r \<and> ok v"
proof
  assume "\<exists>d'. dec d = Ok (v, d') \<and> before d' r"
  then obtain d' where d': "dec d = Ok (v, d')" "before d' r" by blast
  from sound [OF assms d'(1)] obtain r' where "s = enc v @ r'" "before d' r'" "ok v" by blast
  then show "s = enc v @ r \<and> ok v" using d'(2) by (simp add: before_def)
qed (use assms complete in blast)

text \<open>The bytes of a value determine it, whatever follows.\<close>

lemma delimits:
  assumes "before d (enc v @ r)" and "ok v" and "ok w" and "enc v @ r = enc w @ s"
  shows "v = w \<and> r = s"
proof -
  obtain d1 where "dec d = Ok (v, d1)" "before d1 r" using complete [OF assms(1,2)] by blast
  moreover obtain d2 where "dec d = Ok (w, d2)" "before d2 s"
    using complete [of d w s] assms(1,3,4) by auto
  ultimately show ?thesis by (auto simp: before_def)
qed

end

text \<open>A loop that reads \<open>n\<close> values one after another.\<close>

fun de_many :: "(Decoder \<Rightarrow> (DecodeError, 'a \<times> Decoder) res) \<Rightarrow> nat \<Rightarrow> Decoder \<Rightarrow> 'a list
    \<Rightarrow> (DecodeError, 'a list \<times> Decoder) res" where
  "de_many dec 0 d xs = Ok (xs, d)"
| "de_many dec (Suc n) d xs = rbind (dec d) (\<lambda>(x, d). de_many dec n d (xs @ [x]))"

context codec
begin

lemma many_complete:
  "before d (concat (map enc vs) @ s) \<Longrightarrow> \<forall>v\<in>set vs. ok v \<Longrightarrow>
     \<exists>d'. de_many dec (length vs) d xs = Ok (xs @ vs, d') \<and> before d' s"
proof (induction vs arbitrary: d xs)
  case (Cons v vs)
  obtain d1 where d1: "dec d = Ok (v, d1)" "before d1 (concat (map enc vs) @ s)"
    using complete [of d v "concat (map enc vs) @ s"] Cons.prems by auto
  show ?case using Cons.IH [OF d1(2), of "xs @ [v]"] Cons.prems(2) d1(1) by simp
qed simp

lemma many_sound:
  "before d s \<Longrightarrow> de_many dec n d xs = Ok (ys, d') \<Longrightarrow>
     \<exists>vs r. ys = xs @ vs \<and> length vs = n \<and> s = concat (map enc vs) @ r \<and> before d' r \<and> (\<forall>v\<in>set vs. ok v)"
proof (induction n arbitrary: d s xs)
  case (Suc n)
  from Suc.prems(2) obtain v d1 where d1: "dec d = Ok (v, d1)" and rest: "de_many dec n d1 (xs @ [v]) = Ok (ys, d')"
    by (auto simp: res_simps)
  from sound [OF Suc.prems(1) d1] obtain r where r: "s = enc v @ r" "before d1 r" "ok v" by blast
  from Suc.IH [OF r(2) rest] obtain vs q where "ys = (xs @ [v]) @ vs" "length vs = n"
    "r = concat (map enc vs) @ q" "before d' q" "\<forall>v\<in>set vs. ok v" by blast
  then show ?case using r by (intro exI [of _ "v # vs"] exI [of _ q]) simp
qed simp

lemma many_total: "before d s \<Longrightarrow> de_many dec n d xs \<noteq> Panic"
proof (induction n arbitrary: d s xs)
  case (Suc n)
  show ?case
    using total [OF Suc.prems] sound [OF Suc.prems] Suc.IH
    by (auto simp: res_simps)
qed simp

end

section \<open>The pairs the formats are built from\<close>

lemma de_take_complete:
  assumes "before d (v @ s)" and "unat n = length v"
  shows "\<exists>d'. de_take n d = Ok (v, d') \<and> before d' s"
  using de_take_before [OF assms(1), of n] assms(2) by simp

lemma de_take_sound:
  assumes "before d s" and "de_take n d = Ok (v, d')"
  shows "\<exists>r. s = v @ r \<and> before d' r \<and> length v = unat n"
  using de_take_before [OF assms(1), of n] assms(2)
  by (auto split: if_splits intro!: exI [of _ "drop (unat n) s"])

lemma de_take_total: "before d s \<Longrightarrow> de_take n d \<noteq> Panic"
  by (simp add: de_take_before)

text \<open>A reader of a fixed number of bytes through a decoding that the encoding inverts.\<close>

lemma fixed_codec:
  assumes "\<And>d. dec d = rbind (de_take n d) (\<lambda>(s, d). Ok (f s, d))"
    and "\<And>v. length (g v) = unat n" and "\<And>v. f (g v) = v" and "\<And>s. length s = unat n \<Longrightarrow> g (f s) = s"
  shows "codec g dec (\<lambda>_. True)"
proof
  show "\<exists>d'. dec d = Ok (v, d') \<and> before d' s" if "before d (g v @ s)" for d v s
    using de_take_complete [OF that, of n] assms(1,2,3) by auto
  show "\<exists>r. s = g v @ r \<and> before d' r \<and> True" if "before d s" "dec d = Ok (v, d')" for d s v d'
    using de_take_sound [OF that(1), of n] that(2) assms(1,4) by (fastforce simp: res_simps)
  show "dec d \<noteq> Panic" if "before d s" for d s
    using de_take_total [OF that, of n] by (auto simp: assms(1) res_simps)
qed

interpretation u16_codec: codec to_be de_u16 "\<lambda>_. True"
  by (rule fixed_codec [where f = from_be and n = 2]) (simp_all add: de_u16_def to_be_from_be)

interpretation u32_codec: codec to_be de_u32 "\<lambda>_. True"
  by (rule fixed_codec [where f = from_be and n = 4]) (simp_all add: de_u32_def to_be_from_be)

lemma array_codec:
  fixes dec :: "Decoder \<Rightarrow> (DecodeError, 'n::len barr \<times> Decoder) res"
  assumes "\<And>d. dec d = rbind (de_take n d) (\<lambda>(s, d). rbind (unwrap (arr_try s)) (\<lambda>a. Ok (a, d)))"
    and "unat n = LENGTH('n)"
  shows "codec bs dec (\<lambda>_. True)"
proof
  show "\<exists>d'. dec d = Ok (v, d') \<and> before d' s" if "before d (bs v @ s)" for d and v :: "'n barr" and s
    using de_take_complete [OF that, of n] assms by (auto simp: arr_try_def)
  show "\<exists>r. s = bs v @ r \<and> before d' r \<and> True" if "before d s" "dec d = Ok (v, d')" for d s v d'
    using de_take_sound [OF that(1), of n] that(2) assms by (fastforce simp: res_simps arr_try_def split: if_splits)
  show "dec d \<noteq> Panic" if "before d s" for d s
    using de_take_total [OF that, of n] de_take_sound [OF that] assms
    by (fastforce simp: res_simps arr_try_def)
qed

interpretation bytes32_codec: codec bs de_bytes32 "\<lambda>_. True"
  by (rule array_codec [where n = 32]) (simp_all add: de_bytes32_def)

text \<open>BigSize: only the shortest form is read.\<close>

lemma bigsize_bytes_cases:
  obtains "v \<le> 0xfc" "bigsize_bytes v = [ucast v]"
  | "\<not> v \<le> 0xfc" "v \<le> 0xffff" "bigsize_bytes v = 0xfd # to_be (ucast v :: u16)"
  | "\<not> v \<le> 0xffff" "v \<le> 0xffffffff" "bigsize_bytes v = 0xfe # to_be (ucast v :: u32)"
  | "\<not> v \<le> 0xffffffff" "bigsize_bytes v = 0xff # to_be v"
proof -
  have "\<not> v \<le> 0xfc" if "\<not> v \<le> 0xffff" using that by (auto simp: word_le_nat_alt)
  moreover have "\<not> v \<le> 0xffff" if "\<not> v \<le> 0xffffffff" using that by (auto simp: word_le_nat_alt)
  ultimately show ?thesis using that by (auto simp: bigsize_bytes_def put_bigsize_def)
qed

lemma narrow_wide:
  "v \<le> 0xfc \<Longrightarrow> ucast (ucast v :: u8) = v \<and> (ucast v :: u8) \<le> 0xfc"
  "v \<le> 0xffff \<Longrightarrow> ucast (ucast v :: u16) = v"
  "v \<le> 0xffffffff \<Longrightarrow> ucast (ucast v :: u32) = v" for v :: u64
proof -
  show "ucast (ucast v :: u8) = v \<and> (ucast v :: u8) \<le> 0xfc" if "v \<le> 0xfc"
  proof -
    have "unat (ucast v :: u8) = unat v"
      using that by (simp add: unsigned_ucast_eq word_le_nat_alt take_bit_nat_eq_self)
    then show ?thesis using that by (simp add: word_unat_eq_iff word_le_nat_alt)
  qed
  show "ucast (ucast v :: u16) = v" if "v \<le> 0xffff"
  proof -
    have "unat (ucast v :: u16) = unat v"
      using that by (simp add: unsigned_ucast_eq word_le_nat_alt take_bit_nat_eq_self)
    then show ?thesis by (simp add: word_unat_eq_iff)
  qed
  show "ucast (ucast v :: u32) = v" if "v \<le> 0xffffffff"
  proof -
    have "unat (ucast v :: u32) = unat v"
      using that by (simp add: unsigned_ucast_eq word_le_nat_alt take_bit_nat_eq_self)
    then show ?thesis by (simp add: word_unat_eq_iff)
  qed
qed

text \<open>The width of the payload a first byte announces.\<close>

lemma de_bigsize_first:
  assumes "before d (x # t)"
  shows "de_bigsize d = (let d1 = d\<lparr>de_pos := de_pos d + 1\<rparr> in
     if x \<le> 0xfc then Ok (ucast x, d1)
     else if x = 0xfd then rbind (de_take 2 d1) (\<lambda>(s, d). let v = ucast (from_be s :: u16) in
       if v \<ge> 0xfd then Ok (v, d) else Err NonCanonicalBigSize)
     else if x = 0xfe then rbind (de_take 4 d1) (\<lambda>(s, d). let v = ucast (from_be s :: u32) in
       if v > 0xffff then Ok (v, d) else Err NonCanonicalBigSize)
     else rbind (de_take 8 d1) (\<lambda>(s, d). let v = from_be s in
       if v > 0xffffffff then Ok (v, d) else Err NonCanonicalBigSize))"
    and "before (d\<lparr>de_pos := de_pos d + 1\<rparr>) t"
proof -
  have t: "de_take 1 d = Ok ([x], d\<lparr>de_pos := de_pos d + 1\<rparr>)"
    using de_take_before(1) [OF assms, of 1] by simp
  show "before (d\<lparr>de_pos := de_pos d + 1\<rparr>) t"
    using de_take_before(2) [OF assms, of 1] by simp
  show "de_bigsize d = (let d1 = d\<lparr>de_pos := de_pos d + 1\<rparr> in
     if x \<le> 0xfc then Ok (ucast x, d1)
     else if x = 0xfd then rbind (de_take 2 d1) (\<lambda>(s, d). let v = ucast (from_be s :: u16) in
       if v \<ge> 0xfd then Ok (v, d) else Err NonCanonicalBigSize)
     else if x = 0xfe then rbind (de_take 4 d1) (\<lambda>(s, d). let v = ucast (from_be s :: u32) in
       if v > 0xffff then Ok (v, d) else Err NonCanonicalBigSize)
     else rbind (de_take 8 d1) (\<lambda>(s, d). let v = from_be s in
       if v > 0xffffffff then Ok (v, d) else Err NonCanonicalBigSize))"
    unfolding de_bigsize_def t
    by (auto simp: Let_def rbind_assoc split: prod.splits intro!: arg_cong [where f = "rbind _"])
qed

lemma de_bigsize_complete:
  assumes "before d (bigsize_bytes v @ s)"
  shows "\<exists>d'. de_bigsize d = Ok (v, d') \<and> before d' s"
proof (cases rule: bigsize_bytes_cases [of v])
  case 1
  then show ?thesis
    using de_bigsize_first [of d "ucast v" s] assms narrow_wide(1) by (simp add: Let_def)
next
  case 2
  have b: "before d (0xfd # to_be (ucast v :: u16) @ s)" using assms 2 by simp
  obtain d' where "de_take 2 (d\<lparr>de_pos := de_pos d + 1\<rparr>) = Ok (to_be (ucast v :: u16), d')" "before d' s"
    using de_take_complete [OF de_bigsize_first(2) [OF b], of 2] by auto
  moreover have "0xfd \<le> v" using 2(1) by (simp add: word_le_nat_alt)
  ultimately show ?thesis
    using de_bigsize_first(1) [OF b] narrow_wide(2) [OF 2(2)] by (auto simp: Let_def)
next
  case 3
  have b: "before d (0xfe # to_be (ucast v :: u32) @ s)" using assms 3 by simp
  obtain d' where "de_take 4 (d\<lparr>de_pos := de_pos d + 1\<rparr>) = Ok (to_be (ucast v :: u32), d')" "before d' s"
    using de_take_complete [OF de_bigsize_first(2) [OF b], of 4] by auto
  then show ?thesis
    using de_bigsize_first(1) [OF b] narrow_wide(3) [OF 3(2)] 3(1)
    by (auto simp: Let_def not_le)
next
  case 4
  have b: "before d (0xff # to_be v @ s)" using assms 4 by simp
  obtain d' where "de_take 8 (d\<lparr>de_pos := de_pos d + 1\<rparr>) = Ok (to_be v, d')" "before d' s"
    using de_take_complete [OF de_bigsize_first(2) [OF b], of 8] by auto
  then show ?thesis
    using de_bigsize_first(1) [OF b] 4(1) by (auto simp: Let_def not_le)
qed

lemma bigsize_bytes_wide:
  "0xfd \<le> (ucast w2 :: u64) \<Longrightarrow> bigsize_bytes (ucast w2) = 0xfd # to_be (w2 :: u16)"
  "0xffff < (ucast w4 :: u64) \<Longrightarrow> bigsize_bytes (ucast w4) = 0xfe # to_be (w4 :: u32)"
  "0xffffffff < w8 \<Longrightarrow> bigsize_bytes w8 = 0xff # to_be (w8 :: u64)"
proof -
  have c: "(ucast (ucast w2 :: u64) :: u16) = w2" "(ucast (ucast w4 :: u64) :: u32) = w4"
    by (rule bit_word_eqI, auto simp: bit_simps)+
  have b: "unat w2 \<le> 65535" "unat w4 \<le> 4294967295"
    using unat_lt_u16 [of w2] unat_lt_u32 [of w4] by linarith+
  show "0xfd \<le> (ucast w2 :: u64) \<Longrightarrow> bigsize_bytes (ucast w2) = 0xfd # to_be (w2 :: u16)"
    using b(1) by (auto simp: bigsize_bytes_def put_bigsize_def c word_le_nat_alt)
  show "0xffff < (ucast w4 :: u64) \<Longrightarrow> bigsize_bytes (ucast w4) = 0xfe # to_be (w4 :: u32)"
    using b(2) by (auto simp: bigsize_bytes_def put_bigsize_def c word_le_nat_alt word_less_nat_alt)
  show "0xffffffff < w8 \<Longrightarrow> bigsize_bytes w8 = 0xff # to_be (w8 :: u64)"
    by (auto simp: bigsize_bytes_def put_bigsize_def word_le_nat_alt word_less_nat_alt)
qed

lemma de_bigsize_sound:
  assumes "before d s" and "de_bigsize d = Ok (v, d')"
  shows "\<exists>r. s = bigsize_bytes v @ r \<and> before d' r"
proof (cases s)
  case Nil
  then have "de_take 1 d = Err Truncated" using de_take_before [OF assms(1), of 1] by simp
  then show ?thesis using assms(2) by (simp add: de_bigsize_def)
next
  case (Cons x t)
  have b: "before d (x # t)" using assms(1) Cons by simp
  let ?d = "d\<lparr>de_pos := de_pos d + 1\<rparr>"
  note first = de_bigsize_first(1) [OF b] and b1 = de_bigsize_first(2) [OF b]
  consider "x \<le> 0xfc" | "\<not> x \<le> 0xfc" "x = 0xfd" | "\<not> x \<le> 0xfc" "x = 0xfe" | "\<not> x \<le> 0xfc" "x \<noteq> 0xfd" "x \<noteq> 0xfe"
    by blast
  then show ?thesis
  proof cases
    case 1
    then have "v = ucast x" "d' = ?d" using assms(2) first by (simp_all add: Let_def)
    moreover have "(ucast (ucast x :: u64) :: u8) = x" by (rule bit_word_eqI) (auto simp: bit_simps)
    moreover have "(ucast x :: u64) \<le> 0xfc" using 1 by (simp add: word_le_nat_alt)
    ultimately show ?thesis using b1 Cons by (simp add: bigsize_bytes_def put_bigsize_def)
  next
    case 2
    then obtain u where u: "de_take 2 ?d = Ok (u, d')" "v = ucast (from_be u :: u16)" "0xfd \<le> v"
      using assms(2) first by (auto simp: Let_def res_simps split: if_splits)
    obtain r where "t = u @ r" "before d' r" "length u = 2" using de_take_sound [OF b1 u(1)] by auto
    then show ?thesis using u(2,3) 2 Cons by (auto simp: bigsize_bytes_wide to_be_from_be)
  next
    case 3
    then obtain u where u: "de_take 4 ?d = Ok (u, d')" "v = ucast (from_be u :: u32)" "0xffff < v"
      using assms(2) first by (auto simp: Let_def res_simps split: if_splits)
    obtain r where "t = u @ r" "before d' r" "length u = 4" using de_take_sound [OF b1 u(1)] by auto
    then show ?thesis using u(2,3) 3 Cons by (auto simp: bigsize_bytes_wide to_be_from_be)
  next
    case 4
    have "unat x \<le> 255" using unat_lt_u8 [of x] by linarith
    then have "x = 0xff" using 4 by (auto simp: word_le_nat_alt word_unat_eq_iff)
    moreover obtain u where u: "de_take 8 ?d = Ok (u, d')" "v = from_be u" "0xffffffff < v"
      using 4 assms(2) first by (auto simp: Let_def res_simps split: if_splits)
    moreover obtain r where "t = u @ r" "before d' r" "length u = 8" using de_take_sound [OF b1 u(1)] by auto
    ultimately show ?thesis using Cons by (auto simp: bigsize_bytes_wide to_be_from_be)
  qed
qed

interpretation bigsize_codec: codec bigsize_bytes de_bigsize "\<lambda>_. True"
proof
  show "\<exists>d'. de_bigsize d = Ok (v, d') \<and> before d' s" if "before d (bigsize_bytes v @ s)" for d v s
    using that by (rule de_bigsize_complete)
  show "\<exists>r. s = bigsize_bytes v @ r \<and> before d' r \<and> True" if "before d s" "de_bigsize d = Ok (v, d')" for d s v d'
    using de_bigsize_sound [OF that] by simp
  show "de_bigsize d \<noteq> Panic" if b: "before d s" for d s
  proof (cases s)
    case Nil
    then show ?thesis using de_take_before [OF b, of 1] by (simp add: de_bigsize_def)
  next
    case (Cons x t)
    then have b: "before d (x # t)" using b by simp
    show ?thesis
      unfolding de_bigsize_first(1) [OF b] Let_def
      using de_take_total [OF de_bigsize_first(2) [OF b]] by (auto simp: res_simps)
  qed
qed

interpretation varbytes_codec: codec varbytes_bytes de_varbytes "\<lambda>v. length v < 2 ^ 64"
proof
  show "\<exists>d'. de_varbytes d = Ok (v, d') \<and> before d' s"
    if b: "before d (varbytes_bytes v @ s)" "length v < 2 ^ 64" for d v s
  proof -
    obtain d1 where d1: "de_bigsize d = Ok (word_of_nat (length v), d1)" "before d1 (v @ s)"
      using de_bigsize_complete [of d "word_of_nat (length v)" "v @ s"] b(1) by (auto simp: varbytes_bytes_def)
    have "unat (word_of_nat (length v) :: u64) = length v" using b(2) by (simp add: unat_word_of_nat)
    then show ?thesis using de_take_complete [OF d1(2)] d1(1) by (simp add: de_varbytes_def)
  qed
  show "\<exists>r. s = varbytes_bytes v @ r \<and> before d' r \<and> length v < 2 ^ 64"
    if b: "before d s" "de_varbytes d = Ok (v, d')" for d s v d'
  proof -
    obtain n d1 where n: "de_bigsize d = Ok (n, d1)" "de_take n d1 = Ok (v, d')"
      using b(2) by (auto simp: de_varbytes_def res_simps)
    obtain t where t: "s = bigsize_bytes n @ t" "before d1 t" using de_bigsize_sound [OF b(1) n(1)] by blast
    obtain r where "t = v @ r" "before d' r" "length v = unat n" using de_take_sound [OF t(2) n(2)] by blast
    then show ?thesis using t(1) by (auto simp: varbytes_bytes_def)
  qed
  show "de_varbytes d \<noteq> Panic" if "before d s" for d s
    using bigsize_codec.total [OF that] bigsize_codec.sound [OF that] de_take_total
    by (fastforce simp: de_varbytes_def res_simps)
qed

interpretation string_codec: codec varbytes_bytes de_string "\<lambda>v. length v < 2 ^ 64 \<and> utf8_ok v"
proof
  show "\<exists>d'. de_string d = Ok (v, d') \<and> before d' s"
    if "before d (varbytes_bytes v @ s)" "length v < 2 ^ 64 \<and> utf8_ok v" for d v s
    using varbytes_codec.complete [OF that(1)] that(2) by (auto simp: de_string_def)
  show "\<exists>r. s = varbytes_bytes v @ r \<and> before d' r \<and> length v < 2 ^ 64 \<and> utf8_ok v"
    if "before d s" "de_string d = Ok (v, d')" for d s v d'
    using varbytes_codec.sound [OF that(1)] that(2) by (auto simp: de_string_def res_simps split: if_splits)
  show "de_string d \<noteq> Panic" if "before d s" for d s
    using varbytes_codec.total [OF that] by (auto simp: de_string_def res_simps split: if_splits)
qed


definition tag_input :: "crypto \<Rightarrow> string \<Rightarrow> bytes \<Rightarrow> bytes" where
  "tag_input C tag msg = (let t = bs (sha256 C [ascii tag]) in t @ t @ msg)"

lemma tagged_collision:
  assumes "rail_tagged_hash C tag x = rail_tagged_hash C tag y" and "x \<noteq> y"
  shows "sha_collides C (tag_input C tag x, tag_input C tag y)"
  using assms by (simp add: sha_collides_def tag_input_def rail_tagged_hash_def sha256_def Let_def)

lemma barr_append_peel: "bs a @ r = bs b @ s \<longleftrightarrow> a = b \<and> r = s" for a b :: "'n::len barr"
  by (simp add: bs_inject)

end
