(* ===== verification/Rail.thy ===== *)
theory Rail
  imports RailCode
begin

text \<open>
  The rail standard (\<^verbatim>\<open>satusd-rail\<close>): the capacity formula, the phase machine of a conversion, the
  quote, the asset metadata, and the manifest with its identity. Shown here: a rail's capacity
  never exceeds half of what its operator has sunk, a conversion ends in exactly one of its two
  outcomes and never in both, and an identity commits to every field of a manifest.
\<close>

section \<open>Capacity (\<^verbatim>\<open>capacity.rs\<close>)\<close>

definition ALPHA_NUM :: u128 where "ALPHA_NUM = 1"
definition ALPHA_DEN :: u128 where "ALPHA_DEN = 2"

definition capacity_sats :: "u64 \<Rightarrow> u64 \<Rightarrow> u64" where
  "capacity_sats retained_fees_cum_sats lp_stake_sats =
     (let sunk = ucast retained_fees_cum_sats + ucast lp_stake_sats
      in ucast ((sunk * ALPHA_NUM) div ALPHA_DEN))"

section \<open>Phases (\<^verbatim>\<open>state.rs\<close>)\<close>

datatype Phase = Quoted | Locked | Settled | Refunded

text \<open>\<^verbatim>\<open>Phase::{Quote, Lock, Settle, Refund}\<close>.\<close>

fun may_transition :: "Phase \<Rightarrow> Phase \<Rightarrow> bool \<Rightarrow> bool" where
  "may_transition Quoted Locked collapsed = (\<not> collapsed)"
| "may_transition Quoted Settled collapsed = collapsed"
| "may_transition Locked Settled collapsed = (\<not> collapsed)"
| "may_transition Locked Refunded collapsed = (\<not> collapsed)"
| "may_transition _ _ _ = False"

definition is_terminal :: "Phase \<Rightarrow> bool" where
  "is_terminal p \<longleftrightarrow> p = Settled \<or> p = Refunded"

section \<open>The quote (\<^verbatim>\<open>quote.rs\<close>)\<close>

definition QUOTE_TAG :: string where "QUOTE_TAG = ''SatUSD/quote/v1''"

record Quote =
  qt_rail_id :: b32
  qt_price_msat_per_usd :: u64
  qt_amount_micro_usd :: u64
  qt_expiry_unix_s :: u64
  qt_lock_template_commitment :: b32

definition quote_encode :: "Quote \<Rightarrow> bytes" where
  "quote_encode q = emit [
     put_bytes32 (qt_rail_id q),
     put_u64 (qt_price_msat_per_usd q),
     put_u64 (qt_amount_micro_usd q),
     put_u64 (qt_expiry_unix_s q),
     put_bytes32 (qt_lock_template_commitment q)] []"

definition signing_payload :: "crypto \<Rightarrow> Quote \<Rightarrow> b32" where
  "signing_payload C q = rail_tagged_hash C QUOTE_TAG (quote_encode q)"

definition user_sats :: "Quote \<Rightarrow> u64" where
  "user_sats q =
     (let prod = ucast (qt_amount_micro_usd q) * ucast (qt_price_msat_per_usd q) :: u128
      in if unat (prod div 1000000000) < 2 ^ 64 then ucast (prod div 1000000000) else - 1)"

section \<open>Asset metadata (\<^verbatim>\<open>asset_meta.rs\<close>)\<close>

definition ASSET_SPEC_VERSION :: u16 where "ASSET_SPEC_VERSION = 1"
definition ASSET_NAME :: string where "ASSET_NAME = ''SatUSD''"
definition ASSET_DECIMALS :: u8 where "ASSET_DECIMALS = 6"

record AssetMeta =
  am_spec_version :: u16
  am_name :: bytes
  am_decimals :: u8
  am_mission_commitment :: b32

definition asset_meta_genesis :: "b32 \<Rightarrow> AssetMeta" where
  "asset_meta_genesis mission_commitment =
     \<lparr>am_spec_version = ASSET_SPEC_VERSION, am_name = ascii ASSET_NAME,
      am_decimals = ASSET_DECIMALS, am_mission_commitment = mission_commitment\<rparr>"

definition asset_meta_encode :: "AssetMeta \<Rightarrow> bytes" where
  "asset_meta_encode m = emit [
     put_u16 (am_spec_version m),
     put_string (am_name m),
     put_u8 (am_decimals m),
     put_bytes32 (am_mission_commitment m)] []"

section \<open>The manifest (\<^verbatim>\<open>manifest.rs\<close>)\<close>

definition RAIL_ID_TAG :: string where "RAIL_ID_TAG = ''SatUSD/rail-manifest/v1''"
definition SPEC_VERSION :: u16 where "SPEC_VERSION = 1"

datatype Direction = Redeem | Mint | Both

primrec direction_as_u8 :: "Direction \<Rightarrow> u8" where
  "direction_as_u8 Redeem = 0"
| "direction_as_u8 Mint = 1"
| "direction_as_u8 Both = 2"

record EventTemplate =
  et_pair :: bytes
  et_cadence_s :: u32
  et_base :: u16
  et_nb_digits :: u16
  et_is_signed :: bool
  et_precision :: u32
  et_unit :: bytes

definition btcusd_default :: EventTemplate where
  "btcusd_default =
     \<lparr>et_pair = ascii ''BTCUSD'', et_cadence_s = 1, et_base = 2, et_nb_digits = 20,
      et_is_signed = False, et_precision = 0, et_unit = ascii ''USD/BTC''\<rparr>"

definition encode_EventTemplate :: "EventTemplate \<Rightarrow> encoder \<Rightarrow> encoder" where
  "encode_EventTemplate t = emit [
     put_string (et_pair t),
     put_u32 (et_cadence_s t),
     put_u16 (et_base t),
     put_u16 (et_nb_digits t),
     put_bool (et_is_signed t),
     put_i32 (et_precision t),
     put_string (et_unit t)]"

datatype OracleSpec =
    NoOracle
  | Dlcspecs (ds_k: u16) (ds_n: u16) (ds_oracle_pubkeys: "b32 list") (ds_event_template: EventTemplate)
  | Optimistic u32 u64
  | InternalTwap u32 u64

text \<open>\<^verbatim>\<open>OracleSpec::None\<close> is \<open>NoOracle\<close>; likewise \<open>NoEscape\<close> below.\<close>

primrec encode_OracleSpec :: "OracleSpec \<Rightarrow> encoder \<Rightarrow> encoder" where
  "encode_OracleSpec NoOracle = put_u8 0"
| "encode_OracleSpec (Dlcspecs k n oracle_pubkeys event_template) = emit [
     put_u8 1, put_u16 k, put_u16 n,
     put_bigsize (word_of_nat (length oracle_pubkeys)),
     fold put_bytes32 oracle_pubkeys,
     encode_EventTemplate event_template]"
| "encode_OracleSpec (Optimistic window_blocks bond_sats) = emit [
     put_u8 2, put_u32 window_blocks, put_u64 bond_sats]"
| "encode_OracleSpec (InternalTwap window_blocks min_volume_usd) = emit [
     put_u8 3, put_u32 window_blocks, put_u64 min_volume_usd]"

datatype SettlePrimitive = AtomicSwap | DlcTaproot | OptimisticClaim

primrec settle_primitive_as_u8 :: "SettlePrimitive \<Rightarrow> u8" where
  "settle_primitive_as_u8 AtomicSwap = 0"
| "settle_primitive_as_u8 DlcTaproot = 1"
| "settle_primitive_as_u8 OptimisticClaim = 2"

record FeeSchedule =
  fs_retain_bps :: u16
  fs_service_bps :: u16
  fs_fixed_sats :: u64

record LpStake =
  ls_amount_sats :: u64
  ls_slash_conditions :: "b32 list"

datatype LivenessEscape = NoEscape | Tlock b32 u32 | DecayScript bytes

primrec encode_LivenessEscape :: "LivenessEscape \<Rightarrow> encoder \<Rightarrow> encoder" where
  "encode_LivenessEscape NoEscape = put_u8 0"
| "encode_LivenessEscape (Tlock beacon delay_s) = emit [put_u8 1, put_bytes32 beacon, put_u32 delay_s]"
| "encode_LivenessEscape (DecayScript params) = emit [put_u8 2, put_varbytes params]"

datatype Transition = LockT | SettleT | RefundT | DisputeT

text \<open>\<^verbatim>\<open>Transition::{Lock, Settle, Refund, Dispute}\<close>, ordered as declared.\<close>

primrec transition_as_u8 :: "Transition \<Rightarrow> u8" where
  "transition_as_u8 LockT = 0"
| "transition_as_u8 SettleT = 1"
| "transition_as_u8 RefundT = 2"
| "transition_as_u8 DisputeT = 3"

datatype AutomationTier = Consensus | AnyoneCanAct | FederationCrypto

primrec automation_tier_as_u8 :: "AutomationTier \<Rightarrow> u8" where
  "automation_tier_as_u8 Consensus = 1"
| "automation_tier_as_u8 AnyoneCanAct = 2"
| "automation_tier_as_u8 FederationCrypto = 3"

record RailManifest =
  rm_spec_version :: u16
  rm_direction :: Direction
  rm_asset_id :: b32
  rm_oracle_spec :: OracleSpec
  rm_settle_primitive :: SettlePrimitive
  rm_max_size_sats :: u64
  rm_committed_term :: u32
  rm_fee_schedule :: FeeSchedule
  rm_price_dev_bound_bps :: u16
  rm_quote_validity_s :: u32
  rm_settle_window_s :: u32
  rm_refund_delta_blocks :: u32
  rm_lp_stake :: LpStake
  rm_dispute_hook :: b32
  rm_liveness_escape :: LivenessEscape
  rm_automation_tiers :: "(Transition \<times> AutomationTier) list"

definition put_tier :: "Transition \<times> AutomationTier \<Rightarrow> encoder \<Rightarrow> encoder" where
  "put_tier p = emit [put_u8 (transition_as_u8 (fst p)), put_u8 (automation_tier_as_u8 (snd p))]"

definition sorted_tiers :: "RailManifest \<Rightarrow> (Transition \<times> AutomationTier) list" where
  "sorted_tiers m = sort_key (\<lambda>(t, _). transition_as_u8 t) (rm_automation_tiers m)"

definition manifest_encode :: "RailManifest \<Rightarrow> bytes" where
  "manifest_encode m = emit [
     put_u16 (rm_spec_version m),
     put_u8 (direction_as_u8 (rm_direction m)),
     put_bytes32 (rm_asset_id m),
     encode_OracleSpec (rm_oracle_spec m),
     put_u8 (settle_primitive_as_u8 (rm_settle_primitive m)),
     put_u64 (rm_max_size_sats m),
     put_u32 (rm_committed_term m),
     put_u16 (fs_retain_bps (rm_fee_schedule m)),
     put_u16 (fs_service_bps (rm_fee_schedule m)),
     put_u64 (fs_fixed_sats (rm_fee_schedule m)),
     put_u16 (rm_price_dev_bound_bps m),
     put_u32 (rm_quote_validity_s m),
     put_u32 (rm_settle_window_s m),
     put_u32 (rm_refund_delta_blocks m),
     put_u64 (ls_amount_sats (rm_lp_stake m)),
     put_bigsize (word_of_nat (length (ls_slash_conditions (rm_lp_stake m)))),
     fold put_bytes32 (ls_slash_conditions (rm_lp_stake m)),
     put_bytes32 (rm_dispute_hook m),
     encode_LivenessEscape (rm_liveness_escape m),
     put_bigsize (word_of_nat (length (sorted_tiers m))),
     fold put_tier (sorted_tiers m)] []"

definition rail_id :: "crypto \<Rightarrow> RailManifest \<Rightarrow> b32" where
  "rail_id C m = rail_tagged_hash C RAIL_ID_TAG (manifest_encode m)"

section \<open>Capacity in numbers\<close>

lemma capacity_value:
  "unat (capacity_sats fees stake) = (unat fees + unat stake) div 2"
proof -
  have "(unat fees + unat stake) div 2 < 2 ^ 64"
    using unat_le_u64 [of fees] unat_le_u64 [of stake] by simp
  then show ?thesis
    by (simp add: capacity_sats_def Let_def ALPHA_NUM_def ALPHA_DEN_def narrow_u64 unat_div)
qed

lemma user_sats_value:
  "unat (user_sats q) = min (unat (qt_amount_micro_usd q) * unat (qt_price_msat_per_usd q) div 10 ^ 9) (2 ^ 64 - 1)"
  by (auto simp: user_sats_def Let_def narrow_u64 unat_div unat_max_u64 min_def)

section \<open>A conversion\<close>

text \<open>The phases a conversion passes, from the quote on, and its outcomes.\<close>

inductive conversion :: "bool \<Rightarrow> Phase list \<Rightarrow> bool" for collapsed where
  conversion_start: "conversion collapsed [Quoted]"
| conversion_step: "conversion collapsed (ps @ [p]) \<Longrightarrow> may_transition p q collapsed \<Longrightarrow>
    conversion collapsed (ps @ [p, q])"

lemma terminal_exit: "is_terminal p \<longleftrightarrow> (\<forall>q. \<not> may_transition p q collapsed)" if "p \<noteq> Locked \<or> \<not> collapsed"
  using that by (cases p; cases collapsed) (auto simp: is_terminal_def intro: exI [of _ Locked] exI [of _ Settled])

lemma conversion_paths:
  "conversion collapsed ps \<longleftrightarrow>
     ps \<in> (if collapsed then {[Quoted], [Quoted, Settled]}
           else {[Quoted], [Quoted, Locked], [Quoted, Locked, Settled], [Quoted, Locked, Refunded]})"
proof
  assume "conversion collapsed ps"
  then show "ps \<in> (if collapsed then {[Quoted], [Quoted, Settled]}
           else {[Quoted], [Quoted, Locked], [Quoted, Locked, Settled], [Quoted, Locked, Refunded]})"
  proof induction
    case (conversion_step ps p q)
    then show ?case by (cases p; cases q; cases collapsed) (auto simp: append_eq_Cons_conv)
  qed simp
next
  have q: "conversion c ([] @ [Quoted])" for c by (simp add: conversion_start)
  have s: "conversion True ([] @ [Quoted, Settled])" by (rule conversion_step [OF q]) simp
  have l: "conversion False ([] @ [Quoted, Locked])" by (rule conversion_step [OF q]) simp
  then have l': "conversion False ([Quoted] @ [Locked])" by simp
  have "conversion False ([Quoted] @ [Locked, Settled])" "conversion False ([Quoted] @ [Locked, Refunded])"
    by (rule conversion_step [OF l'], simp)+
  moreover assume "ps \<in> (if collapsed then {[Quoted], [Quoted, Settled]}
           else {[Quoted], [Quoted, Locked], [Quoted, Locked, Settled], [Quoted, Locked, Refunded]})"
  ultimately show "conversion collapsed ps" using q [of collapsed] s l by (auto split: if_splits)
qed

section \<open>Peeling one field off a string\<close>

lemma bigsize_peel [simp]: "bigsize_bytes v @ r = bigsize_bytes w @ s \<longleftrightarrow> v = w \<and> r = s"
proof
  assume e: "bigsize_bytes v @ r = bigsize_bytes w @ s"
  have h: "(ucast x :: u8) \<noteq> 0xfd \<and> (ucast x :: u8) \<noteq> 0xfe \<and> (ucast x :: u8) \<noteq> 0xff \<and>
      0xfd \<noteq> (ucast x :: u8) \<and> 0xfe \<noteq> (ucast x :: u8) \<and> 0xff \<noteq> (ucast x :: u8)" if "x \<le> 0xfc" for x :: u64
    using narrow_wide(1) [OF that] by (auto simp: word_le_nat_alt)
  have n8: "v = w" if "v \<le> 0xfc" "w \<le> 0xfc" "(ucast v :: u8) = ucast w"
    using narrow_wide(1) [OF that(1)] narrow_wide(1) [OF that(2)] that(3) by metis
  have n16: "v = w" if "v \<le> 0xffff" "w \<le> 0xffff" "(ucast v :: u16) = ucast w"
    using narrow_wide(2) [OF that(1)] narrow_wide(2) [OF that(2)] that(3) by metis
  have n32: "v = w" if "v \<le> 0xffffffff" "w \<le> 0xffffffff" "(ucast v :: u32) = ucast w"
    using narrow_wide(3) [OF that(1)] narrow_wide(3) [OF that(2)] that(3) by metis
  show "v = w \<and> r = s"
  proof (cases rule: bigsize_bytes_cases [of v])
    case 1
    then show ?thesis using e h n8 by (cases rule: bigsize_bytes_cases [of w]) simp_all
  next
    case 2
    then show ?thesis using e h n16 by (cases rule: bigsize_bytes_cases [of w]) simp_all
  next
    case 3
    then show ?thesis using e h n32 by (cases rule: bigsize_bytes_cases [of w]) simp_all
  next
    case 4
    then show ?thesis using e h by (cases rule: bigsize_bytes_cases [of w]) simp_all
  qed
qed simp

lemma word64_of_nat_inject:
  assumes "(word_of_nat m :: u64) = word_of_nat n" and "m < 2 ^ 64" and "n < 2 ^ 64"
  shows "m = n"
proof -
  have u: "unat (word_of_nat k :: u64) = k" if "k < 2 ^ 64" for k
    using that by (intro unat_word_of_nat) simp
  show ?thesis using u [OF assms(2)] u [OF assms(3)] unfolding assms(1) by (rule trans [OF sym])
qed

lemma varbytes_peel:
  assumes "length x < 2 ^ 64" and "length y < 2 ^ 64"
  shows "varbytes_bytes x @ r = varbytes_bytes y @ s \<longleftrightarrow> x = y \<and> r = s"
proof
  assume e: "varbytes_bytes x @ r = varbytes_bytes y @ s"
  then have "(word_of_nat (length x) :: u64) = word_of_nat (length y)" "x @ r = y @ s"
    by (simp_all add: varbytes_bytes_def)
  moreover have "length x = length y"
    by (rule word64_of_nat_inject [OF calculation(1) assms])
  ultimately show "x = y \<and> r = s" by simp
qed simp

section \<open>What an identity commits to\<close>

lemma fold_bytes32_bytes [put_simps]: "fold put_bytes32 xs e = e @ concat (map bs xs)"
  by (rule fold_appends) (simp add: put_bytes32_def)

lemma put_tier_bytes:
  "put_tier p e = e @ [transition_as_u8 (fst p), automation_tier_as_u8 (snd p)]"
  by (simp add: put_tier_def put_simps)

lemma fold_tier_bytes [put_simps]:
  "fold put_tier ps e = e @ concat (map (\<lambda>p. [transition_as_u8 (fst p), automation_tier_as_u8 (snd p)]) ps)"
  by (rule fold_appends) (rule put_tier_bytes)

lemma transition_as_u8_inject [simp]: "transition_as_u8 t = transition_as_u8 u \<longleftrightarrow> t = u"
  by (cases t; cases u) simp_all

lemma automation_tier_as_u8_inject [simp]: "automation_tier_as_u8 t = automation_tier_as_u8 u \<longleftrightarrow> t = u"
  by (cases t; cases u) simp_all

lemma direction_as_u8_inject [simp]: "direction_as_u8 t = direction_as_u8 u \<longleftrightarrow> t = u"
  by (cases t; cases u) simp_all

lemma settle_primitive_as_u8_inject [simp]: "settle_primitive_as_u8 t = settle_primitive_as_u8 u \<longleftrightarrow> t = u"
  by (cases t; cases u) simp_all

lemma counted_peel:
  assumes "self_delimiting (\<lambda>_. True) g" and "length xs < 2 ^ 64" and "length ys < 2 ^ 64"
  shows "bigsize_bytes (word_of_nat (length xs)) @ concat (map g xs) @ r
       = bigsize_bytes (word_of_nat (length ys)) @ concat (map g ys) @ s \<longleftrightarrow> xs = ys \<and> r = s"
proof
  assume "bigsize_bytes (word_of_nat (length xs)) @ concat (map g xs) @ r
       = bigsize_bytes (word_of_nat (length ys)) @ concat (map g ys) @ s"
  then have n: "(word_of_nat (length xs) :: u64) = word_of_nat (length ys)"
    and c: "concat (map g xs) @ r = concat (map g ys) @ s" by simp_all
  show "xs = ys \<and> r = s"
    using concat_self_delimiting [OF assms(1) word64_of_nat_inject [OF n assms(2,3)] _ _ c] by simp
qed simp

lemmas bytes32_list_peel = counted_peel [OF barr_self_delimiting]

lemma tier_list_peel:
  assumes "length xs < 2 ^ 64" and "length ys < 2 ^ 64"
  shows "bigsize_bytes (word_of_nat (length xs)) @
      concat (map (\<lambda>p. [transition_as_u8 (fst p), automation_tier_as_u8 (snd p)]) xs) @ r
    = bigsize_bytes (word_of_nat (length ys)) @
      concat (map (\<lambda>p. [transition_as_u8 (fst p), automation_tier_as_u8 (snd p)]) ys) @ s \<longleftrightarrow> xs = ys \<and> r = s"
  by (rule counted_peel [OF _ assms]) (rule self_delimitingI, auto simp: prod_eq_iff)

definition event_template_ok :: "EventTemplate \<Rightarrow> bool" where
  "event_template_ok t \<longleftrightarrow> length (et_pair t) < 2 ^ 64 \<and> length (et_unit t) < 2 ^ 64"

interpretation event_template_code: prefix_code encode_EventTemplate event_template_ok
proof
  show "encode_EventTemplate x e = e @ encode_EventTemplate x []" for x e
    by (simp add: encode_EventTemplate_def put_simps)
next
  fix x y :: EventTemplate and r s
  assume "event_template_ok x" "event_template_ok y" "encode_EventTemplate x [] @ r = encode_EventTemplate y [] @ s"
  then show "x = y \<and> r = s"
    by (simp add: encode_EventTemplate_def put_simps event_template_ok_def varbytes_peel EventTemplate.equality split: if_splits)
qed

primrec oracle_spec_ok :: "OracleSpec \<Rightarrow> bool" where
  "oracle_spec_ok NoOracle = True"
| "oracle_spec_ok (Dlcspecs k n pks t) = (length pks < 2 ^ 64 \<and> event_template_ok t)"
| "oracle_spec_ok (Optimistic w b) = True"
| "oracle_spec_ok (InternalTwap w v) = True"

interpretation oracle_spec_code: prefix_code encode_OracleSpec oracle_spec_ok
proof
  show a: "encode_OracleSpec x e = e @ encode_OracleSpec x []" for x e
    by (cases x) (simp_all add: put_simps event_template_code.appends [of _ "_ @ _"] event_template_code.appends [of _ "_ # _"])
  fix x y :: OracleSpec and r s
  assume ok: "oracle_spec_ok x" "oracle_spec_ok y" and e: "encode_OracleSpec x [] @ r = encode_OracleSpec y [] @ s"
  show "x = y \<and> r = s"
  proof (cases x; cases y)
    fix k n pks t k' n' pks' t'
    assume xy: "x = Dlcspecs k n pks t" "y = Dlcspecs k' n' pks' t'"
    have enc: "encode_OracleSpec (Dlcspecs k n pks t) [] = 1 # to_be k @ to_be n @
        bigsize_bytes (word_of_nat (length pks)) @ concat (map bs pks) @ encode_EventTemplate t []" for k n pks t
      by (simp add: put_simps event_template_code.appends [of _ "_ @ _"] event_template_code.appends [of _ "_ # _"])
    show ?thesis
      using e ok unfolding xy enc
      by (simp add: bytes32_list_peel del: bigsize_peel) (use event_template_code.delimits [of t t' r s] in blast)
  qed (use e in \<open>simp_all add: put_simps event_template_code.appends [of _ "_ @ _"] event_template_code.appends [of _ "_ # _"]\<close>)
qed

primrec escape_ok :: "LivenessEscape \<Rightarrow> bool" where
  "escape_ok NoEscape = True"
| "escape_ok (Tlock b d) = True"
| "escape_ok (DecayScript p) = (length p < 2 ^ 64)"

interpretation escape_code: prefix_code encode_LivenessEscape escape_ok
proof
  show "encode_LivenessEscape x e = e @ encode_LivenessEscape x []" for x e
    by (cases x) (simp_all add: put_simps)
next
  fix x y :: LivenessEscape and r s
  assume "escape_ok x" "escape_ok y" "encode_LivenessEscape x [] @ r = encode_LivenessEscape y [] @ s"
  then show "x = y \<and> r = s"
    by (cases x; cases y) (simp_all add: put_simps varbytes_peel)
qed

definition manifest_ok :: "RailManifest \<Rightarrow> bool" where
  "manifest_ok m \<longleftrightarrow> oracle_spec_ok (rm_oracle_spec m) \<and> escape_ok (rm_liveness_escape m) \<and>
     length (ls_slash_conditions (rm_lp_stake m)) < 2 ^ 64 \<and> length (rm_automation_tiers m) < 2 ^ 64"

text \<open>The manifest with its tiers in the order they are encoded in.\<close>

definition normalised :: "RailManifest \<Rightarrow> RailManifest" where
  "normalised m = m\<lparr>rm_automation_tiers := sorted_tiers m\<rparr>"

lemma manifest_bytes:
  "manifest_encode m =
     to_be (rm_spec_version m) @ [direction_as_u8 (rm_direction m)] @ bs (rm_asset_id m) @
     encode_OracleSpec (rm_oracle_spec m) [] @ [settle_primitive_as_u8 (rm_settle_primitive m)] @
     to_be (rm_max_size_sats m) @ to_be (rm_committed_term m) @
     to_be (fs_retain_bps (rm_fee_schedule m)) @ to_be (fs_service_bps (rm_fee_schedule m)) @
     to_be (fs_fixed_sats (rm_fee_schedule m)) @ to_be (rm_price_dev_bound_bps m) @
     to_be (rm_quote_validity_s m) @ to_be (rm_settle_window_s m) @ to_be (rm_refund_delta_blocks m) @
     to_be (ls_amount_sats (rm_lp_stake m)) @
     bigsize_bytes (word_of_nat (length (ls_slash_conditions (rm_lp_stake m)))) @
     concat (map bs (ls_slash_conditions (rm_lp_stake m))) @ bs (rm_dispute_hook m) @
     encode_LivenessEscape (rm_liveness_escape m) [] @
     bigsize_bytes (word_of_nat (length (sorted_tiers m))) @
     concat (map (\<lambda>p. [transition_as_u8 (fst p), automation_tier_as_u8 (snd p)]) (sorted_tiers m)) @ []"
  unfolding manifest_encode_def
  by (simp add: put_simps oracle_spec_code.appends [of _ "_ @ _"] escape_code.appends [of _ "_ @ _"])

lemma manifest_encode_inject:
  assumes "manifest_ok m" and "manifest_ok m'" and "manifest_encode m = manifest_encode m'"
  shows "normalised m = normalised m'"
proof -
  have o: "encode_OracleSpec (rm_oracle_spec m) [] @ r = encode_OracleSpec (rm_oracle_spec m') [] @ s
      \<longleftrightarrow> rm_oracle_spec m = rm_oracle_spec m' \<and> r = s" for r s
    using oracle_spec_code.delimits assms(1,2) by (auto simp: manifest_ok_def)
  have l: "encode_LivenessEscape (rm_liveness_escape m) [] @ r = encode_LivenessEscape (rm_liveness_escape m') [] @ s
      \<longleftrightarrow> rm_liveness_escape m = rm_liveness_escape m' \<and> r = s" for r s
    using escape_code.delimits assms(1,2) by (auto simp: manifest_ok_def)
  have t: "length (sorted_tiers m) < 2 ^ 64" "length (sorted_tiers m') < 2 ^ 64"
    using assms(1,2) by (simp_all add: sorted_tiers_def manifest_ok_def)
  have b: "length (ls_slash_conditions (rm_lp_stake m)) < 2 ^ 64" "length (ls_slash_conditions (rm_lp_stake m')) < 2 ^ 64"
    using assms(1,2) by (simp_all add: manifest_ok_def)
  show ?thesis
    using assms(3) unfolding manifest_bytes
    by (simp add: o l bytes32_list_peel [OF b] tier_list_peel [OF t, of "[]" "[]", unfolded append_Nil2]
        barr_append_peel normalised_def RailManifest.equality FeeSchedule.equality LpStake.equality del: bigsize_peel)
qed

text \<open>What a tagged hash digests: two messages of one hash are two such inputs.\<close>

lemma quote_encode_inject: "quote_encode q = quote_encode q' \<longleftrightarrow> q = q'"
  by (auto simp: quote_encode_def put_simps barr_append_peel bs_inject intro: Quote.equality)

lemma manifest_encode_normalised: "manifest_encode (normalised m) = manifest_encode m"
proof -
  have "sorted_tiers (normalised m) = sorted_tiers m"
    by (simp add: normalised_def sorted_tiers_def sort_key_id_if_sorted)
  moreover have "rm_spec_version (normalised m) = rm_spec_version m"
    "rm_direction (normalised m) = rm_direction m"
    "rm_asset_id (normalised m) = rm_asset_id m"
    "rm_oracle_spec (normalised m) = rm_oracle_spec m"
    "rm_settle_primitive (normalised m) = rm_settle_primitive m"
    "rm_max_size_sats (normalised m) = rm_max_size_sats m"
    "rm_committed_term (normalised m) = rm_committed_term m"
    "rm_fee_schedule (normalised m) = rm_fee_schedule m"
    "rm_price_dev_bound_bps (normalised m) = rm_price_dev_bound_bps m"
    "rm_quote_validity_s (normalised m) = rm_quote_validity_s m"
    "rm_settle_window_s (normalised m) = rm_settle_window_s m"
    "rm_refund_delta_blocks (normalised m) = rm_refund_delta_blocks m"
    "rm_lp_stake (normalised m) = rm_lp_stake m"
    "rm_dispute_hook (normalised m) = rm_dispute_hook m"
    "rm_liveness_escape (normalised m) = rm_liveness_escape m"
    by (simp_all add: normalised_def)
  ultimately show ?thesis by (simp only: manifest_encode_def)
qed

lemma normalised_encode: "normalised m = normalised m' \<Longrightarrow> manifest_encode m = manifest_encode m'"
  using manifest_encode_normalised [of m] manifest_encode_normalised [of m'] by (simp only:)

section \<open>Properties\<close>

text \<open>
  the conversions of a rail: the collapsed machine goes from the quote to the settlement and
  nowhere else; the standard one locks and then ends in exactly one of settlement and refund. No
  conversion leaves an outcome, none passes both.
\<close>
lemma conversion_outcomes:
  "(conversion True ps \<longleftrightarrow> ps \<in> {[Quoted], [Quoted, Settled]})
   \<and> (conversion False ps \<longleftrightarrow>
     ps \<in> {[Quoted], [Quoted, Locked], [Quoted, Locked, Settled], [Quoted, Locked, Refunded]})"
  by (simp_all only: conversion_paths if_True if_False)

text \<open>
  a rail's identity commits to its manifest: manifests that agree up to the order of their
  automation tiers have one identity, and two that do not, under one identity, exhibit a SHA-256
  collision.
\<close>
lemma rail_id_commits:
  assumes "manifest_ok m" and "manifest_ok m'"
  shows "if normalised m = normalised m' then rail_id C m = rail_id C m'
     else rail_id C m \<noteq> rail_id C m' \<or>
       sha_collides C (tag_input C RAIL_ID_TAG (manifest_encode m), tag_input C RAIL_ID_TAG (manifest_encode m'))"
proof (cases "normalised m = normalised m'")
  case True
  then show ?thesis using normalised_encode [OF True] by (simp add: rail_id_def)
next
  case False
  then have "manifest_encode m \<noteq> manifest_encode m'"
    using manifest_encode_inject [OF assms] by blast
  then show ?thesis
    using False tagged_collision [of C RAIL_ID_TAG "manifest_encode m" "manifest_encode m'"]
    unfolding rail_id_def by simp
qed

definition sample_manifest :: RailManifest where
  "sample_manifest =
     \<lparr>rm_spec_version = SPEC_VERSION, rm_direction = Redeem, rm_asset_id = fill 0x11,
      rm_oracle_spec = NoOracle, rm_settle_primitive = AtomicSwap, rm_max_size_sats = 5000000,
      rm_committed_term = 4032,
      rm_fee_schedule = \<lparr>fs_retain_bps = 10, fs_service_bps = 5, fs_fixed_sats = 200\<rparr>,
      rm_price_dev_bound_bps = 100, rm_quote_validity_s = 30, rm_settle_window_s = 600,
      rm_refund_delta_blocks = 144,
      rm_lp_stake = \<lparr>ls_amount_sats = 10000000, ls_slash_conditions = [fill 0x22]\<rparr>,
      rm_dispute_hook = fill 0, rm_liveness_escape = NoEscape,
      rm_automation_tiers = [(SettleT, AnyoneCanAct), (RefundT, Consensus)]\<rparr>"

lemma rail_id_commits_witness:
  "rail_id const_crypto sample_manifest
     = rail_id const_crypto (sample_manifest\<lparr>rm_automation_tiers := [(RefundT, Consensus), (SettleT, AnyoneCanAct)]\<rparr>) \<and>
   (\<exists>w. sha_collides const_crypto w)"
proof -
  let ?m = sample_manifest and ?m' = "sample_manifest\<lparr>rm_automation_tiers := [(RefundT, Consensus), (SettleT, AnyoneCanAct)]\<rparr>"
  let ?m'' = "sample_manifest\<lparr>rm_committed_term := 0\<rparr>"
  have ok: "manifest_ok ?m" "manifest_ok ?m'" "manifest_ok ?m''"
    by (simp_all add: manifest_ok_def sample_manifest_def)
  have "normalised ?m = normalised ?m'" "normalised ?m \<noteq> normalised ?m''"
    by (simp_all add: normalised_def sorted_tiers_def sample_manifest_def word_le_nat_alt)
  moreover have "rail_id const_crypto ?m = rail_id const_crypto ?m''"
    by (simp add: rail_id_def rail_tagged_hash_def sha256_def)
  ultimately show ?thesis
    using rail_id_commits [OF ok(1,2), of const_crypto] rail_id_commits [OF ok(1,3), of const_crypto] by auto
qed

end
