(* ===== verification/Allot.thy ===== *)
theory Allot
  imports Rail
begin

text \<open>
  The allotment plan (\<^verbatim>\<open>satusd-allot/src/plan.rs\<close>): the rails' public positions in, each rail's
  share of the reserve out. Shown here: the shares and what is left are exactly the reserve, no
  rail gets more than half of what it has sunk, and the order of the positions does not matter.
\<close>

definition PLAN_TAG :: string where "PLAN_TAG = ''SatUSD/allotment-plan/v1''"
definition INPUT_TAG :: string where "INPUT_TAG = ''SatUSD/allotment-input/v1''"

record RailPosition =
  pn_rail_id :: b32
  pn_retained_fees_cum_sats :: u64
  pn_lp_stake_sats :: u64

record AllotmentInput =
  ai_epoch :: u32
  ai_reserve_total_sats :: u64
  ai_positions :: "RailPosition list"

record Tranche =
  tr_rail_id :: b32
  tr_capacity_sats :: u64
  tr_tranche_sats :: u64

record AllotmentPlan =
  ap_epoch :: u32
  ap_reserve_total_sats :: u64
  ap_input_hash :: b32
  ap_tranches :: "Tranche list"
  ap_unallocated_sats :: u64

datatype PlanError = DuplicateRailId b32

definition put_position :: "RailPosition \<Rightarrow> encoder \<Rightarrow> encoder" where
  "put_position p = emit [
     put_bytes32 (pn_rail_id p), put_u64 (pn_retained_fees_cum_sats p), put_u64 (pn_lp_stake_sats p)]"

definition canonical_input :: "u32 \<Rightarrow> u64 \<Rightarrow> RailPosition list \<Rightarrow> bytes" where
  "canonical_input epoch reserve ps = emit [
     put_u32 epoch,
     put_u64 reserve,
     put_bigsize (word_of_nat (length ps)),
     fold put_position ps] []"

text \<open>The first pair of neighbours with one id.\<close>

fun adjacent_duplicate :: "b32 list \<Rightarrow> b32 option" where
  "adjacent_duplicate (a # b # ids) = (if a = b then Some a else adjacent_duplicate (b # ids))"
| "adjacent_duplicate _ = None"

definition position_capacity :: "RailPosition \<Rightarrow> u64" where
  "position_capacity p = capacity_sats (pn_retained_fees_cum_sats p) (pn_lp_stake_sats p)"

text \<open>A sum of \<^verbatim>\<open>u64\<close>s in \<^verbatim>\<open>u128\<close>, and one in \<^verbatim>\<open>u64\<close>, which wraps.\<close>

definition total_capacity :: "RailPosition list \<Rightarrow> u128" where
  "total_capacity ps = sum_list (map (\<lambda>p. ucast (position_capacity p)) ps)"

definition allot_tranche :: "u128 \<Rightarrow> u128 \<Rightarrow> RailPosition \<Rightarrow> Tranche" where
  "allot_tranche total_cap reserve p =
     (let cap = position_capacity p;
          tranche = (if total_cap \<le> reserve \<or> total_cap = 0 then cap
                     else ucast (ucast cap * reserve div total_cap))
      in \<lparr>tr_rail_id = pn_rail_id p, tr_capacity_sats = cap, tr_tranche_sats = tranche\<rparr>)"

definition plan_compute :: "crypto \<Rightarrow> AllotmentInput \<Rightarrow> (PlanError, AllotmentPlan) res" where
  "plan_compute C input =
     (let ps = sort_key pn_rail_id (ai_positions input) in
      case adjacent_duplicate (map pn_rail_id ps) of
        Some i \<Rightarrow> Err (DuplicateRailId i)
      | None \<Rightarrow> let
          input_hash = rail_tagged_hash C INPUT_TAG
            (canonical_input (ai_epoch input) (ai_reserve_total_sats input) ps);
          total_cap = total_capacity ps;
          reserve = ucast (ai_reserve_total_sats input);
          tranches = map (allot_tranche total_cap reserve) ps;
          allocated = sum_list (map tr_tranche_sats tranches)
        in Ok \<lparr>ap_epoch = ai_epoch input, ap_reserve_total_sats = ai_reserve_total_sats input,
          ap_input_hash = input_hash, ap_tranches = tranches,
          ap_unallocated_sats = saturating_sub (ai_reserve_total_sats input) allocated\<rparr>)"

definition put_tranche :: "Tranche \<Rightarrow> encoder \<Rightarrow> encoder" where
  "put_tranche t = emit [
     put_bytes32 (tr_rail_id t), put_u64 (tr_capacity_sats t), put_u64 (tr_tranche_sats t)]"

definition plan_encode :: "AllotmentPlan \<Rightarrow> bytes" where
  "plan_encode p = emit [
     put_u32 (ap_epoch p),
     put_u64 (ap_reserve_total_sats p),
     put_bytes32 (ap_input_hash p),
     put_bigsize (word_of_nat (length (ap_tranches p))),
     fold put_tranche (ap_tranches p),
     put_u64 (ap_unallocated_sats p)] []"

definition plan_hash :: "crypto \<Rightarrow> AllotmentPlan \<Rightarrow> b32" where
  "plan_hash C p = rail_tagged_hash C PLAN_TAG (plan_encode p)"

section \<open>Sums of words\<close>

lemma unat_sum_list:
  "sum_list (map unat xs) < 2 ^ LENGTH('a) \<Longrightarrow> unat (sum_list xs) = sum_list (map unat xs)"
  for xs :: "'a::len word list"
proof (induction xs)
  case (Cons x xs)
  then have "unat (sum_list xs) = sum_list (map unat xs)" by simp
  then show ?case using Cons.prems unat_add_lem [of x "sum_list xs"] by simp
qed simp

lemma sum_list_bound: "\<forall>x\<in>set xs. f x \<le> b \<Longrightarrow> sum_list (map f xs) \<le> length xs * (b :: nat)"
  by (induction xs) (auto simp: add_mono)

lemma total_capacity_value:
  assumes "length ps < 2 ^ 60"
  shows "unat (total_capacity ps) = (\<Sum>p\<leftarrow>ps. unat (position_capacity p))"
proof -
  have "(\<Sum>p\<leftarrow>ps. unat (position_capacity p)) \<le> length ps * 18446744073709551615"
    by (rule sum_list_bound) (simp add: unat_le_u64)
  also have "... < 2 ^ 128" using assms by simp
  finally have "sum_list (map unat (map (\<lambda>p. ucast (position_capacity p) :: u128) ps)) < 2 ^ LENGTH(128)"
    by (simp add: comp_def)
  from unat_sum_list [OF this] show ?thesis by (simp add: total_capacity_def comp_def)
qed

text \<open>Shares rounded down never add up to more than what is shared.\<close>

lemma floor_shares: "(\<Sum>x\<leftarrow>xs. f x * r div t) \<le> (\<Sum>x\<leftarrow>xs. f x) * r div (t :: nat)"
proof (induction xs)
  case (Cons x xs)
  have "f x * r div t + (\<Sum>x\<leftarrow>xs. f x) * r div t \<le> (f x + (\<Sum>x\<leftarrow>xs. f x)) * r div t"
    using div_add1_eq [of "f x * r" "(\<Sum>x\<leftarrow>xs. f x) * r" t] by (simp only: add_mult_distrib le_add1)
  then show ?case using Cons.IH by simp
qed simp

section \<open>What a plan hands out\<close>

lemma tranche_value:
  assumes "unat (position_capacity p) \<le> unat tcap"
  shows "unat (tr_tranche_sats (allot_tranche tcap (ucast (reserve :: u64)) p))
     = (if unat tcap \<le> unat reserve \<or> tcap = 0 then unat (position_capacity p)
        else unat (position_capacity p) * unat reserve div unat tcap)"
proof -
  let ?c = "unat (position_capacity p)"
  have "?c * unat reserve div unat tcap \<le> unat reserve"
  proof (cases "unat tcap = 0")
    case False
    have "?c * unat reserve div unat tcap \<le> unat tcap * unat reserve div unat tcap"
      by (rule div_le_mono) (rule mult_le_mono1 [OF assms])
    also have "... = unat reserve" using False by simp
    finally show ?thesis .
  qed simp
  then have "?c * unat reserve div unat tcap < 2 ^ 64" using unat_le_u64 [of reserve] by simp
  then show ?thesis
    by (simp add: allot_tranche_def Let_def word_le_nat_alt narrow_u64 unat_div)
qed

lemma capacity_le_total:
  "p \<in> set ps \<Longrightarrow> length ps < 2 ^ 60 \<Longrightarrow> unat (position_capacity p) \<le> unat (total_capacity ps)"
  by (simp add: total_capacity_value member_le_sum_list)

lemma tranches_sum:
  assumes "length ps < 2 ^ 60"
  shows "(\<Sum>p\<leftarrow>ps. unat (tr_tranche_sats (allot_tranche (total_capacity ps) (ucast (reserve :: u64)) p)))
     \<le> unat reserve"
proof -
  let ?t = "total_capacity ps" and ?c = "\<lambda>p. unat (position_capacity p)"
  let ?f = "\<lambda>p. unat (tr_tranche_sats (allot_tranche ?t (ucast reserve) p))"
  have t: "unat ?t = (\<Sum>p\<leftarrow>ps. ?c p)" by (rule total_capacity_value [OF assms])
  have v: "?f p = (if unat ?t \<le> unat reserve \<or> ?t = 0 then ?c p else ?c p * unat reserve div unat ?t)"
    if "p \<in> set ps" for p
    by (rule tranche_value [OF capacity_le_total [OF that assms]])
  show ?thesis
  proof (cases "unat ?t \<le> unat reserve \<or> ?t = 0")
    case True
    then have "map ?f ps = map ?c ps" by (intro map_cong) (auto simp: v)
    then have "sum_list (map ?f ps) = unat ?t" by (simp only: t)
    then show ?thesis using True by auto
  next
    case False
    then have "map ?f ps = map (\<lambda>p. ?c p * unat reserve div unat ?t) ps" by (intro map_cong) (auto simp: v)
    then have "sum_list (map ?f ps) = (\<Sum>p\<leftarrow>ps. ?c p * unat reserve div unat ?t)" by (rule arg_cong)
    also have "... \<le> unat ?t * unat reserve div unat ?t"
      using floor_shares [of ?c "unat reserve" "unat ?t" ps] by (simp only: t)
    also have "... \<le> unat reserve" by (cases "unat ?t = 0") simp_all
    finally show ?thesis .
  qed
qed

lemma plan_compute_Ok:
  "plan_compute C input = Ok plan \<longleftrightarrow>
     (let ps = sort_key pn_rail_id (ai_positions input);
          tranches = map (allot_tranche (total_capacity ps) (ucast (ai_reserve_total_sats input))) ps
      in adjacent_duplicate (map pn_rail_id ps) = None \<and>
         plan = \<lparr>ap_epoch = ai_epoch input, ap_reserve_total_sats = ai_reserve_total_sats input,
           ap_input_hash = rail_tagged_hash C INPUT_TAG
             (canonical_input (ai_epoch input) (ai_reserve_total_sats input) ps),
           ap_tranches = tranches,
           ap_unallocated_sats = saturating_sub (ai_reserve_total_sats input)
             (sum_list (map tr_tranche_sats tranches))\<rparr>)"
  by (auto simp: plan_compute_def Let_def split: option.splits)

lemma adjacent_duplicate_None: "sorted ids \<Longrightarrow> adjacent_duplicate ids = None \<longleftrightarrow> distinct ids"
  by (induction ids rule: adjacent_duplicate.induct) auto

section \<open>Properties\<close>

text \<open>
  C19: a plan hands out no more than the reserve, keeps the rest, gives every position one tranche of
  at most its capacity, and no capacity is above half of the sats its rail has sunk in fees and
  stake: drawing it can never pay for losing them.
\<close>
lemma plan_within_reserve:
  assumes "plan_compute C input = Ok plan" and "length (ai_positions input) < 2 ^ 60"
  shows "(\<Sum>t\<leftarrow>ap_tranches plan. unat (tr_tranche_sats t)) + unat (ap_unallocated_sats plan)
      = unat (ai_reserve_total_sats input) \<and>
    (\<forall>t\<in>set (ap_tranches plan). unat (tr_tranche_sats t) \<le> unat (tr_capacity_sats t) \<and>
       (\<exists>p\<in>set (ai_positions input). tr_rail_id t = pn_rail_id p \<and>
          2 * unat (tr_capacity_sats t) \<le> unat (pn_retained_fees_cum_sats p) + unat (pn_lp_stake_sats p)))"
proof -
  define ps where "ps = sort_key pn_rail_id (ai_positions input)"
  let ?r = "ai_reserve_total_sats input"
  let ?tr = "allot_tranche (total_capacity ps) (ucast ?r)"
  have l: "length ps < 2 ^ 60" and set: "set ps = set (ai_positions input)"
    using assms(2) by (simp_all add: ps_def)
  have t: "ap_tranches plan = map ?tr ps"
    and u: "ap_unallocated_sats plan = saturating_sub ?r (sum_list (map tr_tranche_sats (map ?tr ps)))"
    using assms(1) unfolding plan_compute_Ok ps_def [symmetric] Let_def by auto
  have s: "(\<Sum>t\<leftarrow>map ?tr ps. unat (tr_tranche_sats t)) \<le> unat ?r"
    using tranches_sum [OF l, of ?r] by (simp add: comp_def)
  have "sum_list (map unat (map tr_tranche_sats (map ?tr ps))) \<le> unat ?r" using s by (simp add: comp_def)
  then have "unat (sum_list (map tr_tranche_sats (map ?tr ps))) = (\<Sum>t\<leftarrow>map ?tr ps. unat (tr_tranche_sats t))"
    using unat_le_u64 [of ?r] by (subst unat_sum_list) (simp_all add: comp_def)
  then have "(\<Sum>t\<leftarrow>ap_tranches plan. unat (tr_tranche_sats t)) + unat (ap_unallocated_sats plan) = unat ?r"
    using s by (simp only: t u unat_saturating_sub)
  moreover have "unat (tr_tranche_sats (?tr p)) \<le> unat (tr_capacity_sats (?tr p)) \<and> tr_rail_id (?tr p) = pn_rail_id p \<and>
      2 * unat (tr_capacity_sats (?tr p)) \<le> unat (pn_retained_fees_cum_sats p) + unat (pn_lp_stake_sats p)"
    if p: "p \<in> set ps" for p
  proof -
    have c: "tr_capacity_sats (?tr p) = position_capacity p" "tr_rail_id (?tr p) = pn_rail_id p"
      by (simp_all add: allot_tranche_def Let_def)
    have "a * r div t \<le> a" if "\<not> t \<le> r" for a r t :: nat
      using that div_le_mono [of "a * r" "a * t" t] by simp
    then have "unat (tr_tranche_sats (?tr p)) \<le> unat (position_capacity p)"
      unfolding tranche_value [OF capacity_le_total [OF p l]] by simp
    then show ?thesis using c by (simp add: position_capacity_def capacity_value)
  qed
  ultimately show ?thesis unfolding t using set by fastforce
qed

text \<open>the order in which the positions are listed changes neither the plan nor the refusal.\<close>
lemma plan_order:
  assumes "mset (ai_positions input) = mset (ai_positions input')"
    and "ai_epoch input = ai_epoch input'" and "ai_reserve_total_sats input = ai_reserve_total_sats input'"
  shows "plan_compute C input = plan_compute C input'"
proof -
  let ?a = "ai_positions input" and ?b = "ai_positions input'"
  have ids: "map pn_rail_id (sort_key pn_rail_id ?a) = map pn_rail_id (sort_key pn_rail_id ?b)" (is "?x = ?y")
  proof -
    have "sort ?y = ?x" by (rule properties_for_sort) (simp_all add: assms(1))
    moreover have "sort ?y = ?y" by (rule sorted_sort_id) simp
    ultimately show ?thesis by simp
  qed
  show ?thesis
  proof (cases "distinct (map pn_rail_id (sort_key pn_rail_id ?a))")
    case True
    then have "inj_on pn_rail_id (set ?a)" by (simp add: distinct_map)
    then have "sort_key pn_rail_id ?a = sort_key pn_rail_id ?b"
      by (intro sort_key_inj_key_eq) (simp_all add: assms(1))
    then show ?thesis using assms(2,3) by (simp only: plan_compute_def Let_def)
  next
    case False
    then obtain i where "adjacent_duplicate (map pn_rail_id (sort_key pn_rail_id ?a)) = Some i"
      using adjacent_duplicate_None [of "map pn_rail_id (sort_key pn_rail_id ?a)"] by auto
    then show ?thesis using ids by (simp add: plan_compute_def Let_def)
  qed
qed

text \<open>Two rails that together could draw twice the reserve.\<close>

definition sample_allotment :: AllotmentInput where
  "sample_allotment =
     \<lparr>ai_epoch = 1, ai_reserve_total_sats = 3000000, ai_positions =
        [\<lparr>pn_rail_id = fill 2, pn_retained_fees_cum_sats = 0, pn_lp_stake_sats = 4000000\<rparr>,
         \<lparr>pn_rail_id = fill 1, pn_retained_fees_cum_sats = 0, pn_lp_stake_sats = 8000000\<rparr>]\<rparr>"

lemma sample_allotment_planned: "\<exists>plan. plan_compute C sample_allotment = Ok plan"
proof -
  let ?ids = "map pn_rail_id (sort_key pn_rail_id (ai_positions sample_allotment))"
  have "mset ?ids = {#fill 1, fill 2#}" by (simp add: sample_allotment_def)
  then have "mset ?ids = mset [fill 1, fill 2 :: b32]" by simp
  from mset_eq_imp_distinct_iff [OF this] have "distinct ?ids" by simp
  then have "adjacent_duplicate ?ids = None" by (subst adjacent_duplicate_None) simp_all
  then show ?thesis by (simp add: plan_compute_Ok Let_def)
qed

lemma plan_within_reserve_witness:
  "\<exists>plan. plan_compute const_crypto sample_allotment = Ok plan \<and>
     (\<Sum>t\<leftarrow>ap_tranches plan. unat (tr_tranche_sats t)) + unat (ap_unallocated_sats plan) = 3000000"
proof -
  obtain plan where p: "plan_compute const_crypto sample_allotment = Ok plan" using sample_allotment_planned by blast
  show ?thesis using plan_within_reserve [OF p] p by (simp add: sample_allotment_def)
qed

lemma plan_order_witness:
  "plan_compute const_crypto sample_allotment
     = plan_compute const_crypto (sample_allotment\<lparr>ai_positions := rev (ai_positions sample_allotment)\<rparr>)"
  by (rule plan_order) simp_all

end
