(* ===== verification/Market.thy ===== *)
theory Market
  imports Wide
begin

text \<open>
  The prices the protocol settles on: the weighted medians of settlement points
  (\<^verbatim>\<open>satusd-verify/src/marker.rs\<close>) and of reporter stakes (\<^verbatim>\<open>satusd-oracle/src/median.rs\<close>), the
  blend of the internal and external price, and the resolution of a disputed assertion
  (\<^verbatim>\<open>satusd-oracle/src/dispute.rs\<close>). Both medians end in a loop that adds weights up until half of
  the total is reached; the locale \<open>weighted_walk\<close> states what such a loop returns.
\<close>

section \<open>Loops that add weights up\<close>

text \<open>The weight of the entries that satisfy \<open>P\<close>, as a number.\<close>

definition weight_of :: "('r \<Rightarrow> u64) \<Rightarrow> ('r \<Rightarrow> bool) \<Rightarrow> 'r list \<Rightarrow> nat" where
  "weight_of w P rs = (\<Sum>r\<leftarrow>filter P rs. unat (w r))"

lemma weight_of_simps [simp]:
  "weight_of w P [] = 0"
  "weight_of w P (r # rs) = (if P r then unat (w r) else 0) + weight_of w P rs"
  by (simp_all add: weight_of_def)

lemma weight_of_mono: "(\<And>r. r \<in> set rs \<Longrightarrow> P r \<Longrightarrow> Q r) \<Longrightarrow> weight_of w P rs \<le> weight_of w Q rs"
  by (induction rs) (auto simp: add_mono trans_le_add2)

lemma weight_of_split: "weight_of w (\<lambda>_. True) rs = weight_of w P rs + weight_of w (\<lambda>r. \<not> P r) rs"
  by (induction rs) auto

lemma weight_of_mset: "mset rs = mset rs' \<Longrightarrow> weight_of w P rs = weight_of w P rs'"
  by (simp add: weight_of_def flip: sum_mset_sum_list)

lemma weight_of_sort [simp]: "weight_of w P (sort_key f rs) = weight_of w P rs"
  by (rule weight_of_mset) simp

lemma weight_of_bound: "weight_of w P rs \<le> length rs * 18446744073709551615"
proof (induction rs)
  case (Cons r rs)
  then show ?case using unat_le_u64 [of "w r"] by (simp add: add_mono)
qed simp

lemma weight_of_none: "(\<And>r. r \<in> set rs \<Longrightarrow> \<not> P r) \<Longrightarrow> weight_of w P rs = 0"
  by (induction rs) auto

lemma unat_sum_weights:
  "weight_of w (\<lambda>_. True) rs < 2 ^ 128 \<Longrightarrow>
    unat (sum_list (map (\<lambda>r. ucast (w r)) rs) :: u128) = weight_of w (\<lambda>_. True) rs"
  by (induction rs) (simp_all add: wide_add)

text \<open>Half of a total, rounded up, computed either way the code does it.\<close>

lemma unat_half_up:
  assumes "unat (t :: u128) < 2 ^ 127"
  shows "unat ((t + 1) div 2) = (unat t + 1) div 2"
proof -
  from assms have "unat (t + 1) = unat t + 1" by (subst wide_add) simp_all
  then show ?thesis by (simp add: unat_div_distrib)
qed

lemma few_weights: "length rs < 2 ^ 62 \<Longrightarrow> weight_of w P rs < 2 ^ 127"
  by (rule le_less_trans [OF weight_of_bound]) simp

locale weighted_walk =
  fixes walk :: "'r list \<Rightarrow> u128 \<Rightarrow> u128 \<Rightarrow> ('e, 'p :: linorder) res"
    and price :: "'r \<Rightarrow> 'p" and weight :: "'r \<Rightarrow> u64"
  assumes walk_Nil: "walk [] t acc = Panic"
    and walk_Cons: "walk (r # rs) t acc =
      (let acc = acc + ucast (weight r) in if t \<le> acc then Ok (price r) else walk rs t acc)"
begin

definition median_at :: "'r list \<Rightarrow> 'p \<Rightarrow> bool" where
  "median_at rs p \<longleftrightarrow> p \<in> price ` set rs
     \<and> 2 * weight_of weight (\<lambda>r. price r < p) rs < weight_of weight (\<lambda>_. True) rs
     \<and> weight_of weight (\<lambda>_. True) rs \<le> 2 * weight_of weight (\<lambda>r. price r \<le> p) rs"

lemma walk_reaches:
  assumes "sorted (map price rs)" "unat acc < unat t"
    and "unat t \<le> unat acc + weight_of weight (\<lambda>_. True) rs"
    and "unat acc + weight_of weight (\<lambda>_. True) rs < 2 ^ 128"
  shows "\<exists>p. walk rs t acc = Ok p \<and> p \<in> price ` set rs
    \<and> unat acc + weight_of weight (\<lambda>r. price r < p) rs < unat t
    \<and> unat t \<le> unat acc + weight_of weight (\<lambda>r. price r \<le> p) rs"
  using assms
proof (induction rs arbitrary: acc)
  case Nil
  then show ?case by simp
next
  case (Cons r rs)
  let ?acc = "acc + ucast (weight r)"
  have acc: "unat ?acc = unat acc + unat (weight r)"
    using Cons.prems(4) by (subst wide_add) simp_all
  have above: "\<forall>q\<in>set rs. price r \<le> price q" using Cons.prems(1) by simp
  show ?case
  proof (cases "t \<le> ?acc")
    case True
    then have "unat t \<le> unat acc + unat (weight r)" by (simp add: word_le_nat_alt acc)
    moreover have "weight_of weight (\<lambda>q. price q < price r) rs = 0"
      using above by (intro weight_of_none) auto
    ultimately show ?thesis
      using True Cons.prems(2) by (intro exI [of _ "price r"]) (simp add: walk_Cons)
  next
    case False
    then have lt: "unat ?acc < unat t" by (simp add: word_less_nat_alt not_le)
    obtain p where p: "walk rs t ?acc = Ok p" "p \<in> price ` set rs"
        "unat ?acc + weight_of weight (\<lambda>r. price r < p) rs < unat t"
        "unat t \<le> unat ?acc + weight_of weight (\<lambda>r. price r \<le> p) rs"
      using Cons.IH [of ?acc] Cons.prems lt by (auto simp: acc)
    from p(2) above have "price r \<le> p" by auto
    with p False show ?thesis by (intro exI [of _ p]) (auto simp: walk_Cons acc)
  qed
qed

lemma walk_sorted:
  assumes "length rs < 2 ^ 62" and "0 < weight_of weight (\<lambda>_. True) rs"
    and t: "unat t = (weight_of weight (\<lambda>_. True) rs + 1) div 2"
  shows "\<exists>p. walk (sort_key price rs) t 0 = Ok p \<and> median_at rs p"
proof -
  have "weight_of weight (\<lambda>_. True) rs < 2 ^ 127" using assms(1) by (rule few_weights)
  then have "\<exists>p. walk (sort_key price rs) t 0 = Ok p \<and> p \<in> price ` set (sort_key price rs)
      \<and> unat (0 :: u128) + weight_of weight (\<lambda>r. price r < p) (sort_key price rs) < unat t
      \<and> unat t \<le> unat (0 :: u128) + weight_of weight (\<lambda>r. price r \<le> p) (sort_key price rs)"
    using assms(2) by (intro walk_reaches) (simp_all add: t)
  then show ?thesis by (auto simp: median_at_def t)
qed

text \<open>There is one median, and it does not depend on the order of the entries.\<close>

lemma median_unique:
  assumes "median_at rs p" "median_at rs q"
  shows "p = q"
proof -
  have le: "\<not> p < q" if "median_at rs p" "median_at rs q" for p q
  proof
    assume "p < q"
    then have "weight_of weight (\<lambda>r. price r \<le> p) rs \<le> weight_of weight (\<lambda>r. price r < q) rs"
      by (intro weight_of_mono) auto
    with that show False by (simp add: median_at_def)
  qed
  show ?thesis using le [OF assms] le [OF assms(2,1)] by simp
qed

lemma median_mset: "mset rs = mset rs' \<Longrightarrow> median_at rs p = median_at rs' p"
  unfolding median_at_def using weight_of_mset [of rs rs'] mset_eq_setD [of rs rs'] by metis

text \<open>Less than half of the weight cannot take the median out of an interval.\<close>

lemma median_within:
  assumes "median_at rs p"
    and "2 * weight_of weight (\<lambda>r. \<not> (lo \<le> price r \<and> price r \<le> hi)) rs < weight_of weight (\<lambda>_. True) rs"
  shows "lo \<le> p \<and> p \<le> hi"
proof (intro conjI; rule ccontr)
  assume "\<not> lo \<le> p"
  then have "weight_of weight (\<lambda>r. price r \<le> p) rs
      \<le> weight_of weight (\<lambda>r. \<not> (lo \<le> price r \<and> price r \<le> hi)) rs"
    by (intro weight_of_mono) auto
  with assms show False by (simp add: median_at_def)
next
  assume "\<not> p \<le> hi"
  then have "weight_of weight (\<lambda>r. \<not> price r < p) rs
      \<le> weight_of weight (\<lambda>r. \<not> (lo \<le> price r \<and> price r \<le> hi)) rs"
    by (intro weight_of_mono) auto
  with assms weight_of_split [of weight rs "\<lambda>r. price r < p"] show False
    by (simp add: median_at_def)
qed

text \<open>Half of the weight is enough to take it down.\<close>

lemma half_suffices:
  assumes "median_at rs p"
    and "weight_of weight (\<lambda>_. True) rs \<le> 2 * weight_of weight (\<lambda>r. price r \<le> x) rs"
  shows "p \<le> x"
proof (rule ccontr)
  assume "\<not> p \<le> x"
  then have "weight_of weight (\<lambda>r. price r \<le> x) rs \<le> weight_of weight (\<lambda>r. price r < p) rs"
    by (intro weight_of_mono) auto
  with assms show False by (simp add: median_at_def)
qed

end

section \<open>The settlement marker\<close>

record SettlementPoint =
  sp_price_msat_per_usd :: u64
  sp_volume_micro_usd :: u64

definition TRIM_BPS :: u64 where "TRIM_BPS = 500"

text \<open>Indexing an empty slice panics, as \<open>len() - 1\<close> does before it.\<close>

definition raw_median :: "u64 list \<Rightarrow> ('e, u64) res" where
  "raw_median sorted_prices =
     (if sorted_prices = [] then Panic else Ok (sorted_prices ! ((length sorted_prices - 1) div 2)))"

fun twap_walk :: "SettlementPoint list \<Rightarrow> u128 \<Rightarrow> u128 \<Rightarrow> ('e, u64) res" where
  "twap_walk [] half acc = Panic"
| "twap_walk (p # ps) half acc =
     (let acc = acc + ucast (sp_volume_micro_usd p)
      in if half \<le> acc then Ok (sp_price_msat_per_usd p) else twap_walk ps half acc)"

definition trim_band :: "u64 \<Rightarrow> u64" where
  "trim_band median = ucast ((ucast median * ucast TRIM_BPS :: u128) div 10000)"

definition survivors :: "u64 \<Rightarrow> SettlementPoint list \<Rightarrow> SettlementPoint list" where
  "survivors median points =
     filter (\<lambda>p. abs_diff (sp_price_msat_per_usd p) median \<le> trim_band median) points"

definition internal_twap :: "SettlementPoint list \<Rightarrow> u64 \<Rightarrow> ('e, u64 option) res" where
  "internal_twap points min_volume =
     (if points = [] then Ok None
      else rbind (raw_median (sort (map sp_price_msat_per_usd points))) (\<lambda>median.
        let ps = survivors median points;
            total_volume = sum_list (map (\<lambda>p. ucast (sp_volume_micro_usd p)) ps) :: u128
        in if total_volume < ucast min_volume \<or> total_volume = 0 then Ok None
           else rbind
             (twap_walk (sort_key sp_price_msat_per_usd ps)
               ((total_volume div 2) + (if total_volume mod 2 = 0 then 0 else 1)) 0)
             (\<lambda>p. Ok (Some p))))"

record BlendParams =
  bp_w_bps :: u16
  bp_clip_band_bps :: u32
  bp_halt_band_bps :: u32

datatype Marker = Price u64 | Invalid

definition bps_of :: "u64 \<Rightarrow> u32 \<Rightarrow> u64" where
  "bps_of x bps = ucast ((ucast x * ucast bps :: u128) div 10000)"

text \<open>\<^verbatim>\<open>Ord::clamp\<close> panics when its bounds are out of order.\<close>

definition clamp :: "u64 \<Rightarrow> u64 \<Rightarrow> u64 \<Rightarrow> ('e, u64) res" where
  "clamp x lo hi = (if hi < lo then Panic else Ok (if x < lo then lo else if hi < x then hi else x))"

definition blended_price :: "u64 \<Rightarrow> u64 \<Rightarrow> u16 \<Rightarrow> u64" where
  "blended_price external internal w_bps =
     (let w = ucast (min w_bps 10000) :: u128
      in ucast ((w * ucast internal + (10000 - w) * ucast external) div 10000))"

definition adaptive_marker :: "u64 \<Rightarrow> u64 option \<Rightarrow> BlendParams \<Rightarrow> ('e, Marker) res" where
  "adaptive_marker external internal p =
     (case internal of
        None \<Rightarrow> Ok (Price external)
      | Some internal \<Rightarrow>
          if bps_of external (bp_halt_band_bps p) < abs_diff internal external then Ok Invalid
          else let clip = bps_of external (bp_clip_band_bps p);
                   lo = saturating_sub external clip;
                   hi = saturating_add external clip
               in rbind (clamp (blended_price external internal (bp_w_bps p)) lo hi) (\<lambda>m. Ok (Price m)))"

section \<open>The reporters' median\<close>

record Report =
  rp_price_usd :: u32
  rp_stake :: u64

fun stake_walk :: "Report list \<Rightarrow> u128 \<Rightarrow> u128 \<Rightarrow> ('e, u32) res" where
  "stake_walk [] threshold acc = Panic"
| "stake_walk (r # rs) threshold acc =
     (let acc = acc + ucast (rp_stake r)
      in if threshold \<le> acc then Ok (rp_price_usd r) else stake_walk rs threshold acc)"

definition stake_weighted_median :: "Report list \<Rightarrow> ('e, u32 option) res" where
  "stake_weighted_median reports =
     (let total_stake = sum_list (map (\<lambda>r. ucast (rp_stake r)) reports) :: u128
      in if total_stake = 0 then Ok None
         else rbind (stake_walk (sort_key rp_price_usd reports) ((total_stake + 1) div 2) 0)
           (\<lambda>p. Ok (Some p)))"

interpretation twap: weighted_walk twap_walk sp_price_msat_per_usd sp_volume_micro_usd
  by unfold_locales simp_all

interpretation stake: weighted_walk stake_walk rp_price_usd rp_stake
  by unfold_locales simp_all

section \<open>A disputed assertion\<close>

record Assertion =
  as_event_id :: string
  as_price_usd :: u32
  as_bond_sats :: u64
  as_asserted_at_block :: u32
  as_window_blocks :: u32

record PriceDispute =
  pd_price_usd :: u32
  pd_bond_sats :: u64

datatype RejectReason = OutOfBand | WindowStillOpen

datatype Resolution =
  Accepted (price_usd: u32)
| Disputed (price_usd: u32) (slashed_bond_sats: u64)
| Rejected RejectReason

definition within_band :: "u32 \<Rightarrow> u32 \<Rightarrow> u32 \<Rightarrow> bool" where
  "within_band price reference band_bps =
     ((ucast (abs_diff price reference) :: u128) \<le> ucast reference * ucast band_bps div 10000)"

definition window_open :: "Assertion \<Rightarrow> u32 \<Rightarrow> bool" where
  "window_open a now = (now < saturating_add (as_asserted_at_block a) (as_window_blocks a))"

definition closer :: "u32 \<Rightarrow> u32 \<Rightarrow> u32 \<Rightarrow> bool" where
  "closer target a b = (abs_diff a target \<le> abs_diff b target)"

definition resolve :: "Assertion \<Rightarrow> PriceDispute option \<Rightarrow> u32 \<Rightarrow> u32 \<Rightarrow> u32 \<Rightarrow> Resolution" where
  "resolve a dispute reference band_bps now =
     (case dispute of
        Some d \<Rightarrow>
          let asserted_wins = closer reference (as_price_usd a) (pd_price_usd d);
              (winner, slashed) = (if asserted_wins then (as_price_usd a, pd_bond_sats d)
                                   else (pd_price_usd d, as_bond_sats a))
          in if within_band winner reference band_bps then Disputed winner slashed
             else Rejected OutOfBand
      | None \<Rightarrow>
          if window_open a now then Rejected WindowStillOpen
          else if within_band (as_price_usd a) reference band_bps then Accepted (as_price_usd a)
          else Rejected OutOfBand)"


section \<open>What the medians promise\<close>

abbreviation all_stake :: "Report list \<Rightarrow> nat" where
  "all_stake rs \<equiv> weight_of rp_stake (\<lambda>_. True) rs"

lemma stake_median_cases:
  assumes "length reports < 2 ^ 62"
  shows "(stake_weighted_median reports = (Ok None :: ('e, _) res) \<and> all_stake reports = 0)
    \<or> (\<exists>p. stake_weighted_median reports = (Ok (Some p) :: ('e, _) res) \<and> stake.median_at reports p)"
proof -
  let ?t = "sum_list (map (\<lambda>r. ucast (rp_stake r)) reports) :: u128"
  have b: "all_stake reports < 2 ^ 127" using assms by (rule few_weights)
  then have t: "unat ?t = all_stake reports" by (intro unat_sum_weights) simp
  show ?thesis
  proof (cases "all_stake reports = 0")
    case True
    then have "?t = 0" using t by (simp add: unat_eq_0)
    with True show ?thesis by (simp add: stake_weighted_median_def)
  next
    case False
    then have "?t \<noteq> 0" using t by auto
    moreover have "unat ((?t + 1) div 2) = (all_stake reports + 1) div 2"
      using unat_half_up [of ?t] b t by simp
    moreover from this obtain p where "stake.median_at reports p"
        "stake_walk (sort_key rp_price_usd reports) ((?t + 1) div 2) 0 = (Ok p :: ('e, _) res)"
      using stake.walk_sorted [OF assms, of "(?t + 1) div 2"] False by auto
    ultimately show ?thesis by (simp add: stake_weighted_median_def)
  qed
qed

lemma twap_median_in:
  assumes "sorted xs" "xs \<noteq> []"
    and "2 * length (filter (\<lambda>x. \<not> (lo \<le> x \<and> x \<le> hi)) xs) < length xs"
  shows "lo \<le> xs ! ((length xs - 1) div 2) \<and> xs ! ((length xs - 1) div 2) \<le> (hi :: 'a :: linorder)"
proof -
  let ?k = "(length xs - 1) div 2" and ?P = "\<lambda>x. \<not> (lo \<le> x \<and> x \<le> hi)"
  have k: "?k < length xs" using assms(2) by (cases xs) auto
  have split: "length (filter ?P xs) = length (filter ?P (take n xs)) + length (filter ?P (drop n xs))" for n
    by (metis append_take_drop_id filter_append length_append)
  have low: "filter ?P (take (Suc ?k) xs) = take (Suc ?k) xs" if "xs ! ?k < lo"
  proof (rule filter_True, rule ballI)
    fix x assume "x \<in> set (take (Suc ?k) xs)"
    then obtain i where i: "x = xs ! i" "i \<le> ?k" by (auto simp: in_set_conv_nth)
    then show "?P x" using sorted_nth_mono [OF assms(1) i(2) k] that by auto
  qed
  have high: "filter ?P (drop ?k xs) = drop ?k xs" if "hi < xs ! ?k"
  proof (rule filter_True, rule ballI)
    fix x assume "x \<in> set (drop ?k xs)"
    then obtain i where i: "x = xs ! (?k + i)" "?k + i < length xs" by (auto simp: in_set_conv_nth)
    then show "?P x" using sorted_nth_mono [OF assms(1) _ i(2), of ?k] that by auto
  qed
  show ?thesis
  proof (intro conjI; rule ccontr)
    assume "\<not> lo \<le> xs ! ?k"
    then have "length (filter ?P (take (Suc ?k) xs)) = Suc ?k"
      using low k by simp
    with split [of "Suc ?k"] assms(3) show False by linarith
  next
    assume "\<not> xs ! ?k \<le> hi"
    then have "length (filter ?P (drop ?k xs)) = length xs - ?k"
      using high by simp
    with split [of ?k] assms(3) k show False by linarith
  qed
qed

lemma all_volume_few:
  assumes "length points < 2 ^ 62"
  shows "unat (sum_list (map (\<lambda>p. ucast (sp_volume_micro_usd p)) (survivors m points)) :: u128)
    = weight_of sp_volume_micro_usd (\<lambda>_. True) (survivors m points)"
    and "weight_of sp_volume_micro_usd (\<lambda>_. True) (survivors m points) < 2 ^ 127"
    and "length (survivors m points) < 2 ^ 62"
proof -
  show l: "length (survivors m points) < 2 ^ 62"
    using assms by (auto simp: survivors_def intro: le_less_trans [OF length_filter_le])
  show b: "weight_of sp_volume_micro_usd (\<lambda>_. True) (survivors m points) < 2 ^ 127"
    using l by (rule few_weights)
  then show "unat (sum_list (map (\<lambda>p. ucast (sp_volume_micro_usd p)) (survivors m points)) :: u128)
      = weight_of sp_volume_micro_usd (\<lambda>_. True) (survivors m points)"
    by (intro unat_sum_weights) simp
qed

lemma unat_div_ceil_2:
  assumes "unat (t :: u128) < 2 ^ 127"
  shows "unat (t div 2 + (if t mod 2 = 0 then 0 else 1)) = (unat t + 1) div 2"
proof -
  have "t mod 2 = 0 \<longleftrightarrow> unat t mod 2 = 0"
    by (simp add: unat_eq_0 [symmetric] unat_mod_distrib del: unat_eq_0)
  then show ?thesis
    using assms by (auto simp: unat_div_distrib wide_add) presburger+
qed


text \<open>
  C20: The stake median never reaches its \<^verbatim>\<open>unreachable!\<close>: it is \<^verbatim>\<open>None\<close> exactly when nobody has a
  stake, and otherwise the reported price with less than half of the stake below it and at least
  half of it at or below it, so it does not depend on the order of the reports. Reports outside an
  interval with less than half of the stake cannot take it out of the interval; exactly half of the
  stake, though, already takes it down.
\<close>

theorem stake_median:
  assumes "length reports < 2 ^ 62" and "mset reports' = mset reports"
  shows "\<exists>m. stake_weighted_median reports = (Ok m :: ('e, _) res)
    \<and> stake_weighted_median reports' = (Ok m :: ('e, _) res)
    \<and> (case m of
         None \<Rightarrow> all_stake reports = 0
       | Some p \<Rightarrow> p \<in> rp_price_usd ` set reports
           \<and> 2 * weight_of rp_stake (\<lambda>r. rp_price_usd r < p) reports < all_stake reports
           \<and> all_stake reports \<le> 2 * weight_of rp_stake (\<lambda>r. rp_price_usd r \<le> p) reports
           \<and> (\<forall>lo hi. 2 * weight_of rp_stake (\<lambda>r. \<not> (lo \<le> rp_price_usd r \<and> rp_price_usd r \<le> hi)) reports
                 < all_stake reports \<longrightarrow> lo \<le> p \<and> p \<le> hi)
           \<and> (\<forall>x. all_stake reports \<le> 2 * weight_of rp_stake (\<lambda>r. rp_price_usd r \<le> x) reports
                 \<longrightarrow> p \<le> x))"
proof -
  have eq: "all_stake reports' = all_stake reports" using assms(2) by (rule weight_of_mset)
  have len: "length reports' < 2 ^ 62" using assms mset_eq_length by metis
  show ?thesis
  proof (cases "all_stake reports = 0")
    case True
    then show ?thesis
      using stake_median_cases [OF assms(1)] stake_median_cases [OF len] eq
      by (auto simp: stake.median_at_def)
  next
    case False
    obtain p where p: "stake_weighted_median reports = (Ok (Some p) :: ('e, _) res)"
        "stake.median_at reports p"
      using stake_median_cases [OF assms(1)] False by auto
    obtain p' where p': "stake_weighted_median reports' = (Ok (Some p') :: ('e, _) res)"
        "stake.median_at reports' p'"
      using stake_median_cases [OF len] False eq by auto
    have "p' = p" using stake.median_unique p(2) p'(2) stake.median_mset [OF assms(2)] by blast
    then show ?thesis
      using p p'(1) stake.median_within [OF p(2)] stake.half_suffices [OF p(2)]
      by (auto simp: stake.median_at_def)
  qed
qed

lemma stake_median_witness:
  "\<exists>m. stake_weighted_median [\<lparr>rp_price_usd = 7, rp_stake = 1\<rparr>, \<lparr>rp_price_usd = 5, rp_stake = 1\<rparr>]
    = (Ok m :: (unit, _) res)"
  using stake_median [of "[\<lparr>rp_price_usd = 7, rp_stake = 1\<rparr>, \<lparr>rp_price_usd = 5, rp_stake = 1\<rparr>]"
    "[\<lparr>rp_price_usd = 7, rp_stake = 1\<rparr>, \<lparr>rp_price_usd = 5, rp_stake = 1\<rparr>]"] by auto

lemma sort_Nil [simp]: "sort_key f xs = [] \<longleftrightarrow> xs = []"
  by (metis length_0_conv length_sort)

lemma unat_trim_band: "unat (trim_band m) = unat m * 500 div 10000"
proof -
  have T: "unat TRIM_BPS = 500" by (simp add: TRIM_BPS_def)
  have "unat ((ucast m * ucast TRIM_BPS :: u128) div 10000) = unat m * 500 div 10000"
    unfolding unat_div_distrib wide_mul_u64 T by simp
  then show ?thesis
    unfolding trim_band_def by (rule narrow_u64_eq) (use unat_le_u64 [of m] in linarith)
qed

lemma twap_cases:
  assumes few: "length points < 2 ^ 62" and some: "points \<noteq> []"
    and m: "m = sort (map sp_price_msat_per_usd points) ! ((length points - 1) div 2)"
  defines "vol \<equiv> weight_of sp_volume_micro_usd (\<lambda>_. True) (survivors m points)"
  shows "internal_twap points min_volume = (Ok None :: ('e, _) res) \<and> (vol < unat min_volume \<or> vol = 0)
    \<or> (\<exists>p. internal_twap points min_volume = (Ok (Some p) :: ('e, _) res)
        \<and> unat min_volume \<le> vol \<and> twap.median_at (survivors m points) p)"
proof -
  note few' = all_volume_few [OF few, of m]
  let ?t = "sum_list (map (\<lambda>p. ucast (sp_volume_micro_usd p)) (survivors m points)) :: u128"
  have t: "unat ?t = vol" using few'(1) by (simp add: vol_def)
  have guard: "?t < ucast min_volume \<or> ?t = 0 \<longleftrightarrow> vol < unat min_volume \<or> vol = 0"
    by (simp add: word_less_nat_alt t unat_eq_0 [symmetric] del: unat_eq_0)
  have med: "raw_median (sort (map sp_price_msat_per_usd points)) = (Ok m :: ('e, _) res)"
    using some m by (simp add: raw_median_def)
  show ?thesis
  proof (cases "vol < unat min_volume \<or> vol = 0")
    case True
    then show ?thesis using some med guard by (simp add: internal_twap_def)
  next
    case False
    have "unat ?t < 2 ^ 127" using few'(1,2) by simp
    note half = unat_div_ceil_2 [OF this, unfolded t]
    obtain p where "twap.median_at (survivors m points) p"
        "twap_walk (sort_key sp_price_msat_per_usd (survivors m points))
          (?t div 2 + (if ?t mod 2 = 0 then 0 else 1)) 0 = (Ok p :: ('e, _) res)"
      using twap.walk_sorted [OF few'(3) _ half [unfolded vol_def]] False by (auto simp: vol_def)
    with False show ?thesis using some med guard by (auto simp: internal_twap_def Let_def)
  qed
qed


lemma survivor_near:
  assumes "p \<in> sp_price_msat_per_usd ` set (survivors m points)"
  shows "19 * unat m \<le> 20 * unat p \<and> 20 * unat p \<le> 21 * unat m"
proof -
  from assms have "unat (abs_diff p m) \<le> unat m * 500 div 10000"
    by (auto simp: survivors_def word_le_nat_alt unat_trim_band)
  then have "20 * unat (abs_diff p m) \<le> unat m" by linarith
  then show ?thesis using unat_abs_diff [of p m] by linarith
qed

text \<open>
  C21: The settlement marker never panics, also without points. There is none exactly when there are no
  points or the volume left after the 5 percent trim around the lower median is zero or below the
  floor; otherwise it is one of the points' prices, with less than half of the surviving volume below
  it and at least half at or below, and within 5 percent of the median, and of any interval that holds
  the prices of more than half of the points (however large they are).
\<close>

theorem settlement_marker:
  assumes few: "length points < 2 ^ 62"
    and m: "m = (if points = [] then 0 else sort (map sp_price_msat_per_usd points) ! ((length points - 1) div 2))"
    and vol: "vol = weight_of sp_volume_micro_usd (\<lambda>_. True) (survivors m points)"
  shows "\<exists>r. internal_twap points min_volume = (Ok r :: ('e, _) res) \<and> (case r of
      None \<Rightarrow> points = [] \<or> vol = 0 \<or> vol < unat min_volume
    | Some p \<Rightarrow> p \<in> sp_price_msat_per_usd ` set points \<and> vol \<noteq> 0 \<and> unat min_volume \<le> vol
        \<and> 2 * weight_of sp_volume_micro_usd (\<lambda>q. sp_price_msat_per_usd q < p) (survivors m points) < vol
        \<and> vol \<le> 2 * weight_of sp_volume_micro_usd (\<lambda>q. sp_price_msat_per_usd q \<le> p) (survivors m points)
        \<and> 19 * unat m \<le> 20 * unat p \<and> 20 * unat p \<le> 21 * unat m
        \<and> (\<forall>lo hi. 2 * length (filter (\<lambda>q. \<not> (lo \<le> sp_price_msat_per_usd q \<and> sp_price_msat_per_usd q \<le> hi)) points)
              < length points \<longrightarrow> 19 * unat lo \<le> 20 * unat p \<and> 20 * unat p \<le> 21 * unat hi))"
proof (cases "points = []")
  case True
  then show ?thesis by (simp add: internal_twap_def)
next
  case some: False
  let ?xs = "sort (map sp_price_msat_per_usd points)"
  have m_def: "m = ?xs ! ((length points - 1) div 2)" using m some by simp
  have "length (filter P ?xs) = length (filter (\<lambda>q. P (sp_price_msat_per_usd q)) points)" for P
    by (simp add: filter_sort filter_map o_def)
  then have median: "unat lo \<le> unat m \<and> unat m \<le> unat hi"
    if "2 * length (filter (\<lambda>q. \<not> (lo \<le> sp_price_msat_per_usd q \<and> sp_price_msat_per_usd q \<le> hi)) points) < length points" for lo hi
    using twap_median_in [of ?xs lo hi] that some by (simp add: m_def word_le_nat_alt)
  consider "internal_twap points min_volume = (Ok None :: ('e, _) res)" "vol < unat min_volume \<or> vol = 0"
    | p where "internal_twap points min_volume = (Ok (Some p) :: ('e, _) res)"
        "unat min_volume \<le> vol" "twap.median_at (survivors m points) p"
    using twap_cases [OF few some m_def, of min_volume] by (auto simp: vol)
  then show ?thesis
  proof cases
    case 1
    then show ?thesis by auto
  next
    case (2 p)
    from 2(3) have p: "p \<in> sp_price_msat_per_usd ` set (survivors m points)"
      by (simp add: twap.median_at_def)
    then have "p \<in> sp_price_msat_per_usd ` set points" by (auto simp: survivors_def)
    moreover have "19 * unat lo \<le> 20 * unat p \<and> 20 * unat p \<le> 21 * unat hi"
      if "2 * length (filter (\<lambda>q. \<not> (lo \<le> sp_price_msat_per_usd q \<and> sp_price_msat_per_usd q \<le> hi)) points) < length points" for lo hi
      using median [OF that] survivor_near [OF p] by linarith
    ultimately show ?thesis
      using 2 survivor_near [OF p] by (intro exI [of _ "Some p"]) (auto simp: twap.median_at_def vol)
  qed
qed

lemma settlement_marker_witness:
  "internal_twap [\<lparr>sp_price_msat_per_usd = 100, sp_volume_micro_usd = 3\<rparr>] 1 = (Ok (Some 100) :: (unit, _) res)
     \<and> internal_twap [] 1 = (Ok None :: (unit, _) res)"
proof
  have "survivors 100 [\<lparr>sp_price_msat_per_usd = 100, sp_volume_micro_usd = 3\<rparr>]
      = [\<lparr>sp_price_msat_per_usd = 100, sp_volume_micro_usd = 3\<rparr>]"
    by (simp add: survivors_def abs_diff_def)
  then show "internal_twap [\<lparr>sp_price_msat_per_usd = 100, sp_volume_micro_usd = 3\<rparr>] 1 = (Ok (Some 100) :: (unit, _) res)"
    using settlement_marker [of "[\<lparr>sp_price_msat_per_usd = 100, sp_volume_micro_usd = 3\<rparr>]" 100 3 1, where 'e = unit]
    by (auto simp: weight_of_def split: option.splits)
  show "internal_twap [] 1 = (Ok None :: (unit, _) res)"
    using settlement_marker [of "[]" 0 0 1, where 'e = unit] by (auto simp: survivors_def weight_of_def split: option.splits)
qed

lemma blended_between:
  "min (unat external) (unat internal) \<le> unat (blended_price external internal w)
   \<and> unat (blended_price external internal w) \<le> max (unat external) (unat internal)"
proof -
  let ?w = "min w 10000"
  have w: "unat ?w \<le> 10000" by (simp add: min_def word_le_nat_alt)
  define n where "n = unat ?w * unat internal + (10000 - unat ?w) * unat external"
  have hi: "n \<le> 10000 * max (unat external) (unat internal)"
  proof -
    have "n \<le> unat ?w * max (unat external) (unat internal) + (10000 - unat ?w) * max (unat external) (unat internal)"
      unfolding n_def by (intro add_mono mult_le_mono2) auto
    with w show ?thesis by (simp flip: distrib_right)
  qed
  have lo: "10000 * min (unat external) (unat internal) \<le> n"
  proof -
    have "unat ?w * min (unat external) (unat internal) + (10000 - unat ?w) * min (unat external) (unat internal) \<le> n"
      unfolding n_def by (intro add_mono mult_le_mono2) auto
    with w show ?thesis by (simp flip: distrib_right)
  qed
  have m: "max (unat external) (unat internal) \<le> 18446744073709551615"
    using unat_le_u64 [of external] unat_le_u64 [of internal] by simp
  have c: "unat (10000 - ucast ?w :: u128) = 10000 - unat ?w"
    using w by (subst unat_sub) (simp_all add: word_le_nat_alt)
  have a: "unat (ucast ?w * ucast internal :: u128) = unat ?w * unat internal"
    by (subst wide_mul) (simp_all add: mul_bound [OF w unat_le_u64])
  have b: "unat ((10000 - ucast ?w) * ucast external :: u128) = (10000 - unat ?w) * unat external"
    by (subst wide_mul) (simp_all add: c mul_bound [OF _ unat_le_u64, of _ 10000])
  have small: "n \<le> 10000 * 18446744073709551615" using hi m by linarith
  have "unat (ucast ?w * ucast internal + (10000 - ucast ?w) * ucast external :: u128) = n"
    using small by (subst wide_add) (simp_all add: a b n_def)
  then have "unat (blended_price external internal w) = n div 10000"
    using small by (simp add: blended_price_def Let_def narrow_u64 unat_div_distrib)
  with hi lo show ?thesis by linarith
qed

text \<open>
  The blended marker never panics. Without an internal price it is the external one; when it is
  a price it lies between the two sources, no further from the external one than the clip band, and
  the two are no further apart than the fuse; when it is invalid they are further apart.
\<close>

theorem blend_between_sources:
  "\<exists>r. adaptive_marker external internal p = (Ok r :: ('e, _) res) \<and>
    (case (internal, r) of
       (None, Price m) \<Rightarrow> m = external
     | (None, Invalid) \<Rightarrow> False
     | (Some i, Price m) \<Rightarrow>
         min (unat external) (unat i) \<le> unat m \<and> unat m \<le> max (unat external) (unat i)
         \<and> \<bar>int (unat m) - int (unat external)\<bar> \<le> int (unat (bps_of external (bp_clip_band_bps p)))
         \<and> \<bar>int (unat i) - int (unat external)\<bar> \<le> int (unat (bps_of external (bp_halt_band_bps p)))
     | (Some i, Invalid) \<Rightarrow>
         int (unat (bps_of external (bp_halt_band_bps p))) < \<bar>int (unat i) - int (unat external)\<bar>)"
proof (cases internal)
  case None
  then show ?thesis by (simp add: adaptive_marker_def)
next
  case (Some i)
  let ?clip = "bps_of external (bp_clip_band_bps p)" and ?halt = "bps_of external (bp_halt_band_bps p)"
  let ?lo = "saturating_sub external ?clip" and ?hi = "saturating_add external ?clip"
  let ?b = "blended_price external i (bp_w_bps p)"
  have fuse: "?halt < abs_diff i external \<longleftrightarrow> int (unat ?halt) < \<bar>int (unat i) - int (unat external)\<bar>"
    unfolding unat_abs_diff [symmetric] by (simp add: word_less_nat_alt del: of_nat_unat)
  have lo: "unat ?lo = unat external - unat ?clip" by (rule unat_saturating_sub)
  have hi: "unat ?hi = min (unat external + unat ?clip) 18446744073709551615"
    by (simp add: unat_saturating_add)
  have ord: "unat ?lo \<le> unat external" "unat external \<le> unat ?hi"
    using unat_le_u64 [of external] by (simp_all add: lo hi)
  obtain m where m: "clamp ?b ?lo ?hi = (Ok m :: ('e, _) res)" "unat m = max (unat ?lo) (min (unat ?hi) (unat ?b))"
    using ord by (auto simp: clamp_def word_less_nat_alt max_def min_def)
  have b: "min (unat external) (unat i) \<le> unat m" "unat m \<le> max (unat external) (unat i)"
    using blended_between [of external i "bp_w_bps p"] ord m(2) by linarith+
  have "unat external - unat ?clip \<le> unat m" "unat m \<le> unat external + unat ?clip"
    using m(2) lo hi ord by linarith+
  then have c: "\<bar>int (unat m) - int (unat external)\<bar> \<le> int (unat ?clip)" by linarith
  show ?thesis
  proof (cases "?halt < abs_diff i external")
    case True
    then show ?thesis using Some fuse by (simp add: adaptive_marker_def del: of_nat_unat)
  next
    case False
    then have "adaptive_marker external internal p = (Ok (Price m) :: ('e, _) res)"
      using Some m(1) by (simp add: adaptive_marker_def Let_def)
    then show ?thesis using False Some fuse b c by (simp del: of_nat_unat)
  qed
qed


lemma within_band_value:
  "within_band price reference band \<longleftrightarrow>
    \<bar>int (unat price) - int (unat reference)\<bar> \<le> int (unat reference * unat band div 10000)"
proof -
  have "within_band price reference band \<longleftrightarrow>
      unat (abs_diff price reference) \<le> unat reference * unat band div 10000"
    by (simp add: within_band_def word_le_nat_alt unat_div_distrib)
  also have "\<dots> \<longleftrightarrow> int (unat (abs_diff price reference)) \<le> int (unat reference * unat band div 10000)"
    by (simp only: of_nat_le_iff)
  finally show ?thesis by (simp only: unat_abs_diff)
qed

text \<open>
  Whatever the cohort signs is within the band of the public reference. An undisputed price is
  only accepted once its window has closed (or the block height has saturated); of two disputed
  prices the one no further from the reference wins and the other side's bond is slashed, the
  asserter's only when its price is strictly further away.
\<close>

theorem resolution_sound:
  "case resolve a dispute reference band now of
     Accepted p \<Rightarrow> dispute = None \<and> p = as_price_usd a
       \<and> \<bar>int (unat p) - int (unat reference)\<bar> \<le> int (unat reference * unat band div 10000)
       \<and> min (unat (as_asserted_at_block a) + unat (as_window_blocks a)) 4294967295 \<le> unat now
   | Disputed p s \<Rightarrow> \<bar>int (unat p) - int (unat reference)\<bar> \<le> int (unat reference * unat band div 10000)
       \<and> (\<exists>d. dispute = Some d
          \<and> (if \<bar>int (unat (as_price_usd a)) - int (unat reference)\<bar>
                  \<le> \<bar>int (unat (pd_price_usd d)) - int (unat reference)\<bar>
             then p = as_price_usd a \<and> s = pd_bond_sats d
             else p = pd_price_usd d \<and> s = as_bond_sats a))
   | Rejected WindowStillOpen \<Rightarrow> dispute = None
       \<and> unat now < unat (as_asserted_at_block a) + unat (as_window_blocks a)
   | Rejected OutOfBand \<Rightarrow> int (unat reference * unat band div 10000)
       < \<bar>int (unat (as_price_usd a)) - int (unat reference)\<bar>"
proof -
  have win: "window_open a now \<longleftrightarrow>
      unat now < min (unat (as_asserted_at_block a) + unat (as_window_blocks a)) 4294967295"
    by (simp add: window_open_def word_less_nat_alt unat_saturating_add)
  have near: "closer reference p q \<longleftrightarrow>
      \<bar>int (unat p) - int (unat reference)\<bar> \<le> \<bar>int (unat q) - int (unat reference)\<bar>" for p q
    by (simp add: closer_def word_le_nat_alt flip: unat_abs_diff of_nat_le_iff del: of_nat_unat)
  show ?thesis
    unfolding resolve_def
    by (cases dispute) (auto simp: Let_def near win within_band_value split: if_splits simp del: of_nat_unat of_nat_mult zdiv_int)
qed

end
