(* ===== verification/Vault.thy ===== *)
theory Vault
  imports RailCode
begin

text \<open>
  The arithmetic of a vault: its terms and collateral ratio (\<^verbatim>\<open>satusd-vault/src/contract.rs\<close>), the
  split of a settlement (\<^verbatim>\<open>settle.rs\<close>), the price buckets of a rail-1 contract
  (\<^verbatim>\<open>satusd-rail1/src/cet.rs\<close>), the buckets a vault pre-signs (\<^verbatim>\<open>satusd-vault/src/cet.rs\<close>) and the two
  legs of an option position (\<^verbatim>\<open>satusd-verify/src/position.rs\<close>).
\<close>

section \<open>Terms and collateral ratio\<close>

definition SATS_PER_BTC :: u128 where "SATS_PER_BTC = 100000000"
definition MICRO_PER_USD :: u128 where "MICRO_PER_USD = 1000000"

record VaultTerms =
  vt_collateral_sats :: u64
  vt_mint_micro_usd :: u64
  vt_opening_cr_bps :: u32
  vt_liq_cr_bps :: u32
  vt_checkpoint_interval :: u32
  vt_maturity_height :: u32
  vt_m :: u8
  vt_penalty_bps :: u32
  vt_oracle_event_series :: b32

definition vault_encode :: "VaultTerms \<Rightarrow> bytes" where
  "vault_encode t =
     to_be (vt_collateral_sats t) @ to_be (vt_mint_micro_usd t) @ to_be (vt_opening_cr_bps t) @
     to_be (vt_liq_cr_bps t) @ to_be (vt_checkpoint_interval t) @ to_be (vt_maturity_height t) @
     [vt_m t] @ to_be (vt_penalty_bps t) @ bs (vt_oracle_event_series t)"

definition VAULT_TAG :: string where "VAULT_TAG = ''SatUSD/vault-contract/v1''"

definition vault_id :: "crypto \<Rightarrow> VaultTerms \<Rightarrow> b32" where
  "vault_id C t = rail_tagged_hash C VAULT_TAG (vault_encode t)"

text \<open>\<^verbatim>\<open>x.min(u128::from(u32::MAX)) as u32\<close>, and the same for \<^verbatim>\<open>u64\<close>.\<close>

definition min_u32 :: "u128 \<Rightarrow> u32" where
  "min_u32 x = ucast (min x (ucast (- 1 :: u32)))"

definition min_u64 :: "u128 \<Rightarrow> u64" where
  "min_u64 x = ucast (min x (ucast (- 1 :: u64)))"

definition cr_bps :: "u64 \<Rightarrow> u64 \<Rightarrow> u32 \<Rightarrow> u32" where
  "cr_bps collateral_sats mint_micro_usd price_usd =
     (if mint_micro_usd = 0 then - 1
      else let num = ucast collateral_sats * ucast price_usd * MICRO_PER_USD * 10000;
               den = SATS_PER_BTC * ucast mint_micro_usd
           in min_u32 (num div den))"

definition opening_ok :: "VaultTerms \<Rightarrow> u32 \<Rightarrow> bool" where
  "opening_ok t price_usd =
     (cr_bps (vt_collateral_sats t) (vt_mint_micro_usd t) price_usd \<ge> vt_opening_cr_bps t)"

definition crash_price_ceiling :: "VaultTerms \<Rightarrow> u32" where
  "crash_price_ceiling t =
     (if vt_collateral_sats t = 0 then - 1
      else let num = ucast (vt_liq_cr_bps t) * ucast (vt_mint_micro_usd t) * SATS_PER_BTC;
               den = ucast (vt_collateral_sats t) * MICRO_PER_USD * 10000
           in if den = 0 then - 1 else min_u32 (num div den))"

section \<open>The split of a settlement\<close>

record CrashPayout =
  po_reserve_sats :: u64
  po_broadcaster_sats :: u64
  po_minter_sats :: u64

definition payout_total :: "CrashPayout \<Rightarrow> u64" where
  "payout_total p = po_reserve_sats p + po_broadcaster_sats p + po_minter_sats p"

record PayoutParams =
  pp_penalty_bps :: u32
  pp_bounty_bps_of_penalty :: u32
  pp_bounty_cap_sats :: u64
  pp_fee_budget_sats :: u64

definition face_sats :: "u64 \<Rightarrow> u32 \<Rightarrow> u64" where
  "face_sats mint_micro_usd price_usd =
     (if price_usd = 0 then - 1
      else let num = ucast mint_micro_usd * SATS_PER_BTC;
               den = ucast price_usd * MICRO_PER_USD
           in min_u64 ((num + den - 1) div den))"

definition crash_payout :: "u64 \<Rightarrow> u64 \<Rightarrow> u32 \<Rightarrow> PayoutParams \<Rightarrow> CrashPayout" where
  "crash_payout collateral_sats mint_micro_usd price_usd p =
     (let face = face_sats mint_micro_usd price_usd;
          penalty = ucast (ucast face * ucast (pp_penalty_bps p) div 10000 :: u128) :: u64;
          bounty = ucast (ucast penalty * ucast (pp_bounty_bps_of_penalty p) div 10000 :: u128);
          bounty = min bounty (pp_bounty_cap_sats p);
          spendable = saturating_sub collateral_sats (pp_fee_budget_sats p);
          bounty = min bounty spendable;
          reserve_want = saturating_sub (saturating_add face penalty) bounty;
          reserve = min reserve_want (spendable - bounty);
          minter = spendable - bounty - reserve
      in \<lparr>po_reserve_sats = reserve, po_broadcaster_sats = bounty, po_minter_sats = minter\<rparr>)"

definition reserve_shortfall_sats :: "CrashPayout \<Rightarrow> u64 \<Rightarrow> u32 \<Rightarrow> u64" where
  "reserve_shortfall_sats payout mint_micro_usd price_usd =
     saturating_sub (face_sats mint_micro_usd price_usd) (po_reserve_sats payout)"

text \<open>The two legs of an option: a division by zero panics, and \<^verbatim>\<open>as u64\<close> truncates.\<close>

definition payout_at :: "VaultTerms \<Rightarrow> u32 \<Rightarrow> ('e, u64 \<times> u64) res" where
  "payout_at t price_usd =
     (let den = ucast price_usd * MICRO_PER_USD in
      if den = 0 then Panic
      else let face = ucast (ucast (vt_mint_micro_usd t) * SATS_PER_BTC div den);
               p = min face (vt_collateral_sats t);
               n = vt_collateral_sats t - p
           in Ok (p, n))"

section \<open>Price buckets\<close>

definition NB_DIGITS :: u16 where "NB_DIGITS = 20"

record CetBucket =
  cb_index :: u32
  cb_price_lo :: u32
  cb_price_hi :: u32
  cb_user_sats :: u64

text \<open>A shift whose amount is out of range is taken modulo the width.\<close>

definition shift_amount :: "u16 \<Rightarrow> nat" where
  "shift_amount n = unat n mod 32"

definition bucket_at :: "u32 \<Rightarrow> (u32 \<Rightarrow> u64) \<Rightarrow> u32 \<Rightarrow> CetBucket" where
  "bucket_at width user_sats_at index =
     (let lo = index * width; hi = lo + width
      in \<lparr>cb_index = index, cb_price_lo = lo, cb_price_hi = hi,
          cb_user_sats = user_sats_at (lo + width div 2)\<rparr>)"

definition bucket_schedule :: "u8 \<Rightarrow> (u32 \<Rightarrow> u64) \<Rightarrow> ('e, CetBucket list) res" where
  "bucket_schedule m user_sats_at =
     (if \<not> (1 \<le> m \<and> ucast m \<le> NB_DIGITS) then Panic
      else let width = push_bit (shift_amount (NB_DIGITS - ucast m)) 1
           in Ok (map (\<lambda>i. bucket_at width user_sats_at (word_of_nat i)) [0 ..< 2 ^ unat m]))"

definition bucket_of :: "u32 \<Rightarrow> u8 \<Rightarrow> u32" where
  "bucket_of price_usd m =
     (let clamped = min price_usd (push_bit (shift_amount NB_DIGITS) 1 - 1)
      in drop_bit (shift_amount (NB_DIGITS - ucast m)) clamped)"

section \<open>The buckets a vault pre-signs\<close>

record CrashCet =
  cc_bucket_index :: u32
  cc_price_lo :: u32
  cc_price_hi :: u32
  cc_settle_price :: u32
  cc_payout :: CrashPayout

definition crash_cet :: "VaultTerms \<Rightarrow> PayoutParams \<Rightarrow> CetBucket \<Rightarrow> CrashCet" where
  "crash_cet t params b =
     (let settle_price = cb_price_lo b + (cb_price_hi b - cb_price_lo b) div 2
      in \<lparr>cc_bucket_index = cb_index b, cc_price_lo = cb_price_lo b, cc_price_hi = cb_price_hi b,
          cc_settle_price = settle_price,
          cc_payout = crash_payout (vt_collateral_sats t) (vt_mint_micro_usd t) settle_price params\<rparr>)"

definition crash_schedule :: "VaultTerms \<Rightarrow> PayoutParams \<Rightarrow> ('e, CrashCet list) res" where
  "crash_schedule t params =
     (let ceiling = crash_price_ceiling t in
      rbind (bucket_schedule (vt_m t) (\<lambda>_. 0)) (\<lambda>buckets.
        Ok (map (crash_cet t params) (filter (\<lambda>b. cb_price_lo b < ceiling) buckets))))"

section \<open>The arithmetic in numbers\<close>

lemma unat_min: "unat (min a b) = min (unat a) (unat b)" for a b :: "'a::len word"
  by (simp add: min_def word_le_nat_alt)

lemma unat_min_u32: "unat (min_u32 x) = min (unat x) 4294967295"
proof -
  have "unat (min x (ucast (- 1 :: u32))) = min (unat x) 4294967295"
    by (simp add: unat_min unat_minus_one)
  then show ?thesis unfolding min_u32_def by (subst narrow_u32) simp_all
qed

lemma unat_min_u64: "unat (min_u64 x) = min (unat x) 18446744073709551615"
proof -
  have "unat (min x (ucast (- 1 :: u64))) = min (unat x) 18446744073709551615"
    by (simp add: unat_min unat_max_u64)
  then show ?thesis unfolding min_u64_def by (subst narrow_u64) simp_all
qed

text \<open>What is left of a settlement goes to the minter, and nothing is created or lost.\<close>

lemma split_exact:
  fixes s b r :: u64
  assumes "b \<le> s" and "r \<le> s - b"
  shows "unat r + unat b + unat (s - b - r) = unat s" "r + b + (s - b - r) = s"
proof -
  show "unat r + unat b + unat (s - b - r) = unat s"
    using assms by (simp add: unat_sub word_le_nat_alt)
qed simp


lemma cr_bps_value:
  assumes "mint \<noteq> 0" and "unat collateral * unat price * 10000000000 < 2 ^ 128"
  shows "unat (cr_bps collateral mint price) =
    min (unat collateral * unat price * 100 div unat mint) 4294967295"
proof -
  define x where "x = unat collateral * unat price"
  have x: "x * 10000000000 < 2 ^ 128" using assms(2) by (simp only: x_def)
  have a1: "unat (ucast collateral * ucast price * MICRO_PER_USD :: u128) = x * 1000000"
    using x by (subst wide_mul) (simp_all add: MICRO_PER_USD_def flip: x_def)
  have a: "unat (ucast collateral * ucast price * MICRO_PER_USD * 10000 :: u128) = x * 10000000000"
    using x by (subst wide_mul) (simp_all add: a1)
  have b: "unat (SATS_PER_BTC * ucast mint :: u128) = 100000000 * unat mint"
    using unat_le_u64 [of mint] by (subst wide_mul) (simp_all add: SATS_PER_BTC_def)
  have "x * 10000000000 div (100000000 * unat mint) = x * 100 div unat mint"
    using div_mult_mult1 [of 100000000 "x * 100" "unat mint"] by (simp add: ac_simps)
  then show ?thesis
    using assms(1) by (simp add: cr_bps_def Let_def unat_min_u32 unat_div_distrib a b flip: x_def)
qed

lemma ceiling_value:
  assumes "vt_collateral_sats t \<noteq> 0"
  shows "unat (crash_price_ceiling t) =
    min (unat (vt_liq_cr_bps t) * unat (vt_mint_micro_usd t) div (unat (vt_collateral_sats t) * 100)) 4294967295"
proof -
  let ?l = "vt_liq_cr_bps t" and ?m = "vt_mint_micro_usd t" and ?c = "vt_collateral_sats t"
  define x where "x = unat ?l * unat ?m"
  have x: "x \<le> 4294967295 * 18446744073709551615"
    unfolding x_def by (rule mult_le_mono [OF unat_le_u32 unat_le_u64])
  have lm': "unat (ucast ?l * ucast ?m :: u128) = x"
    using x by (subst wide_mul) (simp_all flip: x_def)
  have a: "unat (ucast ?l * ucast ?m * SATS_PER_BTC :: u128) = x * 100000000"
    using x by (subst wide_mul) (simp_all add: lm' SATS_PER_BTC_def)
  have c: "unat ?c \<le> 18446744073709551615" by (rule unat_le_u64)
  have b1: "unat (ucast ?c * MICRO_PER_USD :: u128) = unat ?c * 1000000"
    using c by (subst wide_mul) (simp_all add: MICRO_PER_USD_def)
  have b: "unat (ucast ?c * MICRO_PER_USD * 10000 :: u128) = unat ?c * 10000000000"
    using c by (subst wide_mul) (simp_all add: b1)
  then have nz: "ucast ?c * MICRO_PER_USD * 10000 \<noteq> (0 :: u128)"
    using assms by (auto simp: unat_eq_0 simp flip: unat_eq_0)
  have "x * 100000000 div (unat ?c * 10000000000) = x div (unat ?c * 100)"
    using div_mult_mult1 [of 100000000 x "unat ?c * 100"] by (simp add: ac_simps)
  then show ?thesis
    using assms nz by (simp add: crash_price_ceiling_def Let_def unat_min_u32 unat_div_distrib a b flip: x_def)
qed

lemma face_value:
  assumes "price \<noteq> 0"
  shows "unat (face_sats mint price) =
    min ((unat mint * 100000000 + unat price * 1000000 - 1) div (unat price * 1000000)) 18446744073709551615"
proof -
  have p: "0 < unat price" using assms by (simp add: unat_gt_0)
  have m: "unat mint \<le> 18446744073709551615" "unat price \<le> 4294967295"
    by (rule unat_le_u64 unat_le_u32)+
  have a: "unat (ucast mint * SATS_PER_BTC :: u128) = unat mint * 100000000"
    using m by (subst wide_mul) (simp_all add: SATS_PER_BTC_def)
  have b: "unat (ucast price * MICRO_PER_USD :: u128) = unat price * 1000000"
    using m by (subst wide_mul) (simp_all add: MICRO_PER_USD_def)
  have ab: "unat (ucast mint * SATS_PER_BTC + ucast price * MICRO_PER_USD :: u128)
      = unat mint * 100000000 + unat price * 1000000"
    using m by (subst wide_add) (simp_all add: a b)
  have "unat (ucast mint * SATS_PER_BTC + ucast price * MICRO_PER_USD - 1 :: u128)
      = unat mint * 100000000 + unat price * 1000000 - 1"
    using p by (subst unat_sub) (simp_all add: ab word_le_nat_alt)
  then show ?thesis
    using assms by (simp add: face_sats_def Let_def unat_min_u64 unat_div_distrib b)
qed


section \<open>Settlements\<close>

text \<open>
  Below the ceiling a vault is in crash territory: as long as the ratio's 128-bit product does
  not overflow, every price up to the crash ceiling has a collateral ratio of at most the
  liquidation ratio, and every price above the ceiling one of at least it.
\<close>

theorem crash_ceiling:
  assumes "vt_mint_micro_usd t \<noteq> 0" and "vt_collateral_sats t \<noteq> 0"
    and "unat (vt_collateral_sats t) * unat price * 10000000000 < 2 ^ 128"
  shows "if price \<le> crash_price_ceiling t
    then cr_bps (vt_collateral_sats t) (vt_mint_micro_usd t) price \<le> vt_liq_cr_bps t
    else vt_liq_cr_bps t \<le> cr_bps (vt_collateral_sats t) (vt_mint_micro_usd t) price"
proof -
  define c where "c = unat (vt_collateral_sats t)"
  define m where "m = unat (vt_mint_micro_usd t)"
  define l where "l = unat (vt_liq_cr_bps t)"
  define p where "p = unat price"
  have pos: "0 < c" "0 < m" using assms(1,2) by (simp_all add: c_def m_def unat_gt_0)
  have small: "l \<le> 4294967295" "p \<le> 4294967295" by (simp_all only: l_def p_def unat_le_u32)
  have cr: "unat (cr_bps (vt_collateral_sats t) (vt_mint_micro_usd t) price) = min (c * p * 100 div m) 4294967295"
    using cr_bps_value [OF assms(1,3)] by (simp only: c_def m_def p_def)
  have ceil: "unat (crash_price_ceiling t) = min (l * m div (c * 100)) 4294967295"
    using ceiling_value [OF assms(2)] by (simp only: c_def m_def l_def)
  have le: "c * p * 100 div m \<le> l" if "p \<le> l * m div (c * 100)"
  proof -
    have "p * (c * 100) \<le> l * m" using that pos by (simp add: less_eq_div_iff_mult_less_eq)
    then have "c * p * 100 \<le> l * m" by (simp add: ac_simps)
    then show ?thesis using pos div_le_mono [of "c * p * 100" "l * m" m] by simp
  qed
  have ge: "l \<le> c * p * 100 div m" if "l * m div (c * 100) < p"
  proof -
    have "l * m < p * (c * 100)" using that pos by (simp add: div_less_iff_less_mult)
    then have "l * m \<le> c * p * 100" by (simp add: ac_simps)
    then show ?thesis using pos by (simp add: less_eq_div_iff_mult_less_eq)
  qed
  show ?thesis
  proof (cases "price \<le> crash_price_ceiling t")
    case True
    then have "p \<le> l * m div (c * 100)" by (simp add: word_le_nat_alt ceil flip: p_def)
    from le [OF this] True show ?thesis by (simp add: word_le_nat_alt cr flip: l_def)
  next
    case False
    then have "l * m div (c * 100) < p" using small by (simp add: word_le_nat_alt ceil flip: p_def)
    from ge [OF this] False small show ?thesis by (simp add: word_le_nat_alt cr flip: l_def)
  qed
qed

text \<open>The terms of the source's own tests: a thousand dollars at 150 percent of 64000.\<close>

definition sample_terms :: VaultTerms where
  "sample_terms = \<lparr>vt_collateral_sats = 2343750, vt_mint_micro_usd = 1000000000,
     vt_opening_cr_bps = 15000, vt_liq_cr_bps = 11000, vt_checkpoint_interval = 144,
     vt_maturity_height = 900000, vt_m = 6, vt_penalty_bps = 500, vt_oracle_event_series = fill 7\<rparr>"

definition sample_params :: PayoutParams where
  "sample_params = \<lparr>pp_penalty_bps = 500, pp_bounty_bps_of_penalty = 1000,
     pp_bounty_cap_sats = 5000, pp_fee_budget_sats = 300\<rparr>"

lemma sample_ceiling: "crash_price_ceiling sample_terms = 46933"
  by (rule word_unat_eq_iff [THEN iffD2], subst ceiling_value) (simp_all add: sample_terms_def)

lemma sample_m: "vt_m sample_terms = 6"
  by (simp add: sample_terms_def)

lemma crash_ceiling_witness:
  "cr_bps 2343750 1000000000 46933 \<le> 11000 \<and> (11000 :: u32) \<le> cr_bps 2343750 1000000000 46934"
  using crash_ceiling [of sample_terms 46933] crash_ceiling [of sample_terms 46934]
  unfolding sample_ceiling by (simp add: sample_terms_def)

text \<open>
  C22: A settlement pays out exactly the collateral less the fee budget, whatever the price and the
  parameters: no sum wraps, and the bounty stays within its cap. As long as the bounty is set to at most
  the whole penalty (10000 basis points, which nothing checks) the reserve is owed its face first: it is
  short only when the minter gets nothing.
\<close>

theorem crash_payout_exact:
  "case crash_payout collateral mint price pp of po \<Rightarrow>
     unat (po_reserve_sats po) + unat (po_broadcaster_sats po) + unat (po_minter_sats po)
       = unat collateral - unat (pp_fee_budget_sats pp)
     \<and> payout_total po = saturating_sub collateral (pp_fee_budget_sats pp)
     \<and> po_broadcaster_sats po \<le> pp_bounty_cap_sats pp
     \<and> (10000 < unat (pp_bounty_bps_of_penalty pp)
          \<or> reserve_shortfall_sats po mint price = 0 \<or> po_minter_sats po = 0)"
proof -
  let ?face = "face_sats mint price"
  let ?spend = "saturating_sub collateral (pp_fee_budget_sats pp)"
  define pen where "pen = (ucast (ucast ?face * ucast (pp_penalty_bps pp) div 10000 :: u128) :: u64)"
  define b0 where "b0 = (ucast (ucast pen * ucast (pp_bounty_bps_of_penalty pp) div 10000 :: u128) :: u64)"
  define b where "b = min (min b0 (pp_bounty_cap_sats pp)) ?spend"
  define w where "w = saturating_sub (saturating_add ?face pen) b"
  define r where "r = min w (?spend - b)"
  have po: "crash_payout collateral mint price pp =
      \<lparr>po_reserve_sats = r, po_broadcaster_sats = b, po_minter_sats = ?spend - b - r\<rparr>"
    unfolding crash_payout_def Let_def r_def w_def b_def b0_def pen_def ..
  have le: "b \<le> ?spend" "r \<le> ?spend - b" "b \<le> pp_bounty_cap_sats pp"
    by (simp_all add: b_def r_def min.coboundedI1)
  have bounty: "unat b \<le> unat pen" if "unat (pp_bounty_bps_of_penalty pp) \<le> 10000"
  proof -
    have "unat pen * unat (pp_bounty_bps_of_penalty pp) \<le> unat pen * 10000"
      using that by (rule mult_le_mono2)
    then have "unat pen * unat (pp_bounty_bps_of_penalty pp) div 10000 \<le> unat pen"
      using div_le_mono [of "unat pen * unat (pp_bounty_bps_of_penalty pp)" "unat pen * 10000" 10000] by simp
    moreover from this have "unat b0 = unat pen * unat (pp_bounty_bps_of_penalty pp) div 10000"
      unfolding b0_def using unat_le_u64 [of pen]
      by (intro narrow_u64_eq) (simp_all add: unat_div_distrib)
    ultimately show ?thesis by (simp add: b_def unat_min)
  qed
  have covered: "?spend - b - r = 0" if "unat (pp_bounty_bps_of_penalty pp) \<le> 10000" "saturating_sub ?face r \<noteq> 0"
  proof -
    have short: "unat r < unat ?face"
      using that(2) by (simp add: saturating_sub_def word_less_nat_alt word_le_nat_alt split: if_splits)
        (metis diff_self le_eq_less_or_eq not_le word_unat_eq_iff)
    have w: "unat w = min (unat ?face + unat pen) 18446744073709551615 - unat b"
      by (simp add: w_def unat_saturating_sub unat_saturating_add)
    have "unat ?spend \<le> 18446744073709551615" by (rule unat_le_u64)
    moreover have "unat (?spend - b) = unat ?spend - unat b"
      using le(1) by (simp add: unat_sub word_le_nat_alt)
    moreover from this have "unat r = min (unat w) (unat ?spend - unat b)"
      by (simp add: r_def unat_min)
    ultimately have "unat r = unat ?spend - unat b"
      using short bounty [OF that(1)] w by linarith
    then have "unat (?spend - b) = unat r"
      using le(1) by (simp add: unat_sub word_le_nat_alt)
    then show ?thesis by (simp add: word_unat_eq_iff [symmetric])
  qed
  have "unat r + unat b + unat (?spend - b - r) = unat collateral - unat (pp_fee_budget_sats pp)"
    using split_exact(1) [OF le(1,2)] by (simp add: unat_saturating_sub)
  moreover have "r + b + (?spend - b - r) = ?spend" by simp
  moreover have "10000 < unat (pp_bounty_bps_of_penalty pp) \<or> saturating_sub ?face r = 0 \<or> ?spend - b - r = 0"
    using covered by linarith
  ultimately show ?thesis
    using le(3) by (simp add: po payout_total_def reserve_shortfall_sats_def)
qed

text \<open>A bounty of three times the penalty leaves the reserve short while the minter is paid.\<close>

lemma oversized_bounty_shorts_reserve:
  "case crash_payout 2000 1000000 100000 \<lparr>pp_penalty_bps = 1000, pp_bounty_bps_of_penalty = 30000,
      pp_bounty_cap_sats = 1000, pp_fee_budget_sats = 0\<rparr> of po \<Rightarrow>
    reserve_shortfall_sats po 1000000 100000 = 200 \<and> po_minter_sats po = 900"
proof -
  have "face_sats 1000000 100000 = 1000"
    by (simp add: face_sats_def Let_def word_unat_eq_iff unat_min_u64 SATS_PER_BTC_def MICRO_PER_USD_def)
  then show ?thesis
    by (simp add: crash_payout_def reserve_shortfall_sats_def saturating_sub_def saturating_add_def Let_def)
qed


text \<open>
  An option's two legs are always the whole collateral, at every price but zero, where the
  division panics. The holder's leg is the face, rounded down, as far as the collateral goes, at any
  price of at least a hundred dollars.
\<close>

theorem payout_legs:
  "case payout_at t price :: ('e, _) res of
     Panic \<Rightarrow> price = 0
   | Err e \<Rightarrow> False
   | Ok (p, n) \<Rightarrow> price \<noteq> 0 \<and> unat p + unat n = unat (vt_collateral_sats t)
       \<and> (price < 100 \<or> unat p = min (unat (vt_mint_micro_usd t) * 100 div unat price) (unat (vt_collateral_sats t)))"
proof -
  let ?m = "vt_mint_micro_usd t" and ?c = "vt_collateral_sats t"
  have mb: "unat ?m \<le> 18446744073709551615" "unat price \<le> 4294967295"
    by (rule unat_le_u64 unat_le_u32)+
  have a: "unat (ucast ?m * SATS_PER_BTC :: u128) = unat ?m * 100000000"
    using mb by (subst wide_mul) (simp_all add: SATS_PER_BTC_def)
  have b: "unat (ucast price * MICRO_PER_USD :: u128) = unat price * 1000000"
    using mb by (subst wide_mul) (simp_all add: MICRO_PER_USD_def)
  have z: "ucast price * MICRO_PER_USD = (0 :: u128) \<longleftrightarrow> price = 0"
    by (simp add: unat_eq_0 [symmetric] b del: unat_eq_0)
  define f where "f = (ucast (ucast ?m * SATS_PER_BTC div (ucast price * MICRO_PER_USD) :: u128) :: u64)"
  have po: "payout_at t price = (if price = 0 then Panic else Ok (min f ?c, ?c - min f ?c))"
    by (simp add: payout_at_def Let_def z f_def)
  have sum: "unat (min f ?c) + unat (?c - min f ?c) = unat ?c"
    by (subst unat_sub) (simp_all add: unat_min)
  have f: "unat f = unat ?m * 100 div unat price" if "\<not> price < 100"
  proof -
    have p: "100 \<le> unat price" using that by (simp add: word_less_nat_alt not_less)
    have "unat ?m * 100000000 div (unat price * 1000000) = unat ?m * 100 div unat price"
      using div_mult_mult1 [of 1000000 "unat ?m * 100" "unat price"] by (simp add: ac_simps)
    then have v: "unat (ucast ?m * SATS_PER_BTC div (ucast price * MICRO_PER_USD) :: u128) = unat ?m * 100 div unat price"
      by (simp add: unat_div_distrib a b)
    have "unat ?m * 100 div unat price \<le> unat ?m * 100 div 100" using p by (rule div_le_mono2 [rotated]) simp
    then have "unat ?m * 100 div unat price < 18446744073709551616" using mb(1) by simp
    with v show ?thesis unfolding f_def by (rule narrow_u64_eq)
  qed
  show ?thesis
  proof (cases "price < 100")
    case True
    then show ?thesis using sum by (simp add: po)
  next
    case False
    then show ?thesis using sum f by (auto simp: po unat_min)
  qed
qed

section \<open>Buckets\<close>

text \<open>A number of prefix digits the schedule accepts.\<close>

definition prefix_ok :: "u8 \<Rightarrow> bool" where
  "prefix_ok m = (1 \<le> m \<and> m \<le> 20)"

lemma prefix_nat: "prefix_ok m \<Longrightarrow> 1 \<le> unat m \<and> unat m \<le> 20"
  by (simp add: prefix_ok_def word_le_nat_alt)

lemma width_shift: "prefix_ok m \<Longrightarrow> shift_amount (NB_DIGITS - ucast m) = 20 - unat m"
  using prefix_nat [of m] by (simp add: shift_amount_def NB_DIGITS_def unat_sub word_le_nat_alt unat_ucast_up)

lemma unat_width: "unat (push_bit (20 - k) 1 :: u32) = 2 ^ (20 - k)"
proof -
  have "(2 :: nat) ^ (20 - k) < 2 ^ LENGTH(32)" by (rule power_strict_increasing) auto
  then have "take_bit LENGTH(32) (2 ^ (20 - k)) = (2 ^ (20 - k) :: nat)"
    by (simp only: take_bit_nat_eq_self_iff)
  moreover have "unat (push_bit (20 - k) 1 :: u32) = take_bit LENGTH(32) (push_bit (20 - k) (unat (1 :: u32)))"
    by (rule unsigned_push_bit_eq)
  ultimately show ?thesis by (simp only: unat_1 push_bit_eq_mult [where 'a = nat] mult_1)
qed

lemma width_full: "prefix_ok m \<Longrightarrow> 2 ^ unat m * 2 ^ (20 - unat m) = (1048576 :: nat)"
  using prefix_nat [of m] by (simp flip: power_add)

lemma schedule_is:
  assumes "prefix_ok m"
  shows "bucket_schedule m f =
    Ok (map (\<lambda>i. bucket_at (push_bit (20 - unat m) 1) f (word_of_nat i)) [0 ..< 2 ^ unat m])"
proof -
  have "ucast m \<le> NB_DIGITS"
    using prefix_nat [OF assms] by (simp add: NB_DIGITS_def word_le_nat_alt unat_ucast_up)
  moreover have "1 \<le> m" using assms by (simp add: prefix_ok_def)
  ultimately show ?thesis by (simp add: bucket_schedule_def width_shift [OF assms])
qed

lemma bucket_bounds:
  assumes "prefix_ok m" and "i < 2 ^ unat m"
    and b: "b = bucket_at (push_bit (20 - unat m) 1) f (word_of_nat i)"
  shows "unat (cb_index b) = i" "unat (cb_price_lo b) = i * 2 ^ (20 - unat m)"
    "unat (cb_price_hi b) = i * 2 ^ (20 - unat m) + 2 ^ (20 - unat m)"
proof -
  define W where "W = (push_bit (20 - unat m) 1 :: u32)"
  define w where "w = (2 ^ (20 - unat m) :: nat)"
  have W: "unat W = w" by (simp only: W_def w_def unat_width)
  have pos: "1 \<le> w" by (simp add: w_def)
  have "(i + 1) * w \<le> 2 ^ unat m * w" using assms(2) by (intro mult_le_mono1) simp
  then have le: "i * w + w \<le> 1048576" using width_full [OF assms(1)] by (simp add: w_def)
  have "i * 1 \<le> i * w" using pos by (rule mult_le_mono2)
  then have "i \<le> 1048576" using le by linarith
  then have "i < 2 ^ LENGTH(32)" by simp
  then have ui: "unat (word_of_nat i :: u32) = i" by (rule unat_word_of_nat)
  show "unat (cb_index b) = i" by (simp add: b bucket_at_def ui Let_def)
  have lo: "unat (word_of_nat i * W) = i * w"
    using le by (subst unat_mult_lem [THEN iffD1]) (simp_all add: ui W)
  then show "unat (cb_price_lo b) = i * 2 ^ (20 - unat m)"
    by (simp only: b bucket_at_def Let_def CetBucket.simps w_def W_def)
  have "unat (word_of_nat i * W + W) = i * w + w"
    using le by (subst unat_add_lem [THEN iffD1]) (simp_all add: lo W)
  then show "unat (cb_price_hi b) = i * 2 ^ (20 - unat m) + 2 ^ (20 - unat m)"
    by (simp only: b bucket_at_def Let_def CetBucket.simps w_def W_def)
qed

lemma unat_bucket_of:
  assumes "prefix_ok m"
  shows "unat (bucket_of p m) = min (unat p) 1048575 div 2 ^ (20 - unat m)"
proof -
  have "unat (push_bit (shift_amount NB_DIGITS) 1 - 1 :: u32) = 1048575"
    by (simp add: shift_amount_def NB_DIGITS_def push_bit_eq_mult)
  then have "unat (min p (push_bit (shift_amount NB_DIGITS) 1 - 1)) = min (unat p) 1048575"
    by (simp add: unat_min)
  then have "unat (drop_bit (20 - unat m) (min p (push_bit (shift_amount NB_DIGITS) 1 - 1)))
      = min (unat p) 1048575 div 2 ^ (20 - unat m)"
    by (simp only: unat_drop_bit_eq drop_bit_eq_div [where 'a = nat])
  then show ?thesis by (simp only: bucket_of_def Let_def width_shift [OF assms])
qed

lemma bucket_of_less: "prefix_ok m \<Longrightarrow> unat (bucket_of p m) < 2 ^ unat m"
  using width_full [of m] by (simp add: unat_bucket_of less_mult_imp_div_less)

lemma in_bucket_iff:
  assumes "prefix_ok m"
  shows "i * 2 ^ (20 - unat m) \<le> min (unat p) 1048575
     \<and> min (unat p) 1048575 < i * 2 ^ (20 - unat m) + 2 ^ (20 - unat m) \<longleftrightarrow> i = unat (bucket_of p m)"
proof -
  have "i * w \<le> n \<and> n < i * w + w \<longleftrightarrow> i = n div w" if "0 < w" for n w :: nat
    using that div_nat_eqI [of w i n] dividend_less_div_times [OF that, of n] by (auto simp: ac_simps)
  from this [of "2 ^ (20 - unat m)" "min (unat p) 1048575"] show ?thesis
    unfolding unat_bucket_of [OF assms] by simp
qed


lemma filter_upt_single: "k < n \<Longrightarrow> filter (\<lambda>i. i = k) [0 ..< n] = [k]"
  by (induction n) (auto simp: filter_empty_conv less_Suc_eq)

text \<open>
  The bucket schedule panics exactly outside 1 to 20 prefix digits; inside, its buckets are the
  consecutive price ranges of one width, and of them exactly the one numbered \<open>bucket_of p\<close> holds
  the price \<open>p\<close> (prices above the last one count as the last one).
\<close>

theorem buckets_partition:
  "if prefix_ok m then
     \<exists>buckets. bucket_schedule m f = (Ok buckets :: ('e, _) res) \<and> length buckets = 2 ^ unat m
       \<and> unat (bucket_of p m) < length buckets
       \<and> map (\<lambda>b. unat (cb_price_lo b)) buckets @ [1048576]
           = map (\<lambda>i. i * 2 ^ (20 - unat m)) [0 ..< 2 ^ unat m + 1]
       \<and> map (\<lambda>b. unat (cb_price_hi b)) buckets = tl (map (\<lambda>b. unat (cb_price_lo b)) buckets @ [1048576])
       \<and> filter (\<lambda>b. unat (cb_price_lo b) \<le> min (unat p) 1048575 \<and> min (unat p) 1048575 < unat (cb_price_hi b)) buckets
           = [buckets ! unat (bucket_of p m)]
       \<and> cb_index (buckets ! unat (bucket_of p m)) = bucket_of p m
   else bucket_schedule m f = (Panic :: ('e, _) res)"
proof (cases "prefix_ok m")
  case False
  then have "\<not> (1 \<le> m \<and> ucast m \<le> NB_DIGITS)"
    by (simp add: prefix_ok_def NB_DIGITS_def word_le_nat_alt unat_ucast_up)
  with False show ?thesis by (simp add: bucket_schedule_def)
next
  case True
  define w where "w = (2 ^ (20 - unat m) :: nat)"
  define n where "n = (2 ^ unat m :: nat)"
  define B where "B i = bucket_at (push_bit (20 - unat m) 1) f (word_of_nat i)" for i
  have full: "n * w = 1048576" using width_full [OF True] by (simp only: n_def w_def)
  have B: "unat (cb_index (B i)) = i" "unat (cb_price_lo (B i)) = i * w" "unat (cb_price_hi (B i)) = i * w + w"
    if "i < n" for i
    using bucket_bounds [OF True _ B_def [of i]] that by (simp_all only: n_def w_def)
  let ?k = "unat (bucket_of p m)"
  have k: "?k < n" using bucket_of_less [OF True] by (simp only: n_def)
  have lows: "map (\<lambda>b. unat (cb_price_lo b)) (map B [0 ..< n]) @ [1048576] = map (\<lambda>i. i * w) [0 ..< n + 1]"
    using full by (simp add: B)
  have highs: "map (\<lambda>b. unat (cb_price_hi b)) (map B [0 ..< n]) = tl (map (\<lambda>i. i * w) [0 ..< n + 1])"
    by (rule nth_equalityI) (simp_all add: B nth_tl del: upt_Suc)
  have len: "length (map B [0 ..< n]) = n" by simp
  have "filter (\<lambda>b. unat (cb_price_lo b) \<le> min (unat p) 1048575 \<and> min (unat p) 1048575 < unat (cb_price_hi b))
      (map B [0 ..< n]) = map B (filter (\<lambda>i. i = ?k) [0 ..< n])"
    unfolding filter_map o_def
    by (rule arg_cong [where f = "map B"], rule filter_cong)
      (use in_bucket_iff [OF True, of _ p] in \<open>simp_all add: B flip: w_def\<close>)
  also have "filter (\<lambda>i. i = ?k) [0 ..< n] = [?k]"
    using k by (rule filter_upt_single)
  finally have one: "filter (\<lambda>b. unat (cb_price_lo b) \<le> min (unat p) 1048575 \<and> min (unat p) 1048575 < unat (cb_price_hi b))
      (map B [0 ..< n]) = [map B [0 ..< n] ! ?k]"
    using k by simp
  have "cb_index (map B [0 ..< n] ! ?k) = bucket_of p m"
    using B(1) [OF k] k by (simp add: word_unat_eq_iff)
  moreover have "bucket_schedule m f = (Ok (map B [0 ..< n]) :: ('e, _) res)"
    unfolding B_def [abs_def] n_def by (rule schedule_is [OF True])
  ultimately show ?thesis
    unfolding if_P [OF True] n_def [symmetric] w_def [symmetric]
    using k lows highs one len
    by (intro exI [of _ "map B [0 ..< n]"] conjI) (simp_all only: lows)
qed


lemma crash_schedule_is:
  assumes "prefix_ok (vt_m t)"
  shows "crash_schedule t pp = Ok (map (crash_cet t pp) (filter (\<lambda>b. cb_price_lo b < crash_price_ceiling t)
    (map (\<lambda>i. bucket_at (push_bit (20 - unat (vt_m t)) 1) (\<lambda>_. 0) (word_of_nat i)) [0 ..< 2 ^ unat (vt_m t)])))"
  by (simp add: crash_schedule_def schedule_is [OF assms] Let_def)

lemma presigned_iff:
  assumes ok: "prefix_ok (vt_m t)" and cets: "crash_schedule t pp = (Ok cets :: ('e, _) res)"
  shows "bucket_of p (vt_m t) \<in> cc_bucket_index ` set cets \<longleftrightarrow>
    unat (bucket_of p (vt_m t)) * 2 ^ (20 - unat (vt_m t)) < unat (crash_price_ceiling t)"
proof -
  let ?w = "20 - unat (vt_m t)"
  define B where "B i = bucket_at (push_bit ?w 1) (\<lambda>_. 0) (word_of_nat i)" for i
  have B: "unat (cb_index (B i)) = i" "unat (cb_price_lo (B i)) = i * 2 ^ ?w" if "i < 2 ^ unat (vt_m t)" for i
    using bucket_bounds [OF ok that B_def [of i]] by simp_all
  have "crash_schedule t pp = (Ok (map (crash_cet t pp)
      (filter (\<lambda>b. cb_price_lo b < crash_price_ceiling t) (map B [0 ..< 2 ^ unat (vt_m t)]))) :: ('e, _) res)"
    unfolding B_def [abs_def] by (rule crash_schedule_is [OF ok])
  then have "cc_bucket_index ` set cets = cb_index ` {b \<in> B ` {0 ..< 2 ^ unat (vt_m t)}. cb_price_lo b < crash_price_ceiling t}"
    using cets by (simp add: image_image crash_cet_def Let_def)
  moreover have "bucket_of p (vt_m t) \<in> cb_index ` {b \<in> B ` {0 ..< 2 ^ unat (vt_m t)}. cb_price_lo b < crash_price_ceiling t}
      \<longleftrightarrow> unat (bucket_of p (vt_m t)) * 2 ^ ?w < unat (crash_price_ceiling t)" (is "_ \<in> cb_index ` ?S \<longleftrightarrow> ?k * _ < _")
  proof
    assume "bucket_of p (vt_m t) \<in> cb_index ` ?S"
    then obtain i where i: "i < 2 ^ unat (vt_m t)" "cb_price_lo (B i) < crash_price_ceiling t" "bucket_of p (vt_m t) = cb_index (B i)"
      by auto
    then show "?k * 2 ^ ?w < unat (crash_price_ceiling t)" using B [OF i(1)] by (simp add: word_less_nat_alt)
  next
    assume "?k * 2 ^ ?w < unat (crash_price_ceiling t)"
    then have "B ?k \<in> ?S" using B(2) bucket_of_less [OF ok, of p] by (simp add: word_less_nat_alt)
    moreover have "cb_index (B ?k) = bucket_of p (vt_m t)"
      using B(1) bucket_of_less [OF ok, of p] by (simp add: word_unat_eq_iff)
    ultimately show "bucket_of p (vt_m t) \<in> cb_index ` ?S" by (metis (no_types, lifting) image_eqI)
  qed
  ultimately show ?thesis by simp
qed

text \<open>
  Every crash price strictly below the ceiling has its bucket pre-signed, and every pre-signed
  bucket starts below the ceiling, settles inside itself and pays out exactly the collateral less
  the fee budget.
\<close>

theorem crash_schedule_covers:
  assumes "prefix_ok (vt_m t)"
  shows "\<exists>cets. crash_schedule t pp = (Ok cets :: ('e, _) res)
    \<and> (crash_price_ceiling t \<le> p \<or> 1048575 < p \<or> bucket_of p (vt_m t) \<in> cc_bucket_index ` set cets)
    \<and> list_all (\<lambda>c. cc_price_lo c < crash_price_ceiling t
        \<and> cc_price_lo c \<le> cc_settle_price c \<and> cc_settle_price c \<le> cc_price_hi c
        \<and> payout_total (cc_payout c) = saturating_sub (vt_collateral_sats t) (pp_fee_budget_sats pp)) cets"
proof -
  let ?w = "20 - unat (vt_m t)"
  define B where "B i = bucket_at (push_bit ?w 1) (\<lambda>_. 0) (word_of_nat i)" for i
  define cets where "cets = map (crash_cet t pp)
      (filter (\<lambda>b. cb_price_lo b < crash_price_ceiling t) (map B [0 ..< 2 ^ unat (vt_m t)]))"
  have cets: "crash_schedule t pp = (Ok cets :: ('e, _) res)"
    unfolding cets_def B_def [abs_def] by (rule crash_schedule_is [OF assms])
  have covered: "bucket_of p (vt_m t) \<in> cc_bucket_index ` set cets" if "p < crash_price_ceiling t" "p \<le> 1048575"
  proof -
    have "unat (bucket_of p (vt_m t)) * 2 ^ ?w \<le> min (unat p) 1048575"
      using in_bucket_iff [OF assms, of "unat (bucket_of p (vt_m t))" p] by simp
    also have "\<dots> < unat (crash_price_ceiling t)" using that(1) by (simp add: word_less_nat_alt)
    finally show ?thesis using presigned_iff [OF assms cets] by simp
  qed
  have inside: "cb_price_lo (B i) \<le> cc_settle_price (crash_cet t pp (B i))
      \<and> cc_settle_price (crash_cet t pp (B i)) \<le> cb_price_hi (B i)" if i: "i < 2 ^ unat (vt_m t)" for i
  proof -
    note b = bucket_bounds [OF assms i B_def [of i]]
    have d: "unat (cb_price_hi (B i) - cb_price_lo (B i)) = 2 ^ ?w"
      using b by (simp add: unat_sub word_le_nat_alt)
    have "unat (cb_price_hi (B i)) \<le> 4294967295" by (rule unat_le_u32)
    then have "unat (cb_price_lo (B i) + (cb_price_hi (B i) - cb_price_lo (B i)) div 2) = i * 2 ^ ?w + 2 ^ ?w div 2"
      using b by (subst unat_add_lem [THEN iffD1]) (simp_all add: unat_div_distrib d)
    then show ?thesis using b by (simp add: crash_cet_def Let_def word_le_nat_alt)
  qed
  have "payout_total (cc_payout (crash_cet t pp b)) = saturating_sub (vt_collateral_sats t) (pp_fee_budget_sats pp)" for b
    by (simp add: crash_cet_def Let_def crash_payout_def payout_total_def)
  then have "list_all (\<lambda>c. cc_price_lo c < crash_price_ceiling t
        \<and> cc_price_lo c \<le> cc_settle_price c \<and> cc_settle_price c \<le> cc_price_hi c
        \<and> payout_total (cc_payout c) = saturating_sub (vt_collateral_sats t) (pp_fee_budget_sats pp)) cets"
    using inside by (auto simp: cets_def list_all_iff crash_cet_def Let_def)
  moreover have "crash_price_ceiling t \<le> p \<or> 1048575 < p \<or> bucket_of p (vt_m t) \<in> cc_bucket_index ` set cets"
    using covered by (meson not_le)
  ultimately show ?thesis using cets by blast
qed

lemma crash_schedule_covers_witness:
  "\<exists>cets. crash_schedule sample_terms sample_params = (Ok cets :: (unit, _) res)
     \<and> bucket_of 40960 6 \<in> cc_bucket_index ` set cets"
  using crash_schedule_covers [of sample_terms sample_params 40960]
  unfolding sample_ceiling sample_m by (auto simp: prefix_ok_def)

text \<open>
  The schedule filters on where a bucket starts, so its edges are not those of the crash region.
  With the terms of the source's own tests the price 49000, a healthy 114 percent, falls into a
  pre-signed bucket; and a vault whose ceiling is the first price of a bucket is in crash territory
  at that price with no bucket pre-signed for it.
\<close>

theorem schedule_edges:
  "(\<exists>cets. crash_schedule sample_terms sample_params = (Ok cets :: ('e, _) res)
      \<and> vt_liq_cr_bps sample_terms < cr_bps (vt_collateral_sats sample_terms) (vt_mint_micro_usd sample_terms) 49000
      \<and> bucket_of 49000 (vt_m sample_terms) \<in> cc_bucket_index ` set cets)
   \<and> (\<exists>t cets. crash_schedule t sample_params = (Ok cets :: ('e, _) res)
      \<and> cr_bps (vt_collateral_sats t) (vt_mint_micro_usd t) 32768 \<le> vt_liq_cr_bps t
      \<and> bucket_of 32768 (vt_m t) \<notin> cc_bucket_index ` set cets)"
proof (intro conjI)
  have ok: "prefix_ok (vt_m sample_terms)" by (simp add: prefix_ok_def sample_terms_def)
  obtain cets where c: "crash_schedule sample_terms sample_params = (Ok cets :: ('e, _) res)"
    using crash_schedule_is [OF ok] by blast
  have "bucket_of 49000 (vt_m sample_terms) \<in> cc_bucket_index ` set cets"
    unfolding presigned_iff [OF ok c] unat_bucket_of [OF ok] sample_ceiling by (simp add: sample_terms_def)
  moreover have "vt_liq_cr_bps sample_terms < cr_bps (vt_collateral_sats sample_terms) (vt_mint_micro_usd sample_terms) 49000"
    by (subst word_less_nat_alt, subst cr_bps_value) (simp_all add: sample_terms_def)
  ultimately show "\<exists>cets. crash_schedule sample_terms sample_params = (Ok cets :: ('e, _) res)
      \<and> vt_liq_cr_bps sample_terms < cr_bps (vt_collateral_sats sample_terms) (vt_mint_micro_usd sample_terms) 49000
      \<and> bucket_of 49000 (vt_m sample_terms) \<in> cc_bucket_index ` set cets"
    using c by blast
next
  let ?t = "sample_terms\<lparr>vt_collateral_sats := 100000000, vt_mint_micro_usd := 32768000000, vt_liq_cr_bps := 10000\<rparr>"
  have ok: "prefix_ok (vt_m ?t)" by (simp add: prefix_ok_def sample_terms_def)
  obtain cets where c: "crash_schedule ?t sample_params = (Ok cets :: ('e, _) res)"
    using crash_schedule_is [OF ok] by blast
  have "unat (crash_price_ceiling ?t) = 32768"
    by (subst ceiling_value) (simp_all add: sample_terms_def)
  then have "bucket_of 32768 (vt_m ?t) \<notin> cc_bucket_index ` set cets"
    unfolding presigned_iff [OF ok c] unat_bucket_of [OF ok] by (simp add: sample_terms_def)
  moreover have "cr_bps (vt_collateral_sats ?t) (vt_mint_micro_usd ?t) 32768 \<le> vt_liq_cr_bps ?t"
    by (subst word_le_nat_alt, subst cr_bps_value) (simp_all add: sample_terms_def)
  ultimately show "\<exists>t cets. crash_schedule t sample_params = (Ok cets :: ('e, _) res)
      \<and> cr_bps (vt_collateral_sats t) (vt_mint_micro_usd t) 32768 \<le> vt_liq_cr_bps t
      \<and> bucket_of 32768 (vt_m t) \<notin> cc_bucket_index ` set cets"
    using c by blast
qed

text \<open>
  The vault id commits to every term: two vaults with one id have the same terms, or their
  preimages are a SHA-256 collision.
\<close>

theorem vault_id_commits:
  assumes "vault_id C t = vault_id C t'"
  shows "t = t' \<or> sha_collides C (tag_input C VAULT_TAG (vault_encode t), tag_input C VAULT_TAG (vault_encode t'))"
proof -
  have "vault_encode t = vault_encode t' \<longleftrightarrow> t = t'"
    by (auto simp: vault_encode_def barr_append_peel bs_inject intro: VaultTerms.equality)
  with assms show ?thesis
    using tagged_collision [of C VAULT_TAG "vault_encode t" "vault_encode t'"] by (auto simp: vault_id_def)
qed

lemma vault_id_commits_witness:
  "\<exists>w. sha_collides const_crypto w"
  using vault_id_commits [of const_crypto sample_terms "sample_terms\<lparr>vt_m := 7\<rparr>"]
  by (auto simp: vault_id_def rail_tagged_hash_def sha256_def sample_terms_def)

end
