(* ===== verification/Text.thy ===== *)
theory Text
  imports RailCode
begin

text \<open>
  Numbers in text, as the standard library prints and parses them: \<^verbatim>\<open>format!("{n}")\<close>, and
  \<^verbatim>\<open>from_str_radix\<close> and \<^verbatim>\<open>str::parse\<close> for an unsigned type, which accept a leading plus sign and
  leading zeros. A \<^verbatim>\<open>&str\<close> is the list of its UTF-8 bytes.
\<close>

definition dec_digit :: "byte \<Rightarrow> nat option" where
  "dec_digit b = (if 48 \<le> b \<and> b \<le> 57 then Some (unat b - 48) else None)"

definition hex_digit :: "byte \<Rightarrow> nat option" where
  "hex_digit b =
     (if 48 \<le> b \<and> b \<le> 57 then Some (unat b - 48)
      else if 97 \<le> b \<and> b \<le> 102 then Some (unat b - 87)
      else if 65 \<le> b \<and> b \<le> 70 then Some (unat b - 55) else None)"

fun parse_digits :: "(byte \<Rightarrow> nat option) \<Rightarrow> nat \<Rightarrow> nat \<Rightarrow> bytes \<Rightarrow> nat \<Rightarrow> nat option" where
  "parse_digits dig base bound [] acc = Some acc"
| "parse_digits dig base bound (b # r) acc =
     (case dig b of
        None \<Rightarrow> None
      | Some d \<Rightarrow> let v = acc * base + d in
          if v < bound then parse_digits dig base bound r v else None)"

definition from_str_radix :: "(byte \<Rightarrow> nat option) \<Rightarrow> nat \<Rightarrow> nat \<Rightarrow> bytes \<Rightarrow> nat option" where
  "from_str_radix dig base bound s =
     (case s of
        [] \<Rightarrow> None
      | b # r \<Rightarrow>
          if r = [] \<and> (b = 43 \<or> b = 45) then None
          else if b = 43 then parse_digits dig base bound r 0
          else parse_digits dig base bound s 0)"

definition parse_u32 :: "bytes \<Rightarrow> u32 option" where
  "parse_u32 s = map_option word_of_nat (from_str_radix dec_digit 10 (2 ^ 32) s)"

definition parse_hex_u8 :: "bytes \<Rightarrow> byte option" where
  "parse_hex_u8 s = map_option word_of_nat (from_str_radix hex_digit 16 256 s)"

fun decimal :: "nat \<Rightarrow> bytes" where
  "decimal n = (if n < 10 then [word_of_nat (48 + n)]
     else decimal (n div 10) @ [word_of_nat (48 + n mod 10)])"

declare decimal.simps [simp del]

definition hex_char :: "nat \<Rightarrow> byte" where
  "hex_char n = word_of_nat (if n < 10 then 48 + n else 87 + n)"

definition hex_u8 :: "byte \<Rightarrow> bytes" where
  "hex_u8 b = [hex_char (unat b div 16), hex_char (unat b mod 16)]"

text \<open>\<^verbatim>\<open>str::is_char_boundary\<close>: a continuation byte starts no character.\<close>

fun hex_pairs :: "bytes \<Rightarrow> ('e, bytes option) res" where
  "hex_pairs (a # b # r) =
     (if utf8_tail a \<or> (r \<noteq> [] \<and> utf8_tail (hd r)) then Panic
      else case parse_hex_u8 [a, b] of
        None \<Rightarrow> Ok None
      | Some v \<Rightarrow> rbind (hex_pairs r) (\<lambda>rest. Ok (map_option (\<lambda>vs. v # vs) rest)))"
| "hex_pairs _ = Ok (Some [])"

text \<open>\<^verbatim>\<open>str::trim\<close>: the white space of Unicode, in UTF-8, off both ends.\<close>

definition ws_codes :: "bytes list" where
  "ws_codes = map (\<lambda>c. [c]) [9, 10, 11, 12, 13, 32] @ [[0xC2, 0x85], [0xC2, 0xA0], [0xE1, 0x9A, 0x80]]
     @ map (\<lambda>c. [0xE2, 0x80, c]) [0x80, 0x81, 0x82, 0x83, 0x84, 0x85, 0x86, 0x87, 0x88, 0x89, 0x8A, 0xA8, 0xA9, 0xAF]
     @ [[0xE2, 0x81, 0x9F], [0xE3, 0x80, 0x80]]"

function strip_codes :: "bytes list \<Rightarrow> bytes \<Rightarrow> bytes" where
  "strip_codes codes s =
     (case find (\<lambda>c. c \<noteq> [] \<and> take (length c) s = c) codes of
        None \<Rightarrow> s
      | Some c \<Rightarrow> strip_codes codes (drop (length c) s))"
  by pat_completeness auto
termination
proof (relation "measure (\<lambda>(codes, s). length s)")
  fix codes and s c :: bytes
  assume "find (\<lambda>c. c \<noteq> [] \<and> take (length c) s = c) codes = Some c"
  then have "c \<noteq> []" "take (length c) s = c" by (auto simp: find_Some_iff)
  then have "0 < length c" "s \<noteq> []" by auto
  then show "((codes, drop (length c) s), codes, s) \<in> measure (\<lambda>(codes, s). length s)" by simp
qed simp

declare strip_codes.simps [simp del]

definition trim :: "bytes \<Rightarrow> bytes" where
  "trim s = rev (strip_codes (map rev ws_codes) (rev (strip_codes ws_codes s)))"

section \<open>What is printed parses\<close>

lemma unat_char: "n < 10 \<Longrightarrow> unat (word_of_nat (48 + n) :: byte) = 48 + n"
  by (rule unat_word_of_nat) simp

lemma dec_digit_char: "n < 10 \<Longrightarrow> dec_digit (word_of_nat (48 + n)) = Some n"
  using unat_char [of n] by (simp add: dec_digit_def word_le_nat_alt)

lemma parse_digits_append:
  "parse_digits dig base bound (s @ r) acc =
     Option.bind (parse_digits dig base bound s acc) (parse_digits dig base bound r)"
  by (induction s arbitrary: acc) (auto simp: Let_def split: option.splits)

lemma decimal_Nil [simp]: "decimal n \<noteq> []"
  by (subst decimal.simps) simp

lemma parse_decimal: "n < bound \<Longrightarrow> parse_digits dec_digit 10 bound (decimal n) 0 = Some n"
proof (induction n rule: decimal.induct)
  case (1 n)
  show ?case
  proof (cases "n < 10")
    case True
    then show ?thesis
      using 1(2) dec_digit_char [OF True] by (subst decimal.simps) simp
  next
    case False
    then have "parse_digits dec_digit 10 bound (decimal (n div 10)) 0 = Some (n div 10)"
      using 1 by simp
    moreover have "decimal n = decimal (n div 10) @ [word_of_nat (48 + n mod 10)]"
      using False by (subst decimal.simps) simp
    ultimately show ?thesis
      using 1(2) dec_digit_char [of "n mod 10"] by (simp add: parse_digits_append)
  qed
qed

lemma decimal_digits: "b \<in> set (decimal n) \<Longrightarrow> 48 \<le> b \<and> b \<le> 57"
proof (induction n rule: decimal.induct)
  case (1 n)
  have char: "(48 :: byte) \<le> word_of_nat (48 + k) \<and> word_of_nat (48 + k) \<le> (57 :: byte)" if "k < 10" for k
    using unat_char [OF that] that by (simp add: word_le_nat_alt)
  show ?case
  proof (cases "n < 10")
    case True
    then show ?thesis using 1(2) char [of n] by (subst (asm) decimal.simps) auto
  next
    case False
    then have "decimal n = decimal (n div 10) @ [word_of_nat (48 + n mod 10)]"
      by (subst decimal.simps) simp
    then show ?thesis using 1 False char [of "n mod 10"] by auto
  qed
qed

lemma from_str_decimal:
  assumes "n < bound"
  shows "from_str_radix dec_digit 10 bound (decimal n) = Some n"
proof -
  obtain b r where d: "decimal n = b # r" by (cases "decimal n") simp_all
  have "b \<noteq> 43" "b \<noteq> 45" using decimal_digits [of b n] by (auto simp: d)
  then show ?thesis using parse_decimal [OF assms] by (simp add: from_str_radix_def d)
qed

lemma parse_u32_decimal: "parse_u32 (decimal (unat v)) = Some v"
  by (simp add: parse_u32_def from_str_decimal)

lemma decimal_inject: "decimal m = decimal n \<longleftrightarrow> m = n"
proof
  assume "decimal m = decimal n"
  moreover have "m < Suc (max m n)" "n < Suc (max m n)" by auto
  ultimately show "m = n" using from_str_decimal option.inject by metis
qed simp

lemma hex_char_digit: "n < 16 \<Longrightarrow> hex_digit (hex_char n) = Some n \<and> \<not> utf8_tail (hex_char n) \<and> hex_char n \<noteq> 43 \<and> hex_char n \<noteq> 58"
proof -
  assume n: "n < 16"
  then have u: "unat (hex_char n) = (if n < 10 then 48 + n else 87 + n)"
    by (simp only: hex_char_def) (rule unat_word_of_nat, simp)
  then show ?thesis
    using n u by (auto simp: hex_digit_def utf8_tail_def word_le_nat_alt word_unat_eq_iff split: if_splits)
qed

lemma parse_hex_u8_hex: "parse_hex_u8 (hex_u8 b) = Some b"
proof -
  have h: "unat b div 16 < 16" "unat b mod 16 < 16"
    using unat_lt_u8 [of b] by (simp_all add: div_less_iff_less_mult)
  have "unat b div 16 * 16 + unat b mod 16 = unat b" by (rule div_mult_mod_eq)
  moreover have "unat b div 16 < 256" using h(1) by linarith
  ultimately show ?thesis
    using hex_char_digit [OF h(1)] hex_char_digit [OF h(2)]
    by (simp add: parse_hex_u8_def hex_u8_def from_str_radix_def Let_def)
qed

lemma hex_pairs_hex: "hex_pairs (concat (map hex_u8 xs)) = Ok (Some xs)"
proof (induction xs)
  case (Cons b xs)
  have h: "unat b div 16 < 16" using unat_lt_u8 [of b] by (simp add: div_less_iff_less_mult)
  have "\<not> utf8_tail (hd (concat (map hex_u8 xs)))" if ne: "concat (map hex_u8 xs) \<noteq> []"
  proof -
    obtain c cs where "xs = c # cs" using ne by (cases xs) auto
    moreover have "unat c div 16 < 16" using unat_lt_u8 [of c] by (simp add: div_less_iff_less_mult)
    ultimately show ?thesis using hex_char_digit by (simp add: hex_u8_def)
  qed
  moreover have "\<not> utf8_tail (hex_char (unat b div 16))" using hex_char_digit [OF h] by simp
  moreover have "parse_hex_u8 [hex_char (unat b div 16), hex_char (unat b mod 16)] = Some b"
    using parse_hex_u8_hex [of b] by (simp add: hex_u8_def)
  moreover have "concat (map hex_u8 (b # xs)) =
      hex_char (unat b div 16) # hex_char (unat b mod 16) # concat (map hex_u8 xs)"
    using hex_u8_def [of b] by simp
  ultimately show ?case using Cons.IH by (auto simp del: concat.simps list.map)
qed simp

text \<open>Hexadecimal text is ASCII, and trimming leaves it as it is.\<close>

definition hex_digits :: "bytes" where
  "hex_digits = map hex_char [0 ..< 16]"

lemma nibble: "unat x div 16 < 16" for x :: u8
  by (rule less_mult_imp_div_less) (use unat_lt_u8 [of x] in simp)

lemma hex_text_digits: "set (concat (map hex_u8 b)) \<subseteq> set hex_digits"
  using nibble by (auto simp: hex_u8_def hex_digits_def)

lemma strip_hex:
  assumes "set s \<subseteq> set hex_digits" and "\<forall>c\<in>set codes. c \<noteq> [] \<longrightarrow> hd c \<notin> set hex_digits"
  shows "strip_codes codes s = s"
proof -
  have "hd c \<in> set s" if "c \<noteq> []" "take (length c) s = c" for c
    using that by (metis in_set_takeD list.set_sel(1))
  then have "find (\<lambda>c. c \<noteq> [] \<and> take (length c) s = c) codes = None"
    using assms by (fastforce simp: find_None_iff)
  then show ?thesis by (simp add: strip_codes.simps)
qed

lemma trim_hex: "set s \<subseteq> set hex_digits \<Longrightarrow> trim s = s"
proof -
  assume s: "set s \<subseteq> set hex_digits"
  have "strip_codes ws_codes s = s"
    by (rule strip_hex [OF s]) (auto simp: ws_codes_def hex_digits_def hex_char_def upt_rec)
  moreover have "strip_codes (map rev ws_codes) (rev s) = rev s"
    by (rule strip_hex) (use s in \<open>auto simp: ws_codes_def hex_digits_def hex_char_def upt_rec\<close>)
  ultimately show ?thesis by (simp add: trim_def)
qed

lemma ascii_utf8: "(\<And>c. c \<in> set s \<Longrightarrow> c < 0x80) \<Longrightarrow> utf8_ok s"
  by (induction s) auto

lemma hex_utf8: "set s \<subseteq> set hex_digits \<Longrightarrow> utf8_ok s"
proof (rule ascii_utf8)
  fix c assume "set s \<subseteq> set hex_digits" "c \<in> set s"
  then have "c \<in> set hex_digits" by blast
  then show "c < 0x80" by (auto simp: hex_digits_def hex_char_def upt_rec)
qed

end
