(* ===== verification/Rail0.thy ===== *)
theory Rail0
  imports Text Rail Market Poseidon
begin

text \<open>
  The issuance rail: the swap plan a quote commits to (\<^verbatim>\<open>satusd-rail0/src/plan.rs\<close>), its manifest
  (\<^verbatim>\<open>rail.rs\<close>), the burn key and the anchor point in text (\<^verbatim>\<open>burn_key.rs\<close>), and the observer's check of
  a settlement, which turns it into a settlement point of the marker
  (\<^verbatim>\<open>satusd-verify/src/settlement.rs\<close>). The decoder of a transaction into its outputs is the bitcoin
  crate's and a parameter.
\<close>

section \<open>The swap plan\<close>

definition LOCK_TEMPLATE_TAG :: string where
  "LOCK_TEMPLATE_TAG = ''SatUSD/rail0-lock-template/v1''"

definition DUST_FLOOR_SATS :: u64 where "DUST_FLOOR_SATS = 546"

definition fee_round_half_up :: "u64 \<Rightarrow> u16 \<Rightarrow> u64" where
  "fee_round_half_up amount bps = ucast ((ucast amount * ucast bps + 5000 :: u128) div 10000)"

datatype SwapPlanError = NotRail0 | RailIdMismatch | OverMaxSize | DustPayout

record SwapPlan =
  wp_rail_id :: b32
  wp_burn_micro_usd :: u64
  wp_gross_sats :: u64
  wp_service_fee_sats :: u64
  wp_user_sats :: u64
  wp_retained_sats :: u64

definition from_quote :: "crypto \<Rightarrow> RailManifest \<Rightarrow> Quote \<Rightarrow> (SwapPlanError, SwapPlan) res" where
  "from_quote C manifest quote =
     (if rm_oracle_spec manifest \<noteq> NoOracle \<or> rm_settle_primitive manifest \<noteq> AtomicSwap then Err NotRail0
      else if qt_rail_id quote \<noteq> rail_id C manifest then Err RailIdMismatch
      else let gross = user_sats quote in
      if gross > rm_max_size_sats manifest then Err OverMaxSize
      else let service = fee_round_half_up gross (fs_service_bps (rm_fee_schedule manifest));
               fixed = fs_fixed_sats (rm_fee_schedule manifest)
      in rbind (ok_or (case Option.bind (checked_sub gross service) (\<lambda>v. checked_sub v fixed) of
             None \<Rightarrow> None
           | Some v \<Rightarrow> if v \<ge> DUST_FLOOR_SATS then Some v else None) DustPayout) (\<lambda>user.
         Ok \<lparr>wp_rail_id = qt_rail_id quote, wp_burn_micro_usd = qt_amount_micro_usd quote,
             wp_gross_sats = gross, wp_service_fee_sats = service, wp_user_sats = user,
             wp_retained_sats = fee_round_half_up gross (fs_retain_bps (rm_fee_schedule manifest))\<rparr>))"

definition swap_plan_encode :: "SwapPlan \<Rightarrow> bytes" where
  "swap_plan_encode p = emit [
     put_bytes32 (wp_rail_id p),
     put_u64 (wp_burn_micro_usd p),
     put_u64 (wp_gross_sats p),
     put_u64 (wp_service_fee_sats p),
     put_u64 (wp_user_sats p),
     put_u64 (wp_retained_sats p)] []"

definition lock_template_commitment :: "crypto \<Rightarrow> SwapPlan \<Rightarrow> b32" where
  "lock_template_commitment C p = rail_tagged_hash C LOCK_TEMPLATE_TAG (swap_plan_encode p)"

definition matches_settlement :: "SwapPlan \<Rightarrow> u64 \<Rightarrow> u64 \<Rightarrow> bool" where
  "matches_settlement p burned_micro_usd user_output_sats \<longleftrightarrow>
     burned_micro_usd = wp_burn_micro_usd p \<and> user_output_sats = wp_user_sats p"

section \<open>The manifest\<close>

record Rail0Params =
  rz_asset_id :: b32
  rz_max_size_sats :: u64
  rz_committed_term :: u32
  rz_fee_schedule :: FeeSchedule
  rz_price_dev_bound_bps :: u16
  rz_quote_validity_s :: u32
  rz_lp_stake :: LpStake

datatype Rail0Error = ZeroPriceDevBound

definition rail0_manifest :: "Rail0Params \<Rightarrow> (Rail0Error, RailManifest) res" where
  "rail0_manifest p =
     (if rz_price_dev_bound_bps p = 0 then Err ZeroPriceDevBound
      else Ok \<lparr>rm_spec_version = SPEC_VERSION, rm_direction = Mint, rm_asset_id = rz_asset_id p,
        rm_oracle_spec = NoOracle, rm_settle_primitive = AtomicSwap,
        rm_max_size_sats = rz_max_size_sats p, rm_committed_term = rz_committed_term p,
        rm_fee_schedule = rz_fee_schedule p, rm_price_dev_bound_bps = rz_price_dev_bound_bps p,
        rm_quote_validity_s = rz_quote_validity_s p, rm_settle_window_s = rz_quote_validity_s p,
        rm_refund_delta_blocks = 0, rm_lp_stake = rz_lp_stake p, rm_dispute_hook = fill 0,
        rm_liveness_escape = NoEscape,
        rm_automation_tiers = [(SettleT, AnyoneCanAct), (DisputeT, AnyoneCanAct)]\<rparr>)"

section \<open>The settlement check\<close>

datatype SettlementError =
  SettlementRailIdMismatch | Plan SwapPlanError | CommitmentMismatch | PayoutMissing | BadTransaction

type_synonym tx_outputs = "bytes \<Rightarrow> (u64 \<times> bytes) list option"

definition verify_rail0_settlement ::
  "crypto \<Rightarrow> tx_outputs \<Rightarrow> RailManifest \<Rightarrow> Quote \<Rightarrow> bytes \<Rightarrow> bytes \<Rightarrow> (SettlementError, SettlementPoint) res" where
  "verify_rail0_settlement C decode manifest quote payout_script anchor_tx_bytes =
     (if qt_rail_id quote \<noteq> rail_id C manifest then Err SettlementRailIdMismatch
      else rbind (map_err Plan (from_quote C manifest quote)) (\<lambda>plan.
        if qt_lock_template_commitment quote \<noteq> lock_template_commitment C plan then Err CommitmentMismatch
        else rbind (ok_or (decode anchor_tx_bytes) BadTransaction) (\<lambda>outs.
          let paid = list_ex (\<lambda>(value, script). value = wp_user_sats plan \<and> script = payout_script) outs
          in if \<not> paid then Err PayoutMissing
             else Ok \<lparr>sp_price_msat_per_usd = qt_price_msat_per_usd quote,
                      sp_volume_micro_usd = qt_amount_micro_usd quote\<rparr>)))"

section \<open>The burn key\<close>

definition TAPD_NUMS_X :: b32 where
  "TAPD_NUMS_X = barr_of [
    0x7c, 0x79, 0xb9, 0xb2, 0x6e, 0x46, 0x38, 0x95, 0xee, 0xf5, 0x67, 0x9d, 0x85, 0x58, 0x94, 0x2c,
    0x86, 0xc4, 0xad, 0x22, 0x33, 0xad, 0xef, 0x01, 0xbc, 0x3e, 0x6d, 0x54, 0x0b, 0x36, 0x53, 0xfe]"

record PrevId =
  pv_txid_wire :: b32
  pv_vout :: u32
  pv_asset_id :: b32
  pv_script_key_xonly :: b32

definition burn_key_data :: "PrevId \<Rightarrow> bytes" where
  "burn_key_data prev =
     bs (pv_txid_wire prev) @ to_le (pv_vout prev) @ bs (pv_asset_id prev) @ bs (pv_script_key_xonly prev)"

definition derive_burn_key :: "crypto \<Rightarrow> PrevId \<Rightarrow> ('e, b32) res" where
  "derive_burn_key C prev = tap_tweak_data C TAPD_NUMS_X (burn_key_data prev)"

text \<open>The string is split at its first colon, byte 58.\<close>

definition parse_anchor_point :: "bytes \<Rightarrow> ('e, (b32 \<times> u32) option) res" where
  "parse_anchor_point s =
     (let txid_hex = takeWhile (\<lambda>b. b \<noteq> 58) s; rest = dropWhile (\<lambda>b. b \<noteq> 58) s in
      if rest = [] then Ok None
      else if length txid_hex \<noteq> 64 then Ok None
      else rbind (hex_pairs txid_hex) (\<lambda>txid.
        case txid of
          None \<Rightarrow> Ok None
        | Some txid \<Rightarrow> Ok (map_option (\<lambda>vout. (barr_of (rev txid), vout)) (parse_u32 (tl rest)))))"

text \<open>What an explorer shows for an outpoint.\<close>

definition anchor_point_text :: "b32 \<Rightarrow> u32 \<Rightarrow> bytes" where
  "anchor_point_text txid vout = concat (map hex_u8 (rev (bs txid))) @ [58] @ decimal (unat vout)"


section \<open>Properties\<close>

lemma fee_value:
  assumes "unat bps \<le> 10000"
  shows "unat (fee_round_half_up amount bps) = (unat amount * unat bps + 5000) div 10000"
proof -
  define x where "x = unat amount * unat bps"
  have x: "x \<le> 18446744073709551615 * 10000"
    unfolding x_def using assms unat_le_u64 [of amount] by (intro mult_le_mono)
  have "unat (ucast amount * ucast bps + 5000 :: u128) = x + 5000"
    using x by (subst wide_add) (simp_all flip: x_def)
  then have "unat ((ucast amount * ucast bps + 5000 :: u128) div 10000) = (x + 5000) div 10000"
    by (simp add: unat_div_distrib)
  then show ?thesis
    unfolding fee_round_half_up_def x_def [symmetric] by (rule narrow_u64_eq) (use x in linarith)
qed

lemma checked_chain:
  "(case Option.bind (checked_sub g s) (\<lambda>v. checked_sub v f) of
      None \<Rightarrow> None | Some v \<Rightarrow> if v \<ge> (d :: u64) then Some v else None) = Some u \<longleftrightarrow>
    unat g = unat u + unat s + unat f \<and> d \<le> u"
proof -
  have "unat g = unat u + unat s + unat f \<longleftrightarrow> s \<le> g \<and> f \<le> g - s \<and> u = g - s - f"
    by (auto simp: word_le_nat_alt unat_sub word_unat_eq_iff)
  then show ?thesis
    by (auto simp: checked_sub_def split: option.splits if_splits bind_splits)
qed

lemma from_quote_Ok:
  "from_quote C manifest quote = Ok p \<longleftrightarrow>
     rm_oracle_spec manifest = NoOracle \<and> rm_settle_primitive manifest = AtomicSwap
     \<and> qt_rail_id quote = rail_id C manifest \<and> user_sats quote \<le> rm_max_size_sats manifest
     \<and> (\<exists>u. unat (user_sats quote) = unat u + unat (fee_round_half_up (user_sats quote) (fs_service_bps (rm_fee_schedule manifest)))
             + unat (fs_fixed_sats (rm_fee_schedule manifest))
         \<and> DUST_FLOOR_SATS \<le> u
         \<and> p = \<lparr>wp_rail_id = rail_id C manifest, wp_burn_micro_usd = qt_amount_micro_usd quote,
             wp_gross_sats = user_sats quote,
             wp_service_fee_sats = fee_round_half_up (user_sats quote) (fs_service_bps (rm_fee_schedule manifest)),
             wp_user_sats = u,
             wp_retained_sats = fee_round_half_up (user_sats quote) (fs_retain_bps (rm_fee_schedule manifest))\<rparr>)"
  unfolding from_quote_def Let_def guard_Ok_iff rbind_Ok_iff ok_or_Ok_iff checked_chain
  by (auto simp: not_less)

text \<open>
  A quote yields a swap plan exactly when the manifest is a rail-0 one, the quote names it, the
  gross value at the quoted price is within the cap, and the gross is at least the service fee, the
  fixed fee and the dust floor together. The user then gets the gross less the two fees to the sat,
  and a fee of at most the whole amount is rounded half up.
\<close>

theorem from_quote_iff:
  "(from_quote C manifest quote = Ok p \<longleftrightarrow>
     rm_oracle_spec manifest = NoOracle \<and> rm_settle_primitive manifest = AtomicSwap
     \<and> qt_rail_id quote = rail_id C manifest \<and> wp_rail_id p = rail_id C manifest
     \<and> wp_burn_micro_usd p = qt_amount_micro_usd quote
     \<and> unat (wp_gross_sats p)
         = min (unat (qt_amount_micro_usd quote) * unat (qt_price_msat_per_usd quote) div 10 ^ 9) (2 ^ 64 - 1)
     \<and> wp_gross_sats p \<le> rm_max_size_sats manifest
     \<and> wp_service_fee_sats p = fee_round_half_up (wp_gross_sats p) (fs_service_bps (rm_fee_schedule manifest))
     \<and> wp_retained_sats p = fee_round_half_up (wp_gross_sats p) (fs_retain_bps (rm_fee_schedule manifest))
     \<and> unat (wp_gross_sats p) = unat (wp_user_sats p) + unat (wp_service_fee_sats p)
         + unat (fs_fixed_sats (rm_fee_schedule manifest))
     \<and> DUST_FLOOR_SATS \<le> wp_user_sats p)
   \<and> (10000 < unat bps
      \<or> unat (fee_round_half_up amount bps) = (unat amount * unat bps + 5000) div 10000)"
proof
  have gross: "wp_gross_sats p = user_sats quote \<longleftrightarrow> unat (wp_gross_sats p)
      = min (unat (qt_amount_micro_usd quote) * unat (qt_price_msat_per_usd quote) div 10 ^ 9) (2 ^ 64 - 1)"
    unfolding user_sats_value [symmetric] by (rule word_unat_eq_iff)
  show "from_quote C manifest quote = Ok p \<longleftrightarrow>
     rm_oracle_spec manifest = NoOracle \<and> rm_settle_primitive manifest = AtomicSwap
     \<and> qt_rail_id quote = rail_id C manifest \<and> wp_rail_id p = rail_id C manifest
     \<and> wp_burn_micro_usd p = qt_amount_micro_usd quote
     \<and> unat (wp_gross_sats p)
         = min (unat (qt_amount_micro_usd quote) * unat (qt_price_msat_per_usd quote) div 10 ^ 9) (2 ^ 64 - 1)
     \<and> wp_gross_sats p \<le> rm_max_size_sats manifest
     \<and> wp_service_fee_sats p = fee_round_half_up (wp_gross_sats p) (fs_service_bps (rm_fee_schedule manifest))
     \<and> wp_retained_sats p = fee_round_half_up (wp_gross_sats p) (fs_retain_bps (rm_fee_schedule manifest))
     \<and> unat (wp_gross_sats p) = unat (wp_user_sats p) + unat (wp_service_fee_sats p)
         + unat (fs_fixed_sats (rm_fee_schedule manifest))
     \<and> DUST_FLOOR_SATS \<le> wp_user_sats p"
    unfolding gross [symmetric] from_quote_Ok by (cases p) auto
  show "10000 < unat bps
      \<or> unat (fee_round_half_up amount bps) = (unat amount * unat bps + 5000) div 10000"
    using fee_value [of bps amount] by linarith
qed

text \<open>
  A settlement is accepted exactly when the quote names the manifest, its plan exists and is the
  one the quote's commitment stands for, and the decoded transaction pays the plan's sats to the
  user's script; the settlement point is then the quote's price and amount.
\<close>

theorem settlement_accepts:
  "verify_rail0_settlement C decode manifest quote script tx = Ok pt \<longleftrightarrow>
     (\<exists>plan outs. from_quote C manifest quote = Ok plan
        \<and> qt_lock_template_commitment quote = lock_template_commitment C plan
        \<and> decode tx = Some outs \<and> (wp_user_sats plan, script) \<in> set outs
        \<and> pt = \<lparr>sp_price_msat_per_usd = qt_price_msat_per_usd quote,
                sp_volume_micro_usd = qt_amount_micro_usd quote\<rparr>)"
proof -
  have "from_quote C manifest quote = Ok plan \<Longrightarrow> qt_rail_id quote = rail_id C manifest" for plan
    by (auto simp: from_quote_def res_simps)
  then show ?thesis
    by (auto simp: verify_rail0_settlement_def res_simps Let_def list_ex_iff)
qed

text \<open>Two plans under one commitment are one plan, or a SHA-256 collision.\<close>

lemma lock_commitment_binds:
  assumes "lock_template_commitment C plan = lock_template_commitment C plan'"
  shows "plan = plan' \<or> sha_collides C (tag_input C LOCK_TEMPLATE_TAG (swap_plan_encode plan),
    tag_input C LOCK_TEMPLATE_TAG (swap_plan_encode plan'))"
proof -
  have "swap_plan_encode plan = swap_plan_encode plan' \<longleftrightarrow> plan = plan'"
    by (auto simp: swap_plan_encode_def put_simps barr_append_peel intro: SwapPlan.equality)
  with assms show ?thesis
    using tagged_collision [of C LOCK_TEMPLATE_TAG "swap_plan_encode plan" "swap_plan_encode plan'"]
    by (auto simp: lock_template_commitment_def)
qed

text \<open>
  The anchor point an explorer shows parses back to its outpoint. The parser is looser than
  that form: signs and leading zeros, which the standard library's integer parsers allow, give
  other texts of the same outpoint.
\<close>

theorem anchor_point_round_trip:
  "parse_anchor_point (anchor_point_text txid vout) = (Ok (Some (txid, vout)) :: ('e, _) res)
   \<and> parse_anchor_point (concat (map hex_u8 (rev (bs txid))) @ [58, 43, 48] @ decimal (unat vout))
       = (Ok (Some (txid, vout)) :: ('e, _) res)"
proof -
  let ?hex = "concat (map hex_u8 (rev (bs txid)))"
  have colon: "b \<noteq> 58" if "b \<in> set ?hex" for b
  proof -
    from that obtain c :: byte where "b = hex_char (unat c div 16) \<or> b = hex_char (unat c mod 16)"
      by (auto simp: hex_u8_def)
    moreover have "unat c div 16 < 16" "unat c mod 16 < 16"
      using unat_lt_u8 [of c] by (simp_all add: div_less_iff_less_mult)
    ultimately show ?thesis
      using hex_char_digit [of "unat c div 16"] hex_char_digit [of "unat c mod 16"] by auto
  qed
  have len: "length ?hex = 64"
    by (simp add: length_concat o_def hex_u8_def sum_list_triv)
  have split: "takeWhile (\<lambda>b. b \<noteq> 58) (?hex @ 58 # r) = ?hex" "dropWhile (\<lambda>b. b \<noteq> 58) (?hex @ 58 # r) = 58 # r" for r
    using colon by (simp_all add: takeWhile_append dropWhile_append)
  have padded: "parse_u32 (43 # 48 # decimal (unat vout)) = Some vout"
  proof -
    have "parse_digits dec_digit 10 (2 ^ 32) (48 # decimal (unat vout)) 0 = Some (unat vout)"
      by (simp add: dec_digit_def parse_decimal)
    then show ?thesis by (simp add: parse_u32_def from_str_radix_def)
  qed
  show ?thesis
    using len split padded parse_u32_decimal [of vout]
    by (simp add: parse_anchor_point_def anchor_point_text_def hex_pairs_hex Let_def)
qed

end
