(* ===== verification/Curve.thy ===== *)
theory Curve
  imports RailCode
begin

text \<open>
  The secp256k1 crate as the program uses it. Secret keys, scalars, points and x-only keys are the
  byte arrays the crate converts them to; its operations are the fields of the record \<open>secp\<close>. What
  the crate documents of them is \<open>secp_laws\<close>: scalars add and multiply modulo the group order, with
  zero rejected, every point is a multiple of the generator and points add as their multipliers do,
  an x-only key stands for a point and its negation, and a signature verifies by the equation of
  BIP-340. \<open>dlog_secp\<close> is an instance, with a point represented by its multiplier.
\<close>

section \<open>Residues modulo the group order\<close>

definition order_n :: int where
  "order_n = 0xfffffffffffffffffffffffffffffffebaaedce6af48a03bbfd25e8cd0364141"

lemma order_n_pos [simp]: "0 < order_n" "1 < order_n" "order_n \<noteq> 0"
  by (simp_all add: order_n_def)

typedef zn = "{x :: int. 0 \<le> x \<and> x < order_n}"
  morphisms zrep abs_zn
  by (rule exI [of _ 0]) simp

definition zof :: "int \<Rightarrow> zn" where
  "zof x = abs_zn (x mod order_n)"

declare zrep_inverse [code abstype]

lemma zrep_zof [simp, code abstract]: "zrep (zof x) = x mod order_n"
  by (simp add: zof_def abs_zn_inverse)

lemma zrep_bounds [simp]: "0 \<le> zrep z" "zrep z < order_n"
  using zrep [of z] by simp_all

lemma zof_zrep [simp]: "zof (zrep z) = z"
  by (simp add: zrep_inject [symmetric] mod_pos_pos_trivial)

lemma zof_eq_iff: "zof x = zof y \<longleftrightarrow> x mod order_n = y mod order_n"
  by (metis zof_def zrep_zof)

lemma zn_eq_iff: "y = z \<longleftrightarrow> zrep y = zrep z"
  by (simp add: zrep_inject)

instantiation zn :: equal
begin

definition equal_zn :: "zn \<Rightarrow> zn \<Rightarrow> bool" where
  "equal_zn y z = (zrep y = zrep z)"

instance
  by standard (simp add: equal_zn_def zrep_inject)

end

instantiation zn :: comm_ring_1
begin

definition zero_zn :: zn where "zero_zn = zof 0"
definition one_zn :: zn where "one_zn = zof 1"
definition plus_zn :: "zn \<Rightarrow> zn \<Rightarrow> zn" where "plus_zn y z = zof (zrep y + zrep z)"
definition minus_zn :: "zn \<Rightarrow> zn \<Rightarrow> zn" where "minus_zn y z = zof (zrep y - zrep z)"
definition uminus_zn :: "zn \<Rightarrow> zn" where "uminus_zn y = zof (- zrep y)"
definition times_zn :: "zn \<Rightarrow> zn \<Rightarrow> zn" where "times_zn y z = zof (zrep y * zrep z)"

instance
proof
  fix a b c :: zn
  note defs = zero_zn_def one_zn_def plus_zn_def minus_zn_def uminus_zn_def times_zn_def zn_eq_iff
  show "a * b * c = a * (b * c)" by (simp add: defs mod_simps mult.assoc)
  show "a * b = b * a" by (simp add: defs mult.commute)
  show "1 * a = a" by (simp add: defs mod_simps)
  show "a + b + c = a + (b + c)" by (simp add: defs mod_simps add.assoc)
  show "a + b = b + a" by (simp add: defs add.commute)
  show "0 + a = a" by (simp add: defs)
  show "- a + a = 0" by (simp add: defs mod_simps)
  show "a - b = a + - b" by (simp add: defs mod_simps)
  show "(a + b) * c = a * c + b * c" by (simp add: defs mod_simps distrib_right)
  show "(0 :: zn) \<noteq> 1" by (simp add: defs)
qed

end

lemma zof_add: "zof (x + y) = zof x + zof y"
  by (simp add: plus_zn_def zof_eq_iff mod_simps)

lemma zof_mult: "zof (x * y) = zof x * zof y"
  by (simp add: times_zn_def zof_eq_iff mod_simps)

lemma zof_uminus: "zof (- x) = - zof x"
  by (simp add: uminus_zn_def zof_eq_iff mod_simps)

lemma zof_0 [simp]: "zof 0 = 0" and zof_1 [simp]: "zof 1 = 1"
  by (simp_all add: zero_zn_def one_zn_def)

lemma zof_power: "zof (x ^ k) = zof x ^ k"
  by (induction k) (simp_all add: zof_mult)

lemma zof_of_nat: "zof (int k) = of_nat k"
  by (induction k) (simp_all add: zof_add)

lemma zof_numeral [simp]: "zof (numeral k) = numeral k"
  using zof_of_nat [of "numeral k"] by simp

lemma zrep_0 [simp]: "zrep 0 = 0" and zrep_1 [simp]: "zrep 1 = 1"
  using zrep_zof [of 0] zrep_zof [of 1] by simp_all

lemma zrep_numeral: "zrep (numeral k) = numeral k mod order_n"
  using zrep_zof [of "numeral k"] by simp

lemma zrep_eq_0_iff [simp]: "zrep z = 0 \<longleftrightarrow> z = 0"
  using zn_eq_iff [of z 0] by simp

lemma zrep_uminus: "z \<noteq> 0 \<Longrightarrow> zrep (- z) = order_n - zrep z"
proof -
  assume "z \<noteq> 0"
  then have "0 < zrep z" using zrep_bounds(1) [of z] zrep_eq_0_iff [of z] by linarith
  then have "(order_n - zrep z) mod order_n = order_n - zrep z"
    by (intro mod_pos_pos_trivial) (simp_all add: less_imp_le)
  moreover have "(- zrep z) mod order_n = (order_n - zrep z) mod order_n"
    by (simp only: minus_mod_self1)
  ultimately show ?thesis unfolding uminus_zn_def zrep_zof by (simp only:)
qed

lemma zn_neq_uminus: "z \<noteq> 0 \<Longrightarrow> z \<noteq> - z" for z :: zn
proof
  assume "z \<noteq> 0" "z = - z"
  then have "zrep z = order_n - zrep z" using zrep_uminus [of z] by metis
  then have "2 * zrep z = order_n" by linarith
  then have "order_n mod 2 = 0" by (metis mod_mult_self1_is_0)
  then show False by (simp add: order_n_def)
qed

section \<open>Thirty-two bytes as a residue\<close>

definition num :: "b32 \<Rightarrow> int" where
  "num b = int (nat_of_be (bs b))"

definition val :: "b32 \<Rightarrow> zn" where
  "val b = zof (num b)"

definition enc :: "zn \<Rightarrow> b32" where
  "enc z = barr_of (nat_be 32 (nat (zrep z)))"

lemma order_n_256: "order_n < 2 ^ 256"
  by (simp add: order_n_def)

lemma num_enc [simp]: "num (enc z) = zrep z"
proof -
  have "zrep z < 2 ^ 256" using zrep_bounds(2) [of z] order_n_256 by linarith
  then have "nat (zrep z) < 256 ^ 32" by (simp add: nat_less_iff)
  then show ?thesis by (simp add: num_def enc_def nat_of_be_nat_be)
qed

lemma val_enc [simp]: "val (enc z) = z"
  by (simp add: val_def)

lemma num_nonneg [simp]: "0 \<le> num b"
  by (simp add: num_def)

lemma num_inject: "num a = num b \<longleftrightarrow> a = b"
  by (simp add: num_def nat_of_be_inject bs_inject)

lemma zrep_val: "num b < order_n \<Longrightarrow> zrep (val b) = num b"
  by (simp add: val_def mod_pos_pos_trivial)

lemma enc_val: "num b < order_n \<Longrightarrow> enc (val b) = b"
  by (simp add: num_inject [symmetric] zrep_val)

lemma val_0_iff: "num b < order_n \<Longrightarrow> val b = 0 \<longleftrightarrow> num b = 0"
  by (metis zrep_val zrep_eq_0_iff)

lemma num_less: "num b < 2 * order_n"
proof -
  have "num b < 256 ^ 32"
    unfolding num_def using nat_of_be_less [of "bs b"] by (simp add: nat_less_iff [symmetric])
  then show ?thesis by (simp add: order_n_def)
qed


section \<open>The crate\<close>

record secp =
  sk_ok :: "b32 \<Rightarrow> bool"
  sc_ok :: "b32 \<Rightarrow> bool"
  sk_neg :: "b32 \<Rightarrow> b32"
  sk_add :: "b32 \<Rightarrow> b32 \<Rightarrow> b32 option"
  sk_mul :: "b32 \<Rightarrow> b32 \<Rightarrow> b32 option"
  pk_of :: "b32 \<Rightarrow> b33"
  pk_ok :: "b33 \<Rightarrow> bool"
  pk_add :: "b33 \<Rightarrow> b33 \<Rightarrow> b33 option"
  pk_mul :: "b33 \<Rightarrow> b32 \<Rightarrow> b33 option"
  pk_xonly :: "b33 \<Rightarrow> b32"
  pk_odd :: "b33 \<Rightarrow> bool"
  x_ok :: "b32 \<Rightarrow> bool"
  x_even :: "b32 \<Rightarrow> b33"
  bip340_verify :: "b64 \<Rightarrow> b32 \<Rightarrow> b32 \<Rightarrow> bool"

definition sig_of :: "b32 \<Rightarrow> b32 \<Rightarrow> b64" where
  "sig_of r s = barr_of (bs r @ bs s)"

definition sig_r :: "b64 \<Rightarrow> b32" where
  "sig_r g = barr_of (take 32 (bs g))"

definition sig_s :: "b64 \<Rightarrow> b32" where
  "sig_s g = barr_of (drop 32 (bs g))"

lemma sig_r_of [simp]: "sig_r (sig_of r s) = r" and sig_s_of [simp]: "sig_s (sig_of r s) = s"
  by (simp_all add: sig_of_def sig_r_def sig_s_def)

lemma sig_of_parts [simp]: "sig_of (sig_r g) (sig_s g) = g"
  by (simp add: sig_of_def sig_r_def sig_s_def)

text \<open>The challenge of BIP-340 as a residue.\<close>

definition chal :: "crypto \<Rightarrow> b32 \<Rightarrow> b32 \<Rightarrow> b32 \<Rightarrow> zn" where
  "chal C r x m = val (rail_tagged_hash C ''BIP0340/challenge'' (bs r @ bs x @ bs m))"

definition nonzero :: "zn \<Rightarrow> b32 option" where
  "nonzero z = (if z = 0 then None else Some (enc z))"

definition point :: "secp \<Rightarrow> zn \<Rightarrow> b33" where
  "point S z = pk_of S (enc z)"

definition point_or_none :: "secp \<Rightarrow> zn \<Rightarrow> b33 option" where
  "point_or_none S z = (if z = 0 then None else Some (point S z))"

definition secp_laws :: "crypto \<Rightarrow> secp \<Rightarrow> bool" where
  "secp_laws C S \<longleftrightarrow>
     (\<forall>a. sk_ok S a \<longleftrightarrow> 0 < num a \<and> num a < order_n)
     \<and> (\<forall>a. sc_ok S a \<longleftrightarrow> num a < order_n)
     \<and> (\<forall>a. sk_ok S a \<longrightarrow> sk_neg S a = enc (- val a))
     \<and> (\<forall>a b. sk_ok S a \<and> sc_ok S b \<longrightarrow>
          sk_add S a b = nonzero (val a + val b) \<and> sk_mul S a b = nonzero (val a * val b))
     \<and> inj_on (point S) (- {0})
     \<and> (\<forall>p. pk_ok S p \<longleftrightarrow> p \<in> point S ` (- {0}))
     \<and> (\<forall>y z. y \<noteq> 0 \<and> z \<noteq> 0 \<longrightarrow> pk_add S (point S y) (point S z) = point_or_none S (y + z))
     \<and> (\<forall>y b. y \<noteq> 0 \<and> sc_ok S b \<longrightarrow> pk_mul S (point S y) b = point_or_none S (y * val b))
     \<and> (\<forall>z. z \<noteq> 0 \<longrightarrow> pk_xonly S (point S (- z)) = pk_xonly S (point S z)
          \<and> (pk_odd S (point S (- z)) \<longleftrightarrow> \<not> pk_odd S (point S z))
          \<and> x_even S (pk_xonly S (point S z)) = (if pk_odd S (point S z) then point S (- z) else point S z))
     \<and> (\<forall>x. x_ok S x \<longleftrightarrow> x \<in> (\<lambda>z. pk_xonly S (point S z)) ` (- {0}))
     \<and> (\<forall>r s m x. bip340_verify S (sig_of r s) m x \<longleftrightarrow>
          x_ok S x \<and> x_ok S r \<and> num s < order_n
          \<and> (\<exists>d k. d \<noteq> 0 \<and> k \<noteq> 0 \<and> x_even S x = point S d \<and> x_even S r = point S k
               \<and> val s = k + chal C r x m * d))"

section \<open>An instance\<close>

definition half_n :: int where "half_n = order_n div 2"

definition dlog_point :: "zn \<Rightarrow> b33" where
  "dlog_point z = (let odd = half_n < zrep z
     in barr_of ((if odd then 3 else 2) # bs (enc (if odd then - z else z))))"

definition dlog_x_ok :: "b32 \<Rightarrow> bool" where
  "dlog_x_ok x \<longleftrightarrow> 0 < num x \<and> num x \<le> half_n"

definition dlog_of :: "b33 \<Rightarrow> zn option" where
  "dlog_of p = (let t = hd (bs p); x = barr_of (tl (bs p)) :: b32 in
     if (t = 2 \<or> t = 3) \<and> dlog_x_ok x then Some (if t = 3 then - val x else val x) else None)"

definition dlog_lift :: "zn option \<Rightarrow> b33 option" where
  "dlog_lift z = Option.bind z (\<lambda>z. if z = 0 then None else Some (dlog_point z))"

definition dlog_verify :: "crypto \<Rightarrow> b64 \<Rightarrow> b32 \<Rightarrow> b32 \<Rightarrow> bool" where
  "dlog_verify C g m x \<longleftrightarrow> dlog_x_ok x \<and> dlog_x_ok (sig_r g) \<and> num (sig_s g) < order_n
     \<and> val (sig_s g) = val (sig_r g) + chal C (sig_r g) x m * val x"

definition dlog_secp :: "crypto \<Rightarrow> secp" where
  "dlog_secp C = \<lparr>
     sk_ok = (\<lambda>a. 0 < num a \<and> num a < order_n),
     sc_ok = (\<lambda>a. num a < order_n),
     sk_neg = (\<lambda>a. enc (- val a)),
     sk_add = (\<lambda>a b. nonzero (val a + val b)),
     sk_mul = (\<lambda>a b. nonzero (val a * val b)),
     pk_of = (\<lambda>a. dlog_point (val a)),
     pk_ok = (\<lambda>p. dlog_of p \<noteq> None),
     pk_add = (\<lambda>p q. case (dlog_of p, dlog_of q) of (Some y, Some z) \<Rightarrow> dlog_lift (Some (y + z)) | _ \<Rightarrow> None),
     pk_mul = (\<lambda>p b. case dlog_of p of Some y \<Rightarrow> dlog_lift (Some (y * val b)) | _ \<Rightarrow> None),
     pk_xonly = (\<lambda>p. barr_of (tl (bs p))),
     pk_odd = (\<lambda>p. hd (bs p) = 3),
     x_ok = dlog_x_ok,
     x_even = (\<lambda>x. dlog_point (val x)),
     bip340_verify = dlog_verify C\<rparr>"

lemma half_bounds: "0 < half_n" "2 * half_n + 1 = order_n"
  by (simp_all add: half_n_def order_n_def)

lemma bs_dlog_point:
  "bs (dlog_point z) = (if half_n < zrep z then 3 # bs (enc (- z)) else 2 # bs (enc z))"
  by (simp add: dlog_point_def Let_def)

lemma x_ok_enc: "z \<noteq> 0 \<Longrightarrow> dlog_x_ok (enc (if half_n < zrep z then - z else z))"
proof -
  assume z: "z \<noteq> 0"
  then have "0 < zrep z" using zrep_bounds(1) [of z] zrep_eq_0_iff [of z] by linarith
  then show ?thesis
    using half_bounds zrep_uminus [OF z] zrep_bounds(2) [of z] by (auto simp: dlog_x_ok_def)
qed

lemma dlog_of_point [simp]: "z \<noteq> 0 \<Longrightarrow> dlog_of (dlog_point z) = Some z"
  using x_ok_enc [of z] by (auto simp: dlog_of_def bs_dlog_point split: if_splits)

lemma x_ok_val:
  assumes "dlog_x_ok x"
  shows "enc (val x) = x" "val x \<noteq> 0" "\<not> half_n < zrep (val x)" "half_n < zrep (- val x)"
proof -
  from assms have b: "0 < num x" "num x \<le> half_n" "num x < order_n"
    using half_bounds by (auto simp: dlog_x_ok_def)
  show "enc (val x) = x" using b by (simp add: enc_val)
  have v: "zrep (val x) = num x" using b(3) by (rule zrep_val)
  show nz: "val x \<noteq> 0" using b(1) v by (metis less_irrefl zrep_0)
  show "\<not> half_n < zrep (val x)" using v b(2) by simp
  show "half_n < zrep (- val x)" using zrep_uminus [OF nz] v b half_bounds by simp
qed

lemma dlog_of_Some: "dlog_of p = Some z \<longleftrightarrow> z \<noteq> 0 \<and> p = dlog_point z"
proof
  assume d: "dlog_of p = Some z"
  let ?x = "barr_of (tl (bs p)) :: b32"
  have p: "bs p = hd (bs p) # bs ?x"
    using length_bs [of p] by (cases "bs p") simp_all
  from d have x: "dlog_x_ok ?x" and t: "hd (bs p) = 2 \<and> z = val ?x \<or> hd (bs p) = 3 \<and> z = - val ?x"
    by (auto simp: dlog_of_def Let_def split: if_splits)
  note v = x_ok_val [OF x]
  have "bs p = bs (dlog_point z)"
    using t v p by (auto simp: bs_dlog_point)
  with t v show "z \<noteq> 0 \<and> p = dlog_point z" by (auto simp: bs_inject)
qed auto

lemma dlog_xonly: "pk_xonly (dlog_secp C) (dlog_point z) = enc (if half_n < zrep z then - z else z)"
  by (simp add: dlog_secp_def bs_dlog_point)

lemma dlog_odd: "pk_odd (dlog_secp C) (dlog_point z) \<longleftrightarrow> half_n < zrep z"
  by (simp add: dlog_secp_def bs_dlog_point)

lemma half_uminus: "z \<noteq> 0 \<Longrightarrow> half_n < zrep (- z) \<longleftrightarrow> \<not> half_n < zrep z"
  using zrep_uminus [of z] half_bounds by auto

lemma dlog_point_law: "point (dlog_secp C) z = dlog_point z"
  by (simp add: point_def dlog_secp_def)

theorem dlog_secp_laws: "secp_laws C (dlog_secp C)"
proof -
  let ?S = "dlog_secp C"
  have inj: "inj_on (point ?S) (- {0})"
    by (rule inj_onI) (metis ComplD dlog_of_point dlog_point_law insertI1 option.inject)
  have ok: "pk_ok ?S p \<longleftrightarrow> p \<in> point ?S ` (- {0})" for p
    by (auto simp: dlog_secp_def dlog_point_law dlog_of_Some image_iff) (auto simp: dlog_secp_def point_def)
  have add: "pk_add ?S (point ?S y) (point ?S z) = point_or_none ?S (y + z)" if "y \<noteq> 0" "z \<noteq> 0" for y z
    using that by (simp add: dlog_point_law point_or_none_def) (simp add: dlog_secp_def dlog_lift_def)
  have mul: "pk_mul ?S (point ?S y) b = point_or_none ?S (y * val b)" if "y \<noteq> 0" for y b
    using that by (simp add: dlog_point_law point_or_none_def) (simp add: dlog_secp_def dlog_lift_def)
  have even: "x_even ?S x = dlog_point (val x)" for x by (simp add: dlog_secp_def)
  have xok: "x_ok ?S x \<longleftrightarrow> x \<in> (\<lambda>z. pk_xonly ?S (point ?S z)) ` (- {0})" for x
  proof -
    have "x_ok ?S x = dlog_x_ok x" by (simp add: dlog_secp_def)
    moreover have "x = pk_xonly ?S (point ?S (val x)) \<and> val x \<noteq> 0" if "dlog_x_ok x"
      using x_ok_val [OF that] by (simp add: dlog_point_law dlog_xonly)
    ultimately show ?thesis
      using x_ok_enc by (auto simp: dlog_point_law dlog_xonly)
  qed
  have verify: "bip340_verify ?S (sig_of r s) m x \<longleftrightarrow>
      x_ok ?S x \<and> x_ok ?S r \<and> num s < order_n
      \<and> (\<exists>d k. d \<noteq> 0 \<and> k \<noteq> 0 \<and> x_even ?S x = point ?S d \<and> x_even ?S r = point ?S k
           \<and> val s = k + chal C r x m * d)" for r s m x
  proof -
    have one: "dlog_point y = dlog_point z \<longleftrightarrow> y = z" if "y \<noteq> 0" "z \<noteq> 0" for y z
      using that by (metis dlog_of_point option.inject)
    have "x_ok ?S = dlog_x_ok" "bip340_verify ?S = dlog_verify C" by (simp_all add: dlog_secp_def)
    then show ?thesis
      using x_ok_val(2) one by (auto simp: dlog_verify_def even dlog_point_law)
  qed
  show ?thesis
    unfolding secp_laws_def
    using inj ok add mul xok verify
    by (auto simp: dlog_point_law dlog_xonly dlog_odd half_uminus even)
      (auto simp: dlog_secp_def)
qed


section \<open>What the laws give\<close>

named_theorems curve \<open>consequences of the laws of the crate\<close>

lemma sk_ok_iff: "secp_laws C S \<Longrightarrow> sk_ok S a \<longleftrightarrow> 0 < num a \<and> num a < order_n"
  and sc_ok_iff: "secp_laws C S \<Longrightarrow> sc_ok S a \<longleftrightarrow> num a < order_n"
  and sk_neg_is: "secp_laws C S \<Longrightarrow> sk_ok S a \<Longrightarrow> sk_neg S a = enc (- val a)"
  and sk_add_is: "secp_laws C S \<Longrightarrow> sk_ok S a \<Longrightarrow> sc_ok S b \<Longrightarrow> sk_add S a b = nonzero (val a + val b)"
  and sk_mul_is: "secp_laws C S \<Longrightarrow> sk_ok S a \<Longrightarrow> sc_ok S b \<Longrightarrow> sk_mul S a b = nonzero (val a * val b)"
  and point_inj: "secp_laws C S \<Longrightarrow> inj_on (point S) (- {0})"
  and pk_ok_iff: "secp_laws C S \<Longrightarrow> pk_ok S p \<longleftrightarrow> p \<in> point S ` (- {0})"
  and pk_add_is: "secp_laws C S \<Longrightarrow> y \<noteq> 0 \<Longrightarrow> z \<noteq> 0 \<Longrightarrow>
    pk_add S (point S y) (point S z) = point_or_none S (y + z)"
  and pk_mul_is: "secp_laws C S \<Longrightarrow> y \<noteq> 0 \<Longrightarrow> sc_ok S b \<Longrightarrow>
    pk_mul S (point S y) b = point_or_none S (y * val b)"
  and xonly_uminus: "secp_laws C S \<Longrightarrow> z \<noteq> 0 \<Longrightarrow> pk_xonly S (point S (- z)) = pk_xonly S (point S z)"
  and odd_uminus: "secp_laws C S \<Longrightarrow> z \<noteq> 0 \<Longrightarrow> pk_odd S (point S (- z)) \<longleftrightarrow> \<not> pk_odd S (point S z)"
  and even_xonly: "secp_laws C S \<Longrightarrow> z \<noteq> 0 \<Longrightarrow>
    x_even S (pk_xonly S (point S z)) = (if pk_odd S (point S z) then point S (- z) else point S z)"
  and x_ok_iff: "secp_laws C S \<Longrightarrow> x_ok S x \<longleftrightarrow> x \<in> (\<lambda>z. pk_xonly S (point S z)) ` (- {0})"
  and verify_iff: "secp_laws C S \<Longrightarrow> bip340_verify S (sig_of r s) m x \<longleftrightarrow>
    x_ok S x \<and> x_ok S r \<and> num s < order_n
    \<and> (\<exists>d k. d \<noteq> 0 \<and> k \<noteq> 0 \<and> x_even S x = point S d \<and> x_even S r = point S k
         \<and> val s = k + chal C r x m * d)"
  unfolding secp_laws_def by simp_all

lemma zrep_pos_iff: "0 < zrep z \<longleftrightarrow> z \<noteq> 0"
  using zrep_bounds(1) [of z] zrep_eq_0_iff [of z] by linarith

lemma sk_ok_enc [curve]: "secp_laws C S \<Longrightarrow> sk_ok S (enc z) \<longleftrightarrow> z \<noteq> 0"
  by (simp add: sk_ok_iff zrep_pos_iff)

lemma sc_ok_enc [curve]: "secp_laws C S \<Longrightarrow> sc_ok S (enc z)"
  by (simp add: sc_ok_iff)

lemma sk_okD: "secp_laws C S \<Longrightarrow> sk_ok S a \<Longrightarrow> val a \<noteq> 0 \<and> a = enc (val a) \<and> sc_ok S a"
  using val_0_iff [of a] enc_val [of a] by (auto simp: sk_ok_iff sc_ok_iff)

lemma sk_okE:
  assumes "secp_laws C S" "sk_ok S a"
  obtains z where "z \<noteq> 0" "a = enc z"
  using sk_okD [OF assms] by blast

lemma sc_okE:
  assumes "secp_laws C S" "sc_ok S a"
  obtains z where "a = enc z"
  using assms enc_val [of a] by (metis sc_ok_iff)

lemma pk_of_enc [curve]: "pk_of S (enc z) = point S z"
  by (simp add: point_def)

lemma sk_neg_enc [curve]: "secp_laws C S \<Longrightarrow> z \<noteq> 0 \<Longrightarrow> sk_neg S (enc z) = enc (- z)"
  by (simp add: sk_neg_is curve)

lemma sk_add_enc [curve]: "secp_laws C S \<Longrightarrow> y \<noteq> 0 \<Longrightarrow> sk_add S (enc y) (enc z) = nonzero (y + z)"
  by (simp add: sk_add_is curve)

lemma sk_mul_enc [curve]: "secp_laws C S \<Longrightarrow> y \<noteq> 0 \<Longrightarrow> sk_mul S (enc y) (enc z) = nonzero (y * z)"
  by (simp add: sk_mul_is curve)

lemma pk_mul_enc [curve]: "secp_laws C S \<Longrightarrow> y \<noteq> 0 \<Longrightarrow> pk_mul S (point S y) (enc z) = point_or_none S (y * z)"
  by (simp add: pk_mul_is curve)

lemma nonzero_Some: "nonzero z = Some a \<longleftrightarrow> z \<noteq> 0 \<and> a = enc z"
  by (auto simp: nonzero_def)

lemma point_or_none_Some: "point_or_none S z = Some p \<longleftrightarrow> z \<noteq> 0 \<and> p = point S z"
  by (auto simp: point_or_none_def)

lemma enc_inject [simp]: "enc y = enc z \<longleftrightarrow> y = z"
  by (metis val_enc)

lemma point_eq_iff: "secp_laws C S \<Longrightarrow> y \<noteq> 0 \<Longrightarrow> z \<noteq> 0 \<Longrightarrow> point S y = point S z \<longleftrightarrow> y = z"
  using point_inj [of C S] by (auto dest: inj_onD)

text \<open>The multiplier with an even point, of the two with one x-only key.\<close>

definition even_of :: "secp \<Rightarrow> zn \<Rightarrow> zn" where
  "even_of S z = (if pk_odd S (point S z) then - z else z)"

lemma even_of_nonzero [simp]: "even_of S z \<noteq> 0 \<longleftrightarrow> z \<noteq> 0"
  by (simp add: even_of_def)

lemma x_even_even_of [curve]: "secp_laws C S \<Longrightarrow> z \<noteq> 0 \<Longrightarrow> x_even S (pk_xonly S (point S z)) = point S (even_of S z)"
  by (simp add: even_xonly even_of_def)

lemma xonly_even_of [curve]: "secp_laws C S \<Longrightarrow> z \<noteq> 0 \<Longrightarrow> pk_xonly S (point S (even_of S z)) = pk_xonly S (point S z)"
  by (simp add: even_of_def xonly_uminus)

lemma x_ok_xonly [curve]: "secp_laws C S \<Longrightarrow> z \<noteq> 0 \<Longrightarrow> x_ok S (pk_xonly S (point S z))"
  by (auto simp: x_ok_iff)

lemma x_okE:
  assumes "secp_laws C S" "x_ok S x"
  obtains d where "d \<noteq> 0" "x = pk_xonly S (point S d)" "x_even S x = point S d" "even_of S d = d"
proof -
  from assms obtain z where z: "z \<noteq> 0" "x = pk_xonly S (point S z)" by (auto simp: x_ok_iff)
  have "\<not> pk_odd S (point S (even_of S z))"
    using assms(1) z(1) by (auto simp: even_of_def odd_uminus)
  then have "even_of S (even_of S z) = even_of S z" by (simp add: even_of_def [of S "even_of S z"])
  with assms(1) z show thesis by (intro that [of "even_of S z"]) (simp_all add: curve)
qed

text \<open>A signature of a key and a nonce whose points are even.\<close>

lemma verify_points:
  assumes "secp_laws C S" "d \<noteq> 0" "k \<noteq> 0" "x = pk_xonly S (point S d)" "r = pk_xonly S (point S k)"
  shows "bip340_verify S (sig_of r s) m x \<longleftrightarrow>
    num s < order_n \<and> val s = even_of S k + chal C r x m * even_of S d"
    (is "?v \<longleftrightarrow> ?e")
proof
  note ok = x_ok_xonly [OF assms(1)] x_even_even_of [OF assms(1)]
  show ?e if v: ?v
  proof -
    from v obtain d' k' where w: "d' \<noteq> 0" "k' \<noteq> 0" "x_even S x = point S d'" "x_even S r = point S k'"
      "val s = k' + chal C r x m * d'" "num s < order_n"
      unfolding verify_iff [OF assms(1)] by blast
    have "d' = even_of S d" "k' = even_of S k"
      using w(1-4) ok(2) [OF assms(2)] ok(2) [OF assms(3)] assms(2-5) point_eq_iff [OF assms(1)]
      by (metis even_of_nonzero)+
    with w show ?e by simp
  qed
  show ?v if e: ?e
    unfolding verify_iff [OF assms(1)]
    using e assms(2-5) ok [OF assms(2)] ok [OF assms(3)]
    by (intro conjI exI [of _ "even_of S d"] exI [of _ "even_of S k"]) simp_all
qed

end
