(* ===== verification/Schnorr.thy ===== *)
theory Schnorr
  imports Curve
begin

text \<open>
  BIP-340 signing with a predetermined nonce and key extraction
  (\<^verbatim>\<open>satusd-oracle/src/schnorr.rs\<close>), and the adaptor signatures of \<^verbatim>\<open>satusd-rail1/src/adaptor.rs\<close>.
  The properties hold of every crate that keeps \<open>secp_laws\<close>.
\<close>

section \<open>Calls of the crate with its errors\<close>

datatype SecpError = InvalidPublicKey | InvalidSecretKey | InvalidTweak | InvalidPublicKeySum

definition secret_key :: "secp \<Rightarrow> b32 \<Rightarrow> (SecpError, b32) res" where
  "secret_key S a = (if sk_ok S a then Ok a else Err InvalidSecretKey)"

definition sk_add_tweak :: "secp \<Rightarrow> b32 \<Rightarrow> b32 \<Rightarrow> (SecpError, b32) res" where
  "sk_add_tweak S a b = ok_or (sk_add S a b) InvalidTweak"

definition sk_mul_tweak :: "secp \<Rightarrow> b32 \<Rightarrow> b32 \<Rightarrow> (SecpError, b32) res" where
  "sk_mul_tweak S a b = ok_or (sk_mul S a b) InvalidTweak"

definition xonly_key :: "secp \<Rightarrow> b32 \<Rightarrow> (SecpError, b32) res" where
  "xonly_key S x = (if x_ok S x then Ok x else Err InvalidPublicKey)"

definition public_key :: "secp \<Rightarrow> b33 \<Rightarrow> (SecpError, b33) res" where
  "public_key S p = (if pk_ok S p then Ok p else Err InvalidPublicKey)"

definition pk_combine :: "secp \<Rightarrow> b33 \<Rightarrow> b33 \<Rightarrow> (SecpError, b33) res" where
  "pk_combine S p q = ok_or (pk_add S p q) InvalidPublicKeySum"

definition pk_mul_tweak :: "secp \<Rightarrow> b33 \<Rightarrow> b32 \<Rightarrow> (SecpError, b33) res" where
  "pk_mul_tweak S p b = ok_or (pk_mul S p b) InvalidTweak"

section \<open>Reduction modulo the order\<close>

definition N_BE :: b32 where
  "N_BE = barr_of [
    0xff, 0xff, 0xff, 0xff, 0xff, 0xff, 0xff, 0xff, 0xff, 0xff, 0xff, 0xff, 0xff, 0xff, 0xff, 0xfe,
    0xba, 0xae, 0xdc, 0xe6, 0xaf, 0x48, 0xa0, 0x3b, 0xbf, 0xd2, 0x5e, 0x8c, 0xd0, 0x36, 0x41, 0x41]"

text \<open>
  The subtraction runs from the last byte to the first, so over the reversed arrays. An \<^verbatim>\<open>i16\<close> that
  holds a difference of two bytes and a borrow is an integer.
\<close>

fun borrow_loop :: "(byte \<times> byte) list \<Rightarrow> int \<Rightarrow> bytes" where
  "borrow_loop [] borrow = []"
| "borrow_loop ((b, n) # r) borrow =
     (let d = uint b - uint n - borrow in
      if d < 0 then word_of_int (d + 256) # borrow_loop r 1
      else word_of_int d # borrow_loop r 0)"

definition scalar_mod_n :: "secp \<Rightarrow> b32 \<Rightarrow> ('e, b32) res" where
  "scalar_mod_n S bytes =
     (if sc_ok S bytes then Ok bytes
      else let out = barr_of (rev (borrow_loop (zip (rev (bs bytes)) (rev (bs N_BE))) 0)) in
           if sc_ok S out then Ok out else Panic)"

definition challenge :: "crypto \<Rightarrow> secp \<Rightarrow> b32 \<Rightarrow> b32 \<Rightarrow> b32 \<Rightarrow> ('e, b32) res" where
  "challenge C S rx px msg32 =
     scalar_mod_n S (rail_tagged_hash C ''BIP0340/challenge'' (bs rx @ bs px @ bs msg32))"

section \<open>Signing\<close>

definition sign_with_nonce :: "crypto \<Rightarrow> secp \<Rightarrow> b32 \<Rightarrow> b32 \<Rightarrow> b32 \<Rightarrow> (SecpError, b64) res" where
  "sign_with_nonce C S sk k msg32 =
     rbind (secret_key S sk) (\<lambda>d. let P = pk_of S d; px = pk_xonly S P;
       d = (if pk_odd S P then sk_neg S d else d) in
     rbind (secret_key S k) (\<lambda>kk. let R = pk_of S kk; rx = pk_xonly S R;
       kk = (if pk_odd S R then sk_neg S kk else kk) in
     rbind (challenge C S rx px msg32) (\<lambda>e.
     rbind (sk_mul_tweak S d e) (\<lambda>ed.
     rbind (sk_add_tweak S kk ed) (\<lambda>s.
     Ok (sig_of rx s))))))"

definition nonce_point :: "secp \<Rightarrow> b32 \<Rightarrow> (SecpError, b32) res" where
  "nonce_point S k = rbind (secret_key S k) (\<lambda>k. Ok (pk_xonly S (pk_of S k)))"

definition anticipation_point :: "crypto \<Rightarrow> secp \<Rightarrow> b32 \<Rightarrow> b32 \<Rightarrow> b32 \<Rightarrow> (SecpError, b33) res" where
  "anticipation_point C S rx px msg32 =
     rbind (challenge C S rx px msg32) (\<lambda>e.
     rbind (pk_mul_tweak S (x_even S px) e) (\<lambda>ep.
     pk_combine S (x_even S rx) ep))"

section \<open>Extraction\<close>

text \<open>The exponent \<open>n - 2\<close>, and its bits from the lowest one, byte by byte from the last.\<close>

definition inverse_exponent :: bytes where
  "inverse_exponent = (bs N_BE)[31 := bs N_BE ! 31 - 2]"

definition exponent_bits :: "bytes \<Rightarrow> bool list" where
  "exponent_bits e = concat (map (\<lambda>b. map (bit b) [0 ..< 8]) (rev e))"

fun power_loop :: "secp \<Rightarrow> bool list \<Rightarrow> b32 option \<Rightarrow> b32 \<Rightarrow> (SecpError, b32 option) res" where
  "power_loop S [] result base = Ok result"
| "power_loop S (b # bits) result base =
     rbind (if b then (case result of
                None \<Rightarrow> Ok (Some base)
              | Some r \<Rightarrow> rbind (sk_mul_tweak S r base) (\<lambda>r. Ok (Some r)))
            else Ok result) (\<lambda>result.
     rbind (sk_mul_tweak S base base) (\<lambda>base.
     power_loop S bits result base))"

definition invert_mod_n :: "secp \<Rightarrow> b32 \<Rightarrow> (SecpError, b32) res" where
  "invert_mod_n S a =
     rbind (power_loop S (exponent_bits inverse_exponent) None a) (\<lambda>result. ok_or result InvalidSecretKey)"

definition sub_mod_n :: "secp \<Rightarrow> b32 \<Rightarrow> b32 \<Rightarrow> (SecpError, b32) res" where
  "sub_mod_n S a b = sk_add_tweak S a (sk_neg S b)"

text \<open>The computation of the key, before the check against the public key.\<close>

definition extract_key :: "crypto \<Rightarrow> secp \<Rightarrow> b64 \<Rightarrow> b64 \<Rightarrow> b32 \<Rightarrow> b32 \<Rightarrow> b32 \<Rightarrow> (SecpError, b32) res" where
  "extract_key C S sig1 sig2 msg1 msg2 px =
     rbind (xonly_key S (sig_r sig1)) (\<lambda>rx.
     rbind (challenge C S rx px msg1) (\<lambda>e1.
     rbind (challenge C S rx px msg2) (\<lambda>e2.
     rbind (secret_key S (sig_s sig1)) (\<lambda>s1.
     rbind (secret_key S (sig_s sig2)) (\<lambda>s2.
     rbind (sub_mod_n S s1 s2) (\<lambda>ds.
     rbind (secret_key S e1) (\<lambda>e1k.
     rbind (secret_key S e2) (\<lambda>e2k.
     rbind (sub_mod_n S e1k e2k) (\<lambda>de.
     rbind (invert_mod_n S de) (\<lambda>inv.
     sk_mul_tweak S ds inv))))))))))"

definition extract_secret :: "crypto \<Rightarrow> secp \<Rightarrow> b64 \<Rightarrow> b64 \<Rightarrow> b32 \<Rightarrow> b32 \<Rightarrow> b32 \<Rightarrow> ('e, b32 option) res" where
  "extract_secret C S sig1 sig2 msg1 msg2 px =
     (if sig_r sig1 \<noteq> sig_r sig2 \<or> msg1 = msg2 then Ok None
      else case extract_key C S sig1 sig2 msg1 msg2 px of
          Ok d \<Rightarrow> Ok (if pk_xonly S (pk_of S d) = px then Some d else None)
        | Err _ \<Rightarrow> Ok None
        | Panic \<Rightarrow> Panic)"

section \<open>Adaptor signatures\<close>

record AdaptorSig =
  ad_combined_rx :: b32
  ad_r_point :: b33
  ad_s_a :: b32
  ad_nonce_counter :: u32

definition nonce_candidate :: "crypto \<Rightarrow> b32 \<Rightarrow> u32 \<Rightarrow> b32" where
  "nonce_candidate C base i = rail_tagged_hash C ''SatUSD/rail1/presign-nonce/v1'' (bs base @ to_be i)"

fun presign_loop ::
  "crypto \<Rightarrow> secp \<Rightarrow> b32 \<Rightarrow> b32 \<Rightarrow> b32 \<Rightarrow> b32 \<Rightarrow> b33 \<Rightarrow> nat list \<Rightarrow> (SecpError, AdaptorSig) res" where
  "presign_loop C S d px base msg32 t_point [] = Err InvalidTweak"
| "presign_loop C S d px base msg32 t_point (i # is) =
     (let k = nonce_candidate C base (word_of_nat i) in
      if \<not> sk_ok S k then presign_loop C S d px base msg32 t_point is
      else let r = pk_of S k in
        rbind (pk_combine S r t_point) (\<lambda>combined.
        let combined_rx = pk_xonly S combined in
        if pk_odd S combined then presign_loop C S d px base msg32 t_point is
        else
          rbind (challenge C S combined_rx px msg32) (\<lambda>e.
          rbind (sk_mul_tweak S d e) (\<lambda>ed.
          rbind (sk_add_tweak S k ed) (\<lambda>s_a.
          Ok \<lparr>ad_combined_rx = combined_rx, ad_r_point = r, ad_s_a = s_a,
              ad_nonce_counter = word_of_nat i\<rparr>)))))"

definition presign ::
  "crypto \<Rightarrow> secp \<Rightarrow> b32 \<Rightarrow> b32 \<Rightarrow> b32 \<Rightarrow> b33 \<Rightarrow> (SecpError, AdaptorSig) res" where
  "presign C S sk nonce_base msg32 t_point =
     rbind (secret_key S sk) (\<lambda>d. let P = pk_of S d; px = pk_xonly S P;
       d = (if pk_odd S P then sk_neg S d else d) in
     presign_loop C S d px nonce_base msg32 t_point [0 ..< 256])"

definition verify_presig ::
  "crypto \<Rightarrow> secp \<Rightarrow> AdaptorSig \<Rightarrow> b32 \<Rightarrow> b32 \<Rightarrow> b33 \<Rightarrow> (SecpError, bool) res" where
  "verify_presig C S presig pubkey_x msg32 t_point =
     rbind (xonly_key S pubkey_x) (\<lambda>px.
     rbind (public_key S (ad_r_point presig)) (\<lambda>r.
     rbind (pk_combine S r t_point) (\<lambda>combined.
     let combined_rx = pk_xonly S combined in
     if pk_odd S combined \<or> combined_rx \<noteq> ad_combined_rx presig then Ok False
     else
       rbind (challenge C S combined_rx px msg32) (\<lambda>e.
       rbind (pk_mul_tweak S (x_even S px) e) (\<lambda>ep.
       rbind (pk_combine S r ep) (\<lambda>expected.
       rbind (secret_key S (ad_s_a presig)) (\<lambda>s_a.
       Ok (pk_of S s_a = expected))))))))"

definition decrypt :: "secp \<Rightarrow> AdaptorSig \<Rightarrow> b32 \<Rightarrow> (SecpError, b64) res" where
  "decrypt S presig t =
     rbind (secret_key S (ad_s_a presig)) (\<lambda>s_a.
     rbind (scalar_mod_n S t) (\<lambda>t_scalar.
     rbind (sk_add_tweak S s_a t_scalar) (\<lambda>s.
     Ok (sig_of (ad_combined_rx presig) s))))"

definition recover_t :: "secp \<Rightarrow> AdaptorSig \<Rightarrow> b64 \<Rightarrow> (SecpError, b32) res" where
  "recover_t S presig sig =
     rbind (secret_key S (sig_s sig)) (\<lambda>s.
     rbind (secret_key S (ad_s_a presig)) (\<lambda>s_a. let neg_sa = sk_neg S s_a in
     sk_add_tweak S s neg_sa))"

section \<open>The reduction\<close>

lemma N_BE_value: "nat_of_be (bs N_BE) = nat order_n"
proof -
  have "nat_of_be (bs N_BE) = 0xfffffffffffffffffffffffffffffffebaaedce6af48a03bbfd25e8cd0364141"
    by (simp add: N_BE_def nat_of_be_def)
  then show ?thesis by (simp add: order_n_def)
qed

lemma mod_256: "0 \<le> c \<Longrightarrow> c < 256 \<Longrightarrow> 0 \<le> m \<Longrightarrow> (c + 256 * y) mod (256 * m) = c + 256 * (y mod m)" for c y m :: int
  by (simp add: zmod_zmult2_eq)

lemma nat_of_le_Cons: "nat_of_be (rev (x # xs)) = unat x + 256 * nat_of_be (rev xs)"
  by simp

lemma borrow_loop_length [simp]: "length (borrow_loop ps b) = length ps"
  by (induction ps b rule: borrow_loop.induct) (simp_all add: Let_def)

lemma uint_of_small: "0 \<le> d \<Longrightarrow> d < 256 \<Longrightarrow> uint (word_of_int d :: byte) = d"
  by (simp add: uint_word_of_int)

lemma borrow_digit:
  fixes x n b :: int
  assumes "0 \<le> x" "x < 256" "0 \<le> n" "n < 256" "b \<in> {0, 1}"
  shows "0 \<le> x - n - b + 256 * (if x - n - b < 0 then 1 else 0)"
    and "x - n - b + 256 * (if x - n - b < 0 then 1 else 0) < 256"
  using assms by auto

lemma borrow_loop_value:
  assumes "length xs = length ns" "b \<in> {0, 1}"
  shows "int (nat_of_be (rev (borrow_loop (zip xs ns) b)))
    = (int (nat_of_be (rev xs)) - int (nat_of_be (rev ns)) - b) mod 256 ^ length xs"
  using assms
proof (induction xs ns arbitrary: b rule: list_induct2)
  case (Cons x xs n ns)
  let ?d = "uint x - uint n - b" and ?X = "int (nat_of_be (rev xs))" and ?N = "int (nat_of_be (rev ns))"
  let ?M = "256 ^ length xs :: int"
  have x: "0 \<le> uint x" "uint x < 256" "0 \<le> uint n" "uint n < 256"
    using uint_bounded [of x] uint_bounded [of n] by simp_all
  define c y where "c = (if ?d < 0 then 1 else 0 :: int)" and "y = ?d + 256 * c"
  have y: "0 \<le> y" "y < 256"
    unfolding y_def c_def using borrow_digit [OF x Cons.prems] by simp_all
  have c: "c \<in> {0, 1}" by (simp add: c_def)
  have "borrow_loop (zip (x # xs) (n # ns)) b = word_of_int y # borrow_loop (zip xs ns) c"
    by (simp add: y_def c_def Let_def)
  then have "int (nat_of_be (rev (borrow_loop (zip (x # xs) (n # ns)) b)))
      = y + 256 * ((?X - ?N - c) mod ?M)"
    using Cons.IH [OF c] by (simp only: nat_of_le_Cons) (simp add: uint_of_small y)
  also have "\<dots> = (y + 256 * (?X - ?N - c)) mod (256 * ?M)"
    by (rule mod_256 [symmetric]) (use y in simp_all)
  also have "y + 256 * (?X - ?N - c) = int (nat_of_be (rev (x # xs))) - int (nat_of_be (rev (n # ns))) - b"
    by (simp only: nat_of_le_Cons) (simp add: y_def algebra_simps)
  finally show ?case by (simp only: length_Cons power_Suc)
qed simp

lemma scalar_mod_n_is [curve]:
  assumes "secp_laws C S"
  shows "scalar_mod_n S b = Ok (enc (val b))"
proof (cases "num b < order_n")
  case True
  then show ?thesis using assms by (simp add: scalar_mod_n_def sc_ok_iff enc_val)
next
  case False
  let ?out = "barr_of (rev (borrow_loop (zip (rev (bs b)) (rev (bs N_BE))) 0)) :: b32"
  have "num ?out = (num b - order_n) mod 256 ^ 32"
    using borrow_loop_value [of "rev (bs b)" "rev (bs N_BE)" 0]
    by (simp add: num_def N_BE_value order_n_pos(1) [THEN less_imp_le])
  also have "\<dots> = num b - order_n"
    using False num_less [of b] by (intro mod_pos_pos_trivial) (simp_all add: order_n_def)
  finally have out: "num ?out = num b - order_n" .
  then have "num ?out < order_n" using num_less [of b] by simp
  moreover have "val ?out = val b" by (simp add: val_def out zof_eq_iff)
  ultimately have "sc_ok S ?out" "?out = enc (val b)"
    using assms enc_val [of ?out] by (simp_all add: sc_ok_iff)
  then show ?thesis using assms False by (simp add: scalar_mod_n_def sc_ok_iff Let_def)
qed


section \<open>The calls on residues and points\<close>

lemma secret_key_Ok [res_simps]: "secret_key S a = Ok b \<longleftrightarrow> sk_ok S a \<and> b = a"
  by (auto simp: secret_key_def)

lemma secret_key_not_Panic [res_simps]: "secret_key S a \<noteq> Panic"
  by (simp add: secret_key_def)

lemma xonly_key_Ok [res_simps]: "xonly_key S a = Ok b \<longleftrightarrow> x_ok S a \<and> b = a"
  by (auto simp: xonly_key_def)

lemma public_key_Ok [res_simps]: "public_key S a = Ok b \<longleftrightarrow> pk_ok S a \<and> b = a"
  by (auto simp: public_key_def)

lemma secret_key_enc [curve]: "secp_laws C S \<Longrightarrow> z \<noteq> 0 \<Longrightarrow> secret_key S (enc z) = Ok (enc z)"
  by (simp add: secret_key_def sk_ok_enc)

lemma sk_add_tweak_enc [curve]:
  "secp_laws C S \<Longrightarrow> y \<noteq> 0 \<Longrightarrow>
    sk_add_tweak S (enc y) (enc z) = (if y + z = 0 then Err InvalidTweak else Ok (enc (y + z)))"
  by (simp add: sk_add_tweak_def sk_add_enc nonzero_def)

lemma sk_mul_tweak_enc [curve]:
  "secp_laws C S \<Longrightarrow> y \<noteq> 0 \<Longrightarrow>
    sk_mul_tweak S (enc y) (enc z) = (if y * z = 0 then Err InvalidTweak else Ok (enc (y * z)))"
  by (simp add: sk_mul_tweak_def sk_mul_enc nonzero_def)

lemma pk_combine_points [curve]:
  "secp_laws C S \<Longrightarrow> y \<noteq> 0 \<Longrightarrow> z \<noteq> 0 \<Longrightarrow> pk_combine S (point S y) (point S z)
    = (if y + z = 0 then Err InvalidPublicKeySum else Ok (point S (y + z)))"
  by (simp add: pk_combine_def pk_add_is point_or_none_def)

lemma pk_mul_tweak_point [curve]:
  "secp_laws C S \<Longrightarrow> y \<noteq> 0 \<Longrightarrow>
    pk_mul_tweak S (point S y) (enc z) = (if y * z = 0 then Err InvalidTweak else Ok (point S (y * z)))"
  by (simp add: pk_mul_tweak_def pk_mul_enc point_or_none_def)

lemma challenge_is [curve]: "secp_laws C S \<Longrightarrow> challenge C S rx px m = Ok (enc (chal C rx px m))"
  by (simp add: challenge_def scalar_mod_n_is chal_def)

lemma sub_mod_n_enc [curve]:
  "secp_laws C S \<Longrightarrow> y \<noteq> 0 \<Longrightarrow> z \<noteq> 0 \<Longrightarrow>
    sub_mod_n S (enc y) (enc z) = (if y = z then Err InvalidTweak else Ok (enc (y - z)))"
  by (simp add: sub_mod_n_def sk_neg_enc sk_add_tweak_enc)

text \<open>The key or nonce a signer works with: negated when its point is odd.\<close>

lemma even_key [curve]:
  "secp_laws C S \<Longrightarrow> z \<noteq> 0 \<Longrightarrow>
    (if pk_odd S (point S z) then sk_neg S (enc z) else enc z) = enc (even_of S z)"
  and even_key' [curve]: "(if pk_odd S (point S z) then enc (- z) else enc z) = enc (even_of S z)"
  by (simp_all add: even_of_def sk_neg_enc)

lemma sign_Ok:
  assumes laws: "secp_laws C S"
  shows "sign_with_nonce C S sk k m = Ok g \<longleftrightarrow>
    sk_ok S sk \<and> sk_ok S k
    \<and> (\<exists>d kk e. d = even_of S (val sk) \<and> kk = even_of S (val k)
        \<and> e = chal C (pk_xonly S (pk_of S k)) (pk_xonly S (pk_of S sk)) m
        \<and> d * e \<noteq> 0 \<and> kk + d * e \<noteq> 0 \<and> g = sig_of (pk_xonly S (pk_of S k)) (enc (kk + d * e)))"
proof (cases "sk_ok S sk \<and> sk_ok S k")
  case True
  then obtain y z where y: "y \<noteq> 0" "sk = enc y" and z: "z \<noteq> 0" "k = enc z"
    using sk_okE [OF laws] by metis
  then show ?thesis
    using laws by (simp add: sign_with_nonce_def curve res_simps Let_def split del: if_split) blast?
next
  case False
  then show ?thesis by (auto simp: sign_with_nonce_def res_simps Let_def)
qed


lemma verifiedE:
  assumes "secp_laws C S" "bip340_verify S g m px"
  obtains d k where "d \<noteq> 0" "k \<noteq> 0" "px = pk_xonly S (point S d)" "sig_r g = pk_xonly S (point S k)"
    "even_of S d = d" "even_of S k = k" "x_even S px = point S d" "x_even S (sig_r g) = point S k"
    "sig_s g = enc (k + chal C (sig_r g) px m * d)"
proof -
  have v: "bip340_verify S (sig_of (sig_r g) (sig_s g)) m px" using assms(2) by simp
  then have ok: "x_ok S px" "x_ok S (sig_r g)" "num (sig_s g) < order_n"
    unfolding verify_iff [OF assms(1)] by simp_all
  obtain d where d: "d \<noteq> 0" "px = pk_xonly S (point S d)" "x_even S px = point S d" "even_of S d = d"
    using x_okE [OF assms(1) ok(1)] .
  obtain k where k: "k \<noteq> 0" "sig_r g = pk_xonly S (point S k)" "x_even S (sig_r g) = point S k" "even_of S k = k"
    using x_okE [OF assms(1) ok(2)] .
  have "val (sig_s g) = k + chal C (sig_r g) px m * d"
    using v verify_points [OF assms(1) d(1) k(1) d(2) k(2), of "sig_s g" m] d(4) k(4) by simp
  then have "sig_s g = enc (k + chal C (sig_r g) px m * d)"
    using enc_val [OF ok(3)] by simp
  with d k show thesis by (intro that) simp_all
qed

lemma signed_verifies:
  assumes "secp_laws C S" "d \<noteq> 0" "k \<noteq> 0" "even_of S d = d" "even_of S k = k"
    and "px = pk_xonly S (point S d)" "r = pk_xonly S (point S k)"
  shows "bip340_verify S (sig_of r (enc (k + chal C r px m * d))) m px"
  using verify_points [OF assms(1-3,6,7)] assms(4,5) by simp

lemma even_even [simp]: "secp_laws C S \<Longrightarrow> z \<noteq> 0 \<Longrightarrow> even_of S (even_of S z) = even_of S z"
  using odd_uminus [of C S z] by (auto simp: even_of_def)

lemma signed_facts:
  assumes laws: "secp_laws C S" and signed: "sign_with_nonce C S sk k m = Ok g"
  shows "bip340_verify S g m (pk_xonly S (pk_of S sk))
    \<and> nonce_point S k = Ok (sig_r g)
    \<and> anticipation_point C S (sig_r g) (pk_xonly S (pk_of S sk)) m = Ok (pk_of S (sig_s g))"
proof -
  from signed sign_Ok [OF laws] have ok: "sk_ok S sk" "sk_ok S k" by blast+
  then obtain y z where y: "y \<noteq> 0" "sk = enc y" and z: "z \<noteq> 0" "k = enc z"
    using sk_okE [OF laws] by metis
  let ?d = "even_of S y" and ?k = "even_of S z" and ?r = "pk_xonly S (point S z)" and ?x = "pk_xonly S (point S y)"
  let ?e = "chal C ?r ?x m"
  have g: "g = sig_of ?r (enc (?k + ?d * ?e))" and nz: "?d * ?e \<noteq> 0" "?k + ?d * ?e \<noteq> 0"
    using signed [unfolded sign_Ok [OF laws]] y z by (auto simp: pk_of_enc)
  have "bip340_verify S g m (pk_xonly S (pk_of S sk))"
    using signed_verifies [OF laws, of ?d ?k ?x ?r m] laws y z
    by (simp add: g pk_of_enc xonly_even_of mult.commute)
  moreover have "nonce_point S k = Ok (sig_r g)"
    using ok z by (simp add: nonce_point_def secret_key_def g pk_of_enc)
  moreover have "anticipation_point C S (sig_r g) (pk_xonly S (pk_of S sk)) m = Ok (pk_of S (sig_s g))"
    using laws y z nz
    by (simp add: anticipation_point_def g pk_of_enc challenge_is x_even_even_of pk_mul_tweak_point pk_combine_points)
  ultimately show ?thesis by blast
qed

text \<open>
  A signature made with a predetermined nonce is a BIP-340 signature of the message under the
  signer's key; it carries the nonce point announced beforehand; and the point anticipated from that
  nonce point, the key and the message is the public key of the scalar the signature reveals.
\<close>

theorem sign_anticipated:
  assumes laws: "secp_laws C S" and signed: "sign_with_nonce C S sk k m = Ok g"
  shows "bip340_verify S g m (pk_xonly S (pk_of S sk))
    \<and> nonce_point S k = Ok (sig_r g)
    \<and> anticipation_point C S (sig_r g) (pk_xonly S (pk_of S sk)) m = Ok (pk_of S (sig_s g))"
  by (rule signed_facts [OF assms])

text \<open>One instance for examples: every hash is the number one.\<close>

definition unit_crypto :: crypto where
  "unit_crypto = const_crypto\<lparr>c_sha256 := (\<lambda>_. enc 1)\<rparr>"

lemma unit_chal: "chal unit_crypto r x m = 1"
  by (simp add: chal_def rail_tagged_hash_def sha256_def unit_crypto_def Let_def)

lemma small_even: "0 \<le> x \<Longrightarrow> x \<le> half_n \<Longrightarrow> even_of (dlog_secp C) (zof x) = zof x"
  using half_bounds by (simp add: even_of_def dlog_odd dlog_point_law mod_pos_pos_trivial)

lemma dlog_sign_sample:
  "sign_with_nonce unit_crypto (dlog_secp unit_crypto) (enc 1) (enc 1) m
    = Ok (sig_of (pk_xonly (dlog_secp unit_crypto) (pk_of (dlog_secp unit_crypto) (enc 1))) (enc 2))"
proof -
  have "even_of (dlog_secp unit_crypto) 1 = 1" using small_even [of 1] half_bounds(1) by simp
  moreover have "(2 :: zn) \<noteq> 0" by (simp add: zn_eq_iff zrep_numeral order_n_def)
  ultimately show ?thesis
    by (simp add: sign_Ok [OF dlog_secp_laws] unit_chal sk_ok_enc [OF dlog_secp_laws])
qed

theorem sign_anticipated_witness:
  "\<exists>g. sign_with_nonce unit_crypto (dlog_secp unit_crypto) (enc 1) (enc 1) (fill 0) = Ok g
     \<and> bip340_verify (dlog_secp unit_crypto) g (fill 0)
         (pk_xonly (dlog_secp unit_crypto) (pk_of (dlog_secp unit_crypto) (enc 1)))"
  using dlog_sign_sample [of "fill 0"] sign_anticipated [OF dlog_secp_laws dlog_sign_sample, of "fill 0"]
  by blast


section \<open>Two signatures under one nonce\<close>

definition z_unit :: "zn \<Rightarrow> bool" where
  "z_unit z \<longleftrightarrow> (\<exists>w. z * w = 1)"

lemma z_unit_nonzero: "z_unit z \<Longrightarrow> z \<noteq> 0"
  by (auto simp: z_unit_def)

lemma z_unit_mult: "z_unit y \<Longrightarrow> z_unit z \<Longrightarrow> z_unit (y * z)"
  unfolding z_unit_def by (metis mult.assoc mult.commute mult_1)

lemma z_unit_times_0: "z_unit y \<Longrightarrow> y * z = 0 \<longleftrightarrow> z = 0"
  unfolding z_unit_def by (metis mult.assoc mult.commute mult_1 mult_zero_right)

fun bits_nat :: "bool list \<Rightarrow> nat" where
  "bits_nat [] = 0"
| "bits_nat (b # bits) = (if b then 1 else 0) + 2 * bits_nat bits"

lemma power_loop_some:
  assumes "secp_laws C S" "z_unit y" "z_unit z"
  shows "power_loop S bits (Some (enc y)) (enc z) = Ok (Some (enc (y * z ^ bits_nat bits)))"
  using assms(2,3)
proof (induction bits arbitrary: y z)
  case (Cons b bits)
  have u: "z_unit (z * z)" "z_unit (y * z)" "z \<noteq> 0" "y \<noteq> 0" "z * z \<noteq> 0" "y * z \<noteq> 0"
    using Cons.prems by (simp_all add: z_unit_mult z_unit_nonzero)
  have "z ^ bits_nat (b # bits) = (if b then z else 1) * (z * z) ^ bits_nat bits"
    by (simp add: power_mult power2_eq_square)
  then show ?case
    using Cons.IH [OF Cons.prems(1) u(1)] Cons.IH [OF u(2) u(1)] u assms(1)
    by (simp add: sk_mul_tweak_enc mult.assoc)
qed simp

lemma power_loop_none:
  assumes "secp_laws C S" "z_unit z"
  shows "power_loop S bits None (enc z) = Ok (if True \<in> set bits then Some (enc (z ^ bits_nat bits)) else None)"
  using assms(2)
proof (induction bits arbitrary: z)
  case (Cons b bits)
  have u: "z_unit (z * z)" "z \<noteq> 0" "z * z \<noteq> 0"
    using Cons.prems by (simp_all add: z_unit_mult z_unit_nonzero)
  have "z ^ bits_nat (b # bits) = (if b then z else 1) * (z * z) ^ bits_nat bits"
    by (simp add: power_mult power2_eq_square)
  then show ?case
    using Cons.IH [OF u(1)] power_loop_some [OF assms(1) Cons.prems u(1)] u assms(1)
    by (simp add: sk_mul_tweak_enc)
qed simp

lemma bits_nat_append: "bits_nat (xs @ ys) = bits_nat xs + 2 ^ length xs * bits_nat ys"
  by (induction xs) simp_all

lemma bits_nat_horner: "bits_nat bits = horner_sum of_bool 2 bits"
  by (induction bits) simp_all

lemma bits_nat_byte: "bits_nat (map (bit b) [0 ..< 8]) = unat b" for b :: byte
proof -
  have "map (bit b) [0 ..< 8] = map (bit (unat b)) [0 ..< 8]"
    by (intro map_cong refl) (simp add: bit_unsigned_iff)
  then have "bits_nat (map (bit b) [0 ..< 8]) = take_bit 8 (unat b)"
    by (simp only: bits_nat_horner horner_sum_bit_eq_take_bit)
  also have "\<dots> = unat b"
    using unat_lt_u8 [of b] by (simp add: take_bit_nat_eq_self_iff)
  finally show ?thesis .
qed

lemma bits_nat_exponent: "bits_nat (exponent_bits e) = nat_of_be e"
proof (induction e rule: rev_induct)
  case (snoc b e)
  have "exponent_bits (e @ [b]) = map (bit b) [0 ..< 8] @ exponent_bits e"
    by (simp add: exponent_bits_def)
  then show ?case using snoc bits_nat_byte [of b] by (simp only: bits_nat_append) simp
qed (simp add: exponent_bits_def)

lemma exponent_value: "bits_nat (exponent_bits inverse_exponent) = nat (order_n - 2)"
proof -
  have "nat_of_be inverse_exponent = 0xfffffffffffffffffffffffffffffffebaaedce6af48a03bbfd25e8cd036413f"
    by (simp add: inverse_exponent_def N_BE_def nat_of_be_def)
  then show ?thesis by (simp add: bits_nat_exponent order_n_def)
qed

lemma bits_nat_0: "True \<notin> set bits \<Longrightarrow> bits_nat bits = 0"
  by (induction bits) auto

lemma exponent_nonzero: "True \<in> set (exponent_bits inverse_exponent)"
  using exponent_value bits_nat_0 [of "exponent_bits inverse_exponent"] by (auto simp: order_n_def)

lemma fermat_unit:
  assumes "z ^ nat (order_n - 1) = 1"
  shows "z * z ^ nat (order_n - 2) = 1"
proof -
  have "nat (order_n - 1) = Suc (nat (order_n - 2))" by (simp add: order_n_def)
  with assms show ?thesis by simp
qed

lemma invert_mod_n_is:
  assumes "secp_laws C S" "z ^ nat (order_n - 1) = 1"
  shows "invert_mod_n S (enc z) = Ok (enc (z ^ nat (order_n - 2)))"
proof -
  have "z_unit z" using fermat_unit [OF assms(2)] by (auto simp: z_unit_def)
  then show ?thesis
    using power_loop_none [OF assms(1), of z "exponent_bits inverse_exponent"] exponent_value exponent_nonzero
    by (simp add: invert_mod_n_def)
qed


lemma extract_key_is:
  assumes laws: "secp_laws C S"
    and g: "x_ok S (sig_r g1)" "sig_s g1 = enc s1" "sig_s g2 = enc s2" "s1 \<noteq> 0" "s2 \<noteq> 0"
    and e: "e1 = chal C (sig_r g1) px m1" "e2 = chal C (sig_r g1) px m2" "e1 \<noteq> 0" "e2 \<noteq> 0"
    and unit: "(e1 - e2) ^ nat (order_n - 1) = 1" and d: "d \<noteq> 0" "s1 - s2 = (e1 - e2) * d"
  shows "extract_key C S g1 g2 m1 m2 px = Ok (enc d)"
proof -
  let ?i = "(e1 - e2) ^ nat (order_n - 2)"
  have i: "(e1 - e2) * ?i = 1" by (rule fermat_unit [OF unit])
  then have u: "z_unit (e1 - e2)" unfolding z_unit_def by blast
  then have ne: "e1 \<noteq> e2" "s1 \<noteq> s2" "(e1 - e2) * d \<noteq> 0"
    using z_unit_nonzero [OF u] z_unit_times_0 [OF u, of d] d by auto
  have prod: "(e1 - e2) * d * ?i = d"
    using i by (metis mult.assoc mult.commute mult_1)
  have "sk_mul_tweak S (enc (s1 - s2)) (enc ?i) = Ok (enc d)"
    using laws d ne prod by (simp add: sk_mul_tweak_enc)
  then show ?thesis
    using laws g e(3,4) ne(1,2) invert_mod_n_is [OF laws unit]
    by (simp add: extract_key_def xonly_key_def challenge_is secret_key_enc sub_mod_n_enc flip: e(1,2))
qed

lemma nonce_reuse:
  assumes laws: "secp_laws C S"
    and valid: "bip340_verify S g1 m1 px" "bip340_verify S g2 m2 px"
    and same: "sig_r g1 = sig_r g2" and differ: "m1 \<noteq> m2"
    and scalars: "sk_ok S (sig_s g1)" "sk_ok S (sig_s g2)"
    and e: "chal C (sig_r g1) px m1 \<noteq> 0" "chal C (sig_r g1) px m2 \<noteq> 0"
    and unit: "(chal C (sig_r g1) px m1 - chal C (sig_r g1) px m2) ^ nat (order_n - 1) = 1"
  shows "\<exists>d. extract_secret C S g1 g2 m1 m2 px = Ok (Some d) \<and> pk_of S d = x_even S px
    \<and> pk_xonly S (pk_of S d) = px"
proof -
  obtain d k where v: "d \<noteq> 0" "k \<noteq> 0" "px = pk_xonly S (point S d)" "sig_r g1 = pk_xonly S (point S k)"
    "even_of S d = d" "even_of S k = k" "x_even S px = point S d" "x_even S (sig_r g1) = point S k"
    "sig_s g1 = enc (k + chal C (sig_r g1) px m1 * d)"
    using verifiedE [OF laws valid(1)] .
  obtain d' k' where v': "d' \<noteq> 0" "k' \<noteq> 0" "x_even S px = point S d'" "x_even S (sig_r g2) = point S k'"
    "sig_s g2 = enc (k' + chal C (sig_r g2) px m2 * d')"
    using verifiedE [OF laws valid(2)] .
  have "d' = d" "k' = k"
    using v v' same point_eq_iff [OF laws] by metis+
  then have s2: "sig_s g2 = enc (k + chal C (sig_r g1) px m2 * d)" using v' same by simp
  have nz: "k + chal C (sig_r g1) px m1 * d \<noteq> 0" "k + chal C (sig_r g1) px m2 * d \<noteq> 0"
    using scalars sk_ok_enc [OF laws] by (simp_all add: v(9) s2)
  have "extract_key C S g1 g2 m1 m2 px = Ok (enc d)"
    using extract_key_is [OF laws _ v(9) s2 nz refl refl e unit v(1)] x_ok_xonly [OF laws v(2)] v(4)
    by (simp add: algebra_simps)
  then show ?thesis
    using same differ v(3,7) by (simp add: extract_secret_def pk_of_enc)
qed

text \<open>
  Two valid signatures of different messages under one key and one nonce point give the key
  away: the extraction returns the secret key of the signer, as long as neither scalar is zero and
  the difference of the challenges satisfies Fermat's little theorem, which every nonzero residue
  does because the group order is prime.
\<close>

theorem nonce_reuse_extracts:
  assumes laws: "secp_laws C S"
    and valid: "bip340_verify S g1 m1 px" "bip340_verify S g2 m2 px"
    and same: "sig_r g1 = sig_r g2" and differ: "m1 \<noteq> m2"
    and scalars: "sk_ok S (sig_s g1)" "sk_ok S (sig_s g2)"
    and e: "chal C (sig_r g1) px m1 \<noteq> 0" "chal C (sig_r g1) px m2 \<noteq> 0"
    and unit: "(chal C (sig_r g1) px m1 - chal C (sig_r g1) px m2) ^ nat (order_n - 1) = 1"
  shows "\<exists>d. extract_secret C S g1 g2 m1 m2 px = Ok (Some d) \<and> pk_of S d = x_even S px
    \<and> pk_xonly S (pk_of S d) = px"
  by (rule nonce_reuse [OF assms])

text \<open>An instance with the last 32 bytes of its input for a hash: the challenge is the message.\<close>

definition tail_crypto :: crypto where
  "tail_crypto = const_crypto\<lparr>c_sha256 := (\<lambda>x. barr_of (drop (length x - 32) x))\<rparr>"

lemma tail_chal: "chal tail_crypto r x m = val m"
proof -
  have "chal tail_crypto r x m = val (barr_of (bs m))"
    by (simp add: chal_def rail_tagged_hash_def sha256_def tail_crypto_def Let_def del: barr_of_bs)
  then show ?thesis by simp
qed

lemma zn_small: "(2 :: zn) \<noteq> 0" "(3 :: zn) \<noteq> 0" "(2 :: zn) \<noteq> 1" "(1 :: zn) \<noteq> 2"
  by (simp_all add: zn_eq_iff zrep_numeral order_n_def)

lemma dlog_sign_small:
  assumes "0 < x" "x \<le> 2"
  shows "sign_with_nonce tail_crypto (dlog_secp tail_crypto) (enc 1) (enc 1) (enc (zof x))
    = Ok (sig_of (pk_xonly (dlog_secp tail_crypto) (pk_of (dlog_secp tail_crypto) (enc 1))) (enc (zof (x + 1))))"
proof -
  have "even_of (dlog_secp tail_crypto) 1 = 1"
    using small_even [of 1] half_bounds(1) by simp
  moreover have "zof x \<noteq> 0" "1 + zof x \<noteq> 0"
  proof -
    have "x = 1 \<or> x = 2" using assms by linarith
    then show "zof x \<noteq> 0" "1 + zof x \<noteq> 0" using zn_small by auto
  qed
  ultimately show ?thesis
    by (simp add: sign_Ok [OF dlog_secp_laws] tail_chal sk_ok_enc [OF dlog_secp_laws] zof_add add.commute)
qed

theorem nonce_reuse_extracts_witness:
  "\<exists>g1 g2 d. sign_with_nonce tail_crypto (dlog_secp tail_crypto) (enc 1) (enc 1) (enc 2) = Ok g1
     \<and> sign_with_nonce tail_crypto (dlog_secp tail_crypto) (enc 1) (enc 1) (enc 1) = Ok g2
     \<and> extract_secret tail_crypto (dlog_secp tail_crypto) g1 g2 (enc 2) (enc 1)
         (pk_xonly (dlog_secp tail_crypto) (pk_of (dlog_secp tail_crypto) (enc 1))) = (Ok (Some d) :: (SecpError, _) res)"
proof -
  let ?S = "dlog_secp tail_crypto" and ?px = "pk_xonly (dlog_secp tail_crypto) (pk_of (dlog_secp tail_crypto) (enc 1))"
  note laws = dlog_secp_laws [of tail_crypto]
  have g: "sign_with_nonce tail_crypto ?S (enc 1) (enc 1) (enc 2) = Ok (sig_of ?px (enc 3))"
    "sign_with_nonce tail_crypto ?S (enc 1) (enc 1) (enc 1) = Ok (sig_of ?px (enc 2))"
    using dlog_sign_small [of 2] dlog_sign_small [of 1] by simp_all
  have v: "bip340_verify ?S (sig_of ?px (enc 3)) (enc 2) ?px" "bip340_verify ?S (sig_of ?px (enc 2)) (enc 1) ?px"
    using signed_facts [OF laws g(1)] signed_facts [OF laws g(2)] by blast+
  have "\<exists>d. extract_secret tail_crypto ?S (sig_of ?px (enc 3)) (sig_of ?px (enc 2)) (enc 2) (enc 1) ?px
      = (Ok (Some d) :: (SecpError, _) res)"
    using nonce_reuse_extracts [OF laws v] zn_small by (auto simp: tail_chal sk_ok_enc [OF laws])
  with g show ?thesis by blast
qed


section \<open>Adaptor signatures open with the oracle's scalar\<close>

lemma verify_presig_True:
  assumes laws: "secp_laws C S" and t: "t \<noteq> 0"
  shows "verify_presig C S a px m (point S t) = Ok True \<longleftrightarrow>
    (\<exists>d k. d \<noteq> 0 \<and> k \<noteq> 0 \<and> px = pk_xonly S (point S d) \<and> x_even S px = point S d \<and> even_of S d = d
      \<and> ad_r_point a = point S k \<and> k + t \<noteq> 0 \<and> \<not> pk_odd S (point S (k + t))
      \<and> ad_combined_rx a = pk_xonly S (point S (k + t))
      \<and> chal C (ad_combined_rx a) px m * d \<noteq> 0 \<and> k + chal C (ad_combined_rx a) px m * d \<noteq> 0
      \<and> ad_s_a a = enc (k + chal C (ad_combined_rx a) px m * d))"
    (is "?v \<longleftrightarrow> ?w")
proof
  assume v: ?v
  then have ok: "x_ok S px" "pk_ok S (ad_r_point a)" by (auto simp: verify_presig_def res_simps)
  obtain d where d: "d \<noteq> 0" "px = pk_xonly S (point S d)" "x_even S px = point S d" "even_of S d = d"
    using x_okE [OF laws ok(1)] .
  obtain k where k: "k \<noteq> 0" "ad_r_point a = point S k" using ok(2) by (auto simp: pk_ok_iff [OF laws])
  let ?e = "chal C (ad_combined_rx a) px m"
  have c: "k + t \<noteq> 0" "\<not> pk_odd S (point S (k + t))" "ad_combined_rx a = pk_xonly S (point S (k + t))"
    using v t k laws by (auto simp: verify_presig_def res_simps Let_def pk_combine_points split: if_splits)
  have "?e * d \<noteq> 0 \<and> k + ?e * d \<noteq> 0 \<and> sk_ok S (ad_s_a a) \<and> pk_of S (ad_s_a a) = point S (k + ?e * d)" (is ?facts)
    using v t k c d laws ok
    by (auto simp: verify_presig_def res_simps Let_def pk_combine_points challenge_is pk_mul_tweak_point
        mult.commute split: if_splits)
  moreover from this obtain z where "z \<noteq> 0" "ad_s_a a = enc z" using sk_okE [OF laws] by blast
  ultimately have "ad_s_a a = enc (k + ?e * d)" using point_eq_iff [OF laws, of z "k + ?e * d"] by (simp add: pk_of_enc)
  with d k c \<open>?facts\<close> show ?w by blast
next
  assume ?w
  then show ?v
    using t laws x_ok_xonly [OF laws]
    by (auto simp: verify_presig_def xonly_key_def public_key_def pk_ok_iff pk_combine_points challenge_is
        pk_mul_tweak_point secret_key_enc pk_of_enc Let_def mult.commute)
qed

lemma presig_opens:
  assumes laws: "secp_laws C S" and t: "sk_ok S t"
    and ok: "verify_presig C S a px m (pk_of S t) = Ok True"
  shows "if val (ad_s_a a) + val t = 0 then decrypt S a t = Err InvalidTweak
    else \<exists>g. decrypt S a t = Ok g \<and> bip340_verify S g m px \<and> sig_r g = ad_combined_rx a
      \<and> recover_t S a g = Ok t"
proof -
  obtain y where y: "y \<noteq> 0" "t = enc y" using sk_okE [OF laws t] .
  let ?e = "chal C (ad_combined_rx a) px m"
  obtain d k where v: "d \<noteq> 0" "k \<noteq> 0" "px = pk_xonly S (point S d)" "even_of S d = d"
    "k + y \<noteq> 0" "\<not> pk_odd S (point S (k + y))" "ad_combined_rx a = pk_xonly S (point S (k + y))"
    "k + ?e * d \<noteq> 0" "ad_s_a a = enc (k + ?e * d)"
    using ok unfolding y(2) pk_of_enc verify_presig_True [OF laws y(1)] by blast
  have even: "even_of S (k + y) = k + y" using v(6) by (simp add: even_of_def)
  show ?thesis
  proof (cases "k + ?e * d + y = 0")
    case True
    then show ?thesis
      using laws y v(8,9) by (simp add: decrypt_def secret_key_enc scalar_mod_n_is sk_add_tweak_enc)
  next
    case False
    let ?g = "sig_of (ad_combined_rx a) (enc (k + ?e * d + y))"
    have "decrypt S a t = Ok ?g"
      using laws y v(8,9) False by (simp add: decrypt_def secret_key_enc scalar_mod_n_is sk_add_tweak_enc)
    moreover have "bip340_verify S ?g m px"
      using signed_verifies [OF laws v(1,5,4) even v(3,7), of m] by (simp add: algebra_simps)
    moreover have "recover_t S a ?g = Ok t"
      using laws y v(8,9) False by (simp add: recover_t_def secret_key_enc sk_neg_enc sk_add_tweak_enc)
    ultimately show ?thesis using False v(9) y(2) by auto
  qed
qed

text \<open>
  A pre-signature that passes the check opens with the discrete logarithm of its adaptor point,
  whoever made it: adding the scalar gives a valid BIP-340 signature of the message under the key,
  and that signature gives the scalar back. Only a sum of zero is refused.
\<close>

theorem presignature_opens:
  assumes laws: "secp_laws C S" and t: "sk_ok S t"
    and ok: "verify_presig C S a px m (pk_of S t) = Ok True"
  shows "if val (ad_s_a a) + val t = 0 then decrypt S a t = Err InvalidTweak
    else \<exists>g. decrypt S a t = Ok g \<and> bip340_verify S g m px \<and> sig_r g = ad_combined_rx a
      \<and> recover_t S a g = Ok t"
  by (rule presig_opens [OF assms])

lemma presign_loop_Ok:
  assumes laws: "secp_laws C S" and "y \<noteq> 0" "d \<noteq> 0"
    and "presign_loop C S (enc d) px base m (point S y) is = Ok a"
  shows "\<exists>i k. i \<in> set is \<and> ad_nonce_counter a = word_of_nat i \<and> nonce_candidate C base (word_of_nat i) = enc k
    \<and> k \<noteq> 0 \<and> k + y \<noteq> 0 \<and> \<not> pk_odd S (point S (k + y)) \<and> ad_r_point a = point S k
    \<and> ad_combined_rx a = pk_xonly S (point S (k + y)) \<and> chal C (ad_combined_rx a) px m * d \<noteq> 0
    \<and> k + chal C (ad_combined_rx a) px m * d \<noteq> 0 \<and> ad_s_a a = enc (k + chal C (ad_combined_rx a) px m * d)"
  using assms(4)
proof (induction "is")
  case (Cons i "is")
  let ?c = "nonce_candidate C base (word_of_nat i)"
  show ?case
  proof (cases "sk_ok S ?c")
    case True
    then obtain k where k: "k \<noteq> 0" "?c = enc k" using sk_okE [OF laws] by blast
    then have sum: "k + y \<noteq> 0"
      using Cons.prems True laws assms(2) by (auto simp: Let_def pk_of_enc pk_combine_points)
    show ?thesis
    proof (cases "pk_odd S (point S (k + y))")
      case True
      then have "presign_loop C S (enc d) px base m (point S y) is = Ok a"
        using Cons.prems \<open>sk_ok S ?c\<close> k sum laws assms(2) by (simp add: pk_of_enc pk_combine_points)
      then show ?thesis using Cons.IH by auto
    next
      case False
      let ?r = "pk_xonly S (point S (k + y))"
      have "d * chal C ?r px m \<noteq> 0 \<and> k + d * chal C ?r px m \<noteq> 0
          \<and> a = \<lparr>ad_combined_rx = ?r, ad_r_point = point S k, ad_s_a = enc (k + d * chal C ?r px m),
                ad_nonce_counter = word_of_nat i\<rparr>"
        using False Cons.prems \<open>sk_ok S ?c\<close> k sum laws assms(2,3)
        by (auto simp: Let_def pk_of_enc pk_combine_points challenge_is sk_mul_tweak_enc sk_add_tweak_enc
            split: if_splits)
      then show ?thesis
        using k sum False by (intro exI [of _ i] exI [of _ k]) (simp add: mult.commute)
    qed
  next
    case False
    then show ?thesis using Cons by auto
  qed
qed simp

text \<open>
  What the signer pre-signs passes the user's check against the same key, message and adaptor
  point, with a nonce found in at most 256 attempts.
\<close>

theorem presign_verifies:
  assumes laws: "secp_laws C S" and t: "sk_ok S t"
    and pre: "presign C S sk base m (pk_of S t) = Ok a"
  shows "verify_presig C S a (pk_xonly S (pk_of S sk)) m (pk_of S t) = Ok True
    \<and> ad_nonce_counter a < 256"
proof -
  obtain y where y: "y \<noteq> 0" "t = enc y" using sk_okE [OF laws t] .
  from pre have "sk_ok S sk" by (auto simp: presign_def res_simps Let_def)
  then obtain z where z: "z \<noteq> 0" "sk = enc z" using sk_okE [OF laws] by blast
  let ?px = "pk_xonly S (point S z)"
  have "presign_loop C S (enc (even_of S z)) ?px base m (point S y) [0 ..< 256] = Ok a"
    using pre z y laws by (simp add: presign_def pk_of_enc curve split del: if_split)
  from presign_loop_Ok [OF laws y(1) _ this] z obtain i k where w: "i < 256" "ad_nonce_counter a = word_of_nat i"
    "k \<noteq> 0" "k + y \<noteq> 0" "\<not> pk_odd S (point S (k + y))" "ad_r_point a = point S k"
    "ad_combined_rx a = pk_xonly S (point S (k + y))" "chal C (ad_combined_rx a) ?px m * even_of S z \<noteq> 0"
    "k + chal C (ad_combined_rx a) ?px m * even_of S z \<noteq> 0"
    "ad_s_a a = enc (k + chal C (ad_combined_rx a) ?px m * even_of S z)"
    by auto
  have "verify_presig C S a ?px m (point S y) = Ok True"
    unfolding verify_presig_True [OF laws y(1)]
    using w(3-) z(1) laws
    by (intro exI [of _ "even_of S z"] exI [of _ k]) (simp add: curve)
  moreover have "ad_nonce_counter a < 256"
    using w(1,2) by (simp add: word_less_nat_alt unat_word_of_nat)
  ultimately show ?thesis by (simp add: y z pk_of_enc)
qed


lemma unit_presign:
  defines "S \<equiv> dlog_secp unit_crypto"
  defines "a \<equiv> \<lparr>ad_combined_rx = pk_xonly S (point S 2), ad_r_point = point S 1, ad_s_a = enc 2,
    ad_nonce_counter = 0\<rparr>"
  shows "presign unit_crypto S (enc 1) (fill 0) (fill 0) (pk_of S (enc 1)) = Ok a"
    and "verify_presig unit_crypto S a (pk_xonly S (pk_of S (enc 1))) (fill 0) (pk_of S (enc 1)) = Ok True"
proof -
  note laws = dlog_secp_laws [of unit_crypto, folded S_def]
  have even: "even_of S 1 = 1" "\<not> pk_odd S (point S 1)" "\<not> pk_odd S (point S 2)"
    unfolding S_def using small_even [of 1] half_bounds
    by (simp_all add: dlog_odd dlog_point_law zrep_numeral order_n_def half_n_def)
  have one: "nonce_candidate unit_crypto b i = enc 1" for b i
    by (simp add: nonce_candidate_def rail_tagged_hash_def sha256_def unit_crypto_def Let_def)
  have first: "[0 ..< 256] = 0 # [1 ..< 256]" by (simp add: upt_conv_Cons)
  show "presign unit_crypto S (enc 1) (fill 0) (fill 0) (pk_of S (enc 1)) = Ok a"
    unfolding presign_def first
    using laws even zn_small
    by (simp add: one pk_of_enc secret_key_enc sk_ok_enc pk_combine_points challenge_is unit_chal
        sk_mul_tweak_enc sk_add_tweak_enc Let_def a_def)
  show "verify_presig unit_crypto S a (pk_xonly S (pk_of S (enc 1))) (fill 0) (pk_of S (enc 1)) = Ok True"
    unfolding pk_of_enc verify_presig_True [OF laws one_neq_zero]
    using laws even zn_small x_even_even_of [OF laws one_neq_zero]
    by (intro exI [of _ 1]) (simp add: a_def unit_chal)
qed

theorem presignature_opens_witness:
  "\<exists>a g. presign unit_crypto (dlog_secp unit_crypto) (enc 1) (fill 0) (fill 0) (pk_of (dlog_secp unit_crypto) (enc 1)) = Ok a
     \<and> decrypt (dlog_secp unit_crypto) a (enc 1) = Ok g
     \<and> bip340_verify (dlog_secp unit_crypto) g (fill 0) (pk_xonly (dlog_secp unit_crypto) (pk_of (dlog_secp unit_crypto) (enc 1)))
     \<and> recover_t (dlog_secp unit_crypto) a g = Ok (enc 1)"
  using unit_presign(1) zn_small
    presignature_opens [OF dlog_secp_laws _ unit_presign(2)] sk_ok_enc [OF dlog_secp_laws, of unit_crypto 1]
  by fastforce

theorem presign_verifies_witness:
  "\<exists>a. presign unit_crypto (dlog_secp unit_crypto) (enc 1) (fill 0) (fill 0) (pk_of (dlog_secp unit_crypto) (enc 1)) = Ok a
     \<and> verify_presig unit_crypto (dlog_secp unit_crypto) a
         (pk_xonly (dlog_secp unit_crypto) (pk_of (dlog_secp unit_crypto) (enc 1))) (fill 0)
         (pk_of (dlog_secp unit_crypto) (enc 1)) = Ok True"
  using unit_presign(1) presign_verifies [OF dlog_secp_laws _ unit_presign(1)]
    sk_ok_enc [OF dlog_secp_laws, of unit_crypto 1]
  by auto

end
