(* ===== verification/Event.thy ===== *)
theory Event
  imports Schnorr Text Vault
begin

text \<open>
  The single oracle (\<^verbatim>\<open>satusd-oracle/src/event.rs\<close>, \<^verbatim>\<open>oracle.rs\<close> and the writers of \<^verbatim>\<open>tlv.rs\<close>): event
  ids, the binary digits of a price with one nonce for each, announcements and attestations; and
  what a contract computes from them (\<^verbatim>\<open>satusd-rail1/src/cet.rs\<close>): the adaptor point of a bucket and
  the secret that opens it.
\<close>

unbundle bit_operations_syntax

section \<open>Events and digits\<close>

definition NONCE_TAG :: string where "NONCE_TAG = ''SatUSD/oracle/nonce/v1''"
definition BASE :: u16 where "BASE = 2"

definition MAX_OUTCOME :: u32 where "MAX_OUTCOME = push_bit (shift_amount NB_DIGITS) 1 - 1"

definition event_id :: "u64 \<Rightarrow> bytes" where
  "event_id unix_ts = ascii ''SatUSD/BTCUSD/'' @ decimal (unat unix_ts)"

definition digits :: "u32 \<Rightarrow> u8 list" where
  "digits price_usd =
     (let clamped = min price_usd MAX_OUTCOME in
      map (\<lambda>i. ucast (drop_bit (unat NB_DIGITS - 1 - i) clamped AND 1)) [0 ..< unat NB_DIGITS])"

definition price_from_digits :: "u8 list \<Rightarrow> u32" where
  "price_from_digits ds = foldl (\<lambda>acc d. push_bit 1 acc OR ucast d) 0 ds"

definition outcome :: "u8 \<Rightarrow> bytes" where
  "outcome digit = ascii (if digit = 0 then ''0'' else ''1'')"

definition attestation_msg :: "crypto \<Rightarrow> u8 \<Rightarrow> b32" where
  "attestation_msg C digit = rail_tagged_hash C ''DLC/oracle/attestation/v0'' (outcome digit)"

definition nonce :: "crypto \<Rightarrow> b32 \<Rightarrow> bytes \<Rightarrow> u16 \<Rightarrow> b32" where
  "nonce C seed ev_id digit_index = rail_tagged_hash C NONCE_TAG (bs seed @ ev_id @ to_be digit_index)"

section \<open>The writers of the wire format\<close>

definition TYPE_ORACLE_EVENT :: u64 where "TYPE_ORACLE_EVENT = 55330"
definition TYPE_ORACLE_ANNOUNCEMENT :: u64 where "TYPE_ORACLE_ANNOUNCEMENT = 55332"
definition TYPE_ORACLE_ATTESTATION :: u64 where "TYPE_ORACLE_ATTESTATION = 55400"
definition TYPE_DIGIT_DECOMPOSITION_DESCRIPTOR :: u64 where
  "TYPE_DIGIT_DECOMPOSITION_DESCRIPTOR = 55306"

definition oracle_tlv :: "u64 \<Rightarrow> bytes \<Rightarrow> bytes" where
  "oracle_tlv type_id value =
     emit [put_bigsize type_id, put_bigsize (word_of_nat (length value)), put_raw value] []"

definition digit_descriptor :: "u16 \<Rightarrow> bool \<Rightarrow> bytes \<Rightarrow> u32 \<Rightarrow> u16 \<Rightarrow> bytes" where
  "digit_descriptor base is_signed unit precision nb_digits =
     oracle_tlv TYPE_DIGIT_DECOMPOSITION_DESCRIPTOR
       (emit [put_u16 base, put_bool is_signed, put_string unit, put_i32 precision, put_u16 nb_digits] [])"

definition oracle_event :: "b32 list \<Rightarrow> u32 \<Rightarrow> bytes \<Rightarrow> bytes \<Rightarrow> bytes" where
  "oracle_event nonces maturity_unix descriptor_tlv ev_id =
     oracle_tlv TYPE_ORACLE_EVENT
       (emit [put_u16 (word_of_nat (length nonces)), fold put_bytes32 nonces, put_u32 maturity_unix,
              put_raw descriptor_tlv, put_string ev_id] [])"

definition oracle_announcement :: "b64 \<Rightarrow> b32 \<Rightarrow> bytes \<Rightarrow> bytes" where
  "oracle_announcement announcement_sig oracle_pubkey oracle_event_tlv =
     oracle_tlv TYPE_ORACLE_ANNOUNCEMENT
       (emit [put_raw (bs announcement_sig), put_bytes32 oracle_pubkey, put_raw oracle_event_tlv] [])"

definition oracle_attestation :: "bytes \<Rightarrow> b32 \<Rightarrow> b64 list \<Rightarrow> bytes list \<Rightarrow> ('e, bytes) res" where
  "oracle_attestation ev_id oracle_pubkey signatures outcomes =
     (if length signatures \<noteq> length outcomes then Panic
      else Ok (oracle_tlv TYPE_ORACLE_ATTESTATION
        (emit [put_string ev_id, put_bytes32 oracle_pubkey, put_u16 (word_of_nat (length signatures)),
               fold (\<lambda>s. put_raw (bs s)) signatures, fold put_string outcomes] [])))"

section \<open>The oracle\<close>

record OracleKeys =
  ok_sk :: b32
  ok_seed :: b32
  ok_pubkey :: b32

record Announcement =
  an_event_id :: bytes
  an_nonce_points :: "b32 list"
  an_tlv_bytes :: bytes

record Attestation =
  at_event_id :: bytes
  at_price_usd :: u32
  at_signatures :: "b64 list"
  at_tlv_bytes :: bytes

definition from_seed :: "crypto \<Rightarrow> secp \<Rightarrow> b32 \<Rightarrow> (SecpError, OracleKeys) res" where
  "from_seed C S master_seed =
     (let sk = rail_tagged_hash C ''SatUSD/oracle/key/v1'' (bs master_seed) in
      rbind (secret_key S sk) (\<lambda>d.
      Ok \<lparr>ok_sk = sk, ok_seed = master_seed, ok_pubkey = pk_xonly S (pk_of S d)\<rparr>))"

definition announce :: "crypto \<Rightarrow> secp \<Rightarrow> OracleKeys \<Rightarrow> u64 \<Rightarrow> (SecpError, Announcement) res" where
  "announce C S self unix_ts =
     (let ev_id = event_id unix_ts in
      rbind (rmap (\<lambda>i. nonce_point S (nonce C (ok_seed self) ev_id (word_of_nat i))) [0 ..< unat NB_DIGITS]) (\<lambda>points.
      let descriptor = digit_descriptor BASE False (ascii ''USD/BTC'') 0 NB_DIGITS;
          event = oracle_event points (ucast unix_ts) descriptor ev_id;
          msg = rail_tagged_hash C ''DLC/oracle/announcement/v0'' event;
          ann_nonce = rail_tagged_hash C ''SatUSD/oracle/announcement-nonce/v1'' (bs (ok_seed self) @ ev_id) in
      rbind (sign_with_nonce C S (ok_sk self) ann_nonce msg) (\<lambda>sig.
      Ok \<lparr>an_event_id = ev_id, an_nonce_points = points,
          an_tlv_bytes = oracle_announcement sig (ok_pubkey self) event\<rparr>)))"

definition attest :: "crypto \<Rightarrow> secp \<Rightarrow> OracleKeys \<Rightarrow> u64 \<Rightarrow> u32 \<Rightarrow> (SecpError, Attestation) res" where
  "attest C S self unix_ts price_usd =
     (let ev_id = event_id unix_ts; ds = digits price_usd in
      rbind (rmap (\<lambda>(i, d). sign_with_nonce C S (ok_sk self)
          (nonce C (ok_seed self) ev_id (word_of_nat i)) (attestation_msg C d)) (enumerate 0 ds)) (\<lambda>sigs.
      rbind (oracle_attestation ev_id (ok_pubkey self) sigs (map outcome ds)) (\<lambda>tlv_bytes.
      Ok \<lparr>at_event_id = ev_id, at_price_usd = price_usd, at_signatures = sigs, at_tlv_bytes = tlv_bytes\<rparr>)))"

section \<open>The adaptor point and the secret of a bucket\<close>

definition add_point :: "secp \<Rightarrow> b33 \<Rightarrow> b33 option \<Rightarrow> (SecpError, b33 option) res" where
  "add_point S p acc =
     (case acc of None \<Rightarrow> Ok (Some p) | Some a \<Rightarrow> rbind (pk_combine S a p) (\<lambda>s. Ok (Some s)))"

definition add_secret :: "secp \<Rightarrow> b32 \<Rightarrow> b32 option \<Rightarrow> (SecpError, b32 option) res" where
  "add_secret S s acc =
     (case acc of None \<Rightarrow> Ok (Some s) | Some a \<Rightarrow> rbind (sk_add_tweak S a s) (\<lambda>s. Ok (Some s)))"

text \<open>Digit \<open>i\<close> of a prefix of \<open>m\<close> digits, with the shift amount taken modulo the width.\<close>

definition prefix_digit :: "u32 \<Rightarrow> u8 \<Rightarrow> nat \<Rightarrow> u8" where
  "prefix_digit bucket_index m i = ucast (drop_bit (unat (m - 1 - word_of_nat i) mod 32) bucket_index AND 1)"

definition bucket_adaptor_point ::
  "crypto \<Rightarrow> secp \<Rightarrow> Announcement \<Rightarrow> b32 \<Rightarrow> u8 \<Rightarrow> u32 \<Rightarrow> (SecpError, b33) res" where
  "bucket_adaptor_point C S announcement oracle_pubkey m bucket_index =
     rbind (xonly_key S oracle_pubkey) (\<lambda>px.
     if length (an_nonce_points announcement) < unat m then Err InvalidPublicKey
     else
       rbind (rfold (\<lambda>i acc.
           rbind (unwrap (get_at (an_nonce_points announcement) i)) (\<lambda>n.
           rbind (xonly_key S n) (\<lambda>rx.
           rbind (anticipation_point C S rx px (attestation_msg C (prefix_digit bucket_index m i))) (\<lambda>p.
           add_point S p acc)))) [0 ..< unat m] None) unwrap)"

definition bucket_secret :: "secp \<Rightarrow> Attestation \<Rightarrow> u8 \<Rightarrow> u32 \<Rightarrow> (SecpError, b32) res" where
  "bucket_secret S attestation m bucket_index =
     (if bucket_of (at_price_usd attestation) m \<noteq> bucket_index then Err InvalidTweak
      else if length (at_signatures attestation) < unat m then Err InvalidTweak
      else
        rbind (rfold (\<lambda>i acc.
            rbind (unwrap (get_at (at_signatures attestation) i)) (\<lambda>sig.
            rbind (secret_key S (sig_s sig)) (\<lambda>s.
            add_secret S s acc))) [0 ..< min (unat m) (length (digits (at_price_usd attestation)))] None) unwrap)"

definition secret_matches_point :: "secp \<Rightarrow> b32 \<Rightarrow> b33 \<Rightarrow> bool" where
  "secret_matches_point S t p \<longleftrightarrow>
     (case secret_key S t :: (SecpError, b32) res of Ok s \<Rightarrow> pk_of S s = p | _ \<Rightarrow> False)"

section \<open>Digits and prices\<close>

lemma length_digits [simp]: "length (digits p) = 20"
  by (simp add: digits_def NB_DIGITS_def Let_def)

lemma nth_digits: "i < 20 \<Longrightarrow> digits p ! i = ucast (drop_bit (19 - i) (min p MAX_OUTCOME) AND 1)"
  by (simp add: digits_def NB_DIGITS_def Let_def)

lemma prefix_digit_is:
  assumes "prefix_ok m" "i < unat m"
  shows "prefix_digit (bucket_of p m) m i = digits p ! i"
proof -
  note m = prefix_nat [OF assms(1)]
  have "unat (word_of_nat i :: u8) = i" using assms(2) m by (intro unat_word_of_nat) simp
  moreover have "unat (m - 1) = unat m - 1" using assms(1) by (simp add: unat_sub prefix_ok_def)
  ultimately have "unat (m - 1 - word_of_nat i) = unat m - 1 - i"
    using assms(2) by (subst unat_sub) (simp_all add: word_le_nat_alt)
  moreover have "(unat m - 1 - i) + (20 - unat m) = 19 - i" using m assms(2) by simp
  ultimately show ?thesis
    using m assms(2)
    by (simp add: prefix_digit_def bucket_of_def width_shift [OF assms(1)] nth_digits MAX_OUTCOME_def Let_def
        drop_bit_drop_bit)
qed

lemma next_digit: "push_bit 1 (drop_bit (Suc k) c) OR ucast (ucast (drop_bit k c AND 1) :: u8) = drop_bit k c" for c :: u32
proof (rule bit_word_eqI)
  fix n
  assume "n < LENGTH(32)"
  then show "bit (push_bit 1 (drop_bit (Suc k) c) OR ucast (ucast (drop_bit k c AND 1) :: u8)) n = bit (drop_bit k c) n"
    unfolding bit_or_iff bit_push_bit_iff by (cases n) (auto simp: bit_simps)
qed

lemma price_from_prefix:
  assumes "m \<le> 20"
  shows "price_from_digits (take m (digits p)) = drop_bit (20 - m) (min p MAX_OUTCOME)"
  using assms
proof (induction m)
  case 0
  have "drop_bit 20 (min p MAX_OUTCOME) = 0"
  proof -
    have "unat (min p MAX_OUTCOME) < 2 ^ 20"
      by (simp add: unat_min MAX_OUTCOME_def shift_amount_def NB_DIGITS_def push_bit_eq_mult min_less_iff_disj)
    then have "unat (drop_bit 20 (min p MAX_OUTCOME)) = 0"
      by (simp only: unat_drop_bit_eq) (simp add: drop_bit_eq_div)
    then show ?thesis by (simp add: unat_eq_zero)
  qed
  then show ?case by (simp add: price_from_digits_def)
next
  case (Suc m)
  have "take (Suc m) (digits p) = take m (digits p) @ [digits p ! m]"
    using Suc.prems by (simp add: take_Suc_conv_app_nth)
  moreover have "price_from_digits (take m (digits p) @ [digits p ! m])
      = push_bit 1 (drop_bit (Suc (19 - m)) (min p MAX_OUTCOME)) OR ucast (digits p ! m)"
  proof -
    have "20 - m = Suc (19 - m)" using Suc.prems by simp
    with Suc show "price_from_digits (take m (digits p) @ [digits p ! m])
      = push_bit 1 (drop_bit (Suc (19 - m)) (min p MAX_OUTCOME)) OR ucast (digits p ! m)"
      by (simp add: price_from_digits_def)
  qed
  ultimately show ?case using Suc.prems next_digit [of "19 - m" "min p MAX_OUTCOME"] by (simp add: nth_digits)
qed


text \<open>
  The digits of a price spell it: read back they give the price, capped at the largest outcome,
  and the first \<open>m\<close> of them give the number of the bucket the price falls into.
\<close>

theorem digits_spell_price:
  "price_from_digits (digits p) = min p MAX_OUTCOME
   \<and> (if 1 \<le> m \<and> m \<le> 20 then price_from_digits (take (unat m) (digits p)) = bucket_of p m else True)"
proof (intro conjI)
  show "price_from_digits (digits p) = min p MAX_OUTCOME"
    using price_from_prefix [of 20 p] by simp
  have "price_from_digits (take (unat m) (digits p)) = bucket_of p m" if "prefix_ok m"
    using price_from_prefix [of "unat m" p] prefix_nat [OF that]
    by (simp add: bucket_of_def width_shift [OF that] MAX_OUTCOME_def Let_def)
  then show "if 1 \<le> m \<and> m \<le> 20 then price_from_digits (take (unat m) (digits p)) = bucket_of p m else True"
    by (simp add: prefix_ok_def)
qed

section \<open>What an oracle announces and attests\<close>

lemma from_seed_Ok:
  "from_seed C S seed = Ok keys \<longleftrightarrow>
     sk_ok S (ok_sk keys) \<and> ok_sk keys = rail_tagged_hash C ''SatUSD/oracle/key/v1'' (bs seed)
     \<and> ok_seed keys = seed \<and> ok_pubkey keys = pk_xonly S (pk_of S (ok_sk keys))"
  by (cases keys) (auto simp: from_seed_def res_simps Let_def)

lemma announce_points:
  assumes "announce C S keys ts = Ok an"
  shows "length (an_nonce_points an) = 20"
    and "i < 20 \<Longrightarrow> nonce_point S (nonce C (ok_seed keys) (event_id ts) (word_of_nat i)) = Ok (an_nonce_points an ! i)"
  using assms
  by (auto simp: announce_def res_simps rmap_Ok NB_DIGITS_def Let_def list_all2_conv_all_nth)

lemma attest_signatures:
  assumes "attest C S keys ts price = Ok at"
  shows "at_price_usd at = price" "length (at_signatures at) = 20"
    and "i < 20 \<Longrightarrow> sign_with_nonce C S (ok_sk keys) (nonce C (ok_seed keys) (event_id ts) (word_of_nat i))
      (attestation_msg C (digits price ! i)) = Ok (at_signatures at ! i)"
  using assms
  by (auto simp: attest_def res_simps rmap_Ok Let_def list_all2_conv_all_nth nth_enumerate_eq)

text \<open>Points are added up as the secrets are.\<close>

lemma sums_match:
  assumes laws: "secp_laws C S"
    and step: "\<And>i. i \<in> set is \<Longrightarrow> \<exists>z. z \<noteq> 0 \<and> secret i = Ok (enc z) \<and> pt i = Ok (point S z)"
    and sum: "rfold (\<lambda>i acc. rbind (secret i) (\<lambda>s. add_secret S s acc)) is a = Ok r"
    and acc: "case a of None \<Rightarrow> b = None | Some s \<Rightarrow> \<exists>y. y \<noteq> 0 \<and> s = enc y \<and> b = Some (point S y)"
  shows "rfold (\<lambda>i acc. rbind (pt i) (\<lambda>p. add_point S p acc)) is b = Ok (map_option (pk_of S) r)"
  using step sum acc
proof (induction "is" arbitrary: a b)
  case Nil
  then show ?case by (auto simp: pk_of_enc split: option.splits)
next
  case (Cons i "is")
  obtain z where z: "z \<noteq> 0" "secret i = Ok (enc z)" "pt i = Ok (point S z)" using Cons.prems(1) by auto
  obtain a' where a': "add_secret S (enc z) a = Ok a'"
    "rfold (\<lambda>i acc. rbind (secret i) (\<lambda>s. add_secret S s acc)) is a' = Ok r"
    using Cons.prems(2) z by (auto simp: res_simps)
  have "\<exists>b'. add_point S (point S z) b = Ok b'
      \<and> (case a' of None \<Rightarrow> b' = None | Some s \<Rightarrow> \<exists>y. y \<noteq> 0 \<and> s = enc y \<and> b' = Some (point S y))"
    using a'(1) Cons.prems(3) z(1) laws
    by (auto simp: add_secret_def add_point_def sk_add_tweak_enc pk_combine_points split: option.splits if_splits)
  then obtain b' where b': "add_point S (point S z) b = Ok b'"
    "case a' of None \<Rightarrow> b' = None | Some s \<Rightarrow> \<exists>y. y \<noteq> 0 \<and> s = enc y \<and> b' = Some (point S y)" by blast
  have "rfold (\<lambda>i acc. rbind (pt i) (\<lambda>p. add_point S p acc)) is b' = Ok (map_option (pk_of S) r)"
    using Cons.prems(1) a'(2) b'(2) by (intro Cons.IH [of a']) auto
  then show ?case using z(3) b'(1) by simp
qed

lemma add_none: "add_secret S s acc \<noteq> Ok None"
  by (auto simp: add_secret_def res_simps split: option.splits)

lemma bucket_secret_prefix:
  assumes "bucket_secret S at m b = Ok t"
  shows "b = bucket_of (at_price_usd at) m" "unat m \<le> length (at_signatures at)" "m \<noteq> 0"
proof -
  show "b = bucket_of (at_price_usd at) m" "unat m \<le> length (at_signatures at)"
    using assms by (auto simp: bucket_secret_def res_simps)
  show "m \<noteq> 0" using assms by (auto simp: bucket_secret_def res_simps)
qed

lemma bucket_opens:
  assumes laws: "secp_laws C S" and keys: "from_seed C S seed = Ok keys"
    and an: "announce C S keys ts = Ok an" and at: "attest C S keys ts price = Ok at"
    and t: "bucket_secret S at m b = Ok t"
  shows "b = bucket_of price m" and "sk_ok S t"
    and "bucket_adaptor_point C S an (ok_pubkey keys) m b = Ok (pk_of S t)"
proof -
  note at' = attest_signatures [OF at] and an' = announce_points [OF an]
  note b = bucket_secret_prefix [OF t]
  show b_is: "b = bucket_of price m" using b(1) at'(1) by simp
  have m: "prefix_ok m" "unat m \<le> 20"
    using b(2,3) at'(2) by (simp_all add: prefix_ok_def word_le_nat_alt word_neq_0_conv word_less_nat_alt)
  let ?px = "ok_pubkey keys"
  have px: "x_ok S ?px" "?px = pk_xonly S (pk_of S (ok_sk keys))"
  proof -
    have k: "sk_ok S (ok_sk keys)" "?px = pk_xonly S (pk_of S (ok_sk keys))"
      using keys [unfolded from_seed_Ok] by blast+
    then show "x_ok S ?px" "?px = pk_xonly S (pk_of S (ok_sk keys))"
      using sk_okE [OF laws k(1)] x_ok_xonly [OF laws] by (metis pk_of_enc)+
  qed
  let ?sec = "\<lambda>i. rbind (unwrap (get_at (at_signatures at) i)) (\<lambda>sig. secret_key S (sig_s sig))"
  let ?pt = "\<lambda>i. rbind (unwrap (get_at (an_nonce_points an) i)) (\<lambda>n. rbind (xonly_key S n) (\<lambda>rx.
      anticipation_point C S rx ?px (attestation_msg C (prefix_digit b m i))))"
  have step: "\<exists>z. z \<noteq> 0 \<and> ?sec i = Ok (enc z) \<and> ?pt i = Ok (point S z)" if "i \<in> set [0 ..< unat m]" for i
  proof -
    have i: "i < 20" "i < unat m" using that m(2) by simp_all
    let ?k = "nonce C (ok_seed keys) (event_id ts) (word_of_nat i)" and ?g = "at_signatures at ! i"
    note signed = at'(3) [OF i(1)]
    note facts = signed_facts [OF laws signed]
    have "an_nonce_points an ! i = sig_r ?g" using facts an'(2) [OF i(1)] by simp
    moreover obtain d kk where v: "kk \<noteq> 0" "sig_r ?g = pk_xonly S (point S kk)"
      using verifiedE [OF laws] facts by metis
    moreover from v have "x_ok S (sig_r ?g)" using x_ok_xonly [OF laws v(1)] by simp
    moreover obtain z where z: "z \<noteq> 0" "sig_s ?g = enc z"
      using signed [unfolded sign_Ok [OF laws]] by auto
    ultimately show ?thesis
      using facts i at'(2) an'(1) laws px(2)
      by (intro exI [of _ z])
        (simp add: get_at_def secret_key_enc xonly_key_def prefix_digit_is [OF m(1) i(2)] b_is pk_of_enc)
  qed
  obtain r where r: "rfold (\<lambda>i acc. rbind (?sec i) (\<lambda>s. add_secret S s acc)) [0 ..< unat m] None = Ok r"
    "r = Some t"
    using t m(2) by (auto simp: bucket_secret_def res_simps rbind_assoc min_absorb1)
  have sum: "rfold (\<lambda>i acc. rbind (?pt i) (\<lambda>p. add_point S p acc)) [0 ..< unat m] None = Ok (map_option (pk_of S) r)"
    using sums_match [OF laws step r(1), of None] by simp
  then show "bucket_adaptor_point C S an ?px m b = Ok (pk_of S t)"
    using px an'(1) m(2) r(2) by (simp add: bucket_adaptor_point_def xonly_key_def rbind_assoc)
  have inv: "case s of None \<Rightarrow> True | Some x \<Rightarrow> sk_ok S x"
    if "rfold (\<lambda>i acc. rbind (?sec i) (\<lambda>s. add_secret S s acc)) [0 ..< unat m] None = Ok s" for s
    using that
  proof (rule rfold_invariant [where I = "case_option True (sk_ok S)"])
    fix i s s'
    assume "i \<in> set [0 ..< unat m]" "case_option True (sk_ok S) s" "rbind (?sec i) (\<lambda>s'. add_secret S s' s) = Ok s'"
    with step [of i] show "case_option True (sk_ok S) s'"
      using sk_okE [OF laws] sk_ok_enc [OF laws]
      by (auto simp: add_secret_def res_simps split: option.splits)
        (metis guard_Ok_iff laws res.inject(1) sk_add_tweak_enc)
  qed simp
  from inv [OF r(1)] r(2) show "sk_ok S t" by simp
qed


text \<open>The scalars of an attestation add up to the secret, unless a partial sum is zero.\<close>

lemma secrets_add_up:
  assumes laws: "secp_laws C S" and s: "\<And>i. i < n \<Longrightarrow> z i \<noteq> 0 \<and> secret i = Ok (enc (z i))"
    and sums: "\<And>k. 0 < k \<Longrightarrow> k \<le> n \<Longrightarrow> (\<Sum>i<k. z i) \<noteq> 0"
  shows "rfold (\<lambda>i acc. rbind (secret i) (\<lambda>s. add_secret S s acc)) [0 ..< n] None
    = Ok (if n = 0 then None else Some (enc (\<Sum>i<n. z i)))"
  using s sums
proof (induction n)
  case (Suc n)
  have IH: "rfold (\<lambda>i acc. rbind (secret i) (\<lambda>s. add_secret S s acc)) [0 ..< n] None
      = Ok (if n = 0 then None else Some (enc (\<Sum>i<n. z i)))"
    by (rule Suc.IH) (use Suc.prems in auto)
  have n: "z n \<noteq> 0" "secret n = Ok (enc (z n))" using Suc.prems(1) by blast+
  show ?case
  proof (cases "n = 0")
    case True
    then show ?thesis using n by (simp add: add_secret_def)
  next
    case False
    then have "(\<Sum>i<n. z i) \<noteq> 0" "(\<Sum>i<n. z i) + z n \<noteq> 0"
      using Suc.prems(2) [of n] Suc.prems(2) [of "Suc n"] by auto
    with IH n False laws show ?thesis
      by (simp add: rfold_append add_secret_def sk_add_tweak_enc)
  qed
qed simp

lemma attested_scalars:
  assumes "secp_laws C S" "attest C S keys ts price = Ok at" "i < 20"
  shows "sk_ok S (sig_s (at_signatures at ! i))"
  using attest_signatures(3) [OF assms(2,3)] unfolding sign_Ok [OF assms(1)]
  by (auto simp: sk_ok_enc [OF assms(1)])

lemma bucket_secret_available:
  assumes laws: "secp_laws C S" and at: "attest C S keys ts price = Ok at" and m: "1 \<le> m" "m \<le> 20"
    and sums: "\<And>k. 0 < k \<Longrightarrow> k \<le> unat m \<Longrightarrow> (\<Sum>i<k. val (sig_s (at_signatures at ! i))) \<noteq> 0"
  shows "bucket_secret S at m (bucket_of price m) = Ok (enc (\<Sum>i<unat m. val (sig_s (at_signatures at ! i))))"
proof -
  have m': "unat m \<le> 20" "unat m \<noteq> 0" using m by (auto simp: word_le_nat_alt)
  note at' = attest_signatures(1,2) [OF at]
  let ?z = "\<lambda>i. val (sig_s (at_signatures at ! i))"
  have step: "?z i \<noteq> 0 \<and> rbind (unwrap (get_at (at_signatures at) i)) (\<lambda>sig. secret_key S (sig_s sig)) = (Ok (enc (?z i)) :: (SecpError, _) res)"
    if "i < unat m" for i
  proof -
    have "i < 20" using that m'(1) by simp
    then have ok: "sk_ok S (sig_s (at_signatures at ! i))" by (rule attested_scalars [OF laws at])
    obtain z where "z \<noteq> 0" "sig_s (at_signatures at ! i) = enc z" by (rule sk_okE [OF laws ok])
    with \<open>i < 20\<close> at' laws show ?thesis by (simp add: get_at_def secret_key_enc)
  qed
  from secrets_add_up [OF laws step sums, of "unat m"] m' show ?thesis
    by (simp add: bucket_secret_def at' rbind_assoc min_absorb1)
qed

text \<open>
  C23: A contract settles as soon as the oracle attests. Whoever holds the attestation of a price
  has the secret of the bucket the price falls into, for any of the 20 lengths of a prefix, and is
  refused that of every other bucket; the adaptor point everybody computes from the announcement is the
  public key of that secret; and every pre-signature checked against that point opens with it to a valid
  signature. Only sums of scalars that cancel to zero are excluded: of the first digits' signatures, and
  of the pre-signature with the secret, which decryption refuses.
\<close>

theorem contract_settles:
  assumes laws: "secp_laws C S" and keys: "from_seed C S seed = Ok keys"
    and an: "announce C S keys ts = Ok an" and at: "attest C S keys ts price = Ok at"
    and m: "1 \<le> m" "m \<le> 20"
    and sums: "\<And>k. 0 < k \<Longrightarrow> k \<le> unat m \<Longrightarrow> (\<Sum>i<k. val (sig_s (at_signatures at ! i))) \<noteq> 0"
  shows "\<exists>t T. bucket_secret S at m (bucket_of price m) = Ok t
    \<and> (\<forall>b. b \<noteq> bucket_of price m \<longrightarrow> bucket_secret S at m b = Err InvalidTweak)
    \<and> bucket_adaptor_point C S an (ok_pubkey keys) m (bucket_of price m) = Ok T \<and> secret_matches_point S t T
    \<and> (\<forall>a px msg. verify_presig C S a px msg T = Ok True \<longrightarrow>
        (if val (ad_s_a a) + val t = 0 then decrypt S a t = Err InvalidTweak
         else \<exists>g. decrypt S a t = Ok g \<and> bip340_verify S g msg px \<and> recover_t S a g = Ok t))"
proof -
  obtain t where t: "bucket_secret S at m (bucket_of price m) = Ok t"
    using bucket_secret_available [OF laws at m sums] by blast
  note opens = bucket_opens [OF laws keys an at t]
  have "secret_matches_point S t (pk_of S t)"
    using opens(2) by (simp add: secret_matches_point_def secret_key_def)
  moreover have "if val (ad_s_a a) + val t = 0 then decrypt S a t = Err InvalidTweak
       else \<exists>g. decrypt S a t = Ok g \<and> bip340_verify S g msg px \<and> recover_t S a g = Ok t"
    if "verify_presig C S a px msg (pk_of S t) = Ok True" for a px msg
    using presig_opens [OF laws opens(2) that] by (auto split: if_splits)
  moreover have "bucket_secret S at m b = Err InvalidTweak" if "b \<noteq> bucket_of price m" for b
    using that attest_signatures(1) [OF at] by (simp add: bucket_secret_def)
  ultimately show ?thesis using t opens(3) by blast
qed

text \<open>The oracle and a contract over the instance where every hash is one.\<close>

lemma rmap_same: "(\<And>x. x \<in> set xs \<Longrightarrow> f x = Ok y) \<Longrightarrow> rmap f xs = Ok (replicate (length xs) y)"
  by (induction xs) auto

lemma unit_hash: "rail_tagged_hash unit_crypto tag x = enc 1"
  by (simp add: rail_tagged_hash_def sha256_def unit_crypto_def Let_def)

definition unit_keys :: OracleKeys where
  "unit_keys = \<lparr>ok_sk = enc 1, ok_seed = fill 0,
    ok_pubkey = pk_xonly (dlog_secp unit_crypto) (pk_of (dlog_secp unit_crypto) (enc 1))\<rparr>"

lemma unit_oracle:
  defines "S \<equiv> dlog_secp unit_crypto"
  shows "from_seed unit_crypto S (fill 0) = Ok unit_keys"
    and "\<exists>an. announce unit_crypto S unit_keys 0 = Ok an"
    and "\<exists>at. attest unit_crypto S unit_keys 0 0 = Ok at \<and> bucket_secret S at 1 0 = Ok (enc 2)"
proof -
  note laws = dlog_secp_laws [of unit_crypto, folded S_def]
  have ok: "sk_ok S (enc 1)" using sk_ok_enc [OF laws] by simp
  note sign = dlog_sign_sample [folded S_def]
  show "from_seed unit_crypto S (fill 0) = Ok unit_keys"
    using ok by (simp add: from_seed_Ok unit_keys_def unit_hash S_def)
  have "rmap (\<lambda>i. nonce_point S (nonce unit_crypto (ok_seed unit_keys) (event_id 0) (word_of_nat i))) [0 ..< unat NB_DIGITS]
      = Ok (replicate (length [0 ..< unat NB_DIGITS]) (pk_xonly S (pk_of S (enc 1))))"
    using ok by (intro rmap_same) (simp add: nonce_point_def nonce_def unit_hash secret_key_def)
  then show "\<exists>an. announce unit_crypto S unit_keys 0 = Ok an"
    by (simp add: announce_def unit_hash sign unit_keys_def Let_def)
  let ?g = "sig_of (pk_xonly S (pk_of S (enc 1))) (enc 2)"
  have sigs: "rmap (\<lambda>(i, d). sign_with_nonce unit_crypto S (ok_sk unit_keys)
        (nonce unit_crypto (ok_seed unit_keys) (event_id 0) (word_of_nat i)) (attestation_msg unit_crypto d))
      (enumerate 0 (digits 0)) = Ok (replicate (length (enumerate 0 (digits 0))) ?g)"
    by (rule rmap_same) (auto simp: nonce_def attestation_msg_def unit_hash unit_keys_def sign)
  then obtain at where at: "attest unit_crypto S unit_keys 0 0 = Ok at" "at_signatures at = replicate 20 ?g"
    "at_price_usd at = 0"
    by (simp add: attest_def oracle_attestation_def Let_def)
  have "bucket_of 0 1 = 0" by (simp add: bucket_of_def Let_def)
  moreover have "secret_key S (enc 2) = Ok (enc 2)" using secret_key_enc [OF laws zn_small(1)] .
  ultimately have "bucket_secret S at 1 0 = Ok (enc 2)"
    using at(2,3) by (simp add: bucket_secret_def get_at_def add_secret_def)
  with at(1) show "\<exists>at. attest unit_crypto S unit_keys 0 0 = Ok at \<and> bucket_secret S at 1 0 = Ok (enc 2)"
    by blast
qed

theorem contract_settles_witness:
  "\<exists>an at T a g. announce unit_crypto (dlog_secp unit_crypto) unit_keys 0 = Ok an
     \<and> attest unit_crypto (dlog_secp unit_crypto) unit_keys 0 0 = Ok at
     \<and> bucket_adaptor_point unit_crypto (dlog_secp unit_crypto) an (ok_pubkey unit_keys) 1 0 = Ok T
     \<and> verify_presig unit_crypto (dlog_secp unit_crypto) a (ok_pubkey unit_keys) (fill 0) T = Ok True
     \<and> decrypt (dlog_secp unit_crypto) a (enc 2) = Ok g
     \<and> bip340_verify (dlog_secp unit_crypto) g (fill 0) (ok_pubkey unit_keys)"
proof -
  let ?S = "dlog_secp unit_crypto"
  note laws = dlog_secp_laws [of unit_crypto]
  obtain an at where an: "announce unit_crypto ?S unit_keys 0 = Ok an"
    and at: "attest unit_crypto ?S unit_keys 0 0 = Ok at" "bucket_secret ?S at 1 0 = Ok (enc 2)"
    using unit_oracle(2,3) by blast
  note T = bucket_opens(3) [OF laws unit_oracle(1) an at]
  define a where "a = \<lparr>ad_combined_rx = pk_xonly ?S (point ?S 3), ad_r_point = point ?S 1, ad_s_a = enc 2,
    ad_nonce_counter = 0\<rparr>"
  have even: "even_of ?S 1 = 1" "\<not> pk_odd ?S (point ?S 3)"
    using small_even [of 1] half_bounds
    by (simp_all add: dlog_odd dlog_point_law zrep_numeral order_n_def half_n_def)
  have v: "verify_presig unit_crypto ?S a (ok_pubkey unit_keys) (fill 0) (pk_of ?S (enc 2)) = Ok True"
    unfolding pk_of_enc verify_presig_True [OF laws zn_small(1)]
    using even zn_small x_even_even_of [OF laws one_neq_zero]
    by (intro exI [of _ 1]) (simp add: a_def unit_chal unit_keys_def pk_of_enc)
  have "(\<Sum>i<k. val (sig_s (at_signatures at ! i))) \<noteq> 0" if "0 < k" "k \<le> unat (1 :: u8)" for k
  proof -
    have "k = 1" using that by simp
    obtain z where "z \<noteq> 0" "sig_s (at_signatures at ! 0) = enc z"
      using sk_okE [OF laws attested_scalars [OF laws at(1), of 0]] by auto
    then show ?thesis by (simp add: \<open>k = 1\<close>)
  qed
  moreover have "(1 :: u8) \<le> 1" "(1 :: u8) \<le> 20" by simp_all
  ultimately have settles: "\<exists>t T. bucket_secret ?S at 1 (bucket_of 0 1) = Ok t
      \<and> (\<forall>b. b \<noteq> bucket_of 0 1 \<longrightarrow> bucket_secret ?S at 1 b = Err InvalidTweak)
      \<and> bucket_adaptor_point unit_crypto ?S an (ok_pubkey unit_keys) 1 (bucket_of 0 1) = Ok T \<and> secret_matches_point ?S t T
      \<and> (\<forall>a px msg. verify_presig unit_crypto ?S a px msg T = Ok True \<longrightarrow>
        (if val (ad_s_a a) + val t = 0 then decrypt ?S a t = Err InvalidTweak
         else \<exists>g. decrypt ?S a t = Ok g \<and> bip340_verify ?S g msg px \<and> recover_t ?S a g = Ok t))"
    by (intro contract_settles [OF laws unit_oracle(1) an at(1)])
  have b: "bucket_of 0 1 = 0" by (simp add: bucket_of_def Let_def)
  obtain t T' where t: "bucket_secret ?S at 1 0 = Ok t"
    and T': "bucket_adaptor_point unit_crypto ?S an (ok_pubkey unit_keys) 1 0 = Ok T'"
    and opens: "\<And>a px msg. verify_presig unit_crypto ?S a px msg T' = Ok True \<Longrightarrow>
        (if val (ad_s_a a) + val t = 0 then decrypt ?S a t = Err InvalidTweak
         else \<exists>g. decrypt ?S a t = Ok g \<and> bip340_verify ?S g msg px \<and> recover_t ?S a g = Ok t)"
    using settles unfolding b by blast
  have tT: "t = enc 2" "T' = pk_of ?S (enc 2)" using t T' at(2) T by simp_all
  have "val (ad_s_a a) + val (enc 2) \<noteq> 0"
    by (simp add: a_def zn_eq_iff zrep_numeral order_n_def)
  then obtain g where "decrypt ?S a (enc 2) = Ok g" "bip340_verify ?S g (fill 0) (ok_pubkey unit_keys)"
    using opens [of a "ok_pubkey unit_keys" "fill 0", unfolded tT, OF v] by auto
  with an at(1) T v show ?thesis by blast
qed

end
