(* ===== verification/Frost.thy ===== *)
theory Frost
  imports Event
begin

text \<open>
  Threshold attestation (\<^verbatim>\<open>satusd-oracle/src/frost.rs\<close>): the distributed key generation with its
  proofs of knowledge and verifiable shares, the nonce commitments with their binding factors, the
  signature shares, their aggregation into the announcement and attestation of a single oracle, and
  the cohort that runs all of it in one process.
\<close>

section \<open>Errors and messages\<close>

datatype FrostError =
  BadShare | BadPok | QuorumTooSmall | BadQuorum | BadParams | MissingMessage | CryptoError

definition crypto_err :: "(SecpError, 'a) res \<Rightarrow> (FrostError, 'a) res" where
  "crypto_err r = map_err (\<lambda>_. CryptoError) r"

record Round1Package =
  r1_index :: u16
  r1_commitment :: "b33 list"
  r1_pok :: b64

record Round2Share =
  r2_from :: u16
  r2_to :: u16
  r2_share :: b32

record KeyShare =
  ks_index :: u16
  ks_n :: u16
  ks_t :: u16
  ks_x :: b32
  ks_group_pubkey :: b32
  ks_pk_odd :: bool

record Dealer =
  dl_index :: u16
  dl_seed :: b32
  dl_poly :: "b32 list"
  dl_commitment :: "b33 list"
  dl_pok :: b64

record NonceCommitment =
  nc_index :: u16
  nc_digits :: "(b33 \<times> b33) list"

record SigShare =
  ss_index :: u16
  ss_digits :: "b32 list"

record Signer =
  sg_key :: KeyShare
  sg_nonce_seed :: b32

record Cohort =
  co_n :: u16
  co_t :: u16
  co_group_pubkey :: b32
  co_signers :: "Signer list"

section \<open>Scalars and points\<close>

definition scalar :: "secp \<Rightarrow> b32 \<Rightarrow> ('e, b32) res" where
  "scalar S bytes = (if sk_ok S bytes then Ok bytes else Panic)"

definition index_scalar :: "secp \<Rightarrow> u16 \<Rightarrow> ('e, b32) res" where
  "index_scalar S j = scalar S (barr_of (replicate 30 0 @ to_be j))"

definition poly_eval :: "secp \<Rightarrow> b32 list \<Rightarrow> b32 \<Rightarrow> (SecpError, b32) res" where
  "poly_eval S coeffs x =
     rbind (unwrap (get_at coeffs (length coeffs - 1))) (\<lambda>acc.
     rfold (\<lambda>c acc. rbind (sk_mul_tweak S acc x) (\<lambda>p. sk_add_tweak S p c)) (drop 1 (rev coeffs)) acc)"

definition eval_step :: "secp \<Rightarrow> b32 \<Rightarrow> b33 \<Rightarrow> b33 option \<times> b32 option \<Rightarrow> (SecpError, b33 option \<times> b32 option) res" where
  "eval_step S x ck s =
     (case s of (acc, xpow) \<Rightarrow>
         rbind (case xpow of None \<Rightarrow> Ok ck | Some p \<Rightarrow> pk_mul_tweak S ck p) (\<lambda>term.
         rbind (add_point S term acc) (\<lambda>acc.
         rbind (case xpow of None \<Rightarrow> Ok x | Some p \<Rightarrow> sk_mul_tweak S p x) (\<lambda>p.
         Ok (acc, Some p)))))"

definition eval_commitment :: "secp \<Rightarrow> b33 list \<Rightarrow> b32 \<Rightarrow> (SecpError, b33) res" where
  "eval_commitment S commitment x =
     rbind (rfold (eval_step S x) commitment (None, None)) (\<lambda>(acc, _). ok_or acc InvalidPublicKeySum)"

definition mul_secret :: "secp \<Rightarrow> b32 \<Rightarrow> b32 option \<Rightarrow> (SecpError, b32 option) res" where
  "mul_secret S s acc =
     (case acc of None \<Rightarrow> Ok (Some s) | Some a \<Rightarrow> rbind (sk_mul_tweak S a s) (\<lambda>s. Ok (Some s)))"

definition lagrange_step :: "secp \<Rightarrow> u16 \<Rightarrow> b32 \<Rightarrow> u16 \<Rightarrow> b32 option \<times> b32 option
    \<Rightarrow> (FrostError, b32 option \<times> b32 option) res" where
  "lagrange_step S j xj m s =
     (if m = j then Ok s
      else rbind (index_scalar S m) (\<lambda>xm.
        rbind (crypto_err (mul_secret S xm (fst s))) (\<lambda>num.
        rbind (crypto_err (sub_mod_n S xm xj)) (\<lambda>diff.
        rbind (crypto_err (mul_secret S diff (snd s))) (\<lambda>den.
        Ok (num, den))))))"

definition lagrange_at_zero :: "secp \<Rightarrow> u16 \<Rightarrow> u16 list \<Rightarrow> (FrostError, b32) res" where
  "lagrange_at_zero S j quorum =
     rbind (index_scalar S j) (\<lambda>xj.
     rbind (rfold (lagrange_step S j xj) quorum (None, None)) (\<lambda>(num, den).
     rbind (ok_or num QuorumTooSmall) (\<lambda>num.
     rbind (ok_or den QuorumTooSmall) (\<lambda>den.
     rbind (crypto_err (invert_mod_n S den)) (\<lambda>inverse.
     crypto_err (sk_mul_tweak S num inverse))))))"

definition nonce_pair :: "crypto \<Rightarrow> secp \<Rightarrow> b32 \<Rightarrow> bytes \<Rightarrow> u16 \<Rightarrow> ('e, b32 \<times> b32) res" where
  "nonce_pair C S seed ev_id digit =
     (let b = bs seed @ ev_id @ to_be digit in
      rbind (scalar S (rail_tagged_hash C ''SatUSD/frost/hiding-nonce/v1'' b)) (\<lambda>d.
      rbind (scalar S (rail_tagged_hash C ''SatUSD/frost/binding-nonce/v1'' b)) (\<lambda>e.
      Ok (d, e))))"

definition binding_factor :: "crypto \<Rightarrow> secp \<Rightarrow> u16 \<Rightarrow> bytes \<Rightarrow> ('e, b32) res" where
  "binding_factor C S j b_encoded =
     scalar S (rail_tagged_hash C ''SatUSD/frost/binding-factor/v1'' (to_be j @ b_encoded))"

definition encode_commitment_set :: "bytes \<Rightarrow> u16 \<Rightarrow> u16 list \<Rightarrow> (b33 \<times> b33) list \<Rightarrow> bytes" where
  "encode_commitment_set ev_id digit quorum des =
     ev_id @ to_be digit @ concat (map (\<lambda>(j, (d, e)). to_be j @ bs d @ bs e) (zip quorum des))"

definition session_step :: "crypto \<Rightarrow> secp \<Rightarrow> bytes \<Rightarrow> u16 \<times> b33 \<times> b33 \<Rightarrow> b33 option \<times> b32 list
    \<Rightarrow> (SecpError, b33 option \<times> b32 list) res" where
  "session_step C S b p s =
     (case p of (j, d_pt, e_pt) \<Rightarrow>
        rbind (binding_factor C S j b) (\<lambda>rho.
        rbind (pk_mul_tweak S e_pt rho) (\<lambda>bound.
        rbind (pk_combine S d_pt bound) (\<lambda>term.
        rbind (add_point S term (fst s)) (\<lambda>r.
        Ok (r, snd s @ [rho]))))))"

definition nonce_session :: "crypto \<Rightarrow> secp \<Rightarrow> bytes \<Rightarrow> u16 \<Rightarrow> u16 list \<Rightarrow> (b33 \<times> b33) list
    \<Rightarrow> (SecpError, b33 \<times> b32 list) res" where
  "nonce_session C S ev_id digit quorum des =
     (let b = encode_commitment_set ev_id digit quorum des in
      rbind (rfold (session_step C S b) (zip quorum des) (None, [])) (\<lambda>(r, rhos).
      rbind (ok_or r InvalidPublicKeySum) (\<lambda>r. Ok (r, rhos))))"

definition check_quorum :: "u16 list \<Rightarrow> u16 \<Rightarrow> u16 \<Rightarrow> (FrostError, unit) res" where
  "check_quorum quorum n t =
     (if length quorum < unat t then Err QuorumTooSmall
      else rfold (\<lambda>(i, j) _. if j = 0 \<or> j > n \<or> j \<in> set (take i quorum) then Err BadQuorum else Ok ())
        (enumerate 0 quorum) ())"

section \<open>Key generation\<close>

definition pok_message :: "crypto \<Rightarrow> u16 \<Rightarrow> b33 \<Rightarrow> b32" where
  "pok_message C index c0 = rail_tagged_hash C ''SatUSD/frost/dkg-pok/v1'' (to_be index @ bs c0)"

definition dealer_new :: "crypto \<Rightarrow> secp \<Rightarrow> u16 \<Rightarrow> u16 \<Rightarrow> u16 \<Rightarrow> b32 \<Rightarrow> (FrostError, Dealer) res" where
  "dealer_new C S index n t local_seed =
     (if t = 0 \<or> n = 0 \<or> t > n \<or> index = 0 \<or> index > n then Err BadParams
      else let seed = rail_tagged_hash C ''SatUSD/frost/participant-seed/v1'' (bs local_seed @ to_be index) in
        rbind (rmap (\<lambda>k. scalar S (rail_tagged_hash C ''SatUSD/frost/dkg-coeff/v1'' (bs seed @ to_be (word_of_nat k :: u16))))
          [0 ..< unat t]) (\<lambda>poly.
        let commitment = map (pk_of S) poly in
        rbind (unwrap (get_at poly 0)) (\<lambda>a0.
        rbind (unwrap (get_at commitment 0)) (\<lambda>c0.
        rbind (crypto_err (sign_with_nonce C S a0
            (rail_tagged_hash C ''SatUSD/frost/dkg-pok-nonce/v1'' (bs seed)) (pok_message C index c0))) (\<lambda>pok.
        Ok \<lparr>dl_index = index, dl_seed = seed, dl_poly = poly, dl_commitment = commitment, dl_pok = pok\<rparr>)))))"

definition round1 :: "Dealer \<Rightarrow> Round1Package" where
  "round1 self = \<lparr>r1_index = dl_index self, r1_commitment = dl_commitment self, r1_pok = dl_pok self\<rparr>"

definition round2_share :: "secp \<Rightarrow> Dealer \<Rightarrow> u16 \<Rightarrow> (FrostError, Round2Share) res" where
  "round2_share S self to =
     rbind (index_scalar S to) (\<lambda>x.
     rbind (crypto_err (poly_eval S (dl_poly self) x)) (\<lambda>share.
     Ok \<lparr>r2_from = dl_index self, r2_to = to, r2_share = share\<rparr>))"

definition verify_round1 :: "crypto \<Rightarrow> secp \<Rightarrow> Round1Package \<Rightarrow> bool" where
  "verify_round1 C S pkg =
     (case r1_commitment pkg of
        [] \<Rightarrow> False
      | c0 # _ \<Rightarrow> pk_ok S c0 \<and> bip340_verify S (r1_pok pkg) (pok_message C (r1_index pkg) c0) (pk_xonly S c0))"

definition verify_round2_share :: "secp \<Rightarrow> Round2Share \<Rightarrow> b33 list \<Rightarrow> ('e, bool) res" where
  "verify_round2_share S share dealer_commitment =
     (if \<not> sk_ok S (r2_share share) then Ok False
      else if \<not> list_all (pk_ok S) dealer_commitment then Ok False
      else rbind (index_scalar S (r2_to share)) (\<lambda>x.
        case eval_commitment S dealer_commitment x of
          Ok expected \<Rightarrow> Ok (pk_of S (r2_share share) = expected)
        | Err _ \<Rightarrow> Ok False
        | Panic \<Rightarrow> Panic))"

definition finalize_step :: "crypto \<Rightarrow> secp \<Rightarrow> u16 \<Rightarrow> Round1Package list \<Rightarrow> Round2Share list \<Rightarrow> u16
    \<Rightarrow> b32 option \<times> b33 option \<Rightarrow> (FrostError, b32 option \<times> b33 option) res" where
  "finalize_step C S index packages shares_to_me dealer_idx s =
     rbind (ok_or (find (\<lambda>p. r1_index p = dealer_idx) packages) MissingMessage) (\<lambda>pkg.
     if \<not> verify_round1 C S pkg then Err BadPok
     else
       rbind (ok_or (find (\<lambda>s. r2_from s = dealer_idx \<and> r2_to s = index) shares_to_me) MissingMessage) (\<lambda>share.
       rbind (verify_round2_share S share (r1_commitment pkg)) (\<lambda>fits.
       if \<not> fits then Err BadShare
       else
         rbind (map_err (\<lambda>_. BadShare) (secret_key S (r2_share share))) (\<lambda>sk.
         rbind (crypto_err (add_secret S sk (fst s))) (\<lambda>x.
         rbind (unwrap (get_at (r1_commitment pkg) 0)) (\<lambda>c0.
         rbind (map_err (\<lambda>_. BadShare) (public_key S c0)) (\<lambda>c0.
         rbind (crypto_err (add_point S c0 (snd s))) (\<lambda>pk.
         Ok (x, pk)))))))))"

definition finalize_key :: "crypto \<Rightarrow> secp \<Rightarrow> u16 \<Rightarrow> u16 \<Rightarrow> u16 \<Rightarrow> Round1Package list \<Rightarrow> Round2Share list
    \<Rightarrow> (FrostError, KeyShare) res" where
  "finalize_key C S index n t packages shares_to_me =
     (if length packages \<noteq> unat n then Err MissingMessage
      else
        rbind (rfold (finalize_step C S index packages shares_to_me) (map word_of_nat [1 ..< unat n + 1]) (None, None)) (\<lambda>(x, pk).
        rbind (ok_or pk BadParams) (\<lambda>pk.
        rbind (ok_or x BadParams) (\<lambda>x.
        Ok \<lparr>ks_index = index, ks_n = n, ks_t = t, ks_x = x, ks_group_pubkey = pk_xonly S pk,
            ks_pk_odd = pk_odd S pk\<rparr>))))"

section \<open>Signing\<close>

definition nonce_commitment :: "crypto \<Rightarrow> secp \<Rightarrow> Signer \<Rightarrow> u64 \<Rightarrow> ('e, NonceCommitment) res" where
  "nonce_commitment C S self unix_ts =
     (let ev_id = event_id unix_ts in
      rbind (rmap (\<lambda>i. rbind (nonce_pair C S (sg_nonce_seed self) ev_id (word_of_nat i)) (\<lambda>(d, e).
          Ok (pk_of S d, pk_of S e))) [0 ..< unat NB_DIGITS]) (\<lambda>ds.
      Ok \<lparr>nc_index = ks_index (sg_key self), nc_digits = ds\<rparr>))"

definition quorum_commitments :: "secp \<Rightarrow> u16 list \<Rightarrow> NonceCommitment list \<Rightarrow> u16
    \<Rightarrow> (FrostError, (b33 \<times> b33) list) res" where
  "quorum_commitments S quorum commitments digit =
     rmap (\<lambda>j.
       rbind (ok_or (find (\<lambda>c. nc_index c = j) commitments) MissingMessage) (\<lambda>c.
       rbind (ok_or (get_at (nc_digits c) (unat digit)) MissingMessage) (\<lambda>(d, e).
       rbind (crypto_err (public_key S d)) (\<lambda>d.
       rbind (crypto_err (public_key S e)) (\<lambda>e.
       Ok (d, e)))))) quorum"

definition sign_digit :: "crypto \<Rightarrow> secp \<Rightarrow> Signer \<Rightarrow> bytes \<Rightarrow> b32 \<Rightarrow> nat \<Rightarrow> b32 \<Rightarrow> b32 \<Rightarrow> u16 list
    \<Rightarrow> NonceCommitment list \<Rightarrow> u16 \<Rightarrow> u8 \<Rightarrow> (FrostError, b32) res" where
  "sign_digit C S self ev_id px pos lambda x quorum commitments digit d =
     rbind (quorum_commitments S quorum commitments digit) (\<lambda>des.
     rbind (crypto_err (nonce_session C S ev_id digit quorum des)) (\<lambda>(r, rhos).
     let rx = pk_xonly S r; r_odd = pk_odd S r in
     rbind (challenge C S rx px (attestation_msg C d)) (\<lambda>e.
     rbind (nonce_pair C S (sg_nonce_seed self) ev_id digit) (\<lambda>(dn, en).
     rbind (unwrap (get_at rhos pos)) (\<lambda>rho.
     rbind (crypto_err (sk_mul_tweak S en rho)) (\<lambda>bound.
     rbind (crypto_err (sk_add_tweak S dn bound)) (\<lambda>eff.
     let eff = (if r_odd then sk_neg S eff else eff) in
     rbind (crypto_err (sk_mul_tweak S lambda x)) (\<lambda>part.
     rbind (crypto_err (sk_mul_tweak S part e)) (\<lambda>key_part.
     let key_part = (if ks_pk_odd (sg_key self) then sk_neg S key_part else key_part) in
     crypto_err (sk_add_tweak S eff key_part))))))))))"

definition sig_share :: "crypto \<Rightarrow> secp \<Rightarrow> Signer \<Rightarrow> u64 \<Rightarrow> u32 \<Rightarrow> u16 list \<Rightarrow> NonceCommitment list
    \<Rightarrow> (FrostError, SigShare) res" where
  "sig_share C S self unix_ts price_usd quorum commitments =
     (let key = sg_key self in
      rbind (check_quorum quorum (ks_n key) (ks_t key)) (\<lambda>_.
      let ev_id = event_id unix_ts in
      rbind (crypto_err (xonly_key S (ks_group_pubkey key))) (\<lambda>px.
      rbind (ok_or (position (ks_index key) quorum) BadQuorum) (\<lambda>pos.
      rbind (lagrange_at_zero S (ks_index key) quorum) (\<lambda>lambda.
      rbind (map_err (\<lambda>_. BadParams) (secret_key S (ks_x key))) (\<lambda>x.
      rbind (rmap (\<lambda>(i, d). sign_digit C S self ev_id px pos lambda x quorum commitments (word_of_nat i) d)
        (enumerate 0 (digits price_usd))) (\<lambda>shares.
      Ok \<lparr>ss_index = ks_index key, ss_digits = shares\<rparr>)))))))"

definition aggregate_announcement :: "crypto \<Rightarrow> secp \<Rightarrow> b32 \<Rightarrow> u64 \<Rightarrow> u16 list \<Rightarrow> NonceCommitment list
    \<Rightarrow> (FrostError, Announcement) res" where
  "aggregate_announcement C S group_pubkey unix_ts quorum commitments =
     (let ev_id = event_id unix_ts in
      rbind (rmap (\<lambda>i.
          rbind (quorum_commitments S quorum commitments (word_of_nat i)) (\<lambda>des.
          rbind (crypto_err (nonce_session C S ev_id (word_of_nat i) quorum des)) (\<lambda>(r, _).
          Ok (pk_xonly S r)))) [0 ..< unat NB_DIGITS]) (\<lambda>points.
      let descriptor = digit_descriptor BASE False (ascii ''USD/BTC'') 0 NB_DIGITS;
          event = oracle_event points (ucast unix_ts) descriptor ev_id in
      Ok \<lparr>an_event_id = ev_id, an_nonce_points = points, an_tlv_bytes = event\<rparr>))"

definition add_share :: "secp \<Rightarrow> SigShare list \<Rightarrow> nat \<Rightarrow> u16 \<Rightarrow> b32 option \<Rightarrow> (FrostError, b32 option) res" where
  "add_share S shares i j s =
     rbind (ok_or (find (\<lambda>s. ss_index s = j) shares) MissingMessage) (\<lambda>share.
     rbind (ok_or (get_at (ss_digits share) i) MissingMessage) (\<lambda>z.
     rbind (map_err (\<lambda>_. BadShare) (secret_key S z)) (\<lambda>zk.
     crypto_err (add_secret S zk s))))"

definition aggregate_digit :: "crypto \<Rightarrow> secp \<Rightarrow> bytes \<Rightarrow> u16 list \<Rightarrow> NonceCommitment list \<Rightarrow> SigShare list
    \<Rightarrow> nat \<Rightarrow> (FrostError, b64) res" where
  "aggregate_digit C S ev_id quorum commitments shares i =
     rbind (quorum_commitments S quorum commitments (word_of_nat i)) (\<lambda>des.
     rbind (crypto_err (nonce_session C S ev_id (word_of_nat i) quorum des)) (\<lambda>(r, _).
     rbind (rfold (add_share S shares i) quorum None) (\<lambda>s.
     rbind (ok_or s QuorumTooSmall) (\<lambda>s.
     Ok (sig_of (pk_xonly S r) s)))))"

definition aggregate_attestation :: "crypto \<Rightarrow> secp \<Rightarrow> b32 \<Rightarrow> u64 \<Rightarrow> u32 \<Rightarrow> u16 list \<Rightarrow> NonceCommitment list
    \<Rightarrow> SigShare list \<Rightarrow> (FrostError, Attestation) res" where
  "aggregate_attestation C S group_pubkey unix_ts price_usd quorum commitments shares =
     (let ev_id = event_id unix_ts; ds = digits price_usd in
      rbind (rmap (aggregate_digit C S ev_id quorum commitments shares) [0 ..< length ds]) (\<lambda>sigs.
      rbind (oracle_attestation ev_id group_pubkey sigs (map outcome ds)) (\<lambda>tlv_bytes.
      Ok \<lparr>at_event_id = ev_id, at_price_usd = price_usd, at_signatures = sigs, at_tlv_bytes = tlv_bytes\<rparr>)))"

section \<open>The cohort\<close>

definition finalize_member :: "crypto \<Rightarrow> secp \<Rightarrow> u16 \<Rightarrow> u16 \<Rightarrow> Dealer list \<Rightarrow> Dealer \<Rightarrow> (FrostError, Signer) res" where
  "finalize_member C S n t dealers d =
     rbind (rmap (\<lambda>dealer. round2_share S dealer (dl_index d)) dealers) (\<lambda>shares_to_me.
     rbind (finalize_key C S (dl_index d) n t (map round1 dealers) shares_to_me) (\<lambda>key.
     Ok \<lparr>sg_key = key, sg_nonce_seed = dl_seed d\<rparr>))"

definition keygen :: "crypto \<Rightarrow> secp \<Rightarrow> u16 \<Rightarrow> u16 \<Rightarrow> b32 \<Rightarrow> (FrostError, Cohort) res" where
  "keygen C S n t master_seed =
     rbind (rmap (\<lambda>i. dealer_new C S (word_of_nat i) n t master_seed) [1 ..< unat n + 1]) (\<lambda>dealers.
     rbind (rmap (finalize_member C S n t dealers) dealers) (\<lambda>signers.
     rbind (unwrap (get_at signers 0)) (\<lambda>first.
     Ok \<lparr>co_n = n, co_t = t, co_group_pubkey = ks_group_pubkey (sg_key first), co_signers = signers\<rparr>)))"

definition quorum_signers :: "Cohort \<Rightarrow> u16 list \<Rightarrow> (FrostError, Signer list) res" where
  "quorum_signers self quorum =
     rbind (check_quorum quorum (co_n self) (co_t self)) (\<lambda>_.
     rmap (\<lambda>j. ok_or (get_at (co_signers self) (unat (j - 1))) BadQuorum) quorum)"

definition cohort_announce :: "crypto \<Rightarrow> secp \<Rightarrow> Cohort \<Rightarrow> u64 \<Rightarrow> u16 list \<Rightarrow> (FrostError, Announcement) res" where
  "cohort_announce C S self unix_ts quorum =
     rbind (quorum_signers self quorum) (\<lambda>signers.
     rbind (rmap (\<lambda>s. nonce_commitment C S s unix_ts) signers) (\<lambda>commits.
     aggregate_announcement C S (co_group_pubkey self) unix_ts quorum commits))"

definition cohort_attest :: "crypto \<Rightarrow> secp \<Rightarrow> Cohort \<Rightarrow> u64 \<Rightarrow> u32 \<Rightarrow> u16 list \<Rightarrow> (FrostError, Attestation) res" where
  "cohort_attest C S self unix_ts price_usd quorum =
     rbind (quorum_signers self quorum) (\<lambda>signers.
     rbind (rmap (\<lambda>s. nonce_commitment C S s unix_ts) signers) (\<lambda>commits.
     rbind (rmap (\<lambda>s. sig_share C S s unix_ts price_usd quorum commits) signers) (\<lambda>shares.
     aggregate_attestation C S (co_group_pubkey self) unix_ts price_usd quorum commits shares)))"

end
