(* ===== verification/Cohortd.thy ===== *)
theory Cohortd
  imports Frost Text
begin

text \<open>
  The directory of a cohort (\<^verbatim>\<open>satusd-oracle/src/cohortd.rs\<close>): the wire form of each message of the
  threshold protocol, and the steps that exchange them as hex files.
\<close>

section \<open>Wire codecs\<close>

text \<open>The cursor of a decoder is what is left of its input.\<close>

definition cursor :: "nat \<Rightarrow> bytes \<Rightarrow> (bytes \<times> bytes) option" where
  "cursor n b = (if n > length b then None else Some (take n b, drop n b))"

definition read_u16 :: "bytes \<Rightarrow> (u16 \<times> bytes) option" where
  "read_u16 b = map_option (\<lambda>(v, b). (from_be v, b)) (cursor 2 b)"

definition read_arr :: "bytes \<Rightarrow> ('n::len barr \<times> bytes) option" where
  "read_arr b = Option.bind (cursor LENGTH('n) b) (\<lambda>(v, b). map_option (\<lambda>a. (a, b)) (arr_try v))"

fun read_times :: "(bytes \<Rightarrow> ('a \<times> bytes) option) \<Rightarrow> nat \<Rightarrow> bytes \<Rightarrow> ('a list \<times> bytes) option" where
  "read_times rd 0 b = Some ([], b)"
| "read_times rd (Suc k) b =
     Option.bind (rd b) (\<lambda>(x, b). Option.bind (read_times rd k b) (\<lambda>(xs, b). Some (x # xs, b)))"

definition read_pair :: "bytes \<Rightarrow> ((b33 \<times> b33) \<times> bytes) option" where
  "read_pair b = Option.bind (read_arr b) (\<lambda>(d, b). Option.bind (read_arr b) (\<lambda>(e, b). Some ((d, e), b)))"

definition encode_round1 :: "Round1Package \<Rightarrow> bytes" where
  "encode_round1 p = to_be (r1_index p) @ to_be (word_of_nat (length (r1_commitment p)) :: u16)
     @ concat (map bs (r1_commitment p)) @ bs (r1_pok p)"

definition decode_round1 :: "bytes \<Rightarrow> Round1Package option" where
  "decode_round1 b =
     Option.bind (read_u16 b) (\<lambda>(index, b).
     Option.bind (read_u16 b) (\<lambda>(count, b).
     Option.bind (read_times read_arr (unat count) b) (\<lambda>(commitment, b).
     Option.bind (read_arr b) (\<lambda>(pok, b).
     Some \<lparr>r1_index = index, r1_commitment = commitment, r1_pok = pok\<rparr>))))"

definition encode_round2 :: "Round2Share \<Rightarrow> bytes" where
  "encode_round2 s = to_be (r2_from s) @ to_be (r2_to s) @ bs (r2_share s)"

definition decode_round2 :: "bytes \<Rightarrow> Round2Share option" where
  "decode_round2 b =
     Option.bind (read_u16 b) (\<lambda>(from', b).
     Option.bind (read_u16 b) (\<lambda>(to, b).
     Option.bind (read_arr b) (\<lambda>(share, b).
     Some \<lparr>r2_from = from', r2_to = to, r2_share = share\<rparr>)))"

definition encode_keyshare :: "KeyShare \<Rightarrow> bytes" where
  "encode_keyshare k = to_be (ks_index k) @ to_be (ks_n k) @ to_be (ks_t k) @ bs (ks_x k) @ bs (ks_group_pubkey k)
     @ [if ks_pk_odd k then 1 else 0]"

definition decode_keyshare :: "bytes \<Rightarrow> KeyShare option" where
  "decode_keyshare b =
     Option.bind (read_u16 b) (\<lambda>(index, b).
     Option.bind (read_u16 b) (\<lambda>(n, b).
     Option.bind (read_u16 b) (\<lambda>(t, b).
     Option.bind (read_arr b) (\<lambda>(x, b).
     Option.bind (read_arr b) (\<lambda>(group_pubkey, b).
     Option.bind (cursor 1 b) (\<lambda>(v, b).
     Some \<lparr>ks_index = index, ks_n = n, ks_t = t, ks_x = x, ks_group_pubkey = group_pubkey,
           ks_pk_odd = (hd v \<noteq> 0)\<rparr>))))))"

definition encode_commit :: "NonceCommitment \<Rightarrow> bytes" where
  "encode_commit c = to_be (nc_index c) @ to_be (word_of_nat (length (nc_digits c)) :: u16)
     @ concat (map (\<lambda>(d, e). bs d @ bs e) (nc_digits c))"

definition decode_commit :: "bytes \<Rightarrow> NonceCommitment option" where
  "decode_commit b =
     Option.bind (read_u16 b) (\<lambda>(index, b).
     Option.bind (read_u16 b) (\<lambda>(count, b).
     Option.bind (read_times read_pair (unat count) b) (\<lambda>(ds, b).
     Some \<lparr>nc_index = index, nc_digits = ds\<rparr>)))"

definition encode_share :: "SigShare \<Rightarrow> bytes" where
  "encode_share s = to_be (ss_index s) @ to_be (word_of_nat (length (ss_digits s)) :: u16)
     @ concat (map bs (ss_digits s))"

definition decode_share :: "bytes \<Rightarrow> SigShare option" where
  "decode_share b =
     Option.bind (read_u16 b) (\<lambda>(index, b).
     Option.bind (read_u16 b) (\<lambda>(count, b).
     Option.bind (read_times read_arr (unat count) b) (\<lambda>(ds, b).
     Some \<lparr>ss_index = index, ss_digits = ds\<rparr>)))"

section \<open>The directory\<close>

text \<open>
  The files by name, which writes the file system takes, and what one it does not take leaves: the file
  as it was, or the first bytes of the new content. \<open>fs_write\<close> is \<^verbatim>\<open>std::fs::write\<close>.
\<close>

record disk =
  dk_files :: "bytes \<rightharpoonup> bytes"
  dk_created :: bool
  dk_writable :: "bytes \<Rightarrow> bool"
  dk_cut :: "bytes \<Rightarrow> nat option"

definition fs_write :: "disk \<Rightarrow> bytes \<Rightarrow> bytes \<Rightarrow> bool \<times> disk" where
  "fs_write dir name content =
     (if dk_writable dir name then (True, dir\<lparr>dk_files := (dk_files dir)(name \<mapsto> content)\<rparr>)
      else (False, case dk_cut dir name of None \<Rightarrow> dir
              | Some k \<Rightarrow> dir\<lparr>dk_files := (dk_files dir)(name \<mapsto> take k content)\<rparr>))"

definition cohort_hex_encode :: "bytes \<Rightarrow> bytes" where
  "cohort_hex_encode b = concat (map hex_u8 b)"

definition cohort_hex_decode :: "bytes \<Rightarrow> ('e, bytes option) res" where
  "cohort_hex_decode s = (let s = trim s in if length s mod 2 \<noteq> 0 then Ok None else hex_pairs s)"

definition write_hex :: "disk \<Rightarrow> bytes \<Rightarrow> bytes \<Rightarrow> (FrostError, unit) res \<times> disk" where
  "write_hex dir name bytes =
     (case fs_write dir name (cohort_hex_encode bytes) of
        (ok, dir) \<Rightarrow> (if ok then Ok () else Err MissingMessage, dir))"

definition read_hex :: "disk \<Rightarrow> bytes \<Rightarrow> ('e, bytes option) res" where
  "read_hex dir name =
     (case dk_files dir name of
        None \<Rightarrow> Ok None
      | Some s \<Rightarrow> if utf8_ok s then cohort_hex_decode s else Ok None)"

text \<open>A message of the protocol from its file: \<^verbatim>\<open>read_hex(..).ok_or(..)?\<close> and its decoder.\<close>

definition read_message :: "disk \<Rightarrow> bytes \<Rightarrow> (bytes \<Rightarrow> 'a option) \<Rightarrow> (FrostError, 'a) res" where
  "read_message dir name dec =
     rbind (read_hex dir name) (\<lambda>b.
     rbind (ok_or b MissingMessage) (\<lambda>b. ok_or (dec b) MissingMessage))"

fun disk_then :: "('e, 'a) res \<times> disk \<Rightarrow> ('a \<Rightarrow> disk \<Rightarrow> ('e, 'b) res \<times> disk) \<Rightarrow> ('e, 'b) res \<times> disk" where
  "disk_then (Ok x, d) f = f x d"
| "disk_then (Err e, d) f = (Err e, d)"
| "disk_then (Panic, d) f = (Panic, d)"

fun disk_each :: "('x \<Rightarrow> disk \<Rightarrow> ('e, unit) res \<times> disk) \<Rightarrow> 'x list \<Rightarrow> disk \<Rightarrow> ('e, unit) res \<times> disk" where
  "disk_each f [] d = (Ok (), d)"
| "disk_each f (x # xs) d = disk_then (f x d) (\<lambda>_ d. disk_each f xs d)"

definition one_to :: "u16 \<Rightarrow> u16 list" where
  "one_to n = map word_of_nat [1 ..< unat n + 1]"

definition r1_file :: "u16 \<Rightarrow> bytes" where
  "r1_file i = ascii ''r1-'' @ decimal (unat i) @ ascii ''.hex''"

definition r2_file :: "u16 \<Rightarrow> u16 \<Rightarrow> bytes" where
  "r2_file i j = ascii ''r2-'' @ decimal (unat i) @ ascii ''-'' @ decimal (unat j) @ ascii ''.hex''"

definition keyshare_file :: "u16 \<Rightarrow> bytes" where
  "keyshare_file i = ascii ''keyshare-'' @ decimal (unat i) @ ascii ''.hex''"

definition commit_file :: "u64 \<Rightarrow> u16 \<Rightarrow> bytes" where
  "commit_file ts i = ascii ''commit-'' @ decimal (unat ts) @ ascii ''-'' @ decimal (unat i) @ ascii ''.hex''"

definition share_file :: "u64 \<Rightarrow> u16 \<Rightarrow> bytes" where
  "share_file ts i = ascii ''share-'' @ decimal (unat ts) @ ascii ''-'' @ decimal (unat i) @ ascii ''.hex''"

definition ann_file :: "u64 \<Rightarrow> bytes" where
  "ann_file ts = ascii ''ann-'' @ decimal (unat ts) @ ascii ''.hex''"

definition att_file :: "u64 \<Rightarrow> bytes" where
  "att_file ts = ascii ''att-'' @ decimal (unat ts) @ ascii ''.hex''"

section \<open>Orchestration\<close>

text \<open>\<^verbatim>\<open>str::split\<close> with a character.\<close>

fun split_on :: "byte \<Rightarrow> bytes \<Rightarrow> bytes \<Rightarrow> bytes list" where
  "split_on sep acc [] = [acc]"
| "split_on sep acc (c # s) = (if c = sep then acc # split_on sep [] s else split_on sep (acc @ [c]) s)"

definition parse_u16 :: "bytes \<Rightarrow> u16 option" where
  "parse_u16 s = map_option word_of_nat (from_str_radix dec_digit 10 (2 ^ 16) s)"

definition parse_quorum :: "bytes \<Rightarrow> (FrostError, u16 list) res" where
  "parse_quorum csv = rmap (\<lambda>s. ok_or (parse_u16 (trim s)) BadQuorum) (split_on 44 [] csv)"

definition dkg_round1 :: "crypto \<Rightarrow> secp \<Rightarrow> disk \<Rightarrow> u16 \<Rightarrow> u16 \<Rightarrow> u16 \<Rightarrow> b32 \<Rightarrow> (FrostError, unit) res \<times> disk" where
  "dkg_round1 C S dir index n t seed =
     (if \<not> dk_created dir then (Err MissingMessage, dir)
      else disk_then (dealer_new C S index n t seed, dir) (\<lambda>dealer dir.
        disk_then (write_hex dir (r1_file index) (encode_round1 (round1 dealer))) (\<lambda>_ dir.
        disk_each (\<lambda>to dir. disk_then (round2_share S dealer to, dir) (\<lambda>share dir.
          write_hex dir (r2_file index to) (encode_round2 share))) (one_to n) dir)))"

definition read_dealing :: "disk \<Rightarrow> u16 \<Rightarrow> u16 \<Rightarrow> (FrostError, Round1Package \<times> Round2Share) res" where
  "read_dealing dir index from' =
     rbind (read_message dir (r1_file from') decode_round1) (\<lambda>r1.
     rbind (read_message dir (r2_file from' index) decode_round2) (\<lambda>r2. Ok (r1, r2)))"

definition dkg_finalize :: "crypto \<Rightarrow> secp \<Rightarrow> disk \<Rightarrow> u16 \<Rightarrow> u16 \<Rightarrow> u16 \<Rightarrow> (FrostError, KeyShare) res \<times> disk" where
  "dkg_finalize C S dir index n t =
     disk_then (rmap (read_dealing dir index) (one_to n), dir) (\<lambda>dealings dir.
     disk_then (finalize_key C S index n t (map fst dealings) (map snd dealings), dir) (\<lambda>key dir.
     disk_then (write_hex dir (keyshare_file index) (encode_keyshare key)) (\<lambda>_ dir. (Ok key, dir))))"

definition load_keyshare :: "disk \<Rightarrow> u16 \<Rightarrow> (FrostError, KeyShare) res" where
  "load_keyshare dir index = read_message dir (keyshare_file index) decode_keyshare"

definition announce_commit :: "crypto \<Rightarrow> secp \<Rightarrow> disk \<Rightarrow> u16 \<Rightarrow> b32 \<Rightarrow> u64 \<Rightarrow> (FrostError, unit) res \<times> disk" where
  "announce_commit C S dir index seed unix_ts =
     disk_then (load_keyshare dir index, dir) (\<lambda>key dir.
     disk_then (nonce_commitment C S \<lparr>sg_key = key, sg_nonce_seed = seed\<rparr> unix_ts, dir) (\<lambda>commitment dir.
     write_hex dir (commit_file unix_ts index) (encode_commit commitment)))"

definition read_commits :: "disk \<Rightarrow> u64 \<Rightarrow> u16 list \<Rightarrow> (FrostError, NonceCommitment list) res" where
  "read_commits dir unix_ts quorum = rmap (\<lambda>j. read_message dir (commit_file unix_ts j) decode_commit) quorum"

definition attest_share ::
  "crypto \<Rightarrow> secp \<Rightarrow> disk \<Rightarrow> u16 \<Rightarrow> b32 \<Rightarrow> u64 \<Rightarrow> u32 \<Rightarrow> u16 list \<Rightarrow> (FrostError, unit) res \<times> disk" where
  "attest_share C S dir index seed unix_ts price_usd quorum =
     disk_then (load_keyshare dir index, dir) (\<lambda>key dir.
     disk_then (read_commits dir unix_ts quorum, dir) (\<lambda>commits dir.
     disk_then (sig_share C S \<lparr>sg_key = key, sg_nonce_seed = seed\<rparr> unix_ts price_usd quorum commits, dir) (\<lambda>share dir.
     write_hex dir (share_file unix_ts index) (encode_share share))))"

definition cohort_aggregate ::
  "crypto \<Rightarrow> secp \<Rightarrow> disk \<Rightarrow> u64 \<Rightarrow> u32 \<Rightarrow> u16 list \<Rightarrow> b32 \<Rightarrow> (FrostError, unit) res \<times> disk" where
  "cohort_aggregate C S dir unix_ts price_usd quorum group_pubkey =
     disk_then (read_commits dir unix_ts quorum, dir) (\<lambda>commits dir.
     disk_then (aggregate_announcement C S group_pubkey unix_ts quorum commits, dir) (\<lambda>ann dir.
     disk_then (write_hex dir (ann_file unix_ts) (an_tlv_bytes ann)) (\<lambda>_ dir.
     disk_then (rmap (\<lambda>j. read_message dir (share_file unix_ts j) decode_share) quorum, dir) (\<lambda>shares dir.
     disk_then (aggregate_attestation C S group_pubkey unix_ts price_usd quorum commits shares, dir) (\<lambda>att dir.
     write_hex dir (att_file unix_ts) (at_tlv_bytes att))))))"

definition parse_hex32 :: "bytes \<Rightarrow> (FrostError, b32) res" where
  "parse_hex32 s = rbind (cohort_hex_decode s) (\<lambda>v. ok_or (Option.bind v arr_try) BadParams)"

definition quorum_csv :: "bytes \<Rightarrow> (FrostError, u16 list) res" where
  "quorum_csv csv = parse_quorum csv"

section \<open>What is encoded decodes\<close>

text \<open>Each decoder reads back what its encoder writes and ignores what follows.\<close>

lemma cursor_append [simp]: "length a = k \<Longrightarrow> cursor k (a @ b) = Some (a, b)"
  by (simp add: cursor_def)

lemma read_u16_append [simp]: "read_u16 (to_be (v :: u16) @ b) = Some (v, b)"
  by (simp add: read_u16_def)

lemma read_arr_append [simp]: "read_arr (bs (a :: 'n::len barr) @ b) = Some (a, b)"
  by (simp add: read_arr_def)

lemma read_pair_append [simp]: "read_pair (bs x @ bs y @ b) = Some ((x, y), b)"
  by (simp add: read_pair_def)

lemma read_times_append:
  assumes "\<And>x b. rd (w x @ b) = Some (x, b)"
  shows "read_times rd (length xs) (concat (map w xs) @ b) = Some (xs, b)"
  by (induction xs) (simp_all add: assms)

lemmas read_arrs = read_times_append [where rd = read_arr and w = bs, OF read_arr_append]

lemma read_pairs:
  "read_times read_pair (length ds) (concat (map (\<lambda>(x, y). bs x @ bs y) ds) @ b) = Some (ds, b)"
  by (rule read_times_append) (simp add: case_prod_unfold)

lemma unat_count: "n < 2 ^ 16 \<Longrightarrow> unat (word_of_nat n :: u16) = n"
  by (rule unat_word_of_nat) simp

lemma decode_encode_round1: "length (r1_commitment p) < 2 ^ 16 \<Longrightarrow> decode_round1 (encode_round1 p @ rest) = Some p"
  by (simp add: decode_round1_def encode_round1_def unat_count read_arrs)

lemma decode_encode_round2: "decode_round2 (encode_round2 s @ rest) = Some s"
  by (simp add: decode_round2_def encode_round2_def)

lemma decode_encode_keyshare: "decode_keyshare (encode_keyshare k @ rest) = Some k"
  by (simp add: decode_keyshare_def encode_keyshare_def cursor_def)

lemma decode_encode_commit: "length (nc_digits c) < 2 ^ 16 \<Longrightarrow> decode_commit (encode_commit c @ rest) = Some c"
  by (simp add: decode_commit_def encode_commit_def unat_count read_pairs)

lemma decode_encode_share: "length (ss_digits s) < 2 ^ 16 \<Longrightarrow> decode_share (encode_share s @ rest) = Some s"
  by (simp add: decode_share_def encode_share_def unat_count read_arrs)

text \<open>Only the input up to where a decoder stops matters.\<close>

definition extends :: "(bytes \<Rightarrow> ('a \<times> bytes) option) \<Rightarrow> bool" where
  "extends rd \<longleftrightarrow> (\<forall>b x b' r. rd b = Some (x, b') \<longrightarrow> rd (b @ r) = Some (x, b' @ r))"

lemma extendsD: "extends rd \<Longrightarrow> rd b = Some (x, b') \<Longrightarrow> rd (b @ r) = Some (x, b' @ r)"
  by (simp add: extends_def)

lemma extends_readers: "extends (cursor n)" "extends read_u16" "extends (read_arr :: bytes \<Rightarrow> ('n::len barr \<times> bytes) option)"
proof -
  show c: "extends (cursor n)" for n by (auto simp: extends_def cursor_def split: if_splits)
  show "extends read_u16" unfolding extends_def read_u16_def by (auto dest: extendsD [OF c])
  show "extends (read_arr :: bytes \<Rightarrow> ('n barr \<times> bytes) option)"
    unfolding extends_def read_arr_def by (auto simp: bind_eq_Some_conv extendsD [OF c])
qed

lemma extends_pair: "extends read_pair"
  unfolding extends_def
proof (intro allI impI)
  fix b x b' r
  assume "read_pair b = Some (x, b')"
  then obtain d e c where x: "read_arr b = Some (d, c)" "read_arr c = Some (e, b')" "x = (d, e)"
    by (auto simp: read_pair_def bind_eq_Some_conv)
  from extendsD [OF extends_readers(3) x(1), of r] extendsD [OF extends_readers(3) x(2), of r]
  show "read_pair (b @ r) = Some (x, b' @ r)" by (simp add: read_pair_def x(3))
qed

lemma extends_times: "extends rd \<Longrightarrow> extends (read_times rd k)"
proof (induction k)
  case (Suc k)
  then show ?case unfolding extends_def by (auto simp: bind_eq_Some_conv)
qed (simp add: extends_def)

lemmas reads_on = extendsD [OF extends_readers(1)] extendsD [OF extends_readers(2)] extendsD [OF extends_readers(3)]
  extendsD [OF extends_times [OF extends_readers(3)]] extendsD [OF extends_times [OF extends_pair]]

lemma decode_round1_more: "decode_round1 b = Some p \<Longrightarrow> decode_round1 (b @ r) = Some p"
  by (auto simp: decode_round1_def bind_eq_Some_conv reads_on)

lemma decode_keyshare_more: "decode_keyshare b = Some p \<Longrightarrow> decode_keyshare (b @ r) = Some p"
  by (auto simp: decode_keyshare_def bind_eq_Some_conv reads_on)

lemma decode_commit_more: "decode_commit b = Some p \<Longrightarrow> decode_commit (b @ r) = Some p"
  by (auto simp: decode_commit_def bind_eq_Some_conv reads_on)

lemma decode_share_more: "decode_share b = Some p \<Longrightarrow> decode_share (b @ r) = Some p"
  by (auto simp: decode_share_def bind_eq_Some_conv reads_on)

section \<open>Files\<close>

lemma fs_write_simps:
  "dk_writable d name \<Longrightarrow> fs_write d name c = (True, d\<lparr>dk_files := (dk_files d)(name \<mapsto> c)\<rparr>)"
  "fst (fs_write d name c) = dk_writable d name"
  "dk_writable (snd (fs_write d name c)) = dk_writable d"
  "other \<noteq> name \<Longrightarrow> dk_files (snd (fs_write d name c)) other = dk_files d other"
  by (auto simp: fs_write_def split: option.splits)

lemma read_hex_encoded:
  "dk_files d name = Some (cohort_hex_encode b) \<Longrightarrow> read_hex d name = Ok (Some b)"
proof -
  assume f: "dk_files d name = Some (cohort_hex_encode b)"
  have "even (length (cohort_hex_encode b))"
    by (induction b) (simp_all add: cohort_hex_encode_def hex_u8_def)
  then show ?thesis
    using trim_hex [OF hex_text_digits, of b] hex_utf8 [OF hex_text_digits, of b] f
    by (simp add: read_hex_def cohort_hex_decode_def cohort_hex_encode_def hex_pairs_hex)
qed

text \<open>Of a file that was cut off the whole bytes are read, or none.\<close>

lemma read_hex_cut:
  assumes "dk_files d name = Some (take k (cohort_hex_encode b))"
  shows "\<exists>v. read_hex d name = Ok v \<and> (\<forall>c. v = Some c \<longrightarrow> (\<exists>r. b = c @ r))"
proof -
  let ?t = "take k (cohort_hex_encode b)"
  have len: "length (cohort_hex_encode b) = 2 * length b" for b
    by (induction b) (simp_all add: cohort_hex_encode_def hex_u8_def)
  have "set ?t \<subseteq> set hex_digits"
    using hex_text_digits [of b] set_take_subset unfolding cohort_hex_encode_def by (rule subset_trans [rotated])
  note t = trim_hex [OF this] hex_utf8 [OF this]
  show ?thesis
  proof (cases "odd (length ?t)")
    case True
    then have "length ?t mod 2 \<noteq> 0" by presburger
    then show ?thesis using t assms by (simp add: read_hex_def cohort_hex_decode_def)
  next
    case False
    define n where "n = length ?t div 2"
    have n: "length ?t = 2 * n" "n \<le> length b" using False len [of b] by (auto simp: n_def)
    have "take (length (take k xs)) xs = take k xs" for xs :: bytes by (simp add: min_def)
    from this [of "cohort_hex_encode b"] have "?t = take (2 * n) (cohort_hex_encode b)" unfolding n(1) by simp
    also have "\<dots> = cohort_hex_encode (take n b)"
    proof -
      have "cohort_hex_encode b = cohort_hex_encode (take n b) @ cohort_hex_encode (drop n b)"
        by (simp add: cohort_hex_encode_def flip: concat_append map_append)
      moreover have "length (cohort_hex_encode (take n b)) = 2 * n" using n(2) by (simp add: len)
      ultimately show ?thesis by simp
    qed
    finally have "read_hex d name = Ok (Some (take n b))" using read_hex_encoded [of d name "take n b"] assms by simp
    then show ?thesis by (metis append_take_drop_id option.inject)
  qed
qed

lemma read_message_encoded:
  "dk_files d name = Some (cohort_hex_encode b) \<Longrightarrow> read_message d name dec = ok_or (dec b) MissingMessage"
  by (simp add: read_message_def read_hex_encoded)

lemma read_message_present: "read_message d name dec = Ok x \<Longrightarrow> \<exists>c. dk_files d name = Some c"
  by (auto simp: read_message_def read_hex_def res_simps split: option.splits)

lemma ascii_digits: "b \<in> set (decimal k) \<Longrightarrow> b \<noteq> 45 \<and> b \<noteq> 46"
  using decimal_digits [of b k] by auto

lemma number_end:
  assumes "decimal i @ s = decimal j @ t" and "s = [] \<or> hd s = 45 \<or> hd s = 46" and "t = [] \<or> hd t = 45 \<or> hd t = 46"
  shows "i = j \<and> s = t"
proof -
  have "takeWhile (\<lambda>b. b \<noteq> 45 \<and> b \<noteq> 46) (decimal k @ r) = decimal k" if "r = [] \<or> hd r = 45 \<or> hd r = 46" for k r
    using that ascii_digits by (cases r) (auto simp: takeWhile_append)
  from this [OF assms(2), of i] this [OF assms(3), of j] have "decimal i = decimal j"
    using assms(1) by simp
  then show ?thesis using assms(1) by (simp add: decimal_inject)
qed

lemma name_inject [simp]:
  "r1_file i = r1_file j \<longleftrightarrow> i = j" "r2_file i k = r2_file j l \<longleftrightarrow> i = j \<and> k = l"
  "keyshare_file i = keyshare_file j \<longleftrightarrow> i = j"
  "commit_file ts i = commit_file us j \<longleftrightarrow> ts = us \<and> i = j" "share_file ts i = share_file us j \<longleftrightarrow> ts = us \<and> i = j"
  "ann_file ts = ann_file us \<longleftrightarrow> ts = us" "att_file ts = att_file us \<longleftrightarrow> ts = us"
  by (auto simp: r1_file_def r2_file_def keyshare_file_def commit_file_def share_file_def ann_file_def att_file_def
      ascii_def decimal_inject word_unat_eq_iff dest!: number_end)

lemma name_kinds [simp]:
  "r1_file i \<noteq> r2_file j k" "r1_file i \<noteq> keyshare_file j" "r1_file i \<noteq> commit_file ts j" "r1_file i \<noteq> share_file ts j"
  "r1_file i \<noteq> ann_file ts" "r1_file i \<noteq> att_file ts"
  "r2_file j k \<noteq> r1_file i" "r2_file i l \<noteq> keyshare_file j" "r2_file i l \<noteq> commit_file ts j" "r2_file i l \<noteq> share_file ts j"
  "r2_file i l \<noteq> ann_file ts" "r2_file i l \<noteq> att_file ts"
  "keyshare_file j \<noteq> r1_file i" "keyshare_file j \<noteq> r2_file i l" "keyshare_file i \<noteq> commit_file ts j" "keyshare_file i \<noteq> share_file ts j"
  "keyshare_file i \<noteq> ann_file ts" "keyshare_file i \<noteq> att_file ts"
  "commit_file ts j \<noteq> r1_file i" "commit_file ts j \<noteq> r2_file i l" "commit_file ts j \<noteq> keyshare_file i" "commit_file ts j \<noteq> share_file us i"
  "commit_file ts j \<noteq> ann_file us" "commit_file ts j \<noteq> att_file us"
  "share_file ts j \<noteq> r1_file i" "share_file ts j \<noteq> r2_file i l" "share_file ts j \<noteq> keyshare_file i" "share_file ts j \<noteq> commit_file us i"
  "share_file ts j \<noteq> ann_file us" "share_file ts j \<noteq> att_file us"
  "ann_file us \<noteq> r1_file i" "ann_file us \<noteq> r2_file i l" "ann_file us \<noteq> keyshare_file i" "ann_file us \<noteq> commit_file ts i"
  "ann_file us \<noteq> share_file ts i" "ann_file us \<noteq> att_file ts"
  "att_file us \<noteq> r1_file i" "att_file us \<noteq> r2_file i l" "att_file us \<noteq> keyshare_file i" "att_file us \<noteq> commit_file ts i"
  "att_file us \<noteq> share_file ts i" "att_file us \<noteq> ann_file ts"
  by (simp_all add: r1_file_def r2_file_def keyshare_file_def commit_file_def share_file_def ann_file_def att_file_def
      ascii_def)

end
