(* ===== verification/Lagrange.thy ===== *)
theory Lagrange
  imports Main
begin

text \<open>
  Interpolation at zero in a commutative ring: a polynomial with at most as many coefficients as
  there are points is recovered from its values by the Lagrange coefficients, as long as the
  differences of the points are invertible.
\<close>

section \<open>Polynomials as coefficient lists\<close>

fun peval :: "'a::comm_ring_1 list \<Rightarrow> 'a \<Rightarrow> 'a" where
  "peval [] x = 0"
| "peval (c # cs) x = c + x * peval cs x"

lemma peval_append: "peval (cs @ ds) x = peval cs x + x ^ length cs * peval ds x"
  by (induction cs) (simp_all add: algebra_simps)

lemma peval_0: "peval (c # cs) 0 = c"
  by simp

text \<open>Subtracting the value at \<open>y\<close> leaves a multiple of \<open>x - y\<close>.\<close>

lemma peval_divide:
  "\<exists>g. length g = length cs - 1 \<and> (\<forall>x. peval cs x = peval cs y + (x - y) * peval g x)"
proof (induction cs)
  case (Cons c cs)
  then obtain g where g: "length g = length cs - 1" "\<And>x. peval cs x = peval cs y + (x - y) * peval g x"
    by blast
  show ?case
  proof (cases cs)
    case Nil
    then show ?thesis by (intro exI [of _ "[]"]) simp
  next
    case (Cons c' cs')
    have "peval (c # cs) x = peval (c # cs) y + (x - y) * peval (peval cs y # g) x" for x
    proof -
      have "peval (c # cs) x = c + x * (peval cs y + (x - y) * peval g x)" using g(2) [of x] by simp
      then show ?thesis by (simp add: algebra_simps)
    qed
    moreover have "length (peval cs y # g) = length (c # cs) - 1" using g(1) Cons by simp
    ultimately show ?thesis by blast
  qed
qed simp

section \<open>The coefficients\<close>

text \<open>\<open>iv m j\<close> stands for the inverse of \<open>X m - X j\<close>.\<close>

definition lagrange :: "('i \<Rightarrow> 'a::comm_ring_1) \<Rightarrow> ('i \<Rightarrow> 'i \<Rightarrow> 'a) \<Rightarrow> 'i set \<Rightarrow> 'i \<Rightarrow> 'a" where
  "lagrange X iv Q j = (\<Prod>m\<in>Q - {j}. X m * iv m j)"

definition inverses :: "('i \<Rightarrow> 'a::comm_ring_1) \<Rightarrow> ('i \<Rightarrow> 'i \<Rightarrow> 'a) \<Rightarrow> 'i set \<Rightarrow> bool" where
  "inverses X iv Q \<longleftrightarrow> (\<forall>m\<in>Q. \<forall>j\<in>Q. m \<noteq> j \<longrightarrow> (X m - X j) * iv m j = 1)"

lemma lagrange_remove:
  assumes "finite Q" "q \<in> Q" "j \<noteq> q"
  shows "lagrange X iv Q j = lagrange X iv (Q - {q}) j * (X q * iv q j)"
proof -
  have "Q - {j} = insert q (Q - {q} - {j})" using assms by auto
  then show ?thesis using assms by (simp add: lagrange_def mult.commute)
qed

text \<open>A factor that vanishes at one point leaves the interpolation without that point.\<close>

lemma lagrange_shift:
  assumes "finite Q" "q \<in> Q" "inverses X iv Q"
  shows "(\<Sum>j\<in>Q. lagrange X iv Q j * ((X j - X q) * f j)) = - (X q * (\<Sum>j\<in>Q - {q}. lagrange X iv (Q - {q}) j * f j))"
proof -
  have "(\<Sum>j\<in>Q. lagrange X iv Q j * ((X j - X q) * f j))
      = (\<Sum>j\<in>Q - {q}. lagrange X iv Q j * ((X j - X q) * f j))"
    using assms(1,2) by (simp add: sum.remove)
  also have "\<dots> = (\<Sum>j\<in>Q - {q}. - X q * (lagrange X iv (Q - {q}) j * f j))"
  proof (rule sum.cong [OF refl])
    fix j
    assume j: "j \<in> Q - {q}"
    then have "(X q - X j) * iv q j = 1"
      using assms(2) assms(3) [unfolded inverses_def, rule_format, of q j] by auto
    then have "iv q j * (X j - X q) = - 1" by (simp add: algebra_simps)
    moreover have "lagrange X iv Q j * ((X j - X q) * f j)
        = X q * (lagrange X iv (Q - {q}) j * f j) * (iv q j * (X j - X q))"
      using lagrange_remove [OF assms(1,2), of j X iv] j by (simp add: ac_simps)
    ultimately show "lagrange X iv Q j * ((X j - X q) * f j) = - X q * (lagrange X iv (Q - {q}) j * f j)"
      by simp
  qed
  also have "\<dots> = - (X q * (\<Sum>j\<in>Q - {q}. lagrange X iv (Q - {q}) j * f j))"
    by (simp add: sum_distrib_left sum_negf)
  finally show ?thesis .
qed

lemma lagrange_one:
  assumes "finite Q" "Q \<noteq> {}" "inverses X iv Q"
  shows "(\<Sum>j\<in>Q. lagrange X iv Q j) = 1"
  using assms
proof (induction "card Q" arbitrary: Q rule: less_induct)
  case less
  obtain q where q: "q \<in> Q" using less.prems(2) by blast
  show ?case
  proof (cases "Q = {q}")
    case True
    then show ?thesis by (simp add: lagrange_def)
  next
    case False
    then obtain p where p: "p \<in> Q" "p \<noteq> q" using q by blast
    have one: "(\<Sum>j\<in>Q - {r}. lagrange X iv (Q - {r}) j) = 1" if "r \<in> Q" for r
    proof (rule less.hyps)
      have "\<exists>x\<in>Q. x \<noteq> r" using p q by metis
      then show "Q - {r} \<noteq> {}" by blast
    qed (use less.prems that in \<open>auto simp: inverses_def card_gt_0_iff\<close>)
    let ?u = "iv q p"
    have u: "(X q - X p) * ?u = 1" using less.prems(3) p q by (simp add: inverses_def)
    have "(\<Sum>j\<in>Q. lagrange X iv Q j)
        = (\<Sum>j\<in>Q. lagrange X iv Q j * ((X j - X p) * ?u) - lagrange X iv Q j * ((X j - X q) * ?u))"
    proof (rule sum.cong [OF refl])
      fix j
      have "(X j - X p) * ?u - (X j - X q) * ?u = 1" using u by (simp add: algebra_simps)
      then show "lagrange X iv Q j = lagrange X iv Q j * ((X j - X p) * ?u) - lagrange X iv Q j * ((X j - X q) * ?u)"
        by (simp flip: right_diff_distrib)
    qed
    also have "\<dots> = X q * ?u - X p * ?u"
      using lagrange_shift [OF less.prems(1) p(1) less.prems(3), of "\<lambda>_. ?u"]
        lagrange_shift [OF less.prems(1) q less.prems(3), of "\<lambda>_. ?u"] one [OF p(1)] one [OF q]
      by (simp add: sum_subtractf flip: sum_distrib_right)
    also have "\<dots> = 1" using u by (simp add: algebra_simps)
    finally show ?thesis .
  qed
qed

theorem lagrange_at_0:
  assumes "finite Q" "inverses X iv Q" "length cs \<le> card Q"
  shows "(\<Sum>j\<in>Q. lagrange X iv Q j * peval cs (X j)) = peval cs 0"
  using assms
proof (induction "card Q" arbitrary: Q cs)
  case 0
  then show ?case by simp
next
  case (Suc n)
  then obtain q where q: "q \<in> Q" by (metis card.empty equals0I nat.distinct(1))
  obtain g where g: "length g = length cs - 1" "\<And>x. peval cs x = peval cs (X q) + (x - X q) * peval g x"
    using peval_divide by blast
  have IH: "(\<Sum>j\<in>Q - {q}. lagrange X iv (Q - {q}) j * peval g (X j)) = peval g 0"
    using Suc.prems Suc.hyps(2) g(1) q by (intro Suc.hyps(1)) (auto simp: inverses_def)
  have "(\<Sum>j\<in>Q. lagrange X iv Q j * peval cs (X j))
      = (\<Sum>j\<in>Q. lagrange X iv Q j * peval cs (X q) + lagrange X iv Q j * ((X j - X q) * peval g (X j)))"
    by (rule sum.cong [OF refl]) (subst g(2), simp add: distrib_left)
  also have "\<dots> = (\<Sum>j\<in>Q. lagrange X iv Q j) * peval cs (X q)
      + (\<Sum>j\<in>Q. lagrange X iv Q j * ((X j - X q) * peval g (X j)))"
    by (simp add: sum.distrib sum_distrib_right)
  also have "\<dots> = peval cs (X q) + - (X q * peval g 0)"
  proof -
    have "Q \<noteq> {}" using q by blast
    from lagrange_one [OF Suc.prems(1) this Suc.prems(2)] show ?thesis
      using lagrange_shift [OF Suc.prems(1) q Suc.prems(2), of "\<lambda>j. peval g (X j)"] IH by simp
  qed
  also have "\<dots> = peval cs 0" using g(2) [of 0] by simp
  finally show ?case .
qed

end
