(* ===== verification/Threshold.thy ===== *)
theory Threshold
  imports Frost Lagrange
begin

text \<open>
  What threshold attestation promises (\<^verbatim>\<open>satusd-oracle/src/frost.rs\<close>): verified shares lie on the
  polynomial their dealer committed to, members who finalise against the same packages hold points
  of one polynomial, the Lagrange coefficients recover its value at zero, and the aggregate of a
  quorum's shares is a BIP-340 signature under the group key with the announced nonce points.
\<close>

section \<open>Accumulators as residues\<close>

text \<open>The point at which a participant's share is taken.\<close>

definition xi :: "u16 \<Rightarrow> zn" where
  "xi j = zof (uint j)"

lemma scalar_Ok [res_simps]: "scalar S b = Ok s \<longleftrightarrow> sk_ok S b \<and> s = b"
  by (auto simp: scalar_def)

lemma crypto_err_Ok [res_simps]: "crypto_err r = Ok x \<longleftrightarrow> r = Ok x"
  by (simp add: crypto_err_def res_simps)

lemma num_index: "num (barr_of (replicate 30 0 @ to_be j) :: b32) = uint j" for j :: u16
  using unat_lt_u16 [of j]
  by (simp add: num_def nat_of_be_append to_be_def nat_of_be_nat_be)

lemma uint_index: "uint j < order_n" "0 < uint j \<longleftrightarrow> j \<noteq> 0" for j :: u16
proof -
  have "uint j < 65536" using uint_bounded [of j] by simp
  then show "uint j < order_n" by (simp add: order_n_def)
  show "0 < uint j \<longleftrightarrow> j \<noteq> 0" using uint_0_iff [of j] uint_ge_0 [of j] by linarith
qed

lemma xi_nonzero: "xi j = 0 \<longleftrightarrow> j = 0"
  using uint_index [of j] uint_0_iff [of j] by (simp add: xi_def zn_eq_iff mod_pos_pos_trivial)

lemma index_scalar_Ok:
  assumes laws: "secp_laws C S"
  shows "index_scalar S j = Ok s \<longleftrightarrow> j \<noteq> 0 \<and> s = enc (xi j)"
proof -
  let ?b = "barr_of (replicate 30 0 @ to_be j) :: b32"
  have lt: "num ?b < order_n" unfolding num_index by (rule uint_index)
  have "enc (xi j) = ?b" using enc_val [OF lt] by (simp add: val_def num_index xi_def)
  moreover have "sk_ok S ?b \<longleftrightarrow> j \<noteq> 0"
    using lt uint_index(2) [of j] by (simp add: sk_ok_iff [OF laws] num_index)
  ultimately show ?thesis by (auto simp: index_scalar_def res_simps)
qed

definition acc_val :: "zn \<Rightarrow> b32 option \<Rightarrow> zn \<Rightarrow> bool" where
  "acc_val z acc v \<longleftrightarrow> (case acc of None \<Rightarrow> v = z | Some a \<Rightarrow> v \<noteq> 0 \<and> a = enc v)"

definition pt_val :: "secp \<Rightarrow> b33 option \<Rightarrow> zn \<Rightarrow> bool" where
  "pt_val S acc v \<longleftrightarrow> (case acc of None \<Rightarrow> v = 0 | Some p \<Rightarrow> v \<noteq> 0 \<and> p = point S v)"

lemma acc_start [simp]: "acc_val z None v \<longleftrightarrow> v = z" "pt_val S None w \<longleftrightarrow> w = 0"
  by (simp_all add: acc_val_def pt_val_def)

lemma acc_Some: "acc_val z (Some a) v \<longleftrightarrow> v \<noteq> 0 \<and> a = enc v" "pt_val S (Some p) v \<longleftrightarrow> v \<noteq> 0 \<and> p = point S v"
  by (simp_all add: acc_val_def pt_val_def)

lemma mul_secret_val:
  assumes "secp_laws C S" "acc_val 1 acc v" "y \<noteq> 0" "mul_secret S (enc y) acc = Ok acc'"
  shows "acc_val 1 acc' (v * y)"
  using assms by (auto simp: mul_secret_def acc_val_def sk_mul_tweak_enc split: option.splits if_splits)

lemma add_secret_val:
  assumes "secp_laws C S" "acc_val 0 acc v" "y \<noteq> 0" "add_secret S (enc y) acc = Ok acc'"
  shows "acc_val 0 acc' (v + y)"
  using assms by (auto simp: add_secret_def acc_val_def sk_add_tweak_enc split: option.splits if_splits)

lemma add_point_val:
  assumes "secp_laws C S" "pt_val S acc v" "y \<noteq> 0" "add_point S (point S y) acc = Ok acc'"
  shows "pt_val S acc' (v + y)"
  using assms by (auto simp: add_point_def pt_val_def pk_combine_points split: option.splits if_splits)

section \<open>Lagrange coefficients\<close>

abbreviation others :: "u16 \<Rightarrow> u16 list \<Rightarrow> u16 list" where
  "others j ms \<equiv> filter (\<lambda>m. m \<noteq> j) ms"

lemma lagrange_step_Ok:
  assumes "secp_laws C S" "m \<noteq> j" "lagrange_step S j xj m s = Ok s'"
  obtains num diff den where "m \<noteq> 0" "mul_secret S (enc (xi m)) (fst s) = Ok num"
    "sub_mod_n S (enc (xi m)) xj = Ok diff" "mul_secret S diff (snd s) = Ok den" "s' = (num, den)"
  using assms by (auto simp: lagrange_step_def res_simps index_scalar_Ok)

lemma lagrange_loop:
  assumes laws: "secp_laws C S" and "j \<noteq> 0"
    and "rfold (lagrange_step S j (enc (xi j))) ms s = Ok s'" "acc_val 1 (fst s) u" "acc_val 1 (snd s) w"
  shows "acc_val 1 (fst s') (u * prod_list (map xi (others j ms)))
    \<and> acc_val 1 (snd s') (w * prod_list (map (\<lambda>m. xi m - xi j) (others j ms)))"
  using assms(3-)
proof (induction ms arbitrary: s u w)
  case (Cons m ms)
  show ?case
  proof (cases "m = j")
    case True
    then show ?thesis using Cons by (simp add: lagrange_step_def)
  next
    case False
    from Cons.prems(1) obtain s1 where s1: "lagrange_step S j (enc (xi j)) m s = Ok s1"
      "rfold (lagrange_step S j (enc (xi j))) ms s1 = Ok s'" by (auto simp: res_simps)
    obtain num diff den where step: "m \<noteq> 0" "mul_secret S (enc (xi m)) (fst s) = Ok num"
      "sub_mod_n S (enc (xi m)) (enc (xi j)) = Ok diff" "mul_secret S diff (snd s) = Ok den"
      "s1 = (num, den)"
      by (rule lagrange_step_Ok [OF laws False s1(1)])
    have nz: "xi m \<noteq> 0" "xi j \<noteq> 0" using step(1) assms(2) by (simp_all add: xi_nonzero)
    then have diff: "xi m \<noteq> xi j" "diff = enc (xi m - xi j)"
      using step(3) laws by (auto simp: sub_mod_n_enc split: if_splits)
    have "acc_val 1 num (u * xi m)" "acc_val 1 den (w * (xi m - xi j))"
      using mul_secret_val [OF laws Cons.prems(2) nz(1) step(2)]
        mul_secret_val [OF laws Cons.prems(3) _ step(4) [unfolded diff(2)]] diff(1) by simp_all
    with Cons.IH [OF s1(2), of "u * xi m" "w * (xi m - xi j)"] step(5) show ?thesis
      using False by (simp add: mult.assoc)
  qed
qed simp

lemma prod_list_power: "prod_list (map f ms) ^ k = prod_list (map (\<lambda>m. f m ^ k) ms)" for f :: "'b \<Rightarrow> zn"
  by (induction ms) (simp_all add: power_mult_distrib)

lemma prod_list_times: "prod_list (map f ms) * prod_list (map g ms) = prod_list (map (\<lambda>m. f m * g m) ms)" for f g :: "'b \<Rightarrow> zn"
  by (induction ms) (simp_all add: ac_simps)

lemma prod_list_ones: "prod_list (replicate k 1) = (1 :: zn)"
  by (induction k) simp_all

text \<open>What primality of the group order gives: the differences of the indices have inverses.\<close>

definition quorum_units :: "u16 list \<Rightarrow> bool" where
  "quorum_units quorum \<longleftrightarrow>
     (\<forall>m\<in>set quorum. \<forall>j\<in>set quorum. m = j \<or> (xi m - xi j) ^ nat (order_n - 1) = 1)"

definition index_inverse :: "u16 \<Rightarrow> u16 \<Rightarrow> zn" where
  "index_inverse m j = (xi m - xi j) ^ nat (order_n - 2)"

lemma quorum_inverses: "quorum_units quorum \<Longrightarrow> inverses xi index_inverse (set quorum)"
  using fermat_unit by (auto simp: inverses_def index_inverse_def quorum_units_def)

lemma lagrange_at_zero_Ok:
  assumes laws: "secp_laws C S" and "distinct quorum" "j \<in> set quorum" and units: "quorum_units quorum"
    and ok: "lagrange_at_zero S j quorum = Ok l"
  shows "l = enc (lagrange xi index_inverse (set quorum) j)" and "lagrange xi index_inverse (set quorum) j \<noteq> 0"
proof -
  let ?ms = "others j quorum"
  let ?u = "prod_list (map xi ?ms)" and ?w = "prod_list (map (\<lambda>m. xi m - xi j) ?ms)"
  obtain num den i where r: "j \<noteq> 0" "rfold (lagrange_step S j (enc (xi j))) quorum (None, None) = Ok (Some num, Some den)"
    "invert_mod_n S den = Ok i" "sk_mul_tweak S num i = Ok l"
    using ok by (auto simp: lagrange_at_zero_def res_simps index_scalar_Ok [OF laws])
  have v: "?u \<noteq> 0" "num = enc ?u" "?w \<noteq> 0" "den = enc ?w"
    using lagrange_loop [OF laws r(1,2), of 1 1] by (simp_all add: acc_Some)
  have "?w ^ nat (order_n - 1) = prod_list (map (\<lambda>m. (xi m - xi j) ^ nat (order_n - 1)) ?ms)"
    by (rule prod_list_power)
  also have "\<dots> = prod_list (map (\<lambda>_. 1) ?ms)"
    using units assms(3) by (intro arg_cong [where f = prod_list] map_cong refl) (auto simp: quorum_units_def)
  also have "\<dots> = 1" by (simp only: map_replicate_const prod_list_ones)
  finally have i: "i = enc (?w ^ nat (order_n - 2))"
    using invert_mod_n_is [OF laws] r(3) v(4) by simp
  then have l: "l = enc (?u * ?w ^ nat (order_n - 2))" "?u * ?w ^ nat (order_n - 2) \<noteq> 0"
    using r(4) v(1,2) laws by (auto simp: sk_mul_tweak_enc split: if_splits)
  have "lagrange xi index_inverse (set quorum) j = prod_list (map (\<lambda>m. xi m * index_inverse m j) ?ms)"
  proof -
    have "set quorum - {j} = set ?ms" by auto
    moreover have "distinct ?ms" using assms(2) by simp
    ultimately show ?thesis by (simp only: lagrange_def prod.distinct_set_conv_list)
  qed
  also have "\<dots> = ?u * ?w ^ nat (order_n - 2)"
    by (simp only: prod_list_power index_inverse_def prod_list_times)
  finally show "l = enc (lagrange xi index_inverse (set quorum) j)" "lagrange xi index_inverse (set quorum) j \<noteq> 0"
    using l by simp_all
qed


section \<open>Nonces, shares and their sum\<close>

definition sg :: "bool \<Rightarrow> zn \<Rightarrow> zn" where
  "sg b v = (if b then - v else v)"

lemma sg_simps [simp]: "sg b v = 0 \<longleftrightarrow> v = 0" "sg b (v + w) = sg b v + sg b w" "sg b (v * w) = sg b v * w"
  by (simp_all add: sg_def)

lemma even_sg: "even_of S v = sg (pk_odd S (point S v)) v"
  by (simp add: even_of_def sg_def)

lemma neg_sg: "secp_laws C S \<Longrightarrow> v \<noteq> 0 \<Longrightarrow> (if b then sk_neg S (enc v) else enc v) = enc (sg b v)"
  by (simp add: sg_def sk_neg_enc)

definition rho :: "crypto \<Rightarrow> bytes \<Rightarrow> u16 \<Rightarrow> zn" where
  "rho C b j = val (rail_tagged_hash C ''SatUSD/frost/binding-factor/v1'' (to_be j @ b))"

lemma binding_factor_Ok:
  assumes laws: "secp_laws C S"
  shows "binding_factor C S j b = Ok r \<Longrightarrow> r = enc (rho C b j) \<and> rho C b j \<noteq> 0"
  using sk_okD [OF laws] by (auto simp: binding_factor_def res_simps rho_def)

lemma session_loop:
  assumes laws: "secp_laws C S"
    and nz: "\<And>j. j \<in> set js \<Longrightarrow> D j \<noteq> 0 \<and> E j \<noteq> 0"
    and loop: "rfold (session_step C S b) (map (\<lambda>j. (j, point S (D j), point S (E j))) js) s = Ok s'"
    and start: "pt_val S (fst s) v"
  shows "pt_val S (fst s') (v + (\<Sum>j\<leftarrow>js. D j + rho C b j * E j))
    \<and> snd s' = snd s @ map (\<lambda>j. enc (rho C b j)) js
    \<and> (\<forall>j\<in>set js. rho C b j \<noteq> 0 \<and> D j + rho C b j * E j \<noteq> 0)"
  using nz loop start
proof (induction js arbitrary: s v)
  case (Cons j js)
  have d: "D j \<noteq> 0" "E j \<noteq> 0" using Cons.prems(1) by simp_all
  from Cons.prems(2) obtain s1 where s1: "session_step C S b (j, point S (D j), point S (E j)) s = Ok s1"
    "rfold (session_step C S b) (map (\<lambda>j. (j, point S (D j), point S (E j))) js) s1 = Ok s'"
    by (auto simp: res_simps)
  then obtain r t p acc where r: "binding_factor C S j b = (Ok r :: (SecpError, b32) res)" "pk_mul_tweak S (point S (E j)) r = Ok t"
    "pk_combine S (point S (D j)) t = Ok p" "add_point S p (fst s) = Ok acc" "s1 = (acc, snd s @ [r])"
    by (auto simp: session_step_def res_simps)
  have rh: "r = enc (rho C b j)" "rho C b j \<noteq> 0" using binding_factor_Ok [OF laws r(1)] by simp_all
  have t: "t = point S (E j * rho C b j)" "E j * rho C b j \<noteq> 0"
    using r(2) rh d laws by (auto simp: pk_mul_tweak_point split: if_splits)
  have p: "p = point S (D j + rho C b j * E j)" "D j + rho C b j * E j \<noteq> 0"
    using r(3) t d laws by (auto simp: pk_combine_points mult.commute split: if_splits)
  have "pt_val S (fst s1) (v + (D j + rho C b j * E j))"
    using add_point_val [OF laws Cons.prems(3) p(2) r(4) [unfolded p(1)]] r(5) by simp
  with Cons.IH [OF _ s1(2), of "v + (D j + rho C b j * E j)"] Cons.prems(1) rh p(2) r(5)
  show ?case by (auto simp: add.assoc)
qed simp

lemma nonce_session_Ok:
  assumes laws: "secp_laws C S"
    and nz: "\<And>j. j \<in> set quorum \<Longrightarrow> D j \<noteq> 0 \<and> E j \<noteq> 0"
    and des: "des = map (\<lambda>j. (point S (D j), point S (E j))) quorum"
    and ok: "nonce_session C S ev_id digit quorum des = Ok (R, rhos)"
    and b: "b = encode_commitment_set ev_id digit quorum des"
  shows "R = point S (\<Sum>j\<leftarrow>quorum. D j + rho C b j * E j)" "(\<Sum>j\<leftarrow>quorum. D j + rho C b j * E j) \<noteq> 0"
    "rhos = map (\<lambda>j. enc (rho C b j)) quorum"
    "\<And>j. j \<in> set quorum \<Longrightarrow> rho C b j \<noteq> 0 \<and> D j + rho C b j * E j \<noteq> 0"
proof -
  have zip: "zip quorum des = map (\<lambda>j. (j, point S (D j), point S (E j))) quorum"
    by (simp add: des zip_map2 zip_same_conv_map)
  obtain r where r: "rfold (session_step C S b) (zip quorum des) (None, []) = Ok (Some r, rhos)" "R = r"
    using ok by (auto simp: nonce_session_def b res_simps Let_def)
  from session_loop [OF laws nz r(1) [unfolded zip], of 0]
  show "R = point S (\<Sum>j\<leftarrow>quorum. D j + rho C b j * E j)" "(\<Sum>j\<leftarrow>quorum. D j + rho C b j * E j) \<noteq> 0"
    "rhos = map (\<lambda>j. enc (rho C b j)) quorum"
    "\<And>j. j \<in> set quorum \<Longrightarrow> rho C b j \<noteq> 0 \<and> D j + rho C b j * E j \<noteq> 0"
    using r(2) by (auto simp: acc_Some)
qed

text \<open>A signer's share of one digit.\<close>

lemma sign_digit_Ok:
  assumes laws: "secp_laws C S"
    and nz: "\<And>j. j \<in> set quorum \<Longrightarrow> D j \<noteq> 0 \<and> E j \<noteq> 0"
    and des: "quorum_commitments S quorum commitments digit = Ok des"
      "des = map (\<lambda>j. (point S (D j), point S (E j))) quorum"
    and R: "nonce_session C S ev_id digit quorum des = Ok (R, rhos)"
    and b: "b = encode_commitment_set ev_id digit quorum des"
    and j: "pos < length quorum" "quorum ! pos = j"
    and own: "nonce_pair C S (sg_nonce_seed self) ev_id digit = (Ok (enc (D j), enc (E j)) :: (FrostError, _) res)"
    and l: "l \<noteq> 0" and ok: "sign_digit C S self ev_id px pos (enc l) (enc y) quorum commitments digit d = Ok z"
  shows "z = enc (sg (pk_odd S R) (D j + rho C b j * E j)
      + sg (ks_pk_odd (sg_key self)) (l * y * chal C (pk_xonly S R) px (attestation_msg C d)))"
    and "sg (pk_odd S R) (D j + rho C b j * E j)
      + sg (ks_pk_odd (sg_key self)) (l * y * chal C (pk_xonly S R) px (attestation_msg C d)) \<noteq> 0"
proof -
  note session = nonce_session_Ok [OF laws nz des(2) R b]
  have jq: "j \<in> set quorum" using j by (metis nth_mem)
  have rho: "get_at rhos pos = Some (enc (rho C b j))" using session(3) j by (simp add: get_at_def)
  let ?e = "chal C (pk_xonly S R) px (attestation_msg C d)"
  obtain t eff part kp where c: "sk_mul_tweak S (enc (E j)) (enc (rho C b j)) = Ok t"
    "sk_add_tweak S (enc (D j)) t = Ok eff" "sk_mul_tweak S (enc l) (enc y) = Ok part"
    "sk_mul_tweak S part (enc ?e) = Ok kp"
    "sk_add_tweak S (if pk_odd S R then sk_neg S eff else eff)
      (if ks_pk_odd (sg_key self) then sk_neg S kp else kp) = Ok z"
    using ok by (auto simp: sign_digit_def des(1) R own rho challenge_is [OF laws] res_simps Let_def simp del: guard_Ok_iff)
  have eff: "eff = enc (D j + rho C b j * E j)" "D j + rho C b j * E j \<noteq> 0"
    using c(1,2) nz [OF jq] laws by (auto simp: sk_mul_tweak_enc sk_add_tweak_enc mult.commute split: if_splits)
  have kp: "kp = enc (l * y * ?e)" "l * y * ?e \<noteq> 0"
    using c(3,4) l laws by (auto simp: sk_mul_tweak_enc split: if_splits)
  have "sk_add_tweak S (enc (sg (pk_odd S R) (D j + rho C b j * E j))) (enc (sg (ks_pk_odd (sg_key self)) (l * y * ?e))) = Ok z"
    using c(5) by (simp only: eff(1) kp(1) neg_sg [OF laws eff(2)] neg_sg [OF laws kp(2)])
  then show "z = enc (sg (pk_odd S R) (D j + rho C b j * E j) + sg (ks_pk_odd (sg_key self)) (l * y * ?e))"
    "sg (pk_odd S R) (D j + rho C b j * E j) + sg (ks_pk_odd (sg_key self)) (l * y * ?e) \<noteq> 0"
    using laws eff(2) by (auto simp: sk_add_tweak_enc simp del: sg_simps(2,3) split: if_splits)
qed

lemma add_share_loop:
  assumes laws: "secp_laws C S"
    and shares: "\<And>j. j \<in> set js \<Longrightarrow> \<exists>sh. find (\<lambda>s. ss_index s = j) shares = Some sh
      \<and> i < length (ss_digits sh) \<and> ss_digits sh ! i = enc (z j) \<and> z j \<noteq> 0"
    and loop: "rfold (add_share S shares i) js s = Ok s'" and start: "acc_val 0 s v"
  shows "acc_val 0 s' (v + (\<Sum>j\<leftarrow>js. z j))"
  using shares loop start
proof (induction js arbitrary: s v)
  case (Cons j js)
  obtain sh where sh: "find (\<lambda>s. ss_index s = j) shares = Some sh" "i < length (ss_digits sh)"
    "ss_digits sh ! i = enc (z j)" "z j \<noteq> 0" using Cons.prems(1) by force
  from Cons.prems(2) obtain s1 where s1: "add_share S shares i j s = Ok s1" "rfold (add_share S shares i) js s1 = Ok s'"
    by (auto simp: res_simps)
  then have "add_secret S (enc (z j)) s = Ok s1" by (auto simp: add_share_def sh get_at_def res_simps)
  from add_secret_val [OF laws Cons.prems(3) sh(4) this] Cons.IH [OF _ s1(2), of "v + z j"] Cons.prems(1)
  show ?case by (simp add: add.assoc)
qed simp

section \<open>Verified shares lie on the committed polynomial\<close>

lemma pk_okE:
  assumes "secp_laws C S" "pk_ok S p"
  obtains y where "y \<noteq> 0" "p = point S y"
  using assms by (auto simp: pk_ok_iff)

lemma pk_ok_point: "secp_laws C S \<Longrightarrow> y \<noteq> 0 \<Longrightarrow> pk_ok S (point S y)"
  by (auto simp: pk_ok_iff)

lemma commitment_logs:
  assumes "secp_laws C S" "list_all (pk_ok S) ps"
  shows "\<exists>cs. 0 \<notin> set cs \<and> ps = map (point S) cs"
  using assms(2)
proof (induction ps)
  case (Cons p ps)
  then obtain cs where "0 \<notin> set cs" "ps = map (point S) cs" by auto
  moreover obtain y where "y \<noteq> 0" "p = point S y" using pk_okE [OF assms(1)] Cons.prems by auto
  ultimately show ?case by (intro exI [of _ "y # cs"]) simp
qed simp

lemma eval_loop:
  assumes laws: "secp_laws C S" and x: "x \<noteq> 0"
    and "0 \<notin> set cs" "rfold (eval_step S (enc x)) (map (point S) cs) s = Ok s'"
    and "pt_val S (fst s) v" "acc_val 1 (snd s) w"
  shows "pt_val S (fst s') (v + w * peval cs x)"
  using assms(3-)
proof (induction cs arbitrary: s v w)
  case (Cons c cs)
  obtain acc xpow where s: "s = (acc, xpow)" by force
  from Cons.prems(2) obtain s1 where s1: "eval_step S (enc x) (point S c) s = Ok s1"
    "rfold (eval_step S (enc x)) (map (point S) cs) s1 = Ok s'" by (auto simp: res_simps)
  then obtain t acc' p where st: "(case xpow of None \<Rightarrow> Ok (point S c) | Some p \<Rightarrow> pk_mul_tweak S (point S c) p) = Ok t"
    "add_point S t acc = Ok acc'" "(case xpow of None \<Rightarrow> Ok (enc x) | Some p \<Rightarrow> sk_mul_tweak S p (enc x)) = Ok p"
    "s1 = (acc', Some p)"
    by (auto simp: eval_step_def s res_simps)
  have c: "c \<noteq> 0" using Cons.prems(1) by auto
  have t: "t = point S (w * c)" "w * c \<noteq> 0"
    using st(1) Cons.prems(4) c laws
    by (auto simp: s acc_val_def pk_mul_tweak_point mult.commute split: option.splits if_splits)
  have p: "acc_val 1 (Some p) (w * x)"
    using st(3) Cons.prems(4) x laws
    by (auto simp: s acc_val_def sk_mul_tweak_enc split: option.splits if_splits)
  have "pt_val S acc' (v + w * c)"
    using add_point_val [OF laws _ t(2) st(2) [unfolded t(1)]] Cons.prems(3) by (simp add: s)
  with Cons.IH [OF _ s1(2), of "v + w * c" "w * x"] p Cons.prems(1) st(4)
  show ?case by (simp add: algebra_simps)
qed simp

lemma eval_commitment_Ok:
  assumes "secp_laws C S" "x \<noteq> 0" "0 \<notin> set cs" "eval_commitment S (map (point S) cs) (enc x) = Ok P"
  shows "P = point S (peval cs x)" "peval cs x \<noteq> 0"
proof -
  obtain xp where "rfold (eval_step S (enc x)) (map (point S) cs) (None, None) = Ok (Some P, xp)"
    using assms(4) by (auto simp: eval_commitment_def res_simps)
  from eval_loop [OF assms(1-3) this, of 0 1] show "P = point S (peval cs x)" "peval cs x \<noteq> 0"
    by (simp_all add: acc_Some)
qed

lemma verified_share:
  assumes laws: "secp_laws C S" and ok: "verify_round2_share S share com = (Ok True :: ('e, bool) res)"
  obtains cs where "0 \<notin> set cs" "com = map (point S) cs" "r2_share share = enc (peval cs (xi (r2_to share)))"
    "peval cs (xi (r2_to share)) \<noteq> 0" "r2_to share \<noteq> 0"
proof -
  have sk: "sk_ok S (r2_share share)" "list_all (pk_ok S) com"
    using ok by (auto simp: verify_round2_share_def split: if_splits)
  obtain cs where cs: "0 \<notin> set cs" "com = map (point S) cs" using commitment_logs [OF laws sk(2)] by blast
  obtain y where y: "y \<noteq> 0" "r2_share share = enc y" using sk_okE [OF laws sk(1)] .
  have ev: "r2_to share \<noteq> 0" "eval_commitment S com (enc (xi (r2_to share))) = Ok (pk_of S (r2_share share))"
    using ok sk by (auto simp: verify_round2_share_def res_simps index_scalar_Ok [OF laws] split: res.splits)
  then have "xi (r2_to share) \<noteq> 0" by (simp add: xi_nonzero)
  from eval_commitment_Ok [OF laws this cs(1) ev(2) [unfolded cs(2)]] y
  have "peval cs (xi (r2_to share)) \<noteq> 0" "y = peval cs (xi (r2_to share))"
    using point_eq_iff [OF laws] by (simp_all add: pk_of_enc)
  with cs y ev(1) show thesis by (intro that) simp_all
qed

text \<open>Key generation with the same packages puts every member on one polynomial.\<close>

definition dealers :: "u16 \<Rightarrow> u16 list" where
  "dealers n = map word_of_nat [1 ..< unat n + 1]"

definition committed :: "secp \<Rightarrow> Round1Package list \<Rightarrow> (u16 \<Rightarrow> zn list) \<Rightarrow> u16 \<Rightarrow> bool" where
  "committed S packages cs i \<longleftrightarrow> 0 \<notin> set (cs i) \<and> cs i \<noteq> []
     \<and> (\<exists>pkg. find (\<lambda>p. r1_index p = i) packages = Some pkg \<and> r1_commitment pkg = map (point S) (cs i))"

lemma finalize_step_Ok:
  assumes laws: "secp_laws C S" and ok: "finalize_step C S index packages shares i s = Ok s'"
  obtains cs sh where "0 \<notin> set cs" "cs \<noteq> []" "find (\<lambda>p. r1_index p = i) packages = Some sh" "r1_commitment sh = map (point S) cs"
    "peval cs (xi index) \<noteq> 0" "index \<noteq> 0"
    "add_secret S (enc (peval cs (xi index))) (fst s) = Ok (fst s')"
    "add_point S (point S (hd cs)) (snd s) = Ok (snd s')"
proof -
  from ok obtain pkg share c0 where st: "find (\<lambda>p. r1_index p = i) packages = Some pkg"
    "find (\<lambda>s. r2_from s = i \<and> r2_to s = index) shares = Some share"
    "verify_round2_share S share (r1_commitment pkg) = (Ok True :: (FrostError, bool) res)"
    "add_secret S (r2_share share) (fst s) = Ok (fst s')" "get_at (r1_commitment pkg) 0 = Some c0"
    "add_point S c0 (snd s) = Ok (snd s')"
    by (auto simp: finalize_step_def res_simps split: if_splits)
  have to: "r2_to share = index" using st(2) by (auto simp: find_Some_iff)
  from verified_share [OF laws st(3)] obtain cs where cs: "0 \<notin> set cs" "r1_commitment pkg = map (point S) cs"
    "r2_share share = enc (peval cs (xi index))" "peval cs (xi index) \<noteq> 0" "index \<noteq> 0"
    unfolding to by blast
  have "cs \<noteq> []" using cs(4) by auto
  moreover from this have "c0 = point S (hd cs)" using st(5) cs(2) by (cases cs) (auto simp: get_at_def)
  ultimately show thesis using that [OF cs(1) _ st(1) cs(2,4,5)] st(4,6) cs(3) by simp
qed

lemma committed_fun: 
  assumes laws: "secp_laws C S" and "committed S packages cs i" "find (\<lambda>p. r1_index p = i) packages = Some pkg"
    "r1_commitment pkg = map (point S) ds" "0 \<notin> set ds"
  shows "ds = cs i"
proof -
  have m: "map (point S) ds = map (point S) (cs i)" "0 \<notin> set (cs i)" using assms by (auto simp: committed_def)
  have "inj_on (point S) (set ds \<union> set (cs i))"
    using point_inj [OF laws] by (rule inj_on_subset) (use m(2) assms(5) in auto)
  from inj_on_map_eq_map [OF this] m(1) show ?thesis by blast
qed

lemma finalize_loop:
  assumes laws: "secp_laws C S"
    and com: "\<And>i. i \<in> set is \<Longrightarrow> committed S packages cs i"
    and loop: "rfold (finalize_step C S index packages shares) is s = Ok s'"
    and start: "acc_val 0 (fst s) v" "pt_val S (snd s) w"
  shows "acc_val 0 (fst s') (v + (\<Sum>i\<leftarrow>is. peval (cs i) (xi index)))
    \<and> pt_val S (snd s') (w + (\<Sum>i\<leftarrow>is. hd (cs i)))"
  using com loop start
proof (induction "is" arbitrary: s v w)
  case (Cons i js)
  from Cons.prems(2) obtain s1 where s1: "finalize_step C S index packages shares i s = Ok s1"
    "rfold (finalize_step C S index packages shares) js s1 = Ok s'" by (auto simp: res_simps)
  obtain ds pkg where d: "0 \<notin> set ds" "ds \<noteq> []" "find (\<lambda>p. r1_index p = i) packages = Some pkg"
    "r1_commitment pkg = map (point S) ds"
    "peval ds (xi index) \<noteq> 0" "add_secret S (enc (peval ds (xi index))) (fst s) = Ok (fst s1)"
    "add_point S (point S (hd ds)) (snd s) = Ok (snd s1)"
    using finalize_step_Ok [OF laws s1(1)] by blast
  have ds: "ds = cs i" using committed_fun [OF laws _ d(3,4,1)] Cons.prems(1) by simp
  have h: "hd (cs i) \<noteq> 0" using d(1,2) ds by (metis hd_in_set)
  have "acc_val 0 (fst s1) (v + peval (cs i) (xi index))" "pt_val S (snd s1) (w + hd (cs i))"
    using add_secret_val [OF laws Cons.prems(3) d(5,6)] add_point_val [OF laws Cons.prems(4) _ d(7)] h
    by (simp_all add: ds)
  with Cons.IH [OF _ s1(2), of "v + peval (cs i) (xi index)" "w + hd (cs i)"] Cons.prems(1)
  show ?case by (simp add: add.assoc)
qed simp

lemma finalize_committed:
  assumes laws: "secp_laws C S" and loop: "rfold (finalize_step C S index packages shares) is s = Ok s'"
  shows "\<exists>cs. \<forall>i\<in>set is. committed S packages cs i"
proof -
  have "\<forall>i\<in>set is. \<exists>ds. committed S packages (\<lambda>_. ds) i"
    using loop
  proof (induction "is" arbitrary: s)
    case (Cons i js)
    then obtain s1 where s1: "finalize_step C S index packages shares i s = Ok s1"
      "rfold (finalize_step C S index packages shares) js s1 = Ok s'" by (auto simp: res_simps)
    have "\<exists>ds. committed S packages (\<lambda>_. ds) i"
      by (rule finalize_step_Ok [OF laws s1(1)]) (auto simp: committed_def)
    with Cons.IH [OF s1(2)] show ?case by simp
  qed simp
  then obtain cs where "\<forall>i\<in>set is. committed S packages (\<lambda>_. cs i) i" by metis
  then show ?thesis by (auto simp: committed_def)
qed

text \<open>The shared polynomial: the sum of what the dealers committed to.\<close>

fun padd :: "zn list \<Rightarrow> zn list \<Rightarrow> zn list" where
  "padd [] ds = ds"
| "padd cs [] = cs"
| "padd (c # cs) (d # ds) = (c + d) # padd cs ds"

lemma peval_padd: "peval (padd cs ds) x = peval cs x + peval ds x"
  by (induction cs ds rule: padd.induct) (simp_all add: algebra_simps)

lemma length_padd: "length (padd cs ds) = max (length cs) (length ds)"
  by (induction cs ds rule: padd.induct) simp_all

definition joint :: "(u16 \<Rightarrow> zn list) \<Rightarrow> u16 list \<Rightarrow> zn list" where
  "joint cs is = foldr (\<lambda>i. padd (cs i)) is []"

lemma peval_joint: "peval (joint cs is) x = (\<Sum>i\<leftarrow>is. peval (cs i) x)"
  by (induction "is") (simp_all add: joint_def peval_padd)

lemma length_joint: "(\<And>i. i \<in> set is \<Longrightarrow> length (cs i) \<le> k) \<Longrightarrow> length (joint cs is) \<le> k"
  by (induction "is") (simp_all add: joint_def length_padd)

lemma peval_at_0: "cs \<noteq> [] \<Longrightarrow> peval cs 0 = hd cs"
  by (cases cs) simp_all

definition shares_of :: "secp \<Rightarrow> zn list \<Rightarrow> KeyShare \<Rightarrow> bool" where
  "shares_of S F key \<longleftrightarrow>
     peval F 0 \<noteq> 0 \<and> peval F (xi (ks_index key)) \<noteq> 0 \<and> ks_x key = enc (peval F (xi (ks_index key)))
     \<and> ks_group_pubkey key = pk_xonly S (point S (peval F 0)) \<and> ks_pk_odd key = pk_odd S (point S (peval F 0))"

lemma finalize_shares:
  assumes laws: "secp_laws C S" and com: "\<And>i. i \<in> set (dealers n) \<Longrightarrow> committed S packages cs i"
    and ok: "finalize_key C S index n t packages shares = Ok key"
  shows "ks_index key = index \<and> ks_n key = n \<and> ks_t key = t \<and> shares_of S (joint cs (dealers n)) key"
proof -
  obtain x pk where r: "rfold (finalize_step C S index packages shares) (dealers n) (None, None) = Ok (Some x, Some pk)"
    "key = \<lparr>ks_index = index, ks_n = n, ks_t = t, ks_x = x, ks_group_pubkey = pk_xonly S pk, ks_pk_odd = pk_odd S pk\<rparr>"
    using ok by (auto simp: finalize_key_def dealers_def res_simps split: if_splits)
  have "(\<Sum>i\<leftarrow>dealers n. hd (cs i)) = (\<Sum>i\<leftarrow>dealers n. peval (cs i) 0)"
    using com by (intro arg_cong [where f = sum_list] map_cong refl) (auto simp: committed_def peval_at_0)
  with finalize_loop [OF laws com r(1), of 0 0] show ?thesis
    by (simp add: r(2) shares_of_def acc_Some peval_joint)
qed

section \<open>Threshold signatures\<close>

lemma check_quorum_loop:
  "rfold (\<lambda>(i, j) _. if j = 0 \<or> j > n \<or> j \<in> set (take i quorum) then Err BadQuorum else Ok ())
     (enumerate k (drop k quorum)) () = (Ok () :: (FrostError, unit) res)
   \<longleftrightarrow> (\<forall>i. k \<le> i \<and> i < length quorum \<longrightarrow> quorum ! i \<noteq> 0 \<and> quorum ! i \<le> n \<and> quorum ! i \<notin> set (take i quorum))"
  for n :: u16
proof (induction "length quorum - k" arbitrary: k)
  case 0
  then show ?case by simp
next
  case (Suc l)
  then have k: "k < length quorum" "l = length quorum - Suc k" by simp_all
  have drop: "drop k quorum = quorum ! k # drop (Suc k) quorum" using k(1) by (simp add: Cons_nth_drop_Suc)
  have all: "(\<forall>i. k \<le> i \<and> i < length quorum \<longrightarrow> P i) \<longleftrightarrow> P k \<and> (\<forall>i. Suc k \<le> i \<and> i < length quorum \<longrightarrow> P i)" for P
    using k(1) by (metis Suc_leD Suc_leI le_neq_implies_less order_refl)
  show ?case
    unfolding drop enumerate_simps rfold.simps all [of "\<lambda>i. quorum ! i \<noteq> 0 \<and> quorum ! i \<le> n \<and> quorum ! i \<notin> set (take i quorum)"]
      Suc.hyps(1) [OF k(2), symmetric]
    by (auto dest: leD intro: leI)
qed

lemma distinct_take: "distinct xs \<longleftrightarrow> (\<forall>i < length xs. xs ! i \<notin> set (take i xs))"
  by (auto simp: distinct_conv_nth in_set_conv_nth) (metis linorder_neqE_nat order_less_trans)

lemma check_quorum_Ok [res_simps]:
  "check_quorum quorum n t = Ok u \<longleftrightarrow>
     unat t \<le> length quorum \<and> distinct quorum \<and> (\<forall>j\<in>set quorum. j \<noteq> 0 \<and> j \<le> n)"
proof -
  have "check_quorum quorum n t = Ok () \<longleftrightarrow> unat t \<le> length quorum
      \<and> (\<forall>i < length quorum. quorum ! i \<noteq> 0 \<and> quorum ! i \<le> n \<and> quorum ! i \<notin> set (take i quorum))"
    using check_quorum_loop [of n quorum 0] by (auto simp: check_quorum_def)
  then show ?thesis by (auto simp: distinct_take all_set_conv_all_nth)
qed

lemma find_map_index: "\<lbrakk>j \<in> set js; \<And>j. j \<in> set js \<Longrightarrow> f (g j) = j\<rbrakk> \<Longrightarrow> find (\<lambda>c. f c = j) (map g js) = Some (g j)"
  by (induction js) auto

lemma map_index_fun:
  assumes "distinct (map f xs)"
  obtains g where "xs = map g (map f xs)" "\<And>j. j \<in> f ` set xs \<Longrightarrow> f (g j) = j"
proof (rule that)
  have inj: "inj_on f (set xs)" using assms by (simp add: distinct_map)
  show "xs = map (inv_into (set xs) f) (map f xs)" using inj by (simp add: map_idI)
  show "f (inv_into (set xs) f j) = j" if "j \<in> f ` set xs" for j using that by (rule f_inv_into_f)
qed

lemma rmap_map: "rmap f (map g xs) = rmap (\<lambda>x. f (g x)) xs"
  by (induction xs) simp_all

lemma rmap_funI: "rmap f xs = Ok ys \<Longrightarrow> distinct xs \<Longrightarrow> \<exists>h. ys = map h xs \<and> (\<forall>x\<in>set xs. f x = Ok (h x))"
proof (induction xs arbitrary: ys)
  case (Cons x xs)
  then obtain y zs where y: "f x = Ok y" "rmap f xs = Ok zs" "ys = y # zs" by (auto simp: res_simps)
  from Cons.IH [OF y(2)] Cons.prems obtain h where "zs = map h xs" "\<forall>x\<in>set xs. f x = Ok (h x)" by auto
  then show ?case using Cons.prems(2) y by (intro exI [of _ "h(x := y)"]) auto
qed simp

text \<open>The two nonces of a signer for a digit.\<close>

definition hid :: "crypto \<Rightarrow> bytes \<Rightarrow> u16 \<Rightarrow> Signer \<Rightarrow> zn" where
  "hid C ev i s = val (rail_tagged_hash C ''SatUSD/frost/hiding-nonce/v1'' (bs (sg_nonce_seed s) @ ev @ to_be i))"

definition bnd :: "crypto \<Rightarrow> bytes \<Rightarrow> u16 \<Rightarrow> Signer \<Rightarrow> zn" where
  "bnd C ev i s = val (rail_tagged_hash C ''SatUSD/frost/binding-nonce/v1'' (bs (sg_nonce_seed s) @ ev @ to_be i))"

lemma nonce_pair_Ok:
  assumes laws: "secp_laws C S" and ok: "nonce_pair C S (sg_nonce_seed s) ev i = (Ok p :: ('e, _) res)"
  shows "hid C ev i s \<noteq> 0 \<and> bnd C ev i s \<noteq> 0 \<and> p = (enc (hid C ev i s), enc (bnd C ev i s))"
  using ok sk_okD [OF laws] by (auto simp: nonce_pair_def res_simps hid_def bnd_def Let_def)

lemma nonce_pair_any:
  "nonce_pair C S seed ev i = (Ok p :: ('e, _) res) \<longleftrightarrow> nonce_pair C S seed ev i = (Ok p :: ('f, _) res)"
  by (auto simp: nonce_pair_def res_simps Let_def)

lemma nonce_commitment_Ok:
  assumes laws: "secp_laws C S" and ok: "nonce_commitment C S s ts = (Ok c :: ('e, _) res)"
  shows "nc_index c = ks_index (sg_key s)" "length (nc_digits c) = 20"
    and "i < 20 \<Longrightarrow> hid C (event_id ts) (word_of_nat i) s \<noteq> 0 \<and> bnd C (event_id ts) (word_of_nat i) s \<noteq> 0
      \<and> nonce_pair C S (sg_nonce_seed s) (event_id ts) (word_of_nat i)
          = (Ok (enc (hid C (event_id ts) (word_of_nat i) s), enc (bnd C (event_id ts) (word_of_nat i) s)) :: (FrostError, _) res)
      \<and> nc_digits c ! i = (point S (hid C (event_id ts) (word_of_nat i) s), point S (bnd C (event_id ts) (word_of_nat i) s))"
proof -
  obtain ds where c: "c = \<lparr>nc_index = ks_index (sg_key s), nc_digits = ds\<rparr>"
    and ds: "list_all2 (\<lambda>i y. rbind (nonce_pair C S (sg_nonce_seed s) (event_id ts) (word_of_nat i)) (\<lambda>(d, e).
          Ok (pk_of S d, pk_of S e)) = (Ok y :: ('e, _) res)) [0 ..< unat NB_DIGITS] ds"
    using ok by (auto simp: nonce_commitment_def res_simps rmap_Ok Let_def)
  show "nc_index c = ks_index (sg_key s)" "length (nc_digits c) = 20"
    using ds by (auto simp: c NB_DIGITS_def dest: list_all2_lengthD)
  assume "i < 20"
  then obtain p where p: "nonce_pair C S (sg_nonce_seed s) (event_id ts) (word_of_nat i) = (Ok p :: ('e, _) res)"
    "nc_digits c ! i = (pk_of S (fst p), pk_of S (snd p))"
    using ds by (fastforce simp: c NB_DIGITS_def list_all2_conv_all_nth res_simps)
  have q: "nonce_pair C S (sg_nonce_seed s) (event_id ts) (word_of_nat i) = (Ok p :: (FrostError, _) res)"
    using p(1) by (rule nonce_pair_any [THEN iffD1])
  show "hid C (event_id ts) (word_of_nat i) s \<noteq> 0 \<and> bnd C (event_id ts) (word_of_nat i) s \<noteq> 0
      \<and> nonce_pair C S (sg_nonce_seed s) (event_id ts) (word_of_nat i)
          = (Ok (enc (hid C (event_id ts) (word_of_nat i) s), enc (bnd C (event_id ts) (word_of_nat i) s)) :: (FrostError, _) res)
      \<and> nc_digits c ! i = (point S (hid C (event_id ts) (word_of_nat i) s), point S (bnd C (event_id ts) (word_of_nat i) s))"
    using nonce_pair_Ok [OF laws p(1)] p(2) q by (auto simp: pk_of_enc)
qed

lemma unat_digit: "i < 20 \<Longrightarrow> unat (word_of_nat i :: u16) = i"
  by (simp add: unat_of_nat)

lemma rmap_const_fun: "(\<And>x. x \<in> set xs \<Longrightarrow> f x = Ok (h x)) \<Longrightarrow> rmap f xs = Ok (map h xs)"
  by (induction xs) simp_all

lemma quorum_commitments_Ok:
  assumes laws: "secp_laws C S" and i: "i < 20"
    and cm: "\<And>j. j \<in> set quorum \<Longrightarrow> nc_index (cm j) = j \<and> length (nc_digits (cm j)) = 20
      \<and> nc_digits (cm j) ! i = (point S (D j), point S (E j)) \<and> D j \<noteq> 0 \<and> E j \<noteq> 0"
  shows "quorum_commitments S quorum (map cm quorum) (word_of_nat i)
    = Ok (map (\<lambda>j. (point S (D j), point S (E j))) quorum)"
  unfolding quorum_commitments_def
proof (rule rmap_const_fun)
  fix j
  assume j: "j \<in> set quorum"
  have "find (\<lambda>c. nc_index c = j) (map cm quorum) = Some (cm j)"
    using j cm by (intro find_map_index) auto
  then show "rbind (ok_or (find (\<lambda>c. nc_index c = j) (map cm quorum)) MissingMessage) (\<lambda>c.
       rbind (ok_or (get_at (nc_digits c) (unat (word_of_nat i :: u16))) MissingMessage) (\<lambda>(d, e).
       rbind (crypto_err (public_key S d)) (\<lambda>d.
       rbind (crypto_err (public_key S e)) (\<lambda>e.
       Ok (d, e))))) = Ok (point S (D j), point S (E j))"
    using cm [OF j] i laws
    by (simp add: unat_digit get_at_def public_key_def pk_ok_point crypto_err_def)
qed

text \<open>What the shares of one digit add up to.\<close>

lemma shares_sum:
  assumes Q: "distinct quorum" "inverses xi iv (set quorum)" "length F \<le> length quorum"
  shows "(\<Sum>j\<leftarrow>quorum. sg o1 (R j) + sg o2 (lagrange xi iv (set quorum) j * peval F (xi j) * e))
    = sg o1 (\<Sum>j\<leftarrow>quorum. R j) + e * sg o2 (peval F 0)"
proof -
  have lin: "(\<Sum>j\<leftarrow>js. sg b (f j)) = sg b (\<Sum>j\<leftarrow>js. f j)" for b f and js :: "u16 list"
    by (induction js) (simp_all add: sg_def)
  have "(\<Sum>j\<leftarrow>quorum. lagrange xi iv (set quorum) j * peval F (xi j) * e)
      = (\<Sum>j\<in>set quorum. lagrange xi iv (set quorum) j * peval F (xi j)) * e"
    using Q(1) by (simp add: sum_list_distinct_conv_sum_set sum_distrib_right)
  also have "\<dots> = peval F 0 * e"
    using lagrange_at_0 [OF _ Q(2), of F] Q(1,3) by (simp add: distinct_card)
  finally have "(\<Sum>j\<leftarrow>quorum. sg o1 (R j) + sg o2 (lagrange xi iv (set quorum) j * peval F (xi j) * e))
      = sg o1 (\<Sum>j\<leftarrow>quorum. R j) + sg o2 (peval F 0 * e)"
    by (simp only: sum_list_addf lin)
  moreover have "sg o2 (peval F 0 * e) = e * sg o2 (peval F 0)" by (simp add: sg_def mult.commute)
  ultimately show ?thesis by (simp only:)
qed

lemma sig_share_Ok:
  assumes "sig_share C S s ts price quorum commits = Ok sh"
  obtains pos lam where "distinct quorum" "ks_index (sg_key s) \<in> set quorum"
    "pos < length quorum" "quorum ! pos = ks_index (sg_key s)"
    "lagrange_at_zero S (ks_index (sg_key s)) quorum = Ok lam"
    "ss_index sh = ks_index (sg_key s)" "length (ss_digits sh) = 20"
    "\<And>i. i < 20 \<Longrightarrow> sign_digit C S s (event_id ts) (ks_group_pubkey (sg_key s)) pos lam (ks_x (sg_key s)) quorum commits
        (word_of_nat i) (digits price ! i) = Ok (ss_digits sh ! i)"
proof -
  from assms obtain pos lam zs where ok: "distinct quorum" "position (ks_index (sg_key s)) quorum = Some pos"
    "lagrange_at_zero S (ks_index (sg_key s)) quorum = Ok lam"
    "list_all2 (\<lambda>(i, d) z. sign_digit C S s (event_id ts) (ks_group_pubkey (sg_key s)) pos lam (ks_x (sg_key s)) quorum commits
        (word_of_nat i) d = Ok z) (enumerate 0 (digits price)) zs"
    "sh = \<lparr>ss_index = ks_index (sg_key s), ss_digits = zs\<rparr>"
    by (auto simp: sig_share_def res_simps rmap_Ok Let_def case_prod_unfold)
  show thesis
  proof (rule that [OF ok(1) _ _ _ ok(3)])
    show "ks_index (sg_key s) \<in> set quorum" "pos < length quorum" "quorum ! pos = ks_index (sg_key s)"
      using position_nth [OF ok(2)] nth_mem by force+
    show "ss_index sh = ks_index (sg_key s)" "length (ss_digits sh) = 20"
      using ok(4,5) by (auto dest: list_all2_lengthD)
    show "sign_digit C S s (event_id ts) (ks_group_pubkey (sg_key s)) pos lam (ks_x (sg_key s)) quorum commits
        (word_of_nat i) (digits price ! i) = Ok (ss_digits sh ! i)" if "i < 20" for i
      using ok(4,5) that by (auto simp: list_all2_conv_all_nth nth_enumerate_eq)
  qed
qed

text \<open>
  One digit of the aggregate attestation, from key shares on one polynomial of as many coefficients
  as the quorum has members at most.
\<close>

lemma aggregate_digit_verifies:
  assumes laws: "secp_laws C S" and quorum: "quorum = map (\<lambda>s. ks_index (sg_key s)) signers" "distinct quorum" "quorum \<noteq> []"
    and keys: "\<And>s. s \<in> set signers \<Longrightarrow> shares_of S F (sg_key s)" "length F \<le> length quorum" "quorum_units quorum"
    and commits: "rmap (\<lambda>s. nonce_commitment C S s ts) signers = (Ok commits :: (FrostError, _) res)"
    and shares: "rmap (\<lambda>s. sig_share C S s ts price quorum commits) signers = Ok shares"
    and sig: "aggregate_digit C S (event_id ts) quorum commits shares i = Ok g" and i: "i < 20"
  shows "bip340_verify S g (attestation_msg C (digits price ! i)) (pk_xonly S (point S (peval F 0)))
    \<and> (\<exists>des R rhos. quorum_commitments S quorum commits (word_of_nat i) = Ok des
        \<and> nonce_session C S (event_id ts) (word_of_nat i) quorum des = Ok (R, rhos) \<and> sig_r g = pk_xonly S R)"
proof -
  obtain f where f: "signers = map f quorum" "\<And>j. j \<in> set quorum \<Longrightarrow> ks_index (sg_key (f j)) = j"
    using map_index_fun [OF quorum(2) [unfolded quorum(1)]] unfolding quorum(1) by auto
  let ?px = "pk_xonly S (point S (peval F 0))" and ?m = "attestation_msg C (digits price ! i)"
  have key: "ks_group_pubkey (sg_key (f j)) = ?px \<and> ks_x (sg_key (f j)) = enc (peval F (xi j))
      \<and> ks_pk_odd (sg_key (f j)) = pk_odd S (point S (peval F 0)) \<and> peval F 0 \<noteq> 0" if "j \<in> set quorum" for j
    using keys(1) [of "f j"] f(2) [OF that] that f(1) by (simp add: shares_of_def)
  obtain cm where cm: "commits = map cm quorum" "\<And>j. j \<in> set quorum \<Longrightarrow> nonce_commitment C S (f j) ts = (Ok (cm j) :: (FrostError, _) res)"
    using rmap_funI [OF commits [unfolded f(1) rmap_map] quorum(2)] by blast
  obtain sh where sh: "shares = map sh quorum" "\<And>j. j \<in> set quorum \<Longrightarrow> sig_share C S (f j) ts price quorum commits = Ok (sh j)"
    using rmap_funI [OF shares [unfolded f(1) rmap_map] quorum(2)] by blast
  define D where "D j = hid C (event_id ts) (word_of_nat i) (f j)" for j
  define E where "E j = bnd C (event_id ts) (word_of_nat i) (f j)" for j
  have nz: "j \<in> set quorum \<Longrightarrow> D j \<noteq> 0 \<and> E j \<noteq> 0" for j
    using nonce_commitment_Ok(3) [OF laws cm(2) i] by (simp add: D_def E_def)
  have own: "j \<in> set quorum \<Longrightarrow> nonce_pair C S (sg_nonce_seed (f j)) (event_id ts) (word_of_nat i)
      = (Ok (enc (D j), enc (E j)) :: (FrostError, _) res)" for j
    using nonce_commitment_Ok(3) [OF laws cm(2) i] by (simp add: D_def E_def)
  let ?des = "map (\<lambda>j. (point S (D j), point S (E j))) quorum"
  have des: "quorum_commitments S quorum commits (word_of_nat i) = Ok ?des"
    unfolding cm(1) using nonce_commitment_Ok [OF laws cm(2)] nz i f(2)
    by (intro quorum_commitments_Ok [OF laws i]) (simp add: D_def E_def)
  obtain R rhos z where ag: "nonce_session C S (event_id ts) (word_of_nat i) quorum ?des = Ok (R, rhos)"
    "rfold (add_share S shares i) quorum None = Ok (Some z)" "g = sig_of (pk_xonly S R) z"
    using sig by (auto simp: aggregate_digit_def des res_simps)
  define b where "b = encode_commitment_set (event_id ts) (word_of_nat i) quorum ?des"
  let ?Rj = "\<lambda>j. D j + rho C b j * E j" and ?l = "lagrange xi index_inverse (set quorum)"
  let ?e = "chal C (pk_xonly S R) ?px ?m"
  note session = nonce_session_Ok [OF laws nz refl ag(1) b_def]
  define zj where "zj j = sg (pk_odd S R) (?Rj j) + sg (pk_odd S (point S (peval F 0))) (?l j * peval F (xi j) * ?e)" for j
  have share: "find (\<lambda>s. ss_index s = j) shares = Some (sh j) \<and> i < length (ss_digits (sh j))
      \<and> ss_digits (sh j) ! i = enc (zj j) \<and> zj j \<noteq> 0" if j: "j \<in> set quorum" for j
  proof -
    obtain pos lam where p: "pos < length quorum" "quorum ! pos = j" "lagrange_at_zero S j quorum = Ok lam"
      "length (ss_digits (sh j)) = 20"
      "sign_digit C S (f j) (event_id ts) ?px pos lam (enc (peval F (xi j))) quorum commits (word_of_nat i) (digits price ! i)
        = Ok (ss_digits (sh j) ! i)"
      using sig_share_Ok [OF sh(2) [OF j]] key [OF j] f(2) [OF j] i by metis
    have idx: "ss_index (sh k) = k" if "k \<in> set quorum" for k
      using sig_share_Ok [OF sh(2) [OF that]] f(2) [OF that] by metis
    note lam = lagrange_at_zero_Ok [OF laws quorum(2) j keys(3) p(3)]
    from sign_digit_Ok [OF laws nz des refl ag(1) b_def p(1,2) own [OF j] lam(2) p(5) [unfolded lam(1)]]
    have "ss_digits (sh j) ! i = enc (zj j)" "zj j \<noteq> 0" using key [OF j] by (simp_all add: zj_def)
    moreover have "find (\<lambda>s. ss_index s = j) shares = Some (sh j)"
      unfolding sh(1) by (rule find_map_index [of j quorum ss_index sh]) (use j idx in auto)
    ultimately show ?thesis using p(4) i by simp
  qed
  have z: "z = enc (\<Sum>j\<leftarrow>quorum. zj j)"
    using add_share_loop [OF laws _ ag(2), of zj 0] share by (auto simp: acc_Some)
  obtain q where q: "q \<in> set quorum" using quorum(3) by (cases quorum) auto
  have "(\<Sum>j\<leftarrow>quorum. zj j) = sg (pk_odd S R) (\<Sum>j\<leftarrow>quorum. ?Rj j) + ?e * sg (pk_odd S (point S (peval F 0))) (peval F 0)"
    unfolding zj_def by (rule shares_sum [OF quorum(2) quorum_inverses [OF keys(3)] keys(2)])
  also have "\<dots> = even_of S (\<Sum>j\<leftarrow>quorum. ?Rj j) + ?e * even_of S (peval F 0)"
    by (simp only: even_sg session(1))
  finally have "g = sig_of (pk_xonly S R) (enc (even_of S (\<Sum>j\<leftarrow>quorum. ?Rj j) + ?e * even_of S (peval F 0)))"
    by (simp only: ag(3) z)
  moreover have "bip340_verify S \<dots> ?m ?px"
    using key [OF q] session(2) laws
    by (intro signed_verifies [OF laws]) (simp_all add: session(1) xonly_even_of)
  ultimately show ?thesis using des ag(1) by auto
qed

lemma nonce_session_Nil [simp]: "nonce_session C S ev i [] des \<noteq> Ok p"
  by (cases p) (simp add: nonce_session_def res_simps Let_def)

lemma aggregate_attestation_Ok:
  assumes "aggregate_attestation C S px ts price quorum commits shares = Ok at"
  shows "quorum \<noteq> []" "length (at_signatures at) = 20"
    "i < 20 \<Longrightarrow> aggregate_digit C S (event_id ts) quorum commits shares i = Ok (at_signatures at ! i)"
proof -
  have l: "list_all2 (\<lambda>i g. aggregate_digit C S (event_id ts) quorum commits shares i = Ok g) [0 ..< 20] (at_signatures at)"
    using assms by (auto simp: aggregate_attestation_def res_simps rmap_Ok Let_def)
  show "length (at_signatures at) = 20" using l by (auto dest: list_all2_lengthD)
  have d: "aggregate_digit C S (event_id ts) quorum commits shares i = Ok (at_signatures at ! i)" if "i < 20" for i
    using l that by (auto simp: list_all2_conv_all_nth)
  show "i < 20 \<Longrightarrow> aggregate_digit C S (event_id ts) quorum commits shares i = Ok (at_signatures at ! i)" by (rule d)
  show "quorum \<noteq> []" using d [of 0] by (auto simp: aggregate_digit_def res_simps)
qed

lemma aggregate_announcement_nth:
  assumes "aggregate_announcement C S px ts quorum commits = Ok an" and "i < 20"
    and "quorum_commitments S quorum commits (word_of_nat i) = Ok des"
      "nonce_session C S (event_id ts) (word_of_nat i) quorum des = Ok (R, rhos)"
  shows "an_nonce_points an ! i = pk_xonly S R"
  using assms
  by (fastforce simp: aggregate_announcement_def res_simps rmap_Ok Let_def NB_DIGITS_def list_all2_conv_all_nth)

text \<open>Members whose keys were finalised from the same packages.\<close>

definition same_dkg :: "crypto \<Rightarrow> secp \<Rightarrow> u16 \<Rightarrow> u16 \<Rightarrow> Round1Package list \<Rightarrow> Signer list \<Rightarrow> bool" where
  "same_dkg C S n t packages signers \<longleftrightarrow>
     (\<forall>s\<in>set signers. \<exists>shares. finalize_key C S (ks_index (sg_key s)) n t packages shares = Ok (sg_key s))"

lemma finalize_key_loop:
  assumes "finalize_key C S index n t packages shares = Ok key"
  obtains s where "rfold (finalize_step C S index packages shares) (dealers n) (None, None) = Ok s"
  using assms by (auto simp: finalize_key_def dealers_def res_simps split: if_splits)

lemma committed_length:
  assumes "committed S packages cs i" and "\<And>p. p \<in> set packages \<Longrightarrow> length (r1_commitment p) \<le> k"
  shows "length (cs i) \<le> k"
proof -
  obtain pkg where "find (\<lambda>p. r1_index p = i) packages = Some pkg" "r1_commitment pkg = map (point S) (cs i)"
    using assms(1) by (auto simp: committed_def)
  then show ?thesis using assms(2) [of pkg] by (auto simp: find_Some_iff)
qed

lemma same_dkg_shares:
  assumes laws: "secp_laws C S" and dkg: "same_dkg C S n t packages signers" and "signers \<noteq> []"
    and len: "\<And>p. p \<in> set packages \<Longrightarrow> length (r1_commitment p) \<le> k"
  obtains F where "length F \<le> k" "\<And>s. s \<in> set signers \<Longrightarrow> shares_of S F (sg_key s) \<and> ks_n (sg_key s) = n \<and> ks_t (sg_key s) = t"
proof -
  obtain s0 shares where s0: "s0 \<in> set signers" "finalize_key C S (ks_index (sg_key s0)) n t packages shares = Ok (sg_key s0)"
    using dkg assms(3) unfolding same_dkg_def by (meson last_in_set)
  obtain r where "rfold (finalize_step C S (ks_index (sg_key s0)) packages shares) (dealers n) (None, None) = Ok r"
    using finalize_key_loop [OF s0(2)] .
  then obtain cs where cs: "\<And>i. i \<in> set (dealers n) \<Longrightarrow> committed S packages cs i"
    using finalize_committed [OF laws] by blast
  show thesis
  proof (rule that)
    have "length (cs i) \<le> k" if "i \<in> set (dealers n)" for i
      using committed_length [OF cs [OF that] len] .
    then show "length (joint cs (dealers n)) \<le> k" by (rule length_joint)
    fix s
    assume "s \<in> set signers"
    then obtain sh where "finalize_key C S (ks_index (sg_key s)) n t packages sh = Ok (sg_key s)"
      using dkg by (auto simp: same_dkg_def)
    from finalize_shares [OF laws cs this]
    show "shares_of S (joint cs (dealers n)) (sg_key s) \<and> ks_n (sg_key s) = n \<and> ks_t (sg_key s) = t" by blast
  qed
qed

text \<open>The quorum's aggregate is one oracle's attestation under the group key.\<close>

lemma quorum_attests:
  assumes laws: "secp_laws C S" and quorum: "quorum = map (\<lambda>s. ks_index (sg_key s)) signers" "quorum_units quorum"
    and dkg: "same_dkg C S n t packages signers" "\<And>p. p \<in> set packages \<Longrightarrow> length (r1_commitment p) \<le> length quorum"
    and commits: "rmap (\<lambda>s. nonce_commitment C S s ts) signers = (Ok commits :: (FrostError, _) res)"
    and shares: "rmap (\<lambda>s. sig_share C S s ts price quorum commits) signers = Ok shares"
    and at: "aggregate_attestation C S px ts price quorum commits shares = Ok at"
    and i: "i < 20" and s: "s \<in> set signers"
  shows "bip340_verify S (at_signatures at ! i) (attestation_msg C (digits price ! i)) (ks_group_pubkey (sg_key s))"
    and "aggregate_announcement C S px ts quorum commits = Ok an \<Longrightarrow> sig_r (at_signatures at ! i) = an_nonce_points an ! i"
proof -
  note at = aggregate_attestation_Ok [OF at]
  obtain sh where "sig_share C S s ts price quorum commits = Ok sh"
    using shares s by (auto simp: rmap_Ok list_all2_conv_all_nth in_set_conv_nth)
  then have dist: "distinct quorum" by (rule sig_share_Ok)
  obtain F where F: "length F \<le> length quorum" "\<And>s. s \<in> set signers \<Longrightarrow> shares_of S F (sg_key s)"
    using same_dkg_shares [OF laws dkg(1) _ dkg(2)] s by (metis empty_iff list.set(1))
  have v: "bip340_verify S (at_signatures at ! i) (attestation_msg C (digits price ! i)) (pk_xonly S (point S (peval F 0)))
    \<and> (\<exists>des R rhos. quorum_commitments S quorum commits (word_of_nat i) = Ok des
        \<and> nonce_session C S (event_id ts) (word_of_nat i) quorum des = Ok (R, rhos)
        \<and> sig_r (at_signatures at ! i) = pk_xonly S R)"
    using aggregate_digit_verifies [OF laws quorum(1) dist at(1) F(2) F(1) quorum(2) commits shares at(3) [OF i] i] by blast
  then show "bip340_verify S (at_signatures at ! i) (attestation_msg C (digits price ! i)) (ks_group_pubkey (sg_key s))"
    using F(2) [OF s] by (simp add: shares_of_def)
  show "aggregate_announcement C S px ts quorum commits = Ok an \<Longrightarrow> sig_r (at_signatures at ! i) = an_nonce_points an ! i"
    using v aggregate_announcement_nth [OF _ i] by metis
qed

section \<open>The cohort in one process\<close>

lemma dealer_new_Ok:
  assumes "dealer_new C S index n t seed = Ok d"
  shows "dl_index d = index" "length (dl_commitment d) = unat t" "t \<noteq> 0" "t \<le> n"
  using assms by (auto simp: dealer_new_def res_simps rmap_Ok Let_def split: if_splits dest: list_all2_lengthD)

lemma finalize_key_index: "finalize_key C S index n t packages shares = Ok key \<Longrightarrow> ks_index key = index"
  by (auto simp: finalize_key_def res_simps split: if_splits)

lemma keygen_Ok:
  assumes "keygen C S n t seed = Ok co"
  obtains ds where "list_all2 (\<lambda>i d. dealer_new C S (word_of_nat i) n t seed = Ok d) [1 ..< unat n + 1] ds"
    "list_all2 (\<lambda>d s. finalize_member C S n t ds d = Ok s) ds (co_signers co)"
    "co_n co = n" "co_t co = t" "co_signers co \<noteq> []" "co_group_pubkey co = ks_group_pubkey (sg_key (hd (co_signers co)))"
  using assms
  by (auto simp: keygen_def res_simps rmap_Ok get_at_def hd_conv_nth split: if_splits)

lemma keygen_members:
  assumes laws: "secp_laws C S" and kg: "keygen C S n t seed = Ok co"
  obtains packages where "same_dkg C S n t packages (co_signers co)"
    "\<And>p. p \<in> set packages \<Longrightarrow> length (r1_commitment p) = unat t" "length (co_signers co) = unat n"
    "\<And>k. k < unat n \<Longrightarrow> ks_index (sg_key (co_signers co ! k)) = word_of_nat (k + 1)"
    "\<And>s. s \<in> set (co_signers co) \<Longrightarrow> ks_t (sg_key s) = t \<and> ks_group_pubkey (sg_key s) = co_group_pubkey co"
proof -
  obtain ds where ds: "list_all2 (\<lambda>i d. dealer_new C S (word_of_nat i) n t seed = Ok d) [1 ..< unat n + 1] ds"
    "list_all2 (\<lambda>d s. finalize_member C S n t ds d = Ok s) ds (co_signers co)"
    "co_n co = n" "co_t co = t" "co_signers co \<noteq> []" "co_group_pubkey co = ks_group_pubkey (sg_key (hd (co_signers co)))"
    using keygen_Ok [OF kg] .
  have fin: "\<exists>sh. finalize_key C S (dl_index d) n t (map round1 ds) sh = Ok (sg_key s) \<and> ks_index (sg_key s) = dl_index d"
    if "finalize_member C S n t ds d = Ok s" for d s
    using that finalize_key_index by (fastforce simp: finalize_member_def res_simps)
  have len: "length ds = unat n" "length (co_signers co) = unat n"
    using list_all2_lengthD [OF ds(1)] list_all2_lengthD [OF ds(2)] by (simp_all del: upt_Suc)
  have dealer: "dealer_new C S (word_of_nat (k + 1)) n t seed = Ok (ds ! k)" if "k < unat n" for k
    using ds(1) that len by (auto simp: list_all2_conv_all_nth nth_append simp del: upt_Suc)
  have member: "finalize_member C S n t ds (ds ! k) = Ok (co_signers co ! k)" if "k < unat n" for k
    using ds(2) that len by (auto simp: list_all2_conv_all_nth)
  have dkg: "same_dkg C S n t (map round1 ds) (co_signers co)"
    unfolding same_dkg_def using fin [OF member] len by (metis in_set_conv_nth)
  have com: "length (r1_commitment p) = unat t" if "p \<in> set (map round1 ds)" for p
    using that dealer_new_Ok(2) [OF dealer] len by (auto simp: round1_def in_set_conv_nth)
  have idx: "ks_index (sg_key (co_signers co ! k)) = word_of_nat (k + 1)" if "k < unat n" for k
    using fin [OF member [OF that]] dealer_new_Ok(1) [OF dealer [OF that]] by auto
  obtain F where F: "\<And>s. s \<in> set (co_signers co) \<Longrightarrow> shares_of S F (sg_key s) \<and> ks_n (sg_key s) = n \<and> ks_t (sg_key s) = t"
    using same_dkg_shares [OF laws dkg ds(5), of "unat t"] com by (metis order_refl)
  have grp: "ks_t (sg_key s) = t \<and> ks_group_pubkey (sg_key s) = co_group_pubkey co" if "s \<in> set (co_signers co)" for s
    using F [OF that] F [OF hd_in_set [OF ds(5)]] ds(6) by (simp add: shares_of_def)
  show thesis by (rule that [OF dkg com len(2) idx grp])
qed

lemma quorum_signers_Ok:
  assumes laws: "secp_laws C S" and kg: "keygen C S n t seed = Ok co" and q: "quorum_signers co quorum = Ok signers"
  shows "quorum = map (\<lambda>s. ks_index (sg_key s)) signers" "set signers \<subseteq> set (co_signers co)" "unat t \<le> length quorum"
proof -
  have len: "length (co_signers co) = unat n"
    and idx: "\<And>k. k < unat n \<Longrightarrow> ks_index (sg_key (co_signers co ! k)) = word_of_nat (k + 1)"
    by (rule keygen_members [OF laws kg], assumption)+
  have "co_n co = n" "co_t co = t" by (rule keygen_Ok [OF kg], assumption)+
  with q have ok: "\<forall>j\<in>set quorum. j \<noteq> 0 \<and> j \<le> n" "unat t \<le> length quorum"
    and get: "list_all2 (\<lambda>j s. get_at (co_signers co) (unat (j - 1)) = Some s) quorum signers"
    by (auto simp: quorum_signers_def res_simps rmap_Ok)
  have at: "signers ! i \<in> set (co_signers co) \<and> ks_index (sg_key (signers ! i)) = quorum ! i" if i: "i < length quorum" for i
  proof -
    let ?j = "quorum ! i"
    have j: "?j \<noteq> 0" using ok(1) i by auto
    have "unat (?j - 1) < unat n" "signers ! i = co_signers co ! unat (?j - 1)"
      using get i len by (auto simp: list_all2_conv_all_nth get_at_def split: if_splits)
    moreover have "word_of_nat (unat (?j - 1) + 1) = ?j" by simp
    ultimately show ?thesis using idx len by simp
  qed
  have l: "length signers = length quorum" using get by (auto dest: list_all2_lengthD)
  show "quorum = map (\<lambda>s. ks_index (sg_key s)) signers" using at l by (auto intro: nth_equalityI)
  show "set signers \<subseteq> set (co_signers co)" using at l by (auto simp: in_set_conv_nth)
  show "unat t \<le> length quorum" by (rule ok(2))
qed

lemma cohort_attests:
  assumes laws: "secp_laws C S" and kg: "keygen C S n t seed = Ok co" and units: "quorum_units quorum"
    and at: "cohort_attest C S co ts price quorum = Ok at" and i: "i < 20"
  shows "bip340_verify S (at_signatures at ! i) (attestation_msg C (digits price ! i)) (co_group_pubkey co)"
    and "cohort_announce C S co ts quorum = Ok an \<Longrightarrow> sig_r (at_signatures at ! i) = an_nonce_points an ! i"
proof -
  obtain signers commits shares where r: "quorum_signers co quorum = Ok signers"
    "rmap (\<lambda>s. nonce_commitment C S s ts) signers = (Ok commits :: (FrostError, _) res)"
    "rmap (\<lambda>s. sig_share C S s ts price quorum commits) signers = Ok shares"
    "aggregate_attestation C S (co_group_pubkey co) ts price quorum commits shares = Ok at"
    using at by (auto simp: cohort_attest_def res_simps)
  note q = quorum_signers_Ok [OF laws kg r(1)]
  obtain packages where k: "same_dkg C S n t packages (co_signers co)"
    "\<And>p. p \<in> set packages \<Longrightarrow> length (r1_commitment p) = unat t" "length (co_signers co) = unat n"
    "\<And>k. k < unat n \<Longrightarrow> ks_index (sg_key (co_signers co ! k)) = word_of_nat (k + 1)"
    "\<And>s. s \<in> set (co_signers co) \<Longrightarrow> ks_t (sg_key s) = t \<and> ks_group_pubkey (sg_key s) = co_group_pubkey co"
    by (rule keygen_members [OF laws kg], rule that)
  have dkg: "same_dkg C S n t packages signers" using k(1) q(2) by (auto simp: same_dkg_def)
  have len: "\<And>p. p \<in> set packages \<Longrightarrow> length (r1_commitment p) \<le> length quorum" using k(2) q(3) by simp
  have "signers \<noteq> []" using aggregate_attestation_Ok(1) [OF r(4)] q(1) by auto
  then have s: "hd signers \<in> set signers" by simp
  note v = quorum_attests [OF laws q(1) units dkg len r(2-4) i s]
  show "bip340_verify S (at_signatures at ! i) (attestation_msg C (digits price ! i)) (co_group_pubkey co)"
    using v(1) k(5) [of "hd signers"] q(2) s by auto
  show "cohort_announce C S co ts quorum = Ok an \<Longrightarrow> sig_r (at_signatures at ! i) = an_nonce_points an ! i"
    using v(2) r(1,2) by (auto simp: cohort_announce_def res_simps)
qed

section \<open>What the protocol does not prevent\<close>

text \<open>A quorum of one passes the check of a threshold of one, but has no Lagrange coefficient.\<close>

lemma lone_signer_refused: "sig_share C S s ts price [j] commits \<noteq> Ok sh"
proof
  assume "sig_share C S s ts price [j] commits = Ok sh"
  then obtain lam where "lagrange_at_zero S (ks_index (sg_key s)) [j] = Ok lam" "ks_index (sg_key s) \<in> set [j]"
    by (rule sig_share_Ok)
  then show False by (auto simp: lagrange_at_zero_def lagrange_step_def res_simps)
qed

text \<open>
  A signer's nonces depend on the event and the digit only. With \<open>\<rho>\<close> and \<open>\<mu>\<close> the public weights of
  its second nonce and of its key share, a share is a linear equation in the two nonces and the key.
\<close>

lemma session_rhos:
  assumes "secp_laws C S" "nonce_session C S ev digit quorum des = Ok (R, rhos)" "length des = length quorum"
  shows "rhos = map (\<lambda>j. enc (rho C (encode_commitment_set ev digit quorum des) j)) quorum"
proof -
  let ?b = "encode_commitment_set ev digit quorum des"
  have "snd s' = snd s @ map (\<lambda>p. enc (rho C ?b (fst p))) ps"
    if "rfold (session_step C S ?b) ps s = Ok s'" for ps s s'
    using that
  proof (induction ps arbitrary: s)
    case (Cons p ps)
    obtain j D E where p: "p = (j, D, E)" using prod_cases3 by blast
    from Cons.prems obtain s1 where s1: "session_step C S ?b p s = Ok s1" "rfold (session_step C S ?b) ps s1 = Ok s'"
      by (auto simp: res_simps)
    then have "snd s1 = snd s @ [enc (rho C ?b j)]"
      by (auto simp: session_step_def p res_simps dest: binding_factor_Ok [OF assms(1)])
    with Cons.IH [OF s1(2)] show ?case by (simp add: p)
  qed simp
  moreover obtain r where "rfold (session_step C S ?b) (zip quorum des) (None, []) = Ok (r, rhos)"
    using assms(2) by (auto simp: nonce_session_def res_simps Let_def)
  ultimately have "rhos = map (\<lambda>p. enc (rho C ?b (fst p))) (zip quorum des)" by fastforce
  also have "\<dots> = map (\<lambda>j. enc (rho C ?b j)) (map fst (zip quorum des))" by simp
  finally show ?thesis using assms(3) by simp
qed

definition share_weights :: "crypto \<Rightarrow> secp \<Rightarrow> bytes \<Rightarrow> u16 \<Rightarrow> u16 list \<Rightarrow> (b33 \<times> b33) list \<Rightarrow> b33 \<Rightarrow> b32 \<Rightarrow> u16 \<Rightarrow> b32 \<Rightarrow> bool \<Rightarrow> u8
    \<Rightarrow> zn \<times> zn" where
  "share_weights C S ev digit quorum des R px j lam neg d =
     (rho C (encode_commitment_set ev digit quorum des) j,
      sg (pk_odd S R) (sg neg (val lam * chal C (pk_xonly S R) px (attestation_msg C d))))"

lemma sign_digit_linear:
  assumes laws: "secp_laws C S"
    and des: "quorum_commitments S quorum commits digit = Ok des" "nonce_session C S ev digit quorum des = Ok (R, rhos)"
    and j: "pos < length quorum" "quorum ! pos = j"
    and own: "nonce_pair C S (sg_nonce_seed s) ev digit = (Ok (enc D, enc E) :: (FrostError, _) res)" "D \<noteq> 0" "E \<noteq> 0"
    and l: "sk_ok S lam" and y: "y \<noteq> 0"
    and ok: "sign_digit C S s ev px pos lam (enc y) quorum commits digit d = Ok z"
    and w: "share_weights C S ev digit quorum des R px j lam (ks_pk_odd (sg_key s)) d = (r, m)"
  shows "sg (pk_odd S R) (val z) = D + r * E + m * y"
proof -
  have len: "length des = length quorum"
    using des(1) by (auto simp: quorum_commitments_def rmap_Ok dest: list_all2_lengthD)
  have r: "get_at rhos pos = Some (enc r)"
    using session_rhos [OF laws des(2) len] j w by (simp add: get_at_def share_weights_def)
  obtain l where lam: "l \<noteq> 0" "lam = enc l" using sk_okE [OF laws l] .
  let ?e = "chal C (pk_xonly S R) px (attestation_msg C d)"
  obtain t eff part kp where c: "sk_mul_tweak S (enc E) (enc r) = Ok t"
    "sk_add_tweak S (enc D) t = Ok eff" "sk_mul_tweak S (enc l) (enc y) = Ok part"
    "sk_mul_tweak S part (enc ?e) = Ok kp"
    "sk_add_tweak S (if pk_odd S R then sk_neg S eff else eff)
      (if ks_pk_odd (sg_key s) then sk_neg S kp else kp) = Ok z"
    using ok by (auto simp: sign_digit_def des own(1) r lam(2) challenge_is [OF laws] res_simps Let_def simp del: guard_Ok_iff)
  have eff: "eff = enc (D + r * E)" "D + r * E \<noteq> 0"
    using c(1,2) own laws by (auto simp: sk_mul_tweak_enc sk_add_tweak_enc mult.commute split: if_splits)
  have kp: "kp = enc (l * y * ?e)" "l * y * ?e \<noteq> 0"
    using c(3,4) lam laws by (auto simp: sk_mul_tweak_enc split: if_splits)
  have "sk_add_tweak S (enc (sg (pk_odd S R) (D + r * E))) (enc (sg (ks_pk_odd (sg_key s)) (l * y * ?e))) = Ok z"
    using c(5) by (simp only: eff(1) kp(1) neg_sg [OF laws eff(2)] neg_sg [OF laws kp(2)])
  then have "val z = sg (pk_odd S R) (D + r * E) + sg (ks_pk_odd (sg_key s)) (l * y * ?e)"
    using laws eff(2) by (auto simp: sk_add_tweak_enc simp del: sg_simps(2,3) split: if_splits)
  moreover have "m = sg (pk_odd S R) (sg (ks_pk_odd (sg_key s)) (l * ?e))"
    using w by (simp add: share_weights_def lam(2))
  ultimately show ?thesis by (simp add: sg_def algebra_simps)
qed

text \<open>
  Three shares of one digit, for three quorums, give the key share: every other term is public.
\<close>

definition digit_share :: "crypto \<Rightarrow> secp \<Rightarrow> Signer \<Rightarrow> bytes \<Rightarrow> u16 \<Rightarrow> u8 \<Rightarrow> b32 \<Rightarrow> u16 list \<Rightarrow> NonceCommitment list
    \<Rightarrow> zn \<Rightarrow> zn \<times> zn \<Rightarrow> bool" where
  "digit_share C S s ev digit d px quorum commits v w \<longleftrightarrow>
     (\<exists>des R rhos pos lam z. quorum_commitments S quorum commits digit = Ok des
        \<and> nonce_session C S ev digit quorum des = Ok (R, rhos)
        \<and> pos < length quorum \<and> quorum ! pos = ks_index (sg_key s) \<and> sk_ok S lam
        \<and> sign_digit C S s ev px pos lam (ks_x (sg_key s)) quorum commits digit d = Ok z
        \<and> v = sg (pk_odd S R) (val z)
        \<and> w = share_weights C S ev digit quorum des R px (ks_index (sg_key s)) lam (ks_pk_odd (sg_key s)) d)"

lemma three_quorums_leak:
  assumes laws: "secp_laws C S" and key: "sk_ok S (ks_x (sg_key s))"
    and own: "nonce_pair C S (sg_nonce_seed s) ev digit = (Ok p :: (FrostError, _) res)"
    and "digit_share C S s ev digit d px q1 c1 v1 (r1, m1)"
    and "digit_share C S s ev digit d px q2 c2 v2 (r2, m2)"
    and "digit_share C S s ev digit d px q3 c3 v3 (r3, m3)"
  shows "val (ks_x (sg_key s)) * ((r1 - r3) * (m1 - m2) - (r1 - r2) * (m1 - m3))
    = (r1 - r3) * (v1 - v2) - (r1 - r2) * (v1 - v3)"
proof -
  note n = nonce_pair_Ok [OF laws own]
  obtain y where y: "y \<noteq> 0" "ks_x (sg_key s) = enc y" using sk_okE [OF laws key] .
  have "v = hid C ev digit s + r * bnd C ev digit s + m * y" if "digit_share C S s ev digit d px q c v (r, m)" for q c v r m
    using that sign_digit_linear [OF laws _ _ _ _ own [unfolded n [THEN conjunct2, THEN conjunct2]] _ _ _ y(1)] n y(2)
    unfolding digit_share_def by metis
  from this [OF assms(4)] this [OF assms(5)] this [OF assms(6)] show ?thesis
    by (simp add: y(2) algebra_simps)
qed

end
