(* ===== verification/Quorum.thy ===== *)
theory Quorum
  imports Threshold
begin

text \<open>
  The properties of threshold attestation and a cohort of two (\<^verbatim>\<open>satusd-oracle/src/frost.rs\<close>,
  \<^verbatim>\<open>Cohort\<close>) run through key generation, announcement and attestation in the instance of the curve
  crate where every hash is one.
\<close>

section \<open>A cohort of two over the instance where every hash is one\<close>

abbreviation US :: secp where "US \<equiv> dlog_secp unit_crypto"

lemmas us = dlog_secp_laws [of unit_crypto]

lemma zn_numeral_0: "(numeral k :: zn) = 0 \<longleftrightarrow> (numeral k :: int) mod order_n = 0"
  by (simp add: zn_eq_iff zrep_numeral)

lemma neg_numeral_0: "(- numeral k :: zn) = 0 \<longleftrightarrow> (numeral k :: int) mod order_n = 0"
  using zn_numeral_0 by simp

lemmas unit_ops = sk_mul_tweak_enc [OF us] sk_add_tweak_enc [OF us] pk_combine_points [OF us]
  pk_mul_tweak_point [OF us] secret_key_enc [OF us] sk_ok_enc [OF us] zn_numeral_0

lemma unit_scalar [simp]: "scalar US (enc 1) = Ok (enc 1)"
  by (simp add: scalar_def unit_ops)

lemma small_not_odd: "\<not> pk_odd US (point US 2)" "\<not> pk_odd US (point US 4)"
  by (simp_all add: dlog_odd dlog_point_law zrep_numeral order_n_def half_n_def)

abbreviation unit_sig :: b64 where
  "unit_sig \<equiv> sig_of (pk_xonly US (point US 1)) (enc 2)"

lemma unit_sign: "sign_with_nonce unit_crypto US (enc 1) (enc 1) m = Ok unit_sig"
  using dlog_sign_sample [of m] by (simp add: pk_of_enc)

definition unit_dealer :: "u16 \<Rightarrow> Dealer" where
  "unit_dealer i = \<lparr>dl_index = i, dl_seed = enc 1, dl_poly = [enc 1, enc 1],
     dl_commitment = [point US 1, point US 1], dl_pok = unit_sig\<rparr>"

lemma two_dealers: "[0 ..< unat (2 :: u16)] = [0, 1]" "map word_of_nat [1 ..< unat (2 :: u16) + 1] = [1, 2 :: u16]"
  by (simp_all add: upt_rec)

lemma unit_dealer_new: "i = 1 \<or> i = 2 \<Longrightarrow> dealer_new unit_crypto US i 2 2 (fill 0) = Ok (unit_dealer i)"
  by (auto simp: dealer_new_def unit_hash Let_def upt_rec crypto_err_def get_at_def unit_sign
      unit_dealer_def pk_of_enc)

lemma unit_index: "j \<noteq> 0 \<Longrightarrow> index_scalar US j = Ok (enc (xi j))"
  by (simp add: index_scalar_Ok [OF us])

lemma xi_small: "xi 1 = 1" "xi 2 = 2"
  by (simp_all add: xi_def)

lemma unit_round2:
  "j = 1 \<or> j = 2 \<Longrightarrow> round2_share US (unit_dealer i) j = Ok \<lparr>r2_from = i, r2_to = j, r2_share = enc (xi j + 1)\<rparr>"
  by (auto simp: round2_share_def unit_index xi_small unit_dealer_def poly_eval_def get_at_def crypto_err_def unit_ops order_n_def)

lemma unit_round1: "verify_round1 unit_crypto US (round1 (unit_dealer i))"
proof -
  have "pk_ok US (point US 1)" by (rule pk_ok_point [OF us]) simp
  moreover have "bip340_verify US unit_sig m (pk_xonly US (point US 1))" for m
    using signed_facts [OF us unit_sign, of m] by (simp add: pk_of_enc)
  ultimately show ?thesis by (simp add: verify_round1_def round1_def unit_dealer_def)
qed

lemma unit_verify2:
  "j = 1 \<or> j = 2 \<Longrightarrow> verify_round2_share US \<lparr>r2_from = i, r2_to = j, r2_share = enc (xi j + 1)\<rparr> [point US 1, point US 1] = Ok True"
  by (auto simp: verify_round2_share_def unit_index xi_small eval_commitment_def eval_step_def add_point_def
      unit_ops pk_ok_point [OF us] order_n_def pk_of_enc)

definition unit_key :: "u16 \<Rightarrow> zn \<Rightarrow> KeyShare" where
  "unit_key j x = \<lparr>ks_index = j, ks_n = 2, ks_t = 2, ks_x = enc x, ks_group_pubkey = pk_xonly US (point US 2), ks_pk_odd = False\<rparr>"

lemma unit_finalize:
  assumes "j = 1 \<or> j = 2"
  shows "finalize_key unit_crypto US j 2 2 [round1 (unit_dealer 1), round1 (unit_dealer 2)]
     [\<lparr>r2_from = 1, r2_to = j, r2_share = enc (xi j + 1)\<rparr>, \<lparr>r2_from = 2, r2_to = j, r2_share = enc (xi j + 1)\<rparr>]
   = Ok (unit_key j (2 * xi j + 2))"
proof -
  have nz: "xi j + 1 \<noteq> 0" "2 * xi j + 2 \<noteq> 0" "xi j + 1 + (xi j + 1) = 2 * xi j + 2"
    using assms by (auto simp: xi_small zn_numeral_0 order_n_def)
  have st: "finalize_step unit_crypto US j [round1 (unit_dealer 1), round1 (unit_dealer 2)]
      [\<lparr>r2_from = 1, r2_to = j, r2_share = enc (xi j + 1)\<rparr>, \<lparr>r2_from = 2, r2_to = j, r2_share = enc (xi j + 1)\<rparr>] i (x, pk)
    = rbind (crypto_err (add_secret US (enc (xi j + 1)) x)) (\<lambda>x. rbind (crypto_err (add_point US (point US 1) pk)) (\<lambda>pk. Ok (x, pk)))"
    if "i = 1 \<or> i = 2" for i x pk
  proof -
    have "r1_index (round1 (unit_dealer k)) = k" "r1_commitment (round1 (unit_dealer k)) = [point US 1, point US 1]" for k
      by (simp_all add: round1_def unit_dealer_def)
    then show ?thesis using that assms nz
      by (auto simp: finalize_step_def unit_round1 unit_verify2 unit_ops get_at_def public_key_def pk_ok_point [OF us])
  qed
  show ?thesis
    unfolding finalize_key_def two_dealers
    using nz by (simp add: st add_secret_def add_point_def crypto_err_def unit_ops order_n_def unit_key_def small_not_odd)
qed


definition unit_cohort :: Cohort where
  "unit_cohort = \<lparr>co_n = 2, co_t = 2, co_group_pubkey = pk_xonly US (point US 2),
     co_signers = [\<lparr>sg_key = unit_key 1 4, sg_nonce_seed = enc 1\<rparr>, \<lparr>sg_key = unit_key 2 6, sg_nonce_seed = enc 1\<rparr>]\<rparr>"

lemma unit_member:
  assumes "j = 1 \<or> j = 2"
  shows "finalize_member unit_crypto US 2 2 [unit_dealer 1, unit_dealer 2] (unit_dealer j)
    = Ok \<lparr>sg_key = unit_key j (2 * xi j + 2), sg_nonce_seed = enc 1\<rparr>"
proof -
  have "dl_index (unit_dealer j) = j" "dl_seed (unit_dealer j) = enc 1" by (simp_all add: unit_dealer_def)
  then show ?thesis
    by (simp add: finalize_member_def unit_round2 [OF assms] unit_finalize [OF assms])
qed

lemma unit_keygen: "keygen unit_crypto US 2 2 (fill 0) = Ok unit_cohort"
proof -
  have ds: "rmap (\<lambda>i. dealer_new unit_crypto US (word_of_nat i) 2 2 (fill 0)) [1 ..< unat (2 :: u16) + 1]
      = Ok [unit_dealer 1, unit_dealer 2]"
    by (simp add: unit_dealer_new upt_rec)
  have n: "2 * xi 1 + 2 = (4 :: zn)" "2 * xi 2 + 2 = (6 :: zn)" by (simp_all add: xi_small)
  show ?thesis
    unfolding keygen_def ds rbind.simps
    by (simp add: unit_member n get_at_def unit_cohort_def unit_key_def)
qed

lemma unit_quorum: "quorum_units [1, 2]"
proof -
  have "even (nat (order_n - 1))" by (simp add: order_n_def)
  then have "(xi 1 - xi 2) ^ nat (order_n - 1) = 1" "(xi 2 - xi 1) ^ nat (order_n - 1) = 1"
    by (simp_all add: xi_small)
  then show ?thesis by (simp add: quorum_units_def)
qed

lemma unit_lagrange:
  "lagrange_at_zero US 1 [1, 2] = Ok (enc 2)" "lagrange_at_zero US 2 [1, 2] = Ok (enc (- 1))"
proof -
  have "odd (nat (order_n - 2))" "even (nat (order_n - 1))" by (simp_all add: order_n_def)
  then have inv: "invert_mod_n US (enc 1) = Ok (enc 1)" "invert_mod_n US (enc (- 1)) = Ok (enc (- 1))"
    using invert_mod_n_is [OF us, of 1] invert_mod_n_is [OF us, of "- 1"] by simp_all
  show "lagrange_at_zero US 1 [1, 2] = Ok (enc 2)" "lagrange_at_zero US 2 [1, 2] = Ok (enc (- 1))"
    by (simp_all add: lagrange_at_zero_def lagrange_step_def unit_index xi_small mul_secret_def crypto_err_def
        sub_mod_n_enc [OF us] zn_small inv unit_ops order_n_def)
qed

definition unit_commits :: "NonceCommitment list" where
  "unit_commits = map (\<lambda>j. \<lparr>nc_index = j, nc_digits = replicate 20 (point US 1, point US 1)\<rparr>) [1, 2]"

lemma unit_commitment:
  "nonce_commitment unit_crypto US \<lparr>sg_key = unit_key j x, sg_nonce_seed = enc 1\<rparr> ts
    = (Ok \<lparr>nc_index = j, nc_digits = replicate 20 (point US 1, point US 1)\<rparr> :: ('e, _) res)"
proof -
  have "rmap (\<lambda>i. rbind (nonce_pair unit_crypto US (enc 1) (event_id ts) (word_of_nat i)) (\<lambda>(d, e).
          Ok (pk_of US d, pk_of US e))) [0 ..< unat NB_DIGITS]
      = (Ok (replicate (length [0 ..< unat NB_DIGITS]) (point US 1, point US 1)) :: ('e, _) res)"
    by (rule rmap_same) (simp add: nonce_pair_def unit_hash pk_of_enc)
  then show ?thesis by (simp add: nonce_commitment_def unit_key_def NB_DIGITS_def)
qed

lemma unit_quorum_commitments:
  "i < 20 \<Longrightarrow> quorum_commitments US [1, 2] unit_commits (word_of_nat i) = Ok [(point US 1, point US 1), (point US 1, point US 1)]"
  by (simp add: quorum_commitments_def unit_commits_def get_at_def unat_digit crypto_err_def public_key_def pk_ok_point [OF us])

lemma unit_session:
  "nonce_session unit_crypto US ev i [1, 2] [(point US 1, point US 1), (point US 1, point US 1)]
    = Ok (point US 4, [enc 1, enc 1])"
  by (simp add: nonce_session_def session_step_def binding_factor_def unit_hash add_point_def unit_ops order_n_def Let_def)

lemma unit_sign_digit:
  assumes "i < 20"
  shows "sign_digit unit_crypto US \<lparr>sg_key = unit_key 1 4, sg_nonce_seed = enc 1\<rparr> ev px 0 (enc 2) (enc 4) [1, 2] unit_commits
      (word_of_nat i) d = Ok (enc 10)"
    "sign_digit unit_crypto US \<lparr>sg_key = unit_key 2 6, sg_nonce_seed = enc 1\<rparr> ev px (Suc 0) (enc (- 1)) (enc 6) [1, 2] unit_commits
      (word_of_nat i) d = Ok (enc (- 4))"
  by (simp_all add: sign_digit_def unit_quorum_commitments [OF assms] unit_session challenge_is [OF us] unit_chal
      nonce_pair_def unit_hash get_at_def small_not_odd unit_key_def crypto_err_def unit_ops order_n_def Let_def)

lemma position_two: "position 1 [1, 2 :: u16] = Some 0" "position 2 [1, 2 :: u16] = Some 1"
  by (simp_all add: position_def upt_rec)

definition unit_shares :: "SigShare list" where
  "unit_shares = [\<lparr>ss_index = 1, ss_digits = replicate 20 (enc 10)\<rparr>, \<lparr>ss_index = 2, ss_digits = replicate 20 (enc (- 4))\<rparr>]"

lemma rmap_same20:
  assumes "\<And>i d. i < 20 \<Longrightarrow> f i d = Ok y"
  shows "rmap (\<lambda>(i, d). f i d) (enumerate 0 (digits p)) = Ok (replicate 20 y)"
proof -
  have "rmap (\<lambda>(i, d). f i d) (enumerate 0 (digits p)) = Ok (replicate (length (enumerate 0 (digits p))) y)"
    using assms by (intro rmap_same) (auto simp: in_set_enumerate_eq)
  then show ?thesis by simp
qed

lemma unit_check: "check_quorum [1, 2] 2 2 = Ok ()"
  by (simp add: check_quorum_Ok)

lemma unit_px: "xonly_key US (pk_xonly US (point US 2)) = Ok (pk_xonly US (point US 2))"
  using x_ok_xonly [OF us zn_small(1)] by (simp add: xonly_key_def)

lemma unit_sig_share:
  "sig_share unit_crypto US \<lparr>sg_key = unit_key 1 4, sg_nonce_seed = enc 1\<rparr> ts p [1, 2] unit_commits
     = Ok \<lparr>ss_index = 1, ss_digits = replicate 20 (enc 10)\<rparr>"
  "sig_share unit_crypto US \<lparr>sg_key = unit_key 2 6, sg_nonce_seed = enc 1\<rparr> ts p [1, 2] unit_commits
     = Ok \<lparr>ss_index = 2, ss_digits = replicate 20 (enc (- 4))\<rparr>"
proof -
  have k: "ks_index (unit_key j x) = j" "ks_n (unit_key j x) = 2" "ks_t (unit_key j x) = 2" "ks_x (unit_key j x) = enc x"
    "ks_group_pubkey (unit_key j x) = pk_xonly US (point US 2)" for j x
    by (simp_all add: unit_key_def)
  note digits = rmap_same20 [OF unit_sign_digit(1)] rmap_same20 [OF unit_sign_digit(2)]
  show "sig_share unit_crypto US \<lparr>sg_key = unit_key 1 4, sg_nonce_seed = enc 1\<rparr> ts p [1, 2] unit_commits
     = Ok \<lparr>ss_index = 1, ss_digits = replicate 20 (enc 10)\<rparr>"
    "sig_share unit_crypto US \<lparr>sg_key = unit_key 2 6, sg_nonce_seed = enc 1\<rparr> ts p [1, 2] unit_commits
     = Ok \<lparr>ss_index = 2, ss_digits = replicate 20 (enc (- 4))\<rparr>"
    by (simp_all add: sig_share_def k unit_check unit_px position_two unit_lagrange unit_ops digits crypto_err_def
        order_n_def Let_def)
qed

lemma unit_aggregate:
  assumes "i < 20"
  shows "aggregate_digit unit_crypto US ev [1, 2] unit_commits unit_shares i = Ok (sig_of (pk_xonly US (point US 4)) (enc 6))"
  using assms
  by (simp add: aggregate_digit_def unit_quorum_commitments unit_session unit_shares_def add_share_def get_at_def
      add_secret_def unit_ops crypto_err_def order_n_def)

lemma unit_attests: "\<exists>at. cohort_attest unit_crypto US unit_cohort ts p [1, 2] = Ok at"
  and unit_announces: "\<exists>an. cohort_announce unit_crypto US unit_cohort ts [1, 2] = Ok an"
proof -
  have co: "quorum_signers unit_cohort [1, 2] = Ok (co_signers unit_cohort)"
    by (simp add: quorum_signers_def unit_cohort_def unit_check get_at_def)
  have com: "rmap (\<lambda>s. nonce_commitment unit_crypto US s ts) (co_signers unit_cohort) = (Ok unit_commits :: (FrostError, _) res)"
    by (simp add: unit_cohort_def unit_commitment unit_commits_def)
  have sh: "rmap (\<lambda>s. sig_share unit_crypto US s ts p [1, 2] unit_commits) (co_signers unit_cohort) = Ok unit_shares"
    by (simp add: unit_cohort_def unit_sig_share unit_shares_def)
  have "rmap (aggregate_digit unit_crypto US (event_id ts) [1, 2] unit_commits unit_shares) [0 ..< length (digits p)]
      = Ok (replicate (length [0 ..< length (digits p)]) (sig_of (pk_xonly US (point US 4)) (enc 6)))"
    by (rule rmap_same) (simp add: unit_aggregate)
  then have sigs: "rmap (aggregate_digit unit_crypto US (event_id ts) [1, 2] unit_commits unit_shares) [0 ..< length (digits p)]
      = Ok (replicate 20 (sig_of (pk_xonly US (point US 4)) (enc 6)))" by simp
  show "\<exists>at. cohort_attest unit_crypto US unit_cohort ts p [1, 2] = Ok at"
    unfolding cohort_attest_def co com rbind.simps sh aggregate_attestation_def Let_def sigs
    by (simp add: oracle_attestation_def Let_def)
  have "rmap (\<lambda>i. rbind (quorum_commitments US [1, 2] unit_commits (word_of_nat i)) (\<lambda>des.
        rbind (crypto_err (nonce_session unit_crypto US (event_id ts) (word_of_nat i) [1, 2] des)) (\<lambda>(r, _).
        Ok (pk_xonly US r)))) [0 ..< unat NB_DIGITS] = Ok (replicate (length [0 ..< unat NB_DIGITS]) (pk_xonly US (point US 4)))"
    by (rule rmap_same) (simp add: NB_DIGITS_def unit_quorum_commitments unit_session crypto_err_def)
  then show "\<exists>an. cohort_announce unit_crypto US unit_cohort ts [1, 2] = Ok an"
    unfolding cohort_announce_def co com rbind.simps aggregate_announcement_def Let_def by simp
qed

text \<open>
  The threshold attestation of a cohort is one oracle's: after the distributed key generation,
  any quorum whose announcement and attestation succeed produces twenty BIP-340 signatures of the
  price's digits under the group key, each with the announced nonce point.
\<close>

theorem cohort_attestation_verifies:
  assumes "secp_laws C S" "keygen C S n t seed = Ok co" "quorum_units quorum"
    and "cohort_announce C S co ts quorum = Ok an" "cohort_attest C S co ts price quorum = Ok at" "i < 20"
  shows "bip340_verify S (at_signatures at ! i) (attestation_msg C (digits price ! i)) (co_group_pubkey co)
    \<and> sig_r (at_signatures at ! i) = an_nonce_points an ! i"
  using cohort_attests [OF assms(1-3,5,6)] assms(4) by blast

theorem cohort_attestation_verifies_witness:
  "\<exists>co an at. keygen unit_crypto US 2 2 (fill 0) = Ok co
     \<and> cohort_announce unit_crypto US co 0 [1, 2] = Ok an \<and> cohort_attest unit_crypto US co 0 60123 [1, 2] = Ok at
     \<and> bip340_verify US (at_signatures at ! 7) (attestation_msg unit_crypto (digits 60123 ! 7)) (co_group_pubkey co)"
proof -
  obtain an at where r: "cohort_announce unit_crypto US unit_cohort 0 [1, 2] = Ok an"
    "cohort_attest unit_crypto US unit_cohort 0 60123 [1, 2] = Ok at"
    using unit_announces unit_attests by blast
  from cohort_attestation_verifies [OF us unit_keygen unit_quorum r, of 7] r unit_keygen show ?thesis by auto
qed

text \<open>
  C24: Key generation puts every member on one polynomial whatever the dealers sent: all keys
  finalised from the same packages are values of one polynomial at the members' indices, with the
  group key its value at zero, and its length is bounded by that of the longest commitment.
\<close>

theorem members_share_polynomial:
  assumes "secp_laws C S" "finalize_key C S i n t packages shares = Ok key"
    and "\<And>p. p \<in> set packages \<Longrightarrow> length (r1_commitment p) \<le> k"
  shows "\<exists>F. length F \<le> k \<and> (\<forall>j shares' key'. finalize_key C S j n t packages shares' = Ok key'
    \<longrightarrow> ks_x key' = enc (peval F (xi j)) \<and> ks_group_pubkey key' = pk_xonly S (point S (peval F 0)))"
proof -
  obtain r where "rfold (finalize_step C S i packages shares) (dealers n) (None, None) = Ok r"
    using finalize_key_loop [OF assms(2)] .
  then obtain cs where cs: "\<And>i. i \<in> set (dealers n) \<Longrightarrow> committed S packages cs i"
    using finalize_committed [OF assms(1)] by blast
  show ?thesis
  proof (intro exI conjI allI impI)
    show "length (joint cs (dealers n)) \<le> k"
      using committed_length [OF cs assms(3)] by (intro length_joint)
  qed (use finalize_shares [OF assms(1) cs] in \<open>force simp: shares_of_def\<close>)+
qed

theorem members_share_polynomial_witness:
  "\<exists>key F. finalize_key unit_crypto US 1 2 2 [round1 (unit_dealer 1), round1 (unit_dealer 2)]
       [\<lparr>r2_from = 1, r2_to = 1, r2_share = enc (xi 1 + 1)\<rparr>, \<lparr>r2_from = 2, r2_to = 1, r2_share = enc (xi 1 + 1)\<rparr>] = Ok key
     \<and> length F \<le> 2 \<and> ks_x key = enc (peval F (xi 1))"
proof -
  have "length (r1_commitment p) \<le> 2" if "p \<in> set [round1 (unit_dealer 1), round1 (unit_dealer 2)]" for p
    using that by (auto simp: round1_def unit_dealer_def)
  from members_share_polynomial [OF us unit_finalize this, of 1] unit_finalize [of 1] show ?thesis by auto
qed

end
