(* ===== verification/Tlv.thy ===== *)
theory Tlv
  imports Event Rail
begin

text \<open>
  The strict parsers of \<^verbatim>\<open>satusd-oracle/src/tlv.rs\<close>, mirrors of the writers of \<open>Event\<close>; the
  equivocation evidence of \<^verbatim>\<open>equivocation.rs\<close>, which reads two attestations; and the timelock
  escape of \<^verbatim>\<open>tlock.rs\<close>.
\<close>

section \<open>Parsers\<close>

datatype ParseError = Decode DecodeError | WrongType u64 | LengthMismatch

record ParsedAttestation =
  pa_event_id :: bytes
  pa_oracle_pubkey :: b32
  pa_signatures :: "b64 list"
  pa_outcomes :: "bytes list"

record ParsedAnnouncement =
  pn_announcement_sig :: b64
  pn_oracle_pubkey :: b32
  pn_nonce_points :: "b32 list"
  pn_maturity_unix :: u32
  pn_event_id :: bytes

definition de_bytes64 :: "Decoder \<Rightarrow> (DecodeError, b64 \<times> Decoder) res" where
  "de_bytes64 d = rbind (de_take 64 d) (\<lambda>(s, d). rbind (unwrap (arr_try s)) (\<lambda>a. Ok (a, d)))"

text \<open>What both parsers start with: the expected type, one value and nothing after it.\<close>

definition tlv_value :: "u64 \<Rightarrow> bytes \<Rightarrow> (ParseError, bytes) res" where
  "tlv_value expected bytes =
     (let d = decoder_new bytes in
      rbind (map_err Decode (de_bigsize d)) (\<lambda>(type_id, d).
      if type_id \<noteq> expected then Err (WrongType type_id)
      else rbind (map_err Decode (de_varbytes d)) (\<lambda>(v, d).
      if \<not> de_done d then Err LengthMismatch
      else Ok v)))"

definition attestation_fields :: "Decoder \<Rightarrow> (ParseError, ParsedAttestation) res" where
  "attestation_fields v =
     rbind (map_err Decode (de_string v)) (\<lambda>(event_id, v).
     rbind (map_err Decode (de_bytes32 v)) (\<lambda>(oracle_pubkey, v).
     rbind (map_err Decode (de_u16 v)) (\<lambda>(count, v).
     rbind (map_err Decode (de_many de_bytes64 (unat count) v [])) (\<lambda>(signatures, v).
     rbind (map_err Decode (de_many de_string (unat count) v [])) (\<lambda>(outcomes, v).
     if \<not> de_done v then Err LengthMismatch
     else Ok \<lparr>pa_event_id = event_id, pa_oracle_pubkey = oracle_pubkey,
              pa_signatures = signatures, pa_outcomes = outcomes\<rparr>)))))"

definition parse_attestation :: "bytes \<Rightarrow> (ParseError, ParsedAttestation) res" where
  "parse_attestation bytes =
     rbind (tlv_value TYPE_ORACLE_ATTESTATION bytes) (\<lambda>v. attestation_fields (decoder_new v))"

definition announcement_parts :: "Decoder \<Rightarrow> (ParseError, b64 \<times> b32 \<times> bytes) res" where
  "announcement_parts v =
     rbind (map_err Decode (de_bytes64 v)) (\<lambda>(announcement_sig, v).
     rbind (map_err Decode (de_bytes32 v)) (\<lambda>(oracle_pubkey, v).
     rbind (map_err Decode (de_bigsize v)) (\<lambda>(ev_type, v).
     if ev_type \<noteq> TYPE_ORACLE_EVENT then Err (WrongType ev_type)
     else rbind (map_err Decode (de_varbytes v)) (\<lambda>(ev, v).
     if \<not> de_done v then Err LengthMismatch
     else Ok (announcement_sig, oracle_pubkey, ev)))))"

definition event_parts :: "Decoder \<Rightarrow> (ParseError, b32 list \<times> u32 \<times> bytes) res" where
  "event_parts e =
     rbind (map_err Decode (de_u16 e)) (\<lambda>(n, e).
     rbind (map_err Decode (de_many de_bytes32 (unat n) e [])) (\<lambda>(nonce_points, e).
     rbind (map_err Decode (de_u32 e)) (\<lambda>(maturity_unix, e).
     rbind (map_err Decode (de_bigsize e)) (\<lambda>(desc_type, e).
     if desc_type \<noteq> TYPE_DIGIT_DECOMPOSITION_DESCRIPTOR then Err (WrongType desc_type)
     else rbind (map_err Decode (de_varbytes e)) (\<lambda>(_, e).
     rbind (map_err Decode (de_string e)) (\<lambda>(event_id, e).
     if \<not> de_done e then Err LengthMismatch
     else Ok (nonce_points, maturity_unix, event_id)))))))"

definition parse_announcement :: "bytes \<Rightarrow> (ParseError, ParsedAnnouncement) res" where
  "parse_announcement bytes =
     rbind (tlv_value TYPE_ORACLE_ANNOUNCEMENT bytes) (\<lambda>v.
     rbind (announcement_parts (decoder_new v)) (\<lambda>(announcement_sig, oracle_pubkey, ev).
     rbind (event_parts (decoder_new ev)) (\<lambda>(nonce_points, maturity_unix, event_id).
     Ok \<lparr>pn_announcement_sig = announcement_sig, pn_oracle_pubkey = oracle_pubkey,
         pn_nonce_points = nonce_points, pn_maturity_unix = maturity_unix,
         pn_event_id = event_id\<rparr>)))"

section \<open>A read followed by the rest\<close>

context codec
begin

lemma read_Ok:
  assumes "before d s"
  shows "rbind (map_err E (dec d)) k = Ok y \<longleftrightarrow>
    (\<exists>v r d'. s = enc v @ r \<and> ok v \<and> before d' r \<and> dec d = Ok (v, d') \<and> k (v, d') = Ok y)"
  using sound [OF assms] by (fastforce simp: res_simps)

lemma read_Panic:
  assumes "before d s"
  shows "rbind (map_err E (dec d)) k = Panic \<longleftrightarrow>
    (\<exists>v r d'. s = enc v @ r \<and> ok v \<and> before d' r \<and> dec d = Ok (v, d') \<and> k (v, d') = Panic)"
  using sound [OF assms] total [OF assms] by (fastforce simp: res_simps)

lemma reads_Ok:
  assumes "before d s"
  shows "rbind (map_err E (de_many dec n d [])) k = Ok y \<longleftrightarrow>
    (\<exists>vs r d'. length vs = n \<and> s = concat (map enc vs) @ r \<and> (\<forall>v\<in>set vs. ok v) \<and> before d' r
      \<and> de_many dec n d [] = Ok (vs, d') \<and> k (vs, d') = Ok y)"
  using many_sound [OF assms, of n "[]"] by (fastforce simp: res_simps)

lemma reads_Panic:
  assumes "before d s"
  shows "rbind (map_err E (de_many dec n d [])) k = Panic \<longleftrightarrow>
    (\<exists>vs r d'. length vs = n \<and> s = concat (map enc vs) @ r \<and> (\<forall>v\<in>set vs. ok v) \<and> before d' r
      \<and> de_many dec n d [] = Ok (vs, d') \<and> k (vs, d') = Panic)"
  using many_sound [OF assms, of n "[]"] many_total [OF assms, of n "[]"] by (fastforce simp: res_simps)

end

interpretation bytes64_codec: codec bs de_bytes64 "\<lambda>_. True"
  by (rule array_codec [where n = 64]) (simp_all add: de_bytes64_def)

section \<open>Attestations\<close>

lemma oracle_tlv_bytes: "oracle_tlv t v = bigsize_bytes t @ varbytes_bytes v"
  by (simp add: oracle_tlv_def varbytes_bytes_def put_simps)

lemma fold_raw_bytes: "fold (\<lambda>s. put_raw (bs s)) xs e = e @ concat (map bs xs)"
  by (rule fold_appends) (simp add: put_simps)

lemma fold_string_bytes: "fold put_string xs e = e @ concat (map varbytes_bytes xs)"
  by (rule fold_appends) (simp add: put_simps)

definition attestation_body :: "ParsedAttestation \<Rightarrow> bytes" where
  "attestation_body p =
     varbytes_bytes (pa_event_id p) @ bs (pa_oracle_pubkey p) @ to_be (word_of_nat (length (pa_signatures p)) :: u16)
     @ concat (map bs (pa_signatures p)) @ concat (map varbytes_bytes (pa_outcomes p))"

definition attestation_ok :: "ParsedAttestation \<Rightarrow> bool" where
  "attestation_ok p \<longleftrightarrow> utf8_ok (pa_event_id p) \<and> (\<forall>o'\<in>set (pa_outcomes p). utf8_ok o')
     \<and> length (pa_signatures p) = length (pa_outcomes p) \<and> length (pa_signatures p) < 2 ^ 16"

definition write_attestation :: "ParsedAttestation \<Rightarrow> ('e, bytes) res" where
  "write_attestation p =
     oracle_attestation (pa_event_id p) (pa_oracle_pubkey p) (pa_signatures p) (pa_outcomes p)"

lemma write_attestation_Ok:
  "attestation_ok p \<Longrightarrow> write_attestation p
    = Ok (bigsize_bytes TYPE_ORACLE_ATTESTATION @ varbytes_bytes (attestation_body p))"
  by (simp add: write_attestation_def oracle_attestation_def attestation_ok_def oracle_tlv_bytes
      attestation_body_def fold_raw_bytes fold_string_bytes put_simps)

lemma length_varbytes: "length v \<le> length (varbytes_bytes v)"
  by (simp add: varbytes_bytes_def)

lemma length_in_concat: "x \<in> set xs \<Longrightarrow> length (f x) \<le> length (concat (map f xs))"
  by (induction xs) auto

lemma body_lengths:
  assumes "length (attestation_body p) < n"
  shows "length (pa_event_id p) < n" and "o' \<in> set (pa_outcomes p) \<Longrightarrow> length o' < n"
proof -
  show "length (pa_event_id p) < n"
    using assms length_varbytes [of "pa_event_id p"] by (simp add: attestation_body_def)
  show "length o' < n" if "o' \<in> set (pa_outcomes p)"
    using assms length_varbytes [of o'] length_in_concat [OF that, of varbytes_bytes]
    by (simp add: attestation_body_def)
qed


lemma tlv_value_Ok:
  assumes "length b < 2 ^ 64"
  shows "tlv_value t b = Ok v \<longleftrightarrow> b = bigsize_bytes t @ varbytes_bytes v"
proof
  have start: "before (decoder_new b) b" using assms by (simp add: before_new)
  show "b = bigsize_bytes t @ varbytes_bytes v" if "tlv_value t b = Ok v"
    using that start
    by (auto simp: tlv_value_def bigsize_codec.read_Ok varbytes_codec.read_Ok guard_Ok_iff de_done_before
        simp del: map_err_Ok_iff)
  assume b: "b = bigsize_bytes t @ varbytes_bytes v"
  then have v: "length v < 2 ^ 64" using assms length_varbytes [of v] by simp
  obtain d1 where d1: "before d1 (varbytes_bytes v)"
    "de_bigsize (decoder_new b) = Ok (t, d1)"
    using bigsize_codec.complete [of "decoder_new b" t "varbytes_bytes v"] start b by auto
  obtain d2 where d2: "before d2 []"
    "de_varbytes d1 = Ok (v, d2)"
    using varbytes_codec.complete [of d1 v "[]"] d1(1) v by auto
  show "tlv_value t b = Ok v" using d2(1) by (simp add: tlv_value_def d1(2) d2(2) de_done_before)
qed

lemma attestation_fields_sound:
  assumes "before v s" and "attestation_fields v = Ok p"
  shows "s = attestation_body p \<and> attestation_ok p"
  using assms
  by (auto simp: attestation_fields_def attestation_ok_def attestation_body_def string_codec.read_Ok
      bytes32_codec.read_Ok u16_codec.read_Ok bytes64_codec.reads_Ok string_codec.reads_Ok guard_Ok_iff de_done_before)


lemma attestation_fields_complete:
  assumes "before v (attestation_body p)" and "attestation_ok p"
  shows "attestation_fields v = Ok p"
proof -
  let ?n = "word_of_nat (length (pa_signatures p)) :: u16"
  have n: "unat ?n = length (pa_signatures p)" "unat ?n = length (pa_outcomes p)"
    using assms(2) by (simp_all add: attestation_ok_def unat_word_of_nat)
  have "length (attestation_body p) < 2 ^ 64" using before_length [OF assms(1)] .
  note lengths = body_lengths [OF this]
  have strings: "length (pa_event_id p) < 2 ^ 64 \<and> utf8_ok (pa_event_id p)"
    "\<forall>o'\<in>set (pa_outcomes p). length o' < 2 ^ 64 \<and> utf8_ok o'"
    using lengths assms(2) by (simp_all add: attestation_ok_def)
  let ?r5 = "concat (map varbytes_bytes (pa_outcomes p)) @ []"
  let ?r4 = "concat (map bs (pa_signatures p)) @ ?r5"
  obtain d1 where d1: "before d1 (bs (pa_oracle_pubkey p) @ to_be ?n @ ?r4)"
    "de_string v = Ok (pa_event_id p, d1)"
    using string_codec.complete [OF _ strings(1), of v] assms(1) by (auto simp: attestation_body_def)
  obtain d2 where d2: "before d2 (to_be ?n @ ?r4)"
    "de_bytes32 d1 = Ok (pa_oracle_pubkey p, d2)"
    using bytes32_codec.complete [OF d1(1)] by auto
  obtain d3 where d3: "before d3 ?r4"
    "de_u16 d2 = Ok (?n, d3)"
    using u16_codec.complete [OF d2(1)] by auto
  obtain d4 where d4: "before d4 ?r5"
    "de_many de_bytes64 (unat ?n) d3 [] = Ok (pa_signatures p, d4)"
    using bytes64_codec.many_complete [OF d3(1), of "[]"] n(1) by auto
  obtain d5 where d5: "before d5 []"
    "de_many de_string (unat ?n) d4 [] = Ok (pa_outcomes p, d5)"
    using string_codec.many_complete [OF d4(1) strings(2), of "[]"] n(2) by auto
  show ?thesis
    using d5(1) by (simp add: attestation_fields_def d1(2) d2(2) d3(2) d4(2) d5(2) de_done_before)
qed

lemma parse_attestation_is:
  assumes "length b < 2 ^ 64"
  shows "parse_attestation b = Ok p \<longleftrightarrow> attestation_ok p \<and> write_attestation p = (Ok b :: ('e, _) res)"
proof -
  have "attestation_fields (decoder_new v) = Ok p \<longleftrightarrow> v = attestation_body p \<and> attestation_ok p"
    if "length v < 2 ^ 64" for v
    using attestation_fields_sound [of "decoder_new v" v p] attestation_fields_complete [of "decoder_new v" p] that
    by (auto simp: before_new)
  moreover have "length v < 2 ^ 64" if "b = bigsize_bytes TYPE_ORACLE_ATTESTATION @ varbytes_bytes v" for v
    using that assms length_varbytes [of v] by simp
  ultimately show ?thesis
    unfolding parse_attestation_def rbind_Ok_iff tlv_value_Ok [OF assms]
    by (auto simp: write_attestation_Ok)
qed

text \<open>
  C25: The attestation parser is the exact mirror of the writer: on any slice it accepts precisely
  the bytes written for a well-formed attestation (UTF-8 texts, one outcome for each of fewer than
  65536 signatures), and returns that attestation.
\<close>

theorem parse_attestation_iff:
  assumes "length b < 2 ^ 64"
  shows "parse_attestation b = Ok p \<longleftrightarrow> attestation_ok p \<and> write_attestation p = (Ok b :: ('e, _) res)"
  by (rule parse_attestation_is [OF assms])

definition sample_attestation :: ParsedAttestation where
  "sample_attestation = \<lparr>pa_event_id = [], pa_oracle_pubkey = fill 0, pa_signatures = [], pa_outcomes = []\<rparr>"

theorem parse_attestation_iff_witness:
  "\<exists>b. write_attestation sample_attestation = (Ok b :: (ParseError, _) res)
     \<and> parse_attestation b = Ok sample_attestation"
proof -
  let ?b = "bigsize_bytes TYPE_ORACLE_ATTESTATION @ varbytes_bytes (attestation_body sample_attestation)"
  have ok: "attestation_ok sample_attestation" by (simp add: attestation_ok_def sample_attestation_def)
  have w: "write_attestation sample_attestation = (Ok ?b :: (ParseError, _) res)" by (rule write_attestation_Ok [OF ok])
  have "length ?b < 2 ^ 64"
    by (simp add: attestation_body_def sample_attestation_def varbytes_bytes_def bigsize_bytes_def put_bigsize_def
        TYPE_ORACLE_ATTESTATION_def)
  then have "parse_attestation ?b = Ok sample_attestation"
    using parse_attestation_iff [of ?b sample_attestation] ok w by blast
  with w show ?thesis by blast
qed


section \<open>Announcements\<close>

definition event_body :: "b32 list \<Rightarrow> u32 \<Rightarrow> bytes \<Rightarrow> bytes \<Rightarrow> bytes" where
  "event_body nonces maturity content ev_id =
     to_be (word_of_nat (length nonces) :: u16) @ concat (map bs nonces) @ to_be maturity
     @ bigsize_bytes TYPE_DIGIT_DECOMPOSITION_DESCRIPTOR @ varbytes_bytes content @ varbytes_bytes ev_id"

lemma oracle_event_bytes:
  "oracle_event nonces maturity (oracle_tlv TYPE_DIGIT_DECOMPOSITION_DESCRIPTOR content) ev_id
    = bigsize_bytes TYPE_ORACLE_EVENT @ varbytes_bytes (event_body nonces maturity content ev_id)"
proof -
  have "fold put_bytes32 nonces e = e @ concat (map bs nonces)" for e
    by (rule fold_appends) (simp add: put_simps)
  then show ?thesis by (simp add: oracle_event_def oracle_tlv_bytes event_body_def put_simps)
qed

lemma oracle_announcement_bytes:
  "oracle_announcement g pk ev
    = bigsize_bytes TYPE_ORACLE_ANNOUNCEMENT @ varbytes_bytes (bs g @ bs pk @ ev)"
  by (simp add: oracle_announcement_def oracle_tlv_bytes put_simps)

lemma event_parts_sound:
  assumes "before e s" and "event_parts e = Ok (nonces, maturity, ev_id)"
  shows "\<exists>content. s = event_body nonces maturity content ev_id \<and> utf8_ok ev_id \<and> length nonces < 2 ^ 16"
  using assms
  by (auto simp: event_parts_def event_body_def string_codec.read_Ok bytes32_codec.reads_Ok u16_codec.read_Ok
      u32_codec.read_Ok bigsize_codec.read_Ok varbytes_codec.read_Ok guard_Ok_iff de_done_before)
    (rule exI, rule refl)

lemma event_parts_complete:
  assumes "before e (event_body nonces maturity content ev_id)" and "utf8_ok ev_id" and "length nonces < 2 ^ 16"
  shows "event_parts e = Ok (nonces, maturity, ev_id)"
proof -
  let ?n = "word_of_nat (length nonces) :: u16"
  have n: "unat ?n = length nonces" using assms(3) by (simp add: unat_word_of_nat)
  have "length (event_body nonces maturity content ev_id) < 2 ^ 64" using before_length [OF assms(1)] .
  then have lengths: "length content < 2 ^ 64" "length ev_id < 2 ^ 64 \<and> utf8_ok ev_id"
    using length_varbytes [of content] length_varbytes [of ev_id] assms(2) by (simp_all add: event_body_def)
  let ?r6 = "varbytes_bytes ev_id @ []"
  let ?r5 = "varbytes_bytes content @ ?r6"
  let ?r4 = "bigsize_bytes TYPE_DIGIT_DECOMPOSITION_DESCRIPTOR @ ?r5"
  let ?r3 = "to_be maturity @ ?r4"
  obtain d1 where d1: "before d1 (concat (map bs nonces) @ ?r3)" "de_u16 e = Ok (?n, d1)"
    using u16_codec.complete [of e ?n] assms(1) by (auto simp: event_body_def)
  obtain d2 where d2: "before d2 ?r3" "de_many de_bytes32 (unat ?n) d1 [] = Ok (nonces, d2)"
    using bytes32_codec.many_complete [OF d1(1), of "[]"] n by auto
  obtain d3 where d3: "before d3 ?r4" "de_u32 d2 = Ok (maturity, d3)"
    using u32_codec.complete [OF d2(1)] by auto
  obtain d4 where d4: "before d4 ?r5" "de_bigsize d3 = Ok (TYPE_DIGIT_DECOMPOSITION_DESCRIPTOR, d4)"
    using bigsize_codec.complete [OF d3(1)] by auto
  obtain d5 where d5: "before d5 ?r6" "de_varbytes d4 = Ok (content, d5)"
    using varbytes_codec.complete [OF d4(1) lengths(1)] by auto
  obtain d6 where d6: "before d6 []" "de_string d5 = Ok (ev_id, d6)"
    using string_codec.complete [OF d5(1) lengths(2)] by auto
  show ?thesis
    using d6(1) by (simp add: event_parts_def d1(2) d2(2) d3(2) d4(2) d5(2) d6(2) de_done_before)
qed

lemma announcement_parts_sound:
  assumes "before v s" and "announcement_parts v = Ok (g, pk, ev)"
  shows "s = bs g @ bs pk @ bigsize_bytes TYPE_ORACLE_EVENT @ varbytes_bytes ev \<and> length ev < 2 ^ 64"
  using assms
  by (auto simp: announcement_parts_def bytes64_codec.read_Ok bytes32_codec.read_Ok
      bigsize_codec.read_Ok varbytes_codec.read_Ok guard_Ok_iff de_done_before)

lemma announcement_parts_complete:
  assumes "before v (bs g @ bs pk @ bigsize_bytes TYPE_ORACLE_EVENT @ varbytes_bytes ev)"
  shows "announcement_parts v = Ok (g, pk, ev)"
proof -
  have len: "length ev < 2 ^ 64"
    using before_length [OF assms] length_varbytes [of ev] by simp
  obtain d1 where d1: "before d1 (bs pk @ bigsize_bytes TYPE_ORACLE_EVENT @ varbytes_bytes ev @ [])"
    "de_bytes64 v = Ok (g, d1)"
    using bytes64_codec.complete [OF assms] by auto
  obtain d2 where d2: "before d2 (bigsize_bytes TYPE_ORACLE_EVENT @ varbytes_bytes ev @ [])"
    "de_bytes32 d1 = Ok (pk, d2)"
    using bytes32_codec.complete [OF d1(1)] by auto
  obtain d3 where d3: "before d3 (varbytes_bytes ev @ [])" "de_bigsize d2 = Ok (TYPE_ORACLE_EVENT, d3)"
    using bigsize_codec.complete [OF d2(1)] by auto
  obtain d4 where d4: "before d4 []" "de_varbytes d3 = Ok (ev, d4)"
    using varbytes_codec.complete [OF d3(1) len] by auto
  show ?thesis
    using d4(1) by (simp add: announcement_parts_def d1(2) d2(2) d3(2) d4(2) de_done_before)
qed

definition write_announcement :: "ParsedAnnouncement \<Rightarrow> bytes \<Rightarrow> bytes" where
  "write_announcement p content =
     oracle_announcement (pn_announcement_sig p) (pn_oracle_pubkey p)
       (oracle_event (pn_nonce_points p) (pn_maturity_unix p)
         (oracle_tlv TYPE_DIGIT_DECOMPOSITION_DESCRIPTOR content) (pn_event_id p))"

text \<open>
  The announcement parser accepts precisely the bytes written for an announcement with a UTF-8
  event id and fewer than 65536 nonce points, whatever the descriptor holds, and returns its fields.
\<close>

theorem parse_announcement_iff:
  assumes "length b < 2 ^ 64"
  shows "parse_announcement b = Ok p \<longleftrightarrow>
    utf8_ok (pn_event_id p) \<and> length (pn_nonce_points p) < 2 ^ 16 \<and> (\<exists>content. b = write_announcement p content)"
proof
  assume "parse_announcement b = Ok p"
  then obtain v ev where v: "b = bigsize_bytes TYPE_ORACLE_ANNOUNCEMENT @ varbytes_bytes v"
    and parts: "announcement_parts (decoder_new v) = Ok (pn_announcement_sig p, pn_oracle_pubkey p, ev)"
      "event_parts (decoder_new ev) = Ok (pn_nonce_points p, pn_maturity_unix p, pn_event_id p)"
    by (auto simp: parse_announcement_def rbind_Ok_iff tlv_value_Ok [OF assms])
  have "length v < 2 ^ 64" using assms v length_varbytes [of v] by simp
  then have s: "v = bs (pn_announcement_sig p) @ bs (pn_oracle_pubkey p) @ bigsize_bytes TYPE_ORACLE_EVENT
      @ varbytes_bytes ev \<and> length ev < 2 ^ 64"
    using announcement_parts_sound [OF _ parts(1), of v] by (simp add: before_new)
  then obtain content where "ev = event_body (pn_nonce_points p) (pn_maturity_unix p) content (pn_event_id p)"
    "utf8_ok (pn_event_id p)" "length (pn_nonce_points p) < 2 ^ 16"
    using event_parts_sound [OF _ parts(2), of ev] by (auto simp: before_new)
  then show "utf8_ok (pn_event_id p) \<and> length (pn_nonce_points p) < 2 ^ 16 \<and> (\<exists>content. b = write_announcement p content)"
    using v s by (auto simp: write_announcement_def oracle_announcement_bytes oracle_event_bytes)
next
  assume "utf8_ok (pn_event_id p) \<and> length (pn_nonce_points p) < 2 ^ 16 \<and> (\<exists>content. b = write_announcement p content)"
  then obtain content where ok: "utf8_ok (pn_event_id p)" "length (pn_nonce_points p) < 2 ^ 16"
    and b: "b = write_announcement p content" by blast
  let ?ev = "event_body (pn_nonce_points p) (pn_maturity_unix p) content (pn_event_id p)"
  let ?v = "bs (pn_announcement_sig p) @ bs (pn_oracle_pubkey p) @ bigsize_bytes TYPE_ORACLE_EVENT @ varbytes_bytes ?ev"
  have b: "b = bigsize_bytes TYPE_ORACLE_ANNOUNCEMENT @ varbytes_bytes ?v"
    by (simp add: b write_announcement_def oracle_announcement_bytes oracle_event_bytes)
  then have v: "length ?v < 2 ^ 64" using assms length_varbytes [of ?v] by simp
  then have ev: "length ?ev < 2 ^ 64" using length_varbytes [of ?ev] by simp
  have "announcement_parts (decoder_new ?v) = Ok (pn_announcement_sig p, pn_oracle_pubkey p, ?ev)"
    by (rule announcement_parts_complete) (use v in \<open>simp only: before_new\<close>)
  moreover have "event_parts (decoder_new ?ev) = Ok (pn_nonce_points p, pn_maturity_unix p, pn_event_id p)"
    by (rule event_parts_complete [where content = content, OF _ ok]) (use ev in \<open>simp only: before_new\<close>)
  moreover have "tlv_value TYPE_ORACLE_ANNOUNCEMENT b = Ok ?v"
    unfolding tlv_value_Ok [OF assms] by (rule b)
  ultimately show "parse_announcement b = Ok p"
    by (simp add: parse_announcement_def)
qed


definition sample_announcement :: ParsedAnnouncement where
  "sample_announcement = \<lparr>pn_announcement_sig = fill 0, pn_oracle_pubkey = fill 0, pn_nonce_points = [],
    pn_maturity_unix = 0, pn_event_id = []\<rparr>"

theorem parse_announcement_iff_witness:
  "parse_announcement (write_announcement sample_announcement []) = Ok sample_announcement"
proof -
  have "length (write_announcement sample_announcement []) < 2 ^ 64"
    unfolding write_announcement_def oracle_announcement_bytes oracle_event_bytes event_body_def
    by (simp add: sample_announcement_def varbytes_bytes_def bigsize_bytes_def put_bigsize_def
        TYPE_ORACLE_ANNOUNCEMENT_def TYPE_ORACLE_EVENT_def TYPE_DIGIT_DECOMPOSITION_DESCRIPTOR_def)
  then show ?thesis
    using parse_announcement_iff [of "write_announcement sample_announcement []" sample_announcement]
    by (auto simp: sample_announcement_def)
qed

section \<open>Equivocation\<close>

record EquivocationProof =
  qp_event_id :: bytes
  qp_oracle_pubkey :: b32
  qp_digit_index :: u16
  qp_extracted_secret :: b32

datatype EquivocationError =
    Parse ParseError | NotComparable | NoConflict | BadOutcome | BadSignature | ExtractionFailed

definition outcome_digit :: "bytes \<Rightarrow> (EquivocationError, u8) res" where
  "outcome_digit s = (if s = ascii ''0'' then Ok 0 else if s = ascii ''1'' then Ok 1 else Err BadOutcome)"

fun equivocation_loop :: "crypto \<Rightarrow> secp \<Rightarrow> ParsedAttestation \<Rightarrow> ParsedAttestation \<Rightarrow> b32
    \<Rightarrow> (nat \<times> bytes \<times> bytes) list \<Rightarrow> (EquivocationError, EquivocationProof) res" where
  "equivocation_loop C S a b px [] = Err NoConflict"
| "equivocation_loop C S a b px ((i, oa, ob) # rest) =
     rbind (outcome_digit oa) (\<lambda>da.
     rbind (outcome_digit ob) (\<lambda>db.
     if da = db then equivocation_loop C S a b px rest
     else let ma = attestation_msg C da; mb = attestation_msg C db in
       rbind (unwrap (get_at (pa_signatures a) i)) (\<lambda>ga.
       rbind (unwrap (get_at (pa_signatures b) i)) (\<lambda>gb.
       if \<not> bip340_verify S ga ma px then Err BadSignature
       else if \<not> bip340_verify S gb mb px then Err BadSignature
       else if sig_r ga \<noteq> sig_r gb then Err BadSignature
       else rbind (extract_secret C S ga gb ma mb px) (\<lambda>x.
       rbind (ok_or x ExtractionFailed) (\<lambda>extracted.
       Ok \<lparr>qp_event_id = pa_event_id a, qp_oracle_pubkey = pa_oracle_pubkey a,
           qp_digit_index = word_of_nat i, qp_extracted_secret = extracted\<rparr>))))))"

definition verify_equivocation ::
  "crypto \<Rightarrow> secp \<Rightarrow> bytes \<Rightarrow> bytes \<Rightarrow> (EquivocationError, EquivocationProof) res" where
  "verify_equivocation C S att_a_tlv att_b_tlv =
     rbind (map_err Parse (parse_attestation att_a_tlv)) (\<lambda>a.
     rbind (map_err Parse (parse_attestation att_b_tlv)) (\<lambda>b.
     if pa_event_id a \<noteq> pa_event_id b \<or> pa_oracle_pubkey a \<noteq> pa_oracle_pubkey b
         \<or> length (pa_signatures a) \<noteq> length (pa_signatures b) then Err NotComparable
     else rbind (map_err (\<lambda>_. BadSignature) (xonly_key S (pa_oracle_pubkey a))) (\<lambda>px.
     equivocation_loop C S a b px (enumerate 0 (zip (pa_outcomes a) (pa_outcomes b))))))"

text \<open>The digit both attestations were made for, each with its own value.\<close>

definition conflict_at :: "crypto \<Rightarrow> secp \<Rightarrow> ParsedAttestation \<Rightarrow> ParsedAttestation \<Rightarrow> b32 \<Rightarrow> nat \<Rightarrow> bool" where
  "conflict_at C S a b px i \<longleftrightarrow>
     (\<exists>da db. da \<noteq> db \<and> i < length (pa_signatures a) \<and> i < length (pa_signatures b)
       \<and> outcome_digit (pa_outcomes a ! i) = Ok da \<and> outcome_digit (pa_outcomes b ! i) = Ok db
       \<and> bip340_verify S (pa_signatures a ! i) (attestation_msg C da) px
       \<and> bip340_verify S (pa_signatures b ! i) (attestation_msg C db) px
       \<and> sig_r (pa_signatures a ! i) = sig_r (pa_signatures b ! i))"

lemma equivocation_loop_Ok:
  assumes "equivocation_loop C S a b px ps = Ok proof"
    and "\<And>i oa ob. (i, oa, ob) \<in> set ps \<Longrightarrow> oa = pa_outcomes a ! i \<and> ob = pa_outcomes b ! i"
  shows "\<exists>i\<in>fst ` set ps. conflict_at C S a b px i
    \<and> pk_xonly S (pk_of S (qp_extracted_secret proof)) = px
    \<and> proof = \<lparr>qp_event_id = pa_event_id a, qp_oracle_pubkey = pa_oracle_pubkey a,
        qp_digit_index = word_of_nat i, qp_extracted_secret = qp_extracted_secret proof\<rparr>"
  using assms
proof (induction ps)
  case (Cons q ps)
  obtain i oa ob where q: "q = (i, oa, ob)" by (cases q)
  have o': "oa = pa_outcomes a ! i" "ob = pa_outcomes b ! i" using Cons.prems(2) [of i oa ob] q by auto
  obtain da db where d: "outcome_digit oa = Ok da" "outcome_digit ob = Ok db"
    using Cons.prems(1) q by (auto simp: res_simps)
  show ?case
  proof (cases "da = db")
    case True
    then have "equivocation_loop C S a b px ps = Ok proof" using Cons.prems(1) q d by simp
    then show ?thesis using Cons.IH Cons.prems(2) by auto
  next
    case False
    then obtain ga gb x where g: "get_at (pa_signatures a) i = Some ga" "get_at (pa_signatures b) i = Some gb"
      "bip340_verify S ga (attestation_msg C da) px" "bip340_verify S gb (attestation_msg C db) px"
      "sig_r ga = sig_r gb"
      "extract_secret C S ga gb (attestation_msg C da) (attestation_msg C db) px = (Ok (Some x) :: (EquivocationError, _) res)"
      "proof = \<lparr>qp_event_id = pa_event_id a, qp_oracle_pubkey = pa_oracle_pubkey a,
        qp_digit_index = word_of_nat i, qp_extracted_secret = x\<rparr>"
      using Cons.prems(1) q d by (auto simp: res_simps Let_def split: if_splits)
    have "pk_xonly S (pk_of S x) = px"
      using g(6) by (auto simp: extract_secret_def split: if_splits res.splits)
    moreover have "conflict_at C S a b px i"
      unfolding conflict_at_def using False d g(1-5) o'
      by (intro exI [of _ da] exI [of _ db]) (auto simp: get_at_def split: if_splits)
    ultimately show ?thesis using q g(7) by auto
  qed
qed simp

text \<open>
  Evidence that is accepted convicts: both files are attestations by one oracle for one event,
  and at the digit it names they attest different values with valid signatures under one nonce; the
  extracted key is the oracle's own.
\<close>

theorem equivocation_convicts:
  assumes "verify_equivocation C S x y = Ok proof"
  shows "\<exists>a b i. parse_attestation x = Ok a \<and> parse_attestation y = Ok b
    \<and> pa_event_id a = qp_event_id proof \<and> pa_event_id b = qp_event_id proof
    \<and> pa_oracle_pubkey a = qp_oracle_pubkey proof \<and> pa_oracle_pubkey b = qp_oracle_pubkey proof
    \<and> conflict_at C S a b (qp_oracle_pubkey proof) i \<and> qp_digit_index proof = word_of_nat i
    \<and> pk_xonly S (pk_of S (qp_extracted_secret proof)) = qp_oracle_pubkey proof"
proof -
  obtain a b where ab: "parse_attestation x = Ok a" "parse_attestation y = Ok b"
    "pa_event_id a = pa_event_id b" "pa_oracle_pubkey a = pa_oracle_pubkey b"
    "equivocation_loop C S a b (pa_oracle_pubkey a) (enumerate 0 (zip (pa_outcomes a) (pa_outcomes b))) = Ok proof"
    using assms by (auto simp: verify_equivocation_def res_simps)
  have "\<exists>i\<in>fst ` set (enumerate 0 (zip (pa_outcomes a) (pa_outcomes b))). conflict_at C S a b (pa_oracle_pubkey a) i
    \<and> pk_xonly S (pk_of S (qp_extracted_secret proof)) = pa_oracle_pubkey a
    \<and> proof = \<lparr>qp_event_id = pa_event_id a, qp_oracle_pubkey = pa_oracle_pubkey a,
        qp_digit_index = word_of_nat i, qp_extracted_secret = qp_extracted_secret proof\<rparr>"
    by (rule equivocation_loop_Ok [OF ab(5)]) (auto simp: in_set_enumerate_eq)
  then obtain i where "conflict_at C S a b (pa_oracle_pubkey a) i"
    "pk_xonly S (pk_of S (qp_extracted_secret proof)) = pa_oracle_pubkey a"
    "qp_event_id proof = pa_event_id a \<and> qp_oracle_pubkey proof = pa_oracle_pubkey a \<and> qp_digit_index proof = word_of_nat i"
    by (metis EquivocationProof.select_convs(1-3))
  with ab show ?thesis by auto
qed


lemma conflict_extracts:
  assumes laws: "secp_laws C S"
    and valid: "bip340_verify S ga ma px" "bip340_verify S gb mb px" "sig_r ga = sig_r gb"
    and scalars: "sk_ok S (sig_s ga)" "sk_ok S (sig_s gb)"
    and e: "chal C (sig_r ga) px ma \<noteq> 0" "chal C (sig_r ga) px mb \<noteq> 0"
    and unit: "(chal C (sig_r ga) px ma - chal C (sig_r ga) px mb) ^ nat (order_n - 1) = 1"
  shows "\<exists>d. extract_secret C S ga gb ma mb px = (Ok (Some d) :: ('e, _) res) \<and> pk_of S d = x_even S px"
proof -
  have "ma \<noteq> mb"
  proof
    assume "ma = mb"
    with unit have "(0 :: zn) ^ nat (order_n - 1) = 1" by simp
    then show False by (simp add: order_n_def)
  qed
  with nonce_reuse [OF laws valid _ scalars e unit] show ?thesis by blast
qed

lemma equivocation_loop_finds:
  assumes "\<And>j oa ob. (j, oa, ob) \<in> set ps \<Longrightarrow> outcome_digit oa = Ok (dig oa) \<and> outcome_digit ob = Ok (dig ob) \<and> dig oa = dig ob"
    and "outcome_digit oa = Ok da" "outcome_digit ob = Ok db" "da \<noteq> db"
    and "get_at (pa_signatures a) i = Some ga" "get_at (pa_signatures b) i = Some gb"
    and "bip340_verify S ga (attestation_msg C da) px" "bip340_verify S gb (attestation_msg C db) px"
    and "sig_r ga = sig_r gb"
    and "extract_secret C S ga gb (attestation_msg C da) (attestation_msg C db) px = (Ok (Some d) :: (EquivocationError, _) res)"
  shows "equivocation_loop C S a b px (ps @ (i, oa, ob) # rest)
    = Ok \<lparr>qp_event_id = pa_event_id a, qp_oracle_pubkey = pa_oracle_pubkey a,
        qp_digit_index = word_of_nat i, qp_extracted_secret = d\<rparr>"
  using assms(1)
proof (induction ps)
  case Nil
  then show ?case using assms(2-) by (simp add: Let_def)
next
  case (Cons q ps)
  obtain j pa pb where q: "q = (j, pa, pb)" by (cases q)
  then have "outcome_digit pa = Ok (dig pa)" "outcome_digit pb = Ok (dig pa)"
    using Cons.prems [of j pa pb] by auto
  moreover have "equivocation_loop C S a b px (ps @ (i, oa, ob) # rest)
    = Ok \<lparr>qp_event_id = pa_event_id a, qp_oracle_pubkey = pa_oracle_pubkey a,
        qp_digit_index = word_of_nat i, qp_extracted_secret = d\<rparr>"
  proof (rule Cons.IH)
    show "outcome_digit oa = Ok (dig oa) \<and> outcome_digit ob = Ok (dig ob) \<and> dig oa = dig ob"
      if "(k, oa, ob) \<in> set ps" for k oa ob
      using Cons.prems [of k oa ob] that by simp
  qed
  ultimately show ?case by (simp add: q)
qed

lemma enumerate_split:
  assumes "i < length xs"
  shows "enumerate n xs = enumerate n (take i xs) @ (n + i, xs ! i) # enumerate (Suc (n + i)) (drop (Suc i) xs)"
proof -
  have "xs = take i xs @ xs ! i # drop (Suc i) xs" using assms by (rule id_take_nth_drop)
  then have "enumerate n xs = enumerate n (take i xs @ xs ! i # drop (Suc i) xs)" by simp
  also have "\<dots> = enumerate n (take i xs) @ (n + i, xs ! i) # enumerate (Suc (n + i)) (drop (Suc i) xs)"
    using assms by (simp add: enumerate_append_eq)
  finally show ?thesis .
qed

lemma evidence_accepted:
  assumes laws: "secp_laws C S"
    and files: "length x < 2 ^ 64" "length y < 2 ^ 64" "attestation_ok a" "attestation_ok b"
      "write_attestation a = (Ok x :: (ParseError, _) res)" "write_attestation b = (Ok y :: (ParseError, _) res)"
    and same: "pa_event_id b = pa_event_id a" "pa_oracle_pubkey b = pa_oracle_pubkey a"
      "length (pa_signatures b) = length (pa_signatures a)"
    and digit: "i < length (pa_signatures a)" "outcome_digit (pa_outcomes a ! i) = Ok da"
      "outcome_digit (pa_outcomes b ! i) = Ok db" "da \<noteq> db"
    and before_i: "\<forall>j<i. pa_outcomes a ! j = pa_outcomes b ! j \<and> outcome_digit (pa_outcomes a ! j) \<noteq> Err BadOutcome"
    and valid: "bip340_verify S (pa_signatures a ! i) (attestation_msg C da) (pa_oracle_pubkey a)"
      "bip340_verify S (pa_signatures b ! i) (attestation_msg C db) (pa_oracle_pubkey a)"
      "sig_r (pa_signatures a ! i) = sig_r (pa_signatures b ! i)"
    and scalars: "sk_ok S (sig_s (pa_signatures a ! i))" "sk_ok S (sig_s (pa_signatures b ! i))"
    and e: "ea = chal C (sig_r (pa_signatures a ! i)) (pa_oracle_pubkey a) (attestation_msg C da)" "ea \<noteq> 0"
      "eb = chal C (sig_r (pa_signatures a ! i)) (pa_oracle_pubkey a) (attestation_msg C db)" "eb \<noteq> 0"
    and unit: "(ea - eb) ^ nat (order_n - 1) = 1"
  shows "\<exists>d. verify_equivocation C S x y
      = Ok \<lparr>qp_event_id = pa_event_id a, qp_oracle_pubkey = pa_oracle_pubkey a,
          qp_digit_index = word_of_nat i, qp_extracted_secret = d\<rparr>
    \<and> pk_of S d = x_even S (pa_oracle_pubkey a)"
proof -
  let ?px = "pa_oracle_pubkey a"
  obtain d where d: "extract_secret C S (pa_signatures a ! i) (pa_signatures b ! i) (attestation_msg C da)
      (attestation_msg C db) ?px = (Ok (Some d) :: (EquivocationError, _) res)" "pk_of S d = x_even S ?px"
    using conflict_extracts [OF laws valid scalars] e unit by blast
  let ?z = "zip (pa_outcomes a) (pa_outcomes b)"
  have len: "length (pa_outcomes a) = length (pa_signatures a)" "length (pa_outcomes b) = length (pa_signatures a)"
    using files(3,4) same(3) by (simp_all add: attestation_ok_def)
  have split: "enumerate 0 ?z = enumerate 0 (take i ?z) @ (i, pa_outcomes a ! i, pa_outcomes b ! i)
      # enumerate (Suc i) (drop (Suc i) ?z)"
    using enumerate_split [of i ?z 0] digit(1) len by simp
  have loop: "equivocation_loop C S a b ?px (enumerate 0 ?z) = Ok \<lparr>qp_event_id = pa_event_id a,
      qp_oracle_pubkey = ?px, qp_digit_index = word_of_nat i, qp_extracted_secret = d\<rparr>"
    unfolding split
  proof (rule equivocation_loop_finds [where dig = "\<lambda>s. if s = ascii ''0'' then 0 else 1"])
    fix j oa ob
    assume "(j, oa, ob) \<in> set (enumerate 0 (take i ?z))"
    then have "j < i" "oa = pa_outcomes a ! j" "ob = pa_outcomes b ! j"
      using digit(1) len by (auto simp: in_set_enumerate_eq)
    then have "oa = ob" "outcome_digit oa \<noteq> Err BadOutcome" using before_i by metis+
    then show "outcome_digit oa = Ok (if oa = ascii ''0'' then 0 else 1)
      \<and> outcome_digit ob = Ok (if ob = ascii ''0'' then 0 else 1)
      \<and> (if oa = ascii ''0'' then 0 else 1 :: u8) = (if ob = ascii ''0'' then 0 else 1)"
      by (auto simp: outcome_digit_def split: if_splits)
  qed (use digit valid d(1) same(3) in \<open>simp_all add: get_at_def\<close>)
  have px: "x_ok S ?px" using valid(1) verifiedE [OF laws valid(1)] x_ok_xonly [OF laws] by metis
  have "parse_attestation x = Ok a" "parse_attestation y = Ok b"
    using parse_attestation_is [OF files(1)] parse_attestation_is [OF files(2)] files(3-6) by blast+
  then have "verify_equivocation C S x y = Ok \<lparr>qp_event_id = pa_event_id a,
      qp_oracle_pubkey = ?px, qp_digit_index = word_of_nat i, qp_extracted_secret = d\<rparr>"
    using loop same px by (simp add: verify_equivocation_def xonly_key_def)
  with d(2) show ?thesis by blast
qed

text \<open>
  An oracle that attests two prices is convicted. Of two well-formed attestations for one event
  and key that agree up to digit \<open>i\<close> and conflict there, the evidence is accepted and yields the
  oracle's secret key, as long as no scalar and no challenge is zero and the difference of the
  challenges satisfies Fermat's little theorem.
\<close>

theorem equivocation_accepted:
  assumes laws: "secp_laws C S"
    and files: "length x < 2 ^ 64" "length y < 2 ^ 64" "attestation_ok a" "attestation_ok b"
      "write_attestation a = (Ok x :: (ParseError, _) res)" "write_attestation b = (Ok y :: (ParseError, _) res)"
    and same: "pa_event_id b = pa_event_id a" "pa_oracle_pubkey b = pa_oracle_pubkey a"
      "length (pa_signatures b) = length (pa_signatures a)"
    and digit: "i < length (pa_signatures a)" "outcome_digit (pa_outcomes a ! i) = Ok da"
      "outcome_digit (pa_outcomes b ! i) = Ok db" "da \<noteq> db"
    and before_i: "\<forall>j<i. pa_outcomes a ! j = pa_outcomes b ! j \<and> outcome_digit (pa_outcomes a ! j) \<noteq> Err BadOutcome"
    and valid: "bip340_verify S (pa_signatures a ! i) (attestation_msg C da) (pa_oracle_pubkey a)"
      "bip340_verify S (pa_signatures b ! i) (attestation_msg C db) (pa_oracle_pubkey a)"
      "sig_r (pa_signatures a ! i) = sig_r (pa_signatures b ! i)"
    and scalars: "sk_ok S (sig_s (pa_signatures a ! i))" "sk_ok S (sig_s (pa_signatures b ! i))"
    and e: "ea = chal C (sig_r (pa_signatures a ! i)) (pa_oracle_pubkey a) (attestation_msg C da)" "ea \<noteq> 0"
      "eb = chal C (sig_r (pa_signatures a ! i)) (pa_oracle_pubkey a) (attestation_msg C db)" "eb \<noteq> 0"
    and unit: "(ea - eb) ^ nat (order_n - 1) = 1"
  shows "\<exists>d. verify_equivocation C S x y
      = Ok \<lparr>qp_event_id = pa_event_id a, qp_oracle_pubkey = pa_oracle_pubkey a,
          qp_digit_index = word_of_nat i, qp_extracted_secret = d\<rparr>
    \<and> pk_of S d = x_even S (pa_oracle_pubkey a)"
  by (rule evidence_accepted [OF assms])


text \<open>Evidence over the instance whose challenge is the message: one digit, attested both ways.\<close>

lemma replicate_7: "replicate 7 x = [x, x, x, x, x, x, x]"
  by (simp add: eval_nat_numeral)

lemma tail_messages:
  "num (attestation_msg tail_crypto 1) = num (attestation_msg tail_crypto 0) + 1"
  "0 < num (attestation_msg tail_crypto 0)" "num (attestation_msg tail_crypto 1) + 1 < order_n"
  by (simp_all add: attestation_msg_def rail_tagged_hash_def sha256_def tail_crypto_def outcome_def ascii_def
      num_def nat_of_be_def order_n_def bs_barr_of replicate_7 Let_def)

definition sample_evidence :: "u8 \<Rightarrow> ParsedAttestation" where
  "sample_evidence digit =
     \<lparr>pa_event_id = [], pa_oracle_pubkey = pk_xonly (dlog_secp tail_crypto) (point (dlog_secp tail_crypto) 1),
      pa_signatures = [sig_of (pk_xonly (dlog_secp tail_crypto) (point (dlog_secp tail_crypto) 1))
        (enc (1 + val (attestation_msg tail_crypto digit)))],
      pa_outcomes = [outcome digit]\<rparr>"

definition sample_file :: "u8 \<Rightarrow> bytes" where
  "sample_file digit = bigsize_bytes TYPE_ORACLE_ATTESTATION @ varbytes_bytes (attestation_body (sample_evidence digit))"

lemma sample_evidence_file:
  assumes "digit = 0 \<or> digit = 1"
  shows "attestation_ok (sample_evidence digit)" "length (sample_file digit) < 2 ^ 64"
    "write_attestation (sample_evidence digit) = (Ok (sample_file digit) :: (ParseError, _) res)"
proof -
  show ok: "attestation_ok (sample_evidence digit)"
    using assms by (auto simp: attestation_ok_def sample_evidence_def outcome_def ascii_def)
  show "write_attestation (sample_evidence digit) = (Ok (sample_file digit) :: (ParseError, _) res)"
    unfolding sample_file_def by (rule write_attestation_Ok [OF ok])
  show "length (sample_file digit) < 2 ^ 64"
    by (simp add: sample_file_def attestation_body_def sample_evidence_def varbytes_bytes_def bigsize_bytes_def
        put_bigsize_def TYPE_ORACLE_ATTESTATION_def outcome_def ascii_def)
qed

lemma tail_values:
  "val (attestation_msg tail_crypto 0) \<noteq> 0" "val (attestation_msg tail_crypto 1) \<noteq> 0"
  "1 + val (attestation_msg tail_crypto 0) \<noteq> 0" "1 + val (attestation_msg tail_crypto 1) \<noteq> 0"
  "val (attestation_msg tail_crypto 1) - val (attestation_msg tail_crypto 0) = 1"
proof -
  have nz: "zof x \<noteq> 0" if "0 < x" "x < order_n" for x
    using that by (simp add: zn_eq_iff mod_pos_pos_trivial)
  have v: "val (attestation_msg tail_crypto d) = zof (num (attestation_msg tail_crypto d))" for d
    by (simp add: val_def)
  have s: "1 + zof x = zof (1 + x)" for x by (simp add: zof_add)
  show "val (attestation_msg tail_crypto 0) \<noteq> 0" "val (attestation_msg tail_crypto 1) \<noteq> 0"
    "1 + val (attestation_msg tail_crypto 0) \<noteq> 0" "1 + val (attestation_msg tail_crypto 1) \<noteq> 0"
    unfolding v s using tail_messages
    by (intro nz; linarith)+
  show "val (attestation_msg tail_crypto 1) - val (attestation_msg tail_crypto 0) = 1"
    unfolding v tail_messages(1) zof_add by simp
qed

lemma sample_signature:
  assumes "digit = 0 \<or> digit = 1"
  shows "bip340_verify (dlog_secp tail_crypto) (pa_signatures (sample_evidence digit) ! 0)
      (attestation_msg tail_crypto digit) (pa_oracle_pubkey (sample_evidence digit))"
    and "sk_ok (dlog_secp tail_crypto) (sig_s (pa_signatures (sample_evidence digit) ! 0))"
proof -
  note laws = dlog_secp_laws [of tail_crypto]
  have "even_of (dlog_secp tail_crypto) 1 = 1" using small_even [of 1] half_bounds(1) by simp
  from signed_verifies [OF laws one_neq_zero one_neq_zero this this refl refl, of "attestation_msg tail_crypto digit"]
  show "bip340_verify (dlog_secp tail_crypto) (pa_signatures (sample_evidence digit) ! 0)
      (attestation_msg tail_crypto digit) (pa_oracle_pubkey (sample_evidence digit))"
    by (simp add: sample_evidence_def tail_chal)
  show "sk_ok (dlog_secp tail_crypto) (sig_s (pa_signatures (sample_evidence digit) ! 0))"
    using assms tail_values by (auto simp: sample_evidence_def sk_ok_enc [OF laws])
qed

lemma sample_outcomes: "outcome_digit (outcome 0) = Ok 0" "outcome_digit (outcome 1) = Ok 1"
  by (simp_all add: outcome_digit_def outcome_def ascii_def)

lemmas sample_conflict =
  dlog_secp_laws [of tail_crypto]
  sample_evidence_file(2) [OF disjI2 [OF refl]] sample_evidence_file(2) [OF disjI1 [OF refl]]
  sample_evidence_file(1) [OF disjI2 [OF refl]] sample_evidence_file(1) [OF disjI1 [OF refl]]
  sample_evidence_file(3) [OF disjI2 [OF refl]] sample_evidence_file(3) [OF disjI1 [OF refl]]

lemma sample_evidence_simps:
  "pa_event_id (sample_evidence d) = []"
  "pa_oracle_pubkey (sample_evidence d) = pk_xonly (dlog_secp tail_crypto) (point (dlog_secp tail_crypto) 1)"
  "length (pa_signatures (sample_evidence d)) = 1" "pa_outcomes (sample_evidence d) ! 0 = outcome d"
  "sig_r (pa_signatures (sample_evidence d) ! 0) = pk_xonly (dlog_secp tail_crypto) (point (dlog_secp tail_crypto) 1)"
  by (simp_all add: sample_evidence_def)

lemma sample_agree:
  "pa_event_id (sample_evidence 0) = pa_event_id (sample_evidence 1)"
  "pa_oracle_pubkey (sample_evidence 0) = pa_oracle_pubkey (sample_evidence 1)"
  "length (pa_signatures (sample_evidence 0)) = length (pa_signatures (sample_evidence 1))"
  "0 < length (pa_signatures (sample_evidence 1))"
  "outcome_digit (pa_outcomes (sample_evidence 1) ! 0) = Ok 1"
  "outcome_digit (pa_outcomes (sample_evidence 0) ! 0) = Ok 0"
  "(1 :: u8) \<noteq> 0"
  "\<forall>j<0. pa_outcomes (sample_evidence 1) ! j = pa_outcomes (sample_evidence 0) ! j
    \<and> outcome_digit (pa_outcomes (sample_evidence 1) ! j) \<noteq> Err BadOutcome"
  by (simp_all add: sample_evidence_simps sample_outcomes)

lemma sample_valid:
  "bip340_verify (dlog_secp tail_crypto) (pa_signatures (sample_evidence 1) ! 0) (attestation_msg tail_crypto 1)
    (pa_oracle_pubkey (sample_evidence 1))"
  "bip340_verify (dlog_secp tail_crypto) (pa_signatures (sample_evidence 0) ! 0) (attestation_msg tail_crypto 0)
    (pa_oracle_pubkey (sample_evidence 1))"
  "sig_r (pa_signatures (sample_evidence 1) ! 0) = sig_r (pa_signatures (sample_evidence 0) ! 0)"
  "sk_ok (dlog_secp tail_crypto) (sig_s (pa_signatures (sample_evidence 1) ! 0))"
  "sk_ok (dlog_secp tail_crypto) (sig_s (pa_signatures (sample_evidence 0) ! 0))"
  using sample_signature [of 1] sample_signature [of 0] by (simp_all add: sample_evidence_simps)

lemma sample_challenge:
  "chal tail_crypto r x (attestation_msg tail_crypto 1) \<noteq> 0"
  "chal tail_crypto r x (attestation_msg tail_crypto 0) \<noteq> 0"
  "(chal tail_crypto r x (attestation_msg tail_crypto 1) - chal tail_crypto r x (attestation_msg tail_crypto 0))
    ^ nat (order_n - 1) = 1"
  using tail_values by (simp_all add: tail_chal)

theorem equivocation_accepted_witness:
  "\<exists>d. verify_equivocation tail_crypto (dlog_secp tail_crypto) (sample_file 1) (sample_file 0)
      = Ok \<lparr>qp_event_id = [], qp_oracle_pubkey = pa_oracle_pubkey (sample_evidence 1),
          qp_digit_index = 0, qp_extracted_secret = d\<rparr>"
  using equivocation_accepted [OF sample_conflict sample_agree sample_valid refl sample_challenge(1) refl
      sample_challenge(2,3)]
  by (auto simp: sample_evidence_simps(1))

theorem equivocation_convicts_witness:
  "\<exists>pr. verify_equivocation tail_crypto (dlog_secp tail_crypto) (sample_file 1) (sample_file 0) = Ok pr
     \<and> pk_xonly (dlog_secp tail_crypto) (pk_of (dlog_secp tail_crypto) (qp_extracted_secret pr)) = qp_oracle_pubkey pr"
proof -
  obtain pr where "verify_equivocation tail_crypto (dlog_secp tail_crypto) (sample_file 1) (sample_file 0) = Ok pr"
    using evidence_accepted [OF sample_conflict sample_agree sample_valid refl sample_challenge(1) refl
        sample_challenge(2,3)] by blast
  with equivocation_convicts [OF this] show ?thesis by blast
qed

section \<open>The attestation of a price\<close>

lemma decimal_length: "n < 10 ^ k \<Longrightarrow> 0 < k \<Longrightarrow> length (decimal n) \<le> k"
proof (induction n arbitrary: k rule: decimal.induct)
  case (1 n)
  show ?case
  proof (cases "n < 10")
    case True
    then show ?thesis using 1(3) by (subst decimal.simps) simp
  next
    case False
    obtain m where k: "k = Suc m" using 1(3) by (cases k) auto
    then have m: "k = Suc m" "0 < m" using 1(2) False by (cases m; simp)+
    then have "length (decimal (n div 10)) \<le> m" using 1 False by (auto simp: div_less_iff_less_mult mult.commute)
    moreover have "decimal n = decimal (n div 10) @ [word_of_nat (48 + n mod 10)]"
      using False by (subst decimal.simps) simp
    ultimately show ?thesis by (simp add: m)
  qed
qed

lemma event_id_facts: "utf8_ok (event_id ts)" "length (event_id ts) \<le> 34"
proof -
  have "unat ts < 10 ^ 20" by (rule less_trans [OF unat_lt_u64]) simp
  then show "length (event_id ts) \<le> 34" using decimal_length [of "unat ts" 20] by (simp add: event_id_def ascii_def)
  show "utf8_ok (event_id ts)"
  proof (rule ascii_utf8)
    fix c assume "c \<in> set (event_id ts)"
    then consider "c \<in> set (ascii ''SatUSD/BTCUSD/'')" | "48 \<le> c \<and> c \<le> 57"
      using decimal_digits by (auto simp: event_id_def)
    then show "c < 0x80" by cases (auto simp: ascii_def word_le_nat_alt word_less_nat_alt)
  qed
qed

abbreviation served_attestation :: "u64 \<Rightarrow> b32 \<Rightarrow> b64 list \<Rightarrow> u32 \<Rightarrow> ParsedAttestation" where
  "served_attestation ts px sigs price \<equiv> \<lparr>pa_event_id = event_id ts, pa_oracle_pubkey = px, pa_signatures = sigs,
     pa_outcomes = map outcome (digits price)\<rparr>"

lemma bigsize_length: "length (bigsize_bytes v) \<le> 9"
  by (simp add: bigsize_bytes_def put_bigsize_def)

lemma varbytes_length: "length (varbytes_bytes v) \<le> 9 + length v"
  using bigsize_length [of "word_of_nat (length v)"] by (simp add: varbytes_bytes_def)

lemma concat_length: "(\<And>x. x \<in> set xs \<Longrightarrow> length (f x) \<le> k) \<Longrightarrow> length (concat (map f xs)) \<le> k * length xs"
  by (induction xs) (auto intro!: add_mono)

lemma outcome_facts: "utf8_ok (outcome d)" "length (outcome d) = 1"
  by (simp_all add: outcome_def ascii_def)

lemma served_facts:
  assumes w: "oracle_attestation (event_id ts) px sigs (map outcome (digits price)) = (Ok b :: ('e, _) res)"
    and sigs: "length sigs = 20"
  shows "attestation_ok (served_attestation ts px sigs price)" "length b < 2 ^ 64"
    "parse_attestation b = Ok (served_attestation ts px sigs price)"
proof -
  let ?p = "served_attestation ts px sigs price"
  show ok: "attestation_ok ?p" using sigs outcome_facts event_id_facts(1) by (auto simp: attestation_ok_def)
  have "length (concat (map varbytes_bytes (map outcome (digits price)))) \<le> 10 * length (map outcome (digits price))"
  proof (rule concat_length)
    fix x assume "x \<in> set (map outcome (digits price))"
    then have "length x = 1" using outcome_facts by auto
    then show "length (varbytes_bytes x) \<le> 10" using varbytes_length [of x] by simp
  qed
  moreover have "length (concat (map bs sigs)) \<le> 64 * length sigs" by (rule concat_length) simp
  ultimately have "length (attestation_body ?p) \<le> 2000"
    using sigs varbytes_length [of "event_id ts"] event_id_facts(2) [of ts] by (simp add: attestation_body_def)
  then have "length (varbytes_bytes (attestation_body ?p)) \<le> 2009" using varbytes_length [of "attestation_body ?p"] by linarith
  moreover have w': "write_attestation ?p = (Ok b :: ('e, _) res)" using w by (simp add: write_attestation_def)
  ultimately have "length b \<le> 2018"
    using w' [symmetric] bigsize_length [of TYPE_ORACLE_ATTESTATION] by (simp add: write_attestation_Ok [OF ok])
  then show len: "length b < 2 ^ 64" by simp
  show "parse_attestation b = Ok ?p" using parse_attestation_is [where 'e = 'e, OF len, of ?p] ok w' by simp
qed

end
