(* ===== verification/Directory.thy ===== *)
theory Directory
  imports Cohortd Quorum Tlv
begin

text \<open>
  What a cohort that runs over a directory (\<^verbatim>\<open>satusd-oracle/src/cohortd.rs\<close>) publishes: whatever
  the order of its participants' steps, however often they run and fail, the attestation that is
  aggregated parses and verifies as that of one oracle.
\<close>

section \<open>Runs\<close>

text \<open>
  What the participants start from: the sizes of the cohort and each one's seeds. The price and the
  quorum are those each participant is given at a step. \<open>DiskAccepts\<close> is the file system's: from then
  on it takes other writes, and leaves other remains of those it does not take.
\<close>

record cohort_plan =
  cp_n :: u16
  cp_t :: u16
  cp_seed :: "u16 \<Rightarrow> b32"
  cp_nonce_seed :: "u16 \<Rightarrow> b32"

datatype cohort_step =
  DkgRound1 u16 | DkgFinalize u16 | AnnounceCommit u16 u64
| AttestShare u16 u64 u32 "u16 list" | AggregateEvent u64 u32 "u16 list" b32
| DiskAccepts "bytes \<Rightarrow> bool" "bytes \<Rightarrow> nat option"

fun cohort_do :: "crypto \<Rightarrow> secp \<Rightarrow> cohort_plan \<Rightarrow> cohort_step \<Rightarrow> disk \<Rightarrow> disk" where
  "cohort_do C S P (DkgRound1 i) d = snd (dkg_round1 C S d i (cp_n P) (cp_t P) (cp_seed P i))"
| "cohort_do C S P (DkgFinalize i) d = snd (dkg_finalize C S d i (cp_n P) (cp_t P))"
| "cohort_do C S P (AnnounceCommit i ts) d = snd (announce_commit C S d i (cp_nonce_seed P i) ts)"
| "cohort_do C S P (AttestShare i ts price quorum) d =
     snd (attest_share C S d i (cp_nonce_seed P i) ts price quorum)"
| "cohort_do C S P (AggregateEvent ts price quorum px) d = snd (cohort_aggregate C S d ts price quorum px)"
| "cohort_do C S P (DiskAccepts takes leaves) d = d\<lparr>dk_writable := takes, dk_cut := leaves\<rparr>"

section \<open>What the files hold\<close>

definition plan_dealers :: "crypto \<Rightarrow> secp \<Rightarrow> cohort_plan \<Rightarrow> (FrostError, Dealer list) res" where
  "plan_dealers C S P = rmap (\<lambda>i. dealer_new C S i (cp_n P) (cp_t P) (cp_seed P i)) (one_to (cp_n P))"

definition plan_key :: "crypto \<Rightarrow> secp \<Rightarrow> cohort_plan \<Rightarrow> u16 \<Rightarrow> KeyShare \<Rightarrow> bool" where
  "plan_key C S P j key \<longleftrightarrow> (\<exists>ds shares. plan_dealers C S P = Ok ds
     \<and> finalize_key C S j (cp_n P) (cp_t P) (map round1 ds) shares = Ok key)"

text \<open>A nonce commitment depends on the signer's seed and index only.\<close>

definition plan_commit :: "crypto \<Rightarrow> secp \<Rightarrow> cohort_plan \<Rightarrow> u64 \<Rightarrow> u16 \<Rightarrow> (FrostError, NonceCommitment) res" where
  "plan_commit C S P ts j = nonce_commitment C S
     \<lparr>sg_key = \<lparr>ks_index = j, ks_n = 0, ks_t = 0, ks_x = fill 0, ks_group_pubkey = fill 0, ks_pk_odd = False\<rparr>,
      sg_nonce_seed = cp_nonce_seed P j\<rparr> ts"

definition plan_share ::
  "crypto \<Rightarrow> secp \<Rightarrow> cohort_plan \<Rightarrow> u64 \<Rightarrow> u32 \<Rightarrow> u16 list \<Rightarrow> u16 \<Rightarrow> KeyShare \<Rightarrow> SigShare \<Rightarrow> bool" where
  "plan_share C S P ts price quorum j key sh \<longleftrightarrow> plan_key C S P j key \<and> (\<exists>commits.
     rmap (plan_commit C S P ts) quorum = Ok commits
     \<and> sig_share C S \<lparr>sg_key = key, sg_nonce_seed = cp_nonce_seed P j\<rparr> ts price quorum commits = Ok sh)"

text \<open>A file holds a message, or what a write that was cut off has left of it.\<close>

definition holds_hex :: "disk \<Rightarrow> bytes \<Rightarrow> (bytes \<Rightarrow> bool) \<Rightarrow> bool" where
  "holds_hex d name Q \<longleftrightarrow> (\<forall>c. dk_files d name = Some c \<longrightarrow> (\<exists>b k. c = take k (cohort_hex_encode b) \<and> Q b))"

text \<open>\<open>A j ts price quorum\<close>: participant \<open>j\<close> was asked to sign that price with that quorum.\<close>

definition dir_ok :: "crypto \<Rightarrow> secp \<Rightarrow> cohort_plan \<Rightarrow> (u16 \<Rightarrow> u64 \<Rightarrow> u32 \<Rightarrow> u16 list \<Rightarrow> bool) \<Rightarrow> disk \<Rightarrow> bool" where
  "dir_ok C S P A d \<longleftrightarrow>
     (\<forall>i. holds_hex d (r1_file i) (\<lambda>b. \<exists>dl. dealer_new C S i (cp_n P) (cp_t P) (cp_seed P i) = Ok dl \<and> b = encode_round1 (round1 dl)))
     \<and> (\<forall>j. holds_hex d (keyshare_file j) (\<lambda>b. \<exists>key. plan_key C S P j key \<and> b = encode_keyshare key))
     \<and> (\<forall>ts j. holds_hex d (commit_file ts j) (\<lambda>b. \<exists>c. plan_commit C S P ts j = Ok c \<and> b = encode_commit c))
     \<and> (\<forall>ts j. holds_hex d (share_file ts j) (\<lambda>b. \<exists>price quorum key sh. A j ts price quorum
          \<and> plan_share C S P ts price quorum j key sh \<and> b = encode_share sh))"

lemma dir_ok_empty: "dk_files d = Map.empty \<Longrightarrow> dir_ok C S P A d"
  by (simp add: dir_ok_def holds_hex_def)

lemma holds_hex_written: "holds_hex d name Q \<Longrightarrow> (name = n \<Longrightarrow> Q b) \<Longrightarrow> holds_hex (snd (write_hex d n b)) name Q"
proof -
  assume old: "holds_hex d name Q" and new: "name = n \<Longrightarrow> Q b"
  have "\<exists>k. cohort_hex_encode b = take k (cohort_hex_encode b)" by (metis order_refl take_all)
  then show ?thesis
    using old new by (auto simp: write_hex_def fs_write_def holds_hex_def split: option.splits)
qed

lemma write_hex_Ok: "write_hex d n b = (Ok u, d') \<longleftrightarrow> dk_writable d n \<and> d' = d\<lparr>dk_files := (dk_files d)(n \<mapsto> cohort_hex_encode b)\<rparr>"
  by (auto simp: write_hex_def fs_write_def split: option.splits)

section \<open>Reading back\<close>

lemma holds_read:
  assumes "holds_hex d name (\<lambda>b. \<exists>x. Q x \<and> b = enc' x)" and "read_message d name dec = Ok y"
    and "\<And>x. Q x \<Longrightarrow> dec (enc' x) = Some x" and "\<And>b r. dec b = Some y \<Longrightarrow> dec (b @ r) = Some y"
  shows "Q y"
proof -
  obtain c where c: "dk_files d name = Some c" using read_message_present [OF assms(2)] by blast
  with assms(1) obtain x k where x: "Q x" "c = take k (cohort_hex_encode (enc' x))" by (auto simp: holds_hex_def)
  obtain v where v: "read_hex d name = (Ok v :: (FrostError, _) res)" "\<And>c. v = Some c \<Longrightarrow> \<exists>r. enc' x = c @ r"
    using read_hex_cut [of d name k "enc' x"] c x(2) by blast
  obtain u where u: "v = Some u" "dec u = Some y"
    using assms(2) v(1) by (auto simp: read_message_def res_simps)
  with v(2) assms(4) have "dec (enc' x) = Some y" by metis
  with assms(3) [OF x(1)] x(1) show ?thesis by simp
qed

section \<open>Every step keeps the directory in order\<close>

lemma disk_then_inv:
  assumes "I (snd r)" and "\<And>x. fst r = Ok x \<Longrightarrow> I (snd (f x (snd r)))"
  shows "I (snd (disk_then r f))"
  using assms by (cases "(r, f)" rule: disk_then.cases) auto

lemma disk_each_inv:
  assumes "\<And>x d. I d \<Longrightarrow> I (snd (f x d))" and "I d"
  shows "I (snd (disk_each f xs d))"
  using assms(2)
proof (induction xs arbitrary: d)
  case (Cons x xs)
  then show ?case by (simp add: disk_then_inv [where I = I] assms(1))
qed simp

lemmas dir_then = disk_then_inv [where I = "dir_ok C S P A" for C S P A]
lemmas dir_each = disk_each_inv [where I = "dir_ok C S P A" for C S P A]

lemma dir_ok_write:
  assumes "dir_ok C S P A d"
  shows "dealer_new C S i (cp_n P) (cp_t P) (cp_seed P i) = Ok dl \<Longrightarrow> dir_ok C S P A (snd (write_hex d (r1_file i) (encode_round1 (round1 dl))))"
    and "dir_ok C S P A (snd (write_hex d (r2_file i j) b))"
    and "plan_key C S P j key \<Longrightarrow> dir_ok C S P A (snd (write_hex d (keyshare_file j) (encode_keyshare key)))"
    and "plan_commit C S P ts j = Ok c \<Longrightarrow> dir_ok C S P A (snd (write_hex d (commit_file ts j) (encode_commit c)))"
    and "A j ts price quorum \<Longrightarrow> plan_share C S P ts price quorum j key sh \<Longrightarrow> dir_ok C S P A (snd (write_hex d (share_file ts j) (encode_share sh)))"
    and "dir_ok C S P A (snd (write_hex d (ann_file ts) b))" and "dir_ok C S P A (snd (write_hex d (att_file ts) b))"
  using assms unfolding dir_ok_def by (auto 4 4 intro!: holds_hex_written) blast

lemma list_all2_choose:
  "list_all2 (\<lambda>j p. \<exists>x. Q j x \<and> p = f x) js ps \<Longrightarrow> \<exists>xs. list_all2 Q js xs \<and> ps = map f xs"
proof (induction rule: list_all2_induct)
  case (Cons j js p ps)
  then obtain x xs where "Q j x" "p = f x" "list_all2 Q js xs" "ps = map f xs" by blast
  then show ?case by (intro exI [of _ "x # xs"]) simp
qed simp

lemma plan_commit_any:
  "ks_index key = j \<Longrightarrow> nonce_commitment C S \<lparr>sg_key = key, sg_nonce_seed = cp_nonce_seed P j\<rparr> ts = plan_commit C S P ts j"
  by (simp add: plan_commit_def nonce_commitment_def)

lemma plan_key_index: "plan_key C S P j key \<Longrightarrow> ks_index key = j"
  using finalize_key_index by (auto simp: plan_key_def)

lemma plan_commit_index:
  "secp_laws C S \<Longrightarrow> plan_commit C S P ts j = Ok c \<Longrightarrow> nc_index c = j \<and> length (nc_digits c) = 20"
  using nonce_commitment_Ok(1,2) by (fastforce simp: plan_commit_def)

lemma read_round1:
  assumes "dir_ok C S P A d" and "read_message d (r1_file i) decode_round1 = Ok p"
  shows "\<exists>dl. dealer_new C S i (cp_n P) (cp_t P) (cp_seed P i) = Ok dl \<and> p = round1 dl"
proof (rule holds_read [OF _ assms(2) _ decode_round1_more,
      where Q = "\<lambda>p. \<exists>dl. dealer_new C S i (cp_n P) (cp_t P) (cp_seed P i) = Ok dl \<and> p = round1 dl"])
  show "holds_hex d (r1_file i) (\<lambda>b. \<exists>p. (\<exists>dl. dealer_new C S i (cp_n P) (cp_t P) (cp_seed P i) = Ok dl \<and> p = round1 dl)
      \<and> b = encode_round1 p)"
    using assms(1) unfolding dir_ok_def holds_hex_def by blast
  show "decode_round1 (encode_round1 p) = Some p"
    if "\<exists>dl. dealer_new C S i (cp_n P) (cp_t P) (cp_seed P i) = Ok dl \<and> p = round1 dl" for p
    using that decode_encode_round1 [of p "[]"] dealer_new_Ok(2) unat_lt_u16 [of "cp_t P"]
    by (force simp: round1_def)
qed

lemma read_keyshare: "dir_ok C S P A d \<Longrightarrow> load_keyshare d j = Ok key \<Longrightarrow> plan_key C S P j key"
  using holds_read [of d "keyshare_file j" "plan_key C S P j" encode_keyshare decode_keyshare key]
    decode_encode_keyshare [of _ "[]"] decode_keyshare_more
  by (simp add: dir_ok_def load_keyshare_def)

lemma read_commit:
  assumes "secp_laws C S" "dir_ok C S P A d" and "read_message d (commit_file ts j) decode_commit = Ok c"
  shows "plan_commit C S P ts j = Ok c"
proof (rule holds_read [OF _ assms(3) _ decode_commit_more])
  show "holds_hex d (commit_file ts j) (\<lambda>b. \<exists>c. plan_commit C S P ts j = Ok c \<and> b = encode_commit c)"
    using assms(2) by (simp add: dir_ok_def)
  show "decode_commit (encode_commit c) = Some c" if "plan_commit C S P ts j = Ok c" for c
    using decode_encode_commit [of c "[]"] plan_commit_index [OF assms(1) that] by simp
qed

lemma read_commits_Ok:
  assumes "secp_laws C S" "dir_ok C S P A d" "read_commits d ts q = Ok commits"
  shows "rmap (plan_commit C S P ts) q = Ok commits"
  using assms(3) read_commit [OF assms(1,2)] by (auto simp: read_commits_def rmap_Ok elim: list_all2_mono)

lemma read_share:
  assumes "dir_ok C S P A d" and "read_message d (share_file ts j) decode_share = Ok sh"
  shows "\<exists>price quorum key. A j ts price quorum \<and> plan_share C S P ts price quorum j key sh"
proof (rule holds_read [OF _ assms(2) _ decode_share_more,
      where Q = "\<lambda>sh. \<exists>price quorum key. A j ts price quorum \<and> plan_share C S P ts price quorum j key sh"])
  show "holds_hex d (share_file ts j) (\<lambda>b. \<exists>sh. (\<exists>price quorum key. A j ts price quorum
      \<and> plan_share C S P ts price quorum j key sh) \<and> b = encode_share sh)"
    using assms(1) unfolding dir_ok_def holds_hex_def by blast
  fix sh
  assume "\<exists>price quorum key. A j ts price quorum \<and> plan_share C S P ts price quorum j key sh"
  then obtain s price q commits where "sig_share C S s ts price q commits = Ok sh" by (auto simp: plan_share_def)
  then have "length (ss_digits sh) = 20"
    by (auto simp: sig_share_def res_simps rmap_Ok Let_def dest: list_all2_lengthD)
  then show "decode_share (encode_share sh) = Some sh" using decode_encode_share [of sh "[]"] by simp
qed

lemma cohort_do_ok:
  assumes laws: "secp_laws C S" and d: "dir_ok C S P A d"
    and asked: "\<And>j ts price quorum. st = AttestShare j ts price quorum \<Longrightarrow> A j ts price quorum"
  shows "dir_ok C S P A (cohort_do C S P st d)"
proof (cases st)
  case (DkgRound1 i)
  have each: "dir_ok C S P A (snd (disk_each (\<lambda>to d. disk_then (round2_share S dl to, d) (\<lambda>share d.
      write_hex d (r2_file i to) (encode_round2 share))) js d'))" if "dir_ok C S P A d'" for dl js d'
    by (rule dir_each [OF _ that]) (simp add: dir_then dir_ok_write(2))
  show ?thesis
    unfolding DkgRound1 cohort_do.simps dkg_round1_def using d
    by (auto intro!: dir_then each dir_ok_write(1))
next
  case (DkgFinalize i)
  have key: "plan_key C S P i key"
    if read: "rmap (read_dealing d i) (one_to (cp_n P)) = Ok dealings"
      and key: "finalize_key C S i (cp_n P) (cp_t P) (map fst dealings) (map snd dealings) = Ok key" for dealings key
  proof -
    have "list_all2 (\<lambda>j p. \<exists>dl. dealer_new C S j (cp_n P) (cp_t P) (cp_seed P j) = Ok dl \<and> p = round1 dl)
        (one_to (cp_n P)) (map fst dealings)"
      using read unfolding rmap_Ok list_all2_map2
    proof (rule list_all2_mono)
      fix j y
      assume "read_dealing d i j = Ok y"
      then have "read_message d (r1_file j) decode_round1 = Ok (fst y)" by (auto simp: read_dealing_def res_simps)
      then show "\<exists>dl. dealer_new C S j (cp_n P) (cp_t P) (cp_seed P j) = Ok dl \<and> fst y = round1 dl" by (rule read_round1 [OF d])
    qed
    from list_all2_choose [OF this]
    obtain ds where "list_all2 (\<lambda>j dl. dealer_new C S j (cp_n P) (cp_t P) (cp_seed P j) = Ok dl) (one_to (cp_n P)) ds"
      "map fst dealings = map round1 ds"
      by auto
    then show ?thesis using key by (auto simp: plan_key_def plan_dealers_def rmap_Ok)
  qed
  show ?thesis
    unfolding DkgFinalize using d by (auto simp: dkg_finalize_def intro!: dir_then dir_ok_write key)
next
  case (AnnounceCommit i ts)
  show ?thesis
    unfolding AnnounceCommit using d plan_commit_any [OF plan_key_index [OF read_keyshare [OF d]]]
    by (auto simp: announce_commit_def intro!: dir_then dir_ok_write)
next
  case (AttestShare i ts price quorum)
  have share: "plan_share C S P ts price quorum i key sh"
    if "load_keyshare d i = Ok key" "read_commits d ts quorum = Ok commits"
      "sig_share C S \<lparr>sg_key = key, sg_nonce_seed = cp_nonce_seed P i\<rparr> ts price quorum commits = Ok sh"
    for key commits sh
    using that read_keyshare [OF d] read_commits_Ok [OF laws d] by (auto simp: plan_share_def)
  show ?thesis
    unfolding AttestShare cohort_do.simps attest_share_def using d asked [OF AttestShare]
    by (auto intro!: dir_then dir_ok_write(5) share)
next
  case (AggregateEvent ts price quorum px)
  show ?thesis
    unfolding AggregateEvent using d by (auto simp: cohort_aggregate_def intro!: dir_then dir_ok_write)
next
  case (DiskAccepts takes leaves)
  then show ?thesis using d by (simp add: dir_ok_def holds_hex_def)
qed

lemma plan_key_same:
  assumes laws: "secp_laws C S" and a: "plan_key C S P i a" and b: "plan_key C S P j b"
  shows "ks_group_pubkey a = ks_group_pubkey b" "ks_t a = cp_t P"
proof -
  obtain ds sa sb where ds: "plan_dealers C S P = Ok ds"
    and f: "finalize_key C S i (cp_n P) (cp_t P) (map round1 ds) sa = Ok a"
      "finalize_key C S j (cp_n P) (cp_t P) (map round1 ds) sb = Ok b"
    using a b by (auto simp: plan_key_def)
  let ?signer = "\<lambda>k. \<lparr>sg_key = k, sg_nonce_seed = fill 0\<rparr>"
  have dkg: "same_dkg C S (cp_n P) (cp_t P) (map round1 ds) [?signer a, ?signer b]"
    using f finalize_key_index [OF f(1)] finalize_key_index [OF f(2)] by (auto simp: same_dkg_def)
  have len: "length (r1_commitment p) \<le> Max (set (map (length \<circ> r1_commitment) (map round1 ds)))"
    if "p \<in> set (map round1 ds)" for p
    by (rule Max_ge) (use that in auto)
  obtain F where F: "\<And>s. s \<in> set [?signer a, ?signer b] \<Longrightarrow> shares_of S F (sg_key s) \<and> ks_t (sg_key s) = cp_t P"
    by (rule same_dkg_shares [OF laws dkg _ len]) auto
  from F [of "?signer a"] F [of "?signer b"] show "ks_group_pubkey a = ks_group_pubkey b" "ks_t a = cp_t P"
    by (auto simp: shares_of_def)
qed

lemma cohort_runs_ok:
  assumes "secp_laws C S" "dir_ok C S P A d"
    and "\<And>j ts price quorum. AttestShare j ts price quorum \<in> set steps \<Longrightarrow> A j ts price quorum"
  shows "dir_ok C S P A (fold (cohort_do C S P) steps d)"
  using assms(2,3)
proof (induction steps arbitrary: d)
  case (Cons st steps)
  have "dir_ok C S P A (cohort_do C S P st d)"
    by (rule cohort_do_ok [OF assms(1)]) (use Cons.prems in auto)
  then show ?case using Cons by simp
qed simp

section \<open>The aggregated attestation\<close>

lemma quorum_shares:
  assumes "secp_laws C S" "dir_ok C S P A d"
    and "rmap (\<lambda>j. read_message d (share_file ts j) decode_share) quorum = Ok shares"
    and com: "rmap (plan_commit C S P ts) quorum = Ok commits"
    and agreed: "\<And>j price' quorum'. j \<in> set quorum \<Longrightarrow> A j ts price' quorum' \<Longrightarrow> price' = price \<and> quorum' = quorum"
  obtains keys where "map ks_index keys = quorum"
    "\<And>k. k \<in> set keys \<Longrightarrow> plan_key C S P (ks_index k) k"
    "rmap (\<lambda>k. sig_share C S \<lparr>sg_key = k, sg_nonce_seed = cp_nonce_seed P (ks_index k)\<rparr> ts price
      quorum commits) keys = Ok shares"
proof -
  have "list_all2 (\<lambda>sh j. \<exists>k. plan_share C S P ts price quorum j k sh \<and> j = ks_index k) shares quorum"
    unfolding list_all2_conv_all_nth
  proof (intro conjI allI impI)
    have l: "list_all2 (\<lambda>j sh. read_message d (share_file ts j) decode_share = Ok sh) quorum shares"
      using assms(3) by (simp add: rmap_Ok)
    then show "length shares = length quorum" by (simp add: list_all2_lengthD)
    fix i
    assume "i < length shares"
    then have "read_message d (share_file ts (quorum ! i)) decode_share = Ok (shares ! i)"
      using l by (auto simp: list_all2_conv_all_nth)
    moreover have "quorum ! i \<in> set quorum" using l \<open>i < length shares\<close> by (simp add: list_all2_lengthD)
    ultimately obtain k where k: "plan_share C S P ts price quorum (quorum ! i) k (shares ! i)"
      using read_share [OF assms(2)] agreed by metis
    then show "\<exists>k. plan_share C S P ts price quorum (quorum ! i) k (shares ! i) \<and> quorum ! i = ks_index k"
      using plan_key_index by (auto simp: plan_share_def)
  qed
  then have "list_all2 (\<lambda>sh j. \<exists>k. plan_share C S P ts price quorum (ks_index k) k sh \<and> j = ks_index k) shares quorum"
    by (rule list_all2_mono) auto
  from list_all2_choose [OF this] obtain keys where
    keys: "list_all2 (\<lambda>sh k. plan_share C S P ts price quorum (ks_index k) k sh) shares keys" "quorum = map ks_index keys" by auto
  show thesis
  proof (rule that)
    show "map ks_index keys = quorum" using keys(2) by simp
    show "plan_key C S P (ks_index k) k" if "k \<in> set keys" for k
      using keys(1) that by (auto simp: list_all2_conv_all_nth in_set_conv_nth plan_share_def)
    show "rmap (\<lambda>k. sig_share C S \<lparr>sg_key = k, sg_nonce_seed = cp_nonce_seed P (ks_index k)\<rparr> ts price
      quorum commits) keys = Ok shares"
      using keys(1) com by (auto simp: rmap_Ok list_all2_conv_all_nth plan_share_def)
  qed
qed

lemma disk_then_Ok: "disk_then r f = (Ok y, d') \<longleftrightarrow> (\<exists>x d. r = (Ok x, d) \<and> f x d = (Ok y, d'))"
  by (cases "(r, f)" rule: disk_then.cases) auto

lemma aggregate_writes:
  "cohort_aggregate C S d ts price quorum px = (Ok (), d') \<Longrightarrow>
    \<exists>commits ann d1 shares at. read_commits d ts quorum = Ok commits
      \<and> aggregate_announcement C S px ts quorum commits = Ok ann
      \<and> write_hex d (ann_file ts) (an_tlv_bytes ann) = (Ok (), d1)
      \<and> rmap (\<lambda>j. read_message d1 (share_file ts j) decode_share) quorum = Ok shares
      \<and> aggregate_attestation C S px ts price quorum commits shares = Ok at
      \<and> write_hex d1 (att_file ts) (at_tlv_bytes at) = (Ok (), d')"
  by (clarsimp simp: cohort_aggregate_def disk_then_Ok)

lemma aggregated_verifies:
  assumes laws: "secp_laws C S" and d: "dir_ok C S P A d" "dir_ok C S P A d1" and units: "quorum_units quorum"
    and key: "plan_key C S P j key" and com: "read_commits d ts quorum = Ok commits"
    and shares: "rmap (\<lambda>j. read_message d1 (share_file ts j) decode_share) quorum = Ok shares"
    and at: "aggregate_attestation C S px ts price quorum commits shares = Ok at" and i: "i < 20"
    and agreed: "\<And>j price' quorum'. j \<in> set quorum \<Longrightarrow> A j ts price' quorum' \<Longrightarrow> price' = price \<and> quorum' = quorum"
  shows "bip340_verify S (at_signatures at ! i) (attestation_msg C (digits price ! i)) (ks_group_pubkey key)"
proof -
  have commits: "rmap (plan_commit C S P ts) quorum = Ok commits" by (rule read_commits_Ok [OF laws d(1) com])
  obtain keys where keys: "map ks_index keys = quorum" "\<And>k. k \<in> set keys \<Longrightarrow> plan_key C S P (ks_index k) k"
    "rmap (\<lambda>k. sig_share C S \<lparr>sg_key = k, sg_nonce_seed = cp_nonce_seed P (ks_index k)\<rparr> ts price
      quorum commits) keys = Ok shares"
    by (rule quorum_shares [OF laws d(2) shares commits agreed], assumption+, rule that)
  obtain ds where ds: "plan_dealers C S P = Ok ds" using key by (auto simp: plan_key_def)
  let ?signers = "map (\<lambda>k. \<lparr>sg_key = k, sg_nonce_seed = cp_nonce_seed P (ks_index k)\<rparr>) keys"
  have quorum: "quorum = map (\<lambda>s. ks_index (sg_key s)) ?signers" using keys(1) by (simp add: o_def)
  have dkg: "same_dkg C S (cp_n P) (cp_t P) (map round1 ds) ?signers"
    using keys(2) ds by (force simp: same_dkg_def plan_key_def)
  have "keys \<noteq> []" using aggregate_attestation_Ok(1) [OF at] keys(1) by auto
  then obtain k ks where k: "keys = k # ks" by (cases keys) auto
  obtain sh where "sig_share C S \<lparr>sg_key = k, sg_nonce_seed = cp_nonce_seed P (ks_index k)\<rparr> ts price quorum commits = Ok sh"
    using keys(3) by (auto simp: k res_simps)
  then have "unat (ks_t k) \<le> length quorum" by (auto simp: sig_share_def res_simps)
  then have "unat (cp_t P) \<le> length quorum" using plan_key_same(2) [OF laws keys(2) keys(2), of k k] by (simp add: k)
  then have len: "length (r1_commitment p) \<le> length quorum" if "p \<in> set (map round1 ds)" for p
    using that ds dealer_new_Ok(2) by (fastforce simp: plan_dealers_def rmap_Ok list_all2_conv_all_nth in_set_conv_nth round1_def)
  have com': "rmap (\<lambda>s. nonce_commitment C S s ts) ?signers = (Ok commits :: (FrostError, _) res)"
    using commits unfolding keys(1) [symmetric] by (simp add: rmap_map plan_commit_any)
  have sh': "rmap (\<lambda>s. sig_share C S s ts price quorum commits) ?signers = Ok shares"
    using keys(3) by (simp add: rmap_map)
  have "bip340_verify S (at_signatures at ! i) (attestation_msg C (digits price ! i)) (ks_group_pubkey (sg_key (hd ?signers)))"
    using quorum_attests(1) [OF laws quorum units dkg len com' sh' at i, of "hd ?signers"] k by simp
  moreover have "ks_group_pubkey (sg_key (hd ?signers)) = ks_group_pubkey key"
    using plan_key_same(1) [OF laws keys(2) key, of k] by (simp add: k)
  ultimately show ?thesis by simp
qed

lemma served_parses:
  assumes at: "aggregate_attestation C S px ts price quorum commits shares = Ok at"
  shows "parse_attestation (at_tlv_bytes at) = Ok (served_attestation ts px (at_signatures at) price)"
proof -
  have "oracle_attestation (event_id ts) px (at_signatures at) (map outcome (digits price)) = (Ok (at_tlv_bytes at) :: (FrostError, _) res)"
    using at by (auto simp: aggregate_attestation_def res_simps Let_def)
  then show ?thesis by (rule served_facts(3)) (rule aggregate_attestation_Ok(2) [OF at])
qed

text \<open>
  C34: Whatever the participants of a cohort do from their seeds over a directory that starts empty, in any
  order, any number of times, for any prices and quorums, and whichever writes fail when and leave whatever part of
  the content: an aggregation that succeeds publishes an attestation that parses as that of one oracle
  with the group key, with the event, the price's outcomes and twenty signatures, each of which verifies
  its digit under that key, provided that the members of its quorum signed for this event no other price
  or quorum (the aggregator does not check) and that the differences of their indices are invertible
  modulo the group order (as they are for a prime order).
\<close>

theorem directory_attests:
  assumes "secp_laws C S" and "dk_files d0 = Map.empty" and "quorum_units quorum"
    and "\<forall>j\<in>set quorum. \<forall>price' quorum'. AttestShare j ts price' quorum' \<in> set steps
      \<longrightarrow> price' = price \<and> quorum' = quorum"
    and "fold (cohort_do C S P) steps d0 = d" and "load_keyshare d j = Ok key"
    and "cohort_aggregate C S d ts price quorum (ks_group_pubkey key) = (Ok (), d')"
  shows "\<exists>b sigs. read_hex d' (att_file ts) = (Ok (Some b) :: (FrostError, _) res)
    \<and> parse_attestation b = Ok \<lparr>pa_event_id = event_id ts, pa_oracle_pubkey = ks_group_pubkey key,
        pa_signatures = sigs, pa_outcomes = map outcome (digits price)\<rparr>
    \<and> (\<forall>i < 20. bip340_verify S (sigs ! i) (attestation_msg C (digits price ! i)) (ks_group_pubkey key))"
proof -
  define A where "A j ts price quorum \<longleftrightarrow> AttestShare j ts price quorum \<in> set steps" for j ts price quorum
  have d: "dir_ok C S P A d"
    using cohort_runs_ok [OF assms(1) dir_ok_empty [OF assms(2)], of steps A P] assms(5) by (simp add: A_def)
  have key: "plan_key C S P j key" by (rule read_keyshare [OF d assms(6)])
  from aggregate_writes [OF assms(7)]
  obtain commits ann d1 shares at where com: "read_commits d ts quorum = Ok commits"
    and ann: "aggregate_announcement C S (ks_group_pubkey key) ts quorum commits = Ok ann"
    and d1: "write_hex d (ann_file ts) (an_tlv_bytes ann) = (Ok (), d1)"
    and shares: "rmap (\<lambda>j. read_message d1 (share_file ts j) decode_share) quorum = Ok shares"
    and at: "aggregate_attestation C S (ks_group_pubkey key) ts price quorum commits shares = Ok at"
    and d': "write_hex d1 (att_file ts) (at_tlv_bytes at) = (Ok (), d')"
    by blast
  have ok1: "dir_ok C S P A d1" using dir_ok_write(6) [OF d, of ts "an_tlv_bytes ann"] d1 by simp
  have v: "bip340_verify S (at_signatures at ! i) (attestation_msg C (digits price ! i)) (ks_group_pubkey key)" if "i < 20" for i
    by (rule aggregated_verifies [OF assms(1) d ok1 assms(3) key com shares at that]) (use assms(4) in \<open>simp add: A_def\<close>)
  have "read_hex d' (att_file ts) = (Ok (Some (at_tlv_bytes at)) :: (FrostError, _) res)"
    using d' by (auto simp: write_hex_Ok intro!: read_hex_encoded)
  then show ?thesis using served_parses [OF at] v by blast
qed

section \<open>A cohort of two over a directory\<close>

definition unit_plan :: cohort_plan where
  "unit_plan = \<lparr>cp_n = 2, cp_t = 2, cp_seed = (\<lambda>_. fill 0), cp_nonce_seed = (\<lambda>_. enc 1)\<rparr>"

definition open_disk :: "(bytes \<rightharpoonup> bytes) \<Rightarrow> disk" where
  "open_disk f = \<lparr>dk_files = f, dk_created = True, dk_writable = (\<lambda>_. True), dk_cut = (\<lambda>_. None)\<rparr>"

lemma open_disk_simps [simp]: "dk_files (open_disk f) = f"
  "write_hex (open_disk f) name b = (Ok (), open_disk (f(name \<mapsto> cohort_hex_encode b)))"
  by (simp_all add: open_disk_def write_hex_def fs_write_def)

lemma read_open: "f name = Some (cohort_hex_encode b) \<Longrightarrow> read_message (open_disk f) name dec = ok_or (dec b) MissingMessage"
  by (simp add: read_message_encoded)

abbreviation unit_share2 :: "u16 \<Rightarrow> u16 \<Rightarrow> Round2Share" where
  "unit_share2 i j \<equiv> \<lparr>r2_from = i, r2_to = j, r2_share = enc (xi j + 1)\<rparr>"

abbreviation unit_nonces :: "u16 \<Rightarrow> NonceCommitment" where
  "unit_nonces j \<equiv> \<lparr>nc_index = j, nc_digits = replicate 20 (point US 1, point US 1)\<rparr>"

lemma one_to_two: "one_to 2 = [1, 2]"
  unfolding one_to_def by (rule two_dealers(2))

lemma unit_round1_step:
  "i = 1 \<or> i = 2 \<Longrightarrow> cohort_do unit_crypto US unit_plan (DkgRound1 i) (open_disk f) =
     open_disk (f(r1_file i \<mapsto> cohort_hex_encode (encode_round1 (round1 (unit_dealer i))),
       r2_file i 1 \<mapsto> cohort_hex_encode (encode_round2 (unit_share2 i 1)),
       r2_file i 2 \<mapsto> cohort_hex_encode (encode_round2 (unit_share2 i 2))))"
  by (auto simp: dkg_round1_def unit_plan_def unit_dealer_new unit_round2 one_to_two) (simp_all add: open_disk_def)

lemma unit_decode_round1: "decode_round1 (encode_round1 (round1 (unit_dealer i))) = Some (round1 (unit_dealer i))"
  using decode_encode_round1 [of "round1 (unit_dealer i)" "[]"] by (simp add: round1_def unit_dealer_def)

lemma unit_finalize_step:
  assumes "j = 1 \<or> j = 2"
    and "f (r1_file 1) = Some (cohort_hex_encode (encode_round1 (round1 (unit_dealer 1))))"
      "f (r1_file 2) = Some (cohort_hex_encode (encode_round1 (round1 (unit_dealer 2))))"
    and "f (r2_file 1 j) = Some (cohort_hex_encode (encode_round2 (unit_share2 1 j)))"
      "f (r2_file 2 j) = Some (cohort_hex_encode (encode_round2 (unit_share2 2 j)))"
  shows "cohort_do unit_crypto US unit_plan (DkgFinalize j) (open_disk f) =
    open_disk (f(keyshare_file j \<mapsto> cohort_hex_encode (encode_keyshare (unit_key j (2 * xi j + 2)))))"
proof -
  have "rmap (read_dealing (open_disk f) j) (one_to 2) =
      Ok [(round1 (unit_dealer 1), unit_share2 1 j), (round1 (unit_dealer 2), unit_share2 2 j)]"
    using decode_encode_round2 [of _ "[]"] assms(2-)
    by (simp add: one_to_two read_dealing_def read_open unit_decode_round1)
  then show ?thesis by (simp add: dkg_finalize_def unit_plan_def unit_finalize [OF assms(1)])
qed

lemma unit_load: "f (keyshare_file j) = Some (cohort_hex_encode (encode_keyshare key)) \<Longrightarrow> load_keyshare (open_disk f) j = Ok key"
  using decode_encode_keyshare [of key "[]"] by (simp add: load_keyshare_def read_open)

lemma unit_commit_step:
  assumes "f (keyshare_file j) = Some (cohort_hex_encode (encode_keyshare (unit_key j x)))"
  shows "cohort_do unit_crypto US unit_plan (AnnounceCommit j ts) (open_disk f) =
    open_disk (f(commit_file ts j \<mapsto> cohort_hex_encode (encode_commit (unit_nonces j))))"
  by (simp add: announce_commit_def unit_load [where f = f, OF assms] unit_plan_def unit_commitment)

lemma unit_read_commits:
  assumes "f (commit_file ts 1) = Some (cohort_hex_encode (encode_commit (unit_nonces 1)))"
    "f (commit_file ts 2) = Some (cohort_hex_encode (encode_commit (unit_nonces 2)))"
  shows "read_commits (open_disk f) ts [1, 2] = Ok unit_commits"
  using decode_encode_commit [of "unit_nonces _" "[]"] assms
  by (simp add: read_commits_def read_open unit_commits_def)

lemma unit_key_values: "2 * xi 1 + 2 = (4 :: zn)" "2 * xi 2 + 2 = (6 :: zn)"
  by (simp_all add: xi_small)

lemma unit_share_step:
  assumes "j = 1 \<or> j = 2" and "f (keyshare_file j) = Some (cohort_hex_encode (encode_keyshare (unit_key j (2 * xi j + 2))))"
    and "f (commit_file ts 1) = Some (cohort_hex_encode (encode_commit (unit_nonces 1)))"
      "f (commit_file ts 2) = Some (cohort_hex_encode (encode_commit (unit_nonces 2)))"
  shows "cohort_do unit_crypto US unit_plan (AttestShare j ts 60123 [1, 2]) (open_disk f) =
    open_disk (f(share_file ts j \<mapsto> cohort_hex_encode (encode_share (unit_shares ! (unat j - 1)))))"
  using assms(1)
  by (auto simp: attest_share_def unit_load [where f = f, OF assms(2)] unit_plan_def
      unit_read_commits [where f = f, OF assms(3,4)] unit_key_values unit_sig_share unit_shares_def)

definition unit_steps :: "cohort_step list" where
  "unit_steps = [DkgRound1 2, DkgRound1 1, DkgFinalize 2, DkgFinalize 1, AnnounceCommit 1 0, AnnounceCommit 2 0,
     AttestShare 2 0 60123 [1, 2], AttestShare 1 0 60123 [1, 2]]"

abbreviation unit_dealt :: "bytes \<rightharpoonup> bytes" where
  "unit_dealt \<equiv> [
     r1_file 2 \<mapsto> cohort_hex_encode (encode_round1 (round1 (unit_dealer 2))),
     r2_file 2 1 \<mapsto> cohort_hex_encode (encode_round2 (unit_share2 2 1)),
     r2_file 2 2 \<mapsto> cohort_hex_encode (encode_round2 (unit_share2 2 2)),
     r1_file 1 \<mapsto> cohort_hex_encode (encode_round1 (round1 (unit_dealer 1))),
     r2_file 1 1 \<mapsto> cohort_hex_encode (encode_round2 (unit_share2 1 1)),
     r2_file 1 2 \<mapsto> cohort_hex_encode (encode_round2 (unit_share2 1 2))]"

definition unit_files :: "bytes \<rightharpoonup> bytes" where
  "unit_files = unit_dealt(
     keyshare_file 2 \<mapsto> cohort_hex_encode (encode_keyshare (unit_key 2 (2 * xi 2 + 2))),
     keyshare_file 1 \<mapsto> cohort_hex_encode (encode_keyshare (unit_key 1 (2 * xi 1 + 2))),
     commit_file 0 1 \<mapsto> cohort_hex_encode (encode_commit (unit_nonces 1)),
     commit_file 0 2 \<mapsto> cohort_hex_encode (encode_commit (unit_nonces 2)),
     share_file 0 2 \<mapsto> cohort_hex_encode (encode_share (unit_shares ! (unat (2 :: u16) - 1))),
     share_file 0 1 \<mapsto> cohort_hex_encode (encode_share (unit_shares ! (unat (1 :: u16) - 1))))"

lemma unit_run: "fold (cohort_do unit_crypto US unit_plan) unit_steps (open_disk Map.empty) = open_disk unit_files"
  by (simp add: unit_steps_def unit_files_def unit_round1_step unit_finalize_step unit_commit_step unit_share_step
      del: cohort_do.simps)

lemma unit_key_loaded: "load_keyshare (open_disk unit_files) 1 = Ok (unit_key 1 4)"
  by (rule unit_load) (simp add: unit_files_def unit_key_values)

lemma unit_published:
  obtains an at where "aggregate_announcement unit_crypto US (pk_xonly US (point US 2)) 0 [1, 2] unit_commits = Ok an"
    "aggregate_attestation unit_crypto US (pk_xonly US (point US 2)) 0 60123 [1, 2] unit_commits unit_shares = Ok at"
proof -
  have co: "quorum_signers unit_cohort [1, 2] = Ok (co_signers unit_cohort)"
    by (simp add: quorum_signers_def unit_cohort_def unit_check get_at_def)
  have nonces: "rmap (\<lambda>s. nonce_commitment unit_crypto US s 0) (co_signers unit_cohort) = (Ok unit_commits :: (FrostError, _) res)"
    by (simp add: unit_cohort_def unit_commitment unit_commits_def)
  have sh: "rmap (\<lambda>s. sig_share unit_crypto US s 0 60123 [1, 2] unit_commits) (co_signers unit_cohort) = Ok unit_shares"
    by (simp add: unit_cohort_def unit_sig_share unit_shares_def)
  show thesis
    using unit_announces [of 0] unit_attests [of 0 60123] that
    unfolding cohort_announce_def cohort_attest_def co nonces sh rbind.simps by (auto simp: unit_cohort_def)
qed

lemma unit_aggregates:
  "\<exists>d'. cohort_aggregate unit_crypto US (open_disk unit_files) 0 60123 [1, 2] (pk_xonly US (point US 2)) = (Ok (), d')"
proof -
  have com: "read_commits (open_disk unit_files) 0 [1, 2] = Ok unit_commits"
    by (rule unit_read_commits) (simp_all add: unit_files_def)
  obtain an at where an: "aggregate_announcement unit_crypto US (pk_xonly US (point US 2)) 0 [1, 2] unit_commits = Ok an"
    and at: "aggregate_attestation unit_crypto US (pk_xonly US (point US 2)) 0 60123 [1, 2] unit_commits unit_shares = Ok at"
    by (rule unit_published)
  have read: "read_message (open_disk (unit_files(ann_file 0 \<mapsto> c))) (share_file 0 1) decode_share = Ok (unit_shares ! 0)"
    "read_message (open_disk (unit_files(ann_file 0 \<mapsto> c))) (share_file 0 2) decode_share = Ok (unit_shares ! 1)" for c
    by (simp_all add: unit_files_def read_open unit_shares_def decode_encode_share [where rest = "[]", simplified])
  have l: "[unit_shares ! 0, unit_shares ! Suc 0] = unit_shares" by (simp add: unit_shares_def)
  show ?thesis by (simp add: cohort_aggregate_def com an read l at)
qed

theorem directory_attests_witness:
  "\<exists>d' b p. cohort_aggregate unit_crypto US (open_disk unit_files) 0 60123 [1, 2] (pk_xonly US (point US 2)) = (Ok (), d')
     \<and> read_hex d' (att_file 0) = (Ok (Some b) :: (FrostError, _) res) \<and> parse_attestation b = Ok p
     \<and> bip340_verify US (pa_signatures p ! 7) (attestation_msg unit_crypto (digits 60123 ! 7)) (pk_xonly US (point US 2))"
proof -
  obtain d' where d': "cohort_aggregate unit_crypto US (open_disk unit_files) 0 60123 [1, 2] (pk_xonly US (point US 2)) = (Ok (), d')"
    using unit_aggregates by blast
  have "dk_files (open_disk Map.empty) = Map.empty" by simp
  note empty = this
  have signed: "\<forall>j\<in>set [1, 2]. \<forall>price' quorum'. AttestShare j 0 price' quorum' \<in> set unit_steps
      \<longrightarrow> price' = 60123 \<and> quorum' = [1, 2]"
    by (auto simp: unit_steps_def)
  from directory_attests [OF us empty unit_quorum signed unit_run unit_key_loaded, where d' = d'] d' show ?thesis
    by (auto simp: unit_key_def)
qed

text \<open>
  C38: The announcement that a cohort publishes is refused by the announcement parser: it is the bare
  oracle event, without the signature and the key of an oracle announcement.
\<close>

theorem cohort_announcement_refused:
  assumes "aggregate_announcement C S px ts quorum commits = Ok ann"
  shows "parse_announcement (an_tlv_bytes ann) = Err (WrongType TYPE_ORACLE_EVENT)"
proof -
  obtain points where points: "length points = 20"
    and ann: "an_tlv_bytes ann = oracle_event points (ucast ts) (digit_descriptor BASE False (ascii ''USD/BTC'') 0 NB_DIGITS) (event_id ts)"
    using assms by (auto simp: aggregate_announcement_def res_simps rmap_Ok Let_def NB_DIGITS_def dest: list_all2_lengthD)
  note big = bigsize_length and var = varbytes_length
  define content where "content = emit [put_u16 BASE, put_bool False, put_string (ascii ''USD/BTC''), put_i32 0, put_u16 NB_DIGITS] []"
  have d: "digit_descriptor BASE False (ascii ''USD/BTC'') 0 NB_DIGITS = oracle_tlv TYPE_DIGIT_DECOMPOSITION_DESCRIPTOR content"
    by (simp add: digit_descriptor_def content_def)
  have content: "length content \<le> 100"
    using var [of "ascii ''USD/BTC''"] by (simp add: content_def put_simps ascii_def)
  have "length (concat (map bs ps)) = 32 * length ps" for ps :: "b32 list" by (induction ps) simp_all
  then have "length (concat (map bs points)) = 640" using points by simp
  then have "length (event_body points (ucast ts) content (event_id ts)) \<le> 1000"
    using var [of content] var [of "event_id ts"] content event_id_facts(2) [of ts] big [of TYPE_DIGIT_DECOMPOSITION_DESCRIPTOR]
    by (simp add: event_body_def)
  then have "length (an_tlv_bytes ann) \<le> 1018"
    using var [of "event_body points (ucast ts) content (event_id ts)"] big [of TYPE_ORACLE_EVENT]
    by (simp add: ann d oracle_event_bytes)
  then have "before (decoder_new (an_tlv_bytes ann)) (an_tlv_bytes ann)" by (simp add: before_new)
  then have "before (decoder_new (an_tlv_bytes ann)) (bigsize_bytes TYPE_ORACLE_EVENT @ varbytes_bytes (event_body points (ucast ts) content (event_id ts)))"
    by (simp add: ann d oracle_event_bytes)
  from bigsize_codec.complete [OF this] show ?thesis
    by (auto simp: parse_announcement_def tlv_value_def TYPE_ORACLE_EVENT_def TYPE_ORACLE_ANNOUNCEMENT_def)
qed

theorem cohort_announcement_refused_witness:
  "\<exists>an. aggregate_announcement unit_crypto US (pk_xonly US (point US 2)) 0 [1, 2] unit_commits = Ok an
     \<and> parse_announcement (an_tlv_bytes an) = Err (WrongType TYPE_ORACLE_EVENT)"
proof -
  obtain an where "aggregate_announcement unit_crypto US (pk_xonly US (point US 2)) 0 [1, 2] unit_commits = Ok an"
    by (rule unit_published)
  with cohort_announcement_refused [OF this] show ?thesis by blast
qed

text \<open>A file with a character of several bytes makes its reader panic.\<close>

lemma multibyte_file_panics:
  assumes "dk_files d name = Some [0x30, 0xC3, 0xA9, 0x30]"
  shows "read_message d name dec = Panic"
proof -
  have "trim [0x30, 0xC3, 0xA9, 0x30] = [0x30, 0xC3, 0xA9, 0x30]" by (simp add: trim_def strip_codes.simps ws_codes_def)
  then show ?thesis
    using assms by (simp add: read_message_def read_hex_def cohort_hex_decode_def utf8_tail_def)
qed

end
