(* ===== verification/Daemon.thy ===== *)
theory Daemon
  imports Cohortd Tlv Market "HOL-Library.While_Combinator"
begin

text \<open>
  The oracle daemon (\<^verbatim>\<open>satusd-oracle/src/bin/oracled.rs\<close>): ticks announced ahead and attested at
  maturity into a directory, and the directory served over HTTP. The clock, the cache of the live
  price and what the disk accepts are inputs.
\<close>

section \<open>The daemon\<close>

definition LEAD_TICKS :: u64 where "LEAD_TICKS = 120"
definition CROSS_CHECK_BAND_BPS :: u32 where "CROSS_CHECK_BAND_BPS = 100"
definition STALE_S :: u64 where "STALE_S = 120"

datatype DaemonError = OracleFailed | IoFailed

text \<open>
  The two counters of the main loop, the directory, and the lines printed for attested ticks.
\<close>

record daemon =
  dm_next_announce :: u64
  dm_last_attested :: u64
  dm_dir :: disk
  dm_printed :: "(u64 \<times> u32) list"

definition live_current :: "(u64 \<times> u32) option \<Rightarrow> u64 \<Rightarrow> u32 option" where
  "live_current cached now =
     Option.bind cached (\<lambda>(at, p). if saturating_sub now at \<le> STALE_S then Some p else None)"

definition write_file :: "bytes \<Rightarrow> bytes \<Rightarrow> daemon \<Rightarrow> (DaemonError, unit) res \<times> daemon" where
  "write_file name content dm =
     (case fs_write (dm_dir dm) name content of
        (ok, dir) \<Rightarrow> (if ok then Ok () else Err IoFailed, dm\<lparr>dm_dir := dir\<rparr>))"

definition latest_file :: bytes where
  "latest_file = ascii ''latest.txt''"

fun daemon_then :: "('e, 'a) res \<times> daemon \<Rightarrow> ('a \<Rightarrow> daemon \<Rightarrow> ('e, 'b) res \<times> daemon) \<Rightarrow> ('e, 'b) res \<times> daemon" where
  "daemon_then (Ok x, d) f = f x d"
| "daemon_then (Err e, d) f = (Err e, d)"
| "daemon_then (Panic, d) f = (Panic, d)"

definition tick_of :: "u64 \<Rightarrow> u64 \<Rightarrow> u64" where
  "tick_of cadence now = now - now mod cadence"

definition daemon_start :: "u64 \<Rightarrow> u64 \<Rightarrow> disk \<Rightarrow> (DaemonError, daemon) res" where
  "daemon_start cadence now dir =
     (if cadence = 0 then Panic
      else let next = tick_of cadence now in
        Ok \<lparr>dm_next_announce = next, dm_last_attested = saturating_sub next cadence, dm_dir = dir, dm_printed = []\<rparr>)"

definition announce_step :: "crypto \<Rightarrow> secp \<Rightarrow> OracleKeys \<Rightarrow> u64 \<Rightarrow> daemon \<Rightarrow> (DaemonError, unit) res \<times> daemon" where
  "announce_step C S oracle cadence dm =
     daemon_then (map_err (\<lambda>_. OracleFailed) (announce C S oracle (dm_next_announce dm)), dm) (\<lambda>ann dm.
     daemon_then (write_file (ann_file (dm_next_announce dm)) (cohort_hex_encode (an_tlv_bytes ann)) dm) (\<lambda>_ dm.
     (Ok (), dm\<lparr>dm_next_announce := dm_next_announce dm + cadence\<rparr>)))"

definition announce_until ::
  "crypto \<Rightarrow> secp \<Rightarrow> OracleKeys \<Rightarrow> u64 \<Rightarrow> u64 \<Rightarrow> daemon \<Rightarrow> ((DaemonError, unit) res \<times> daemon) option" where
  "announce_until C S oracle cadence horizon dm =
     while_option (\<lambda>(r, dm). r = Ok () \<and> dm_next_announce dm \<le> horizon)
       (\<lambda>(_, dm). announce_step C S oracle cadence dm) (Ok (), dm)"

definition publish_tick :: "crypto \<Rightarrow> secp \<Rightarrow> OracleKeys \<Rightarrow> u64 \<Rightarrow> u32 \<Rightarrow> daemon \<Rightarrow> (DaemonError, unit) res \<times> daemon" where
  "publish_tick C S oracle t p dm =
     daemon_then (map_err (\<lambda>_. OracleFailed) (attest C S oracle t p), dm) (\<lambda>att dm.
     daemon_then (write_file (att_file t) (cohort_hex_encode (at_tlv_bytes att)) dm) (\<lambda>_ dm.
     daemon_then (write_file latest_file (decimal (unat t)) dm) (\<lambda>_ dm.
     (Ok (), dm\<lparr>dm_printed := dm_printed dm @ [(t, p)]\<rparr>))))"

text \<open>
  One tick. The cache of the live price is read twice, for the price and for the cross-check, and may
  change in between.
\<close>

definition attest_step ::
  "crypto \<Rightarrow> secp \<Rightarrow> OracleKeys \<Rightarrow> u32 option \<Rightarrow> u64 \<Rightarrow> (u64 \<Rightarrow> (u64 \<times> u32) option \<times> (u64 \<times> u32) option) \<Rightarrow> u64 \<Rightarrow> u64
    \<Rightarrow> daemon \<Rightarrow> (DaemonError, unit) res \<times> daemon" where
  "attest_step C S oracle fixed_price cadence caches now tick dm =
     (let t = dm_last_attested dm + cadence; dm = dm\<lparr>dm_last_attested := t\<rparr> in
      if tick - t > 30 then (Ok (), dm)
      else case (case fixed_price of Some p \<Rightarrow> Some p | None \<Rightarrow> live_current (fst (caches t)) now) of
        None \<Rightarrow> (Ok (), dm)
      | Some p \<Rightarrow>
          (case live_current (snd (caches t)) now of
             Some r \<Rightarrow> if \<not> within_band p r CROSS_CHECK_BAND_BPS \<and> fixed_price = None then (Ok (), dm)
                       else publish_tick C S oracle t p dm
           | None \<Rightarrow> publish_tick C S oracle t p dm))"

definition attest_until ::
  "crypto \<Rightarrow> secp \<Rightarrow> OracleKeys \<Rightarrow> u32 option \<Rightarrow> u64 \<Rightarrow> (u64 \<Rightarrow> (u64 \<times> u32) option \<times> (u64 \<times> u32) option) \<Rightarrow> u64 \<Rightarrow> u64
    \<Rightarrow> daemon \<Rightarrow> ((DaemonError, unit) res \<times> daemon) option" where
  "attest_until C S oracle fixed_price cadence caches now tick dm =
     while_option (\<lambda>(r, dm). r = Ok () \<and> dm_last_attested dm < tick)
       (\<lambda>(_, dm). attest_step C S oracle fixed_price cadence caches now tick dm) (Ok (), dm)"

text \<open>One pass of the main loop; none when a loop in it does not end.\<close>

definition daemon_pass ::
  "crypto \<Rightarrow> secp \<Rightarrow> OracleKeys \<Rightarrow> u32 option \<Rightarrow> u64 \<Rightarrow> (u64 \<Rightarrow> (u64 \<times> u32) option \<times> (u64 \<times> u32) option) \<Rightarrow> u64
    \<Rightarrow> daemon \<Rightarrow> ((DaemonError, unit) res \<times> daemon) option" where
  "daemon_pass C S oracle fixed_price cadence caches now dm =
     (if cadence = 0 then Some (Panic, dm)
      else let tick = tick_of cadence now; horizon = tick + LEAD_TICKS * cadence in
        Option.bind (announce_until C S oracle cadence horizon dm) (\<lambda>(r, dm).
        case r of
          Ok _ \<Rightarrow> attest_until C S oracle fixed_price cadence caches now tick dm
        | _ \<Rightarrow> Some (r, dm)))"

text \<open>The passes of a run, each with its clock and caches, up to the first that fails.\<close>

fun daemon_run ::
  "crypto \<Rightarrow> secp \<Rightarrow> OracleKeys \<Rightarrow> u32 option \<Rightarrow> u64
    \<Rightarrow> (u64 \<times> (u64 \<Rightarrow> (u64 \<times> u32) option \<times> (u64 \<times> u32) option)) list
    \<Rightarrow> daemon \<Rightarrow> ((DaemonError, unit) res \<times> daemon) option" where
  "daemon_run C S oracle fixed_price cadence [] dm = Some (Ok (), dm)"
| "daemon_run C S oracle fixed_price cadence ((now, caches) # rest) dm =
     Option.bind (daemon_pass C S oracle fixed_price cadence caches now dm) (\<lambda>(r, dm).
     case r of
       Ok _ \<Rightarrow> daemon_run C S oracle fixed_price cadence rest dm
     | _ \<Rightarrow> Some (r, dm))"

section \<open>The HTTP surface\<close>

definition parse_u64 :: "bytes \<Rightarrow> u64 option" where
  "parse_u64 s = map_option word_of_nat (from_str_radix dec_digit 10 (2 ^ 64) s)"

definition read_file :: "disk \<Rightarrow> bytes \<Rightarrow> u16 \<times> bytes" where
  "read_file dir name =
     (case dk_files dir name of
        Some s \<Rightarrow> if utf8_ok s then (200, s) else (404, ascii ''not found'')
      | None \<Rightarrow> (404, ascii ''not found''))"

definition respond :: "disk \<Rightarrow> bytes \<Rightarrow> bytes \<Rightarrow> u16 \<times> bytes" where
  "respond dir pubkey_hex path =
     (let segments = split_on 47 [] (dropWhile (\<lambda>c. c = 47) path) in
      if segments = [ascii ''v0'', ascii ''pubkey''] then (200, pubkey_hex)
      else if segments = [ascii ''v0'', ascii ''latest''] then read_file dir latest_file
      else case segments of
        [v, kind, ts] \<Rightarrow>
          if v = ascii ''v0'' \<and> kind = ascii ''announcement'' then
            (case parse_u64 ts of Some t \<Rightarrow> read_file dir (ann_file t) | None \<Rightarrow> (404, ascii ''bad timestamp''))
          else if v = ascii ''v0'' \<and> kind = ascii ''attestation'' then
            (case parse_u64 ts of Some t \<Rightarrow> read_file dir (att_file t) | None \<Rightarrow> (404, ascii ''bad timestamp''))
          else (404, ascii ''not found'')
      | _ \<Rightarrow> (404, ascii ''not found''))"

section \<open>Ticks\<close>

lemma tick_of_nat: "unat (tick_of c now) = unat now div unat c * unat c"
proof -
  have "now mod c \<le> now" by (simp add: word_le_nat_alt unat_mod_distrib)
  then have "unat (tick_of c now) = unat now - unat now mod unat c"
    by (simp add: tick_of_def unat_sub unat_mod_distrib)
  then show ?thesis by (simp add: minus_mod_eq_div_mult)
qed

lemma tick_of_dvd: "unat c dvd unat (tick_of c now)"
  by (simp add: tick_of_nat)

lemma next_tick:
  assumes "unat c dvd unat l" "unat c dvd unat t" "l < (t :: u64)"
  shows "unat (l + c) = unat l + unat c" "l + c \<le> t" "unat c dvd unat (l + c)"
proof -
  obtain a b where ab: "unat l = unat c * a" "unat t = unat c * b" using assms by (auto elim!: dvdE)
  then have "a < b" using assms(3) by (auto simp: word_less_nat_alt)
  then have "unat c * Suc a \<le> unat c * b" by (intro mult_le_mono2) simp
  then have le: "unat l + unat c \<le> unat t" using ab by simp
  have "unat l + unat c < 2 ^ 64" by (rule le_less_trans [OF le]) simp
  then show s: "unat (l + c) = unat l + unat c" by (simp add: unat_word_ariths)
  then show "l + c \<le> t" "unat c dvd unat (l + c)" using le assms(1) by (simp_all add: word_le_nat_alt)
qed

section \<open>What one tick does\<close>

lemma daemon_then_cases:
  "daemon_then r f = (Ok y, d') \<longleftrightarrow> (\<exists>x d. r = (Ok x, d) \<and> f x d = (Ok y, d'))"
  by (cases "(r, f)" rule: daemon_then.cases) auto

lemma write_file_facts:
  "write_file name content dm = (r, dm') \<Longrightarrow> dm_next_announce dm' = dm_next_announce dm
    \<and> dm_last_attested dm' = dm_last_attested dm \<and> dm_printed dm' = dm_printed dm"
  "write_file name content dm = (Ok u, dm') \<Longrightarrow> dk_files (dm_dir dm') = (dk_files (dm_dir dm))(name \<mapsto> content)"
  "write_file name content dm = (r, dm') \<Longrightarrow> other \<noteq> name \<Longrightarrow> dk_files (dm_dir dm') other = dk_files (dm_dir dm) other"
  by (auto simp: write_file_def fs_write_def split: if_splits option.splits)

lemma write_file_open:
  "dk_writable (dm_dir dm) name \<Longrightarrow> write_file name content dm =
     (Ok (), dm\<lparr>dm_dir := (dm_dir dm)\<lparr>dk_files := (dk_files (dm_dir dm))(name \<mapsto> content)\<rparr>\<rparr>)"
  by (simp add: write_file_def fs_write_simps)

lemma latest_other [simp]: "att_file t \<noteq> latest_file" "ann_file t \<noteq> latest_file" "latest_file \<noteq> att_file t"
  by (simp_all add: att_file_def ann_file_def latest_file_def ascii_def)

definition signed_in :: "crypto \<Rightarrow> secp \<Rightarrow> OracleKeys \<Rightarrow> disk \<Rightarrow> u64 \<times> u32 \<Rightarrow> bool" where
  "signed_in C S oracle d tp \<longleftrightarrow> (\<exists>at. attest C S oracle (fst tp) (snd tp) = Ok at
     \<and> dk_files d (att_file (fst tp)) = Some (cohort_hex_encode (at_tlv_bytes at)))"

lemma publish_tick_facts:
  assumes "publish_tick C S oracle t p dm = (r, dm')"
  shows "dm_next_announce dm' = dm_next_announce dm \<and> dm_last_attested dm' = dm_last_attested dm
    \<and> (dm_printed dm' = dm_printed dm \<or> dm_printed dm' = dm_printed dm @ [(t, p)] \<and> signed_in C S oracle (dm_dir dm') (t, p))"
proof (cases "attest C S oracle t p")
  case (Ok at)
  obtain r1 d1 where w1: "write_file (att_file t) (cohort_hex_encode (at_tlv_bytes at)) dm = (r1, d1)" by fastforce
  obtain r2 d2 where w2: "write_file latest_file (decimal (unat t)) d1 = (r2, d2)" by fastforce
  note f = write_file_facts(1) [OF w1] write_file_facts(1) [OF w2]
  show ?thesis
    using assms f write_file_facts(2) [of _ _ dm _ d1] write_file_facts(2) [of _ _ d1 _ d2] w1 w2 Ok
    by (cases r1; cases r2) (auto simp: publish_tick_def signed_in_def)
qed (use assms in \<open>auto simp: publish_tick_def\<close>)

lemma attest_step_facts:
  assumes "attest_step C S oracle fixed c caches now tick dm = (r, dm')"
  shows "dm_next_announce dm' = dm_next_announce dm \<and> dm_last_attested dm' = dm_last_attested dm + c
    \<and> (dm_printed dm' = dm_printed dm \<or> (\<exists>p. dm_printed dm' = dm_printed dm @ [(dm_last_attested dm + c, p)]
        \<and> signed_in C S oracle (dm_dir dm') (dm_last_attested dm + c, p)))"
  using assms publish_tick_facts [of C S "oracle" "dm_last_attested dm + c" _ "dm\<lparr>dm_last_attested := dm_last_attested dm + c\<rparr>" r dm']
  by (fastforce simp: attest_step_def Let_def split: if_splits option.splits)

text \<open>
  An attestation loop goes through the ticks after the last one: what it prints is ascending, and each
  printed tick is signed in the file that its last write left.
\<close>

definition ticks_ok :: "u64 \<Rightarrow> daemon \<Rightarrow> bool" where
  "ticks_ok c dm \<longleftrightarrow> unat c dvd unat (dm_last_attested dm) \<and> sorted_wrt (<) (map fst (dm_printed dm))
     \<and> (\<forall>tp\<in>set (dm_printed dm). fst tp \<le> dm_last_attested dm)"

lemma attest_step_ok:
  assumes "ticks_ok c dm" "unat c dvd unat tick" "c \<noteq> 0" "dm_last_attested dm < tick"
    and "attest_step C S oracle fixed c caches now tick dm = (r, dm')"
  shows "ticks_ok c dm'" "dm_last_attested dm < dm_last_attested dm'" "dm_last_attested dm' \<le> tick"
proof -
  have "unat c dvd unat (dm_last_attested dm)" using assms(1) by (simp add: ticks_ok_def)
  note n = next_tick [OF this assms(2,4)]
  have "unat c \<noteq> 0" using assms(3) by (simp add: unat_eq_zero)
  then have less: "dm_last_attested dm < dm_last_attested dm + c" using n(1) by (simp add: word_less_nat_alt)
  have "fst tp < dm_last_attested dm + c" if "tp \<in> set (dm_printed dm)" for tp
    using assms(1) that less by (fastforce simp: ticks_ok_def)
  then have "\<forall>tp\<in>set (dm_printed dm). fst tp < dm_last_attested dm + c \<and> fst tp \<le> dm_last_attested dm + c"
    by (simp add: less_imp_le)
  then show "ticks_ok c dm'" "dm_last_attested dm < dm_last_attested dm'" "dm_last_attested dm' \<le> tick"
    using attest_step_facts [OF assms(5)] n less assms(1) unfolding ticks_ok_def
    by (auto simp: sorted_wrt_append less_imp_le)
qed

lemma attest_until_ok:
  assumes "attest_until C S oracle fixed c caches now tick dm = Some (r, dm')"
    and "ticks_ok c dm" "unat c dvd unat tick" "c \<noteq> 0"
  shows "ticks_ok c dm' \<and> dm_next_announce dm' = dm_next_announce dm
    \<and> (dm_last_attested dm \<le> tick \<longrightarrow> dm_last_attested dm' \<le> tick)"
proof -
  let ?I = "\<lambda>(r, dm'). ticks_ok c dm' \<and> dm_next_announce dm' = dm_next_announce dm
    \<and> (dm_last_attested dm \<le> tick \<longrightarrow> dm_last_attested dm' \<le> tick)"
  have "?I (r, dm')"
  proof (rule while_option_rule [where P = ?I, OF _ assms(1) [unfolded attest_until_def]])
    fix s
    assume I: "?I s" and b: "case s of (r, dm) \<Rightarrow> r = Ok () \<and> dm_last_attested dm < tick"
    obtain r1 d1 where s: "s = (r1, d1)" by (cases s)
    obtain r2 d2 where st: "attest_step C S oracle fixed c caches now tick d1 = (r2, d2)" by fastforce
    show "?I (case s of (x, dm) \<Rightarrow> attest_step C S oracle fixed c caches now tick dm)"
      using I b attest_step_ok [OF _ assms(3,4) _ st] attest_step_facts [OF st] unfolding s by (simp add: st)
  qed (use assms(2) in simp)
  then show ?thesis by simp
qed

lemma attest_until_total:
  assumes "ticks_ok c dm" "unat c dvd unat tick" "c \<noteq> 0"
  shows "\<exists>r. attest_until C S oracle fixed c caches now tick dm = Some r"
  unfolding attest_until_def
proof (rule measure_while_option_Some [where P = "\<lambda>(r, dm). ticks_ok c dm" and f = "\<lambda>(r, dm). unat tick - unat (dm_last_attested dm)"])
  fix s
  assume I: "case s of (r, dm) \<Rightarrow> ticks_ok c dm" and b: "case s of (r, dm) \<Rightarrow> r = Ok () \<and> dm_last_attested dm < tick"
  obtain r1 d1 where s: "s = (r1, d1)" by (cases s)
  obtain r2 d2 where st: "attest_step C S oracle fixed c caches now tick d1 = (r2, d2)" by fastforce
  show "(case case s of (x, dm) \<Rightarrow> attest_step C S oracle fixed c caches now tick dm of (r, dm) \<Rightarrow> ticks_ok c dm)
    \<and> (case case s of (x, dm) \<Rightarrow> attest_step C S oracle fixed c caches now tick dm of (r, dm) \<Rightarrow> unat tick - unat (dm_last_attested dm))
      < (case s of (r, dm) \<Rightarrow> unat tick - unat (dm_last_attested dm))"
    using I b attest_step_ok [OF _ assms(2,3) _ st] unfolding s by (auto simp: st word_less_nat_alt word_le_nat_alt)
qed (use assms(1) in simp)

section \<open>Announcing ahead\<close>

lemma announce_step_facts:
  assumes "announce_step C S oracle c dm = (r, dm')"
  shows "dm_last_attested dm' = dm_last_attested dm \<and> dm_printed dm' = dm_printed dm"
    and "r = Ok () \<Longrightarrow> dm_next_announce dm' = dm_next_announce dm + c
      \<and> (\<exists>an. announce C S oracle (dm_next_announce dm) = Ok an
        \<and> dk_files (dm_dir dm') = (dk_files (dm_dir dm))(ann_file (dm_next_announce dm) \<mapsto> cohort_hex_encode (an_tlv_bytes an)))"
    and "r \<noteq> Ok () \<Longrightarrow> dm_next_announce dm' = dm_next_announce dm
      \<and> (\<forall>name. name \<noteq> ann_file (dm_next_announce dm) \<longrightarrow> dk_files (dm_dir dm') name = dk_files (dm_dir dm) name)"
  using assms
  by (cases "announce C S oracle (dm_next_announce dm)";
      auto simp: announce_step_def write_file_def fs_write_def split: if_splits option.splits)+

section \<open>The history of a run\<close>

definition announced_in :: "crypto \<Rightarrow> secp \<Rightarrow> OracleKeys \<Rightarrow> disk \<Rightarrow> u64 \<Rightarrow> bool" where
  "announced_in C S oracle d t \<longleftrightarrow> (\<exists>an. announce C S oracle t = Ok an
     \<and> dk_files d (ann_file t) = Some (cohort_hex_encode (an_tlv_bytes an)))"

definition history_ok :: "crypto \<Rightarrow> secp \<Rightarrow> OracleKeys \<Rightarrow> u64 \<Rightarrow> u64 \<Rightarrow> daemon \<Rightarrow> bool" where
  "history_ok C S oracle c start dm \<longleftrightarrow>
     ticks_ok c dm \<and> unat c dvd unat (dm_next_announce dm) \<and> unat start \<le> unat (dm_last_attested dm) + unat c
     \<and> (\<forall>k. unat c dvd unat k \<and> start \<le> k \<and> k < dm_next_announce dm \<longrightarrow> announced_in C S oracle (dm_dir dm) k)
     \<and> (\<forall>tp\<in>set (dm_printed dm). unat c dvd unat (fst tp) \<and> start \<le> fst tp \<and> fst tp < dm_next_announce dm
          \<and> signed_in C S oracle (dm_dir dm) tp)"

lemma attest_step_files:
  assumes "attest_step C S oracle fixed c caches now tick dm = (r, dm')"
    and "name \<noteq> att_file (dm_last_attested dm + c)" "name \<noteq> latest_file"
  shows "dk_files (dm_dir dm') name = dk_files (dm_dir dm) name"
proof -
  have "dk_files (dm_dir d') name = dk_files (dm_dir d) name"
    if "publish_tick C S oracle (dm_last_attested dm + c) p d = (r', d')" for p d d' r'
    using that assms(2,3)
    by (cases "attest C S oracle (dm_last_attested dm + c) p")
      (auto simp: publish_tick_def write_file_def fs_write_def split: if_splits option.splits)
  from this [of _ "dm\<lparr>dm_last_attested := dm_last_attested dm + c\<rparr>" r dm'] show ?thesis
    using assms(1) by (auto simp: attest_step_def Let_def split: if_splits option.splits)
qed

lemma attest_step_history:
  assumes "history_ok C S oracle c start dm" "unat c dvd unat tick" "c \<noteq> 0" "dm_last_attested dm < tick"
    and "tick < dm_next_announce dm" "attest_step C S oracle fixed c caches now tick dm = (r, dm')"
  shows "history_ok C S oracle c start dm'"
proof -
  have ok: "ticks_ok c dm" using assms(1) by (simp add: history_ok_def)
  note st = attest_step_ok [OF ok assms(2-4,6)] and f = attest_step_facts [OF assms(6)]
  have "unat c dvd unat (dm_last_attested dm)" using ok by (simp add: ticks_ok_def)
  note n = next_tick [OF this assms(2,4)]
  have t: "start \<le> dm_last_attested dm + c" using assms(1) n(1) by (simp add: history_ok_def word_le_nat_alt)
  have t': "dm_last_attested dm + c < dm_next_announce dm" using n(2) assms(5) by (rule le_less_trans)
  have old: "signed_in C S oracle (dm_dir dm') tp" if "tp \<in> set (dm_printed dm)" for tp
  proof -
    have "fst tp \<noteq> dm_last_attested dm + c" using ok that f st(2) by (fastforce simp: ticks_ok_def)
    then have "dk_files (dm_dir dm') (att_file (fst tp)) = dk_files (dm_dir dm) (att_file (fst tp))"
      by (intro attest_step_files [OF assms(6)]) simp_all
    then show ?thesis using assms(1) that by (auto simp: history_ok_def signed_in_def)
  qed
  have ann: "announced_in C S oracle (dm_dir dm') k" if "announced_in C S oracle (dm_dir dm) k" for k
  proof -
    have "dk_files (dm_dir dm') (ann_file k) = dk_files (dm_dir dm) (ann_file k)"
      by (intro attest_step_files [OF assms(6)]) simp_all
    then show ?thesis using that by (simp add: announced_in_def)
  qed
  show ?thesis
    unfolding history_ok_def
  proof (intro conjI allI impI ballI)
    fix tp
    assume tp: "tp \<in> set (dm_printed dm')"
    consider "tp \<in> set (dm_printed dm)" | p where "tp = (dm_last_attested dm + c, p)" "signed_in C S oracle (dm_dir dm') tp"
      using f tp by auto
    then have "unat c dvd unat (fst tp) \<and> start \<le> fst tp \<and> fst tp < dm_next_announce dm' \<and> signed_in C S oracle (dm_dir dm') tp"
      using old assms(1) t t' n(3) f by cases (auto simp: history_ok_def)
    then show "unat c dvd unat (fst tp)" "start \<le> fst tp" "fst tp < dm_next_announce dm'" "signed_in C S oracle (dm_dir dm') tp"
      by blast+
  next
    show "unat start \<le> unat (dm_last_attested dm') + unat c"
      using assms(1) st(2) by (simp add: history_ok_def word_less_nat_alt)
  qed (use st f assms(1) ann in \<open>auto simp: history_ok_def\<close>)
qed

lemma attest_until_history:
  assumes "attest_until C S oracle fixed c caches now tick dm = Some (r, dm')"
    and "history_ok C S oracle c start dm" "unat c dvd unat tick" "c \<noteq> 0" "tick < dm_next_announce dm"
  shows "history_ok C S oracle c start dm'"
proof -
  let ?I = "\<lambda>(r, dm'). history_ok C S oracle c start dm' \<and> tick < dm_next_announce dm'"
  have "?I (r, dm')"
  proof (rule while_option_rule [where P = ?I, OF _ assms(1) [unfolded attest_until_def]])
    fix s
    assume I: "?I s" and b: "case s of (r, dm) \<Rightarrow> r = Ok () \<and> dm_last_attested dm < tick"
    obtain r1 d1 where s: "s = (r1, d1)" by (cases s)
    obtain r2 d2 where st: "attest_step C S oracle fixed c caches now tick d1 = (r2, d2)" by fastforce
    show "?I (case s of (x, dm) \<Rightarrow> attest_step C S oracle fixed c caches now tick dm)"
      using I b attest_step_history [OF _ assms(3,4) _ _ st] attest_step_facts [OF st] unfolding s by (simp add: st)
  qed (use assms(2,5) in simp)
  then show ?thesis by simp
qed

lemma announce_step_history:
  assumes "history_ok C S oracle c start dm" "announce_step C S oracle c dm = (r, dm')"
    and "unat (dm_next_announce dm) + unat c < 2 ^ 64"
  shows "history_ok C S oracle c start dm'"
proof (cases "r = Ok ()")
  case True
  note f = announce_step_facts(1) [OF assms(2)] announce_step_facts(2) [OF assms(2) True]
  have nxt: "unat (dm_next_announce dm + c) = unat (dm_next_announce dm) + unat c"
    using assms(3) by (simp add: unat_word_ariths)
  obtain an where an: "announce C S oracle (dm_next_announce dm) = Ok an"
    "dk_files (dm_dir dm') = (dk_files (dm_dir dm))(ann_file (dm_next_announce dm) \<mapsto> cohort_hex_encode (an_tlv_bytes an))"
    using f by blast
  have ann: "announced_in C S oracle (dm_dir dm') k"
    if k: "unat c dvd unat k" "start \<le> k" "k < dm_next_announce dm + c" for k
  proof (cases "k = dm_next_announce dm")
    case True
    then show ?thesis using an by (simp add: announced_in_def)
  next
    case False
    have "k < dm_next_announce dm"
    proof (rule ccontr)
      assume "\<not> k < dm_next_announce dm"
      then have "dm_next_announce dm < k" using False by simp
      moreover have "unat c dvd unat (dm_next_announce dm)" using assms(1) by (simp add: history_ok_def)
      ultimately have "dm_next_announce dm + c \<le> k" using next_tick(2) [of c "dm_next_announce dm" k] k(1) by simp
      then show False using k(3) by simp
    qed
    then show ?thesis using assms(1) k an False by (auto simp: history_ok_def announced_in_def)
  qed
  have "dm_next_announce dm \<le> dm_next_announce dm + c" using nxt by (simp add: word_le_nat_alt)
  then show ?thesis
    using assms(1) f an ann nxt unfolding history_ok_def ticks_ok_def
    by (auto simp: signed_in_def)
next
  case False
  note f = announce_step_facts(1) [OF assms(2)] announce_step_facts(3) [OF assms(2) False]
  have "announced_in C S oracle (dm_dir dm') k" if "announced_in C S oracle (dm_dir dm) k" "k < dm_next_announce dm" for k
    using that f by (auto simp: announced_in_def)
  moreover have "signed_in C S oracle (dm_dir dm') tp = signed_in C S oracle (dm_dir dm) tp" for tp
    using f by (simp add: signed_in_def)
  ultimately show ?thesis using assms(1) f by (auto simp: history_ok_def ticks_ok_def)
qed

lemma announce_until_history:
  assumes "history_ok C S oracle c start dm" "c \<noteq> 0" "unat horizon + unat c < 2 ^ 64"
  obtains r dm' where "announce_until C S oracle c horizon dm = Some (r, dm')" "history_ok C S oracle c start dm'"
    "r = Ok () \<Longrightarrow> horizon < dm_next_announce dm'" "dm_last_attested dm' = dm_last_attested dm" "dm_printed dm' = dm_printed dm"
proof -
  let ?I = "\<lambda>(r :: (DaemonError, unit) res, dm'). history_ok C S oracle c start dm'
    \<and> dm_last_attested dm' = dm_last_attested dm \<and> dm_printed dm' = dm_printed dm"
  let ?b = "\<lambda>(r :: (DaemonError, unit) res, dm). r = Ok () \<and> dm_next_announce dm \<le> horizon"
  let ?c = "\<lambda>(_ :: (DaemonError, unit) res, dm). announce_step C S oracle c dm"
  let ?f = "\<lambda>(r :: (DaemonError, unit) res, dm). if r = Ok () then Suc (unat horizon + unat c - unat (dm_next_announce dm)) else 0"
  have pos: "0 < unat c" using assms(2) by (simp add: unat_gt_0)
  have step: "?I (?c s) \<and> ?f (?c s) < ?f s" if I: "?I s" and b: "?b s" for s
  proof -
    obtain r1 d1 where s: "s = (r1, d1)" by (cases s)
    obtain r2 d2 where st: "announce_step C S oracle c d1 = (r2, d2)" by fastforce
    have le: "unat (dm_next_announce d1) \<le> unat horizon" using b by (simp add: s word_le_nat_alt)
    then have nw: "unat (dm_next_announce d1) + unat c < 2 ^ 64" using assms(3) by linarith
    then have nxt: "unat (dm_next_announce d1 + c) = unat (dm_next_announce d1) + unat c" by (simp add: unat_word_ariths)
    have "history_ok C S oracle c start d2" using announce_step_history [OF _ st nw] I by (simp add: s)
    moreover have "?f (r2, d2) < ?f (r1, d1)"
      using announce_step_facts(2) [OF st] b nxt le pos by (auto simp: s)
    ultimately show ?thesis using I announce_step_facts(1) [OF st] by (simp add: s st)
  qed
  have start: "?I (Ok (), dm)" using assms(1) by simp
  have "\<exists>t. while_option ?b ?c (Ok (), dm) = Some t"
    using measure_while_option_Some [where P = ?I and b = ?b and c = ?c and f = ?f, OF step start] .
  then obtain r dm' where t: "while_option ?b ?c (Ok (), dm) = Some (r, dm')" by auto
  have "?I (r, dm')" by (rule while_option_rule [where P = ?I, OF conjunct1 [OF step] t start])
  moreover have "\<not> ?b (r, dm')" by (rule while_option_stop [OF t])
  ultimately show thesis using t by (intro that [of r dm']) (auto simp: announce_until_def not_le)
qed

lemma daemon_pass_history:
  assumes "history_ok C S oracle c start dm" "c \<noteq> 0" "unat now + 121 * unat c < 2 ^ 64"
  obtains r dm' where "daemon_pass C S oracle fixed c caches now dm = Some (r, dm')" "history_ok C S oracle c start dm'"
proof -
  let ?tick = "tick_of c now" and ?horizon = "tick_of c now + LEAD_TICKS * c"
  have tick: "unat ?tick \<le> unat now" by (simp add: tick_of_nat)
  have lead: "unat (LEAD_TICKS * c) = 120 * unat c" using assms(3) by (simp add: LEAD_TICKS_def unat_word_ariths)
  have horizon: "unat ?horizon = unat ?tick + 120 * unat c" using lead tick assms(3) by (simp add: unat_word_ariths)
  have "unat ?horizon + unat c < 2 ^ 64" using horizon tick assms(3) by simp
  from announce_until_history [OF assms(1,2) this]
  obtain r dm1 where a: "announce_until C S oracle c ?horizon dm = Some (r, dm1)" "history_ok C S oracle c start dm1"
    "r = Ok () \<Longrightarrow> ?horizon < dm_next_announce dm1" by metis
  show thesis
  proof (cases r)
    case (Ok u)
    have "?tick \<le> ?horizon" using horizon by (simp add: word_le_nat_alt)
    then have next_tick: "?tick < dm_next_announce dm1" using a(3) Ok by (simp add: order.strict_trans1)
    have ok: "ticks_ok c dm1" using a(2) by (simp add: history_ok_def)
    obtain r' dm' where t: "attest_until C S oracle fixed c caches now ?tick dm1 = Some (r', dm')"
      using attest_until_total [OF ok tick_of_dvd assms(2)] by fastforce
    with attest_until_history [OF t a(2) tick_of_dvd assms(2) next_tick] show ?thesis
      using a(1) Ok assms(2) by (intro that [of r' dm']) (simp_all add: daemon_pass_def Let_def)
  qed (use a assms(2) that in \<open>simp_all add: daemon_pass_def Let_def\<close>)
qed

lemma daemon_run_history:
  assumes "history_ok C S oracle c start dm" "c \<noteq> 0" "\<forall>p\<in>set passes. unat (fst p) + 121 * unat c < 2 ^ 64"
  shows "\<exists>r dm'. daemon_run C S oracle fixed c passes dm = Some (r, dm') \<and> history_ok C S oracle c start dm'"
  using assms(1,3)
proof (induction passes arbitrary: dm)
  case (Cons p passes)
  obtain now caches where p: "p = (now, caches)" by (cases p)
  obtain r dm1 where d: "daemon_pass C S oracle fixed c caches now dm = Some (r, dm1)" "history_ok C S oracle c start dm1"
    using daemon_pass_history [OF Cons.prems(1) assms(2)] Cons.prems(2) p by (metis fst_conv list.set_intros(1))
  then show ?case using Cons by (cases r) (auto simp: p)
qed simp

lemma start_history:
  assumes "daemon_start c now dir = Ok dm"
  shows "c \<noteq> 0 \<and> history_ok C S oracle c (tick_of c now) dm \<and> dm_printed dm = [] \<and> dm_next_announce dm = tick_of c now
    \<and> dm_last_attested dm = saturating_sub (tick_of c now) c"
proof -
  have c: "c \<noteq> 0" and dm: "dm = \<lparr>dm_next_announce = tick_of c now, dm_last_attested = saturating_sub (tick_of c now) c,
      dm_dir = dir, dm_printed = []\<rparr>"
    using assms by (auto simp: daemon_start_def Let_def split: if_splits)
  have last: "unat (saturating_sub (tick_of c now) c) = unat (tick_of c now) - unat c"
    by (auto simp: saturating_sub_def unat_sub word_le_nat_alt not_le)
  have "unat c dvd unat (tick_of c now) - unat c" by (intro dvd_diff_nat tick_of_dvd) simp
  with c show ?thesis by (auto simp: dm history_ok_def ticks_ok_def last tick_of_dvd word_le_nat_alt word_less_nat_alt)
qed

text \<open>
  C35: The daemon's main loop returns after every pass, and in any run it attests each tick at most once,
  in ascending order, never before its announcement is in the directory, and the file of each tick
  stays the signed attestation of the price it printed. Clocks may go back, and writes may fail and leave
  a part of their content.
\<close>

theorem daemon_history:
  assumes "daemon_start c now0 dir = Ok dm0" and "\<forall>p\<in>set passes. unat (fst p) + 121 * unat c < 2 ^ 64"
  shows "\<exists>r dm. daemon_run C S oracle fixed c passes dm0 = Some (r, dm) \<and> sorted_wrt (<) (map fst (dm_printed dm))
    \<and> (\<forall>tp\<in>set (dm_printed dm). announced_in C S oracle (dm_dir dm) (fst tp) \<and> signed_in C S oracle (dm_dir dm) tp)"
proof -
  have c: "c \<noteq> 0" "history_ok C S oracle c (tick_of c now0) dm0"
    using start_history [OF assms(1)] by blast+
  from daemon_run_history [OF c(2,1) assms(2)] show ?thesis by (force simp: history_ok_def ticks_ok_def)
qed

section \<open>A restart within a tick\<close>

lemma signed_scalar:
  assumes laws: "secp_laws C S" and signed: "sign_with_nonce C S sk k m = Ok g"
  shows "sk_ok S (sig_s g)" "chal C (sig_r g) (pk_xonly S (pk_of S sk)) m \<noteq> 0"
  using signed unfolding sign_Ok [OF laws] by (auto simp: sk_ok_enc [OF laws])

lemma outcome_of_digit: "i < 20 \<Longrightarrow> (digits p ! i = 0 \<or> digits p ! i = 1) \<and> outcome_digit (outcome (digits p ! i)) = Ok (digits p ! i)"
proof -
  assume "i < 20"
  then have "digits p ! i = ucast (drop_bit (19 - i) (min p MAX_OUTCOME) AND 1 :: u32)" by (simp add: nth_digits)
  moreover have "w AND 1 = 0 \<or> w AND 1 = 1" for w :: u32 by (simp add: and_one_eq mod_2_eq_odd)
  ultimately have "digits p ! i = 0 \<or> digits p ! i = 1" by (metis unsigned_0 unsigned_1)
  then show ?thesis by (auto simp: outcome_digit_def outcome_def)
qed

text \<open>Two attestations of one oracle for one event and two prices are evidence that gives its key.\<close>

lemma two_prices_convict:
  assumes laws: "secp_laws C S" and seed: "from_seed C S seed = Ok oracle"
    and a: "attest C S oracle t p = Ok a" and b: "attest C S oracle t q = Ok b" and differ: "digits p \<noteq> digits q"
    and an: "announce C S oracle t = Ok an"
    and unit: "\<And>r. r \<in> set (an_nonce_points an) \<Longrightarrow>
      (chal C r (ok_pubkey oracle) (attestation_msg C 1) - chal C r (ok_pubkey oracle) (attestation_msg C 0)) ^ nat (order_n - 1) = 1"
  shows "\<exists>pr. verify_equivocation C S (at_tlv_bytes a) (at_tlv_bytes b) = Ok pr
    \<and> pk_of S (qp_extracted_secret pr) = x_even S (ok_pubkey oracle)"
proof -
  let ?px = "ok_pubkey oracle"
  have px: "?px = pk_xonly S (pk_of S (ok_sk oracle))" using seed by (simp add: from_seed_Ok)
  have served: "oracle_attestation (event_id t) ?px (at_signatures g) (map outcome (digits price)) = (Ok (at_tlv_bytes g) :: (ParseError, _) res)"
    if "attest C S oracle t price = Ok g" for price g
    using that by (auto simp: attest_def oracle_attestation_def res_simps Let_def split: if_splits)
  note sa = served [OF a] and sb = served [OF b]
  note la = attest_signatures(2) [OF a] and lb = attest_signatures(2) [OF b]
  have wr: "write_attestation (served_attestation t ?px (at_signatures g) price) = (Ok (at_tlv_bytes g) :: (ParseError, _) res)"
    if "attest C S oracle t price = Ok g" for price g
    using served [OF that] by (simp add: write_attestation_def)
  obtain i where i: "i < 20" "digits p ! i \<noteq> digits q ! i" "\<forall>j<i. digits p ! j = digits q ! j"
  proof -
    have "\<exists>i. i < 20 \<and> digits p ! i \<noteq> digits q ! i" using differ by (auto simp: list_eq_iff_nth_eq)
    then obtain i where i: "i < 20" "digits p ! i \<noteq> digits q ! i" "\<forall>j<i. \<not> (j < 20 \<and> digits p ! j \<noteq> digits q ! j)"
      unfolding exists_least_iff [where P = "\<lambda>i. i < 20 \<and> digits p ! i \<noteq> digits q ! i"] by blast
    then have "\<forall>j<i. digits p ! j = digits q ! j" by (meson less_trans)
    with i show thesis using that by blast
  qed
  note ga = attest_signatures(3) [OF a i(1)] and gb = attest_signatures(3) [OF b i(1)]
  note fa = signed_facts [OF laws ga, folded px] and fb = signed_facts [OF laws gb, folded px]
  have r: "sig_r (at_signatures a ! i) = sig_r (at_signatures b ! i)" using fa fb by simp
  have "sig_r (at_signatures a ! i) \<in> set (an_nonce_points an)"
    using announce_points [OF an] fa i(1) by (metis nth_mem res.inject(1))
  note u = unit [OF this]
  have "even (nat (order_n - 1))" by (simp add: order_n_def)
  then have sym: "(x - y) ^ nat (order_n - 1) = (y - x) ^ nat (order_n - 1)" for x y :: zn
    by (metis minus_diff_eq power_minus_even)
  let ?e = "\<lambda>d. chal C (sig_r (at_signatures a ! i)) ?px (attestation_msg C d)"
  have unit: "(?e (digits p ! i) - ?e (digits q ! i)) ^ nat (order_n - 1) = 1"
    using outcome_of_digit [OF i(1), of p] outcome_of_digit [OF i(1), of q] i(2) u sym by metis
  have e: "?e (digits p ! i) \<noteq> 0" "?e (digits q ! i) \<noteq> 0"
    using signed_scalar(2) [OF laws ga] signed_scalar(2) [OF laws gb] r px by simp_all
  have "\<exists>d. verify_equivocation C S (at_tlv_bytes a) (at_tlv_bytes b)
      = Ok \<lparr>qp_event_id = event_id t, qp_oracle_pubkey = ?px, qp_digit_index = word_of_nat i, qp_extracted_secret = d\<rparr>
    \<and> pk_of S d = x_even S ?px"
    using evidence_accepted [OF laws served_facts(2) [OF sa la] served_facts(2) [OF sb lb] served_facts(1) [OF sa la]
        served_facts(1) [OF sb lb] wr [OF a] wr [OF b], of i "digits p ! i" "digits q ! i" "?e (digits p ! i)" "?e (digits q ! i)"]
      i la lb fa fb r e unit outcome_of_digit signed_scalar(1) [OF laws ga] signed_scalar(1) [OF laws gb]
    by (simp add: less_trans [OF _ i(1)])
  then show ?thesis by (auto intro: exI)
qed

lemma first_pass_signs:
  assumes "daemon_start c now dir = Ok d0" and "unat now + 121 * unat c < 2 ^ 64"
    and "daemon_pass C S oracle fixed c caches now d0 = Some (r, dm)" and "tp \<in> set (dm_printed dm)"
  shows "fst tp = tick_of c now \<and> signed_in C S oracle (dm_dir dm) tp"
proof -
  have c: "c \<noteq> 0" "history_ok C S oracle c (tick_of c now) d0" "dm_printed d0 = []"
    "dm_last_attested d0 = saturating_sub (tick_of c now) c"
    using start_history [OF assms(1)] by blast+
  have h: "history_ok C S oracle c (tick_of c now) dm"
    using daemon_pass_history [OF c(2,1) assms(2), of fixed caches] assms(3) by (metis option.inject prod.inject)
  have "dm_last_attested dm \<le> tick_of c now \<or> dm_printed dm = []"
  proof -
    let ?horizon = "tick_of c now + LEAD_TICKS * c"
    have tick: "unat (tick_of c now) \<le> unat now" by (simp add: tick_of_nat)
    have "unat (LEAD_TICKS * c) = 120 * unat c" using assms(2) by (simp add: LEAD_TICKS_def unat_word_ariths)
    then have "unat ?horizon + unat c < 2 ^ 64" using tick assms(2) by (simp add: unat_word_ariths)
    then obtain r1 d1 where a: "announce_until C S oracle c ?horizon d0 = Some (r1, d1)" "history_ok C S oracle c (tick_of c now) d1"
      "dm_last_attested d1 = dm_last_attested d0" "dm_printed d1 = dm_printed d0"
      using announce_until_history [OF c(2,1)] by metis
    have last: "dm_last_attested d1 \<le> tick_of c now"
      using a(3) c(4) by (auto simp: saturating_sub_def word_le_nat_alt unat_sub)
    show ?thesis
    proof (cases r1)
      case (Ok u)
      then have "attest_until C S oracle fixed c caches now (tick_of c now) d1 = Some (r, dm)"
        using assms(3) a(1) c(1) by (simp add: daemon_pass_def Let_def)
      from attest_until_ok [OF this _ tick_of_dvd c(1)] a(2) last show ?thesis by (simp add: history_ok_def)
    qed (use assms(3) a c in \<open>simp_all add: daemon_pass_def Let_def\<close>)
  qed
  then show ?thesis using h assms(4) by (fastforce simp: history_ok_def ticks_ok_def)
qed

text \<open>After a start the main loop's first pass attests the current tick, and no other.\<close>

lemma first_pass_cases:
  assumes "daemon_start c now dir = Ok d0" and "unat now + 121 * unat c < 2 ^ 64"
    and "daemon_pass C S oracle fixed c caches now d0 = Some (r, dm)"
  shows "dm_printed dm = [] \<and> (tick_of c now = 0 \<or> r \<noteq> Ok ())
    \<or> tick_of c now \<noteq> 0 \<and> (\<exists>d1. dm_printed d1 = [] \<and> dm_last_attested d1 + c = tick_of c now
        \<and> attest_step C S oracle fixed c caches now (tick_of c now) d1 = (r, dm))"
proof -
  let ?tick = "tick_of c now" and ?horizon = "tick_of c now + LEAD_TICKS * c"
  have c: "c \<noteq> 0" "history_ok C S oracle c ?tick d0" "dm_printed d0 = []"
    "dm_last_attested d0 = saturating_sub ?tick c"
    using start_history [OF assms(1)] by blast+
  have tick: "unat ?tick \<le> unat now" by (simp add: tick_of_nat)
  have "unat (LEAD_TICKS * c) = 120 * unat c" using assms(2) by (simp add: LEAD_TICKS_def unat_word_ariths)
  then have "unat ?horizon + unat c < 2 ^ 64" using tick assms(2) by (simp add: unat_word_ariths)
  then obtain r1 d1 where d1: "announce_until C S oracle c ?horizon d0 = Some (r1, d1)"
    "dm_last_attested d1 = saturating_sub ?tick c" "dm_printed d1 = []"
    using announce_until_history [OF c(2,1)] c(3,4) by metis
  show ?thesis
  proof (cases "r1 = Ok ()")
    case False
    then have "r = r1" "dm = d1" using assms(3) d1(1) c(1) by (auto simp: daemon_pass_def Let_def split: res.splits)
    then show ?thesis using False d1(3) by simp
  next
    case True
    then have pass: "attest_until C S oracle fixed c caches now ?tick d1 = Some (r, dm)"
      using assms(3) d1(1) c(1) by (simp add: daemon_pass_def Let_def)
    show ?thesis
    proof (cases "?tick = 0")
      case True
      then have "\<not> dm_last_attested d1 < ?tick" by (simp add: d1(2))
      then have "dm = d1" using pass by (simp add: attest_until_def while_option_unfold)
      then show ?thesis using True d1(3) by simp
    next
      case False
      then have "unat c \<le> unat ?tick" using tick_of_dvd [of c now] by (intro dvd_imp_le) (auto simp: unat_gt_0)
      then have "c \<le> ?tick" by (simp add: word_le_nat_alt)
      then have l: "dm_last_attested d1 + c = ?tick" "dm_last_attested d1 < ?tick"
        using c(1) False by (simp_all add: d1(2) saturating_sub_def word_less_nat_alt unat_sub word_le_nat_alt unat_gt_0)
      obtain r2 d2 where step: "attest_step C S oracle fixed c caches now ?tick d1 = (r2, d2)" by fastforce
      have "dm_last_attested d2 = ?tick" using attest_step_facts [OF step] l(1) by simp
      then have "attest_until C S oracle fixed c caches now ?tick d1 = Some (r2, d2)"
        unfolding attest_until_def
        by (subst while_option_unfold, subst while_option_unfold) (simp add: l(2) step)
      then show ?thesis using pass step l(1) d1(3) False by auto
    qed
  qed
qed

text \<open>The price the loop takes for a tick, when the cross-check lets it pass.\<close>

definition offered :: "u32 option \<Rightarrow> (u64 \<Rightarrow> (u64 \<times> u32) option \<times> (u64 \<times> u32) option) \<Rightarrow> u64 \<Rightarrow> u64 \<Rightarrow> u32 \<Rightarrow> bool" where
  "offered fixed caches now t q \<longleftrightarrow>
     (case fixed of Some p \<Rightarrow> p = q
      | None \<Rightarrow> live_current (fst (caches t)) now = Some q
          \<and> (case live_current (snd (caches t)) now of None \<Rightarrow> True | Some r \<Rightarrow> within_band q r CROSS_CHECK_BAND_BPS))"

lemma offered_is_attested:
  assumes "attest_step C S oracle fixed c caches now tick d = (Ok (), dm)"
    and "dm_last_attested d + c = tick" and "offered fixed caches now tick q"
  shows "(tick, q) \<in> set (dm_printed dm)"
proof -
  have "publish_tick C S oracle tick q (d\<lparr>dm_last_attested := tick\<rparr>) = (Ok (), dm)"
    using assms by (auto simp: attest_step_def offered_def Let_def split: option.splits if_splits)
  then show ?thesis
    by (cases "attest C S oracle tick q") (auto simp: publish_tick_def write_file_def fs_write_def split: if_splits option.splits)
qed

text \<open>
  C36: A restart within a tick leaks the oracle's key. The daemon never reads its directory: started again
  before the tick is over, a first pass that completes attests the tick a second time, at whatever price it is then offered, and
  overwrites the file. When the digits of the two prices differ, the two files are evidence from which
  anyone computes the oracle's secret key, provided the difference of the challenges of the two digits
  satisfies Fermat's theorem (as every nonzero scalar does for a prime order).
\<close>

theorem restart_leaks_key:
  assumes "secp_laws C S" "from_seed C S seed = Ok oracle"
    and "daemon_start c now dir = Ok d0" "daemon_pass C S oracle fixed c caches now d0 = Some (r, dm)" "(t, p) \<in> set (dm_printed dm)"
    and "daemon_start c now' (dm_dir dm) = Ok d0'" "daemon_pass C S oracle fixed' c caches' now' d0' = Some (Ok (), dm')"
    and "offered fixed' caches' now' t q"
    and "tick_of c now' = tick_of c now" "digits p \<noteq> digits q"
    and "unat now + 121 * unat c < 2 ^ 64" "unat now' + 121 * unat c < 2 ^ 64"
    and "announce C S oracle (tick_of c now) = Ok an"
    and "\<And>n. n \<in> set (an_nonce_points an) \<Longrightarrow>
      (chal C n (ok_pubkey oracle) (attestation_msg C 1) - chal C n (ok_pubkey oracle) (attestation_msg C 0)) ^ nat (order_n - 1) = 1"
  shows "(t, q) \<in> set (dm_printed dm') \<and> (\<exists>x y pr. read_hex (dm_dir dm) (att_file t) = (Ok (Some x) :: (SecpError, _) res)
    \<and> read_hex (dm_dir dm') (att_file t) = (Ok (Some y) :: (SecpError, _) res)
    \<and> verify_equivocation C S x y = Ok pr \<and> pk_of S (qp_extracted_secret pr) = x_even S (ok_pubkey oracle))"
proof -
  have t: "t = tick_of c now" and s: "signed_in C S oracle (dm_dir dm) (t, p)"
    using first_pass_signs [OF assms(3,11,4,5)] by auto
  have "tick_of c now \<noteq> 0"
  proof
    assume zero: "tick_of c now = 0"
    then have "dm_printed dm = []" using first_pass_cases [OF assms(3,11,4)] by blast
    with assms(5) show False by simp
  qed
  with first_pass_cases [OF assms(6,12,7)] obtain d1 where "dm_last_attested d1 + c = tick_of c now'"
    "attest_step C S oracle fixed' c caches' now' (tick_of c now') d1 = (Ok (), dm')"
    unfolding assms(9) by blast
  from offered_is_attested [OF this(2,1), of q] assms(8) have again: "(t, q) \<in> set (dm_printed dm')"
    by (simp add: t assms(9))
  then have s': "signed_in C S oracle (dm_dir dm') (t, q)" using first_pass_signs [OF assms(6,12,7)] by blast
  obtain a b where a: "attest C S oracle t p = Ok a" "dk_files (dm_dir dm) (att_file t) = Some (cohort_hex_encode (at_tlv_bytes a))"
    and b: "attest C S oracle t q = Ok b" "dk_files (dm_dir dm') (att_file t) = Some (cohort_hex_encode (at_tlv_bytes b))"
    using s s' by (auto simp: signed_in_def)
  obtain pr where "verify_equivocation C S (at_tlv_bytes a) (at_tlv_bytes b) = Ok pr"
    "pk_of S (qp_extracted_secret pr) = x_even S (ok_pubkey oracle)"
    using two_prices_convict [OF assms(1,2) a(1) b(1) assms(10) _ assms(14)] assms(13) t by blast
  with read_hex_encoded [OF a(2)] read_hex_encoded [OF b(2)] again show ?thesis by blast
qed

section \<open>A drill\<close>

text \<open>Hashes are one, or two for what ends in the digit \<open>1\<close> or in two: the challenge tells the digits apart.\<close>

definition drill_crypto :: crypto where
  "drill_crypto = const_crypto\<lparr>c_sha256 := (\<lambda>x. if last x = 0x31 \<or> last x = 2 then enc 2 else enc 1)\<rparr>"

abbreviation DS :: secp where "DS \<equiv> dlog_secp drill_crypto"

lemmas ds_laws = dlog_secp_laws [of drill_crypto]

lemma last_enc: "last (bs (enc 1)) = 1" "last (bs (enc 2)) = 2" "bs (enc z) \<noteq> []"
proof -
  have bs: "bs (enc z) = nat_be 31 (nat (zrep z) div 256) @ [word_of_nat (nat (zrep z) mod 256)]" for z
  proof -
    have "(32 :: nat) = Suc 31" by simp
    then have "nat_be 32 n = nat_be 31 (n div 256) @ [word_of_nat (n mod 256)]" for n by (simp only: nat_be.simps)
    then show ?thesis by (simp add: enc_def bs_barr_of)
  qed
  show "last (bs (enc 1)) = 1" "last (bs (enc 2)) = 2" "bs (enc z) \<noteq> []"
    by (simp_all add: bs zrep_numeral order_n_def)
qed

lemma drill_hash: "msg \<noteq> [] \<Longrightarrow> rail_tagged_hash drill_crypto tag msg = (if last msg = 0x31 \<or> last msg = 2 then enc 2 else enc 1)"
  by (simp add: rail_tagged_hash_def sha256_def drill_crypto_def Let_def)

lemma drill_chal: "chal drill_crypto r x (enc 1) = 1" "chal drill_crypto r x (enc 2) = 2"
  by (simp_all add: chal_def drill_hash last_enc)

lemma drill_sign:
  assumes "k = enc 1 \<or> k = enc 2" "m = enc 1 \<or> m = enc 2"
  shows "\<exists>g. sign_with_nonce drill_crypto DS (enc 1) k m = Ok g"
proof -
  have e: "even_of DS 1 = 1" "even_of DS 2 = 2" using small_even [of 1] small_even [of 2] half_bounds(1) by (simp_all add: half_n_def order_n_def)
  have "(2 :: zn) \<noteq> 0" "(3 :: zn) \<noteq> 0" "(4 :: zn) \<noteq> 0" by (simp_all add: zn_eq_iff zrep_numeral order_n_def)
  then show ?thesis
    using assms unfolding sign_Ok [OF ds_laws]
    by (auto simp: drill_chal e sk_ok_enc [OF ds_laws])
qed

definition drill_oracle :: OracleKeys where
  "drill_oracle = \<lparr>ok_sk = enc 1, ok_seed = fill 0, ok_pubkey = pk_xonly DS (pk_of DS (enc 1))\<rparr>"

definition open_dir :: disk where
  "open_dir = \<lparr>dk_files = Map.empty, dk_created = True, dk_writable = (\<lambda>_. True), dk_cut = (\<lambda>_. None)\<rparr>"

lemma drill_hash_cases: "msg \<noteq> [] \<Longrightarrow> rail_tagged_hash drill_crypto tag msg = enc 1 \<or> rail_tagged_hash drill_crypto tag msg = enc 2"
  by (simp add: drill_hash)

lemma drill_seed: "from_seed drill_crypto DS (fill 0) = Ok drill_oracle"
proof -
  have "bs (fill 0 :: b32) = replicate 32 0" by (simp add: bs_fill)
  then have "bs (fill 0 :: b32) \<noteq> []" "last (bs (fill 0 :: b32)) = 0" by simp_all
  then show ?thesis by (simp add: from_seed_Ok drill_oracle_def drill_hash sk_ok_enc [OF ds_laws])
qed

lemma rmap_total: "(\<And>x. x \<in> set xs \<Longrightarrow> \<exists>y. f x = Ok y) \<Longrightarrow> \<exists>ys. rmap f xs = Ok ys"
proof (induction xs)
  case (Cons x xs)
  obtain y where "f x = Ok y" using Cons.prems [of x] by auto
  moreover obtain ys where "rmap f xs = Ok ys" using Cons by auto
  ultimately show ?case by simp
qed simp

lemma drill_nonce: "nonce drill_crypto seed ev i = enc 1 \<or> nonce drill_crypto seed ev i = enc 2"
proof -
  have "length (to_be i) = 2" by simp
  then have "to_be i \<noteq> []" by fastforce
  then show ?thesis unfolding nonce_def by (intro drill_hash_cases) simp
qed

lemma drill_message: "attestation_msg drill_crypto 0 = enc 1" "attestation_msg drill_crypto 1 = enc 2"
  by (simp_all add: attestation_msg_def drill_hash outcome_def ascii_def)

lemma drill_announces: "\<exists>an. announce drill_crypto DS drill_oracle t = Ok an"
proof -
  have "\<exists>y. nonce_point DS (nonce drill_crypto (ok_seed drill_oracle) (event_id t) (word_of_nat i)) = Ok y" for i
    using drill_nonce [of "ok_seed drill_oracle" "event_id t" "word_of_nat i"] zn_small
    by (auto simp: nonce_point_def secret_key_def sk_ok_enc [OF ds_laws])
  then obtain ys where ys: "rmap (\<lambda>i. nonce_point DS (nonce drill_crypto (ok_seed drill_oracle) (event_id t) (word_of_nat i))) [0 ..< unat NB_DIGITS] = Ok ys"
    using rmap_total [of "[0 ..< unat NB_DIGITS]" "\<lambda>i. nonce_point DS (nonce drill_crypto (ok_seed drill_oracle) (event_id t) (word_of_nat i))"] by blast
  let ?ev = "oracle_event ys (ucast t) (digit_descriptor BASE False (ascii ''USD/BTC'') 0 NB_DIGITS) (event_id t)"
  have "?ev \<noteq> []" unfolding digit_descriptor_def oracle_event_bytes by (simp add: bigsize_bytes_def put_bigsize_def TYPE_ORACLE_EVENT_def)
  then have m: "rail_tagged_hash drill_crypto ''DLC/oracle/announcement/v0'' ?ev = enc 1 \<or> rail_tagged_hash drill_crypto ''DLC/oracle/announcement/v0'' ?ev = enc 2"
    by (rule drill_hash_cases)
  have "event_id t \<noteq> []" by (simp add: event_id_def)
  then have "rail_tagged_hash drill_crypto ''SatUSD/oracle/announcement-nonce/v1'' (bs (ok_seed drill_oracle) @ event_id t) = enc 1
      \<or> rail_tagged_hash drill_crypto ''SatUSD/oracle/announcement-nonce/v1'' (bs (ok_seed drill_oracle) @ event_id t) = enc 2"
    by (intro drill_hash_cases) simp
  from drill_sign [OF this m] obtain g where "sign_with_nonce drill_crypto DS (ok_sk drill_oracle)
      (rail_tagged_hash drill_crypto ''SatUSD/oracle/announcement-nonce/v1'' (bs (ok_seed drill_oracle) @ event_id t))
      (rail_tagged_hash drill_crypto ''DLC/oracle/announcement/v0'' ?ev) = Ok g"
    by (auto simp: drill_oracle_def)
  with ys show ?thesis by (simp add: announce_def Let_def)
qed

lemma drill_attests: "\<exists>at. attest drill_crypto DS drill_oracle t p = Ok at"
proof -
  let ?f = "\<lambda>(i, d). sign_with_nonce drill_crypto DS (ok_sk drill_oracle)
      (nonce drill_crypto (ok_seed drill_oracle) (event_id t) (word_of_nat i)) (attestation_msg drill_crypto d)"
  have each: "\<exists>g. ?f x = Ok g" if "x \<in> set (enumerate 0 (digits p))" for x
  proof -
    obtain i d where xd: "x = (i, d)" by (cases x)
    then have x: "x = (i, d)" "i < 20" "d = digits p ! i" using that by (auto simp: in_set_enumerate_eq)
    have "attestation_msg drill_crypto d = enc 1 \<or> attestation_msg drill_crypto d = enc 2"
      using outcome_of_digit [OF x(2), of p] x(3) drill_message by auto
    from drill_sign [OF drill_nonce this] show ?thesis by (simp add: x drill_oracle_def)
  qed
  obtain sigs where sigs: "rmap ?f (enumerate 0 (digits p)) = Ok sigs"
    using rmap_total [of "enumerate 0 (digits p)" ?f] each by blast
  have "length sigs = 20" using sigs by (auto simp: rmap_Ok dest: list_all2_lengthD)
  with sigs show ?thesis by (simp add: attest_def oracle_attestation_def Let_def)
qed

lemma drill_announces_until:
  assumes "history_ok drill_crypto DS drill_oracle 60 120 d0" "dk_writable (dm_dir d0) = (\<lambda>_. True)"
  obtains d1 where "announce_until drill_crypto DS drill_oracle 60 7320 d0 = Some (Ok (), d1)"
    "dk_writable (dm_dir d1) = (\<lambda>_. True)" "dm_last_attested d1 = dm_last_attested d0" "dm_printed d1 = dm_printed d0"
proof -
  have h: "(60 :: u64) \<noteq> 0" "unat (7320 :: u64) + unat (60 :: u64) < 2 ^ 64" by simp_all
  obtain r d1 where a: "announce_until drill_crypto DS drill_oracle 60 7320 d0 = Some (r, d1)"
    "dm_last_attested d1 = dm_last_attested d0" "dm_printed d1 = dm_printed d0"
    using announce_until_history [OF assms(1) h] by metis
  let ?I = "\<lambda>(r :: (DaemonError, unit) res, d :: daemon). r = Ok () \<and> dk_writable (dm_dir d) = (\<lambda>_. True)"
  have "?I (r, d1)"
  proof (rule while_option_rule [where P = ?I, OF _ a(1) [unfolded announce_until_def]])
    fix s
    assume I: "?I s"
    obtain r1 d where s: "s = (r1, d)" by (cases s)
    obtain an where "announce drill_crypto DS drill_oracle (dm_next_announce d) = Ok an" using drill_announces by blast
    with I show "?I (case s of (x, dm) \<Rightarrow> announce_step drill_crypto DS drill_oracle 60 dm)"
      by (simp add: s announce_step_def write_file_open)
  qed (use assms(2) in simp)
  with a that show thesis by simp
qed

lemma drill_pass:
  assumes "daemon_start 60 150 d = Ok d0" "dk_writable d = (\<lambda>_. True)"
  obtains dm where "daemon_pass drill_crypto DS drill_oracle (Some p) 60 (\<lambda>_. (None, None)) 150 d0 = Some (Ok (), dm)"
    "dm_printed dm = [(120, p)]" "dk_writable (dm_dir dm) = (\<lambda>_. True)"
proof -
  have tick: "tick_of 60 150 = 120" by (simp add: tick_of_def)
  have st: "history_ok drill_crypto DS drill_oracle 60 120 d0" "dm_printed d0 = []" "dm_last_attested d0 = 60"
    using start_history [OF assms(1), of drill_crypto DS drill_oracle] by (simp_all add: tick saturating_sub_def)
  have "dm_dir d0 = d" using assms(1) by (auto simp: daemon_start_def Let_def split: if_splits)
  with assms(2) have "dk_writable (dm_dir d0) = (\<lambda>_. True)" by simp
  from drill_announces_until [OF st(1) this] st obtain d1 where
    d1: "announce_until drill_crypto DS drill_oracle 60 7320 d0 = Some (Ok (), d1)"
    "dk_writable (dm_dir d1) = (\<lambda>_. True)" "dm_last_attested d1 = 60" "dm_printed d1 = []" by metis
  obtain at where at: "attest drill_crypto DS drill_oracle 120 p = Ok at" using drill_attests by blast
  obtain r d2 where step: "attest_step drill_crypto DS drill_oracle (Some p) 60 (\<lambda>_. (None, None)) 150 120 d1 = (r, d2)" by fastforce
  then have d2: "r = Ok ()" "dm_last_attested d2 = 120" "dm_printed d2 = [(120, p)]" "dk_writable (dm_dir d2) = (\<lambda>_. True)"
    using d1(2-4) at by (auto simp: attest_step_def publish_tick_def write_file_open live_current_def)
  have "attest_until drill_crypto DS drill_oracle (Some p) 60 (\<lambda>_. (None, None)) 150 120 d1 = Some (Ok (), d2)"
    unfolding attest_until_def
    by (subst while_option_unfold, subst while_option_unfold) (simp add: d1(3) step d2(1) d2(2))
  then have "daemon_pass drill_crypto DS drill_oracle (Some p) 60 (\<lambda>_. (None, None)) 150 d0 = Some (Ok (), d2)"
    by (simp add: daemon_pass_def tick LEAD_TICKS_def d1(1))
  then show thesis using that d2(3,4) by blast
qed

theorem daemon_history_witness:
  "\<exists>d0 r dm. daemon_start 60 150 (open_dir) = Ok d0
     \<and> daemon_run drill_crypto DS drill_oracle (Some 60123) 60 [(150, \<lambda>_. (None, None))] d0 = Some (r, dm)
     \<and> dm_printed dm = [(120, 60123)] \<and> announced_in drill_crypto DS drill_oracle (dm_dir dm) 120"
proof -
  obtain d0 where d0: "daemon_start 60 150 open_dir = Ok d0" by (simp add: daemon_start_def Let_def)
  obtain dm where dm: "daemon_pass drill_crypto DS drill_oracle (Some 60123) 60 (\<lambda>_. (None, None)) 150 d0 = Some (Ok (), dm)"
    "dm_printed dm = [(120, 60123)]"
    by (rule drill_pass [OF d0]) (simp_all add: open_dir_def)
  have run: "daemon_run drill_crypto DS drill_oracle (Some 60123) 60 [(150, \<lambda>_. (None, None))] d0 = Some (Ok (), dm)"
    using dm by simp
  from daemon_history [OF d0, of "[(150, \<lambda>_. (None, None))]" drill_crypto DS drill_oracle "Some 60123"] run
  have "announced_in drill_crypto DS drill_oracle (dm_dir dm) 120" using dm(2) by auto
  with d0 run dm(2) show ?thesis by blast
qed

theorem restart_leaks_key_witness:
  "\<exists>d0 dm d0' dm' x y pr. daemon_start 60 150 open_dir = Ok d0
     \<and> daemon_pass drill_crypto DS drill_oracle (Some 1) 60 (\<lambda>_. (None, None)) 150 d0 = Some (Ok (), dm)
     \<and> daemon_start 60 150 (dm_dir dm) = Ok d0'
     \<and> daemon_pass drill_crypto DS drill_oracle (Some 0) 60 (\<lambda>_. (None, None)) 150 d0' = Some (Ok (), dm')
     \<and> read_hex (dm_dir dm) (att_file 120) = (Ok (Some x) :: (SecpError, _) res)
     \<and> read_hex (dm_dir dm') (att_file 120) = (Ok (Some y) :: (SecpError, _) res)
     \<and> verify_equivocation drill_crypto DS x y = Ok pr \<and> pk_of DS (qp_extracted_secret pr) = x_even DS (ok_pubkey drill_oracle)"
proof -
  obtain d0 where d0: "daemon_start 60 150 open_dir = Ok d0" by (simp add: daemon_start_def Let_def)
  obtain dm where dm: "daemon_pass drill_crypto DS drill_oracle (Some 1) 60 (\<lambda>_. (None, None)) 150 d0 = Some (Ok (), dm)"
    "dm_printed dm = [(120, 1)]" "dk_writable (dm_dir dm) = (\<lambda>_. True)"
    by (rule drill_pass [OF d0]) (simp_all add: open_dir_def)
  obtain d0' where d0': "daemon_start 60 150 (dm_dir dm) = Ok d0'" by (simp add: daemon_start_def Let_def)
  obtain dm' where dm': "daemon_pass drill_crypto DS drill_oracle (Some 0) 60 (\<lambda>_. (None, None)) 150 d0' = Some (Ok (), dm')"
    "dm_printed dm' = [(120, 0)]"
    by (rule drill_pass [OF d0' dm(3)])
  have "digits 1 ! 19 \<noteq> digits 0 ! 19" by (simp add: nth_digits MAX_OUTCOME_def shift_amount_def NB_DIGITS_def)
  then have differ: "digits 1 \<noteq> digits 0" by metis
  obtain an where an: "announce drill_crypto DS drill_oracle (tick_of 60 150) = Ok an" using drill_announces by blast
  have unit: "(chal drill_crypto n (ok_pubkey drill_oracle) (attestation_msg drill_crypto 1)
      - chal drill_crypto n (ok_pubkey drill_oracle) (attestation_msg drill_crypto 0)) ^ nat (order_n - 1) = 1" for n
    by (simp add: drill_message drill_chal)
  have p: "(120, 1) \<in> set (dm_printed dm)" using dm(2) by simp
  have o: "offered (Some 0) (\<lambda>_. (None, None)) 150 120 0" by (simp add: offered_def)
  from restart_leaks_key [OF ds_laws drill_seed d0 dm(1) p d0' dm'(1) o refl differ _ _ an unit] d0 dm d0' dm'
  show ?thesis by auto
qed

section \<open>What is served\<close>

lemma split_on_plain: "sep \<notin> set s \<Longrightarrow> split_on sep acc s = [acc @ s]"
  by (induction s arbitrary: acc) auto

lemma split_on_cons: "sep \<notin> set s \<Longrightarrow> split_on sep acc (s @ sep # r) = (acc @ s) # split_on sep [] r"
  by (induction s arbitrary: acc) auto

lemma parse_u64_decimal: "parse_u64 (decimal (unat t)) = Some t"
  by (simp add: parse_u64_def from_str_decimal)

text \<open>
  A client's path never reaches the file system: what is answered depends on it and on the files of
  announcements, attestations and the latest tick alone, and the path of a tick's attestation gets the
  file of exactly that tick.
\<close>

lemma respond_confined:
  "((\<forall>t. dk_files d (ann_file t) = dk_files d' (ann_file t)) \<and> (\<forall>t. dk_files d (att_file t) = dk_files d' (att_file t))
      \<and> dk_files d latest_file = dk_files d' latest_file \<longrightarrow> respond d pk path = respond d' pk path)
    \<and> respond d pk (ascii ''/v0/attestation/'' @ decimal (unat t)) = read_file d (att_file t)"
proof (intro conjI impI)
  assume "(\<forall>t. dk_files d (ann_file t) = dk_files d' (ann_file t)) \<and> (\<forall>t. dk_files d (att_file t) = dk_files d' (att_file t))
      \<and> dk_files d latest_file = dk_files d' latest_file"
  then have same: "read_file d (ann_file t) = read_file d' (ann_file t)" "read_file d (att_file t) = read_file d' (att_file t)"
    "read_file d latest_file = read_file d' latest_file" for t
    by (simp_all add: read_file_def)
  show "respond d pk path = respond d' pk path"
    by (simp only: respond_def Let_def same cong: if_cong list.case_cong option.case_cong)
next
  have "47 \<notin> set (decimal (unat t))" using decimal_digits [of 47 "unat t"] by auto
  then have "split_on 47 [] (dropWhile (\<lambda>c. c = 47) (ascii ''/v0/attestation/'' @ decimal (unat t)))
      = [ascii ''v0'', ascii ''attestation'', decimal (unat t)]"
    by (simp add: ascii_def split_on_plain)
  then show "respond d pk (ascii ''/v0/attestation/'' @ decimal (unat t)) = read_file d (att_file t)"
    by (simp add: respond_def parse_u64_decimal)
qed

lemma respond_confined_example:
  "respond (open_dir\<lparr>dk_files := [att_file 7 \<mapsto> [0x61]]\<rparr>) [] (ascii ''/v0/latest'')
      = respond (open_dir\<lparr>dk_files := [att_file 7 \<mapsto> [0x61], r1_file 1 \<mapsto> [0x62]]\<rparr>) [] (ascii ''/v0/latest'')
     \<and> respond (open_dir\<lparr>dk_files := [att_file 7 \<mapsto> [0x61]]\<rparr>) [] (ascii ''/v0/attestation/'' @ decimal (unat (7 :: u64))) = (200, [0x61])"
proof -
  have "latest_file \<noteq> r1_file 1" by (simp add: latest_file_def r1_file_def ascii_def)
  then show ?thesis
    using respond_confined [of "open_dir\<lparr>dk_files := [att_file 7 \<mapsto> [0x61]]\<rparr>" "open_dir\<lparr>dk_files := [att_file 7 \<mapsto> [0x61], r1_file 1 \<mapsto> [0x62]]\<rparr>"
        "[]" "ascii ''/v0/latest''" 7]
    by (simp add: read_file_def)
qed

end
