(* ===== verification/Tlock.thy ===== *)
theory Tlock
  imports Bytes Crypto
begin

text \<open>
  The liveness escape (\<^verbatim>\<open>satusd-oracle/src/tlock.rs\<close>): a batch's nonce secrets sealed to a future round of
  a randomness beacon, the arithmetic of rounds, and the bytes of the sealed escape. The timelock
  encryption is a parameter.
\<close>

section \<open>Rounds\<close>

definition QUICKNET_CHAIN :: b32 where
  "QUICKNET_CHAIN = barr_of [
    0x52, 0xdb, 0x9b, 0xa7, 0x0e, 0x0c, 0xc0, 0xf6, 0xea, 0xf7, 0x80, 0x3d, 0xd0, 0x74, 0x47, 0xa1,
    0xf5, 0x47, 0x77, 0x35, 0xfd, 0x3f, 0x66, 0x17, 0x92, 0xba, 0x94, 0x60, 0x0c, 0x84, 0xe9, 0x71]"
definition QUICKNET_GENESIS :: u64 where "QUICKNET_GENESIS = 1692803367"
definition QUICKNET_PERIOD_S :: u64 where "QUICKNET_PERIOD_S = 3"
definition DEFAULT_DELAY_S :: u64 where "DEFAULT_DELAY_S = 600"

definition div_ceil :: "u64 \<Rightarrow> u64 \<Rightarrow> u64" where
  "div_ceil a b = (if 0 < a mod b then a div b + 1 else a div b)"

definition round_at :: "u64 \<Rightarrow> u64 \<Rightarrow> u64 \<Rightarrow> u64" where
  "round_at genesis period_s unix_time =
     (if period_s = 0 \<or> unix_time \<le> genesis then 1
      else let elapsed = unix_time - genesis in div_ceil elapsed period_s + 1)"

definition quicknet_escape_round :: "u64 \<Rightarrow> u64 \<Rightarrow> u64" where
  "quicknet_escape_round max_maturity_ts delay_s =
     round_at QUICKNET_GENESIS QUICKNET_PERIOD_S (max_maturity_ts + delay_s)"

section \<open>The escape\<close>

record timelock =
  tl_encrypt :: "b32 \<Rightarrow> u64 \<Rightarrow> bytes \<Rightarrow> bytes"
  tl_decrypt :: "b32 \<Rightarrow> u64 \<Rightarrow> bytes \<Rightarrow> bytes option \<Rightarrow> bytes option"

record TlockEscape =
  te_drand_chain :: b32
  te_round :: u64
  te_ciphertext :: bytes

definition escape_seal :: "timelock \<Rightarrow> b32 \<Rightarrow> u64 \<Rightarrow> bytes \<Rightarrow> TlockEscape" where
  "escape_seal lock chain round batch_secrets =
     \<lparr>te_drand_chain = chain, te_round = round, te_ciphertext = tl_encrypt lock chain round batch_secrets\<rparr>"

definition escape_open :: "timelock \<Rightarrow> TlockEscape \<Rightarrow> bytes option \<Rightarrow> bytes option" where
  "escape_open lock self beacon = tl_decrypt lock (te_drand_chain self) (te_round self) (te_ciphertext self) beacon"

definition escape_to_bytes :: "TlockEscape \<Rightarrow> bytes" where
  "escape_to_bytes self =
     bs (te_drand_chain self) @ to_be (te_round self) @ to_be (word_of_nat (length (te_ciphertext self)) :: u32)
     @ te_ciphertext self"

definition escape_from_bytes :: "bytes \<Rightarrow> TlockEscape option" where
  "escape_from_bytes b =
     (if length b < 44 then None
      else Option.bind (arr_try (take 32 b)) (\<lambda>drand_chain.
        let round = from_be (take 8 (drop 32 b)); len = unat (from_be (take 4 (drop 40 b)) :: u32) in
        if 44 + len > length b then None
        else Some \<lparr>te_drand_chain = drand_chain, te_round = round, te_ciphertext = take len (drop 44 b)\<rparr>))"

section \<open>Properties\<close>

lemma div_ceil_nat:
  assumes "b \<noteq> 0" "unat a < 2 ^ 64 - 1"
  shows "unat (div_ceil a b) = (if unat b dvd unat a then unat a div unat b else unat a div unat b + 1)"
proof -
  have "unat a div unat b \<le> unat a" by simp
  then have "unat (a div b) + 1 < 2 ^ 64" using assms(2) by (simp add: unat_div_distrib del: div_le_dividend)
  moreover have "0 < a mod b \<longleftrightarrow> \<not> unat b dvd unat a"
    by (simp add: word_less_nat_alt unat_mod_distrib dvd_eq_mod_eq_0)
  ultimately show ?thesis by (simp add: div_ceil_def unat_div_distrib unat_word_ariths)
qed

text \<open>The round found is the first one published at the time or later.\<close>

lemma round_at_first:
  assumes "period \<noteq> 0" "unat t < 2 ^ 64 - 2" "unat genesis \<le> unat t"
  shows "0 < unat (round_at genesis period t)
    \<and> unat t \<le> unat genesis + (unat (round_at genesis period t) - 1) * unat period
    \<and> unat genesis + (unat (round_at genesis period t) - 1) * unat period < unat t + unat period"
proof (cases "t \<le> genesis")
  case True
  then have "unat t = unat genesis" using assms(3) by (simp add: word_le_nat_alt)
  moreover have "0 < unat period" using assms(1) by (simp add: unat_gt_0)
  ultimately show ?thesis using True by (simp add: round_at_def)
next
  case False
  then have e: "unat (t - genesis) = unat t - unat genesis" "unat genesis < unat t"
    by (simp_all add: unat_sub word_le_nat_alt not_le less_imp_le)
  have p: "0 < unat period" using assms(1) by (simp add: unat_gt_0)
  let ?e = "unat t - unat genesis" and ?p = "unat period"
  have c: "unat (div_ceil (t - genesis) period) = (if ?p dvd ?e then ?e div ?p else ?e div ?p + 1)"
    using div_ceil_nat [OF assms(1), of "t - genesis"] assms(2) e by simp
  have "?e div ?p < 2 ^ 64 - 2" using assms(2) by (intro le_less_trans [OF div_le_dividend]) simp
  then have "unat (div_ceil (t - genesis) period) + 1 < 2 ^ 64" using c by (auto split: if_splits)
  then have r: "unat (round_at genesis period t) = unat (div_ceil (t - genesis) period) + 1"
    using False assms(1) by (simp add: round_at_def Let_def unat_word_ariths)
  obtain q m where qm: "q = ?e div ?p" "m = ?e mod ?p" by blast
  then have "?e = q * ?p + m" "m < ?p" using p by simp_all
  moreover have "unat (round_at genesis period t) - 1 = (if m = 0 then q else q + 1)"
    using r c by (simp add: qm dvd_eq_mod_eq_0)
  ultimately show ?thesis using r e(2) by (auto simp: add_mult_distrib split: if_splits)
qed

text \<open>The parser accepts the bytes of an escape, with anything behind them, and no others.\<close>

lemma escape_from_bytes_iff:
  "escape_from_bytes b = Some e \<longleftrightarrow> length (te_ciphertext e) < 2 ^ 32 \<and> (\<exists>rest. b = escape_to_bytes e @ rest)"
proof
  assume ok: "escape_from_bytes b = Some e"
  then obtain len where len: "len = unat (from_be (take 4 (drop 40 b)) :: u32)" "44 + len \<le> length b"
    "bs (te_drand_chain e) = take 32 b" "te_round e = from_be (take 8 (drop 32 b))" "te_ciphertext e = take len (drop 44 b)"
    by (auto simp: escape_from_bytes_def bind_eq_Some_conv Let_def arr_try_Some_iff split: if_splits)
  have l: "length (take len (drop 44 b)) = len" using len(2) by simp
  have "len < 2 ^ 32" using len(1) unsigned_less [of "from_be (take 4 (drop 40 b)) :: u32"] by simp
  moreover have "to_be (te_round e) = take 8 (drop 32 b)" using len(2,4) by (simp add: to_be_from_be)
  moreover have "to_be (word_of_nat len :: u32) = take 4 (drop 40 b)" using len(1,2) by (simp add: to_be_from_be)
  moreover have "b = take 32 b @ take 8 (drop 32 b) @ take 4 (drop 40 b) @ take len (drop 44 b) @ drop (44 + len) b"
  proof -
    have "b = take 32 b @ drop 32 b" "drop 32 b = take 8 (drop 32 b) @ drop 40 b"
      "drop 40 b = take 4 (drop 40 b) @ drop 44 b" "drop 44 b = take len (drop 44 b) @ drop (44 + len) b"
      using append_take_drop_id [of 8 "drop 32 b"] append_take_drop_id [of 4 "drop 40 b"]
        append_take_drop_id [of len "drop 44 b"] by (simp_all add: add.commute)
    then show ?thesis by metis
  qed
  ultimately show "length (te_ciphertext e) < 2 ^ 32 \<and> (\<exists>rest. b = escape_to_bytes e @ rest)"
    using len(3,5) l unfolding escape_to_bytes_def by (intro conjI exI [of _ "drop (44 + len) b"]) simp_all
next
  assume "length (te_ciphertext e) < 2 ^ 32 \<and> (\<exists>rest. b = escape_to_bytes e @ rest)"
  then obtain rest where "length (te_ciphertext e) < 2 ^ 32" and b: "b = escape_to_bytes e @ rest" by blast
  then have l: "unat (word_of_nat (length (te_ciphertext e)) :: u32) = length (te_ciphertext e)" by (simp add: unat_word_of_nat)
  show "escape_from_bytes b = Some e" by (simp add: b escape_from_bytes_def escape_to_bytes_def l)
qed

text \<open>
  What the trait documents: an encryption to a round opens with that round's beacon to its plaintext, and
  with nothing else.
\<close>

definition timelock_laws :: "timelock \<Rightarrow> (b32 \<Rightarrow> u64 \<Rightarrow> bytes) \<Rightarrow> bool" where
  "timelock_laws lock beacon_of \<longleftrightarrow> (\<forall>chain round text beacon.
     tl_decrypt lock chain round (tl_encrypt lock chain round text) beacon
       = (if beacon = Some (beacon_of chain round) then Some text else None))"

text \<open>
  C37: Silence is a bounded delay. The published bytes of a batch sealed for a maturity and a grace parse,
  and open to exactly the batch's secrets with the beacon of one round and to nothing without it; that
  round comes when maturity and grace are over, and less than three seconds later.
\<close>

theorem escape_bounded_delay:
  assumes "timelock_laws lock beacon_of" and "round = quicknet_escape_round maturity delay"
    and "length (tl_encrypt lock QUICKNET_CHAIN round secrets) < 2 ^ 32"
    and "unat QUICKNET_GENESIS \<le> unat maturity + unat delay" "unat maturity + unat delay < 2 ^ 64 - 2"
  shows "(\<exists>e. escape_from_bytes (escape_to_bytes (escape_seal lock QUICKNET_CHAIN round secrets) @ rest) = Some e
      \<and> (\<forall>beacon. escape_open lock e beacon = (if beacon = Some (beacon_of QUICKNET_CHAIN round) then Some secrets else None)))
    \<and> unat maturity + unat delay \<le> unat QUICKNET_GENESIS + (unat round - 1) * 3
    \<and> unat QUICKNET_GENESIS + (unat round - 1) * 3 < unat maturity + unat delay + 3"
proof -
  have "escape_from_bytes (escape_to_bytes (escape_seal lock QUICKNET_CHAIN round secrets) @ rest)
      = Some (escape_seal lock QUICKNET_CHAIN round secrets)"
    using assms(3) by (auto simp: escape_from_bytes_iff escape_seal_def)
  moreover have "escape_open lock (escape_seal lock QUICKNET_CHAIN round secrets) beacon
      = (if beacon = Some (beacon_of QUICKNET_CHAIN round) then Some secrets else None)" for beacon
    using assms(1) by (simp add: escape_open_def escape_seal_def timelock_laws_def)
  moreover have "unat (maturity + delay) = unat maturity + unat delay" using assms(5) by (simp add: unat_word_ariths)
  moreover have "QUICKNET_PERIOD_S \<noteq> 0" "unat QUICKNET_PERIOD_S = 3" by (simp_all add: QUICKNET_PERIOD_S_def)
  ultimately show ?thesis
    using round_at_first [of QUICKNET_PERIOD_S "maturity + delay" QUICKNET_GENESIS] assms(2,4,5)
    by (simp add: quicknet_escape_round_def)
qed

definition plain_lock :: timelock where
  "plain_lock = \<lparr>tl_encrypt = (\<lambda>chain round text. text),
     tl_decrypt = (\<lambda>chain round text beacon. if beacon = Some (to_be round) then Some text else None)\<rparr>"

theorem escape_bounded_delay_witness:
  "\<exists>e. escape_from_bytes (escape_to_bytes (escape_seal plain_lock QUICKNET_CHAIN
        (quicknet_escape_round 1700000000 DEFAULT_DELAY_S) [7, 7]) @ [1]) = Some e
     \<and> (\<forall>beacon. escape_open plain_lock e beacon
          = (if beacon = Some (to_be (quicknet_escape_round 1700000000 DEFAULT_DELAY_S)) then Some [7, 7] else None))"
  using escape_bounded_delay [of plain_lock "\<lambda>chain round. to_be round" _ 1700000000 DEFAULT_DELAY_S "[7, 7]" "[1]", OF _ refl]
  by (simp add: plain_lock_def timelock_laws_def QUICKNET_GENESIS_def DEFAULT_DELAY_S_def)

end
