(* ===== verification/Operator.thy ===== *)
theory Operator
  imports Claim Wide
begin

text \<open>
  The operator's side of a redemption: the quote (\<^verbatim>\<open>satusd-operator/src/quote.rs\<close>), which the
  reserve claim verifier later checks, and the Merkle branches of the confirmed-payout observer
  (\<^verbatim>\<open>observer.rs\<close>), which the SPV verifiers fold.
\<close>

section \<open>The quote\<close>

record RedemptionQuote =
  oq_amount_atoms :: u64
  oq_price_e8 :: u64
  oq_gross_sats :: u64
  oq_fee_sats :: u64
  oq_user_payout_sats :: u64

datatype QuoteError = ZeroPrice | FeeTooHigh | QuoteOverflow

definition operator_quote :: "u64 \<Rightarrow> u64 \<Rightarrow> u16 \<Rightarrow> (QuoteError, RedemptionQuote) res" where
  "operator_quote amount price_e8 fee_bps =
     (if price_e8 = 0 then Err ZeroPrice
      else if fee_bps > 10000 then Err FeeTooHigh
      else rbind (ok_or (checked_mul (ucast amount :: u128) 100000000000000) QuoteOverflow) (\<lambda>scaled.
        let gross = scaled div ucast price_e8; fee = gross * ucast fee_bps div 10000 in
        rbind (ok_or (u64_try gross) QuoteOverflow) (\<lambda>gross_sats.
        let fee_sats = ucast fee in
        Ok \<lparr>oq_amount_atoms = amount, oq_price_e8 = price_e8, oq_gross_sats = gross_sats,
            oq_fee_sats = fee_sats, oq_user_payout_sats = gross_sats - fee_sats\<rparr>)))"

section \<open>Merkle branches\<close>

fun hash_pairs :: "crypto \<Rightarrow> b32 list \<Rightarrow> ('e, b32 list) res" where
  "hash_pairs C (a # b # r) = rbind (hash_pairs C r) (\<lambda>next. Ok (dsha256 C (bs a @ bs b) # next))"
| "hash_pairs C [a] = Panic"
| "hash_pairs C [] = Ok []"

definition even_layer :: "b32 list \<Rightarrow> b32 list" where
  "even_layer layer = (if length layer mod 2 = 1 then layer @ [last layer] else layer)"

lemma hash_pairs_length: "hash_pairs C xs = Ok ys \<Longrightarrow> length xs = 2 * length ys"
  by (induction C xs arbitrary: ys rule: hash_pairs.induct) (auto simp: res_simps)


unbundle bit_operations_syntax

function merkle_branch :: "crypto \<Rightarrow> b32 list \<Rightarrow> nat \<Rightarrow> ('e, b32 list) res" where
  "merkle_branch C layer index =
     (if length layer > 1 then
        let layer = even_layer layer in
        rbind (unwrap (get_at layer (index XOR 1))) (\<lambda>sib.
        case hash_pairs C layer of
          Ok next \<Rightarrow> rbind (merkle_branch C next (index div 2)) (\<lambda>branch. Ok (sib # branch))
        | Err e \<Rightarrow> Err e | Panic \<Rightarrow> Panic)
      else Ok [])"
  by pat_completeness auto
termination
proof (relation "measure (\<lambda>(C, layer, index). length layer)")
  fix C layer index x sib "next"
  assume *: "1 < length layer" "x = even_layer layer" and h: "hash_pairs C x = (Ok next :: ('e, _) res)"
  have "length x = 2 * length next" by (rule hash_pairs_length [OF h])
  with * show "((C, next, index div 2), C, layer, index) \<in> measure (\<lambda>(C, layer, index). length layer)"
    by (auto simp: even_layer_def split: if_splits)
qed simp

declare merkle_branch.simps [simp del]

section \<open>What the quote promises\<close>

lemma operator_quote_Ok:
  "operator_quote a p f = Ok q \<longleftrightarrow>
     p \<noteq> 0 \<and> unat f \<le> 10000 \<and> oq_amount_atoms q = a \<and> oq_price_e8 q = p
     \<and> unat (oq_gross_sats q) = unat a * 10 ^ 14 div unat p
     \<and> unat (oq_fee_sats q) = unat (oq_gross_sats q) * unat f div 10000
     \<and> unat (oq_user_payout_sats q) = unat (oq_gross_sats q) - unat (oq_fee_sats q)"
proof (cases "p \<noteq> 0 \<and> unat f \<le> 10000")
  case True
  define g :: u128 where "g = ucast a * 100000000000000 div ucast p"
  have m: "checked_mul (ucast a :: u128) 100000000000000 = Some (ucast a * 100000000000000)"
    using scaled_fits [of a] by simp
  have g: "unat g = unat a * 10 ^ 14 div unat p" using scaled_fits [of a] by (simp add: g_def unat_div)
  have f: "\<not> f > 10000" using True by (simp add: word_less_nat_alt not_less)
  show ?thesis
  proof (cases "unat g < 2 ^ 64")
    case small: True
    let ?gs = "ucast g :: u64" and ?fee = "ucast (g * ucast f div 10000) :: u64"
    have gs: "unat ?gs = unat g" by (rule narrow_u64 [OF small])
    have "unat g * unat f < 2 ^ 64 * 2 ^ 16"
      by (rule mult_strict_mono) (use small unat_lt_u16 [of f] in simp_all)
    then have prod: "unat (g * ucast f) = unat g * unat f" by (subst wide_mul) simp_all
    have le: "unat g * unat f div 10000 \<le> unat g"
      by (rule div_le_mono [of "unat g * unat f" "unat g * 10000" 10000, simplified]) (use True in simp)
    then have fee: "unat ?fee = unat g * unat f div 10000"
      using small by (subst narrow_u64) (simp_all add: unat_div prod)
    have narrowed: "u64_try g = Some ?gs" by (simp add: u64_try_Some gs)
    have sub: "unat (?gs - ?fee) = unat ?gs - unat ?fee"
      using le by (simp add: unat_sub word_le_nat_alt gs fee)
    have q: "operator_quote a p f = Ok \<lparr>oq_amount_atoms = a, oq_price_e8 = p, oq_gross_sats = ?gs,
        oq_fee_sats = ?fee, oq_user_payout_sats = ?gs - ?fee\<rparr>"
      using True f by (simp add: operator_quote_def m narrowed Let_def flip: g_def)
    show ?thesis
      unfolding q using True gs fee sub g
      by (cases q) (auto simp: word_unat_eq_iff)
  next
    case False
    then have "u64_try g = None"
      by (simp add: u64_try_def)
    then have "operator_quote a p f = Err QuoteOverflow"
      using True f by (simp add: operator_quote_def m Let_def flip: g_def)
    moreover have "unat (oq_gross_sats q) \<noteq> unat g" using False unat_le_u64 [of "oq_gross_sats q"] by simp
    ultimately show ?thesis using g by auto
  qed
next
  case False
  then show ?thesis by (auto simp: operator_quote_def word_less_nat_alt not_less)
qed

lemma quote_reconciles:
  assumes q: "operator_quote (lr_lock_amount_atoms (br_lock_record r)) price fee_bps = Ok q"
    and fee: "fee_bps \<le> ri_max_operator_fee_bps (br_redeem_intent r)"
    and paid: "oq_user_payout_sats q \<le> pc_htlc_output_value_sats (br_payout_confirmation r)"
  shows "redemption_gross price r =
    (if unat (oq_gross_sats q) * unat (ri_max_operator_fee_bps (br_redeem_intent r)) div 10000 \<le> unat (oq_gross_sats q)
     then Ok (ucast (oq_gross_sats q)) else Err PayoutTooLow)"
proof -
  let ?b = "ri_max_operator_fee_bps (br_redeem_intent r)"
  note Q = q [unfolded operator_quote_Ok]
  have g: "gross_sats price r = unat (oq_gross_sats q)" using Q by (simp add: gross_sats_def)
  have m: "max_fee_sats price r = unat (oq_gross_sats q) * unat ?b div 10000" by (simp add: max_fee_sats_def g)
  have "unat (oq_fee_sats q) \<le> unat (oq_gross_sats q) * unat ?b div 10000"
    unfolding Q [THEN conjunct2, THEN conjunct2, THEN conjunct2, THEN conjunct2, THEN conjunct2, THEN conjunct1]
    by (rule div_le_mono, rule mult_le_mono2) (use fee in \<open>simp add: word_le_nat_alt\<close>)
  moreover have "unat (oq_user_payout_sats q) \<le> unat (pc_htlc_output_value_sats (br_payout_confirmation r))"
    using paid by (simp add: word_le_nat_alt)
  moreover have "unat (oq_user_payout_sats q) = unat (oq_gross_sats q) - unat (oq_fee_sats q)" using Q by blast
  ultimately have "unat (oq_gross_sats q) - unat (oq_gross_sats q) * unat ?b div 10000
      \<le> unat (pc_htlc_output_value_sats (br_payout_confirmation r))"
    by linarith
  then have "pays_enough price r \<longleftrightarrow> unat (oq_gross_sats q) * unat ?b div 10000 \<le> unat (oq_gross_sats q)"
    unfolding pays_enough_def m g by blast
  moreover have "price \<noteq> 0" using Q by blast
  ultimately show ?thesis by (simp add: redemption_gross_cases g)
qed

lemma fee_within_gross: "unat (b :: u16) \<le> 10000 \<Longrightarrow> unat (g :: u64) * unat b div 10000 \<le> unat g"
  using div_le_mono [OF mult_le_mono2 [of "unat b" 10000 "unat g"], of 10000] by simp

section \<open>Branches fold to the root\<close>

text \<open>The Merkle root of a block's transaction ids, the last of an odd layer taken twice.\<close>

fun pair_hashes :: "crypto \<Rightarrow> b32 list \<Rightarrow> b32 list" where
  "pair_hashes C (a # b # r) = dsha256 C (bs a @ bs b) # pair_hashes C r"
| "pair_hashes C _ = []"

lemma hash_pairs_even: "even (length xs) \<Longrightarrow> hash_pairs C xs = Ok (pair_hashes C xs)"
  by (induction C xs rule: hash_pairs.induct) simp_all

lemma length_pair_hashes [simp]: "length (pair_hashes C xs) = length xs div 2"
  by (induction C xs rule: pair_hashes.induct) simp_all

lemma nth_pair_hashes:
  "Suc (2 * k) < length xs \<Longrightarrow> pair_hashes C xs ! k = dsha256 C (bs (xs ! (2 * k)) @ bs (xs ! Suc (2 * k)))"
  by (induction C xs arbitrary: k rule: pair_hashes.induct) (auto simp: nth_Cons split: nat.splits)

text \<open>One level of the tree, as bitcoin defines it.\<close>

fun tree_level :: "crypto \<Rightarrow> b32 list \<Rightarrow> b32 list" where
  "tree_level C (a # b # r) = dsha256 C (bs a @ bs b) # tree_level C r"
| "tree_level C [a] = [dsha256 C (bs a @ bs a)]"
| "tree_level C [] = []"

lemma even_layer_simps: "even_layer (a # b # r) = a # b # even_layer r" "even_layer [a] = [a, a]" "even_layer [] = []"
proof -
  show "even_layer (a # b # r) = a # b # even_layer r"
    by (cases "r = []") (simp_all add: even_layer_def)
qed (simp_all add: even_layer_def)

lemma level_pairs: "pair_hashes C (even_layer xs) = tree_level C xs"
  by (induction C xs rule: tree_level.induct) (simp_all add: even_layer_simps)

lemma length_tree_level [simp]: "length (tree_level C xs) = Suc (length xs) div 2"
  by (induction C xs rule: tree_level.induct) simp_all

lemma even_layer_even: "even (length (even_layer layer))"
  by (auto simp: even_layer_def odd_iff_mod_2_eq_one [symmetric])

lemma even_layer_length: "length layer \<le> length (even_layer layer)" "length (even_layer layer) \<le> Suc (length layer)"
  by (simp_all add: even_layer_def)

lemma even_layer_nth: "i < length layer \<Longrightarrow> even_layer layer ! i = layer ! i"
  by (simp add: even_layer_def nth_append)

function block_merkle_root :: "crypto \<Rightarrow> b32 list \<Rightarrow> b32" where
  "block_merkle_root C layer =
     (if length layer > 1 then block_merkle_root C (tree_level C layer) else hd layer)"
  by pat_completeness auto
termination
proof (relation "measure (\<lambda>(C, layer). length layer)")
  fix C and layer :: "b32 list"
  assume "1 < length layer"
  then show "((C, tree_level C layer), C, layer) \<in> measure (\<lambda>(C, layer). length layer)" by simp
qed simp

declare block_merkle_root.simps [simp del]

lemma xor_one: "i XOR 1 = (if even i then Suc i else i - 1)" for i :: nat
  using xor_one_eq [of i] by (auto elim: oddE)

lemmas xor_ones = xor_one xor_one [unfolded One_nat_def]

lemma even_unat: "even (unat w) \<longleftrightarrow> even w" for w :: u32
  by (simp add: even_iff_mod_2_eq_zero [of w] word_unat_eq_iff unat_mod even_iff_mod_2_eq_zero [of "unat w"])

lemma index_word:
  assumes "i < 2 ^ 32"
  shows "(word_of_nat i :: u32) AND 1 = 0 \<longleftrightarrow> even i" "drop_bit 1 (word_of_nat i :: u32) = word_of_nat (i div 2)"
proof -
  have u: "unat (word_of_nat i :: u32) = i" using assms by (simp add: unat_word_of_nat)
  show "(word_of_nat i :: u32) AND 1 = 0 \<longleftrightarrow> even i"
    using even_unat [of "word_of_nat i :: u32"] by (simp add: and_one_eq u mod_2_eq_odd)
  show "drop_bit 1 (word_of_nat i :: u32) = word_of_nat (i div 2)"
    using assms u by (simp add: word_unat_eq_iff drop_bit_eq_div unat_div unat_word_of_nat)
qed

lemma branch_folds:
  assumes "index < length layer" "length layer \<le> 2 ^ 32"
  shows "\<exists>branch. merkle_branch C layer index = (Ok branch :: ('e, _) res)
    \<and> merkle_root_from_proof C (layer ! index) (word_of_nat index) branch = block_merkle_root C layer"
  using assms
proof (induction "length layer" arbitrary: layer index rule: less_induct)
  case less
  show ?case
  proof (cases "length layer > 1")
    case False
    then obtain x where "layer = [x]" using less.prems(1) by (cases layer) auto
    then show ?thesis using less.prems(1) by (simp add: merkle_branch.simps block_merkle_root.simps)
  next
    case True
    let ?l = "even_layer layer" and ?n = "pair_hashes C (even_layer layer)" and ?k = "index div 2"
    have ev: "even (length ?l)" "length layer \<le> length ?l" "length ?l \<le> Suc (length layer)"
      using even_layer_even even_layer_length by auto
    have k: "Suc (2 * ?k) < length ?l" using ev less.prems(1) by presburger
    have "\<exists>branch. merkle_branch C ?n ?k = (Ok branch :: ('e, _) res)
        \<and> merkle_root_from_proof C (?n ! ?k) (word_of_nat ?k) branch = block_merkle_root C ?n"
      using True ev less.prems by (intro less.hyps) (auto, presburger?)
    then obtain branch where IH: "merkle_branch C ?n ?k = (Ok branch :: ('e, _) res)"
      "merkle_root_from_proof C (?n ! ?k) (word_of_nat ?k) branch = block_merkle_root C ?n" by blast
    have sib: "get_at ?l (index XOR 1) = Some (?l ! (index XOR 1))"
      using k by (auto simp: get_at_def xor_ones elim!: evenE oddE)
    have i: "index < 2 ^ 32" using less.prems by simp
    have "dsha256 C (if (word_of_nat index :: u32) AND 1 = 0 then bs (layer ! index) @ bs (?l ! (index XOR 1))
        else bs (?l ! (index XOR 1)) @ bs (layer ! index)) = ?n ! ?k"
      using nth_pair_hashes [OF k, of C] even_layer_nth [OF less.prems(1)]
      by (auto simp: index_word(1) [OF i] xor_ones elim!: evenE oddE)
    then have "merkle_root_from_proof C (layer ! index) (word_of_nat index) (?l ! (index XOR 1) # branch)
        = block_merkle_root C ?n"
      using IH(2) by (simp only: merkle_root_from_proof.simps index_word(2) [OF i])
    then show ?thesis
      using True IH(1) sib
      by (subst (1) merkle_branch.simps, subst block_merkle_root.simps)
        (simp add: Let_def hash_pairs_even [OF ev(1)] flip: level_pairs)
  qed
qed


section \<open>Properties\<close>

text \<open>
  C28: A quote the operator honours reconciles with the reimbursement, for every fee cap a user may put
  into an intent: the redemption that pays the quoted amount under a fee within the cap is valued by
  the reserve claim verifier at the quote's gross amount, as long as the largest fee under the cap is
  at most that amount, so for every cap up to 100 percent. Under a cap for which it is more, which
  nothing rules out, the honoured redemption is refused as underpaid.
\<close>

theorem honoured_quote_reconciles:
  assumes "operator_quote (lr_lock_amount_atoms (br_lock_record r)) price fee_bps = Ok q"
    and "fee_bps \<le> ri_max_operator_fee_bps (br_redeem_intent r)"
    and "oq_user_payout_sats q \<le> pc_htlc_output_value_sats (br_payout_confirmation r)"
  shows "redemption_gross price r =
      (if unat (oq_gross_sats q) * unat (ri_max_operator_fee_bps (br_redeem_intent r)) div 10000 \<le> unat (oq_gross_sats q)
       then Ok (ucast (oq_gross_sats q)) else Err PayoutTooLow)
    \<and> (unat (ri_max_operator_fee_bps (br_redeem_intent r)) \<le> 10000 \<longrightarrow> redemption_gross price r = Ok (ucast (oq_gross_sats q)))"
  using quote_reconciles [OF assms] fee_within_gross by simp

theorem honoured_quote_reconciles_witness:
  "operator_quote 100 10000000000000 500 = Ok \<lparr>oq_amount_atoms = 100, oq_price_e8 = 10000000000000,
      oq_gross_sats = 1000, oq_fee_sats = 50, oq_user_payout_sats = 950\<rparr>
   \<and> redemption_gross 10000000000000 (sample_redemption\<lparr>br_redeem_intent := sample_intent\<lparr>ri_max_operator_fee_bps := 500\<rparr>\<rparr>) = Ok 1000
   \<and> redemption_gross 10000000000000 (sample_redemption\<lparr>br_redeem_intent := sample_intent\<lparr>ri_max_operator_fee_bps := 20000\<rparr>\<rparr>)
     = Err PayoutTooLow"
proof -
  let ?r = "sample_redemption\<lparr>br_redeem_intent := sample_intent\<lparr>ri_max_operator_fee_bps := 500\<rparr>\<rparr>"
  let ?q = "\<lparr>oq_amount_atoms = 100, oq_price_e8 = 10000000000000,
      oq_gross_sats = 1000, oq_fee_sats = 50, oq_user_payout_sats = 950\<rparr> :: RedemptionQuote"
  have q: "operator_quote 100 10000000000000 500 = Ok ?q"
    by (simp add: operator_quote_Ok)
  have l: "lr_lock_amount_atoms (br_lock_record sample_redemption) = 100"
    by (simp add: sample_redemption_def sample_lock_def)
  have "oq_user_payout_sats ?q \<le> pc_htlc_output_value_sats (br_payout_confirmation sample_redemption)"
    by (simp add: sample_redemption_def sample_payout_def)
  with honoured_quote_reconciles [of ?r 10000000000000 500 ?q] q l
    honoured_quote_reconciles [of "sample_redemption\<lparr>br_redeem_intent := sample_intent\<lparr>ri_max_operator_fee_bps := 20000\<rparr>\<rparr>"
      10000000000000 500 ?q]
  show ?thesis by simp
qed

text \<open>
  C27: The observer's Merkle branches are what the SPV verifiers fold: for any position in any block of
  at most \<open>2 ^ 32\<close> transactions the branch exists and folds to the block's Merkle root.
\<close>

theorem observed_branch_folds:
  assumes "index < length txids" "length txids \<le> 2 ^ 32"
  shows "\<exists>branch. merkle_branch C txids index = (Ok branch :: ('e, _) res)
    \<and> merkle_root_from_proof C (txids ! index) (word_of_nat index) branch = block_merkle_root C txids"
  by (rule branch_folds [OF assms])

theorem observed_branch_folds_witness:
  "\<exists>branch. merkle_branch const_crypto [fill 1, fill 2, fill 3] 2 = (Ok branch :: (unit, _) res)
    \<and> merkle_root_from_proof const_crypto (fill 3) 2 branch = block_merkle_root const_crypto [fill 1, fill 2, fill 3]"
  using observed_branch_folds [of 2 "[fill 1, fill 2, fill 3]" const_crypto] by simp

end
