(* ===== verification/Observer.thy ===== *)
theory Observer
  imports Operator
begin

text \<open>
  The confirmed-payout observer (\<^verbatim>\<open>satusd-operator/src/observer.rs\<close>): the operator and the issuer
  read a bitcoin node and build the SPV evidence that the state node's verifiers check.
\<close>

section \<open>The bitcoin node\<close>

text \<open>What the RPC client returns, \<open>None\<close> for a failed call; a block comes as its header and ids.\<close>

record client_tx =
  ct_legacy :: bytes
  ct_inputs :: "(OutPoint \<times> bytes list) list"
  ct_outputs :: "(u64 \<times> bytes) list"

record btc_client =
  bc_tx_block :: "b32 \<Rightarrow> b32 option option"
  bc_block :: "b32 \<Rightarrow> (b80 \<times> b32 list) option"
  bc_height :: "b32 \<Rightarrow> u64 option"
  bc_hash_at :: "u64 \<Rightarrow> b32 option"
  bc_header :: "b32 \<Rightarrow> b80 option"
  bc_tx :: "b32 \<Rightarrow> client_tx option"

datatype ObserverError = RpcFailed | NotConfirmed | NotInBlock | VoutOutOfRange | NoHtlcSpend | NoPreimage

record TxInclusion =
  xi_header :: b80
  xi_block_hash :: b32
  xi_height :: u32
  xi_tx_index :: u32
  xi_merkle_proof :: "b32 list"

definition locate :: "crypto \<Rightarrow> btc_client \<Rightarrow> b32 \<Rightarrow> (ObserverError, TxInclusion) res" where
  "locate C btc txid =
     rbind (ok_or (bc_tx_block btc txid) RpcFailed) (\<lambda>info.
     rbind (ok_or info NotConfirmed) (\<lambda>block_hash.
     rbind (ok_or (bc_block btc block_hash) RpcFailed) (\<lambda>(header, txids).
     rbind (ok_or (bc_height btc block_hash) RpcFailed) (\<lambda>height.
     rbind (ok_or (position txid txids) NotInBlock) (\<lambda>tx_index.
     rbind (merkle_branch C txids tx_index) (\<lambda>proof'.
     Ok \<lparr>xi_header = header, xi_block_hash = block_hash, xi_height = ucast height,
         xi_tx_index = word_of_nat tx_index, xi_merkle_proof = proof'\<rparr>))))))"

fun burial_headers :: "btc_client \<Rightarrow> nat \<Rightarrow> b32 \<Rightarrow> (ObserverError, b80 list) res" where
  "burial_headers btc 0 h = Ok []"
| "burial_headers btc (Suc k) h =
     rbind (ok_or (bc_height btc h) RpcFailed) (\<lambda>height.
     rbind (ok_or (bc_hash_at btc (height + 1)) RpcFailed) (\<lambda>h.
     rbind (ok_or (bc_header btc h) RpcFailed) (\<lambda>header.
     rbind (burial_headers btc k h) (\<lambda>headers. Ok (header # headers)))))"

definition spends :: "OutPoint \<Rightarrow> OutPoint \<times> bytes list \<Rightarrow> bool" where
  "spends outpoint i \<longleftrightarrow> fst i = outpoint"

definition build_payout_confirmation ::
  "crypto \<Rightarrow> btc_client \<Rightarrow> b32 \<Rightarrow> OutPoint \<Rightarrow> b32 \<Rightarrow> nat \<Rightarrow> (ObserverError, BtcPayoutConfirmation) res" where
  "build_payout_confirmation C btc payment_hash htlc_outpoint claim_txid min_depth =
     rbind (locate C btc (op_txid htlc_outpoint)) (\<lambda>htlc.
     rbind (ok_or (bc_tx btc (op_txid htlc_outpoint)) RpcFailed) (\<lambda>htlc_tx.
     rbind (ok_or (get_at (ct_outputs htlc_tx) (unat (op_vout htlc_outpoint))) VoutOutOfRange) (\<lambda>(value_sats, spk).
     rbind (locate C btc claim_txid) (\<lambda>claim.
     rbind (ok_or (bc_tx btc claim_txid) RpcFailed) (\<lambda>claim_tx.
     rbind (ok_or (find (\<lambda>(_, i). spends htlc_outpoint i) (enumerate 0 (ct_inputs claim_tx))) NoHtlcSpend)
       (\<lambda>(input_index, claim_in).
     rbind (ok_or (find (\<lambda>w. length w = 32 \<and> sha256 C [w] = payment_hash) (snd claim_in)) NoPreimage) (\<lambda>w.
     rbind (unwrap (arr_try w)) (\<lambda>preimage.
     rbind (burial_headers btc min_depth (xi_block_hash claim)) (\<lambda>headers.
     Ok \<lparr>pc_btc_htlc_txid = op_txid htlc_outpoint, pc_btc_htlc_vout = op_vout htlc_outpoint,
         pc_htlc_output_value_sats = value_sats, pc_htlc_output_script = spk,
         pc_htlc_inclusion_block_hash = xi_block_hash htlc, pc_htlc_inclusion_block_height = xi_height htlc,
         pc_htlc_inclusion_merkle_proof = xi_merkle_proof htlc, pc_claim_spend_txid = claim_txid,
         pc_claim_spend_input_index = word_of_nat input_index, pc_claim_spend_witness = snd claim_in,
         pc_claim_tx_legacy = ct_legacy claim_tx, pc_revealed_preimage = preimage,
         pc_claim_inclusion_block_hash = xi_block_hash claim, pc_claim_inclusion_block_height = xi_height claim,
         pc_claim_inclusion_merkle_proof = xi_merkle_proof claim, pc_confirmation_headers = headers,
         pc_htlc_tx_index = xi_tx_index htlc, pc_claim_tx_index = xi_tx_index claim,
         pc_htlc_inclusion_header = xi_header htlc, pc_claim_inclusion_header = xi_header claim\<rparr>)))))))))"

definition build_deposit_confirmation ::
  "crypto \<Rightarrow> btc_client \<Rightarrow> b32 \<Rightarrow> nat \<Rightarrow> (ObserverError, BtcDepositConfirmation) res" where
  "build_deposit_confirmation C btc deposit_txid min_depth =
     rbind (locate C btc deposit_txid) (\<lambda>inclusion.
     rbind (ok_or (bc_tx btc deposit_txid) RpcFailed) (\<lambda>tx.
     rbind (burial_headers btc (min_depth - 1) (xi_block_hash inclusion)) (\<lambda>headers.
     Ok \<lparr>dc_deposit_tx_legacy = ct_legacy tx, dc_inclusion_header = xi_header inclusion,
         dc_inclusion_block_hash = xi_block_hash inclusion, dc_inclusion_block_height = xi_height inclusion,
         dc_inclusion_merkle_proof = xi_merkle_proof inclusion, dc_tx_index = xi_tx_index inclusion,
         dc_confirmation_headers = headers\<rparr>)))"

section \<open>A client that follows the chain\<close>

text \<open>
  What bitcoind documents of its answers: blocks and headers carry the hash asked for and enough
  work, a block commits to its transaction ids, the hash at the next height is the child on the best
  chain, and a transaction is the one its id names.
\<close>

definition tx_is :: "crypto \<Rightarrow> b32 \<Rightarrow> client_tx \<Rightarrow> bool" where
  "tx_is C txid tx \<longleftrightarrow> dsha256 C (ct_legacy tx) = txid \<and>
     (\<exists>v ins l. ct_legacy tx = ser_tx v ins (ct_outputs tx) l \<and> length (ser_tx v ins (ct_outputs tx) l) < 2 ^ 31
        \<and> map (\<lambda>t. \<lparr>op_txid = ti_txid t, op_vout = ti_vout t\<rparr>) ins = map fst (ct_inputs tx))"

definition follows_chain :: "crypto \<Rightarrow> btc_client \<Rightarrow> bool" where
  "follows_chain C btc \<longleftrightarrow>
     (\<forall>h header txids. bc_block btc h = Some (header, txids) \<longrightarrow>
        block_hash C header = h \<and> pow_ok C header \<and> merkle_root_field header = block_merkle_root C txids
        \<and> length txids \<le> 2 ^ 32)
     \<and> (\<forall>h header. bc_header btc h = Some header \<longrightarrow> block_hash C header = h \<and> pow_ok C header)
     \<and> (\<forall>h height h' header. bc_height btc h = Some height \<and> bc_hash_at btc (height + 1) = Some h'
          \<and> bc_header btc h' = Some header \<longrightarrow> prev_block_hash header = h)
     \<and> (\<forall>txid tx. bc_tx btc txid = Some tx \<longrightarrow> tx_is C txid tx)"

lemma locate_sound:
  assumes "follows_chain C btc" "locate C btc txid = Ok x"
  shows "block_hash C (xi_header x) = xi_block_hash x" "pow_ok C (xi_header x)"
    "merkle_root_from_proof C txid (xi_tx_index x) (xi_merkle_proof x) = merkle_root_field (xi_header x)"
proof -
  from assms(2) obtain txids i where l: "bc_block btc (xi_block_hash x) = Some (xi_header x, txids)"
    "position txid txids = Some i" "merkle_branch C txids i = (Ok (xi_merkle_proof x) :: (ObserverError, _) res)"
    "xi_tx_index x = word_of_nat i"
    by (auto simp: locate_def res_simps)
  have b: "block_hash C (xi_header x) = xi_block_hash x \<and> pow_ok C (xi_header x)
      \<and> merkle_root_field (xi_header x) = block_merkle_root C txids \<and> length txids \<le> 2 ^ 32"
    using assms(1) l(1) unfolding follows_chain_def by blast
  then show "block_hash C (xi_header x) = xi_block_hash x" "pow_ok C (xi_header x)" by simp_all
  have i: "i < length txids" "txids ! i = txid" using position_nth [OF l(2)] by simp_all
  from branch_folds [OF i(1), of C, where 'e = ObserverError] b l(3,4) i(2)
  show "merkle_root_from_proof C txid (xi_tx_index x) (xi_merkle_proof x) = merkle_root_field (xi_header x)"
    by auto
qed

lemma burial_linked:
  assumes chain: "follows_chain C btc"
  shows "burial_headers btc k h = Ok hs \<Longrightarrow> length hs = k \<and> linked C h hs"
proof (induction k arbitrary: h hs)
  case (Suc k)
  then obtain height h' header hs' where s: "bc_height btc h = Some height" "bc_hash_at btc (height + 1) = Some h'"
    "bc_header btc h' = Some header" "burial_headers btc k h' = Ok hs'" "hs = header # hs'"
    by (auto simp: res_simps)
  moreover have "prev_block_hash header = h" "block_hash C header = h'" "pow_ok C header"
    using chain s(1-3) unfolding follows_chain_def by blast+
  ultimately show ?case using Suc.IH [OF s(4)] by simp
qed simp

lemma tx_reads:
  assumes "tx_is C txid tx"
  shows "dsha256 C (ct_legacy tx) = txid" "legacy_tx_outputs (ct_legacy tx) = (Ok (Some (ct_outputs tx)) :: ('e, _) res)"
    and "i < length (ct_inputs tx) \<Longrightarrow> legacy_tx_input_outpoint (ct_legacy tx) (word_of_nat i)
      = Some (op_txid (fst (ct_inputs tx ! i)), op_vout (fst (ct_inputs tx ! i)))"
proof -
  obtain v ins l where t: "ct_legacy tx = ser_tx v ins (ct_outputs tx) l" "length (ser_tx v ins (ct_outputs tx) l) < 2 ^ 31"
    "map (\<lambda>t. \<lparr>op_txid = ti_txid t, op_vout = ti_vout t\<rparr>) ins = map fst (ct_inputs tx)"
    using assms by (auto simp: tx_is_def)
  show "dsha256 C (ct_legacy tx) = txid" using assms by (simp add: tx_is_def)
  have len: "length (ser_tx v ins (ct_outputs tx) l) < 2 ^ 58" using t(2) by simp
  show "legacy_tx_outputs (ct_legacy tx) = (Ok (Some (ct_outputs tx)) :: ('e, _) res)"
    using legacy_tx_readers [OF len] unfolding t(1) by blast
  assume i: "i < length (ct_inputs tx)"
  have li: "length ins = length (ct_inputs tx)" using arg_cong [OF t(3), of length] by simp
  have "length ins \<le> length (concat (map ser_in ins))"
    using length_concat_ge [of ins 1 ser_in] by (simp add: ser_in_def)
  then have "i < 2 ^ 31" using i li t(2) by (simp add: ser_tx_def)
  then have u: "unat (word_of_nat i :: u32) = i" by (simp add: unat_word_of_nat)
  have "map (\<lambda>t. \<lparr>op_txid = ti_txid t, op_vout = ti_vout t\<rparr>) ins ! i = fst (ct_inputs tx ! i)"
    unfolding t(3) using i by simp
  then have "fst (ct_inputs tx ! i) = \<lparr>op_txid = ti_txid (ins ! i), op_vout = ti_vout (ins ! i)\<rparr>"
    using i li by simp
  then show "legacy_tx_input_outpoint (ct_legacy tx) (word_of_nat i)
      = Some (op_txid (fst (ct_inputs tx ! i)), op_vout (fst (ct_inputs tx ! i)))"
    using legacy_tx_readers [OF len, of "word_of_nat i", where 'e = unit] i li unfolding t(1) u by simp
qed

text \<open>The issuer's evidence is what MINT_COMMIT accepts.\<close>

lemma deposit_evidence:
  assumes chain: "follows_chain C btc" and built: "build_deposit_confirmation C btc txid depth = Ok c"
    and tx: "bc_tx btc txid = Some tx"
    and pays: "find (\<lambda>(_, spk). spk = bs (reserve_p2wsh_spk C pks k)) (ct_outputs tx) = Some (sats, spk)"
  shows "verify_deposit_confirmation C c txid sats pks k depth = Ok ()"
proof -
  obtain x hs where b: "locate C btc txid = Ok x" "burial_headers btc (depth - 1) (xi_block_hash x) = Ok hs"
    "dc_deposit_tx_legacy c = ct_legacy tx" "dc_inclusion_header c = xi_header x"
    "dc_inclusion_block_hash c = xi_block_hash x" "dc_inclusion_merkle_proof c = xi_merkle_proof x"
    "dc_tx_index c = xi_tx_index x" "dc_confirmation_headers c = hs"
    using built tx by (auto simp: build_deposit_confirmation_def res_simps)
  have "tx_is C txid tx" using chain tx unfolding follows_chain_def by blast
  from tx_reads [OF this] pays burial_linked [OF chain b(2)] locate_sound [OF chain b(1)] b(3-)
  show ?thesis unfolding verify_deposit_confirmation_Ok by auto
qed

text \<open>The operator's evidence is what a reserve claim accepts, once the tip is deep enough.\<close>

lemma payout_evidence:
  assumes chain: "follows_chain C btc"
    and built: "build_payout_confirmation C btc payment_hash outpoint claim_txid depth = Ok c"
    and order: "pc_htlc_inclusion_block_height c \<le> pc_claim_inclusion_block_height c"
    and tip: "saturating_add (pc_claim_inclusion_block_height c) (word_of_nat depth) \<le> tip"
  shows "verify_payout_confirmation C c payment_hash depth tip = Ok ()"
proof -
  obtain x y tx i inp w hs where b: "locate C btc (op_txid outpoint) = Ok x" "locate C btc claim_txid = Ok y"
    "bc_tx btc claim_txid = Some tx"
    "find (\<lambda>(_, i). spends outpoint i) (enumerate 0 (ct_inputs tx)) = Some (i, inp)"
    "find (\<lambda>w. length w = 32 \<and> sha256 C [w] = payment_hash) (snd inp) = Some w"
    "arr_try w = Some (pc_revealed_preimage c)"
    "burial_headers btc depth (xi_block_hash y) = Ok hs"
    and c: "pc_btc_htlc_txid c = op_txid outpoint" "pc_btc_htlc_vout c = op_vout outpoint"
    "pc_htlc_inclusion_block_hash c = xi_block_hash x" "pc_htlc_inclusion_merkle_proof c = xi_merkle_proof x"
    "pc_claim_spend_txid c = claim_txid" "pc_claim_spend_input_index c = word_of_nat i"
    "pc_claim_tx_legacy c = ct_legacy tx" "pc_claim_inclusion_block_hash c = xi_block_hash y"
    "pc_claim_inclusion_merkle_proof c = xi_merkle_proof y" "pc_confirmation_headers c = hs"
    "pc_htlc_tx_index c = xi_tx_index x" "pc_claim_tx_index c = xi_tx_index y"
    "pc_htlc_inclusion_header c = xi_header x" "pc_claim_inclusion_header c = xi_header y"
    using built by (auto simp: build_payout_confirmation_def res_simps)
  have tx: "tx_is C claim_txid tx" using chain b(3) unfolding follows_chain_def by blast
  have i: "i < length (ct_inputs tx)" "fst (ct_inputs tx ! i) = outpoint"
    using b(4) by (auto simp: find_Some_iff spends_def nth_enumerate_eq)
  have w: "sha256 C [bs (pc_revealed_preimage c)] = payment_hash"
    using b(5,6) by (auto simp: find_Some_iff arr_try_Some_iff)
  show ?thesis
    unfolding verify_payout_confirmation_Ok
    using w order tip tx_reads(1) [OF tx] tx_reads(3) [OF tx i(1)] i(2) burial_linked [OF chain b(7)]
      locate_sound [OF chain b(1)] locate_sound [OF chain b(2)]
    by (simp add: c)
qed

section \<open>Properties\<close>

text \<open>
  The issuer's evidence is what MINT_COMMIT accepts: over a bitcoin node that follows the chain,
  whenever the deposit confirmation can be built and the first output to the reserve script pays the
  named amount, the deposit verifier of the state node accepts it.
\<close>

theorem deposit_evidence_accepted:
  assumes "follows_chain C btc" "build_deposit_confirmation C btc txid depth = Ok c" "bc_tx btc txid = Some tx"
    and "find (\<lambda>(_, spk). spk = bs (reserve_p2wsh_spk C pks k)) (ct_outputs tx) = Some (sats, spk)"
  shows "verify_deposit_confirmation C c txid sats pks k depth = Ok ()"
  by (rule deposit_evidence [OF assms])

text \<open>
  C26: The operator's evidence is what a reserve claim accepts: over a bitcoin node that follows the
  chain, whenever the payout confirmation can be built, the claim is not below the lock's block and
  the tip is deep enough, the payout verifier of the state node accepts it.
\<close>

theorem payout_evidence_accepted:
  assumes "follows_chain C btc" "build_payout_confirmation C btc payment_hash outpoint claim_txid depth = Ok c"
    and "pc_htlc_inclusion_block_height c \<le> pc_claim_inclusion_block_height c"
    and "saturating_add (pc_claim_inclusion_block_height c) (word_of_nat depth) \<le> tip"
  shows "verify_payout_confirmation C c payment_hash depth tip = Ok ()"
  by (rule payout_evidence [OF assms])

text \<open>A chain of empty headers whose every hash is zero, with one transaction in each block.\<close>

definition const_tx :: client_tx where
  "const_tx = \<lparr>ct_legacy = sample_deposit_tx, ct_inputs = [(\<lparr>op_txid = fill 0, op_vout = 0\<rparr>, [replicate 32 0])],
     ct_outputs = [(1000000, 0 # 0x20 # replicate 32 0)]\<rparr>"

definition const_client :: btc_client where
  "const_client = \<lparr>bc_tx_block = (\<lambda>_. Some (Some (fill 0))), bc_block = (\<lambda>h. if h = fill 0 then Some (fill 0, [fill 0]) else None),
     bc_height = (\<lambda>h. if h = fill 0 then Some 100 else None), bc_hash_at = (\<lambda>_. Some (fill 0)),
     bc_header = (\<lambda>h. if h = fill 0 then Some (fill 0) else None),
     bc_tx = (\<lambda>h. if h = fill 0 then Some const_tx else None)\<rparr>"

lemma const_follows: "follows_chain const_crypto const_client"
proof -
  have "tx_is const_crypto (fill 0) const_tx"
    unfolding tx_is_def
  proof (intro conjI exI)
    show "ct_legacy const_tx = ser_tx 2 [sample_tx_in] (ct_outputs const_tx) 0"
      by (simp add: const_tx_def sample_deposit_tx_def)
    show "length (ser_tx 2 [sample_tx_in] (ct_outputs const_tx) 0) < 2 ^ 31"
      by (simp add: const_tx_def ser_tx_def ser_in_def ser_out_def sample_tx_in_def compact_size_def)
  qed (simp_all add: const_tx_def dsha256_def sample_tx_in_def)
  then show ?thesis
    by (auto simp: follows_chain_def const_client_def const_header block_merkle_root.simps split: if_splits)
qed

lemma const_burial: "burial_headers const_client k (fill 0) = Ok (replicate k (fill 0))"
  by (induction k) (simp_all add: const_client_def)

lemma const_locate: "locate const_crypto const_client (fill 0) = Ok \<lparr>xi_header = fill 0, xi_block_hash = fill 0,
    xi_height = 100, xi_tx_index = 0, xi_merkle_proof = []\<rparr>"
  by (simp add: locate_def const_client_def position_def merkle_branch.simps)

theorem deposit_evidence_accepted_witness:
  "\<exists>c. build_deposit_confirmation const_crypto const_client (fill 0) 6 = Ok c
     \<and> verify_deposit_confirmation const_crypto c (fill 0) 1000000 [fill 2] 1 6 = Ok ()"
proof -
  obtain c where c: "build_deposit_confirmation const_crypto const_client (fill 0) 6 = Ok c"
    by (simp add: build_deposit_confirmation_def const_locate const_burial) (simp add: const_client_def)
  have tx: "bc_tx const_client (fill 0) = Some const_tx" by (simp add: const_client_def)
  have "find (\<lambda>(_, spk). spk = bs (reserve_p2wsh_spk const_crypto [fill 2] 1)) (ct_outputs const_tx)
      = Some (1000000, 0 # 0x20 # replicate 32 0)"
    by (simp add: const_tx_def reserve_p2wsh_spk_def Let_def bs_barr_of bs_fill)
  from deposit_evidence_accepted [OF const_follows c tx this] c show ?thesis by blast
qed

theorem payout_evidence_accepted_witness:
  "\<exists>c. build_payout_confirmation const_crypto const_client (fill 0) \<lparr>op_txid = fill 0, op_vout = 0\<rparr> (fill 0) 6 = Ok c
     \<and> verify_payout_confirmation const_crypto c (fill 0) 6 106 = Ok ()"
proof -
  obtain c where c: "build_payout_confirmation const_crypto const_client (fill 0) \<lparr>op_txid = fill 0, op_vout = 0\<rparr> (fill 0) 6 = Ok c"
    "pc_htlc_inclusion_block_height c = 100" "pc_claim_inclusion_block_height c = 100"
    by (simp add: build_payout_confirmation_def const_locate const_burial)
      (simp add: const_client_def const_tx_def get_at_def spends_def sha256_def arr_try_def)
  have "saturating_add (100 :: u32) (word_of_nat 6) \<le> 106" by (simp add: saturating_add_def)
  with payout_evidence_accepted [OF const_follows c(1), of 106] c show ?thesis by auto
qed

end
