(* ===== verification/Script.thy ===== *)
theory Script
  imports Observer "HOL-Library.Sublist"
begin

text \<open>
  The bitcoin scripts of a redemption: the operator's BTC HTLC (\<^verbatim>\<open>satusd-operator/src/htlc.rs\<close>), the
  lock anchor of the asset leg (\<^verbatim>\<open>satusd-lock/src/lib.rs\<close>) and the committee's reserve script and its
  spend (\<^verbatim>\<open>satusd-operator/src/reserve_spend.rs\<close>). A script is the list of what is pushed onto the
  builder; how the bitcoin crate serializes it and computes Taproot outputs is a parameter.
\<close>

section \<open>Scripts\<close>

datatype opcode = OP_SHA256 | OP_EQUALVERIFY | OP_CHECKSIG | OP_CHECKSIGVERIFY | OP_CSV | OP_CHECKMULTISIG

datatype script_item = Opcode opcode | PushBytes bytes | PushInt int

type_synonym script = "script_item list"

datatype tap_tree = TapScript script | TapHidden b32 | TapBranch tap_tree tap_tree

text \<open>The bitcoin crate: script bytes, leaf hashes, output keys and their script, sighashes.\<close>

record Transaction =
  tx_version :: int
  tx_lock_time :: u32
  tx_input :: "(OutPoint \<times> bytes \<times> u32 \<times> bytes list) list"
  tx_output :: "(u64 \<times> bytes) list"

record bitcoin_crate =
  bt_script_bytes :: "script \<Rightarrow> bytes"
  bt_leaf_hash :: "script \<Rightarrow> b32"
  bt_output_key :: "b32 \<Rightarrow> tap_tree \<Rightarrow> b32"
  bt_p2tr :: "b32 \<Rightarrow> bytes"
  bt_p2wsh_sighash :: "Transaction \<Rightarrow> bytes \<Rightarrow> u64 \<Rightarrow> b32"
  bt_sign_ecdsa :: "b32 \<Rightarrow> b32 \<Rightarrow> bytes"

section \<open>The operator's HTLC\<close>

record BtcHtlc =
  bh_internal_key :: b32
  bh_tree :: tap_tree
  bh_claim_script :: script
  bh_refund_script :: script

definition htlc_output_key_bytes :: "bitcoin_crate \<Rightarrow> BtcHtlc \<Rightarrow> b32" where
  "htlc_output_key_bytes B h = bt_output_key B (bh_internal_key h) (bh_tree h)"

definition htlc_script_pubkey :: "bitcoin_crate \<Rightarrow> BtcHtlc \<Rightarrow> bytes" where
  "htlc_script_pubkey B h = bt_p2tr B (htlc_output_key_bytes B h)"

definition htlc_claim_leaf :: "b32 \<Rightarrow> b32 \<Rightarrow> script" where
  "htlc_claim_leaf payment_hash user_claim =
     [Opcode OP_SHA256, PushBytes (bs payment_hash), Opcode OP_EQUALVERIFY, PushBytes (bs user_claim), Opcode OP_CHECKSIG]"

definition htlc_refund_leaf :: "b32 \<Rightarrow> int \<Rightarrow> script" where
  "htlc_refund_leaf operator btc_htlc_csv =
     [PushBytes (bs operator), Opcode OP_CHECKSIGVERIFY, PushInt btc_htlc_csv, Opcode OP_CSV]"

definition build_btc_htlc :: "crypto \<Rightarrow> b32 \<Rightarrow> b32 \<Rightarrow> b32 \<Rightarrow> int \<Rightarrow> (unit, BtcHtlc) res" where
  "build_btc_htlc C payment_hash user_claim operator btc_htlc_csv =
     (let claim = htlc_claim_leaf payment_hash user_claim;
          refund = htlc_refund_leaf operator btc_htlc_csv in
      rbind (unwrap (derive_nums_key C BTC_HTLC_NUMS (bs payment_hash))) (\<lambda>nums.
      if \<not> is_valid_xonly C nums then Panic
      else Ok \<lparr>bh_internal_key = nums, bh_tree = TapBranch (TapScript claim) (TapScript refund),
               bh_claim_script = claim, bh_refund_script = refund\<rparr>))"

section \<open>The lock anchor\<close>

definition derive_lock_script_key :: "crypto \<Rightarrow> b32 \<Rightarrow> b32 \<Rightarrow> b32 \<Rightarrow> (unit, b32) res" where
  "derive_lock_script_key C user_asset_refund_key rih payment_hash =
     tap_tweak C user_asset_refund_key (lock_tweak C rih payment_hash)"

datatype XonlyError = MalformedXonly

definition lock_anchor_internal_key :: "crypto \<Rightarrow> (XonlyError, b32) res" where
  "lock_anchor_internal_key C =
     rbind (unwrap (derive_nums_key C LOCK_ANCHOR_NUMS [])) (\<lambda>b. if is_valid_xonly C b then Ok b else Panic)"

definition finalize_leaf :: "b32 \<Rightarrow> b32 \<Rightarrow> int \<Rightarrow> script" where
  "finalize_leaf payment_hash operator csv =
     [Opcode OP_SHA256, PushBytes (bs payment_hash), Opcode OP_EQUALVERIFY, PushBytes (bs operator),
      Opcode OP_CHECKSIGVERIFY, PushInt csv, Opcode OP_CSV]"

definition refund_leaf :: "b32 \<Rightarrow> int \<Rightarrow> script" where
  "refund_leaf user_asset_refund_key csv =
     [PushBytes (bs user_asset_refund_key), Opcode OP_CHECKSIGVERIFY, PushInt csv, Opcode OP_CSV]"

record LockAnchor =
  la_internal_key :: b32
  la_tree :: tap_tree
  la_finalize_script :: script
  la_refund_script :: script

definition lock_output_key_bytes :: "bitcoin_crate \<Rightarrow> LockAnchor \<Rightarrow> b32" where
  "lock_output_key_bytes B a = bt_output_key B (la_internal_key a) (la_tree a)"

definition lock_script_pubkey :: "bitcoin_crate \<Rightarrow> LockAnchor \<Rightarrow> bytes" where
  "lock_script_pubkey B a = bt_p2tr B (lock_output_key_bytes B a)"

definition tapscript_sibling_preimage :: "bitcoin_crate \<Rightarrow> LockAnchor \<Rightarrow> bytes" where
  "tapscript_sibling_preimage B a =
     [0x01] @ bs (bt_leaf_hash B (la_finalize_script a)) @ bs (bt_leaf_hash B (la_refund_script a))"

definition build_lock_anchor :: "crypto \<Rightarrow> b32 \<Rightarrow> b32 \<Rightarrow> b32 \<Rightarrow> int \<Rightarrow> int \<Rightarrow> (XonlyError, LockAnchor) res" where
  "build_lock_anchor C payment_hash operator user_asset_refund_key finalize_csv refund_csv =
     (let finalize_script = finalize_leaf payment_hash operator finalize_csv;
          refund_script = refund_leaf user_asset_refund_key refund_csv in
      rbind (lock_anchor_internal_key C) (\<lambda>internal.
      Ok \<lparr>la_internal_key = internal, la_tree = TapBranch (TapScript finalize_script) (TapScript refund_script),
          la_finalize_script = finalize_script, la_refund_script = refund_script\<rparr>))"

definition build_asset_lock_anchor ::
  "crypto \<Rightarrow> b32 \<Rightarrow> b32 \<Rightarrow> b32 \<Rightarrow> int \<Rightarrow> int \<Rightarrow> b32 \<Rightarrow> (XonlyError, LockAnchor) res" where
  "build_asset_lock_anchor C payment_hash operator user_asset_refund_key finalize_csv refund_csv ta_commitment_root =
     (let finalize_script = finalize_leaf payment_hash operator finalize_csv;
          refund_script = refund_leaf user_asset_refund_key refund_csv in
      rbind (lock_anchor_internal_key C) (\<lambda>internal.
      Ok \<lparr>la_internal_key = internal,
          la_tree = TapBranch (TapHidden ta_commitment_root) (TapBranch (TapScript finalize_script) (TapScript refund_script)),
          la_finalize_script = finalize_script, la_refund_script = refund_script\<rparr>))"

definition build_lock_anchor_from_bytes :: "crypto \<Rightarrow> b32 \<Rightarrow> b32 \<Rightarrow> b32 \<Rightarrow> int \<Rightarrow> int \<Rightarrow> (XonlyError, LockAnchor) res" where
  "build_lock_anchor_from_bytes C payment_hash operator_xonly user_asset_refund_xonly finalize_csv refund_csv =
     (if \<not> is_valid_xonly C operator_xonly then Err MalformedXonly
      else if \<not> is_valid_xonly C user_asset_refund_xonly then Err MalformedXonly
      else build_lock_anchor C payment_hash operator_xonly user_asset_refund_xonly finalize_csv refund_csv)"

section \<open>The reserve script and its spend\<close>

definition reserve_script :: "bytes list \<Rightarrow> nat \<Rightarrow> script" where
  "reserve_script pubkeys threshold =
     [PushInt (int threshold)] @ map PushBytes pubkeys @ [PushInt (int (length pubkeys)), Opcode OP_CHECKMULTISIG]"

definition build_reserve_spend :: "OutPoint \<Rightarrow> bytes \<Rightarrow> u64 \<Rightarrow> Transaction" where
  "build_reserve_spend outpoint payout_spk amount =
     \<lparr>tx_version = 2, tx_lock_time = 0, tx_input = [(outpoint, [], 0xFFFFFFFD, [])], tx_output = [(amount, payout_spk)]\<rparr>"

definition reserve_sighash :: "bitcoin_crate \<Rightarrow> Transaction \<Rightarrow> script \<Rightarrow> u64 \<Rightarrow> (unit, b32) res" where
  "reserve_sighash B tx witness_script utxo_value =
     (if tx_input tx = [] then Panic else Ok (bt_p2wsh_sighash B tx (bt_script_bytes B witness_script) utxo_value))"

text \<open>The witness: the dummy, the signatures by ascending index, the script's bytes.\<close>

definition sign_reserve_spend ::
  "bitcoin_crate \<Rightarrow> Transaction \<Rightarrow> script \<Rightarrow> u64 \<Rightarrow> (nat \<times> b32) list \<Rightarrow> (unit, Transaction) res" where
  "sign_reserve_spend B tx witness_script utxo_value signers =
     rbind (reserve_sighash B tx witness_script utxo_value) (\<lambda>msg.
     let signers = sort_key fst signers;
         w = [[]] @ map (\<lambda>(_, sk). bt_sign_ecdsa B msg sk @ [0x01]) signers @ [bt_script_bytes B witness_script] in
     (case tx_input tx of
        [] \<Rightarrow> Panic
      | (outpoint, script_sig, sequence, _) # inputs \<Rightarrow>
          Ok (tx\<lparr>tx_input := (outpoint, script_sig, sequence, w) # inputs\<rparr>)))"

section \<open>What bitcoin makes of a script\<close>

text \<open>
  The consensus rules of the opcodes used (BIP 62, 65, 112, 141, 147, 342): numbers on the stack, the
  truth of an element, relative timelocks, and one step in tapscript or in a version 0 script. The
  stack is a list with its top first; \<open>sc_sig\<close> says which signatures verify under which key.
\<close>

record script_context =
  sc_tapscript :: bool
  sc_version :: int
  sc_sequence :: u32
  sc_sig :: "bytes \<Rightarrow> bytes \<Rightarrow> bool"

fun le_bytes :: "nat \<Rightarrow> bytes" where
  "le_bytes n = (if n = 0 then [] else word_of_nat (n mod 256) # le_bytes (n div 256))"

declare le_bytes.simps [simp del]

fun le_value :: "bytes \<Rightarrow> nat" where
  "le_value [] = 0"
| "le_value (b # r) = unat b + 256 * le_value r"

definition script_num :: "int \<Rightarrow> bytes" where
  "script_num n =
     (let b = le_bytes (nat \<bar>n\<bar>) in
      if b = [] then [] else if unat (last b) \<ge> 128 then b @ [if n < 0 then 0x80 else 0]
      else butlast b @ [last b + (if n < 0 then 0x80 else 0)])"

definition num_of :: "nat \<Rightarrow> bytes \<Rightarrow> int option" where
  "num_of most b =
     (if length b > most then None else if b = [] then Some 0
      else if unat (last b) \<ge> 128 then Some (- int (le_value (butlast b @ [last b - 0x80])))
      else Some (int (le_value b)))"

definition truthy :: "bytes \<Rightarrow> bool" where
  "truthy x \<longleftrightarrow> list_ex (\<lambda>b. b \<noteq> 0) (butlast x) \<or> (x \<noteq> [] \<and> last x \<noteq> 0 \<and> last x \<noteq> 0x80)"

definition csv_ok :: "script_context \<Rightarrow> int \<Rightarrow> bool" where
  "csv_ok ctx n \<longleftrightarrow> n \<ge> 0 \<and>
     ((n div 2 ^ 31) mod 2 = 1 \<or>
      (let s = uint (sc_sequence ctx) in
       sc_version ctx \<ge> 2 \<and> (s div 2 ^ 31) mod 2 = 0 \<and> (n div 2 ^ 22) mod 2 = (s div 2 ^ 22) mod 2
       \<and> n mod 2 ^ 16 \<le> s mod 2 ^ 16))"

definition check_sig :: "script_context \<Rightarrow> bytes \<Rightarrow> bytes \<Rightarrow> bool option" where
  "check_sig ctx key sig =
     (if sc_tapscript ctx then
        (if key = [] then None else if sig = [] then Some False
         else if length key = 32 \<and> \<not> sc_sig ctx key sig then None else Some True)
      else Some (sig \<noteq> [] \<and> sc_sig ctx key sig))"

fun match_sigs :: "(bytes \<Rightarrow> bytes \<Rightarrow> bool) \<Rightarrow> bytes list \<Rightarrow> bytes list \<Rightarrow> bool" where
  "match_sigs ok [] keys \<longleftrightarrow> True"
| "match_sigs ok (s # ss) [] \<longleftrightarrow> False"
| "match_sigs ok (s # ss) (k # ks) \<longleftrightarrow> (if ok k s then match_sigs ok ss ks else match_sigs ok (s # ss) ks)"

definition check_multisig :: "script_context \<Rightarrow> bytes list \<Rightarrow> bytes list option" where
  "check_multisig ctx st =
     (case st of [] \<Rightarrow> None | n # st \<Rightarrow>
      Option.bind (num_of 4 n) (\<lambda>n.
      if n < 0 \<or> n > 20 \<or> int (length st) < n + 1 then None else
      let keys = take (nat n) st; st = drop (nat n) st in
      Option.bind (num_of 4 (hd st)) (\<lambda>m.
      if m < 0 \<or> m > n \<or> int (length (tl st)) < m + 1 then None else
      let sigs = take (nat m) (tl st); st = drop (nat m) (tl st) in
      if hd st \<noteq> [] then None
      else Some ((if match_sigs (sc_sig ctx) sigs keys then [1] else []) # tl st))))"

text \<open>
  How bitcoin's interpreter takes one item is a parameter: from a context, the item and the stack it
  gives the next stack, or none when the script fails. \<open>bitcoin_rules\<close> is what is documented of it.
\<close>

type_synonym script_rules = "script_context \<Rightarrow> script_item \<Rightarrow> bytes list \<Rightarrow> bytes list option"

definition bitcoin_rules :: "crypto \<Rightarrow> script_rules \<Rightarrow> bool" where
  "bitcoin_rules C ev \<longleftrightarrow> (\<forall>ctx st.
     (\<forall>b. ev ctx (PushBytes b) st = Some (b # st))
     \<and> (\<forall>n. ev ctx (PushInt n) st = Some (script_num n # st))
     \<and> ev ctx (Opcode OP_SHA256) st = (case st of x # r \<Rightarrow> Some (bs (sha256 C [x]) # r) | _ \<Rightarrow> None)
     \<and> ev ctx (Opcode OP_EQUALVERIFY) st = (case st of a # b # r \<Rightarrow> if a = b then Some r else None | _ \<Rightarrow> None)
     \<and> ev ctx (Opcode OP_CHECKSIG) st =
         (case st of key # sig # r \<Rightarrow> map_option (\<lambda>ok. (if ok then [1] else []) # r) (check_sig ctx key sig) | _ \<Rightarrow> None)
     \<and> ev ctx (Opcode OP_CHECKSIGVERIFY) st =
         (case st of key # sig # r \<Rightarrow> if check_sig ctx key sig = Some True then Some r else None | _ \<Rightarrow> None)
     \<and> ev ctx (Opcode OP_CSV) st =
         (case st of n # r \<Rightarrow> Option.bind (num_of 5 n) (\<lambda>k. if csv_ok ctx k then Some st else None) | _ \<Rightarrow> None)
     \<and> ev ctx (Opcode OP_CHECKMULTISIG) st = (if sc_tapscript ctx then None else check_multisig ctx st))"

fun run_script :: "script_rules \<Rightarrow> script_context \<Rightarrow> script \<Rightarrow> bytes list \<Rightarrow> bytes list option" where
  "run_script ev ctx [] st = Some st"
| "run_script ev ctx (i # is) st = Option.bind (ev ctx i st) (run_script ev ctx is)"

text \<open>A witness spends a script when it leaves exactly one true element.\<close>

definition spends_script :: "script_rules \<Rightarrow> script_context \<Rightarrow> script \<Rightarrow> bytes list \<Rightarrow> bool" where
  "spends_script ev ctx script w \<longleftrightarrow> (\<forall>e\<in>set w. length e \<le> 520)
     \<and> (case run_script ev ctx script (rev w) of Some [x] \<Rightarrow> truthy x | _ \<Rightarrow> False)"

text \<open>The rules determine an interpreter, which shows that they can be met.\<close>

fun script_step :: "crypto \<Rightarrow> script_rules" where
  "script_step C ctx (PushBytes b) st = Some (b # st)"
| "script_step C ctx (PushInt n) st = Some (script_num n # st)"
| "script_step C ctx (Opcode OP_SHA256) (x # st) = Some (bs (sha256 C [x]) # st)"
| "script_step C ctx (Opcode OP_EQUALVERIFY) (a # b # st) = (if a = b then Some st else None)"
| "script_step C ctx (Opcode OP_CHECKSIG) (key # sig # st) =
     map_option (\<lambda>ok. (if ok then [1] else []) # st) (check_sig ctx key sig)"
| "script_step C ctx (Opcode OP_CHECKSIGVERIFY) (key # sig # st) =
     (if check_sig ctx key sig = Some True then Some st else None)"
| "script_step C ctx (Opcode OP_CSV) (n # st) =
     Option.bind (num_of 5 n) (\<lambda>k. if csv_ok ctx k then Some (n # st) else None)"
| "script_step C ctx (Opcode OP_CHECKMULTISIG) st = (if sc_tapscript ctx then None else check_multisig ctx st)"
| "script_step C ctx _ _ = None"

lemma script_step_rules: "bitcoin_rules C (script_step C)"
  by (simp add: bitcoin_rules_def split: list.splits)

lemma rules_determine:
  assumes "bitcoin_rules C ev"
  shows "ev = script_step C"
proof (intro ext)
  fix ctx i st
  note rules = spec [OF spec [OF assms [unfolded bitcoin_rules_def], of ctx], of st]
  note steps = spec [OF spec [OF script_step_rules [of C, unfolded bitcoin_rules_def], of ctx], of st]
  show "ev ctx i st = script_step C ctx i st"
  proof (cases i)
    case (Opcode c)
    then show ?thesis using rules steps by (cases c) (simp_all del: script_step.simps)
  qed (use rules in simp_all)
qed

section \<open>Numbers\<close>

lemma le_bytes_Nil [simp]: "le_bytes n = [] \<longleftrightarrow> n = 0"
  by (subst le_bytes.simps) simp

lemma le_value_bytes [simp]: "le_value (le_bytes n) = n"
proof (induction n rule: le_bytes.induct)
  case (1 n)
  then show ?case by (subst le_bytes.simps) (simp add: unat_word_of_nat)
qed

lemma le_bytes_last: "n \<noteq> 0 \<Longrightarrow> last (le_bytes n) \<noteq> 0"
proof (induction n rule: le_bytes.induct)
  case (1 n)
  show ?case
  proof (cases "n div 256 = 0")
    case True
    then show ?thesis using 1(2) by (subst le_bytes.simps) (simp add: word_unat_eq_iff unat_word_of_nat le_bytes.simps)
  next
    case False
    then show ?thesis using 1 by (subst le_bytes.simps) simp
  qed
qed

lemma le_bytes_length: "n < 256 ^ k \<Longrightarrow> length (le_bytes n) \<le> k"
proof (induction n arbitrary: k rule: le_bytes.induct)
  case (1 n)
  show ?case
  proof (cases "n = 0")
    case False
    then obtain j where k: "k = Suc j" using 1(2) by (cases k) auto
    then have "n div 256 < 256 ^ j" using 1(2) by (simp add: less_mult_imp_div_less mult.commute)
    then show ?thesis using 1(1) [OF False] k False by (subst le_bytes.simps) simp
  qed (simp add: le_bytes.simps)
qed

lemma le_value_zero: "le_value (b @ [0]) = le_value b"
  by (induction b) simp_all

lemma script_num_cases:
  assumes "0 \<le> n"
  shows "script_num n = (if n = 0 then [] else if unat (last (le_bytes (nat n))) \<ge> 128 then le_bytes (nat n) @ [0]
    else le_bytes (nat n))"
  using assms by (auto simp: script_num_def Let_def append_butlast_last_id)

lemma num_of_script_num:
  assumes "0 \<le> n" "n < 256 ^ k"
  shows "num_of (Suc k) (script_num n) = Some n"
proof -
  have "length (le_bytes (nat n)) \<le> k"
    by (rule le_bytes_length) (use assms in \<open>simp add: nat_less_iff\<close>)
  then show ?thesis
    using assms by (auto simp: script_num_cases num_of_def le_value_zero)
qed

lemma truthy_script_num: "0 \<le> n \<Longrightarrow> truthy (script_num n) \<longleftrightarrow> n \<noteq> 0"
proof (cases "n = 0")
  case False
  assume "0 \<le> n"
  let ?b = "le_bytes (nat n)"
  have b: "?b \<noteq> []" "last ?b \<noteq> 0" using False \<open>0 \<le> n\<close> le_bytes_last [of "nat n"] by auto
  have "unat (last ?b) < 128 \<Longrightarrow> last ?b \<noteq> 0x80" by (auto simp: word_unat_eq_iff)
  then show ?thesis
    using b False \<open>0 \<le> n\<close> last_in_set [OF b(1)] by (auto simp: script_num_cases truthy_def list_ex_iff)
qed (simp add: script_num_def le_bytes.simps truthy_def)

lemma script_num_length: "0 \<le> n \<Longrightarrow> n < 256 ^ k \<Longrightarrow> length (script_num n) \<le> Suc k"
  using num_of_script_num [of n k] by (auto simp: num_of_def split: if_splits)

text \<open>What is documented of the builder's bytes.\<close>

definition script_encoding :: "bitcoin_crate \<Rightarrow> bool" where
  "script_encoding B \<longleftrightarrow>
     (\<forall>xs ys. bt_script_bytes B (xs @ ys) = bt_script_bytes B xs @ bt_script_bytes B ys)
     \<and> (\<forall>b. length b \<le> 75 \<longrightarrow> bt_script_bytes B [PushBytes b] = word_of_nat (length b) # b)
     \<and> (\<forall>n. 0 < n \<and> n \<le> 16 \<longrightarrow> bt_script_bytes B [PushInt (int n)] = [0x50 + word_of_nat n])
     \<and> (\<forall>n. 16 < n \<and> n < 2 ^ 63 \<longrightarrow>
          bt_script_bytes B [PushInt (int n)] = word_of_nat (length (script_num (int n))) # script_num (int n))
     \<and> bt_script_bytes B [Opcode OP_CHECKMULTISIG] = [0xae]"

section \<open>What spends the leaves\<close>

lemma bs_nonempty: "bs (key :: b32) \<noteq> []"
  using length_bs [of key] by force

lemma check_sig_tap:
  "sc_tapscript ctx \<Longrightarrow> check_sig ctx (bs (key :: b32)) sig
     = (if sig = [] then Some False else if sc_sig ctx (bs key) sig then Some True else None)"
  by (simp add: check_sig_def bs_nonempty)

lemma truthy_bool: "truthy [1]" "\<not> truthy []"
  by (simp_all add: truthy_def)

lemma run_append: "run_script (script_step C) ctx (xs @ ys) st = Option.bind (run_script (script_step C) ctx xs st) (run_script (script_step C) ctx ys)"
proof (induction xs arbitrary: st)
  case (Cons x xs)
  then show ?case by (cases "script_step C ctx x st") simp_all
qed simp

lemma csv_run:
  assumes "0 \<le> n" "n < 2 ^ 32"
  shows "run_script (script_step C) ctx [PushInt n, Opcode OP_CSV] st = (if csv_ok ctx n then Some (script_num n # st) else None)"
  using num_of_script_num [of n 4] assms by simp

lemma claim_leaf_spends:
  assumes "sc_tapscript ctx"
  shows "spends_script (script_step C) ctx (htlc_claim_leaf h u) w \<longleftrightarrow>
    (\<exists>sig p. w = [sig, p] \<and> length sig \<le> 520 \<and> length p \<le> 520 \<and> sha256 C [p] = h \<and> sig \<noteq> [] \<and> sc_sig ctx (bs u) sig)"
proof -
  obtain st where w: "w = rev st" using rev_rev_ident by metis
  show ?thesis
  proof (cases "\<exists>p sig. st = [p, sig]")
    case True
    then obtain p sig where st: "st = [p, sig]" by blast
    show ?thesis using assms by (auto simp: w st spends_script_def htlc_claim_leaf_def check_sig_tap truthy_bool bs_inject)
  next
    case False
    then consider "st = []" | p where "st = [p]" | p sig x r where "st = p # sig # x # r"
      by (metis neq_Nil_conv)
    then show ?thesis
      by cases (use assms in \<open>auto simp: w spends_script_def htlc_claim_leaf_def check_sig_tap\<close>)
  qed
qed

lemma timelock_leaf:
  assumes "sc_tapscript ctx" "0 \<le> csv" "csv < 2 ^ 32"
  shows "run_script (script_step C) ctx [PushBytes (bs (key :: b32)), Opcode OP_CHECKSIGVERIFY, PushInt csv, Opcode OP_CSV] st =
    (case st of sig # r \<Rightarrow> if sig \<noteq> [] \<and> sc_sig ctx (bs key) sig \<and> csv_ok ctx csv then Some (script_num csv # r) else None
     | [] \<Rightarrow> None)"
  using csv_run [OF assms(2,3), of C ctx] assms(1) by (cases st) (simp_all add: check_sig_tap)

lemma refund_leaf_spends:
  assumes "sc_tapscript ctx" "0 \<le> csv" "csv < 2 ^ 32"
  shows "spends_script (script_step C) ctx (refund_leaf key csv) w \<longleftrightarrow>
    (\<exists>sig. w = [sig] \<and> length sig \<le> 520 \<and> sig \<noteq> [] \<and> sc_sig ctx (bs key) sig \<and> csv_ok ctx csv \<and> csv \<noteq> 0)"
proof -
  obtain st where w: "w = rev st" using rev_rev_ident by metis
  show ?thesis
    unfolding spends_script_def refund_leaf_def w rev_rev_ident timelock_leaf [OF assms]
    using truthy_script_num [OF assms(2)] by (auto split: list.splits)
qed

lemma finalize_leaf_spends:
  assumes "sc_tapscript ctx" "0 \<le> csv" "csv < 2 ^ 32"
  shows "spends_script (script_step C) ctx (finalize_leaf h key csv) w \<longleftrightarrow>
    (\<exists>sig p. w = [sig, p] \<and> length sig \<le> 520 \<and> length p \<le> 520 \<and> sha256 C [p] = h \<and> sig \<noteq> []
       \<and> sc_sig ctx (bs key) sig \<and> csv_ok ctx csv \<and> csv \<noteq> 0)"
proof -
  obtain st where w: "w = rev st" using rev_rev_ident by metis
  have "run_script (script_step C) ctx (finalize_leaf h key csv) st = (case st of [] \<Rightarrow> None | p # r \<Rightarrow>
      if sha256 C [p] = h
      then run_script (script_step C) ctx [PushBytes (bs key), Opcode OP_CHECKSIGVERIFY, PushInt csv, Opcode OP_CSV] r else None)"
    by (cases st) (auto simp: finalize_leaf_def bs_inject)
  then show ?thesis
    unfolding spends_script_def w rev_rev_ident timelock_leaf [OF assms]
    using truthy_script_num [OF assms(2)] by (auto split: list.splits if_splits)
qed

text \<open>Whatever the delay, what spends a finalize leaf carries the preimage; with no delay nothing does.\<close>

lemma finalize_leaf_needs:
  assumes "sc_tapscript ctx" "spends_script (script_step C) ctx (finalize_leaf h key csv) w"
  shows "\<exists>sig p. w = [sig, p] \<and> length p \<le> 520 \<and> sha256 C [p] = h"
proof -
  obtain st where w: "w = rev st" using rev_rev_ident by metis
  consider "st = []" | p where "st = [p]" | p sig where "st = [p, sig]" | p sig x r where "st = p # sig # x # r"
    by (metis neq_Nil_conv)
  then show ?thesis
  proof cases
    case 3
    then show ?thesis
      using assms(2) by (auto simp: w spends_script_def finalize_leaf_def bs_inject split: if_splits option.splits bind_splits)
  qed (use assms in \<open>auto simp: w spends_script_def finalize_leaf_def check_sig_tap split: if_splits bind_splits\<close>)
qed

lemma num_of_negative:
  assumes "n < 0"
  shows "num_of k (script_num n) = None \<or> num_of k (script_num n) = Some n"
proof -
  let ?b = "le_bytes (nat \<bar>n\<bar>)"
  have b: "?b \<noteq> []" and sum: "int (le_value ?b) = - n" using assms by simp_all
  show ?thesis
  proof (cases "unat (last ?b) \<ge> 128")
    case True
    then have "script_num n = ?b @ [0x80]" using b assms by (simp add: script_num_def)
    then show ?thesis using assms sum by (simp add: num_of_def le_value_zero)
  next
    case False
    then have "script_num n = butlast ?b @ [last ?b + 0x80]" using b assms by (simp add: script_num_def Let_def)
    moreover have "128 \<le> unat (last ?b + 0x80)" using False by (subst unat_add_lem [THEN iffD1]) simp_all
    ultimately show ?thesis using assms sum b by (simp add: num_of_def append_butlast_last_id)
  qed
qed

lemma finalize_leaf_dead:
  assumes "sc_tapscript ctx" "csv \<le> 0"
  shows "\<not> spends_script (script_step C) ctx (finalize_leaf h key csv) w"
proof (cases "csv = 0")
  case True
  then show ?thesis using finalize_leaf_spends [OF assms(1), of 0] by simp
next
  case False
  then have "run_script (script_step C) ctx [PushInt csv, Opcode OP_CSV] st = None" for st
    using num_of_negative [of csv 5] assms(2) by (auto simp: csv_ok_def)
  then have dead: "Option.bind r (run_script (script_step C) ctx [PushInt csv, Opcode OP_CSV]) = None" for r
    by (cases r) simp_all
  have "run_script (script_step C) ctx (finalize_leaf h key csv) st = None" for st
    using run_append [of C ctx "take 5 (finalize_leaf h key csv)" "[PushInt csv, Opcode OP_CSV]" st] dead
    by (simp add: finalize_leaf_def)
  then show ?thesis by (simp add: spends_script_def)
qed

lemma csv_blocks:
  assumes "0 < csv" "csv < 65536"
  shows "csv_ok ctx csv \<longleftrightarrow> sc_version ctx \<ge> 2 \<and> uint (sc_sequence ctx) div 2 ^ 31 = 0
    \<and> (uint (sc_sequence ctx) div 2 ^ 22) mod 2 = 0 \<and> csv \<le> uint (sc_sequence ctx) mod 2 ^ 16"
proof -
  have "uint (sc_sequence ctx) div 2 ^ 31 < 2"
    using uint_lt2p [of "sc_sequence ctx"] by simp
  moreover have "0 \<le> uint (sc_sequence ctx) div 2 ^ 31" by (simp add: pos_imp_zdiv_nonneg_iff)
  ultimately have "(uint (sc_sequence ctx) div 2 ^ 31) mod 2 = uint (sc_sequence ctx) div 2 ^ 31" by simp
  then show ?thesis using assms by (auto simp: csv_ok_def Let_def)
qed

section \<open>What spends the reserve\<close>

lemma run_Nil: "Option.bind r (run_script (script_step C) ctx []) = r"
  by (cases r) simp_all

lemma run_pushes: "run_script (script_step C) ctx (map PushBytes ks) st = Some (rev ks @ st)"
  by (induction ks arbitrary: st) simp_all

lemma match_embedded: "list_emb (\<lambda>s k. ok k s) ss ks \<Longrightarrow> match_sigs ok ss ks"
proof (induction ok ss ks rule: match_sigs.induct)
  case (3 ok s ss k ks)
  show ?case
  proof (cases "ok k s")
    case True
    have "list_emb (\<lambda>s k. ok k s) ss ks"
      using 3(3) by (auto elim: list_emb.cases dest: list_emb_ConsD)
    then show ?thesis using 3(1) True by simp
  next
    case False
    then have "list_emb (\<lambda>s k. ok k s) (s # ss) ks" using 3(3) by (auto elim: list_emb.cases)
    then show ?thesis using 3(2) False by simp
  qed
qed auto

lemma subseq_emb:
  "subseq is js \<Longrightarrow> \<forall>i\<in>set is. P (f i) (g i) \<Longrightarrow> list_emb P (map f is) (map g js)"
  by (induction rule: list_emb.induct) auto

lemma sorted_subseq_upt:
  assumes "sorted is" "distinct is" "\<forall>i\<in>set is. i < n"
  shows "subseq (rev is) (rev [0 ..< n])"
proof -
  have "filter (\<lambda>i. i \<in> set is) [0 ..< n] = is"
    using assms by (intro sorted_distinct_set_unique) (auto simp: sorted_wrt_filter)
  then have "filter (\<lambda>i. i \<in> set is) (rev [0 ..< n]) = rev is" by (simp flip: rev_filter)
  then show ?thesis using subseq_filter_left by metis
qed

lemma check_multisig_run:
  assumes "length keys \<le> 20" "m \<le> length keys" "\<forall>s\<in>set sigs. s \<noteq> []"
  shows "check_multisig ctx (script_num (int (length keys)) # rev keys @ script_num (int m) # rev sigs @ [[]]) =
    (if length sigs = m then Some [if match_sigs (sc_sig ctx) (rev sigs) (rev keys) then [1] else []] else None)"
proof -
  have n: "num_of 4 (script_num (int (length keys))) = Some (int (length keys))"
    "num_of 4 (script_num (int m)) = Some (int m)"
    using assms num_of_script_num [of _ 3] by simp_all
  consider "length sigs < m" | "length sigs = m" | "m < length sigs" by linarith
  then show ?thesis
  proof cases
    case 3
    then have "hd (drop m (rev sigs @ [[]])) \<in> set sigs"
      by (simp add: hd_drop_conv_nth nth_append rev_nth)
    then show ?thesis using 3 assms n by (auto simp: check_multisig_def Let_def)
  qed (use assms n in \<open>auto simp: check_multisig_def Let_def\<close>)
qed

lemma num_of_cases: "0 \<le> n \<Longrightarrow> num_of k (script_num n) = None \<or> num_of k (script_num n) = Some n"
proof -
  assume n: "0 \<le> n"
  have "n < 256 ^ nat (n + 1)"
    using power_gt_expt [of 256 "nat (n + 1)"] n by (simp add: zless_nat_eq_int_zless)
  then have "num_of (Suc (nat (n + 1))) (script_num n) = Some n" using n by (simp add: num_of_script_num)
  then show ?thesis by (auto simp: num_of_def split: if_splits)
qed

lemma check_multisig_most: "20 < n \<Longrightarrow> check_multisig ctx (script_num (int n) # st) = None"
  using num_of_cases [of "int n" 4] by (auto simp: check_multisig_def)

lemma reserve_script_run:
  "run_script (script_step C) ctx (reserve_script keys m) st =
     script_step C ctx (Opcode OP_CHECKMULTISIG) (script_num (int (length keys)) # rev keys @ script_num (int m) # st)"
  by (simp add: reserve_script_def run_append run_pushes run_Nil del: script_step.simps(8))

lemma reserve_spends_iff:
  assumes keys: "0 < m" "m \<le> length keys"
    and v0: "\<not> sc_tapscript ctx"
    and signed: "\<forall>(i, sig)\<in>set sigs. i < length keys \<and> sc_sig ctx (keys ! i) sig \<and> sig \<noteq> [] \<and> length sig \<le> 520"
    and sorted: "sorted (map fst sigs)" "distinct (map fst sigs)"
  shows "spends_script (script_step C) ctx (reserve_script keys m) ([] # map snd sigs) \<longleftrightarrow> length sigs = m \<and> length keys \<le> 20"
proof (cases "length keys \<le> 20")
  case False
  then have "run_script (script_step C) ctx (reserve_script keys m) st = None" for st
    using v0 check_multisig_most [of "length keys"] by (simp add: reserve_script_run)
  then show ?thesis using False by (simp add: spends_script_def)
next
  case True
  have "\<forall>i\<in>set (map fst sigs). i < length keys" using signed by auto
  then have sub: "subseq (rev (map fst sigs)) (rev [0 ..< length keys])"
    by (rule sorted_subseq_upt [OF sorted])
  define sg where "sg i = snd (the (find (\<lambda>s. fst s = i) sigs))" for i
  have sg: "sg (fst s) = snd s" if "s \<in> set sigs" for s
  proof -
    have "find (\<lambda>t. fst t = fst s) sigs = Some s"
      using that sorted(2) by (induction sigs) (auto simp: rev_image_eqI)
    then show ?thesis by (simp add: sg_def)
  qed
  have "list_emb (\<lambda>s k. sc_sig ctx k s) (map sg (rev (map fst sigs))) (map ((!) keys) (rev [0 ..< length keys]))"
    by (rule subseq_emb [OF sub]) (use signed sg in auto)
  moreover have "map sg (rev (map fst sigs)) = rev (map snd sigs)" using sg by (simp add: rev_map)
  moreover have "map ((!) keys) (rev [0 ..< length keys]) = rev keys" by (simp add: rev_map [symmetric] map_nth)
  ultimately have m: "match_sigs (sc_sig ctx) (rev (map snd sigs)) (rev keys)"
    by (simp add: match_embedded)
  have "\<forall>s\<in>set (map snd sigs). s \<noteq> []" and small: "\<forall>s\<in>set (map snd sigs). length s \<le> 520" using signed by auto
  note multi = check_multisig_run [OF True keys(2) this(1), of ctx]
  have run: "run_script (script_step C) ctx (reserve_script keys m) (rev (map snd sigs) @ [[]])
      = (if length sigs = m then Some [[1]] else None)"
    using multi v0 m by (simp add: reserve_script_run)
  show ?thesis
    using small truthy_bool True by (auto simp: spends_script_def run)
qed

lemma script_encoding_append: "script_encoding B \<Longrightarrow> bt_script_bytes B (xs @ ys) = bt_script_bytes B xs @ bt_script_bytes B ys"
  by (simp add: script_encoding_def)

lemma script_bytes_Nil:
  assumes "script_encoding B"
  shows "bt_script_bytes B [] = []"
proof -
  have "bt_script_bytes B ([] @ []) = bt_script_bytes B [] @ bt_script_bytes B []"
    by (rule script_encoding_append [OF assms])
  then show ?thesis by simp
qed

lemma script_bytes_keys:
  assumes "script_encoding B"
  shows "bt_script_bytes B (map PushBytes (map bs pks)) = concat (map (\<lambda>pk :: b33. 0x21 # bs pk) pks)"
proof (induction pks)
  case (Cons p ps)
  have "bt_script_bytes B ([PushBytes (bs p)] @ map PushBytes (map bs ps))
      = bt_script_bytes B [PushBytes (bs p)] @ bt_script_bytes B (map PushBytes (map bs ps))"
    by (rule script_encoding_append [OF assms])
  then show ?case using Cons assms by (simp add: script_encoding_def)
qed (simp add: script_bytes_Nil [OF assms])

lemma script_bytes_reserve:
  assumes "script_encoding B"
  shows "bt_script_bytes B (reserve_script (map bs pks) m) = bt_script_bytes B [PushInt (int m)]
    @ concat (map (\<lambda>pk :: b33. 0x21 # bs pk) pks) @ bt_script_bytes B [PushInt (int (length pks))] @ [0xae]"
proof -
  have "bt_script_bytes B [PushInt (int (length pks)), Opcode OP_CHECKMULTISIG]
      = bt_script_bytes B [PushInt (int (length pks))] @ [0xae]"
    using script_encoding_append [OF assms, of "[PushInt (int (length pks))]" "[Opcode OP_CHECKMULTISIG]"] assms
    by (simp add: script_encoding_def)
  then show ?thesis
    unfolding reserve_script_def script_encoding_append [OF assms] script_bytes_keys [OF assms] by simp
qed

text \<open>A number up to 16 is one byte, a larger one is at least two.\<close>

lemma script_bytes_int:
  assumes "script_encoding B" "0 < n" "n < 2 ^ 63"
  shows "n \<le> 16 \<Longrightarrow> bt_script_bytes B [PushInt (int n)] = [0x50 + word_of_nat n]"
    and "16 < n \<Longrightarrow> length (bt_script_bytes B [PushInt (int n)]) \<ge> 2"
    and "length (bt_script_bytes B [PushInt (int n)]) \<ge> 1"
proof -
  show one: "n \<le> 16 \<Longrightarrow> bt_script_bytes B [PushInt (int n)] = [0x50 + word_of_nat n]"
    using assms by (simp add: script_encoding_def)
  have "script_num (int n) \<noteq> []" using assms(2) by (simp add: script_num_cases)
  then have "length (script_num (int n)) \<ge> 1" by (cases "script_num (int n)") simp_all
  then show two: "16 < n \<Longrightarrow> length (bt_script_bytes B [PushInt (int n)]) \<ge> 2"
    using assms by (simp add: script_encoding_def)
  show "length (bt_script_bytes B [PushInt (int n)]) \<ge> 1"
    using one two by (cases "n \<le> 16") auto
qed

lemma reserve_script_bytes:
  assumes B: "script_encoding B" and m: "0 < m" "m \<le> length pks" and n: "length pks < 2 ^ 63"
  shows "bt_script_bytes B (reserve_script (map bs pks) m) = reserve_witness_script pks (word_of_nat m)
    \<longleftrightarrow> length pks \<le> 16"
proof (cases "length pks \<le> 16")
  case True
  then show ?thesis
    using script_bytes_int(1) [OF B, of m] script_bytes_int(1) [OF B, of "length pks"] m
    by (cases "pks = []") (simp_all add: script_bytes_reserve [OF B] reserve_witness_script_def)
next
  case False
  then have "length (bt_script_bytes B (reserve_script (map bs pks) m)) > length (reserve_witness_script pks (word_of_nat m))"
    using script_bytes_int(3) [OF B m(1)] script_bytes_int(2) [OF B, of "length pks"] m n
    by (cases "pks = []") (simp_all add: script_bytes_reserve [OF B] reserve_witness_script_def)
  then show ?thesis using False by auto
qed

section \<open>Properties\<close>

text \<open>
  C39: The two legs of a redemption are atomic, in any interpreter that keeps bitcoin's documented
  rules: the witness with which the user claims the operator's HTLC carries a preimage that, with the
  operator's signature and once the lock's delay has passed, spends the finalize leaf of the lock
  anchor under the same payment hash, for a delay of 1 to 2^32 - 1; and, whatever the delay, the
  witness that finalizes the lock carries one with which the user claims the HTLC. The builder takes
  any delay: with one of zero or less nothing finalizes the lock, while the HTLC is claimed all the same.
\<close>

theorem legs_atomic:
  assumes "bitcoin_rules C ev"
    and "build_btc_htlc C h user operator btc_csv = Ok H"
    and "build_lock_anchor C h operator refund_key csv refund_csv = Ok A"
    and "sc_tapscript ctx" "sc_tapscript ctx'"
  shows "(spends_script ev ctx (bh_claim_script H) w \<and> osig \<noteq> [] \<and> length osig \<le> 520
      \<and> sc_sig ctx' (bs operator) osig \<and> 0 < csv \<and> csv < 2 ^ 32 \<and> csv_ok ctx' csv \<longrightarrow>
      spends_script ev ctx' (la_finalize_script A) [osig, w ! 1])
    \<and> (spends_script ev ctx' (la_finalize_script A) w' \<and> usig \<noteq> [] \<and> length usig \<le> 520
      \<and> sc_sig ctx (bs user) usig \<longrightarrow> spends_script ev ctx (bh_claim_script H) [usig, w' ! 1])
    \<and> (csv \<le> 0 \<longrightarrow> \<not> spends_script ev ctx' (la_finalize_script A) w')"
proof (intro conjI impI)
  have ev: "ev = script_step C" by (rule rules_determine [OF assms(1)])
  have H: "bh_claim_script H = htlc_claim_leaf h user"
    using assms(2) by (auto simp: build_btc_htlc_def res_simps Let_def split: if_splits)
  have A: "la_finalize_script A = finalize_leaf h operator csv"
    using assms(3) by (auto simp: build_lock_anchor_def res_simps Let_def)
  note claims = claim_leaf_spends [OF assms(4)]
  show "spends_script ev ctx' (la_finalize_script A) [osig, w ! 1]"
    if "spends_script ev ctx (bh_claim_script H) w \<and> osig \<noteq> [] \<and> length osig \<le> 520
      \<and> sc_sig ctx' (bs operator) osig \<and> 0 < csv \<and> csv < 2 ^ 32 \<and> csv_ok ctx' csv"
    using that finalize_leaf_spends [OF assms(5), of csv] unfolding ev H A by (auto simp: claims)
  show "spends_script ev ctx (bh_claim_script H) [usig, w' ! 1]"
    if "spends_script ev ctx' (la_finalize_script A) w' \<and> usig \<noteq> [] \<and> length usig \<le> 520 \<and> sc_sig ctx (bs user) usig"
    using that finalize_leaf_needs [OF assms(5), of C h operator csv w'] unfolding ev H A by (auto simp: claims)
  show "\<not> spends_script ev ctx' (la_finalize_script A) w'" if "csv \<le> 0"
    unfolding ev A by (rule finalize_leaf_dead [OF assms(5) that])
qed

text \<open>The context in which every signature verifies, at a given sequence number.\<close>

definition open_context :: "bool \<Rightarrow> u32 \<Rightarrow> script_context" where
  "open_context tapscript sequence =
     \<lparr>sc_tapscript = tapscript, sc_version = 2, sc_sequence = sequence, sc_sig = (\<lambda>_ _. True)\<rparr>"

lemma const_nums: "derive_nums_key const_crypto d salt = Some (fill 0)"
  by (simp add: derive_nums_key_def nums_search.simps is_valid_xonly_def)

theorem legs_atomic_witness:
  "\<exists>H A. build_btc_htlc const_crypto (fill 0) (fill 1) (fill 2) 72 = Ok H
     \<and> build_lock_anchor const_crypto (fill 0) (fill 2) (fill 3) 144 288 = Ok A
     \<and> spends_script (script_step const_crypto) (open_context True 0) (bh_claim_script H) [[1], [7]]
     \<and> spends_script (script_step const_crypto) (open_context True 144) (la_finalize_script A) [[2], [7]]"
proof -
  obtain H A where H: "build_btc_htlc const_crypto (fill 0) (fill 1) (fill 2) 72 = Ok H"
    and A: "build_lock_anchor const_crypto (fill 0) (fill 2) (fill 3) 144 288 = Ok A"
    and claim: "bh_claim_script H = htlc_claim_leaf (fill 0) (fill 1)"
    by (simp add: build_btc_htlc_def build_lock_anchor_def lock_anchor_internal_key_def const_nums is_valid_xonly_def Let_def)
  have "spends_script (script_step const_crypto) (open_context True 0) (bh_claim_script H) [[1], [7]]"
    unfolding claim by (subst claim_leaf_spends) (simp_all add: open_context_def sha256_def)
  moreover have "csv_ok (open_context True 144) 144" by (simp add: csv_blocks open_context_def)
  ultimately show ?thesis
    using legs_atomic [OF script_step_rules H A, of "open_context True 0" "open_context True 144" "[[1], [7]]" "[2]"] H A
    by (auto simp: open_context_def)
qed

text \<open>
  The HTLC does not fix the length of the preimage: for one of any length but 32 the user's claim
  spends the HTLC, while no payout confirmation under that payment hash is accepted in a reserve
  claim, unless it exhibits a SHA-256 collision. The operator pays and is not reimbursed.
\<close>

theorem odd_preimage_strands:
  assumes "length p \<noteq> 32" "length p \<le> 520" and "sc_tapscript ctx"
    and "usig \<noteq> []" "length usig \<le> 520" "sc_sig ctx (bs user) usig"
  shows "spends_script (script_step C) ctx (htlc_claim_leaf (sha256 C [p]) user) [usig, p] \<and>
    (verify_payout_confirmation C c (sha256 C [p]) k tip = Ok () \<longrightarrow> sha_collides C (p, bs (pc_revealed_preimage c)))"
proof
  show "spends_script (script_step C) ctx (htlc_claim_leaf (sha256 C [p]) user) [usig, p]"
    using assms by (simp add: claim_leaf_spends)
  have "p \<noteq> bs (pc_revealed_preimage c)" using assms(1) by auto
  then show "verify_payout_confirmation C c (sha256 C [p]) k tip = Ok () \<longrightarrow> sha_collides C (p, bs (pc_revealed_preimage c))"
    by (auto simp: verify_payout_confirmation_Ok sha_collides_def sha256_def)
qed

theorem odd_preimage_strands_witness:
  "spends_script (script_step const_crypto) (open_context True 0) (htlc_claim_leaf (sha256 const_crypto [[7]]) (fill 1)) [[1], [7]]"
  using odd_preimage_strands [of "[7]" "open_context True 0" "[1]" "fill 1" const_crypto]
  by (simp add: open_context_def)

text \<open>
  A refund leaf is spent by exactly the signature of its key once as many blocks have passed as its
  delay says, for delays of 1 to 65535; with a delay of zero nothing ever spends it, and a delay with
  bit 31 set is none at all.
\<close>

theorem refund_timelock:
  assumes "sc_tapscript ctx"
  shows "(0 < csv \<and> csv < 65536 \<longrightarrow> spends_script (script_step C) ctx (refund_leaf key csv) w =
      (\<exists>sig. w = [sig] \<and> length sig \<le> 520 \<and> sig \<noteq> [] \<and> sc_sig ctx (bs key) sig \<and> sc_version ctx \<ge> 2
         \<and> uint (sc_sequence ctx) div 2 ^ 31 = 0 \<and> (uint (sc_sequence ctx) div 2 ^ 22) mod 2 = 0
         \<and> csv \<le> uint (sc_sequence ctx) mod 2 ^ 16))
    \<and> \<not> spends_script (script_step C) ctx (refund_leaf key 0) w
    \<and> (2 ^ 31 \<le> csv \<and> csv < 2 ^ 32 \<longrightarrow> spends_script (script_step C) ctx (refund_leaf key csv) w =
      (\<exists>sig. w = [sig] \<and> length sig \<le> 520 \<and> sig \<noteq> [] \<and> sc_sig ctx (bs key) sig))"
proof (intro conjI impI)
  assume "0 < csv \<and> csv < 65536"
  then show "spends_script (script_step C) ctx (refund_leaf key csv) w =
      (\<exists>sig. w = [sig] \<and> length sig \<le> 520 \<and> sig \<noteq> [] \<and> sc_sig ctx (bs key) sig \<and> sc_version ctx \<ge> 2
         \<and> uint (sc_sequence ctx) div 2 ^ 31 = 0 \<and> (uint (sc_sequence ctx) div 2 ^ 22) mod 2 = 0
         \<and> csv \<le> uint (sc_sequence ctx) mod 2 ^ 16)"
    using refund_leaf_spends [OF assms, of csv] csv_blocks [of csv] by auto
next
  show "\<not> spends_script (script_step C) ctx (refund_leaf key 0) w"
    using refund_leaf_spends [OF assms, of 0] by simp
next
  assume csv: "2 ^ 31 \<le> csv \<and> csv < 2 ^ 32"
  then have "csv div 2 ^ 31 = 1" by (intro int_div_pos_eq [of _ _ _ "csv - 2 ^ 31"]) simp_all
  then have "csv_ok ctx csv" using csv by (simp add: csv_ok_def)
  then show "spends_script (script_step C) ctx (refund_leaf key csv) w =
      (\<exists>sig. w = [sig] \<and> length sig \<le> 520 \<and> sig \<noteq> [] \<and> sc_sig ctx (bs key) sig)"
    using refund_leaf_spends [OF assms, of csv] csv by auto
qed

theorem refund_timelock_witness:
  "spends_script (script_step const_crypto) (open_context True 144) (refund_leaf (fill 3) 144) [[1]]
     \<and> \<not> spends_script (script_step const_crypto) (open_context True 143) (refund_leaf (fill 3) 144) [[1]]"
  using refund_timelock [of "open_context True 144" 144 const_crypto "fill 3" "[[1]]"]
    refund_timelock [of "open_context True 143" 144 const_crypto "fill 3" "[[1]]"]
  by (simp add: open_context_def)

text \<open>
  C40: What the committee's spend reveals and whether it satisfies it, in any interpreter that keeps
  bitcoin's documented rules and for a committee of any size with a threshold of 1
  up to its size: with up to 16 members the script at the end of the spend's witness is the one whose hash is
  the output script the deposit verifier demands, and with more it never is; and a witness of genuine
  signatures, one per signer, satisfies the script exactly when as many members have signed as the
  threshold says, no fewer and no more, and there are at most 20 members.
\<close>

theorem reserve_spendable:
  assumes "script_encoding B" "bitcoin_rules C ev" and "0 < m" "m \<le> length pks" "length pks < 2 ^ 63" and "\<not> sc_tapscript ctx"
    and "reserve_sighash B tx (reserve_script (map bs pks) m) utxo_value = Ok msg"
    and "distinct (map fst signers)"
    and "\<forall>(i, sk)\<in>set signers. i < length pks \<and> sc_sig ctx (bs (pks ! i)) (bt_sign_ecdsa B msg sk @ [1])
      \<and> length (bt_sign_ecdsa B msg sk) < 520"
    and "sign_reserve_spend B tx (reserve_script (map bs pks) m) utxo_value signers = Ok tx'"
  shows "\<exists>outpoint script_sig sequence w script inputs.
      tx_input tx' = (outpoint, script_sig, sequence, w @ [script]) # inputs
      \<and> script = bt_script_bytes B (reserve_script (map bs pks) m)
      \<and> (script = reserve_witness_script pks (word_of_nat m) \<longleftrightarrow> length pks \<le> 16)
      \<and> bs (reserve_p2wsh_spk C pks (word_of_nat m)) = [0, 0x20] @ bs (sha256 C [reserve_witness_script pks (word_of_nat m)])
      \<and> (spends_script ev ctx (reserve_script (map bs pks) m) w \<longleftrightarrow> length signers = m \<and> length pks \<le> 20)"
proof -
  let ?sigs = "map (\<lambda>(i, sk). (i, bt_sign_ecdsa B msg sk @ [1])) (sort_key fst signers)"
  have ev: "ev = script_step C" by (rule rules_determine [OF assms(2)])
  note bytes = reserve_script_bytes [OF assms(1,3,4,5)]
  have w: "map (\<lambda>(_, sk). bt_sign_ecdsa B msg sk @ [1]) (sort_key fst signers) = map snd ?sigs"
    by (simp add: case_prod_unfold)
  obtain outpoint script_sig sequence inputs where "tx_input tx' =
      (outpoint, script_sig, sequence, ([] # map (\<lambda>(_, sk). bt_sign_ecdsa B msg sk @ [1]) (sort_key fst signers))
        @ [bt_script_bytes B (reserve_script (map bs pks) m)]) # inputs"
    using assms(10) unfolding sign_reserve_spend_def assms(7) Let_def
    by (auto split: list.splits)
  note tx' = this [unfolded w]
  have fst: "map fst ?sigs = map fst (sort_key fst signers)" by (simp add: case_prod_unfold)
  have "spends_script (script_step C) ctx (reserve_script (map bs pks) m) ([] # map snd ?sigs)
      \<longleftrightarrow> length ?sigs = m \<and> length (map bs pks) \<le> 20"
  proof (rule reserve_spends_iff)
    show "distinct (map fst ?sigs)" unfolding fst using assms(8) by (simp add: distinct_map)
    show "sorted (map fst ?sigs)" unfolding fst by simp
  qed (use assms in auto)
  moreover have "bs (reserve_p2wsh_spk C pks (word_of_nat m)) = [0, 0x20] @ bs (sha256 C [reserve_witness_script pks (word_of_nat m)])"
    by (simp add: reserve_p2wsh_spk_def Let_def bs_barr_of)
  ultimately show ?thesis using tx' bytes unfolding ev by auto
qed

text \<open>A crate with the documented script bytes, whose signatures are empty.\<close>

fun plain_item :: "script_item \<Rightarrow> bytes" where
  "plain_item (PushBytes b) = word_of_nat (length b) # b"
| "plain_item (PushInt n) = (if 0 < n \<and> n \<le> 16 then [0x50 + word_of_int n]
     else word_of_nat (length (script_num n)) # script_num n)"
| "plain_item (Opcode c) = [case c of OP_SHA256 \<Rightarrow> 0xa8 | OP_EQUALVERIFY \<Rightarrow> 0x88 | OP_CHECKSIG \<Rightarrow> 0xac
     | OP_CHECKSIGVERIFY \<Rightarrow> 0xad | OP_CSV \<Rightarrow> 0xb2 | OP_CHECKMULTISIG \<Rightarrow> 0xae]"

definition plain_crate :: bitcoin_crate where
  "plain_crate = \<lparr>bt_script_bytes = (\<lambda>s. concat (map plain_item s)), bt_leaf_hash = (\<lambda>_. fill 0),
     bt_output_key = (\<lambda>k _. k), bt_p2tr = bs, bt_p2wsh_sighash = (\<lambda>_ _ _. fill 0), bt_sign_ecdsa = (\<lambda>_ _. [])\<rparr>"

theorem reserve_spendable_witness:
  "\<exists>tx'. sign_reserve_spend plain_crate (build_reserve_spend \<lparr>op_txid = fill 0, op_vout = 0\<rparr> [] 900)
       (reserve_script (map bs [fill 2, fill 3, fill 4 :: b33]) 2) 1000 [(2, fill 9), (0, fill 8)] = Ok tx'
     \<and> (\<exists>w. spends_script (script_step const_crypto) (open_context False 0) (reserve_script (map bs [fill 2, fill 3, fill 4 :: b33]) 2) w)"
proof -
  let ?pks = "[fill 2, fill 3, fill 4 :: b33]" and ?tx = "build_reserve_spend \<lparr>op_txid = fill 0, op_vout = 0\<rparr> [] 900"
  let ?signers = "[(2, fill 9), (0, fill 8)] :: (nat \<times> b32) list"
  have B: "script_encoding plain_crate" by (auto simp: script_encoding_def plain_crate_def)
  have msg: "reserve_sighash plain_crate ?tx (reserve_script (map bs ?pks) 2) 1000 = Ok (fill 0)"
    by (simp add: reserve_sighash_def build_reserve_spend_def plain_crate_def)
  have "\<exists>tx'. sign_reserve_spend plain_crate ?tx (reserve_script (map bs ?pks) 2) 1000 ?signers = Ok tx'"
    unfolding sign_reserve_spend_def msg by (simp add: build_reserve_spend_def)
  then obtain tx' where t: "sign_reserve_spend plain_crate ?tx (reserve_script (map bs ?pks) 2) 1000 ?signers = Ok tx'" ..
  have s: "\<forall>(i, sk)\<in>set ?signers. i < length ?pks \<and> sc_sig (open_context False 0) (bs (?pks ! i)) (bt_sign_ecdsa plain_crate (fill 0) sk @ [1])
      \<and> length (bt_sign_ecdsa plain_crate (fill 0) sk) < 520"
    by (simp add: open_context_def plain_crate_def)
  from reserve_spendable [OF B script_step_rules _ _ _ _ msg _ s t, of const_crypto] t show ?thesis
    by (auto simp: open_context_def)
qed

end
