(* ===== verification/Dto.thy ===== *)
theory Dto
  imports Node Text
begin

text \<open>
  The request objects of the state node's HTTP interface (\<^verbatim>\<open>satusd-state-node/src/dto.rs\<close>): one
  record per transfer object and its conversion to the node's types. The hex crate is a parameter;
  reading JSON into the records is serde's derived code. A message built with \<^verbatim>\<open>format!\<close> is the
  constructor that names it, and a \<^verbatim>\<open>String\<close> is the list of its UTF-8 bytes.
\<close>

section \<open>Hexadecimal strings\<close>

record hex_codec =
  hx_encode :: "bytes \<Rightarrow> bytes"
  hx_decode :: "bytes \<Rightarrow> bytes option"

datatype ServiceError =
    BadHexString
  | BadIssuerStatus u8
  | BadOperatorStatus u8
  | HeaderChainLength
  | NodeRefused NodeError

definition hexbytes :: "hex_codec \<Rightarrow> bytes \<Rightarrow> (ServiceError, bytes) res" where
  "hexbytes hx s = ok_or (hx_decode hx s) BadHexString"

text \<open>The wrapper \<^verbatim>\<open>Hex<N>\<close> is the array it holds.\<close>

type_synonym 'n Hex = "'n barr"

definition hex_serialize :: "hex_codec \<Rightarrow> 'n::len Hex \<Rightarrow> bytes" where
  "hex_serialize hx h = hx_encode hx (bs h)"

definition hex_deserialize :: "hex_codec \<Rightarrow> bytes \<Rightarrow> 'n::len Hex option" where
  "hex_deserialize hx s = Option.bind (hx_decode hx s) arr_try"

section \<open>Transfer objects\<close>

fun issuer_status :: "u8 \<Rightarrow> (ServiceError, IssuerStatus) res" where
  "issuer_status v =
     (if v = 0 then Ok IssuerActive else if v = 1 then Ok IssuerPaused else if v = 2 then Ok IssuerFrozen
      else if v = 3 then Ok IssuerExiting else Err (BadIssuerStatus v))"

fun operator_status :: "u8 \<Rightarrow> (ServiceError, OperatorStatus) res" where
  "operator_status v =
     (if v = 0 then Ok OperatorActive else if v = 1 then Ok OperatorSuspended else if v = 2 then Ok OperatorSlashed
      else Err (BadOperatorStatus v))"

declare issuer_status.simps [simp del] operator_status.simps [simp del]

record OutPointDto =
  opd_txid :: "32 Hex"
  opd_vout :: u32

definition opd_into_domain :: "OutPointDto \<Rightarrow> OutPoint" where
  "opd_into_domain d =
     \<lparr>op_txid = opd_txid d,
       op_vout = opd_vout d\<rparr>"

record IssuerPositionDto =
  ipd_issuer_id :: "32 Hex"
  ipd_status :: u8
  ipd_multisig_pubkeys :: "33 Hex list"
  ipd_multisig_threshold :: u8
  ipd_reserve_deposits_sats :: u64
  ipd_minted_satusd_atoms :: u64
  ipd_pending_mint_atoms :: u64
  ipd_collateral_ratio_ppm :: u64
  ipd_last_deposit_txid :: "32 Hex option"
  ipd_registered_at_height :: u32
  ipd_pending_mint_commitment :: "32 Hex option"

definition ipd_into_domain :: "IssuerPositionDto \<Rightarrow> (ServiceError, IssuerPosition) res" where
  "ipd_into_domain d =
     rbind (issuer_status (ipd_status d)) (\<lambda>status.
     Ok \<lparr>ip_issuer_id = ipd_issuer_id d,
       ip_status = status,
       ip_multisig_pubkeys = ipd_multisig_pubkeys d,
       ip_multisig_threshold = ipd_multisig_threshold d,
       ip_reserve_deposits_sats = ipd_reserve_deposits_sats d,
       ip_minted_satusd_atoms = ipd_minted_satusd_atoms d,
       ip_pending_mint_atoms = ipd_pending_mint_atoms d,
       ip_collateral_ratio_ppm = ipd_collateral_ratio_ppm d,
       ip_last_deposit_txid = ipd_last_deposit_txid d,
       ip_freeze_reason = None,
       ip_registered_at_height = ipd_registered_at_height d,
       ip_pending_mint_commitment = ipd_pending_mint_commitment d\<rparr>)"

record OperatorPositionDto =
  ond_operator_id :: "32 Hex"
  ond_status :: u8
  ond_operator_pubkey :: "33 Hex"
  ond_bond_sats :: u64
  ond_max_claim_sats :: u64
  ond_outstanding_claim_sats :: u64
  ond_slashed_sats :: u64
  ond_registered_at_height :: u32

definition ond_into_domain :: "OperatorPositionDto \<Rightarrow> (ServiceError, OperatorPosition) res" where
  "ond_into_domain d =
     rbind (operator_status (ond_status d)) (\<lambda>status.
     Ok \<lparr>opn_operator_id = ond_operator_id d,
       opn_status = status,
       opn_operator_pubkey = ond_operator_pubkey d,
       opn_bond_sats = ond_bond_sats d,
       opn_max_claim_sats = ond_max_claim_sats d,
       opn_outstanding_claim_sats = ond_outstanding_claim_sats d,
       opn_slashed_sats = ond_slashed_sats d,
       opn_registered_at_height = ond_registered_at_height d\<rparr>)"

record MultisigSigDto =
  msd_signer_pubkey :: "33 Hex"
  msd_signature :: "64 Hex"

record BtcDepositConfirmationDto =
  dcd_deposit_tx_legacy :: bytes
  dcd_inclusion_header :: "80 Hex"
  dcd_inclusion_block_hash :: "32 Hex"
  dcd_inclusion_block_height :: u32
  dcd_inclusion_merkle_proof :: "32 Hex list"
  dcd_tx_index :: u32
  dcd_confirmation_headers :: "80 Hex list"

record MintCommitDto =
  mcd_issuer_id :: "32 Hex"
  mcd_requested_mint_atoms :: u64
  mcd_deposit_txid :: "32 Hex"
  mcd_deposit_sats :: u64
  mcd_asset_metadata_commitment :: "32 Hex"
  mcd_signatures :: "MultisigSigDto list"
  mcd_oracle_price_e8 :: u64
  mcd_deposit_confirmation :: BtcDepositConfirmationDto
  mcd_reserve_committee_pubkeys :: "33 Hex list"
  mcd_reserve_committee_threshold :: u8

definition msd_sig :: "MultisigSigDto \<Rightarrow> MultisigSig" where
  "msd_sig s = \<lparr>ms_signer_pubkey = msd_signer_pubkey s, ms_signature = msd_signature s\<rparr>"

definition dcd_confirmation :: "hex_codec \<Rightarrow> BtcDepositConfirmationDto \<Rightarrow> BtcDepositConfirmation" where
  "dcd_confirmation hx d =
     \<lparr>dc_deposit_tx_legacy = unwrap_or (hx_decode hx (dcd_deposit_tx_legacy d)) [],
       dc_inclusion_header = dcd_inclusion_header d,
       dc_inclusion_block_hash = dcd_inclusion_block_hash d,
       dc_inclusion_block_height = dcd_inclusion_block_height d,
       dc_inclusion_merkle_proof = dcd_inclusion_merkle_proof d,
       dc_tx_index = dcd_tx_index d,
       dc_confirmation_headers = dcd_confirmation_headers d\<rparr>"

definition mcd_into_witness :: "hex_codec \<Rightarrow> MintCommitDto \<Rightarrow> MintCommitWitness" where
  "mcd_into_witness hx d =
     \<lparr>mc_issuer_id = mcd_issuer_id d,
       mc_requested_mint_atoms = mcd_requested_mint_atoms d,
       mc_deposit_txid = mcd_deposit_txid d,
       mc_deposit_sats = mcd_deposit_sats d,
       mc_asset_metadata_commitment = mcd_asset_metadata_commitment d,
       mc_signatures = map msd_sig (mcd_signatures d),
       mc_oracle_price_e8 = mcd_oracle_price_e8 d,
       mc_deposit_confirmation = dcd_confirmation hx (mcd_deposit_confirmation d),
       mc_reserve_committee_pubkeys = mcd_reserve_committee_pubkeys d,
       mc_reserve_committee_threshold = mcd_reserve_committee_threshold d\<rparr>"

record MintFinalizeDto =
  mfd_issuer_id :: "32 Hex"
  mfd_requested_mint_atoms :: u64
  mfd_deposit_txid :: "32 Hex"
  mfd_asset_metadata_commitment :: "32 Hex"
  mfd_mint_anchor_confirmations :: u32
  mfd_mint_proof_ok :: bool
  mfd_oracle_price_e8 :: u64

definition mfd_into_witness :: "MintFinalizeDto \<Rightarrow> MintFinalizeWitness" where
  "mfd_into_witness d =
     \<lparr>mf_issuer_id = mfd_issuer_id d,
       mf_requested_mint_atoms = mfd_requested_mint_atoms d,
       mf_deposit_txid = mfd_deposit_txid d,
       mf_asset_metadata_commitment = mfd_asset_metadata_commitment d,
       mf_mint_anchor_confirmations = mfd_mint_anchor_confirmations d,
       mf_mint_proof_ok = mfd_mint_proof_ok d,
       mf_oracle_price_e8 = mfd_oracle_price_e8 d\<rparr>"

record RedeemIntentDto =
  rid_version :: u16
  rid_network :: u8
  rid_redemption_id :: "32 Hex"
  rid_satusd_asset_family_id :: "32 Hex"
  rid_amount_satusd_atoms :: u64
  rid_user_btc_refund_pubkey :: "32 Hex"
  rid_user_btc_claim_pubkey :: "32 Hex"
  rid_user_asset_refund_key :: "32 Hex"
  rid_operator_id :: "32 Hex option"
  rid_mode :: u8
  rid_payment_hash :: "32 Hex"
  rid_asset_lock_csv_delta :: u32
  rid_btc_htlc_csv_delta :: u32
  rid_max_operator_fee_bps :: u16
  rid_l1_anchor_height :: u32
  rid_l1_anchor_hash :: "32 Hex"
  rid_expiry_height :: u32
  rid_nonce :: "32 Hex"

definition rid_into_domain :: "RedeemIntentDto \<Rightarrow> RedeemIntent" where
  "rid_into_domain d =
     \<lparr>ri_version = rid_version d,
       ri_network = rid_network d,
       ri_redemption_id = rid_redemption_id d,
       ri_satusd_asset_family_id = rid_satusd_asset_family_id d,
       ri_amount_satusd_atoms = rid_amount_satusd_atoms d,
       ri_user_btc_refund_pubkey = rid_user_btc_refund_pubkey d,
       ri_user_btc_claim_pubkey = rid_user_btc_claim_pubkey d,
       ri_user_asset_refund_key = rid_user_asset_refund_key d,
       ri_operator_id = rid_operator_id d,
       ri_mode = rid_mode d,
       ri_payment_hash = rid_payment_hash d,
       ri_asset_lock_csv_delta = rid_asset_lock_csv_delta d,
       ri_btc_htlc_csv_delta = rid_btc_htlc_csv_delta d,
       ri_max_operator_fee_bps = rid_max_operator_fee_bps d,
       ri_l1_anchor_height = rid_l1_anchor_height d,
       ri_l1_anchor_hash = rid_l1_anchor_hash d,
       ri_expiry_height = rid_expiry_height d,
       ri_nonce = rid_nonce d\<rparr>"

record LockRecordDto =
  lrd_lock_record_version :: u16
  lrd_redeem_intent_hash :: "32 Hex"
  lrd_lock_anchor_outpoint :: OutPointDto
  lrd_lock_anchor_txid :: "32 Hex"
  lrd_lock_script_key :: "32 Hex"
  lrd_lock_amount_atoms :: u64
  lrd_asset_family_id :: "32 Hex"
  lrd_asset_lock_csv_delta :: u32
  lrd_payment_hash :: "32 Hex"
  lrd_lineage_proof_hash :: "32 Hex"
  lrd_lineage_verified_by :: "32 Hex list"
  lrd_anchor_inclusion_height :: u32

definition lrd_into_domain :: "LockRecordDto \<Rightarrow> LockRecord" where
  "lrd_into_domain d =
     \<lparr>lr_lock_record_version = lrd_lock_record_version d,
       lr_redeem_intent_hash = lrd_redeem_intent_hash d,
       lr_lock_anchor_outpoint = opd_into_domain (lrd_lock_anchor_outpoint d),
       lr_lock_anchor_txid = lrd_lock_anchor_txid d,
       lr_lock_script_key = lrd_lock_script_key d,
       lr_lock_amount_atoms = lrd_lock_amount_atoms d,
       lr_asset_family_id = lrd_asset_family_id d,
       lr_asset_lock_csv_delta = lrd_asset_lock_csv_delta d,
       lr_payment_hash = lrd_payment_hash d,
       lr_lineage_proof_hash = lrd_lineage_proof_hash d,
       lr_lineage_verified_by = lrd_lineage_verified_by d,
       lr_anchor_inclusion_height = lrd_anchor_inclusion_height d\<rparr>"

record RedeemLockDto =
  rld_redeem_intent :: RedeemIntentDto
  rld_lock_record :: LockRecordDto
  rld_lineage_proof :: bytes

definition rld_into_witness :: "hex_codec \<Rightarrow> RedeemLockDto \<Rightarrow> RedeemLockWitness" where
  "rld_into_witness hx d =
     \<lparr>rl_redeem_intent = rid_into_domain (rld_redeem_intent d),
       rl_lock_record = lrd_into_domain (rld_lock_record d),
       rl_lock_exclusion_proof = [],
       rl_lineage_proof = unwrap_or (hx_decode hx (trim (rld_lineage_proof d))) []\<rparr>"

record LockRefundRecordDto =
  lud_lock_record_hash :: "32 Hex"
  lud_refund_anchor_txid :: "32 Hex"
  lud_refund_anchor_outpoint :: OutPointDto
  lud_user_signature :: "64 Hex"
  lud_refund_height :: u32
  lud_asset_returned_to :: "32 Hex"

definition lud_into_domain :: "LockRefundRecordDto \<Rightarrow> LockRefundRecord" where
  "lud_into_domain d =
     \<lparr>lu_lock_record_hash = lud_lock_record_hash d,
       lu_refund_anchor_txid = lud_refund_anchor_txid d,
       lu_refund_anchor_outpoint = opd_into_domain (lud_refund_anchor_outpoint d),
       lu_user_signature = lud_user_signature d,
       lu_refund_height = lud_refund_height d,
       lu_asset_returned_to = lud_asset_returned_to d\<rparr>"

record LockRefundDto =
  rfd_redeem_intent :: RedeemIntentDto
  rfd_lock_record :: LockRecordDto
  rfd_lock_refund :: LockRefundRecordDto

definition rfd_into_witness :: "LockRefundDto \<Rightarrow> LockRefundWitness" where
  "rfd_into_witness d =
     \<lparr>rf_redeem_intent = rid_into_domain (rfd_redeem_intent d),
       rf_lock_record = lrd_into_domain (rfd_lock_record d),
       rf_lock_refund = lud_into_domain (rfd_lock_refund d),
       rf_lock_membership_proof = [],
       rf_consumed_exclusion_proof = [],
       rf_refund_exclusion_proof = []\<rparr>"

record LockFinalizeDto =
  lfd_lock_record_hash :: "32 Hex"
  lfd_payment_preimage :: "32 Hex"
  lfd_finalize_anchor_txid :: "32 Hex"
  lfd_finalize_anchor_outpoint :: OutPointDto
  lfd_protocol_sink_script_key :: "32 Hex"
  lfd_protocol_burn_internal_key :: "32 Hex"
  lfd_finalized_amount_atoms :: u64
  lfd_operator_id :: "32 Hex"
  lfd_finalize_height :: u32
  lfd_universe_burn_proof_hash :: "32 Hex"

definition lfd_into_domain :: "LockFinalizeDto \<Rightarrow> LockFinalizeRecord" where
  "lfd_into_domain d =
     \<lparr>lf_lock_record_hash = lfd_lock_record_hash d,
       lf_payment_preimage = lfd_payment_preimage d,
       lf_finalize_anchor_txid = lfd_finalize_anchor_txid d,
       lf_finalize_anchor_outpoint = opd_into_domain (lfd_finalize_anchor_outpoint d),
       lf_protocol_sink_script_key = lfd_protocol_sink_script_key d,
       lf_protocol_burn_internal_key = lfd_protocol_burn_internal_key d,
       lf_finalized_amount_atoms = lfd_finalized_amount_atoms d,
       lf_operator_id = lfd_operator_id d,
       lf_finalize_height = lfd_finalize_height d,
       lf_universe_burn_proof_hash = lfd_universe_burn_proof_hash d\<rparr>"

record BtcPayoutConfirmationDto =
  pcd_btc_htlc_txid :: "32 Hex"
  pcd_btc_htlc_vout :: u32
  pcd_htlc_output_value_sats :: u64
  pcd_htlc_output_script :: bytes
  pcd_htlc_inclusion_block_hash :: "32 Hex"
  pcd_htlc_inclusion_block_height :: u32
  pcd_htlc_inclusion_merkle_proof :: "32 Hex list"
  pcd_claim_spend_txid :: "32 Hex"
  pcd_claim_spend_input_index :: u32
  pcd_claim_spend_witness :: "bytes list"
  pcd_claim_tx_legacy :: bytes
  pcd_revealed_preimage :: "32 Hex"
  pcd_claim_inclusion_block_hash :: "32 Hex"
  pcd_claim_inclusion_block_height :: u32
  pcd_claim_inclusion_merkle_proof :: "32 Hex list"
  pcd_confirmation_headers :: "80 Hex list"
  pcd_htlc_tx_index :: u32
  pcd_claim_tx_index :: u32
  pcd_htlc_inclusion_header :: "80 Hex"
  pcd_claim_inclusion_header :: "80 Hex"

definition pcd_into_domain :: "hex_codec \<Rightarrow> BtcPayoutConfirmationDto \<Rightarrow> (ServiceError, BtcPayoutConfirmation) res" where
  "pcd_into_domain hx d =
     rbind (hexbytes hx (pcd_htlc_output_script d)) (\<lambda>script.
     rbind (rmap (hexbytes hx) (pcd_claim_spend_witness d)) (\<lambda>witness.
     rbind (hexbytes hx (pcd_claim_tx_legacy d)) (\<lambda>legacy.
     Ok \<lparr>pc_btc_htlc_txid = pcd_btc_htlc_txid d,
       pc_btc_htlc_vout = pcd_btc_htlc_vout d,
       pc_htlc_output_value_sats = pcd_htlc_output_value_sats d,
       pc_htlc_output_script = script,
       pc_htlc_inclusion_block_hash = pcd_htlc_inclusion_block_hash d,
       pc_htlc_inclusion_block_height = pcd_htlc_inclusion_block_height d,
       pc_htlc_inclusion_merkle_proof = pcd_htlc_inclusion_merkle_proof d,
       pc_claim_spend_txid = pcd_claim_spend_txid d,
       pc_claim_spend_input_index = pcd_claim_spend_input_index d,
       pc_claim_spend_witness = witness,
       pc_claim_tx_legacy = legacy,
       pc_revealed_preimage = pcd_revealed_preimage d,
       pc_claim_inclusion_block_hash = pcd_claim_inclusion_block_hash d,
       pc_claim_inclusion_block_height = pcd_claim_inclusion_block_height d,
       pc_claim_inclusion_merkle_proof = pcd_claim_inclusion_merkle_proof d,
       pc_confirmation_headers = pcd_confirmation_headers d,
       pc_htlc_tx_index = pcd_htlc_tx_index d,
       pc_claim_tx_index = pcd_claim_tx_index d,
       pc_htlc_inclusion_header = pcd_htlc_inclusion_header d,
       pc_claim_inclusion_header = pcd_claim_inclusion_header d\<rparr>)))"

record BatchRedemptionDto =
  brd_redeem_intent :: RedeemIntentDto
  brd_lock_record :: LockRecordDto
  brd_lock_finalize :: LockFinalizeDto
  brd_payout_confirmation :: BtcPayoutConfirmationDto
  brd_burn_proof :: bytes

definition brd_into_domain :: "hex_codec \<Rightarrow> BatchRedemptionDto \<Rightarrow> (ServiceError, BatchRedemption) res" where
  "brd_into_domain hx d =
     rbind (pcd_into_domain hx (brd_payout_confirmation d)) (\<lambda>payout.
     rbind (hexbytes hx (trim (brd_burn_proof d))) (\<lambda>burn.
     Ok \<lparr>br_redeem_intent = rid_into_domain (brd_redeem_intent d),
       br_lock_record = lrd_into_domain (brd_lock_record d),
       br_lock_finalize = lfd_into_domain (brd_lock_finalize d),
       br_payout_confirmation = payout,
       br_lock_membership_proof = [],
       br_consumed_exclusion_proof = [],
       br_refund_exclusion_proof = [],
       br_nullifier_exclusion_proof = [],
       br_burn_proof = burn\<rparr>))"

record OracleMessageDto =
  omd_domain :: "32 Hex"
  omd_oracle_id :: "32 Hex"
  omd_oracle_set_epoch :: u64
  omd_price_epoch :: u64
  omd_timestamp_ms :: u64
  omd_pair :: "8 Hex"
  omd_price_e8 :: u64
  omd_source_commitment :: "32 Hex"
  omd_signer_pubkey :: "32 Hex"
  omd_signature :: "64 Hex"

definition omd_into_domain :: "OracleMessageDto \<Rightarrow> OracleMessage" where
  "omd_into_domain d =
     \<lparr>om_domain = omd_domain d,
       om_oracle_id = omd_oracle_id d,
       om_oracle_set_epoch = omd_oracle_set_epoch d,
       om_price_epoch = omd_price_epoch d,
       om_timestamp_ms = omd_timestamp_ms d,
       om_pair = omd_pair d,
       om_price_e8 = omd_price_e8 d,
       om_source_commitment = omd_source_commitment d,
       om_signer_pubkey = omd_signer_pubkey d,
       om_signature = omd_signature d\<rparr>"

record ClaimClockDto =
  ccd_l1_anchor_height :: u32
  ccd_l1_anchor_hash :: "32 Hex"
  ccd_l1_anchor_mtp :: u64
  ccd_l1_anchor_chain_time :: u64
  ccd_recent_header_chain :: "80 Hex list"
  ccd_oracle_epoch :: u64
  ccd_selected_oracle_price_e8 :: u64
  ccd_max_epoch_lag_sec :: u32
  ccd_oracle_future_tolerance :: u32

text \<open>a list read as an array of twelve headers.\<close>

definition header_chain :: "b80 list \<Rightarrow> (ServiceError, b80 list) res" where
  "header_chain chain = (if length chain \<noteq> 12 then Err HeaderChainLength else Ok chain)"

definition ccd_into_domain :: "ClaimClockDto \<Rightarrow> (ServiceError, ClaimClock) res" where
  "ccd_into_domain d =
     rbind (header_chain (ccd_recent_header_chain d)) (\<lambda>chain.
     Ok \<lparr>cc_l1_anchor_height = ccd_l1_anchor_height d,
       cc_l1_anchor_hash = ccd_l1_anchor_hash d,
       cc_l1_anchor_mtp = ccd_l1_anchor_mtp d,
       cc_l1_anchor_chain_time = ccd_l1_anchor_chain_time d,
       cc_recent_header_chain = chain,
       cc_oracle_epoch = ccd_oracle_epoch d,
       cc_selected_oracle_price_e8 = ccd_selected_oracle_price_e8 d,
       cc_max_epoch_lag_sec = ccd_max_epoch_lag_sec d,
       cc_oracle_future_tolerance = ccd_oracle_future_tolerance d\<rparr>)"

record SubmitClaimDto =
  scd_redemptions :: "BatchRedemptionDto list"
  scd_oracle_messages :: "OracleMessageDto list"
  scd_oracle_signer_set :: "32 Hex list"
  scd_l1_anchor :: ClaimClockDto
  scd_reserve_shard_id :: u64
  scd_claim_expiry_height :: u32
  scd_btc_tip_height :: u32

record ApprovalDto =
  apd_signer_pubkey :: "33 Hex"
  apd_signature :: "64 Hex"

record FinalizeClaimDto =
  fcd_claim_id :: "32 Hex"
  fcd_committee_threshold :: u8
  fcd_committee_pubkeys :: "33 Hex list"
  fcd_approvals :: "ApprovalDto list"
  fcd_current_height :: u32

definition fcd_committee :: "FinalizeClaimDto \<Rightarrow> ReserveCommittee" where
  "fcd_committee d =
     \<lparr>rcm_threshold = fcd_committee_threshold d,
       rcm_pubkeys = fcd_committee_pubkeys d\<rparr>"

record ReclaimClaimDto =
  rcd_claim_id :: "32 Hex"
  rcd_current_height :: u32

definition scd_parts :: "hex_codec \<Rightarrow> SubmitClaimDto \<Rightarrow> (ServiceError,
    BatchRedemption list \<times> OracleMessage list \<times> b32 list \<times> ClaimClock \<times> u64 \<times> u32 \<times> u32) res" where
  "scd_parts hx d =
     rbind (rmap (brd_into_domain hx) (scd_redemptions d)) (\<lambda>redemptions.
     let oracle_messages = map omd_into_domain (scd_oracle_messages d);
         signer_set = scd_oracle_signer_set d in
     rbind (ccd_into_domain (scd_l1_anchor d)) (\<lambda>l1.
     Ok (redemptions, oracle_messages, signer_set, l1, scd_reserve_shard_id d, scd_claim_expiry_height d,
         scd_btc_tip_height d)))"

definition fcd_approvals_list :: "FinalizeClaimDto \<Rightarrow> MultisigSig list" where
  "fcd_approvals_list d =
     map (\<lambda>a. \<lparr>ms_signer_pubkey = apd_signer_pubkey a, ms_signature = apd_signature a\<rparr>)
       (fcd_approvals d)"

datatype TransitionRequest =
    IssuerRegisterRequest IssuerPositionDto
  | OperatorRegisterRequest OperatorPositionDto
  | MintCommitRequest MintCommitDto
  | MintFinalizeRequest MintFinalizeDto
  | RedeemLockRequest RedeemLockDto
  | LockRefundRequest LockRefundDto
  | SubmitClaimRequest SubmitClaimDto
  | FinalizeClaimRequest FinalizeClaimDto
  | ReclaimStaleClaimRequest ReclaimClaimDto

end
