(* ===== verification/Service.thy ===== *)
theory Service
  imports Dto
begin

text \<open>
  The state node's HTTP service (\<^verbatim>\<open>satusd-state-node/src/lib.rs\<close>): requests are applied to the
  node behind a mutex. A request that panics while the guard is held leaves the mutex poisoned, and
  every \<^verbatim>\<open>lock().unwrap()\<close> after it panics; a dry run panics on its own copy, without the guard.
\<close>

section \<open>The service\<close>

record service =
  sv_node :: StateNode
  sv_poisoned :: bool

datatype service_answer =
    NewStateRoot bytes
  | BadRequest ServiceError

record state_view =
  vw_state_root_hash :: bytes
  vw_state_epoch :: u64
  vw_sat_usd_supply_atoms :: u64
  vw_reserve_btc_sats :: u64
  vw_collateral_ratio_ppm :: u64
  vw_emergency_tier :: u8
  vw_l1_anchor_height :: u32

record claim_view =
  cv_claim_id :: bytes
  cv_operator_id :: bytes
  cv_reserved_sats :: u64
  cv_claim_created_height :: u32
  cv_claim_expiry_height :: u32
  cv_status :: u8

definition refused_by_node :: "node_result \<Rightarrow> (ServiceError, b32) res \<times> StateNode" where
  "refused_by_node m = (map_err NodeRefused (fst m), snd m)"

text \<open>\<^verbatim>\<open>?\<close> on a conversion, before the node is reached.\<close>

fun converted :: "(ServiceError, 'a) res \<Rightarrow> StateNode \<Rightarrow> ('a \<Rightarrow> node_result)
    \<Rightarrow> (ServiceError, b32) res \<times> StateNode" where
  "converted (Ok x) n f = refused_by_node (f x)"
| "converted (Err e) n f = (Err e, n)"
| "converted Panic n f = (Panic, n)"

fun apply_to :: "crypto \<Rightarrow> hex_codec \<Rightarrow> StateNode \<Rightarrow> TransitionRequest
    \<Rightarrow> (ServiceError, b32) res \<times> StateNode" where
  "apply_to C hx n (IssuerRegisterRequest d) = converted (ipd_into_domain d) n (issuer_register C n)"
| "apply_to C hx n (OperatorRegisterRequest d) = converted (ond_into_domain d) n (operator_register C n)"
| "apply_to C hx n (MintCommitRequest d) =
     refused_by_node (mint_commit C n (mcd_issuer_id d) (mcd_into_witness hx d))"
| "apply_to C hx n (MintFinalizeRequest d) =
     refused_by_node (mint_finalize C n (mfd_issuer_id d) (mfd_into_witness d))"
| "apply_to C hx n (RedeemLockRequest d) = refused_by_node (redeem_lock C n (rld_into_witness hx d))"
| "apply_to C hx n (LockRefundRequest d) = refused_by_node (lock_refund C n (rfd_into_witness d))"
| "apply_to C hx n (SubmitClaimRequest d) =
     converted (scd_parts hx d) n (\<lambda>(redemptions, oracle_messages, signer_set, l1, shard, expiry, tip).
       submit_claim C n redemptions oracle_messages signer_set l1 shard expiry tip)"
| "apply_to C hx n (FinalizeClaimRequest d) =
     refused_by_node (finalize_claim C n (fcd_claim_id d) (fcd_committee d) (fcd_approvals_list d) (fcd_current_height d))"
| "apply_to C hx n (ReclaimStaleClaimRequest d) =
     refused_by_node (reclaim_stale_claim C n (rcd_claim_id d) (rcd_current_height d))"

fun outcome :: "hex_codec \<Rightarrow> (ServiceError, b32) res \<Rightarrow> (unit, service_answer) res" where
  "outcome hx (Ok h) = Ok (NewStateRoot (hx_encode hx (bs h)))"
| "outcome hx (Err e) = Ok (BadRequest e)"
| "outcome hx Panic = Panic"

definition lock_unwrap :: "service \<Rightarrow> (unit, StateNode) res" where
  "lock_unwrap sv = (if sv_poisoned sv then Panic else Ok (sv_node sv))"

definition get_state :: "crypto \<Rightarrow> hex_codec \<Rightarrow> service \<Rightarrow> (unit, state_view) res" where
  "get_state C hx sv =
     rbind (lock_unwrap sv) (\<lambda>node.
     let st = nd_state node in
     Ok \<lparr>vw_state_root_hash = hx_encode hx (bs (node_state_root_hash C node)), vw_state_epoch = sr_state_epoch st,
         vw_sat_usd_supply_atoms = sr_sat_usd_supply_atoms st, vw_reserve_btc_sats = sr_reserve_btc_sats st,
         vw_collateral_ratio_ppm = sr_collateral_ratio_ppm st, vw_emergency_tier = sr_emergency_tier st,
         vw_l1_anchor_height = sr_l1_anchor_height st\<rparr>)"

text \<open>The pending claims by their identifier.\<close>

definition get_pending_claims :: "hex_codec \<Rightarrow> service \<Rightarrow> (unit, b32 \<rightharpoonup> claim_view) res" where
  "get_pending_claims hx sv =
     rbind (lock_unwrap sv) (\<lambda>node.
     Ok (\<lambda>i. map_option (\<lambda>p. \<lparr>cv_claim_id = hx_encode hx (bs i), cv_operator_id = hx_encode hx (bs (cl_operator_id p)),
         cv_reserved_sats = cl_reserved_sats p, cv_claim_created_height = cl_claim_created_height p,
         cv_claim_expiry_height = cl_claim_expiry_height p,
         cv_status = pending_claim_status_as_u8 (cl_status p)\<rparr>) (nd_pending_claims node i)))"

definition submit_request :: "crypto \<Rightarrow> hex_codec \<Rightarrow> service \<Rightarrow> TransitionRequest
    \<Rightarrow> (unit, service_answer) res \<times> service" where
  "submit_request C hx sv req =
     (case lock_unwrap sv of
        Ok node \<Rightarrow> let (r, node) = apply_to C hx node req in
          (outcome hx r, \<lparr>sv_node = node, sv_poisoned = (r = Panic)\<rparr>)
      | Err e \<Rightarrow> (Err e, sv) | Panic \<Rightarrow> (Panic, sv))"

definition simulate_request :: "crypto \<Rightarrow> hex_codec \<Rightarrow> service \<Rightarrow> TransitionRequest
    \<Rightarrow> (unit, service_answer) res" where
  "simulate_request C hx sv req =
     rbind (lock_unwrap sv) (\<lambda>clone. outcome hx (fst (apply_to C hx clone req)))"

definition router :: "StateNode \<Rightarrow> service" where
  "router node = \<lparr>sv_node = node, sv_poisoned = False\<rparr>"

definition main_node :: "crypto \<Rightarrow> StateNode" where
  "main_node C = genesis_node C (fill 1) (fill 2) 0 5000000000000"

section \<open>Requests as operations of the node\<close>

text \<open>The operation a request stands for.\<close>

fun request_op :: "hex_codec \<Rightarrow> TransitionRequest \<Rightarrow> (ServiceError, node_op) res" where
  "request_op hx (IssuerRegisterRequest d) = rbind (ipd_into_domain d) (\<lambda>i. Ok (IssuerRegisterOp i))"
| "request_op hx (OperatorRegisterRequest d) = rbind (ond_into_domain d) (\<lambda>i. Ok (OperatorRegisterOp i))"
| "request_op hx (MintCommitRequest d) = Ok (MintCommitOp (mcd_issuer_id d) (mcd_into_witness hx d))"
| "request_op hx (MintFinalizeRequest d) = Ok (MintFinalizeOp (mfd_issuer_id d) (mfd_into_witness d))"
| "request_op hx (RedeemLockRequest d) = Ok (RedeemLockOp (rld_into_witness hx d))"
| "request_op hx (LockRefundRequest d) = Ok (LockRefundOp (rfd_into_witness d))"
| "request_op hx (SubmitClaimRequest d) =
     rbind (scd_parts hx d) (\<lambda>(rs, ms, ks, a, shard, expiry, tip). Ok (SubmitClaimOp rs ms ks a shard expiry tip))"
| "request_op hx (FinalizeClaimRequest d) =
     Ok (FinalizeOp (fcd_claim_id d) (fcd_committee d) (fcd_approvals_list d) (fcd_current_height d))"
| "request_op hx (ReclaimStaleClaimRequest d) = Ok (ReclaimOp (rcd_claim_id d) (rcd_current_height d))"

lemma converted_alt:
  "converted m n f = (case m of Ok x \<Rightarrow> refused_by_node (f x) | Err e \<Rightarrow> (Err e, n) | Panic \<Rightarrow> (Panic, n))"
  by (cases m) simp_all

lemma apply_to_performs:
  "apply_to C hx n req = converted (request_op hx req) n (\<lambda>op. perform_op C op n)"
  by (cases req) (auto simp: converted_alt split: res.splits)

end
