(* ===== verification/Wire.thy ===== *)
theory Wire
  imports Service
begin

text \<open>
  What the HTTP interface can and cannot make the node do: the transfer object of each of the
  node's types, the operations that requests stand for, and what the service's answers say.
\<close>

section \<open>The hex crate\<close>

text \<open>
  Documented of the crate: what it encodes it decodes, and it encodes in lower-case digits.
  \<open>text_codec\<close> is such a codec.
\<close>

locale hex_crate =
  fixes hx :: hex_codec
  assumes decode_encode: "hx_decode hx (hx_encode hx b) = Some b"
    and encode_digits: "set (hx_encode hx b) \<subseteq> set hex_digits"
begin

lemma hexbytes_encode [simp]: "hexbytes hx (hx_encode hx b) = Ok b"
  by (simp add: hexbytes_def decode_encode)

lemma trim_encode [simp]: "trim (hx_encode hx b) = hx_encode hx b"
  by (rule trim_hex [OF encode_digits])

lemma serialized_hex: "hex_deserialize hx (hex_serialize hx (h :: 'n::len Hex)) = Some h"
  by (simp add: hex_deserialize_def hex_serialize_def decode_encode arr_try_def)

end

fun text_decode :: "bytes \<Rightarrow> bytes option" where
  "text_decode (a # b # r) =
     Option.bind (hex_digit a) (\<lambda>x. Option.bind (hex_digit b) (\<lambda>y.
     map_option (\<lambda>vs. word_of_nat (16 * x + y) # vs) (text_decode r)))"
| "text_decode [] = Some []"
| "text_decode _ = None"

definition text_codec :: hex_codec where
  "text_codec = \<lparr>hx_encode = (\<lambda>b. concat (map hex_u8 b)), hx_decode = text_decode\<rparr>"

lemma hex_digit_char: "n < 16 \<Longrightarrow> hex_digit (hex_char n) = Some n"
proof -
  have "\<forall>n\<in>set [0 ..< 16]. hex_digit (hex_char n) = Some n" by (simp add: hex_char_def hex_digit_def upt_rec)
  then show "n < 16 \<Longrightarrow> ?thesis" by simp
qed

interpretation text_hex: hex_crate text_codec
proof
  show "hx_decode text_codec (hx_encode text_codec b) = Some b" for b
  proof (induction b)
    case (Cons x b)
    have "16 * word_of_nat (unat x div 16) + word_of_nat (unat x mod 16) = x"
    proof -
      have "word_of_nat (16 * (unat x div 16) + unat x mod 16) = x"
        by (simp only: mult_div_mod_eq) simp
      then show ?thesis by (simp only: of_nat_add of_nat_mult of_nat_numeral)
    qed
    then show ?case
      using Cons nibble [of x] by (simp add: text_codec_def hex_u8_def hex_digit_char)
  qed (simp add: text_codec_def)
  show "set (hx_encode text_codec b) \<subseteq> set hex_digits" for b
    using hex_text_digits by (simp add: text_codec_def)
qed

section \<open>The transfer object of a value\<close>

definition opd_of :: "OutPoint \<Rightarrow> OutPointDto" where
  "opd_of x =
     \<lparr>opd_txid = op_txid x, opd_vout = op_vout x\<rparr>"

definition ipd_of :: "IssuerPosition \<Rightarrow> IssuerPositionDto" where
  "ipd_of x =
     \<lparr>ipd_issuer_id = ip_issuer_id x, ipd_status = issuer_status_as_u8 (ip_status x),
       ipd_multisig_pubkeys = ip_multisig_pubkeys x, ipd_multisig_threshold = ip_multisig_threshold x,
       ipd_reserve_deposits_sats = ip_reserve_deposits_sats x,
       ipd_minted_satusd_atoms = ip_minted_satusd_atoms x, ipd_pending_mint_atoms = ip_pending_mint_atoms x,
       ipd_collateral_ratio_ppm = ip_collateral_ratio_ppm x, ipd_last_deposit_txid = ip_last_deposit_txid x,
       ipd_registered_at_height = ip_registered_at_height x,
       ipd_pending_mint_commitment = ip_pending_mint_commitment x\<rparr>"

definition ond_of :: "OperatorPosition \<Rightarrow> OperatorPositionDto" where
  "ond_of x =
     \<lparr>ond_operator_id = opn_operator_id x, ond_status = operator_status_as_u8 (opn_status x),
       ond_operator_pubkey = opn_operator_pubkey x, ond_bond_sats = opn_bond_sats x,
       ond_max_claim_sats = opn_max_claim_sats x, ond_outstanding_claim_sats = opn_outstanding_claim_sats x,
       ond_slashed_sats = opn_slashed_sats x, ond_registered_at_height = opn_registered_at_height x\<rparr>"

definition msd_of :: "MultisigSig \<Rightarrow> MultisigSigDto" where
  "msd_of x =
     \<lparr>msd_signer_pubkey = ms_signer_pubkey x, msd_signature = ms_signature x\<rparr>"

definition dcd_of :: "hex_codec \<Rightarrow> BtcDepositConfirmation \<Rightarrow> BtcDepositConfirmationDto" where
  "dcd_of hx x =
     \<lparr>dcd_deposit_tx_legacy = hx_encode hx (dc_deposit_tx_legacy x),
       dcd_inclusion_header = dc_inclusion_header x, dcd_inclusion_block_hash = dc_inclusion_block_hash x,
       dcd_inclusion_block_height = dc_inclusion_block_height x,
       dcd_inclusion_merkle_proof = dc_inclusion_merkle_proof x, dcd_tx_index = dc_tx_index x,
       dcd_confirmation_headers = dc_confirmation_headers x\<rparr>"

definition mcd_of :: "hex_codec \<Rightarrow> MintCommitWitness \<Rightarrow> MintCommitDto" where
  "mcd_of hx x =
     \<lparr>mcd_issuer_id = mc_issuer_id x, mcd_requested_mint_atoms = mc_requested_mint_atoms x,
       mcd_deposit_txid = mc_deposit_txid x, mcd_deposit_sats = mc_deposit_sats x,
       mcd_asset_metadata_commitment = mc_asset_metadata_commitment x,
       mcd_signatures = map msd_of (mc_signatures x), mcd_oracle_price_e8 = mc_oracle_price_e8 x,
       mcd_deposit_confirmation = dcd_of hx (mc_deposit_confirmation x),
       mcd_reserve_committee_pubkeys = mc_reserve_committee_pubkeys x,
       mcd_reserve_committee_threshold = mc_reserve_committee_threshold x\<rparr>"

definition mfd_of :: "MintFinalizeWitness \<Rightarrow> MintFinalizeDto" where
  "mfd_of x =
     \<lparr>mfd_issuer_id = mf_issuer_id x, mfd_requested_mint_atoms = mf_requested_mint_atoms x,
       mfd_deposit_txid = mf_deposit_txid x, mfd_asset_metadata_commitment = mf_asset_metadata_commitment x,
       mfd_mint_anchor_confirmations = mf_mint_anchor_confirmations x, mfd_mint_proof_ok = mf_mint_proof_ok x,
       mfd_oracle_price_e8 = mf_oracle_price_e8 x\<rparr>"

definition rid_of :: "RedeemIntent \<Rightarrow> RedeemIntentDto" where
  "rid_of x =
     \<lparr>rid_version = ri_version x, rid_network = ri_network x, rid_redemption_id = ri_redemption_id x,
       rid_satusd_asset_family_id = ri_satusd_asset_family_id x,
       rid_amount_satusd_atoms = ri_amount_satusd_atoms x,
       rid_user_btc_refund_pubkey = ri_user_btc_refund_pubkey x,
       rid_user_btc_claim_pubkey = ri_user_btc_claim_pubkey x,
       rid_user_asset_refund_key = ri_user_asset_refund_key x, rid_operator_id = ri_operator_id x,
       rid_mode = ri_mode x, rid_payment_hash = ri_payment_hash x,
       rid_asset_lock_csv_delta = ri_asset_lock_csv_delta x, rid_btc_htlc_csv_delta = ri_btc_htlc_csv_delta x,
       rid_max_operator_fee_bps = ri_max_operator_fee_bps x, rid_l1_anchor_height = ri_l1_anchor_height x,
       rid_l1_anchor_hash = ri_l1_anchor_hash x, rid_expiry_height = ri_expiry_height x,
       rid_nonce = ri_nonce x\<rparr>"

definition lrd_of :: "LockRecord \<Rightarrow> LockRecordDto" where
  "lrd_of x =
     \<lparr>lrd_lock_record_version = lr_lock_record_version x,
       lrd_redeem_intent_hash = lr_redeem_intent_hash x,
       lrd_lock_anchor_outpoint = opd_of (lr_lock_anchor_outpoint x),
       lrd_lock_anchor_txid = lr_lock_anchor_txid x, lrd_lock_script_key = lr_lock_script_key x,
       lrd_lock_amount_atoms = lr_lock_amount_atoms x, lrd_asset_family_id = lr_asset_family_id x,
       lrd_asset_lock_csv_delta = lr_asset_lock_csv_delta x, lrd_payment_hash = lr_payment_hash x,
       lrd_lineage_proof_hash = lr_lineage_proof_hash x, lrd_lineage_verified_by = lr_lineage_verified_by x,
       lrd_anchor_inclusion_height = lr_anchor_inclusion_height x\<rparr>"

definition rld_of :: "hex_codec \<Rightarrow> RedeemLockWitness \<Rightarrow> RedeemLockDto" where
  "rld_of hx x =
     \<lparr>rld_redeem_intent = rid_of (rl_redeem_intent x), rld_lock_record = lrd_of (rl_lock_record x),
       rld_lineage_proof = hx_encode hx (rl_lineage_proof x)\<rparr>"

definition lud_of :: "LockRefundRecord \<Rightarrow> LockRefundRecordDto" where
  "lud_of x =
     \<lparr>lud_lock_record_hash = lu_lock_record_hash x, lud_refund_anchor_txid = lu_refund_anchor_txid x,
       lud_refund_anchor_outpoint = opd_of (lu_refund_anchor_outpoint x),
       lud_user_signature = lu_user_signature x, lud_refund_height = lu_refund_height x,
       lud_asset_returned_to = lu_asset_returned_to x\<rparr>"

definition rfd_of :: "LockRefundWitness \<Rightarrow> LockRefundDto" where
  "rfd_of x =
     \<lparr>rfd_redeem_intent = rid_of (rf_redeem_intent x), rfd_lock_record = lrd_of (rf_lock_record x),
       rfd_lock_refund = lud_of (rf_lock_refund x)\<rparr>"

definition lfd_of :: "LockFinalizeRecord \<Rightarrow> LockFinalizeDto" where
  "lfd_of x =
     \<lparr>lfd_lock_record_hash = lf_lock_record_hash x, lfd_payment_preimage = lf_payment_preimage x,
       lfd_finalize_anchor_txid = lf_finalize_anchor_txid x,
       lfd_finalize_anchor_outpoint = opd_of (lf_finalize_anchor_outpoint x),
       lfd_protocol_sink_script_key = lf_protocol_sink_script_key x,
       lfd_protocol_burn_internal_key = lf_protocol_burn_internal_key x,
       lfd_finalized_amount_atoms = lf_finalized_amount_atoms x, lfd_operator_id = lf_operator_id x,
       lfd_finalize_height = lf_finalize_height x,
       lfd_universe_burn_proof_hash = lf_universe_burn_proof_hash x\<rparr>"

definition pcd_of :: "hex_codec \<Rightarrow> BtcPayoutConfirmation \<Rightarrow> BtcPayoutConfirmationDto" where
  "pcd_of hx x =
     \<lparr>pcd_btc_htlc_txid = pc_btc_htlc_txid x, pcd_btc_htlc_vout = pc_btc_htlc_vout x,
       pcd_htlc_output_value_sats = pc_htlc_output_value_sats x,
       pcd_htlc_output_script = hx_encode hx (pc_htlc_output_script x),
       pcd_htlc_inclusion_block_hash = pc_htlc_inclusion_block_hash x,
       pcd_htlc_inclusion_block_height = pc_htlc_inclusion_block_height x,
       pcd_htlc_inclusion_merkle_proof = pc_htlc_inclusion_merkle_proof x,
       pcd_claim_spend_txid = pc_claim_spend_txid x,
       pcd_claim_spend_input_index = pc_claim_spend_input_index x,
       pcd_claim_spend_witness = map (hx_encode hx) (pc_claim_spend_witness x),
       pcd_claim_tx_legacy = hx_encode hx (pc_claim_tx_legacy x),
       pcd_revealed_preimage = pc_revealed_preimage x,
       pcd_claim_inclusion_block_hash = pc_claim_inclusion_block_hash x,
       pcd_claim_inclusion_block_height = pc_claim_inclusion_block_height x,
       pcd_claim_inclusion_merkle_proof = pc_claim_inclusion_merkle_proof x,
       pcd_confirmation_headers = pc_confirmation_headers x, pcd_htlc_tx_index = pc_htlc_tx_index x,
       pcd_claim_tx_index = pc_claim_tx_index x, pcd_htlc_inclusion_header = pc_htlc_inclusion_header x,
       pcd_claim_inclusion_header = pc_claim_inclusion_header x\<rparr>"

definition brd_of :: "hex_codec \<Rightarrow> BatchRedemption \<Rightarrow> BatchRedemptionDto" where
  "brd_of hx x =
     \<lparr>brd_redeem_intent = rid_of (br_redeem_intent x), brd_lock_record = lrd_of (br_lock_record x),
       brd_lock_finalize = lfd_of (br_lock_finalize x),
       brd_payout_confirmation = pcd_of hx (br_payout_confirmation x),
       brd_burn_proof = hx_encode hx (br_burn_proof x)\<rparr>"

definition omd_of :: "OracleMessage \<Rightarrow> OracleMessageDto" where
  "omd_of x =
     \<lparr>omd_domain = om_domain x, omd_oracle_id = om_oracle_id x,
       omd_oracle_set_epoch = om_oracle_set_epoch x, omd_price_epoch = om_price_epoch x,
       omd_timestamp_ms = om_timestamp_ms x, omd_pair = om_pair x, omd_price_e8 = om_price_e8 x,
       omd_source_commitment = om_source_commitment x, omd_signer_pubkey = om_signer_pubkey x,
       omd_signature = om_signature x\<rparr>"

definition ccd_of :: "ClaimClock \<Rightarrow> ClaimClockDto" where
  "ccd_of x =
     \<lparr>ccd_l1_anchor_height = cc_l1_anchor_height x, ccd_l1_anchor_hash = cc_l1_anchor_hash x,
       ccd_l1_anchor_mtp = cc_l1_anchor_mtp x, ccd_l1_anchor_chain_time = cc_l1_anchor_chain_time x,
       ccd_recent_header_chain = cc_recent_header_chain x, ccd_oracle_epoch = cc_oracle_epoch x,
       ccd_selected_oracle_price_e8 = cc_selected_oracle_price_e8 x,
       ccd_max_epoch_lag_sec = cc_max_epoch_lag_sec x,
       ccd_oracle_future_tolerance = cc_oracle_future_tolerance x\<rparr>"

context hex_crate
begin

lemma opd_domain [simp]: "opd_into_domain (opd_of x) = x"
  by (simp add: opd_into_domain_def opd_of_def)

lemma ipd_domain [simp]: "ip_freeze_reason x = None \<Longrightarrow> ipd_into_domain (ipd_of x) = Ok x"
  by (cases "ip_status x") (simp_all add: ipd_into_domain_def ipd_of_def issuer_status.simps)

lemma ond_domain [simp]: "ond_into_domain (ond_of x) = Ok x"
  by (cases "opn_status x") (simp_all add: ond_into_domain_def ond_of_def operator_status.simps)

lemma msd_domain [simp]: "msd_sig (msd_of x) = x"
  by (simp add: msd_sig_def msd_of_def)

lemma dcd_domain [simp]: "dcd_confirmation hx (dcd_of hx x) = x"
  by (simp add: dcd_confirmation_def dcd_of_def decode_encode)

lemma mcd_domain [simp]: "mcd_into_witness hx (mcd_of hx x) = x"
  by (simp add: mcd_into_witness_def mcd_of_def o_def)

lemma mfd_domain [simp]: "mfd_into_witness (mfd_of x) = x"
  by (simp add: mfd_into_witness_def mfd_of_def)

lemma rid_domain [simp]: "rid_into_domain (rid_of x) = x"
  by (simp add: rid_into_domain_def rid_of_def)

lemma lrd_domain [simp]: "lrd_into_domain (lrd_of x) = x"
  by (simp add: lrd_into_domain_def lrd_of_def)

lemma rld_domain [simp]: "rl_lock_exclusion_proof x = [] \<Longrightarrow> rld_into_witness hx (rld_of hx x) = x"
  by (simp add: rld_into_witness_def rld_of_def decode_encode)

lemma lud_domain [simp]: "lud_into_domain (lud_of x) = x"
  by (simp add: lud_into_domain_def lud_of_def)

lemma rfd_domain [simp]:
  "rf_lock_membership_proof x = [] \<Longrightarrow> rf_consumed_exclusion_proof x = [] \<Longrightarrow> rf_refund_exclusion_proof x = []
     \<Longrightarrow> rfd_into_witness (rfd_of x) = x"
  by (simp add: rfd_into_witness_def rfd_of_def)

lemma lfd_domain [simp]: "lfd_into_domain (lfd_of x) = x"
  by (simp add: lfd_into_domain_def lfd_of_def)

lemma rmap_hexbytes [simp]: "rmap (hexbytes hx) (map (hx_encode hx) xs) = Ok xs"
  by (induction xs) simp_all

lemma pcd_domain [simp]: "pcd_into_domain hx (pcd_of hx x) = Ok x"
  by (simp add: pcd_into_domain_def pcd_of_def)

lemma brd_domain [simp]:
  "br_lock_membership_proof x = [] \<Longrightarrow> br_consumed_exclusion_proof x = [] \<Longrightarrow> br_refund_exclusion_proof x = []
     \<Longrightarrow> br_nullifier_exclusion_proof x = [] \<Longrightarrow> brd_into_domain hx (brd_of hx x) = Ok x"
  by (simp add: brd_into_domain_def brd_of_def)

lemma omd_domain [simp]: "omd_into_domain (omd_of x) = x"
  by (simp add: omd_into_domain_def omd_of_def)

lemma ccd_domain [simp]: "claim_clock_ok x \<Longrightarrow> ccd_into_domain (ccd_of x) = Ok x"
  by (simp add: ccd_into_domain_def ccd_of_def header_chain_def claim_clock_ok_def)

end

section \<open>What requests reach\<close>

definition unproved :: "BatchRedemption \<Rightarrow> bool" where
  "unproved r \<longleftrightarrow> br_lock_membership_proof r = [] \<and> br_consumed_exclusion_proof r = []
     \<and> br_refund_exclusion_proof r = [] \<and> br_nullifier_exclusion_proof r = []"

text \<open>
  The operations that have a request: none of the custody hooks, no freeze reason, no Merkle proofs
  of the client's own, an issuer named by its witness, and a clock with its twelve headers.
\<close>

fun wire_op :: "node_op \<Rightarrow> bool" where
  "wire_op (IssuerRegisterOp i) \<longleftrightarrow> ip_freeze_reason i = None"
| "wire_op (OperatorRegisterOp i) \<longleftrightarrow> True"
| "wire_op (MintCommitOp k w) \<longleftrightarrow> k = mc_issuer_id w"
| "wire_op (MintFinalizeOp k w) \<longleftrightarrow> k = mf_issuer_id w"
| "wire_op (RedeemLockOp w) \<longleftrightarrow> rl_lock_exclusion_proof w = []"
| "wire_op (LockRefundOp w) \<longleftrightarrow> rf_lock_membership_proof w = [] \<and> rf_consumed_exclusion_proof w = []
     \<and> rf_refund_exclusion_proof w = []"
| "wire_op (SubmitClaimOp rs ms ks a shard expiry tip) \<longleftrightarrow> claim_clock_ok a \<and> (\<forall>r\<in>set rs. unproved r)"
| "wire_op (FinalizeOp k com as h) \<longleftrightarrow> True"
| "wire_op (ReclaimOp k h) \<longleftrightarrow> True"
| "wire_op _ \<longleftrightarrow> False"

lemma brd_unproved: "brd_into_domain hx d = Ok r \<Longrightarrow> unproved r"
  by (auto simp: brd_into_domain_def unproved_def res_simps)

lemma rmap_unproved: "rmap (brd_into_domain hx) ds = Ok rs \<Longrightarrow> r \<in> set rs \<Longrightarrow> unproved r"
  by (induction ds arbitrary: rs) (auto simp: res_simps dest: brd_unproved)

lemma request_wire_op: "request_op hx req = Ok op \<Longrightarrow> wire_op op"
proof (cases req)
  case (SubmitClaimRequest d)
  moreover assume "request_op hx req = Ok op"
  ultimately obtain rs where "op = SubmitClaimOp rs (map omd_into_domain (scd_oracle_messages d)) (scd_oracle_signer_set d)
      (case ccd_into_domain (scd_l1_anchor d) of Ok a \<Rightarrow> a) (scd_reserve_shard_id d) (scd_claim_expiry_height d) (scd_btc_tip_height d)"
    "rmap (brd_into_domain hx) (scd_redemptions d) = Ok rs" "is_ok (ccd_into_domain (scd_l1_anchor d))"
    by (auto simp: scd_parts_def res_simps)
  then show ?thesis
    using rmap_unproved by (auto simp: ccd_into_domain_def header_chain_def claim_clock_ok_def res_simps split: if_splits)
qed (auto simp: ipd_into_domain_def mcd_into_witness_def mfd_into_witness_def rld_into_witness_def
    rfd_into_witness_def res_simps)

context hex_crate
begin

lemma rmap_brd: "\<forall>r\<in>set rs. unproved r \<Longrightarrow> rmap (brd_into_domain hx) (map (brd_of hx) rs) = Ok rs"
  by (induction rs) (simp_all add: unproved_def)

lemma wire_op_request: "wire_op op \<Longrightarrow> \<exists>req. request_op hx req = Ok op"
proof (cases op)
  case (IssuerRegisterOp i)
  assume "wire_op op"
  with IssuerRegisterOp have "request_op hx (IssuerRegisterRequest (ipd_of i)) = Ok op" by simp
  then show ?thesis ..
next
  case (OperatorRegisterOp i)
  then have "request_op hx (OperatorRegisterRequest (ond_of i)) = Ok op" by simp
  then show ?thesis ..
next
  case (MintCommitOp k w)
  assume "wire_op op"
  with MintCommitOp have "request_op hx (MintCommitRequest (mcd_of hx w)) = Ok op" by (simp add: mcd_of_def [of hx w, THEN arg_cong [of _ _ mcd_issuer_id]])
  then show ?thesis ..
next
  case (MintFinalizeOp k w)
  assume "wire_op op"
  with MintFinalizeOp have "request_op hx (MintFinalizeRequest (mfd_of w)) = Ok op" by (simp add: mfd_of_def [of w, THEN arg_cong [of _ _ mfd_issuer_id]])
  then show ?thesis ..
next
  case (RedeemLockOp w)
  assume "wire_op op"
  with RedeemLockOp have "request_op hx (RedeemLockRequest (rld_of hx w)) = Ok op" by simp
  then show ?thesis ..
next
  case (LockRefundOp w)
  assume "wire_op op"
  with LockRefundOp have "request_op hx (LockRefundRequest (rfd_of w)) = Ok op" by simp
  then show ?thesis ..
next
  case (SubmitClaimOp rs ms ks a shard expiry tip)
  assume "wire_op op"
  with SubmitClaimOp have "request_op hx (SubmitClaimRequest \<lparr>scd_redemptions = map (brd_of hx) rs,
      scd_oracle_messages = map omd_of ms, scd_oracle_signer_set = ks, scd_l1_anchor = ccd_of a,
      scd_reserve_shard_id = shard, scd_claim_expiry_height = expiry, scd_btc_tip_height = tip\<rparr>) = Ok op"
    by (simp add: scd_parts_def rmap_brd o_def)
  then show ?thesis ..
next
  case (FinalizeOp k com as h)
  then have "request_op hx (FinalizeClaimRequest \<lparr>fcd_claim_id = k, fcd_committee_threshold = rcm_threshold com,
      fcd_committee_pubkeys = rcm_pubkeys com,
      fcd_approvals = map (\<lambda>a. \<lparr>apd_signer_pubkey = ms_signer_pubkey a, apd_signature = ms_signature a\<rparr>) as,
      fcd_current_height = h\<rparr>) = Ok op"
    by (simp add: fcd_committee_def fcd_approvals_list_def o_def map_idI)
  then show ?thesis ..
next
  case (ReclaimOp k h)
  then have "request_op hx (ReclaimStaleClaimRequest \<lparr>rcd_claim_id = k, rcd_current_height = h\<rparr>) = Ok op" by simp
  then show ?thesis ..
qed auto

end

section \<open>Running the service\<close>

inductive served :: "crypto \<Rightarrow> hex_codec \<Rightarrow> service \<Rightarrow> bool" for C hx where
  served_start: "served C hx (router (main_node C))"
| served_submit: "served C hx sv \<Longrightarrow> served C hx (snd (submit_request C hx sv req))"

lemma converted_snd: "snd (converted m n f) = (case m of Ok x \<Rightarrow> snd (f x) | _ \<Rightarrow> n)"
  by (cases m) (simp_all add: refused_by_node_def)

lemma wire_allowed: "wire_op op \<Longrightarrow> op_allowed n op"
  by (cases op) simp_all

lemma submit_node:
  "sv_node (snd (submit_request C hx sv req)) =
     (if sv_poisoned sv then sv_node sv else snd (apply_to C hx (sv_node sv) req))"
  by (simp add: submit_request_def lock_unwrap_def split: prod.splits)

lemma apply_reachable:
  assumes "node_reachable C n"
  shows "node_reachable C (snd (apply_to C hx n req))"
  using assms reachable_step [OF assms wire_allowed [OF request_wire_op]]
  by (auto simp: apply_to_performs converted_snd split: res.splits)

lemma served_reachable: "served C hx sv \<Longrightarrow> node_reachable C (sv_node sv)"
proof (induction rule: served.induct)
  case served_start
  then show ?case unfolding router_def main_node_def by (simp add: reachable_genesis)
next
  case (served_submit sv req)
  then show ?case by (simp add: submit_node apply_reachable)
qed

text \<open>What a request is answered: what the node made of the operation it stands for.\<close>

lemma submitted:
  assumes "request_op hx req = Ok op" and "\<not> sv_poisoned sv"
  shows "submit_request C hx sv req =
    (outcome hx (map_err NodeRefused (fst (perform_op C op (sv_node sv)))),
     \<lparr>sv_node = snd (perform_op C op (sv_node sv)), sv_poisoned = (fst (perform_op C op (sv_node sv)) = Panic)\<rparr>)"
  using assms
  by (simp add: submit_request_def lock_unwrap_def apply_to_performs refused_by_node_def res_simps)

lemma rmap_hexbytes_err: "rmap (hexbytes hx) ss = Err e \<Longrightarrow> e = BadHexString"
  by (induction ss) (auto simp: hexbytes_def res_simps)

lemma conversion_not_refused: "request_op hx req \<noteq> Err (NodeRefused x)"
proof -
  have r: "rmap (brd_into_domain hx) ds \<noteq> Err (NodeRefused x)" for ds
    by (induction ds) (auto simp: brd_into_domain_def pcd_into_domain_def hexbytes_def res_simps
        dest!: rmap_hexbytes_err)
  show ?thesis
    by (cases req) (auto simp: ipd_into_domain_def ond_into_domain_def scd_parts_def ccd_into_domain_def
        header_chain_def issuer_status.simps operator_status.simps r res_simps split: if_splits)
qed

lemma answer_BadRequest:
  assumes "served C hx sv" "submit_request C hx sv req = (Ok (BadRequest e), sv')"
  shows "e \<noteq> NodeRefused InvariantViolation
    \<and> sv_node sv' = (sv_node sv)\<lparr>nd_reserve := nd_reserve (sv_node sv')\<rparr>
    \<and> custody_view (nd_reserve (sv_node sv')) = custody_view (nd_reserve (sv_node sv))"
proof -
  let ?n = "sv_node sv"
  have live: "\<not> sv_poisoned sv"
    using assms(2) by (auto simp: submit_request_def lock_unwrap_def split: if_splits)
  have inv: "node_inv C ?n" by (rule reachable_inv [OF served_reachable [OF assms(1)]])
  have out: "outcome hx (fst (apply_to C hx ?n req)) = Ok (BadRequest e)" "sv_node sv' = snd (apply_to C hx ?n req)"
    using assms(2) live by (auto simp: submit_request_def lock_unwrap_def split: prod.splits)
  then have e: "fst (apply_to C hx ?n req) = Err e" by (cases "fst (apply_to C hx ?n req)") simp_all
  show ?thesis
  proof (cases "request_op hx req")
    case (Ok op)
    let ?m = "perform_op C op ?n"
    have m: "sv_node sv' = snd ?m" "map_err NodeRefused (fst ?m) = Err e"
      using out e Ok by (simp_all add: apply_to_performs refused_by_node_def)
    have safe: "safe C ?n (flow_of op ?n) ?m"
      by (rule perform_op_safe [OF inv wire_allowed [OF request_wire_op [OF Ok]]])
    from m(2) obtain e' where e': "fst ?m = Err e'" "e = NodeRefused e'" by (auto simp: res_simps)
    then have u: "node_inv C (snd ?m)" "untouched ?n (snd ?m)" "e' \<noteq> InvariantViolation"
      using safe by (auto simp: safe_def)
    have "custody_view (nd_reserve (snd ?m)) = custody_view (nd_reserve ?n)"
      using inv u(1) untouched_state [OF u(2)] by (simp add: node_inv_def custody_inv_def)
    moreover have "snd ?m = ?n\<lparr>nd_reserve := nd_reserve (snd ?m)\<rparr>" using u(2) by (simp only: untouched_def)
    ultimately show ?thesis using u(3) e'(2) m(1) by simp
  next
    case (Err e')
    then show ?thesis using out e conversion_not_refused [of hx req] by (auto simp: apply_to_performs)
  next
    case Panic
    then show ?thesis using e by (simp add: apply_to_performs)
  qed
qed

text \<open>An accepted operation returns the new root, but a submitted claim its identifier.\<close>

lemma node_then_accepts:
  "node_then m f = (Ok y, n') \<longleftrightarrow> (\<exists>x k. m = (Ok x, k) \<and> f x k = (Ok y, n'))"
  by (cases "(m, f)" rule: node_then.cases) auto

lemma commit_root: "commit C n s = (Ok h, n') \<Longrightarrow> h = node_state_root_hash C n' \<and> n' = n\<lparr>nd_state := s\<rparr>"
  by (auto simp: commit_def Let_def split: if_splits)

lemma root_of_state: "nd_state n = nd_state n' \<Longrightarrow> node_state_root_hash C n = node_state_root_hash C n'"
  by (simp add: node_state_root_hash_def)

lemma accepted_value:
  assumes "wire_op op" "perform_op C op n = (Ok h, n')"
  shows "case op of
      SubmitClaimOp rs ms ks a shard expiry tip \<Rightarrow> map_option cl_status (nd_pending_claims n' h) = Some ClaimPending
    | _ \<Rightarrow> h = node_state_root_hash C n'"
  using assms
  by (cases op) (auto simp: issuer_register_def operator_register_def mint_commit_def mint_finalize_def redeem_lock_def
      lock_refund_def finalize_claim_def reclaim_stale_claim_def submit_claim_def prepare_claim_def node_then_accepts Let_def
      res_simps case_prod_unfold dest!: commit_root intro: root_of_state)

section \<open>A poisoned service\<close>

definition serve_all :: "crypto \<Rightarrow> hex_codec \<Rightarrow> TransitionRequest list \<Rightarrow> service \<Rightarrow> service" where
  "serve_all C hx reqs sv = fold (\<lambda>req sv. snd (submit_request C hx sv req)) reqs sv"

lemma poisoned_stays:
  assumes "sv_poisoned sv"
  shows "serve_all C hx reqs sv = sv"
proof -
  have "snd (submit_request C hx sv req) = sv" for req
    using assms by (simp add: submit_request_def lock_unwrap_def)
  then show ?thesis unfolding serve_all_def by (induction reqs) simp_all
qed

lemma poisoned_panics:
  assumes "sv_poisoned sv"
  shows "fst (submit_request C hx sv req) = Panic" "simulate_request C hx sv req = Panic"
    "get_state C hx sv = Panic" "get_pending_claims hx sv = Panic"
  using assms
  by (simp_all add: submit_request_def simulate_request_def get_state_def get_pending_claims_def lock_unwrap_def)

lemma empty_batch_panics:
  "node_claim_price C n ms ks a = Ok price \<Longrightarrow> submit_claim C n [] ms ks a shard expiry tip = (Panic, n)"
  by (simp add: submit_claim_def prepare_claim_def get_at_def)

section \<open>Properties\<close>

text \<open>
  C31: The operations an HTTP client can ask of the node are exactly the nine transitions with no
  freeze reason and no Merkle proofs of the client's own, under the issuer the witness names and a
  clock of twelve headers, and never a custody hook; a request does to the node what its operation
  does, and answers what it answers.
\<close>

theorem wire_operations:
  "(\<exists>req. request_op text_codec req = Ok op) = wire_op op \<and>
   (request_op hx req' = Ok op' \<longrightarrow>
      apply_to C hx n req' = (map_err NodeRefused (fst (perform_op C op' n)), snd (perform_op C op' n)))"
  using request_wire_op text_hex.wire_op_request by (auto simp: apply_to_performs refused_by_node_def)

theorem wire_operations_witness:
  "apply_to const_crypto text_codec (main_node const_crypto) (ReclaimStaleClaimRequest \<lparr>rcd_claim_id = fill 0, rcd_current_height = 7\<rparr>)
     = (map_err NodeRefused (fst (perform_op const_crypto (ReclaimOp (fill 0) 7) (main_node const_crypto))),
        snd (perform_op const_crypto (ReclaimOp (fill 0) 7) (main_node const_crypto)))"
  using wire_operations [of "ReclaimOp (fill 0) 7" text_codec
      "ReclaimStaleClaimRequest \<lparr>rcd_claim_id = fill 0, rcd_current_height = 7\<rparr>" "ReclaimOp (fill 0) 7" const_crypto "main_node const_crypto"]
  by simp

text \<open>
  C32: Whatever requests the service has taken, one it answers with Bad Request did not find the node
  inconsistent, and left all of the node as it was but the custody backend, whose totals are as they were.
\<close>

theorem bad_request_untouched:
  assumes "served C hx sv" and "submit_request C hx sv req = (Ok (BadRequest e), sv')"
  shows "e \<noteq> NodeRefused InvariantViolation
    \<and> sv_node sv' = (sv_node sv)\<lparr>nd_reserve := nd_reserve (sv_node sv')\<rparr>
    \<and> custody_view (nd_reserve (sv_node sv')) = custody_view (nd_reserve (sv_node sv))"
  using assms by (rule answer_BadRequest)

theorem bad_request_untouched_witness:
  "\<exists>sv'. submit_request const_crypto text_codec (router (main_node const_crypto))
     (ReclaimStaleClaimRequest \<lparr>rcd_claim_id = fill 0, rcd_current_height = 7\<rparr>)
       = (Ok (BadRequest (NodeRefused NodeError.UnknownClaim)), sv')
     \<and> sv_node sv' = (main_node const_crypto)\<lparr>nd_reserve := nd_reserve (sv_node sv')\<rparr>"
proof -
  let ?sv = "router (main_node const_crypto)"
  let ?req = "ReclaimStaleClaimRequest \<lparr>rcd_claim_id = fill 0, rcd_current_height = 7\<rparr>"
  obtain sv' where r: "submit_request const_crypto text_codec ?sv ?req
      = (Ok (BadRequest (NodeRefused NodeError.UnknownClaim)), sv')"
    by (simp add: submit_request_def lock_unwrap_def router_def refused_by_node_def reclaim_stale_claim_def
        main_node_def genesis_node_def)
  from bad_request_untouched [OF served_start r] r show ?thesis by (simp add: router_def)
qed

text \<open>
  C33: A claim of no redemptions under any accepted oracle price panics while the node is locked: the
  request fails, and from then on every request, dry run and query panics, whatever comes between.
\<close>

theorem empty_claim_poisons:
  assumes "request_op hx req = Ok (SubmitClaimOp [] ms ks a shard expiry tip)"
    and "\<not> sv_poisoned sv" and "node_claim_price C (sv_node sv) ms ks a = Ok price"
  shows "fst (submit_request C hx sv req) = Panic \<and>
    (let later = serve_all C hx reqs (snd (submit_request C hx sv req)) in
      fst (submit_request C hx later req') = Panic \<and> simulate_request C hx later req' = Panic
      \<and> get_state C hx later = Panic \<and> get_pending_claims hx later = Panic)"
  using submitted [OF assms(1,2), of C] empty_batch_panics [OF assms(3), of shard expiry tip]
  by (simp add: poisoned_stays poisoned_panics)

theorem empty_claim_poisons_witness:
  "\<exists>req. get_state const_crypto text_codec (serve_all const_crypto text_codec [req]
     (snd (submit_request const_crypto text_codec (router ((main_node const_crypto)\<lparr>nd_state := sample_state\<rparr>)) req))) = Panic"
proof -
  let ?sv = "router ((main_node const_crypto)\<lparr>nd_state := sample_state\<rparr>)"
  let ?a = "sample_clock\<lparr>cc_recent_header_chain := replicate 12 (fill 0)\<rparr>"
  have clock: "claim_clock_ok ?a" by (simp add: claim_clock_ok_def sample_clock_def)
  obtain req where req: "request_op text_codec req =
      Ok (SubmitClaimOp [] sample_messages (map fill [1, 2, 3]) ?a 0 100 6)"
    using text_hex.wire_op_request [of "SubmitClaimOp [] sample_messages (map fill [1, 2, 3]) ?a 0 100 6"] clock
    by auto
  have price: "node_claim_price const_crypto (sv_node ?sv) sample_messages (map fill [1, 2, 3]) ?a
      = Ok 10000000000000"
    using sample_aggregate
    by (simp add: node_claim_price_def router_def sample_signatures sample_oracle_params_def sample_state_def
        sample_clock_def MTP_LAG_OFFSET_SEC_def)
  have "get_state const_crypto text_codec (serve_all const_crypto text_codec [req]
      (snd (submit_request const_crypto text_codec ?sv req))) = Panic"
    using empty_claim_poisons [OF req _ price, of "[req]" req] by (simp add: router_def Let_def)
  then show ?thesis ..
qed

end
