(* ===== verification/Challenger.thy ===== *)
theory Challenger
  imports Claim
begin

text \<open>
  The challenger (\<^verbatim>\<open>satusd-challenger/src/lib.rs\<close>): it inspects the data availability bundle of a
  claim and runs the lineage and payout verifiers again.
\<close>

section \<open>Inspecting a claim\<close>

definition REDEEM_INTENTS :: u8 where "REDEEM_INTENTS = 0x01"
definition BTC_PAYOUT_CONFIRMATIONS :: u8 where "BTC_PAYOUT_CONFIRMATIONS = 0x05"
definition UNIVERSE_BURN_PROOFS :: u8 where "UNIVERSE_BURN_PROOFS = 0x07"
definition ORACLE_MESSAGES :: u8 where "ORACLE_MESSAGES = 0x08"

definition LINEAGE_SECTION :: u8 where "LINEAGE_SECTION = UNIVERSE_BURN_PROOFS"

datatype Alert =
    DaBundleMissing
  | LiveDaRootMismatch b32 b32
  | MissingSection u8
  | LineageAlert
  | SpvAlert SpvError

record Verdict =
  vd_alerts :: "Alert list"

definition verdict_clean :: "Verdict \<Rightarrow> bool" where
  "verdict_clean v \<longleftrightarrow> vd_alerts v = []"

definition REQUIRED_SECTIONS :: "u8 list" where
  "REQUIRED_SECTIONS = [REDEEM_INTENTS, BTC_PAYOUT_CONFIRMATIONS, LINEAGE_SECTION, ORACLE_MESSAGES]"

definition inspect :: "crypto \<Rightarrow> b32 \<Rightarrow> LiveDABundle option \<Rightarrow> Verdict" where
  "inspect C committed_live_da_root bundle =
     (case bundle of
        None \<Rightarrow> \<lparr>vd_alerts = [DaBundleMissing]\<rparr>
      | Some bundle \<Rightarrow>
          let recomputed = live_da_root C bundle;
              alerts = (if recomputed \<noteq> committed_live_da_root
                        then [LiveDaRootMismatch committed_live_da_root recomputed] else [])
          in \<lparr>vd_alerts = alerts @ map MissingSection (filter (\<lambda>id'. \<not> has_section bundle id') REQUIRED_SECTIONS)\<rparr>)"

definition recompute_lineage :: "crypto \<Rightarrow> bytes \<Rightarrow> (Alert, unit) res" where
  "recompute_lineage C proof_file_bytes =
     rbind (map_err (\<lambda>_. LineageAlert) (parse_proof_file C proof_file_bytes)) (\<lambda>file.
     rbind (map_err (\<lambda>_. LineageAlert) (parsed file)) (\<lambda>proofs.
     rbind (map_err (\<lambda>_. LineageAlert) (verify_lineage C proofs)) (\<lambda>_. Ok ())))"

definition recompute_spv ::
  "crypto \<Rightarrow> BtcPayoutConfirmation \<Rightarrow> b32 \<Rightarrow> nat \<Rightarrow> u32 \<Rightarrow> (Alert, unit) res" where
  "recompute_spv C confirmation payment_hash min_depth btc_tip_height =
     map_err SpvAlert (verify_payout_confirmation C confirmation payment_hash min_depth btc_tip_height)"

section \<open>What the verdict says\<close>

lemma inspect_clean_iff:
  "verdict_clean (inspect C root bundle) \<longleftrightarrow>
     (\<exists>b. bundle = Some b \<and> live_da_root C b = root \<and> (\<forall>i\<in>set REQUIRED_SECTIONS. has_section b i))"
  by (auto simp: inspect_def verdict_clean_def Let_def filter_empty_conv split: option.splits)

lemma root_of_sections: "live_da_root C (bundle_new i e ss) = live_da_root C (bundle_new j f ss)"
  by (simp add: live_da_root_def bundle_new_def)

lemma claim_sections_present:
  "i \<in> set REQUIRED_SECTIONS \<Longrightarrow> has_section (bundle_new c e (claim_sections rs ms)) i"
  by (auto simp: has_section_def bundle_new_def claim_sections_def Let_def list_ex_iff REQUIRED_SECTIONS_def
      REDEEM_INTENTS_def BTC_PAYOUT_CONFIRMATIONS_def LINEAGE_SECTION_def UNIVERSE_BURN_PROOFS_def ORACLE_MESSAGES_def)

lemma honest_bundle_clean:
  "verdict_clean (inspect C (live_da_root_for_claim C rs ms) (Some (bundle_new c e (claim_sections rs ms))))"
  unfolding inspect_clean_iff
  using root_of_sections [of C c e "claim_sections rs ms"] claim_sections_present
  by (auto simp: live_da_root_for_claim_def)

lemma burn_binding_lineage: "check_burn_proof_binding C b fin family net = Ok () \<Longrightarrow> recompute_lineage C b = Ok ()"
  by (auto simp: check_burn_proof_binding_def recompute_lineage_def res_simps)

lemma redemption_recomputes:
  assumes "redemption_valid C prev claim price tip r"
  shows "recompute_lineage C (br_burn_proof r) = Ok ()"
    and "recompute_spv C (br_payout_confirmation r) (ri_payment_hash (br_redeem_intent r))
      (unat BTC_CLAIM_CONFIRMATION_DEPTH) tip = Ok ()"
proof -
  have p: "redemption_payout_checks C prev claim tip r = Ok ()" using assms by (simp add: redemption_valid_def)
  then show "recompute_lineage C (br_burn_proof r) = Ok ()"
    by (auto simp: redemption_payout_checks_def res_simps Let_def intro: burn_binding_lineage)
  from p show "recompute_spv C (br_payout_confirmation r) (ri_payment_hash (br_redeem_intent r))
      (unat BTC_CLAIM_CONFIRMATION_DEPTH) tip = Ok ()"
    by (auto simp: redemption_payout_checks_def recompute_spv_def res_simps Let_def)
qed

lemma live_root_is_claimed:
  assumes "verify_reserve_claim_finalize C prev new w = Ok ()"
  shows "sr_live_da_root new = live_da_root_for_claim C (cw_redemptions w) (cw_oracle_messages w)"
proof -
  from assms obtain price st supplied reserved where
    "claim_accounting C prev w st = Ok (rc_reimbursement_sats (cw_claim w), supplied, reserved)"
    "claim_successor C prev new w price st supplied reserved"
    by (rule verify_reserve_claim_finalize_Ok)
  then show ?thesis using claim_accounting_Ok(7) [of C prev w st] by (auto simp: claim_successor_def)
qed

section \<open>Properties\<close>

text \<open>
  C29: No honest claim is challenged: when a reserve claim passed the verifier and its bundle is
  published, the challenger's inspection against the root of the new state raises no alert, and the
  lineage and the payout of every redemption in it recompute.
\<close>

theorem accepted_claim_unchallenged:
  assumes "verify_reserve_claim_finalize C prev new w = Ok ()"
  shows "verdict_clean (inspect C (sr_live_da_root new)
      (Some (bundle_new claim_id epoch (claim_sections (cw_redemptions w) (cw_oracle_messages w)))))
    \<and> (\<forall>r\<in>set (cw_redemptions w). recompute_lineage C (br_burn_proof r) = Ok ()
        \<and> recompute_spv C (br_payout_confirmation r) (ri_payment_hash (br_redeem_intent r))
             (unat BTC_CLAIM_CONFIRMATION_DEPTH) (cw_btc_tip_height w) = Ok ())"
proof -
  from claim_effect [OF assms] obtain price where
    "\<forall>r\<in>set (cw_redemptions w). redemption_valid C prev (cw_claim w) price (cw_btc_tip_height w) r" by blast
  then show ?thesis
    using live_root_is_claimed [OF assms] honest_bundle_clean redemption_recomputes by simp blast
qed

theorem accepted_claim_unchallenged_witness:
  "\<exists>new. verify_reserve_claim_finalize const_crypto sample_state new sample_claim_witness = Ok ()
     \<and> verdict_clean (inspect const_crypto (sr_live_da_root new)
         (Some (bundle_new (fill 0) 7 (claim_sections [sample_redemption] sample_messages))))
     \<and> recompute_lineage const_crypto (br_burn_proof sample_redemption) = Ok ()"
proof -
  obtain new where a: "verify_reserve_claim_finalize const_crypto sample_state new sample_claim_witness = Ok ()"
    using sample_claim_accepted by blast
  have w: "cw_redemptions sample_claim_witness = [sample_redemption]"
    "cw_oracle_messages sample_claim_witness = sample_messages"
    by (simp_all add: sample_claim_witness_def)
  from a accepted_claim_unchallenged [OF a, of "fill 0" 7] show ?thesis by (auto simp: w)
qed

end
