(* ===== verification/Mirror.thy ===== *)
theory Mirror
  imports Dto Challenger
begin

text \<open>
  The data availability mirror (\<^verbatim>\<open>satusd-state-node/src/da_mirror.rs\<close>): bundles uploaded under their
  root and served from there, and what the challenger reads from it.
\<close>

section \<open>The mirror\<close>

type_synonym mirror = "b32 \<rightharpoonup> bytes"

datatype mirror_answer =
    BadRootHex
  | BundleUndecodable
  | RecomputedRootDiffers
  | BundleStored
  | NoBundle
  | BundleFound bytes

definition parse_root :: "hex_codec \<Rightarrow> bytes \<Rightarrow> b32 option" where
  "parse_root hx s = Option.bind (hx_decode hx s) arr_try"

definition get_bundle :: "hex_codec \<Rightarrow> mirror \<Rightarrow> bytes \<Rightarrow> mirror_answer" where
  "get_bundle hx m root_hex =
     (case parse_root hx root_hex of
        None \<Rightarrow> BadRootHex
      | Some root \<Rightarrow> (case m root of Some b \<Rightarrow> BundleFound b | None \<Rightarrow> NoBundle))"

definition put_bundle :: "crypto \<Rightarrow> hex_codec \<Rightarrow> mirror \<Rightarrow> bytes \<Rightarrow> bytes \<Rightarrow> (unit, mirror_answer) res \<times> mirror" where
  "put_bundle C hx m root_hex body =
     (case parse_root hx root_hex of
        None \<Rightarrow> (Ok BadRootHex, m)
      | Some root \<Rightarrow>
          (case decode body of
             Panic \<Rightarrow> (Panic, m)
           | Err e \<Rightarrow> (Ok BundleUndecodable, m)
           | Ok (bundle, declared) \<Rightarrow>
               if live_da_root C bundle \<noteq> root then (Ok RecomputedRootDiffers, m)
               else (Ok BundleStored, m(root \<mapsto> body))))"

definition mirror_router :: mirror where
  "mirror_router = Map.empty"

section \<open>What a mirror holds\<close>

definition mirror_inv :: "crypto \<Rightarrow> mirror \<Rightarrow> bool" where
  "mirror_inv C m \<longleftrightarrow> (\<forall>root body. m root = Some body \<longrightarrow>
     (\<exists>b declared. decode body = Ok (b, declared) \<and> live_da_root C b = root))"

definition uploads :: "crypto \<Rightarrow> hex_codec \<Rightarrow> (bytes \<times> bytes) list \<Rightarrow> mirror \<Rightarrow> mirror" where
  "uploads C hx reqs m = fold (\<lambda>(path, body) m. snd (put_bundle C hx m path body)) reqs m"

lemma put_inv: "mirror_inv C m \<Longrightarrow> mirror_inv C (snd (put_bundle C hx m path body))"
  by (auto simp: mirror_inv_def put_bundle_def split: option.splits res.splits)

lemma uploads_inv: "mirror_inv C m \<Longrightarrow> mirror_inv C (uploads C hx reqs m)"
  unfolding uploads_def by (induction reqs arbitrary: m) (auto simp: put_inv)

lemma put_keeps: "m root \<noteq> None \<Longrightarrow> snd (put_bundle C hx m path body) root \<noteq> None"
  by (auto simp: put_bundle_def split: option.splits res.splits)

lemma uploads_keep: "m root \<noteq> None \<Longrightarrow> uploads C hx reqs m root \<noteq> None"
  unfolding uploads_def
proof (induction reqs arbitrary: m)
  case (Cons r reqs)
  then show ?case using put_keeps [of m root C hx "fst r" "snd r"] by (simp add: case_prod_unfold)
qed simp

lemma mirror_router_inv: "mirror_inv C mirror_router"
  by (simp add: mirror_inv_def mirror_router_def)

lemma decoded_size:
  assumes "decode h = Ok (b, root)"
  shows "length (sections_wire b) < 2 ^ 32"
proof -
  have size: "length (drop 85 h) = unat (from_be (sub h 81 85) :: u32)"
    and loop: "section_loop (drop 85 h) 0 [] = Ok (da_sections b)"
    using assms unfolding decode_def Let_def by (auto simp: res_simps split: if_splits)
  have "sections_wire b = drop 85 h"
    using section_wire_loop [OF loop] by (simp add: sections_wire_def)
  then show ?thesis unfolding size using unsigned_less [of "from_be (sub h 81 85) :: u32"] size by simp
qed

text \<open>What is served in place of an uploaded bundle has its sections, or is a collision.\<close>

lemma served_in_place:
  fixes reqs :: "(bytes \<times> bytes) list"
  assumes "mirror_inv C m" "length (sections_wire b) < 2 ^ 32" "parse_root hx path = Some (live_da_root C b)"
  defines "m' \<equiv> uploads C hx ((path, bundle_encode C b) # reqs) m"
  shows "\<exists>body b' declared. get_bundle hx m' path = BundleFound body \<and> decode body = Ok (b', declared)
    \<and> live_da_root C b' = live_da_root C b
    \<and> (da_sections b' = da_sections b \<or> sha_collides C (da_collision C b b'))"
proof -
  have put: "snd (put_bundle C hx m path (bundle_encode C b)) = m(live_da_root C b \<mapsto> bundle_encode C b)"
    using assms(3) by (simp add: put_bundle_def bundle_encode_def decode_encode_with_root [OF assms(2)])
  have "uploads C hx reqs (m(live_da_root C b \<mapsto> bundle_encode C b)) (live_da_root C b) \<noteq> None"
    by (rule uploads_keep) simp
  then obtain body where body: "m' (live_da_root C b) = Some body"
    using put by (auto simp: m'_def uploads_def)
  have "mirror_inv C m'" unfolding m'_def by (rule uploads_inv [OF assms(1)])
  then obtain b' declared where b': "decode body = Ok (b', declared)" "live_da_root C b' = live_da_root C b"
    using body unfolding mirror_inv_def by blast
  have "length (sections_wire b') < 2 ^ 32"
    by (rule decoded_size [OF b'(1)])
  then have "da_sections b' = da_sections b \<or> sha_collides C (da_collision C b b')"
    using live_da_root_binds [of C b b'] b'(2) assms(2) by fastforce
  then show ?thesis using body b' assms(3) by (auto simp: get_bundle_def)
qed

lemma same_sections_clean:
  "da_sections b' = da_sections b \<Longrightarrow> verdict_clean (inspect C root (Some b')) = verdict_clean (inspect C root (Some b))"
  by (simp add: inspect_clean_iff live_da_root_def has_section_def)

text \<open>The header of a bundle is not under its root: another claim's name takes its place.\<close>

lemma header_replaced:
  assumes "length (sections_wire (bundle_new i e ss)) < 2 ^ 32"
    and "parse_root hx path = Some (live_da_root C (bundle_new i e ss))"
  shows "get_bundle hx (uploads C hx [(path, bundle_encode C (bundle_new i e ss)),
      (path, bundle_encode C (bundle_new j f ss))] m) path = BundleFound (bundle_encode C (bundle_new j f ss))"
proof -
  have "length (sections_wire (bundle_new j f ss)) < 2 ^ 32"
    using assms(1) by (simp add: sections_wire_def bundle_new_def)
  then show ?thesis
    using assms root_of_sections [of C i e ss j f]
    by (simp add: uploads_def put_bundle_def bundle_encode_def decode_encode_with_root get_bundle_def)
qed

section \<open>Properties\<close>

text \<open>
  C30: Once an accepted claim's bundle is uploaded, no later upload takes the evidence away: whatever
  the mirror then serves under the claim's root decodes, and the challenger finds nothing to flag in
  it, unless it exhibits a SHA-256 collision.
\<close>

theorem published_claim_stays_clean:
  assumes "verify_reserve_claim_finalize C prev new w = Ok ()"
    and "b = bundle_new claim_id epoch (claim_sections (cw_redemptions w) (cw_oracle_messages w))"
    and "length (sections_wire b) < 2 ^ 32" and "parse_root hx path = Some (sr_live_da_root new)"
  shows "\<exists>body b' declared.
     get_bundle hx (uploads C hx (earlier @ (path, bundle_encode C b) # later) mirror_router) path = BundleFound body
     \<and> decode body = Ok (b', declared)
     \<and> (verdict_clean (inspect C (sr_live_da_root new) (Some b')) \<or> sha_collides C (da_collision C b b'))"
proof -
  have clean: "verdict_clean (inspect C (sr_live_da_root new) (Some b))"
    unfolding assms(2) live_root_is_claimed [OF assms(1)] by (rule honest_bundle_clean)
  then have root: "live_da_root C b = sr_live_da_root new" by (simp add: inspect_clean_iff)
  have inv: "mirror_inv C (uploads C hx earlier mirror_router)"
    by (rule uploads_inv [OF mirror_router_inv])
  have later: "uploads C hx (earlier @ (path, bundle_encode C b) # later) mirror_router
      = uploads C hx ((path, bundle_encode C b) # later) (uploads C hx earlier mirror_router)"
    by (simp add: uploads_def)
  obtain body b' declared where
    b': "get_bundle hx (uploads C hx ((path, bundle_encode C b) # later) (uploads C hx earlier mirror_router)) path
      = BundleFound body" "decode body = Ok (b', declared)"
    "da_sections b' = da_sections b \<or> sha_collides C (da_collision C b b')"
    using served_in_place [OF inv assms(3), of hx path later] assms(4) root by auto
  have "verdict_clean (inspect C (sr_live_da_root new) (Some b')) \<or> sha_collides C (da_collision C b b')"
    using b'(3) same_sections_clean [of b' b C] clean by blast
  with b'(1,2) show ?thesis unfolding later by blast
qed

lemma sample_sections_size:
  "length (sections_wire (bundle_new (fill 0) 7 (claim_sections [sample_redemption] sample_messages))) < 2 ^ 32"
proof -
  have burn: "length sample_burn_proof \<le> 2100"
    using sample_proof_blob(2) length_write_bigsize_le [of "word_of_nat (length (reencode sample_proof))"]
      length_write_bigsize_le [of 1]
    by (simp add: sample_burn_proof_def written_file_def FILE_MAGIC_def ascii_def)
  then show ?thesis
    by (simp add: sections_wire_def bundle_new_def claim_sections_def section_wire_def sample_redemption_def
        sample_messages_def sample_defs sample_payout_def encode_RedeemIntent_def encode_LockRecord_def
        encode_BtcPayoutConfirmation_def encode_LockFinalizeRecord_def encode_OracleMessage_def encode_OutPoint_def
        enc_simps encoder_new_def)
      (simp add: opt_bytes_def seq_bytes_def len_bytes_def ser_tx_def ser_in_def sample_tx_in_def compact_size_def
        length_concat map_replicate sum_list_replicate)
qed

theorem published_claim_stays_clean_witness:
  "\<exists>body b' declared. get_bundle \<lparr>hx_encode = (\<lambda>b. b), hx_decode = Some\<rparr>
     (uploads const_crypto \<lparr>hx_encode = (\<lambda>b. b), hx_decode = Some\<rparr> [(bs (fill 0 :: b32), bundle_encode const_crypto
        (bundle_new (fill 0) 7 (claim_sections [sample_redemption] sample_messages))), ([], [])] mirror_router)
     (bs (fill 0 :: b32)) = BundleFound body \<and> decode body = Ok (b', declared)"
proof -
  obtain new where a: "verify_reserve_claim_finalize const_crypto sample_state new sample_claim_witness = Ok ()"
    using sample_claim_accepted by blast
  have w: "cw_redemptions sample_claim_witness = [sample_redemption]"
    "cw_oracle_messages sample_claim_witness = sample_messages"
    by (simp_all add: sample_claim_witness_def)
  have "sr_live_da_root new = fill 0"
    using live_root_is_claimed [OF a] by (simp add: live_da_root_for_claim_def live_da_root_def)
  then have path: "parse_root \<lparr>hx_encode = (\<lambda>b. b), hx_decode = Some\<rparr> (bs (fill 0 :: b32)) = Some (sr_live_da_root new)"
    by (simp add: parse_root_def arr_try_def)
  show ?thesis
    using published_claim_stays_clean [OF a refl, of "fill 0" 7, unfolded w, OF sample_sections_size path, of "[]" "[([], [])]"]
    by simp blast
qed

end
