(* ===== verification/Spec2Isabelle.thy ===== *)
theory Spec2Isabelle
  imports Node Dispute Allot Market Vault Rail0 Directory Daemon Tlock Script Wire Mirror
begin

text \<open>
  \<^bold>\<open>The program.\<close> SatUSD issues a dollar token on Taproot Assets against bitcoin held in custody.
  The Rust workspace under \<^verbatim>\<open>src/crates\<close> holds the state machine that an operator runs and that a
  prover and a challenger re-execute. A state is the record \<^verbatim>\<open>StateRoot\<close>; each transition takes a
  witness, checks it against the roots in the state before and computes the state after.

  \<^bold>\<open>How the parts interact.\<close> \<^verbatim>\<open>StateNode\<close> (\<open>Node\<close>) owns the sparse Merkle trees, the maps of issuers,
  operators and pending claims, the state and a custody backend. Each of its operations builds a
  witness from its own trees, calls the verifier of the transition (\<open>Mint\<close>, \<open>Redeem\<close>, \<open>Registry\<close>,
  \<open>Claim\<close>), commits the state, moves sats in custody (\<open>Reserve\<close>) and compares custody with the state.
  The verifiers use the Merkle paths of \<open>Smt\<close>, the hashes of \<open>Poseidon\<close> and \<open>Derive\<close>, the tier of
  \<open>Tier\<close>, the bitcoin inclusion proofs of \<open>Spv\<close>, the asset proofs of \<open>TaProof\<close> and \<open>Mssmt\<close>, the price
  of \<open>Oracle\<close> and the data availability root of \<open>Da\<close>. \<open>Dispute\<close> re-executes a claimed value and runs
  the optimistic backend.

  \<^bold>\<open>Theories.\<close> \<open>Prelude\<close>, \<open>Bytes\<close>: results with panics, checked arithmetic, byte arrays. \<open>Encoding\<close>,
  \<open>Types\<close>: the canonical encoder and the protocol records (\<^verbatim>\<open>satusd-types\<close>). \<open>Crypto\<close>: the third-party
  primitives as one record of functions, and the domain tags. \<open>Tier\<close>, \<open>Derive\<close>, \<open>Poseidon\<close>, \<open>Smt\<close>:
  ratio and tier, derived ids, field hashing with state and batch roots, the sparse tree
  (\<^verbatim>\<open>satusd-types\<close>, \<^verbatim>\<open>satusd-crypto\<close>). \<open>Samples\<close>: concrete values. \<open>Signers\<close>: the loop that counts
  distinct signers, used by three verifiers. \<open>Spv\<close>, \<open>Mint\<close>, \<open>Registry\<close>, \<open>Oracle\<close>, \<open>Redeem\<close>, \<open>Claim\<close>,
  \<open>Node\<close>: \<^verbatim>\<open>satusd-state\<close>. \<open>Mssmt\<close>, \<open>TaProof\<close>: \<^verbatim>\<open>satusd-ta-proof\<close>. \<open>Reserve\<close>: \<^verbatim>\<open>satusd-reserve\<close>. \<open>Da\<close>:
  \<^verbatim>\<open>satusd-da\<close>. \<open>Dispute\<close>: \<^verbatim>\<open>satusd-dispute\<close>. \<open>Wide\<close>: 64-bit values in 128-bit arithmetic. \<open>RailCode\<close>,
  \<open>Rail\<close>: encoder, decoder, capacity, phases, quote and manifest (\<^verbatim>\<open>satusd-rail\<close>). \<open>Allot\<close>: the allotment
  plan (\<^verbatim>\<open>satusd-allot\<close>). \<open>Market\<close>: markers, stake median and price disputes (\<^verbatim>\<open>satusd-verify\<close>,
  \<^verbatim>\<open>satusd-oracle\<close>). \<open>Vault\<close>: vault terms, crash payout and crash schedule (\<^verbatim>\<open>satusd-vault\<close>, with the
  buckets of \<^verbatim>\<open>satusd-rail1\<close>). \<open>Text\<close>, \<open>Rail0\<close>: number parsing, the swap plan, burn key and settlement
  check (\<^verbatim>\<open>satusd-rail0\<close>, \<^verbatim>\<open>satusd-verify\<close>). \<open>Curve\<close>: the secp256k1 crate. \<open>Schnorr\<close>: signing with a
  predetermined nonce, key extraction and adaptor signatures. \<open>Event\<close>: the oracle's announcements and
  attestations, and the adaptor points and secrets of price buckets. \<open>Tlv\<close>: the strict parsers and
  equivocation evidence (\<^verbatim>\<open>satusd-oracle\<close>, \<^verbatim>\<open>satusd-rail1\<close>). \<open>Frost\<close>: threshold attestation by a
  cohort; \<open>Lagrange\<close>: interpolation at zero; \<open>Threshold\<close>, \<open>Quorum\<close>: what the cohort's key generation and
  signatures promise. \<open>Cohortd\<close>, \<open>Directory\<close>: the cohort's wire codecs and message files, and what the
  participants publish over a shared directory in any order of their steps. \<open>Daemon\<close>: the oracle daemon's
  ticks over its directory and its HTTP routes. \<open>Tlock\<close>: the timelock escape of a batch (\<^verbatim>\<open>satusd-oracle\<close>).
  \<open>Operator\<close>, \<open>Observer\<close>: the operator's quote and the SPV evidence it builds from a bitcoin node
  (\<^verbatim>\<open>satusd-operator\<close>). \<open>Script\<close>: the scripts of the operator's HTLC, of the lock anchor and of the reserve
  spend, in an interpreter
  that keeps bitcoin's rules (\<^verbatim>\<open>satusd-operator\<close>, \<^verbatim>\<open>satusd-lock\<close>). \<open>Challenger\<close>: inspection and recomputation of a claim
  (\<^verbatim>\<open>satusd-challenger\<close>). \<open>Dto\<close>, \<open>Service\<close>, \<open>Wire\<close>, \<open>Mirror\<close>: the state node's transfer objects, its request
  dispatch, what requests can reach, and the data availability mirror (\<^verbatim>\<open>satusd-state-node\<close>).

  \<^bold>\<open>Interfaces.\<close> Each locale states what a client relies on and is interpreted on the model: \<open>executor\<close>
  (a verifier that compares with an executor's result), \<open>prefix_code\<close> (a record encoding), \<open>codec\<close> (a
  rail writer with the reader that mirrors it), \<open>weighted_walk\<close> (the cumulative walk of both medians),
  \<open>signer_loop\<close> (counting distinct signers), \<open>auth_map\<close> (the sparse tree as an authenticated map),
  \<open>header_loop\<close> (a linked chain of block headers), \<open>reserve_backend\<close> (a custody backend), \<open>hooked_backend\<close>
  (one whose committee acts between the operations), \<open>hex_crate\<close> (a
  hexadecimal codec).

  \<^bold>\<open>Conventions.\<close> A \<^verbatim>\<open>Result\<close> is \<open>res\<close> with a third constructor \<open>Panic\<close> for every call that does not
  return: \<^verbatim>\<open>unwrap\<close>, \<^verbatim>\<open>expect\<close>, an index or a slice out of range, a division by zero, a capacity
  overflow, a failed \<^verbatim>\<open>assert!\<close>. Machine integers are words; arithmetic the source leaves unchecked
  wraps, as in a release build. A \<^verbatim>\<open>Vec\<close> is a list, \<^verbatim>\<open>[u8; N]\<close> is \<open>'n barr\<close>, a \<^verbatim>\<open>BTreeMap\<close> an ascending
  association list or a map. \<^verbatim>\<open>if !c { return Err(e) }\<close> is a guard in the order of the source.
  A mutable receiver is a state that is passed and returned.

  \<^bold>\<open>Third-party code.\<close> SHA-256, Poseidon, secp256k1 and Baby Jubjub checks and the transaction
  decoder of the bitcoin crate are fields of the record \<open>crypto\<close>, passed as \<open>C\<close>. Nothing is assumed of
  them: where a property rests on collision resistance, its conclusion computes the collision.
  \<open>const_crypto\<close> is an instance for examples. The arithmetic of the secp256k1 crate is the record
  \<open>secp\<close>, passed as \<open>S\<close>; the properties of signatures assume \<open>secp_laws C S\<close>, what the crate documents of
  its operations, which \<open>dlog_secp\<close> satisfies. Where a residue is inverted by a power, its Fermat
  equation is a hypothesis: the primality of the group order is not proved here. The rail 0
  settlement check takes the transaction decoder of the bitcoin crate as an argument. The bitcoin RPC
  client is the record \<open>btc_client\<close>; what bitcoind documents of its answers is \<open>follows_chain\<close>, which
  \<open>const_client\<close> satisfies. The hex crate is the record \<open>hex_codec\<close>, and \<open>text_codec\<close> is such a codec.
  The script bytes, taproot hashes and signature hashes of the bitcoin crate are the record
  \<open>bitcoin_crate\<close>; \<open>script_encoding\<close> is what it documents of script bytes, which \<open>plain_crate\<close> satisfies.
  Bitcoin's script interpreter is the parameter \<open>ev\<close>; \<open>bitcoin_rules\<close> is what the consensus documents say
  of the opcodes used, and \<open>script_step\<close> is the interpreter they determine.
  A directory of files is the record \<open>disk\<close>: the files by name, which writes it takes, and how much of its
  content a failing write leaves behind; both may change at any step of a run.

  \<^bold>\<open>Termination.\<close> Loops over input bytes are functions with a measure on the bytes left; the loop of
  \<^verbatim>\<open>derive_nums_key\<close>, which may never end, returns an option.

  \<^bold>\<open>Not modelled.\<close> The gRPC and command line programs and the transport of the HTTP service (JSON
  parsing, routing, sockets), which only move data in and out; the funding and settlement transaction
  builders, which assemble transactions with the bitcoin crate; the test-vector generators; everything that is not Rust. In the modelled files: accessors
  that only format or serialize for JSON, and unit tests.
\<close>

section \<open>The node as a whole\<close>

definition sample_genesis :: StateNode where
  "sample_genesis = genesis_node const_crypto (fill 0) (fill 0) 0 10000000000000"

lemma sample_genesis_reachable: "node_reachable const_crypto sample_genesis"
  unfolding sample_genesis_def by (rule reachable_genesis)

text \<open>
  C1: no operation on a reachable node ends in \<^verbatim>\<open>InvariantViolation\<close>: the state roots the
  verifiers compute are those of the node's own trees after the insertion, and the custody view
  agrees with the state after every operation, whatever the inputs.
\<close>
lemma no_invariant_violation:
  assumes "node_reachable C n" and "op_allowed n op"
  shows "fst (perform_op C op n) \<noteq> Err InvariantViolation"
  using perform_op_safe [OF reachable_inv [OF assms(1)] assms(2)] by (auto simp: safe_def)

lemma no_invariant_violation_witness:
  "fst (perform_op const_crypto (IssuerRegisterOp sample_issuer) sample_genesis) \<noteq> Err InvariantViolation"
  by (rule no_invariant_violation [OF sample_genesis_reachable]) simp

text \<open>
  C2: on every reachable node custody and state agree: the total and the reservation of the backend
  are those of the state, and every pending claim is open in custody for exactly its amount.
\<close>
lemma custody_matches_state:
  assumes "node_reachable C n"
  shows "custody_view (nd_reserve n) = \<lparr>rv_total_sats = sr_reserve_btc_sats (nd_state n),
       rv_reserved_sats = sr_reserved_pending_claim_sats (nd_state n)\<rparr> \<and>
     (nd_pending_claims n k = Some c \<longrightarrow> cl_status c = ClaimPending \<longrightarrow>
        custody_held (nd_reserve n) k = Some (cl_reserved_sats c))"
  using reachable_inv [OF assms] by (auto simp: inv_defs)

lemma custody_matches_state_witness:
  "custody_view (nd_reserve sample_genesis) = \<lparr>rv_total_sats = 0, rv_reserved_sats = 0\<rparr>"
  using custody_matches_state [OF sample_genesis_reachable]
  by (simp add: sample_genesis_def genesis_node_def genesis_state_def Let_def)

text \<open>
  C3: no path proves a lock recorded that the node never recorded: an accepted membership path for
  a key outside the lock tree exhibits a Poseidon collision with the tree's own path, unless the set
  leaf of the key is the empty leaf, that is hashes to zero: then a recorded key looks like an absent one.
\<close>
lemma forged_lock_collides:
  assumes "node_reachable C n" and "\<not> smt_contains (nd_lock_record_tree n) k"
    and "verify_inclusion C (sr_lock_record_root (nd_state n)) k SET_MEMBER p"
    and "leaf_hash C k SET_MEMBER \<noteq> 0"
  shows "\<exists>w. smt_collision C k p (smt_prove C (nd_lock_record_tree n) k) (leaf_hash C k SET_MEMBER) 0 = Some w \<and>
     collides C w"
proof (rule fold_to_root_binding)
  let ?t = "nd_lock_record_tree n"
  have t: "smt_inv C ?t" "sr_lock_record_root (nd_state n) = smt_root C ?t"
    using reachable_inv [OF assms(1)] by (simp_all add: inv_defs)
  have "leaf_of (smt_leaves ?t) k = 0" using assms(2) by (simp add: smt_contains_def leaf_of_def)
  then show "fold_to_root C k (leaf_hash C k SET_MEMBER) p = fold_to_root C k 0 (smt_prove C ?t k)"
    using smt_own_proof [OF t(1), of k] assms(3) t(2) by (simp add: verify_inclusion_def)
qed (fact assms(4))

lemma forged_lock_collides_witness:
  "\<exists>w. smt_collision const_crypto (fill 4) sample_path (smt_prove const_crypto (smt_new const_crypto) (fill 4)) 1 0
     = Some w \<and> collides const_crypto w"
  using forged_lock_collides [OF sample_genesis_reachable, of "fill 4" sample_path]
  by (simp add: sample_genesis_def genesis_node_def genesis_state_def smt_contains_def smt_new_def
      verify_inclusion_def sample_path_def leaf_hash_def Let_def smt_inv_def ascending_def)

lemma state_root_binds_witness:
  "\<exists>w. state_collision const_crypto sample_state (sample_state\<lparr>sr_state_epoch := 1\<rparr>) = Some w \<and> collides const_crypto w"
  by (rule state_root_binds) (simp_all add: sample_state_def)

section \<open>The ledger of a run\<close>

text \<open>
  C14: along any run from genesis the books balance: what the state holds in reserve is what was
  deposited less what was paid out, and the supply is what was minted less what was burned, where
  only operations that were accepted count and refused ones move nothing.
\<close>
lemma ledger_balances:
  assumes "node_run C n d"
  shows "unat (sr_reserve_btc_sats (nd_state n)) + lg_paid d = lg_deposited d \<and>
     unat (sr_sat_usd_supply_atoms (nd_state n)) + lg_burned d = lg_minted d \<and>
     rv_total_sats (custody_view (nd_reserve n)) = sr_reserve_btc_sats (nd_state n)"
  using node_run_ledger [OF assms] reachable_inv [OF node_run_reachable [OF assms]]
  by (simp add: inv_defs)

text \<open>A run: an issuer registers, its deposit is committed and its mint finalized.\<close>

lemma sample_registered:
  "\<exists>r n. perform_op const_crypto (IssuerRegisterOp sample_signing_issuer) sample_genesis = (Ok r, n) \<and>
     nd_issuers n (fill 0) = Some sample_signing_issuer \<and> sr_reserve_committee_hash (nd_state n) = fill 0 \<and>
     sr_reserve_btc_sats (nd_state n) = 0 \<and> sr_sat_usd_supply_atoms (nd_state n) = 0"
proof -
  have g: "node_inv const_crypto sample_genesis" by (rule reachable_inv [OF sample_genesis_reachable])
  let ?p = "smt_prove const_crypto (nd_issuer_tree sample_genesis) (fill 0)"
  obtain s' where "apply_issuer_register const_crypto (nd_state sample_genesis) sample_signing_issuer ?p = Ok s'"
    and "s' = (registry_next_state const_crypto (nd_state sample_genesis) IssuerRegister)\<lparr>
      sr_issuer_positions_root := fr_to_be_bytes 1\<rparr>"
    by (simp add: apply_issuer_register_Ok issuer_fresh_def sample_signing_issuer_def sample_issuer_def
        verify_exclusion_def sample_genesis_def genesis_node_def genesis_state_def Let_def)
  then show ?thesis
    using g
    by (auto simp: issuer_register_def sample_signing_issuer_def sample_issuer_def commit_eq roots_match_def
        registry_next_state_def inv_defs sample_genesis_def genesis_node_def genesis_state_def Let_def)
qed

lemma sample_minted:
  assumes "node_run const_crypto n no_flow" and "nd_issuers n (fill 0) = Some sample_signing_issuer"
    and "sr_reserve_committee_hash (nd_state n) = fill 0"
    and "sr_reserve_btc_sats (nd_state n) = 0" and "sr_sat_usd_supply_atoms (nd_state n) = 0"
  shows "\<exists>r n'. perform_op const_crypto (MintCommitOp (fill 0) sample_mint_commit) n = (Ok r, n') \<and>
     is_ok (fst (perform_op const_crypto (MintFinalizeOp (fill 0) sample_mint_finalize) n'))"
proof -
  let ?i = sample_signing_issuer
  let ?i' = "?i\<lparr>ip_reserve_deposits_sats := 1000000, ip_pending_mint_atoms := 500,
    ip_last_deposit_txid := Some (fill 0), ip_pending_mint_commitment := Some (fill 0)\<rparr>"
  let ?p = "smt_prove const_crypto (nd_issuer_tree n) (fill 0)"
  have inv: "node_inv const_crypto n" by (rule reachable_inv [OF node_run_reachable [OF assms(1)]])
  then have root: "sr_issuer_positions_root (nd_state n) = fr_to_be_bytes 1" by (auto simp: inv_defs)
  have 1: "issuer_after_commit const_crypto ?i sample_mint_commit = Ok ?i'"
    by (simp add: issuer_after_commit_def sample_mint_commit_def sample_signing_issuer_def sample_mint_defs
        mint_commitment_def tagged_hash_def checked_add_def)
  obtain s' where c: "apply_mint_commit const_crypto (nd_state n) ?i ?p sample_mint_commit = Ok s'"
    using sample_commit_guards [OF assms(3) root] 1
    by (auto simp: apply_mint_commit_Ok commit_guards_def assms root sample_mint_commit_def sample_mint_defs
        checked_add_def verify_inclusion_def collateral_ratio_ppm_cases recompute_tier_cases cr_nat_def
        set_state_tier_def next_state_def root_after_update_def MIN_MINT_CR_PPM_def TIER_HEALTHY_THRESHOLD_PPM_def)
  have s': "sr_reserve_btc_sats s' = 1000000" "sr_sat_usd_supply_atoms s' = 0"
    using c by (auto simp: apply_mint_commit_Ok assms sample_mint_commit_def checked_add_def set_state_tier_Ok next_state_def)
  let ?m = "perform_op const_crypto (MintCommitOp (fill 0) sample_mint_commit) n"
  have safe: "safe const_crypto n (flow_of (MintCommitOp (fill 0) sample_mint_commit) n) ?m"
    by (rule perform_op_safe [OF inv]) simp
  have "is_ok (fst ?m) \<and> nd_state (snd ?m) = s' \<and> nd_issuers (snd ?m) (fill 0) = Some ?i'"
    using safe assms(2) c 1
    by (auto simp: safe_def mint_commit_def commit_eq reserve_consistent_def Let_def split: if_splits)
  then obtain r n' where m: "?m = (Ok r, n')" "nd_state n' = s'" "nd_issuers n' (fill 0) = Some ?i'"
    by (cases "fst ?m") (auto simp: prod_eq_iff)
  have inv': "node_inv const_crypto n'" using safe m(1) by (simp add: safe_def)
  then have root': "sr_issuer_positions_root s' = fr_to_be_bytes 1" using m(2) by (auto simp: inv_defs)
  obtain s'' i'' where f: "apply_mint_finalize const_crypto s' ?i' (smt_prove const_crypto (nd_issuer_tree n') (fill 0))
      sample_mint_finalize = Ok s''" "issuer_after_finalize ?i' (mf_requested_mint_atoms sample_mint_finalize) = Ok i''"
    using s' root'
    by (auto simp: apply_mint_finalize_Ok sample_signing_issuer_def sample_mint_defs mint_commitment_def tagged_hash_def
        checked_add_def checked_sub_def verify_inclusion_def collateral_ratio_ppm_cases recompute_tier_cases cr_nat_def
        issuer_after_finalize_def set_state_tier_def next_state_def root_after_update_def MIN_MINT_CR_PPM_def
        TIER_HEALTHY_THRESHOLD_PPM_def)
  have "fst (perform_op const_crypto (MintFinalizeOp (fill 0) sample_mint_finalize) n') \<noteq> Err InvariantViolation"
    using perform_op_safe [OF inv', of "MintFinalizeOp (fill 0) sample_mint_finalize"] by (auto simp: safe_def)
  then have "is_ok (fst (perform_op const_crypto (MintFinalizeOp (fill 0) sample_mint_finalize) n'))"
    using f m(2,3) by (auto simp: mint_finalize_def commit_eq Let_def split: if_splits)
  with m(1) show ?thesis by blast
qed

lemma sample_run:
  "\<exists>n. node_run const_crypto n \<lparr>lg_deposited = 1000000, lg_paid = 0, lg_minted = 500, lg_burned = 0\<rparr>"
proof -
  obtain r n where 1: "perform_op const_crypto (IssuerRegisterOp sample_signing_issuer) sample_genesis = (Ok r, n)"
    and n: "nd_issuers n (fill 0) = Some sample_signing_issuer" "sr_reserve_committee_hash (nd_state n) = fill 0"
      "sr_reserve_btc_sats (nd_state n) = 0" "sr_sat_usd_supply_atoms (nd_state n) = 0"
    using sample_registered by blast
  have "node_run const_crypto sample_genesis no_flow" unfolding sample_genesis_def by (rule run_genesis)
  from run_op [OF this _ 1] have r1: "node_run const_crypto n no_flow"
    by (simp add: add_flow_def no_flow_def)
  obtain q n' where 2: "perform_op const_crypto (MintCommitOp (fill 0) sample_mint_commit) n = (Ok q, n')"
    and 3: "is_ok (fst (perform_op const_crypto (MintFinalizeOp (fill 0) sample_mint_finalize) n'))"
    using sample_minted [OF r1 n] by blast
  from run_op [OF r1 _ 2] have
    r2: "node_run const_crypto n' \<lparr>lg_deposited = 1000000, lg_paid = 0, lg_minted = 0, lg_burned = 0\<rparr>"
    by (simp add: add_flow_def no_flow_def sample_mint_commit_def)
  have "node_run const_crypto (snd (perform_op const_crypto (MintFinalizeOp (fill 0) sample_mint_finalize) n'))
      \<lparr>lg_deposited = 1000000, lg_paid = 0, lg_minted = 500, lg_burned = 0\<rparr>"
    using run_op [OF r2 _ surjective_pairing, of "MintFinalizeOp (fill 0) sample_mint_finalize"] 3
    by (simp add: add_flow_def no_flow_def sample_mint_finalize_def)
  then show ?thesis ..
qed

lemma ledger_balances_witness:
  "\<exists>n. node_reachable const_crypto n \<and> unat (sr_reserve_btc_sats (nd_state n)) = 1000000 \<and>
     unat (sr_sat_usd_supply_atoms (nd_state n)) = 500"
proof -
  obtain n where r: "node_run const_crypto n \<lparr>lg_deposited = 1000000, lg_paid = 0, lg_minted = 500, lg_burned = 0\<rparr>"
    using sample_run by blast
  show ?thesis using ledger_balances [OF r] node_run_reachable [OF r] by auto
qed

text \<open>
  C15: an operation that a reachable node refuses, by error or by panic, leaves the node as it was in
  everything but its custody backend, and the backend's total and reservation as they were too.
\<close>
lemma refused_untouched:
  assumes "node_reachable C n" and "op_allowed n op" and "\<not> is_ok (fst (perform_op C op n))"
  shows "snd (perform_op C op n) = n\<lparr>nd_reserve := nd_reserve (snd (perform_op C op n))\<rparr> \<and>
     custody_view (nd_reserve (snd (perform_op C op n))) = custody_view (nd_reserve n)"
proof -
  let ?m = "perform_op C op n"
  have inv: "node_inv C n" by (rule reachable_inv [OF assms(1)])
  then have m: "node_inv C (snd ?m)" "untouched n (snd ?m)"
    using perform_op_safe [OF inv assms(2)] assms(3) by (auto simp: safe_def split: res.splits)
  have "nd_state (snd ?m) = nd_state n" by (rule untouched_state [OF m(2)])
  then have "custody_view (nd_reserve (snd ?m)) = custody_view (nd_reserve n)"
    using inv m(1) by (simp add: node_inv_def custody_inv_def)
  moreover have "snd ?m = n\<lparr>nd_reserve := nd_reserve (snd ?m)\<rparr>"
    using m(2) by (simp only: untouched_def)
  ultimately show ?thesis by blast
qed

lemma refused_untouched_witness:
  "custody_view (nd_reserve (snd (perform_op const_crypto (MintCommitOp (fill 0) sample_mint_commit) sample_genesis)))
     = custody_view (nd_reserve sample_genesis)"
  by (rule refused_untouched [OF sample_genesis_reachable, THEN conjunct2])
    (simp_all add: mint_commit_def sample_genesis_def genesis_node_def)

end
